(* ===== verification/NoOS_Prelude.thy ===== *)
theory NoOS_Prelude
  imports Main "HOL-Library.Word" "HOL-Library.Monad_Syntax"
begin

text \<open>
  Shared vocabulary of the development: the fixed-width integers of the C sources, the
  return codes of include/error.h, the C heap (calloc and free, with every allocation
  allowed to fail), and the generic list, option and word lemmas the component theories use.

  Conventions. A C function that may have undefined behaviour (a NULL or dangling pointer is
  dereferenced, an index is out of range, a division by zero, a double free) or that may spin
  for ever returns an \<open>option\<close>, and \<open>None\<close> is that outcome; a function that always
  returns has no \<open>option\<close>. Error returns are values: the int32_t code of the source is an
  \<open>int\<close>, SUCCESS is 0 and errors are negative. A pointer that may be NULL is an
  \<open>option\<close>.
\<close>

unbundle bit_operations_syntax

section \<open>Integer types and return codes\<close>

type_synonym u8 = "8 word"
type_synonym u16 = "16 word"
type_synonym u32 = "32 word"
type_synonym u64 = "64 word"

text \<open>Return codes: include/error.h, and the errno values of newlib, which the targets use.\<close>

definition SUCCESS :: int where [simp]: "SUCCESS = 0"
definition FAILURE :: int where [simp]: "FAILURE = -1"
definition ENOENT :: int where [simp]: "ENOENT = 2"
definition EAGAIN :: int where [simp]: "EAGAIN = 11"
definition ENOMEM :: int where [simp]: "ENOMEM = 12"
definition EBUSY :: int where [simp]: "EBUSY = 16"
definition ENODEV :: int where [simp]: "ENODEV = 19"
definition EINVAL :: int where [simp]: "EINVAL = 22"
definition EMLINK :: int where [simp]: "EMLINK = 31"
definition ENOSYS :: int where [simp]: "ENOSYS = 88"
definition EISCONN :: int where [simp]: "EISCONN = 127"
definition ENOTCONN :: int where [simp]: "ENOTCONN = 128"
definition EOVERRUN :: int where [simp]: "EOVERRUN = 2001"

definition IS_ERR_VALUE :: "int \<Rightarrow> bool" where
  [simp]: "IS_ERR_VALUE x = (x < 0)"

text \<open>The run stops (\<open>None\<close>) where the condition for defined behaviour fails.\<close>

definition guard :: "bool \<Rightarrow> unit option" where
  "guard b = (if b then Some () else None)"

lemma guard_simps [simp]: "guard True = Some ()" "guard False = None"
  by (simp_all add: guard_def)

lemma guard_eq_Some [simp]: "(guard b = Some u) = b"
  by (simp add: guard_def)

lemma bind_guard_eq_Some [simp]: "(Option.bind (guard b) f = Some r) = (b \<and> f () = Some r)"
  by (cases b) auto

section \<open>Words\<close>

lemma unat_u32_less [simp]: "unat (w :: u32) < 4294967296"
  using unsigned_less [of w, where ?'a = nat] by simp

lemma unat_u8_less [simp]: "unat (w :: u8) < 256"
  using unsigned_less [of w, where ?'a = nat] by simp

lemma unat_of_nat_u32: "n < 4294967296 \<Longrightarrow> unat (of_nat n :: u32) = n"
  by (simp add: unat_of_nat)

lemma u32_Suc_nowrap: "(w :: u32) + 1 \<noteq> 0 \<Longrightarrow> unat (w + 1) = Suc (unat w)"
  using unatSuc [of w] by (simp add: add.commute)

lemma u32_Suc_below: "unat (w :: u32) < 4294967295 \<Longrightarrow> unat (w + 1) = Suc (unat w)"
  by (simp add: unat_word_ariths)

lemma u32_Suc_measure:
  "(w :: u32) + 1 \<noteq> 0 \<Longrightarrow> 4294967296 - unat (w + 1) < 4294967296 - unat w"
  using unat_u32_less [of w] u32_Suc_nowrap [of w] by linarith

lemma and_1_ne_0_iff [simp]: "(w AND 1 \<noteq> 0) = bit w 0" for w :: "'a::len word"
  by (simp add: and_one_eq bit_0 odd_iff_mod_2_eq_one)

lemma u32_all_ones_le: "(-1 :: u32) \<le> a \<longleftrightarrow> a = -1"
  by (metis order_refl word_order.extremum_unique)

lemma u32_all_ones: "(0xffffffff :: u32) = -1"
  by code_simp

lemma sint_u32_small: "unat (i :: u32) < 2 ^ 31 \<Longrightarrow> sint i = int (unat i)"
proof -
  assume "unat i < 2 ^ 31"
  then have "int (unat i) < int (2 ^ 31)" by (simp only: of_nat_less_iff)
  then have "uint i < 2 ^ 31" by simp
  moreover have "- (2 ^ 31) \<le> uint i" by (rule order_trans [of _ 0]) simp_all
  ultimately have "sint i = uint i" by (simp add: sint_uint signed_take_bit_int_eq_self_iff)
  then show ?thesis by simp
qed

section \<open>Lists\<close>

lemma take_drop_split:
  "k \<le> m \<Longrightarrow> take k (drop i xs) @ take (m - k) (drop (i + k) xs) = take m (drop i xs)"
  using take_add [of k "m - k" "drop i xs"] by (simp add: add.commute)

section \<open>Byte arrays\<close>

text \<open>The two halves of a memcpy; a range outside the array is undefined.\<close>

definition mem_write :: "u8 list \<Rightarrow> nat \<Rightarrow> u8 list \<Rightarrow> u8 list option" where
  "mem_write dst at src =
     (if at + length src \<le> length dst
      then Some (take at dst @ src @ drop (at + length src) dst) else None)"

definition mem_read :: "u8 list \<Rightarrow> nat \<Rightarrow> nat \<Rightarrow> u8 list option" where
  "mem_read src at n = (if at + n \<le> length src then Some (take n (drop at src)) else None)"

lemma mem_write_ok:
  "at + length src \<le> length dst \<Longrightarrow> \<exists>r. mem_write dst at src = Some r \<and> length r = length dst"
  by (simp add: mem_write_def)

lemma mem_write_same: "at + k \<le> length xs \<Longrightarrow> mem_write xs at (take k (drop at xs)) = Some xs"
  by (simp add: mem_write_def) (metis add.commute append_take_drop_id drop_drop)

section \<open>The C heap\<close>

text \<open>
  A heap of cells of one struct type: the live cells by address, the next address calloc
  hands out, and the allocation failures the environment has in store (\<open>oom n\<close> says that
  the allocation made when \<open>brk\<close> is \<open>n\<close> fails). Addresses of freed cells are not reused.
\<close>

record 'e heap =
  cells :: "nat \<rightharpoonup> 'e"
  brk :: nat
  oom :: "nat \<Rightarrow> bool"

definition calloc :: "'e \<Rightarrow> 'e heap \<Rightarrow> nat option \<times> 'e heap" where
  "calloc e h =
     (if oom h (brk h) then (None, h\<lparr>brk := Suc (brk h)\<rparr>)
      else (Some (brk h), h\<lparr>cells := (cells h)(brk h \<mapsto> e), brk := Suc (brk h)\<rparr>))"

definition cfree :: "nat \<Rightarrow> 'e heap \<Rightarrow> 'e heap option" where
  "cfree a h = (case cells h a of None \<Rightarrow> None
     | Some _ \<Rightarrow> Some (h\<lparr>cells := (cells h)(a := None)\<rparr>))"

definition heap_wf :: "'e heap \<Rightarrow> bool" where
  "heap_wf h \<longleftrightarrow> (\<forall>a \<in> dom (cells h). a < brk h)"

lemma heap_wf_fresh: "heap_wf h \<Longrightarrow> cells h (brk h) = None"
  by (auto simp: heap_wf_def)

lemma heap_wf_alloc:
  "heap_wf h \<Longrightarrow> heap_wf (h\<lparr>cells := (cells h)(brk h \<mapsto> e), brk := Suc (brk h)\<rparr>)"
  by (auto simp: heap_wf_def less_Suc_eq)

lemma heap_wf_brk: "heap_wf h \<Longrightarrow> heap_wf (h\<lparr>brk := Suc (brk h)\<rparr>)"
  by (auto simp: heap_wf_def less_Suc_eq)

lemma heap_wf_brk_mono: "heap_wf h \<Longrightarrow> brk h \<le> k \<Longrightarrow> heap_wf (h\<lparr>brk := k\<rparr>)"
  unfolding heap_wf_def by (simp, blast intro: less_le_trans)

lemma heap_wf_upd:
  "heap_wf h \<Longrightarrow> cells h a = Some e \<Longrightarrow> heap_wf (h\<lparr>cells := (cells h)(a \<mapsto> e')\<rparr>)"
  by (auto simp: heap_wf_def)

lemma heap_wf_free: "heap_wf h \<Longrightarrow> heap_wf (h\<lparr>cells := (cells h)(a := None)\<rparr>)"
  by (auto simp: heap_wf_def)

end
