(* ===== verification/Util.thy ===== *)
theory Util
  imports NoOS_Prelude "HOL-Library.Signed_Division"
begin

text \<open>
  util/util.c and the macros of include/util.h: bit searches, mask fields, division helpers,
  the greatest common divisor, the nearest element of a table. The loops keep the shape of
  the source; uint32_t and uint64_t are words, so \<open>>>\<close> and \<open>++\<close> have the widths of the
  code. A shift by 32 or more and a division by zero are undefined in C and are \<open>None\<close>.
\<close>

section \<open>Definitions\<close>

subsection \<open>Macros of util.h\<close>

definition bswap_constant_32 :: "u32 \<Rightarrow> u32" where
  "bswap_constant_32 x =
     drop_bit 24 (x AND 0xff000000) OR drop_bit 8 (x AND 0x00ff0000) OR
     push_bit 8 (x AND 0x0000ff00) OR push_bit 24 (x AND 0x000000ff)"

definition bit_swap_constant_8 :: "u8 \<Rightarrow> u8" where
  "bit_swap_constant_8 x =
     drop_bit 7 (x AND 0x80) OR drop_bit 5 (x AND 0x40) OR
     drop_bit 3 (x AND 0x20) OR drop_bit 1 (x AND 0x10) OR
     push_bit 1 (x AND 0x08) OR push_bit 3 (x AND 0x04) OR
     push_bit 5 (x AND 0x02) OR push_bit 7 (x AND 0x01)"

definition shl32 :: "u32 \<Rightarrow> nat \<Rightarrow> u32 option" where
  "shl32 x n = (if n < 32 then Some (push_bit n x) else None)"

definition shr32 :: "u32 \<Rightarrow> nat \<Rightarrow> u32 option" where
  "shr32 x n = (if n < 32 then Some (drop_bit n x) else None)"

definition GENMASK :: "nat \<Rightarrow> nat \<Rightarrow> u32 option" where
  "GENMASK h l = do {
     guard (l \<le> h \<and> h < 32);
     t \<leftarrow> shl32 (NOT 0) (32 - (h - l + 1));
     shr32 t (32 - (h + 1))
   }"

definition DIV_ROUND_UP :: "u32 \<Rightarrow> u32 \<Rightarrow> u32 option" where
  "DIV_ROUND_UP x y = (if y = 0 then None else Some ((x + y - 1) div y))"

definition DIV_ROUND_CLOSEST :: "u32 \<Rightarrow> u32 \<Rightarrow> u32 option" where
  "DIV_ROUND_CLOSEST x y = (if y = 0 then None else Some ((x + y div 2) div y))"

definition min_u32 :: "u32 \<Rightarrow> u32 \<Rightarrow> u32" where
  "min_u32 x y = (if x < y then x else y)"

definition max_u32 :: "u32 \<Rightarrow> u32 \<Rightarrow> u32" where
  "max_u32 x y = (if x > y then x else y)"

definition clamp_u32 :: "u32 \<Rightarrow> u32 \<Rightarrow> u32 \<Rightarrow> u32" where
  "clamp_u32 val min_val max_val = max_u32 (min_u32 val max_val) min_val"

text \<open>shift_right on a signed 64 bit value: the shift rounds towards zero.\<close>

definition shift_right :: "int \<Rightarrow> nat \<Rightarrow> int" where
  "shift_right x s = (if x < 0 then - drop_bit s (- x) else drop_bit s x)"

subsection \<open>Bit searches\<close>

lemma unat_drop_bit_1_less: "(w :: u32) \<noteq> 0 \<Longrightarrow> unat (drop_bit 1 w) < unat w"
  by (simp add: drop_bit_eq_div unat_div unat_gt_0)

function find_first_set_bit_loop :: "u32 \<Rightarrow> u32 \<Rightarrow> u32" where
  "find_first_set_bit_loop word first_set_bit =
     (if word = 0 then 32
      else if word AND 1 \<noteq> 0 then first_set_bit
      else find_first_set_bit_loop (drop_bit 1 word) (first_set_bit + 1))"
  by pat_completeness auto
termination
  by (relation "measure (\<lambda>(word, _). unat word)") (auto simp only: in_measure split: prod.splits intro: unat_drop_bit_1_less)

definition find_first_set_bit :: "u32 \<Rightarrow> u32" where
  "find_first_set_bit word = find_first_set_bit_loop word 0"

function find_last_set_bit_loop :: "u32 \<Rightarrow> u32 \<Rightarrow> u32 \<Rightarrow> u32" where
  "find_last_set_bit_loop word bit_no last_set_bit =
     (if word = 0 then last_set_bit
      else find_last_set_bit_loop (drop_bit 1 word) (bit_no + 1)
             (if word AND 1 \<noteq> 0 then bit_no else last_set_bit))"
  by pat_completeness auto
termination
  by (relation "measure (\<lambda>(word, _). unat word)") (auto simp only: in_measure split: prod.splits intro: unat_drop_bit_1_less)

definition find_last_set_bit :: "u32 \<Rightarrow> u32" where
  "find_last_set_bit word = find_last_set_bit_loop word 0 32"

definition log_base_2 :: "u32 \<Rightarrow> int" where
  "log_base_2 x = sint (find_last_set_bit x)"

function hweight8_loop :: "u32 \<Rightarrow> u32 \<Rightarrow> u32" where
  "hweight8_loop word count =
     (if word = 0 then count
      else hweight8_loop (drop_bit 1 word) (if word AND 1 \<noteq> 0 then count + 1 else count))"
  by pat_completeness auto
termination
  by (relation "measure (\<lambda>(word, _). unat word)") (auto simp only: in_measure split: prod.splits intro: unat_drop_bit_1_less)

definition hweight8 :: "u32 \<Rightarrow> u32" where
  "hweight8 word = hweight8_loop word 0"

declare find_first_set_bit_loop.simps [simp del]
declare find_last_set_bit_loop.simps [simp del]
declare hweight8_loop.simps [simp del]

subsection \<open>Fields of a register\<close>

definition field_prep :: "u32 \<Rightarrow> u32 \<Rightarrow> u32 option" where
  "field_prep msk val = do {
     v \<leftarrow> shl32 val (unat (find_first_set_bit msk));
     Some (v AND msk)
   }"

definition field_get :: "u32 \<Rightarrow> u32 \<Rightarrow> u32 option" where
  "field_get msk word = shr32 (word AND msk) (unat (find_first_set_bit msk))"

subsection \<open>Nearest element of a table\<close>

text \<open>
  The values are int32_t; the subtraction and abs are done in int, so a result outside the
  range of int is undefined behaviour, as is reading past the array.
\<close>

definition in_s32 :: "int \<Rightarrow> bool" where
  "in_s32 x \<longleftrightarrow> - (2 ^ 31) \<le> x \<and> x < 2 ^ 31"

definition abs_diff :: "int list \<Rightarrow> nat \<Rightarrow> int \<Rightarrow> int option" where
  "abs_diff array i val = do {
     guard (i < length array);
     guard (in_s32 (array ! i - val) \<and> in_s32 \<bar>array ! i - val\<bar>);
     Some \<bar>array ! i - val\<bar>
   }"

function find_closest_loop ::
  "int \<Rightarrow> int list \<Rightarrow> nat \<Rightarrow> nat \<Rightarrow> int \<Rightarrow> nat \<Rightarrow> nat option" where
  "find_closest_loop val array sz i diff ret =
     (if i < sz then do {
        d \<leftarrow> abs_diff array i val;
        if d < diff then find_closest_loop val array sz (Suc i) d i
        else find_closest_loop val array sz (Suc i) diff ret
      } else Some ret)"
  by pat_completeness auto
termination
  by (relation "measure (\<lambda>(_, _, sz, i, _, _). sz - i)") auto

declare find_closest_loop.simps [simp del]

definition find_closest :: "int \<Rightarrow> int list \<Rightarrow> nat \<Rightarrow> nat option" where
  "find_closest val array sz = do {
     diff \<leftarrow> abs_diff array 0 val;
     find_closest_loop val array sz 1 diff 0
   }"

subsection \<open>Greatest common divisor, best rational approximation\<close>

text \<open>
  The trial divisor is a uint32_t: after 0xffffffff it wraps to 0, and a modulo by 0 is
  undefined.
\<close>

function gcd_loop :: "u32 \<Rightarrow> u32 \<Rightarrow> u32 \<Rightarrow> u32 \<Rightarrow> u32 option" where
  "gcd_loop a b dv common_div =
     (if dv \<le> a \<and> dv \<le> b then
        if dv = 0 then None
        else gcd_loop a b (dv + 1) (if a mod dv = 0 \<and> b mod dv = 0 then dv else common_div)
      else Some common_div)"
  by pat_completeness auto
termination
  by (relation "measure (\<lambda>(_, _, dv :: u32, _). if dv = 0 then 0 else 2 ^ 32 - unat dv)")
    (auto simp: u32_Suc_measure)

declare gcd_loop.simps [simp del]

definition greatest_common_divisor :: "u32 \<Rightarrow> u32 \<Rightarrow> u32 option" where
  "greatest_common_divisor a b =
     (if a = 0 \<or> b = 0 then Some (max_u32 a b) else gcd_loop a b 1 1)"

definition rational_best_approximation :: "u32 \<Rightarrow> u32 \<Rightarrow> u32 \<Rightarrow> u32 \<Rightarrow> (u32 \<times> u32) option" where
  "rational_best_approximation given_numerator given_denominator max_numerator max_denominator =
     do {
       g \<leftarrow> greatest_common_divisor given_numerator given_denominator;
       guard (g \<noteq> 0);
       let best_numerator = given_numerator div g;
       let best_denominator = given_denominator div g;
       if best_numerator > max_numerator \<or> best_denominator > max_denominator
       then Some (0, 0) else Some (best_numerator, best_denominator)
     }"

subsection \<open>Divisions with remainder\<close>

definition do_div :: "u64 \<Rightarrow> u64 \<Rightarrow> (u64 \<times> u64) option" where
  "do_div n base = (if base = 0 then None else Some (n mod base, n div base))"

definition div64_u64_rem :: "u64 \<Rightarrow> u64 \<Rightarrow> (u64 \<times> u64) option" where
  "div64_u64_rem dividend divisor =
     (if divisor = 0 then None else Some (dividend div divisor, dividend mod divisor))"

definition div_u64_rem :: "u64 \<Rightarrow> u32 \<Rightarrow> (u64 \<times> u32) option" where
  "div_u64_rem dividend divisor = do {
     (r, q) \<leftarrow> do_div dividend (ucast divisor);
     Some (q, ucast r)
   }"

definition div_u64 :: "u64 \<Rightarrow> u32 \<Rightarrow> u64 option" where
  "div_u64 dividend divisor = map_option fst (div_u64_rem dividend divisor)"

text \<open>Signed division truncates towards zero; INT64_MIN / -1 overflows.\<close>

definition div_s64_rem :: "int \<Rightarrow> int \<Rightarrow> (int \<times> int) option" where
  "div_s64_rem dividend divisor =
     (if divisor = 0 \<or> (dividend = - (2 ^ 63) \<and> divisor = -1) then None
      else Some (dividend sdiv divisor, dividend smod divisor))"

definition div_s64 :: "int \<Rightarrow> int \<Rightarrow> int option" where
  "div_s64 dividend divisor = map_option fst (div_s64_rem dividend divisor)"

section \<open>Properties\<close>

subsection \<open>Bit searches\<close>

lemma bit_drop_bit_1 [simp]: "bit (drop_bit (Suc 0) w) m = bit w (Suc m)" for w :: u32
  by (simp add: bit_drop_bit_eq)

lemma word_ne_0_bit:
  assumes "(w :: u32) \<noteq> 0" "\<not> bit w 0"
  shows "drop_bit (Suc 0) w \<noteq> 0"
proof -
  from assms(1) obtain n where "bit w n" by (auto simp: bit_eq_iff)
  with assms(2) obtain m where "bit (drop_bit (Suc 0) w) m" by (cases n) auto
  then show ?thesis by (auto simp del: bit_drop_bit_1)
qed

lemma find_first_set_bit_loop_spec:
  "w \<noteq> 0 \<Longrightarrow> \<exists>n. bit w n \<and> (\<forall>m<n. \<not> bit w m) \<and>
     find_first_set_bit_loop w k = k + of_nat n"
proof (induction w k rule: find_first_set_bit_loop.induct)
  case (1 w k)
  show ?case
  proof (cases "bit w 0")
    case True
    then show ?thesis
      using "1.prems" by (intro exI [of _ 0]) (simp add: find_first_set_bit_loop.simps [of w k])
  next
    case False
    with "1.prems" have "drop_bit (Suc 0) w \<noteq> 0" by (rule word_ne_0_bit)
    with "1.IH" [OF "1.prems"] False obtain n where
      n: "bit w (Suc n)" "\<forall>m<n. \<not> bit w (Suc m)"
        "find_first_set_bit_loop (drop_bit (Suc 0) w) (k + 1) = k + 1 + of_nat n"
      by auto
    have "\<forall>m<Suc n. \<not> bit w m"
      using False n(2) by (auto simp: less_Suc_eq_0_disj)
    with n False "1.prems" show ?thesis
      by (intro exI [of _ "Suc n"])
        (simp add: find_first_set_bit_loop.simps [of w k] algebra_simps)
  qed
qed

lemma find_first_set_bit_obtain:
  assumes "w \<noteq> 0"
  obtains n where "bit w n" "\<forall>m<n. \<not> bit w m" "unat (find_first_set_bit w) = n" "n < 32"
proof -
  obtain n where n: "bit w n" "\<forall>m<n. \<not> bit w m" "find_first_set_bit w = of_nat n"
    using find_first_set_bit_loop_spec [OF assms, of 0] by (auto simp: find_first_set_bit_def)
  moreover have "n < 32" using n(1) bit_imp_le_length [of w n] by simp
  ultimately show ?thesis using that by (simp add: unat_of_nat)
qed

text \<open>
  find_first_set_bit returns the index of the lowest set bit of a non-zero word, and 32
  for zero.
\<close>

theorem find_first_set_bit_lowest:
  "unat (find_first_set_bit w) = (if w = 0 then 32 else (LEAST n. bit w n))"
proof (cases "w = 0")
  case True
  then show ?thesis by (simp add: find_first_set_bit_def find_first_set_bit_loop.simps)
next
  case False
  then obtain n where "bit w n" "\<forall>m<n. \<not> bit w m" "unat (find_first_set_bit w) = n"
    by (rule find_first_set_bit_obtain)
  then show ?thesis
    using False by (metis (lifting) LeastI_ex Least_le le_neq_implies_less)
qed

lemma find_last_set_bit_loop_spec:
  "(w = 0 \<longrightarrow> find_last_set_bit_loop w k l = l) \<and>
   (w \<noteq> 0 \<longrightarrow> (\<exists>n. bit w n \<and> (\<forall>m>n. \<not> bit w m) \<and>
      find_last_set_bit_loop w k l = k + of_nat n))"
proof (induction w k l rule: find_last_set_bit_loop.induct)
  case (1 w k l)
  show ?case
  proof (cases "w = 0 \<or> drop_bit (Suc 0) w = 0")
    case True
    show ?thesis
    proof (cases "w = 0")
      case False
      with True have z: "drop_bit (Suc 0) w = 0" by simp
      then have "\<forall>m. \<not> bit w (Suc m)" by (metis bit_drop_bit_1 bit_0_eq bot_apply bot_bool_def)
      moreover from False z have "bit w 0" using word_ne_0_bit by blast
      ultimately show ?thesis using False z "1.IH"
        by (intro conjI impI exI [of _ 0])
          (auto simp: find_last_set_bit_loop.simps [of w k l] gr0_conv_Suc)
    qed (simp add: find_last_set_bit_loop.simps)
  next
    case False
    then obtain n where n: "bit w (Suc n)" "\<forall>m>n. \<not> bit w (Suc m)"
      "find_last_set_bit_loop (drop_bit (Suc 0) w) (k + 1) (if bit w 0 then k else l) =
       k + 1 + of_nat n"
      using "1.IH" by auto
    from n(2) have "\<forall>m>Suc n. \<not> bit w m" by (metis Suc_lessE)
    with n False show ?thesis
      by (auto simp: find_last_set_bit_loop.simps [of w k l] algebra_simps
          intro!: exI [of _ "Suc n"])
  qed
qed

lemma find_last_set_bit_obtain:
  assumes "w \<noteq> 0"
  obtains n where "bit w n" "\<forall>m>n. \<not> bit w m" "unat (find_last_set_bit w) = n" "n < 32"
proof -
  obtain n where n: "bit w n" "\<forall>m>n. \<not> bit w m" "find_last_set_bit w = of_nat n"
    using find_last_set_bit_loop_spec [of w 0 32] assms by (auto simp: find_last_set_bit_def)
  moreover have "n < 32" using n(1) bit_imp_le_length [of w n] by simp
  ultimately show ?thesis using that by (simp add: unat_of_nat)
qed

lemma less_2p_bit: "unat (x :: u32) < 2 ^ l \<longleftrightarrow> (\<forall>n\<ge>l. \<not> bit x n)"
proof -
  have "unat x < 2 ^ l \<longleftrightarrow> take_bit l (unat x) = unat x"
    by (simp add: take_bit_nat_eq_self_iff)
  also have "\<dots> \<longleftrightarrow> (\<forall>n. bit (take_bit l (unat x)) n = bit (unat x) n)"
    by (simp add: bit_eq_iff)
  also have "\<dots> \<longleftrightarrow> (\<forall>n. (n < l \<and> bit x n) = bit x n)"
    by (simp add: bit_take_bit_iff bit_unsigned_iff)
  also have "\<dots> \<longleftrightarrow> (\<forall>n\<ge>l. \<not> bit x n)"
    by (meson not_le)
  finally show ?thesis .
qed

text \<open>
  log_base_2 of a non-zero word is the exponent of the power of two at or below it.
\<close>

theorem log_base_2_bounds:
  assumes "x \<noteq> 0"
  shows "0 \<le> log_base_2 x \<and> 2 ^ nat (log_base_2 x) \<le> unat x \<and> unat x < 2 ^ (nat (log_base_2 x) + 1)"
proof -
  obtain n where n: "bit x n" "\<forall>m>n. \<not> bit x m" "unat (find_last_set_bit x) = n" "n < 32"
    using assms by (rule find_last_set_bit_obtain)
  have lb: "log_base_2 x = int n"
    using n(3,4) by (simp add: log_base_2_def sint_uint signed_take_bit_int_eq_self_iff uint_nat)
  have "\<not> unat x < 2 ^ n" using n(1) by (auto simp: less_2p_bit)
  moreover have "unat x < 2 ^ Suc n" using n(2) by (simp only: less_2p_bit) (simp add: Suc_le_eq)
  ultimately show ?thesis by (simp add: lb)
qed

theorem log_base_2_bounds_witness:
  "(1000 :: u32) \<noteq> 0 \<and> 2 ^ nat (log_base_2 1000) \<le> unat (1000 :: u32)"
  using log_base_2_bounds [of 1000] by simp

lemma bits_Suc_image:
  "{n. bit (w :: u32) n} = (if bit w 0 then {0} else {}) \<union> Suc ` {n. bit w (Suc n)}"
proof (rule set_eqI)
  fix n show "n \<in> {n. bit w n} \<longleftrightarrow>
      n \<in> (if bit w 0 then {0} else {}) \<union> Suc ` {n. bit w (Suc n)}"
    by (cases n) auto
qed

lemma finite_bits [simp]: "finite {n. bit (w :: u32) n}"
  by (rule finite_subset [of _ "{..<32}"]) (auto dest: bit_imp_le_length)

lemma card_bits_Suc:
  "card {n. bit (w :: u32) n} = of_bool (bit w 0) + card {n. bit w (Suc n)}"
proof -
  have f: "finite {n. bit w (Suc n)}" using finite_bits [of "drop_bit (Suc 0) w"] by simp
  then show ?thesis
    by (subst bits_Suc_image) (auto simp: card_image card_insert_if)
qed

lemma hweight8_loop_card: "hweight8_loop w c = c + of_nat (card {n. bit w n})"
proof (induction w c rule: hweight8_loop.induct)
  case (1 w c)
  show ?case
  proof (cases "w = 0")
    case False
    then show ?thesis
      using "1.IH" by (simp add: hweight8_loop.simps [of w c] card_bits_Suc [of w])
  qed (simp add: hweight8_loop.simps)
qed

text \<open>
  hweight8 counts the set bits of its whole 32 bit argument.
\<close>

theorem hweight8_counts_bits: "unat (hweight8 w) = card {n. bit w n}"
proof -
  have "card {n. bit w n} \<le> card {..<32 :: nat}"
    by (rule card_mono) (auto dest: bit_imp_le_length)
  then show ?thesis by (simp add: hweight8_def hweight8_loop_card unat_of_nat)
qed

subsection \<open>Masks and fields\<close>

lemma bit_contiguous_mask:
  "bit (push_bit s (mask l) :: u32) n \<longleftrightarrow> s \<le> n \<and> n < s + l \<and> n < 32"
  by (auto simp: bit_push_bit_iff bit_mask_iff)

lemma find_first_set_bit_contiguous:
  assumes "0 < l" "s + l \<le> 32"
  shows "unat (find_first_set_bit (push_bit s (mask l))) = s"
proof -
  have b: "bit (push_bit s (mask l) :: u32) s" using assms by (simp add: bit_contiguous_mask)
  then have "push_bit s (mask l) \<noteq> (0 :: u32)" by auto
  then obtain n where "bit (push_bit s (mask l) :: u32) n"
      "\<forall>m<n. \<not> bit (push_bit s (mask l) :: u32) m"
      "unat (find_first_set_bit (push_bit s (mask l))) = n"
    by (rule find_first_set_bit_obtain)
  with b show ?thesis by (metis bit_contiguous_mask le_neq_implies_less)
qed

text \<open>
  For a contiguous field of a register, a read-modify-write with field_prep is read back
  by field_get, and leaves the bits outside the field as they were.
\<close>

theorem field_prep_get_roundtrip:
  assumes "0 < l" "s + l \<le> 32" "unat v < 2 ^ l"
  shows "\<exists>p. field_prep (push_bit s (mask l)) v = Some p \<and>
     field_get (push_bit s (mask l)) ((reg AND NOT (push_bit s (mask l))) OR p) = Some v \<and>
     ((reg AND NOT (push_bit s (mask l))) OR p) AND NOT (push_bit s (mask l)) =
       reg AND NOT (push_bit s (mask l))"
proof -
  let ?m = "push_bit s (mask l) :: u32" and ?p = "push_bit s v AND push_bit s (mask l)"
  have s: "unat (find_first_set_bit ?m) = s" "s < 32"
    using assms find_first_set_bit_contiguous by auto
  have vl: "bit v n \<Longrightarrow> s + n < s + l \<and> s + n < 32" for n
    using assms(2,3) unfolding less_2p_bit by (metis add_less_cancel_left leI less_le_trans)
  have "drop_bit s (((reg AND NOT ?m) OR ?p) AND ?m) = v"
    by (intro bit_word_eqI) (auto simp: bit_simps bit_contiguous_mask dest: vl)
  moreover have "((reg AND NOT ?m) OR ?p) AND NOT ?m = reg AND NOT ?m"
    by (intro bit_word_eqI) (auto simp: bit_simps)
  ultimately show ?thesis
    by (simp add: field_prep_def field_get_def shl32_def shr32_def s)
qed

theorem field_prep_get_roundtrip_witness:
  "\<exists>p. field_prep (push_bit 4 (mask 3)) 5 = Some p \<and>
     field_get (push_bit 4 (mask 3)) ((0xffff AND NOT (push_bit 4 (mask 3))) OR p) = Some 5"
  using field_prep_get_roundtrip [of 3 4 5 "0xffff"] by auto

text \<open>
  field_prep and field_get with an empty mask shift by 32, which C does not define.
\<close>

theorem field_empty_mask_undefined: "field_prep 0 v = None \<and> field_get 0 w = None"
  by (simp add: field_prep_def field_get_def shl32_def shr32_def find_first_set_bit_def
      find_first_set_bit_loop.simps)

lemma GENMASK_bits:
  assumes "l \<le> h" "h < 32"
  shows "GENMASK h l = Some (push_bit l (mask (h - l + 1)))"
proof -
  have "drop_bit (31 - h) (push_bit (31 - (h - l)) (NOT 0)) = (push_bit l (mask (Suc (h - l))) :: u32)"
    using assms by (intro bit_word_eqI) (auto simp: bit_simps bit_mask_iff)
  moreover have "31 + l - h < 32" "31 - h < 32" using assms by auto
  ultimately show ?thesis using assms by (simp add: GENMASK_def shl32_def shr32_def)
qed

lemma byte_masks:
  "(0xff000000 :: u32) = push_bit 24 (mask 8)" "(0x00ff0000 :: u32) = push_bit 16 (mask 8)"
  "(0x0000ff00 :: u32) = push_bit 8 (mask 8)" "(0x000000ff :: u32) = push_bit 0 (mask 8)"
  by (simp_all add: push_bit_eq_mult mask_eq_exp_minus_1)

lemma bit_field_mask:
  "bit (x AND push_bit s (mask 8)) n \<longleftrightarrow> bit x n \<and> s \<le> n \<and> n < s + 8" for x :: u32
  using bit_contiguous_mask [of s 8 n] bit_imp_le_length [of x n] by (auto simp: bit_and_iff)

lemma bit_bswap_constant_32:
  assumes "n < 32"
  shows "bit (bswap_constant_32 x) n = bit x (24 - 8 * (n div 8) + n mod 8)"
proof -
  consider "n < 8" | "8 \<le> n" "n < 16" | "16 \<le> n" "n < 24" | "24 \<le> n" using assms by linarith
  then show ?thesis
  proof cases
    case 1
    then show ?thesis
      by (simp add: bswap_constant_32_def byte_masks bit_or_iff bit_drop_bit_eq bit_push_bit_iff
          bit_field_mask del: drop_bit_and push_bit_and)
  next
    case 2
    then have "n div 8 = 1" "n mod 8 = n - 8" by (auto simp: div_nat_eqI mod_nat_eqI)
    with 2 show ?thesis
      by (simp add: bswap_constant_32_def byte_masks bit_or_iff bit_drop_bit_eq bit_push_bit_iff
          bit_field_mask add.commute del: drop_bit_and push_bit_and) linarith
  next
    case 3
    then have "n div 8 = 2" "n mod 8 = n - 16" by (auto simp: div_nat_eqI mod_nat_eqI)
    with 3 show ?thesis
      by (simp add: bswap_constant_32_def byte_masks bit_or_iff bit_drop_bit_eq bit_push_bit_iff
          bit_field_mask del: drop_bit_and push_bit_and) (auto simp: algebra_simps)
  next
    case 4
    with assms have "n div 8 = 3" "n mod 8 = n - 24" by (auto simp: div_nat_eqI mod_nat_eqI)
    moreover have "n - 24 < 8" "\<not> n - 8 < 16" "\<not> n - 16 < 8" using 4 assms by auto
    ultimately show ?thesis using 4 assms
      by (simp add: bswap_constant_32_def byte_masks bit_or_iff bit_drop_bit_eq bit_push_bit_iff
          bit_field_mask bit_and_iff bit_mask_iff del: drop_bit_and push_bit_and)
  qed
qed

lemma byte_reverse_index:
  fixes n :: nat
  assumes "n < 32"
  shows "24 - 8 * (n div 8) + n mod 8 < 32"
    and "24 - 8 * ((24 - 8 * (n div 8) + n mod 8) div 8) + (24 - 8 * (n div 8) + n mod 8) mod 8 = n"
proof -
  have "\<forall>n \<in> set [0..<32]. 24 - 8 * (n div 8) + n mod 8 < 32 \<and>
      24 - 8 * ((24 - 8 * (n div 8) + n mod 8) div 8) + (24 - 8 * (n div 8) + n mod 8) mod 8 = n"
    by code_simp
  with assms show "24 - 8 * (n div 8) + n mod 8 < 32"
    and "24 - 8 * ((24 - 8 * (n div 8) + n mod 8) div 8) + (24 - 8 * (n div 8) + n mod 8) mod 8 = n"
    by (simp_all only: set_upt ball_simps atLeastLessThan_iff zero_le)
qed

lemma bswap_constant_32_involution: "bswap_constant_32 (bswap_constant_32 x) = x"
proof (rule bit_word_eqI)
  fix n assume "n < LENGTH(32)"
  then have "n < 32" by simp
  then show "bit (bswap_constant_32 (bswap_constant_32 x)) n = bit x n"
    by (simp only: bit_bswap_constant_32 byte_reverse_index)
qed

subsection \<open>Greatest common divisor\<close>

lemma u32_mod_eq_0: "(a :: u32) mod b = 0 \<longleftrightarrow> unat b dvd unat a"
  by (simp add: word_unat_eq_iff unat_mod dvd_eq_mod_eq_0)

text \<open>The loop keeps in common_div the largest common divisor among those it has tried.\<close>

definition gcd_inv :: "u32 \<Rightarrow> u32 \<Rightarrow> nat \<Rightarrow> nat \<Rightarrow> bool" where
  "gcd_inv a b dv cd \<longleftrightarrow> 0 < cd \<and> cd dvd unat a \<and> cd dvd unat b \<and>
     (\<forall>d. cd < d \<and> d < dv \<longrightarrow> \<not> (d dvd unat a \<and> d dvd unat b))"

lemma gcd_inv_exit:
  assumes "gcd_inv a b dv cd" "a \<noteq> 0" "b \<noteq> 0" "\<not> (dv \<le> unat a \<and> dv \<le> unat b)"
  shows "cd = gcd (unat a) (unat b)"
proof (rule antisym)
  have "0 < unat a" "0 < unat b" using assms by (auto simp: unat_gt_0)
  then have "gcd (unat a) (unat b) \<le> unat a" "gcd (unat a) (unat b) \<le> unat b"
    by (simp_all add: gcd_le1_nat gcd_le2_nat)
  then have "gcd (unat a) (unat b) < dv" using assms(4) by auto
  then show "gcd (unat a) (unat b) \<le> cd"
    using assms(1) unfolding gcd_inv_def by (metis gcd_dvd1 gcd_dvd2 not_le)
  show "cd \<le> gcd (unat a) (unat b)"
    using assms(1) \<open>0 < unat a\<close> unfolding gcd_inv_def
    by (metis dvd_imp_le gcd_greatest gcd_pos_nat neq0_conv)
qed

lemma gcd_inv_step:
  assumes "gcd_inv a b (unat dv) (unat cd)" "dv \<noteq> 0"
  shows "gcd_inv a b (Suc (unat dv)) (unat (if a mod dv = 0 \<and> b mod dv = 0 then dv else cd))"
  using assms by (auto simp: gcd_inv_def u32_mod_eq_0 unat_gt_0 less_Suc_eq)

lemma gcd_loop_Max:
  "a \<noteq> 0 \<Longrightarrow> b \<noteq> 0 \<Longrightarrow> \<not> (a = -1 \<and> b = -1) \<Longrightarrow> dv \<noteq> 0 \<Longrightarrow> gcd_inv a b (unat dv) (unat cd) \<Longrightarrow>
    \<exists>g. gcd_loop a b dv cd = Some g \<and> unat g = gcd (unat a) (unat b)"
proof (induction a b dv cd rule: gcd_loop.induct)
  case (1 a b dv cd)
  show ?case
  proof (cases "dv \<le> a \<and> dv \<le> b")
    case True
    have ne: "dv + 1 \<noteq> 0"
      using True "1.prems"(3) by (auto simp: add_eq_0_iff2 u32_all_ones_le)
    with gcd_inv_step [OF "1.prems"(5,4)] "1.IH" [OF True "1.prems"(4) "1.prems"(1,2,3) ne] True
    show ?thesis
      using "1.prems"(4) by (simp add: gcd_loop.simps [of a b dv] u32_Suc_nowrap)
  next
    case False
    then have "gcd_loop a b dv cd = Some cd" by (subst gcd_loop.simps) (simp only: False if_False)
    moreover have "unat cd = gcd (unat a) (unat b)"
      using False "1.prems" by (intro gcd_inv_exit) (auto simp: word_le_nat_alt)
    ultimately show ?thesis by simp
  qed
qed

lemma greatest_common_divisor_gcd:
  assumes "\<not> (a = -1 \<and> b = -1)"
  shows "\<exists>g. greatest_common_divisor a b = Some g \<and> unat g = gcd (unat a) (unat b)"
proof (cases "a = 0 \<or> b = 0")
  case True
  then show ?thesis
    by (auto simp: greatest_common_divisor_def max_u32_def word_gt_0)
next
  case False
  then have "gcd_inv a b (unat (1 :: u32)) (unat (1 :: u32))" by (simp add: gcd_inv_def)
  with False assms gcd_loop_Max [of a b 1 1] show ?thesis
    by (simp add: greatest_common_divisor_def)
qed

text \<open>
  greatest_common_divisor terminates and returns the greatest common divisor, for every
  pair of arguments but one.
\<close>

theorem greatest_common_divisor_correct:
  assumes "\<not> (a = 0xffffffff \<and> b = 0xffffffff)"
  shows "\<exists>g. greatest_common_divisor a b = Some g \<and> unat g = gcd (unat a) (unat b)"
  using assms unfolding u32_all_ones by (rule greatest_common_divisor_gcd)

theorem greatest_common_divisor_correct_witness:
  "\<exists>g. greatest_common_divisor 12 18 = Some g \<and> unat g = 6"
proof -
  have "gcd (12 :: nat) 18 = 6" by code_simp
  then show ?thesis using greatest_common_divisor_correct [of 12 18] by simp
qed

lemma gcd_loop_all_ones: "gcd_loop (-1) (-1) dv cd = None"
proof (induction "-1 :: u32" "-1 :: u32" dv cd rule: gcd_loop.induct)
  case (1 dv cd)
  then show ?case by (subst gcd_loop.simps) simp
qed

text \<open>
  With both arguments 0xffffffff the trial divisor wraps to 0 and the loop computes a
  modulo by 0: the call has undefined behaviour.
\<close>

theorem greatest_common_divisor_wraps:
  "greatest_common_divisor 0xffffffff 0xffffffff = None"
  unfolding u32_all_ones by (simp add: greatest_common_divisor_def gcd_loop_all_ones)

lemma u32_div_gt_0: "unat g = gcd (unat a) (unat b) \<Longrightarrow> (g = 0) = (a = 0 \<and> b = 0)" for a b g :: u32
  by (metis gcd_eq_0_iff unat_0_iff)

text \<open>
  Where it is defined, rational_best_approximation returns the given fraction in lowest
  terms if both terms fit their bounds, and 0/0 otherwise.
\<close>

theorem rational_best_approximation_exact:
  assumes "\<not> (n = 0xffffffff \<and> d = 0xffffffff)" "n \<noteq> 0 \<or> d \<noteq> 0"
  shows "\<exists>bn bd. unat bn * unat d = unat bd * unat n \<and> coprime (unat bn) (unat bd) \<and>
     rational_best_approximation n d max_n max_d =
       Some (if bn > max_n \<or> bd > max_d then (0, 0) else (bn, bd))"
proof -
  obtain g where g: "greatest_common_divisor n d = Some g" "unat g = gcd (unat n) (unat d)"
    using greatest_common_divisor_gcd assms(1) unfolding u32_all_ones by blast
  have g0: "g \<noteq> 0" using assms(2) u32_div_gt_0 [OF g(2)] by auto
  have "unat (n div g) * unat d = unat (d div g) * unat n"
    unfolding unat_div g(2) by (subst (1 2) dvd_div_mult) (simp_all add: mult.commute)
  moreover have "coprime (unat (n div g)) (unat (d div g))"
    using assms(2) by (simp add: unat_div g(2) div_gcd_coprime unat_0_iff)
  ultimately show ?thesis
    using g0 by (intro exI [of _ "n div g"] exI [of _ "d div g"])
      (simp add: rational_best_approximation_def g(1) Let_def)
qed

theorem rational_best_approximation_exact_witness:
  "\<exists>bn bd. unat bn * unat (6 :: u32) = unat bd * unat (4 :: u32) \<and>
     coprime (unat bn) (unat bd) \<and>
     rational_best_approximation 4 6 100 100 =
       Some (if bn > 100 \<or> bd > 100 then (0, 0) else (bn, bd))"
  by (rule rational_best_approximation_exact) simp_all

subsection \<open>Nearest element\<close>

definition closest_inv :: "int \<Rightarrow> int list \<Rightarrow> nat \<Rightarrow> nat \<Rightarrow> bool" where
  "closest_inv val array i r \<longleftrightarrow> r < i \<and> (\<forall>j<i. \<bar>array ! r - val\<bar> \<le> \<bar>array ! j - val\<bar>) \<and>
     (\<forall>j<r. \<bar>array ! r - val\<bar> < \<bar>array ! j - val\<bar>)"

definition closest_defined :: "int \<Rightarrow> int list \<Rightarrow> nat \<Rightarrow> bool" where
  "closest_defined val array sz \<longleftrightarrow> sz \<le> length array \<and>
     (\<forall>i < sz. in_s32 (array ! i - val) \<and> in_s32 \<bar>array ! i - val\<bar>)"

lemma abs_diff_defined:
  "closest_defined val array sz \<Longrightarrow> i < sz \<Longrightarrow> abs_diff array i val = Some \<bar>array ! i - val\<bar>"
  by (auto simp: closest_defined_def abs_diff_def)

lemma closest_inv_step:
  assumes "closest_inv val array i r"
  shows "closest_inv val array (Suc i) (if \<bar>array ! i - val\<bar> < \<bar>array ! r - val\<bar> then i else r)"
  using assms unfolding closest_inv_def by (auto simp: less_Suc_eq)

lemma find_closest_loop_inv:
  "closest_defined val array sz \<Longrightarrow> i \<le> sz \<Longrightarrow> closest_inv val array i r \<Longrightarrow>
   diff = \<bar>array ! r - val\<bar> \<Longrightarrow>
   \<exists>r'. find_closest_loop val array sz i diff r = Some r' \<and> closest_inv val array sz r'"
proof (induction val array sz i diff r rule: find_closest_loop.induct)
  case (1 val array sz i diff r)
  show ?case
  proof (cases "i < sz")
    case True
    note ad = abs_diff_defined [OF "1.prems"(1) True]
    show ?thesis
      using "1.IH" [OF True ad] closest_inv_step [OF "1.prems"(3)] "1.prems" True
      by (auto simp: find_closest_loop.simps [of val array sz i] ad split: if_splits)
  next
    case False
    then show ?thesis using "1.prems" by (subst find_closest_loop.simps) simp
  qed
qed

text \<open>
  find_closest returns the first index at which the distance to the value is least, when
  no difference overflows an int.
\<close>

theorem find_closest_first_minimum:
  assumes "0 < sz" "closest_defined val array sz"
  shows "\<exists>r < sz. find_closest val array sz = Some r \<and>
    (\<forall>j < sz. \<bar>array ! r - val\<bar> \<le> \<bar>array ! j - val\<bar>) \<and>
    (\<forall>j<r. \<bar>array ! r - val\<bar> < \<bar>array ! j - val\<bar>)"
proof -
  have "closest_inv val array 1 0" by (simp add: closest_inv_def)
  then obtain r where "find_closest_loop val array sz 1 \<bar>array ! 0 - val\<bar> 0 = Some r"
      "closest_inv val array sz r"
    using find_closest_loop_inv [of val array sz 1 0] assms by auto
  then show ?thesis
    using abs_diff_defined [OF assms(2,1)] by (auto simp: find_closest_def closest_inv_def)
qed

theorem find_closest_first_minimum_witness:
  "\<exists>r<4. find_closest 9 [0, 10, 8, 30] 4 = Some r \<and>
    (\<forall>j<4. \<bar>[0, 10, 8, 30] ! r - 9\<bar> \<le> \<bar>[0, 10, 8, 30] ! j - (9 :: int)\<bar>) \<and>
    (\<forall>j<r. \<bar>[0, 10, 8, 30] ! r - 9\<bar> < \<bar>[0, 10, 8, 30] ! j - (9 :: int)\<bar>)"
  by (rule find_closest_first_minimum)
    (simp_all add: closest_defined_def in_s32_def less_Suc_eq numeral_eq_Suc)

end
