(* ===== verification/Queue_Interface.thy ===== *)
theory Queue_Interface
  imports NoOS_Prelude
begin

text \<open>
  The contract of the queues of the library: what a client may rely on, whichever of the
  implementations it holds. The circular buffer of bytes, the linked fifo of buffers and the
  list with the LIST_QUEUE adapter are interpretations of it, in their own theories.

  \<open>room s x\<close> says that the queue can take \<open>x\<close> now (free bytes, or an allocation that will
  succeed).
\<close>

locale queue =
  fixes inv :: "'s \<Rightarrow> bool"
    and contents :: "'s \<Rightarrow> 'a list"
    and room :: "'s \<Rightarrow> 'a \<Rightarrow> bool"
    and enq :: "'s \<Rightarrow> 'a \<Rightarrow> 's option"
    and deq :: "'s \<Rightarrow> ('a \<times> 's) option"
  assumes enq_law: "inv s \<Longrightarrow> room s x \<Longrightarrow>
      \<exists>s'. enq s x = Some s' \<and> inv s' \<and> contents s' = contents s @ [x]"
    and deq_law: "inv s \<Longrightarrow> contents s = x # xs \<Longrightarrow>
      \<exists>s'. deq s = Some (x, s') \<and> inv s' \<and> contents s' = xs"
begin

text \<open>A client that queues a batch and drains it again.\<close>

fun enq_all :: "'s \<Rightarrow> 'a list \<Rightarrow> 's option" where
  "enq_all s [] = Some s"
| "enq_all s (x # xs) = (case enq s x of None \<Rightarrow> None | Some s' \<Rightarrow> enq_all s' xs)"

fun deq_n :: "nat \<Rightarrow> 's \<Rightarrow> ('a list \<times> 's) option" where
  "deq_n 0 s = Some ([], s)"
| "deq_n (Suc n) s =
     (case deq s of None \<Rightarrow> None
      | Some (x, s') \<Rightarrow> map_option (\<lambda>(xs, t). (x # xs, t)) (deq_n n s'))"

fun room_all :: "'s \<Rightarrow> 'a list \<Rightarrow> bool" where
  "room_all s [] = True"
| "room_all s (x # xs) = (room s x \<and> (\<forall>s'. enq s x = Some s' \<longrightarrow> room_all s' xs))"

lemma enq_all_contents:
  "inv s \<Longrightarrow> room_all s xs \<Longrightarrow> \<exists>s'. enq_all s xs = Some s' \<and> inv s' \<and> contents s' = contents s @ xs"
proof (induction xs arbitrary: s)
  case (Cons x xs)
  then obtain s1 where "enq s x = Some s1" "inv s1" "contents s1 = contents s @ [x]"
    using enq_law [of s x] by auto
  with Cons show ?case by fastforce
qed simp

lemma deq_n_contents:
  "inv s \<Longrightarrow> n \<le> length (contents s) \<Longrightarrow>
   \<exists>s'. deq_n n s = Some (take n (contents s), s') \<and> inv s' \<and> contents s' = drop n (contents s)"
proof (induction n arbitrary: s)
  case (Suc n)
  then obtain x xs where x: "contents s = x # xs" by (cases "contents s") auto
  then obtain s1 where "deq s = Some (x, s1)" "inv s1" "contents s1 = xs"
    using deq_law [of s x xs] Suc.prems by auto
  with Suc x show ?case by fastforce
qed simp

text \<open>First in, first out: the batch comes back in its order, after what was queued before.\<close>

lemma fifo_order:
  assumes "inv s" "room_all s xs"
  shows "\<exists>s1 s2. enq_all s xs = Some s1 \<and>
    deq_n (length (contents s) + length xs) s1 = Some (contents s @ xs, s2) \<and>
    inv s2 \<and> contents s2 = []"
proof -
  obtain s1 where s1: "enq_all s xs = Some s1" "inv s1" "contents s1 = contents s @ xs"
    using enq_all_contents [OF assms] by blast
  then show ?thesis
    using deq_n_contents [OF s1(2), of "length (contents s) + length xs"] by simp
qed

end

end
