(* ===== verification/Circular_Buffer.thy ===== *)
theory Circular_Buffer
  imports Util Queue_Interface
begin

text \<open>
  util/circular_buffer.c: a byte ring shared by one writer and one reader. A position is an
  index below the size and a count of the times it went round (\<open>spin_count\<close>, which itself
  wraps at 32 bits). Data moves either by the two-phase asynchronous calls (prepare, then
  end), which DMA and interrupt code use, or by the blocking cb_write and cb_read, which loop
  over the asynchronous ones.

  The record fields carry the source's names, with \<open>cb_\<close> in front where HOL has the name.
  The buffer address that cb_prepare_async_* stores in *buff is modelled by the index into
  the buffer. The blocking calls spin while the prepare call answers -EBUSY or -EAGAIN: run
  by one thread, with nothing else moving the descriptor, that spin does not end, and the
  model returns \<open>None\<close>.
\<close>

section \<open>Definitions\<close>

record cb_ptr =
  idx :: u32
  spin_count :: u32
  async_started :: bool
  async_size :: u32

record circular_buffer =
  cb_size_field :: u32
  cb_buff :: "u8 list"
  cb_write_ptr :: cb_ptr
  cb_read_ptr :: cb_ptr

definition cb_ptr_zero :: cb_ptr where
  "cb_ptr_zero = \<lparr>idx = 0, spin_count = 0, async_started = False, async_size = 0\<rparr>"

text \<open>
  What a pointer variable of the caller holds: NULL, a live object, or an address that has
  been freed.
\<close>

datatype 'a cptr = Null | Live 'a | Dangling

definition cb_init :: "circular_buffer cptr option \<Rightarrow> u32 \<Rightarrow> bool \<Rightarrow> bool \<Rightarrow>
  int \<times> circular_buffer cptr option" where
  "cb_init desc buff_size desc_alloc_ok buff_alloc_ok =
     (if desc = None \<or> buff_size = 0 then (- EINVAL, desc)
      else if \<not> desc_alloc_ok then (- ENOMEM, desc)
      else if \<not> buff_alloc_ok then (- ENOMEM, Some Dangling)
      else (SUCCESS, Some (Live \<lparr>cb_size_field = buff_size,
              cb_buff = replicate (unat buff_size) 0,
              cb_write_ptr = cb_ptr_zero, cb_read_ptr = cb_ptr_zero\<rparr>)))"

fun cb_remove :: "circular_buffer cptr \<Rightarrow> (int \<times> circular_buffer cptr) option" where
  "cb_remove Null = Some (FAILURE, Null)"
| "cb_remove (Live _) = Some (SUCCESS, Dangling)"
| "cb_remove Dangling = None"

definition cb_nb_spins :: "circular_buffer \<Rightarrow> u32" where
  "cb_nb_spins desc =
     (if spin_count (cb_write_ptr desc) > spin_count (cb_read_ptr desc)
      then spin_count (cb_write_ptr desc) - spin_count (cb_read_ptr desc)
      else 0xffffffff - spin_count (cb_read_ptr desc) + spin_count (cb_write_ptr desc) + 1)"

definition cb_size :: "circular_buffer \<Rightarrow> int \<times> u32" where
  "cb_size desc =
     (let sz = (if cb_nb_spins desc > 0
                then cb_size_field desc + idx (cb_write_ptr desc) - idx (cb_read_ptr desc)
                else idx (cb_write_ptr desc) - idx (cb_read_ptr desc))
      in if sz > cb_size_field desc then (- EOVERRUN, cb_size_field desc) else (SUCCESS, sz))"

text \<open>ptr = is_read ? &desc->read : &desc->write\<close>

definition cb_sel :: "bool \<Rightarrow> circular_buffer \<Rightarrow> cb_ptr" where
  "cb_sel is_read desc = (if is_read then cb_read_ptr desc else cb_write_ptr desc)"

definition cb_upd :: "bool \<Rightarrow> (cb_ptr \<Rightarrow> cb_ptr) \<Rightarrow> circular_buffer \<Rightarrow> circular_buffer" where
  "cb_upd is_read f desc = (if is_read then desc\<lparr>cb_read_ptr := f (cb_read_ptr desc)\<rparr>
                            else desc\<lparr>cb_write_ptr := f (cb_write_ptr desc)\<rparr>)"

definition cb_prepare_async_operation ::
  "circular_buffer \<Rightarrow> u32 \<Rightarrow> bool \<Rightarrow> int \<times> circular_buffer \<times> (u32 \<times> u32) option" where
  "cb_prepare_async_operation desc requested_size is_read =
     (if async_started (cb_sel is_read desc) then (- EBUSY, desc, None)
      else
        let (ret, available_size) = (if is_read then cb_size desc else (SUCCESS, 0));
            desc1 = (if is_read \<and> ret = - EOVERRUN
                     then cb_upd True (\<lambda>p. p\<lparr>spin_count := spin_count (cb_write_ptr desc) - 1,
                                              idx := idx (cb_write_ptr desc)\<rparr>) desc
                     else desc);
            req = (if is_read then min_u32 requested_size available_size else requested_size)
        in if is_read \<and> req = 0 then (- EAGAIN, desc1, None)
           else
             let ptr = cb_sel is_read desc1;
                 n = min_u32 req (cb_size_field desc1 - idx ptr)
             in (ret,
                 cb_upd is_read (\<lambda>p. p\<lparr>async_size := n, async_started := True\<rparr>) desc1,
                 Some (idx ptr, n)))"

definition cb_end_async_operation :: "circular_buffer \<Rightarrow> bool \<Rightarrow> int \<times> circular_buffer" where
  "cb_end_async_operation desc is_read =
     (let ptr = cb_sel is_read desc in
      if \<not> async_started ptr then (FAILURE, desc)
      else
        let new_val = idx ptr + async_size ptr;
            spins = (if new_val \<ge> cb_size_field desc then spin_count ptr + 1 else spin_count ptr);
            new_idx = (if new_val \<ge> cb_size_field desc then new_val mod cb_size_field desc
                       else new_val)
        in (SUCCESS, cb_upd is_read (\<lambda>p. p\<lparr>idx := new_idx, spin_count := spins,
                                          async_size := 0, async_started := False\<rparr>) desc))"

text \<open>
  memcpy between the ring, from index \<open>at\<close>, and the caller's data, from index \<open>i\<close>, is a
  \<open>mem_read\<close> and a \<open>mem_write\<close>: both ranges must lie inside their arrays.
\<close>

partial_function (option) cb_operation_loop ::
  "circular_buffer \<Rightarrow> u8 list \<Rightarrow> u32 \<Rightarrow> bool \<Rightarrow> u32 \<Rightarrow> bool \<Rightarrow>
   (int \<times> circular_buffer \<times> u8 list) option" where
  "cb_operation_loop desc data sz is_read i sticky_overrun =
     (if \<not> i < sz then
        Some (if sticky_overrun then - EOVERRUN else SUCCESS, desc, data)
      else
        (case cb_prepare_async_operation desc (sz - i) is_read of
           (ret, desc1, None) \<Rightarrow> cb_operation_loop desc1 data sz is_read i sticky_overrun
         | (ret, desc1, Some (at, available_size)) \<Rightarrow> do {
             (ring, data') \<leftarrow>
               (if is_read then do {
                  chunk \<leftarrow> mem_read (cb_buff desc1) (unat at) (unat available_size);
                  d \<leftarrow> mem_write data (unat i) chunk;
                  Some (cb_buff desc1, d)
                } else do {
                  chunk \<leftarrow> mem_read data (unat i) (unat available_size);
                  b \<leftarrow> mem_write (cb_buff desc1) (unat at) chunk;
                  Some (b, data)
                });
             cb_operation_loop (snd (cb_end_async_operation (desc1\<lparr>cb_buff := ring\<rparr>) is_read))
               data' sz is_read (i + available_size) (sticky_overrun \<or> ret = - EOVERRUN)
           }))"

definition cb_operation ::
  "circular_buffer \<Rightarrow> u8 list option \<Rightarrow> u32 \<Rightarrow> bool \<Rightarrow> (int \<times> circular_buffer \<times> u8 list option) option" where
  "cb_operation desc data sz is_read =
     (case data of None \<Rightarrow> Some (- EINVAL, desc, None)
      | Some d \<Rightarrow>
          if sz = 0 then Some (- EINVAL, desc, Some d)
          else do {
            (ret, desc', d') \<leftarrow> cb_operation_loop desc d sz is_read 0 False;
            Some (ret, desc', Some d')
          })"

definition cb_prepare_async_write ::
  "circular_buffer \<Rightarrow> u32 \<Rightarrow> int \<times> circular_buffer \<times> (u32 \<times> u32) option" where
  "cb_prepare_async_write desc size_to_write = cb_prepare_async_operation desc size_to_write False"

definition cb_prepare_async_read ::
  "circular_buffer \<Rightarrow> u32 \<Rightarrow> int \<times> circular_buffer \<times> (u32 \<times> u32) option" where
  "cb_prepare_async_read desc size_to_read = cb_prepare_async_operation desc size_to_read True"

definition cb_end_async_write :: "circular_buffer \<Rightarrow> int \<times> circular_buffer" where
  "cb_end_async_write desc = cb_end_async_operation desc False"

definition cb_end_async_read :: "circular_buffer \<Rightarrow> int \<times> circular_buffer" where
  "cb_end_async_read desc = cb_end_async_operation desc True"

definition cb_write ::
  "circular_buffer \<Rightarrow> u8 list option \<Rightarrow> u32 \<Rightarrow> (int \<times> circular_buffer \<times> u8 list option) option" where
  "cb_write desc data sz = cb_operation desc data sz False"

definition cb_read ::
  "circular_buffer \<Rightarrow> u8 list option \<Rightarrow> u32 \<Rightarrow> (int \<times> circular_buffer \<times> u8 list option) option" where
  "cb_read desc data sz = cb_operation desc data sz True"

section \<open>Invariant and abstraction\<close>

text \<open>
  The type invariant: a non-empty buffer below 2 GB, indices inside it, and a pending
  transaction that stays inside it.
\<close>

definition cb_ptr_wf :: "nat \<Rightarrow> cb_ptr \<Rightarrow> bool" where
  "cb_ptr_wf n p \<longleftrightarrow> unat (idx p) < n \<and> unat (idx p) + unat (async_size p) \<le> n \<and>
     (async_started p \<or> async_size p = 0)"

definition cb_wf :: "circular_buffer \<Rightarrow> bool" where
  "cb_wf c \<longleftrightarrow> unat (cb_size_field c) < 2 ^ 31 \<and>
     length (cb_buff c) = unat (cb_size_field c) \<and>
     cb_ptr_wf (unat (cb_size_field c)) (cb_write_ptr c) \<and>
     cb_ptr_wf (unat (cb_size_field c)) (cb_read_ptr c)"

text \<open>
  Without an overrun the writer is on the reader's lap and not behind it, or one lap further
  and not past it. The bytes the buffer holds then run from the read index to the write index.
\<close>

definition cb_ok :: "circular_buffer \<Rightarrow> bool" where
  "cb_ok c \<longleftrightarrow> cb_wf c \<and>
     (if spin_count (cb_write_ptr c) = spin_count (cb_read_ptr c)
      then unat (idx (cb_read_ptr c)) \<le> unat (idx (cb_write_ptr c))
      else spin_count (cb_write_ptr c) = spin_count (cb_read_ptr c) + 1 \<and>
           unat (idx (cb_write_ptr c)) \<le> unat (idx (cb_read_ptr c)))"

definition cb_contents :: "circular_buffer \<Rightarrow> u8 list" where
  "cb_contents c =
     (let w = unat (idx (cb_write_ptr c)); r = unat (idx (cb_read_ptr c)) in
      if spin_count (cb_write_ptr c) = spin_count (cb_read_ptr c)
      then take (w - r) (drop r (cb_buff c))
      else drop r (cb_buff c) @ take w (cb_buff c))"

definition cb_idle :: "circular_buffer \<Rightarrow> bool" where
  "cb_idle c \<longleftrightarrow> \<not> async_started (cb_write_ptr c) \<and> \<not> async_started (cb_read_ptr c)"

section \<open>Lemmas\<close>

lemma unat_min_u32 [simp]: "unat (min_u32 a b) = min (unat a) (unat b)"
  by (auto simp: min_u32_def word_less_nat_alt)

lemma min_u32_0 [simp]: "min_u32 0 x = 0" "min_u32 x 0 = 0"
  by (simp_all add: min_u32_def word_gt_0)

lemma cb_sel_simps [simp]:
  "cb_sel True c = cb_read_ptr c" "cb_sel False c = cb_write_ptr c"
  by (simp_all add: cb_sel_def)

lemma cb_upd_simps [simp]:
  "cb_read_ptr (cb_upd True f c) = f (cb_read_ptr c)"
  "cb_write_ptr (cb_upd True f c) = cb_write_ptr c"
  "cb_read_ptr (cb_upd False f c) = cb_read_ptr c"
  "cb_write_ptr (cb_upd False f c) = f (cb_write_ptr c)"
  "cb_buff (cb_upd b f c) = cb_buff c"
  "cb_size_field (cb_upd b f c) = cb_size_field c"
  "cb_sel b (cb_upd b f c) = f (cb_sel b c)"
  "cb_sel b (cb_upd (\<not> b) f c) = cb_sel b c"
  by (auto simp: cb_upd_def cb_sel_def)

lemma cb_nb_spins_diff [simp]:
  "cb_nb_spins c = spin_count (cb_write_ptr c) - spin_count (cb_read_ptr c)"
proof -
  have "(0xffffffff :: u32) = - 1" by (rule u32_all_ones)
  then show ?thesis by (simp add: cb_nb_spins_def algebra_simps)
qed

lemma length_cb_contents:
  assumes "cb_ok c"
  shows "length (cb_contents c) =
    (if spin_count (cb_write_ptr c) = spin_count (cb_read_ptr c)
     then unat (idx (cb_write_ptr c)) - unat (idx (cb_read_ptr c))
     else unat (cb_size_field c) - unat (idx (cb_read_ptr c)) + unat (idx (cb_write_ptr c)))"
  using assms by (auto simp: cb_ok_def cb_wf_def cb_ptr_wf_def cb_contents_def Let_def)

lemma length_cb_contents_le: "cb_ok c \<Longrightarrow> length (cb_contents c) \<le> unat (cb_size_field c)"
  by (auto simp: length_cb_contents cb_ok_def cb_wf_def cb_ptr_wf_def split: if_splits)

lemma u32_add_sub_nat:
  assumes "unat (a :: u32) < 2 ^ 31" "unat b < unat a" "unat r \<le> unat a"
  shows "unat (a + b - r) = unat a + unat b - unat r"
proof -
  have ab: "unat (a + b) = unat a + unat b" using assms by (simp add: unat_word_ariths)
  have "r \<le> a + b" using ab assms(3) by (simp add: word_le_nat_alt)
  with ab show ?thesis by (simp add: unat_sub)
qed

text \<open>
  cb_size answers the number of bytes held.
\<close>

lemma cb_size_ok:
  assumes "cb_ok c"
  shows "cb_size c = (SUCCESS, of_nat (length (cb_contents c)))"
proof -
  let ?w = "cb_write_ptr c" and ?r = "cb_read_ptr c" and ?n = "cb_size_field c"
  define sz where "sz = (if cb_nb_spins c > 0 then ?n + idx ?w - idx ?r else idx ?w - idx ?r)"
  have len: "unat sz = length (cb_contents c)"
  proof (cases "spin_count ?w = spin_count ?r")
    case True
    with assms have "idx ?r \<le> idx ?w" by (simp add: cb_ok_def word_le_nat_alt)
    with True assms show ?thesis by (simp add: sz_def length_cb_contents unat_sub)
  next
    case False
    with assms have "cb_nb_spins c = 1" "unat ?n < 2 ^ 31" "unat (idx ?w) < unat ?n"
      "unat (idx ?r) \<le> unat ?n"
      by (auto simp: cb_ok_def cb_wf_def cb_ptr_wf_def)
    with False assms show ?thesis by (simp add: sz_def length_cb_contents u32_add_sub_nat)
  qed
  have "unat sz \<le> unat ?n" using len length_cb_contents_le [OF assms] by simp
  then have "\<not> sz > ?n" by (simp add: word_less_nat_alt)
  then have "cb_size c = (SUCCESS, sz)" by (simp only: cb_size_def Let_def sz_def if_False)
  then show ?thesis by (simp flip: len)
qed

lemma cb_end_async_fields:
  assumes "cb_ptr_wf (unat (cb_size_field c)) (cb_sel b c)" "async_started (cb_sel b c)"
    "unat (cb_size_field c) < 2 ^ 31"
  shows "cb_end_async_operation c b = (SUCCESS, cb_upd b (\<lambda>p.
     if unat (idx p) + unat (async_size p) = unat (cb_size_field c)
     then p\<lparr>idx := 0, spin_count := spin_count p + 1, async_size := 0, async_started := False\<rparr>
     else p\<lparr>idx := idx p + async_size p, async_size := 0, async_started := False\<rparr>) c)"
proof -
  let ?p = "cb_sel b c" and ?n = "cb_size_field c"
  have u: "unat (idx ?p + async_size ?p) = unat (idx ?p) + unat (async_size ?p)"
    using assms by (simp add: cb_ptr_wf_def unat_word_ariths)
  show ?thesis
  proof (cases "unat (idx ?p) + unat (async_size ?p) = unat ?n")
    case True
    with u have "idx ?p + async_size ?p = ?n" by (simp add: word_unat_eq_iff)
    with True assms(2) show ?thesis
      by (cases b) (simp_all add: cb_end_async_operation_def Let_def cb_upd_def)
  next
    case False
    with u assms(1) have "\<not> idx ?p + async_size ?p \<ge> ?n"
      by (simp add: word_le_nat_alt cb_ptr_wf_def)
    with False assms(2) show ?thesis
      by (cases b) (simp_all add: cb_end_async_operation_def Let_def cb_upd_def)
  qed
qed

subsection \<open>One transfer of the blocking calls\<close>

text \<open>A prepare, the copy and the end of one chunk, on the writer's and the reader's side.\<close>

definition cb_started :: "bool \<Rightarrow> u32 \<Rightarrow> circular_buffer \<Rightarrow> circular_buffer" where
  "cb_started b n c = cb_upd b (\<lambda>p. p\<lparr>async_size := n, async_started := True\<rparr>) c"

lemma cb_prepare_write:
  "\<not> async_started (cb_write_ptr c) \<Longrightarrow>
   cb_prepare_async_operation c req False =
     (let n = min_u32 req (cb_size_field c - idx (cb_write_ptr c))
      in (SUCCESS, cb_started False n c, Some (idx (cb_write_ptr c), n)))"
  by (simp add: cb_prepare_async_operation_def cb_started_def Let_def)

lemma cb_prepare_read:
  assumes "cb_ok c" "\<not> async_started (cb_read_ptr c)" "cb_contents c \<noteq> []" "req \<noteq> 0"
  shows "cb_prepare_async_operation c req True =
    (let n = min_u32 (min_u32 req (of_nat (length (cb_contents c))))
               (cb_size_field c - idx (cb_read_ptr c))
     in (SUCCESS, cb_started True n c, Some (idx (cb_read_ptr c), n)))"
proof -
  have "unat (of_nat (length (cb_contents c)) :: u32) = length (cb_contents c)"
    using length_cb_contents_le [OF assms(1)] assms(1)
    by (simp add: cb_ok_def cb_wf_def unat_of_nat)
  then have "min_u32 req (of_nat (length (cb_contents c))) \<noteq> 0"
    using assms(3,4) by (metis length_greater_0_conv min_less_iff_conj unat_gt_0 unat_min_u32)
  then show ?thesis
    using assms(2)
    by (simp add: cb_prepare_async_operation_def cb_size_ok [OF assms(1)] cb_started_def Let_def)
qed

lemma cb_prepare_read_empty:
  assumes "cb_ok c" "\<not> async_started (cb_read_ptr c)" "cb_contents c = []"
  shows "cb_prepare_async_operation c req True = (- EAGAIN, c, None)"
  using assms by (simp add: cb_prepare_async_operation_def cb_size_ok Let_def min_u32_def)

definition cb_finish :: "bool \<Rightarrow> nat \<Rightarrow> circular_buffer \<Rightarrow> circular_buffer" where
  "cb_finish b k c = cb_upd b (\<lambda>p.
     if unat (idx p) + k = unat (cb_size_field c)
     then p\<lparr>idx := 0, spin_count := spin_count p + 1, async_size := 0, async_started := False\<rparr>
     else p\<lparr>idx := idx p + of_nat k, async_size := 0, async_started := False\<rparr>) c"

lemma cb_end_started:
  assumes "cb_wf c" "unat (idx (cb_sel b c)) + unat n \<le> unat (cb_size_field c)"
    "length ring = length (cb_buff c)"
  shows "cb_end_async_operation ((cb_started b n c)\<lparr>cb_buff := ring\<rparr>) b =
    (SUCCESS, cb_finish b (unat n) (c\<lparr>cb_buff := ring\<rparr>))"
proof -
  let ?c = "(cb_started b n c)\<lparr>cb_buff := ring\<rparr>"
  have sel: "cb_sel b ?c = (cb_sel b c)\<lparr>async_size := n, async_started := True\<rparr>"
    by (cases b) (simp_all add: cb_started_def)
  have "cb_end_async_operation ?c b = (SUCCESS, cb_upd b (\<lambda>p.
     if unat (idx p) + unat (async_size p) = unat (cb_size_field ?c)
     then p\<lparr>idx := 0, spin_count := spin_count p + 1, async_size := 0, async_started := False\<rparr>
     else p\<lparr>idx := idx p + async_size p, async_size := 0, async_started := False\<rparr>) ?c)"
    using assms by (intro cb_end_async_fields)
      (auto simp: sel cb_started_def cb_wf_def cb_ptr_wf_def cb_sel_def split: if_splits)
  also have "\<dots> = (SUCCESS, cb_finish b (unat n) (c\<lparr>cb_buff := ring\<rparr>))"
    by (cases b) (simp_all add: cb_finish_def cb_started_def cb_upd_def)
  finally show ?thesis .
qed

lemma cb_write_chunk:
  assumes ok: "cb_ok c"
    and fit: "unat (idx (cb_write_ptr c)) + length chunk \<le> unat (cb_size_field c)"
      "length (cb_contents c) + length chunk \<le> unat (cb_size_field c)"
    and ring: "mem_write (cb_buff c) (unat (idx (cb_write_ptr c))) chunk = Some ring"
  shows "cb_ok (cb_finish False (length chunk) (c\<lparr>cb_buff := ring\<rparr>)) \<and>
    cb_contents (cb_finish False (length chunk) (c\<lparr>cb_buff := ring\<rparr>)) = cb_contents c @ chunk"
proof -
  let ?w = "unat (idx (cb_write_ptr c))" and ?r = "unat (idx (cb_read_ptr c))"
    and ?n = "unat (cb_size_field c)" and ?k = "length chunk"
  let ?c = "cb_finish False ?k (c\<lparr>cb_buff := ring\<rparr>)"
  have wf: "?n < 2 ^ 31" "length (cb_buff c) = ?n" "?w < ?n" "?r < ?n"
    "cb_ptr_wf ?n (cb_read_ptr c)"
    using ok by (auto simp: cb_ok_def cb_wf_def cb_ptr_wf_def)
  have rg: "ring = take ?w (cb_buff c) @ chunk @ drop (?w + ?k) (cb_buff c)"
    using ring by (auto simp: mem_write_def split: if_splits)
  have len: "length ring = ?n" using wf fit by (simp add: rg)
  have ui: "unat (idx (cb_write_ptr c) + of_nat ?k) = ?w + ?k"
    using fit wf by (simp add: unat_word_ariths unat_of_nat)
  show ?thesis
  proof (cases "spin_count (cb_write_ptr c) = spin_count (cb_read_ptr c)")
    case True
    with ok have "?r \<le> ?w" by (simp add: cb_ok_def)
    moreover have "take (?w + ?k - ?r) (drop ?r ring) = take (?w - ?r) (drop ?r (cb_buff c)) @ chunk"
      using \<open>?r \<le> ?w\<close> wf by (simp add: rg drop_take)
    ultimately show ?thesis
      using True wf len fit ui
      by (auto simp: cb_finish_def cb_ok_def cb_wf_def cb_ptr_wf_def cb_contents_def Let_def rg
          drop_take)
  next
    case False
    with ok have sp: "spin_count (cb_write_ptr c) = spin_count (cb_read_ptr c) + 1" "?w \<le> ?r"
      by (auto simp: cb_ok_def)
    have lc: "length (cb_contents c) = ?n - ?r + ?w"
      using length_cb_contents [OF ok] False by simp
    then have "?w + ?k \<le> ?r" using fit(2) wf by linarith
    moreover from this have "drop ?r ring = drop ?r (cb_buff c)"
      "take (?w + ?k) ring = take ?w (cb_buff c) @ chunk"
      using wf by (simp_all add: rg)
    ultimately show ?thesis
      using False sp wf len ui
      by (auto simp: cb_finish_def cb_ok_def cb_wf_def cb_ptr_wf_def cb_contents_def Let_def)
  qed
qed

lemma cb_read_chunk:
  assumes ok: "cb_ok c"
    and fit: "unat (idx (cb_read_ptr c)) + k \<le> unat (cb_size_field c)"
      "k \<le> length (cb_contents c)"
  shows "mem_read (cb_buff c) (unat (idx (cb_read_ptr c))) k = Some (take k (cb_contents c)) \<and>
    cb_ok (cb_finish True k c) \<and> cb_contents (cb_finish True k c) = drop k (cb_contents c)"
proof -
  let ?w = "unat (idx (cb_write_ptr c))" and ?r = "unat (idx (cb_read_ptr c))"
    and ?n = "unat (cb_size_field c)"
  have wf: "?n < 2 ^ 31" "length (cb_buff c) = ?n" "?w < ?n" "?r < ?n"
    "cb_ptr_wf ?n (cb_write_ptr c)"
    using ok by (auto simp: cb_ok_def cb_wf_def cb_ptr_wf_def)
  have ui: "unat (idx (cb_read_ptr c) + of_nat k) = ?r + k"
    using fit wf by (simp add: unat_word_ariths unat_of_nat)
  show ?thesis
  proof (cases "spin_count (cb_write_ptr c) = spin_count (cb_read_ptr c)")
    case True
    with ok have "?r \<le> ?w" by (simp add: cb_ok_def)
    moreover have "?r + k \<le> ?w" using fit(2) True ok \<open>?r \<le> ?w\<close> by (simp add: length_cb_contents)
    ultimately show ?thesis
      using True wf ui
      by (auto simp: cb_finish_def cb_ok_def cb_wf_def cb_ptr_wf_def cb_contents_def Let_def
          mem_read_def drop_take add.commute)
  next
    case False
    with ok have sp: "spin_count (cb_write_ptr c) = spin_count (cb_read_ptr c) + 1" "?w \<le> ?r"
      by (auto simp: cb_ok_def)
    moreover have "drop (k + ?r) (cb_buff c) = drop (?r + k) (cb_buff c)" by (simp add: add.commute)
    ultimately show ?thesis
      using False wf ui fit(1)
      by (auto simp: cb_finish_def cb_ok_def cb_wf_def cb_ptr_wf_def cb_contents_def Let_def
          mem_read_def)
  qed
qed

lemma cb_finish_simps [simp]:
  "cb_size_field (cb_finish b k c) = cb_size_field c"
  "cb_buff (cb_finish b k c) = cb_buff c"
  "\<not> async_started (cb_sel b (cb_finish b k c))"
  "cb_read_ptr (cb_finish False k c) = cb_read_ptr c"
  "cb_write_ptr (cb_finish True k c) = cb_write_ptr c"
  by (simp_all add: cb_finish_def)

lemma cb_finish_async_size [simp]:
  "async_size (cb_write_ptr (cb_finish False k c)) = 0"
  "async_size (cb_read_ptr (cb_finish True k c)) = 0"
  by (simp_all add: cb_finish_def)

lemma cb_finish_not_started [simp]:
  "\<not> async_started (cb_write_ptr (cb_finish False k c))"
  "\<not> async_started (cb_read_ptr (cb_finish True k c))"
  by (simp_all add: cb_finish_def)

section \<open>The blocking calls\<close>

lemma cb_operation_loop_exit:
  "\<not> i < sz \<Longrightarrow> cb_operation_loop c data sz b i so =
     Some (if so then - EOVERRUN else SUCCESS, c, data)"
  by (subst cb_operation_loop.simps) simp

lemma unat_diff_u32: "i \<le> sz \<Longrightarrow> unat (sz - i) = unat sz - unat i" for i sz :: u32
  by (rule unat_sub)

lemma cb_write_iteration:
  assumes ok: "cb_ok c" "\<not> async_started (cb_write_ptr c)" and i: "i < sz"
    and len: "unat sz \<le> length data"
    and fit: "length (cb_contents c) + (unat sz - unat i) \<le> unat (cb_size_field c)"
  obtains n c' where "0 < unat n" "unat n \<le> unat sz - unat i"
    "cb_operation_loop c data sz False i so = cb_operation_loop c' data sz False (i + n) so"
    "cb_ok c'" "\<not> async_started (cb_write_ptr c')" "cb_read_ptr c' = cb_read_ptr c"
    "cb_size_field c' = cb_size_field c"
    "cb_contents c' = cb_contents c @ take (unat n) (drop (unat i) data)"
proof -
  let ?w = "idx (cb_write_ptr c)" and ?n = "cb_size_field c"
  define n where "n = min_u32 (sz - i) (?n - ?w)"
  have wf: "unat ?w < unat ?n" "length (cb_buff c) = unat ?n" "cb_wf c"
    using ok by (auto simp: cb_ok_def cb_wf_def cb_ptr_wf_def)
  have un: "unat n = min (unat sz - unat i) (unat ?n - unat ?w)"
    using i wf(1) by (simp add: n_def unat_diff_u32 word_le_nat_alt word_less_nat_alt)
  have il: "unat i < unat sz" using i by (simp add: word_less_nat_alt)
  define chunk where "chunk = take (unat n) (drop (unat i) data)"
  have lc: "length chunk = unat n" using un len by (simp add: chunk_def)
  have rd: "mem_read data (unat i) (unat n) = Some chunk"
    using un len il by (simp add: mem_read_def chunk_def)
  have fl: "unat ?w + length chunk \<le> unat ?n" "unat ?w + length chunk \<le> length (cb_buff c)"
    "length (cb_contents c) + length chunk \<le> unat ?n"
    using wf un lc fit by arith+
  then obtain ring where ring: "mem_write (cb_buff c) (unat ?w) chunk = Some ring"
    "length ring = length (cb_buff c)"
    using mem_write_ok by blast
  define c' where "c' = cb_finish False (unat n) (c\<lparr>cb_buff := ring\<rparr>)"
  have e: "cb_end_async_operation ((cb_started False n c)\<lparr>cb_buff := ring\<rparr>) False = (SUCCESS, c')"
    unfolding c'_def using wf un ring by (intro cb_end_started) auto
  have "cb_ok c' \<and> cb_contents c' = cb_contents c @ chunk"
    unfolding c'_def lc [symmetric] by (rule cb_write_chunk [OF ok(1) fl(1,3) ring(1)])
  moreover have "cb_buff (cb_started False n c) = cb_buff c" by (simp add: cb_started_def)
  then have "cb_operation_loop c data sz False i so = cb_operation_loop c' data sz False (i + n) so"
    using i by (subst cb_operation_loop.simps)
      (simp add: cb_prepare_write [OF ok(2)] Let_def rd ring(1) e flip: n_def)
  ultimately show ?thesis
    using that [of n c'] il un wf by (simp add: chunk_def c'_def)
qed

lemma cb_write_loop:
  "cb_ok c \<Longrightarrow> \<not> async_started (cb_write_ptr c) \<Longrightarrow> i \<le> sz \<Longrightarrow> unat sz \<le> length data \<Longrightarrow>
   length (cb_contents c) + (unat sz - unat i) \<le> unat (cb_size_field c) \<Longrightarrow>
   \<exists>c'. cb_operation_loop c data sz False i False = Some (SUCCESS, c', data) \<and> cb_ok c' \<and>
     \<not> async_started (cb_write_ptr c') \<and> cb_read_ptr c' = cb_read_ptr c \<and>
     cb_size_field c' = cb_size_field c \<and>
     cb_contents c' = cb_contents c @ take (unat sz - unat i) (drop (unat i) data)"
proof (induction "unat sz - unat i" arbitrary: c i rule: less_induct)
  case less
  show ?case
  proof (cases "i < sz")
    case True
    then obtain n c' where n: "0 < unat n" "unat n \<le> unat sz - unat i"
      "cb_operation_loop c data sz False i False = cb_operation_loop c' data sz False (i + n) False"
      "cb_ok c'" "\<not> async_started (cb_write_ptr c')" "cb_read_ptr c' = cb_read_ptr c"
      "cb_size_field c' = cb_size_field c"
      "cb_contents c' = cb_contents c @ take (unat n) (drop (unat i) data)"
      using cb_write_iteration less.prems by metis
    have "unat i + unat n < 4294967296"
      using n(2) True unat_u32_less [of sz] unfolding word_less_nat_alt by linarith
    then have ui: "unat (i + n) = unat i + unat n" by (simp add: unat_word_ariths)
    have "take (unat n) (drop (unat i) data) @
        take (unat sz - (unat i + unat n)) (drop (unat i + unat n) data) =
        take (unat sz - unat i) (drop (unat i) data)"
      using take_drop_split [OF n(2), of "unat i" data] by simp
    moreover have "length (cb_contents c') = length (cb_contents c) + unat n"
      using n(2,8) less.prems(4) by simp
    ultimately show ?thesis
      using less.hyps [of "i + n" c'] n less.prems ui True
      by (simp add: word_le_nat_alt word_less_nat_alt)
  next
    case False
    then show ?thesis using less.prems by (simp add: cb_operation_loop_exit word_less_nat_alt)
  qed
qed

lemma cb_started_self [simp]:
  "cb_started b n c\<lparr>cb_buff := cb_buff c\<rparr> = cb_started b n c"
  "cb_buff (cb_started b n c) = cb_buff c"
  by (simp_all add: cb_started_def cb_upd_def)

lemma cb_read_step:
  assumes ok: "cb_ok c" "\<not> async_started (cb_read_ptr c)" and i: "i < sz"
    and len: "unat sz \<le> length data" and ne: "cb_contents c \<noteq> []"
  obtains n where "0 < unat n" "unat n \<le> unat sz - unat i" "unat n \<le> length (cb_contents c)"
    "cb_prepare_async_operation c (sz - i) True =
       (SUCCESS, cb_started True n c, Some (idx (cb_read_ptr c), n))"
    "mem_read (cb_buff c) (unat (idx (cb_read_ptr c))) (unat n) = Some (take (unat n) (cb_contents c))"
    "mem_write data (unat i) (take (unat n) (cb_contents c)) =
       Some (take (unat i) data @ take (unat n) (cb_contents c) @ drop (unat i + unat n) data)"
    "cb_end_async_operation (cb_started True n c) True = (SUCCESS, cb_finish True (unat n) c)"
    "cb_ok (cb_finish True (unat n) c)"
    "cb_contents (cb_finish True (unat n) c) = drop (unat n) (cb_contents c)"
proof -
  let ?r = "idx (cb_read_ptr c)" and ?n = "cb_size_field c" and ?l = "length (cb_contents c)"
  define n where "n = min_u32 (min_u32 (sz - i) (of_nat ?l)) (?n - ?r)"
  have wf: "unat ?r < unat ?n" "length (cb_buff c) = unat ?n" "cb_wf c" "unat ?n < 2 ^ 31"
    using ok by (auto simp: cb_ok_def cb_wf_def cb_ptr_wf_def)
  have il: "unat i < unat sz" "sz - i \<noteq> 0" using i by (auto simp: word_less_nat_alt)
  have ul: "unat (of_nat ?l :: u32) = ?l"
    using length_cb_contents_le [OF ok(1)] wf(4) by (simp add: unat_of_nat)
  have un: "unat n = min (min (unat sz - unat i) ?l) (unat ?n - unat ?r)"
    using i wf(1) ul by (simp add: n_def unat_diff_u32 word_le_nat_alt word_less_nat_alt)
  have fl: "unat ?r + unat n \<le> unat ?n" "unat n \<le> ?l" "unat i + unat n \<le> length data"
    using un wf(1) len il by arith+
  have e: "cb_end_async_operation (cb_started True n c) True = (SUCCESS, cb_finish True (unat n) c)"
    using cb_end_started [OF wf(3), of True n "cb_buff c"] fl(1) by simp
  have p: "cb_prepare_async_operation c (sz - i) True =
       (SUCCESS, cb_started True n c, Some (?r, n))"
    by (simp add: cb_prepare_read [OF ok ne il(2)] Let_def flip: n_def)
  have "0 < unat n" "unat n \<le> unat sz - unat i" using un ne wf il(1) by auto
  then show ?thesis using that [of n] cb_read_chunk [OF ok(1) fl(1,2)] p e fl
    by (simp add: mem_write_def)
qed

lemma cb_read_iteration:
  assumes "cb_ok c" "\<not> async_started (cb_read_ptr c)" "i < sz"
    "unat sz \<le> length data" "cb_contents c \<noteq> []"
  obtains n c' where "0 < unat n" "unat n \<le> unat sz - unat i" "unat n \<le> length (cb_contents c)"
    "cb_operation_loop c data sz True i so =
       cb_operation_loop c' (take (unat i) data @ take (unat n) (cb_contents c) @
          drop (unat i + unat n) data) sz True (i + n) so"
    "cb_ok c'" "\<not> async_started (cb_read_ptr c')" "cb_write_ptr c' = cb_write_ptr c"
    "cb_size_field c' = cb_size_field c" "cb_contents c' = drop (unat n) (cb_contents c)"
proof (rule cb_read_step [OF assms])
  fix n :: u32
  assume n: "0 < unat n" "unat n \<le> unat sz - unat i" "unat n \<le> length (cb_contents c)"
    "cb_ok (cb_finish True (unat n) c)"
    "cb_contents (cb_finish True (unat n) c) = drop (unat n) (cb_contents c)"
  assume st: "cb_prepare_async_operation c (sz - i) True =
       (SUCCESS, cb_started True n c, Some (idx (cb_read_ptr c), n))"
    "mem_read (cb_buff c) (unat (idx (cb_read_ptr c))) (unat n) = Some (take (unat n) (cb_contents c))"
    "mem_write data (unat i) (take (unat n) (cb_contents c)) =
       Some (take (unat i) data @ take (unat n) (cb_contents c) @ drop (unat i + unat n) data)"
    "cb_end_async_operation (cb_started True n c) True = (SUCCESS, cb_finish True (unat n) c)"
  then have "cb_operation_loop c data sz True i so =
     cb_operation_loop (cb_finish True (unat n) c) (take (unat i) data @
       take (unat n) (cb_contents c) @ drop (unat i + unat n) data) sz True (i + n) so"
    using assms(3) by (subst cb_operation_loop.simps) simp
  then show ?thesis using that [of n "cb_finish True (unat n) c"] n by simp
qed

lemma cb_read_loop:
  "cb_ok c \<Longrightarrow> \<not> async_started (cb_read_ptr c) \<Longrightarrow> i \<le> sz \<Longrightarrow> unat sz \<le> length data \<Longrightarrow>
   unat sz - unat i \<le> length (cb_contents c) \<Longrightarrow>
   \<exists>c'. cb_operation_loop c data sz True i False =
       Some (SUCCESS, c', take (unat i) data @ take (unat sz - unat i) (cb_contents c) @
         drop (unat sz) data) \<and> cb_ok c' \<and>
     \<not> async_started (cb_read_ptr c') \<and> cb_write_ptr c' = cb_write_ptr c \<and>
     cb_size_field c' = cb_size_field c \<and>
     cb_contents c' = drop (unat sz - unat i) (cb_contents c)"
proof (induction "unat sz - unat i" arbitrary: c i data rule: less_induct)
  case less
  show ?case
  proof (cases "i < sz")
    case True
    then have "cb_contents c \<noteq> []" using less.prems(5) by (auto simp: word_less_nat_alt)
    then obtain n c' where n: "0 < unat n" "unat n \<le> unat sz - unat i"
      "unat n \<le> length (cb_contents c)"
      "cb_operation_loop c data sz True i False =
         cb_operation_loop c' (take (unat i) data @ take (unat n) (cb_contents c) @
          drop (unat i + unat n) data) sz True (i + n) False"
      "cb_ok c'" "\<not> async_started (cb_read_ptr c')" "cb_write_ptr c' = cb_write_ptr c"
      "cb_size_field c' = cb_size_field c" "cb_contents c' = drop (unat n) (cb_contents c)"
      using cb_read_iteration less.prems True by metis
    let ?d = "take (unat i) data @ take (unat n) (cb_contents c) @ drop (unat i + unat n) data"
    have "unat i + unat n < 4294967296"
      using n(2) True unat_u32_less [of sz] unfolding word_less_nat_alt by linarith
    then have ui: "unat (i + n) = unat i + unat n" by (simp add: unat_word_ariths)
    have il: "unat i + unat n \<le> unat sz" using n(2) True by (simp add: word_less_nat_alt)
    have ld: "length ?d = length data" using il less.prems(4) n(3) by simp
    have tk: "take (unat i + unat n) ?d = take (unat i) data @ take (unat n) (cb_contents c)"
      using il less.prems(4) n(3) by simp
    have dr: "drop (unat sz) ?d = drop (unat sz) data"
      using il less.prems(4) n(3) by simp
    have tkd: "take (unat n) (cb_contents c) @
        take (unat sz - (unat i + unat n)) (drop (unat n) (cb_contents c)) @ ys =
        take (unat sz - unat i) (cb_contents c) @ ys" for ys
      using take_drop_split [OF n(2), of 0 "cb_contents c"] by (simp flip: append_assoc)
    have "unat sz - (unat i + unat n) < unat sz - unat i"
      "unat sz - (unat i + unat n) \<le> length (cb_contents c) - unat n"
      using n(1,2) less.prems(5) by linarith+
    moreover have "drop (unat sz - (unat i + unat n)) (drop (unat n) (cb_contents c)) =
        drop (unat sz - unat i) (cb_contents c)"
    proof -
      have "unat sz - (unat i + unat n) + unat n = unat sz - unat i" using il by linarith
      then show ?thesis by simp
    qed
    ultimately show ?thesis
      using less.hyps [of "i + n" c' ?d] n less.prems ui il ld tk dr True
      by (simp add: tkd word_le_nat_alt word_less_nat_alt del: drop_drop)
  next
    case False
    then show ?thesis
      using less.prems by (simp add: cb_operation_loop_exit word_less_nat_alt word_le_nat_alt)
  qed
qed

definition cb_read_starved ::
  "circular_buffer \<Rightarrow> u8 list \<Rightarrow> u32 \<Rightarrow> bool \<Rightarrow> u32 \<Rightarrow> bool" where
  "cb_read_starved c data sz is_read i \<longleftrightarrow> is_read \<and> cb_ok c \<and> \<not> async_started (cb_read_ptr c) \<and>
     i \<le> sz \<and> unat sz \<le> length data \<and> length (cb_contents c) < unat sz - unat i"

lemma cb_read_starved_step:
  assumes "cb_read_starved c data sz is_read i"
    and IH: "\<And>c data sz is_read i so y. f c data sz is_read i so = Some y \<Longrightarrow>
      \<not> cb_read_starved c data sz is_read i"
  shows "(case cb_prepare_async_operation c (sz - i) is_read of
           (ret, c1, None) \<Rightarrow> f c1 data sz is_read i so
         | (ret, c1, Some (at, n)) \<Rightarrow> do {
             (ring, data') \<leftarrow>
               (if is_read then do {
                  chunk \<leftarrow> mem_read (cb_buff c1) (unat at) (unat n);
                  d \<leftarrow> mem_write data (unat i) chunk;
                  Some (cb_buff c1, d)
                } else do {
                  chunk \<leftarrow> mem_read data (unat i) (unat n);
                  b \<leftarrow> mem_write (cb_buff c1) (unat at) chunk;
                  Some (b, data)
                });
             f (snd (cb_end_async_operation (c1\<lparr>cb_buff := ring\<rparr>) is_read))
               data' sz is_read (i + n) (so \<or> ret = - EOVERRUN)
           }) = None"
proof (cases "cb_contents c = []")
  case True
  with assms(1) have "cb_prepare_async_operation c (sz - i) is_read = (- EAGAIN, c, None)"
    unfolding cb_read_starved_def using cb_prepare_read_empty by metis
  moreover have "f c data sz is_read i so = None" using IH assms(1) by (metis not_None_eq)
  ultimately show ?thesis by simp
next
  case False
  from assms(1) have st: "is_read" "cb_ok c" "\<not> async_started (cb_read_ptr c)" "i < sz"
      "unat sz \<le> length data" "length (cb_contents c) < unat sz - unat i"
    by (auto simp: cb_read_starved_def word_less_nat_alt)
  obtain n where n: "0 < unat n" "unat n \<le> unat sz - unat i" "unat n \<le> length (cb_contents c)"
    "cb_prepare_async_operation c (sz - i) True =
       (SUCCESS, cb_started True n c, Some (idx (cb_read_ptr c), n))"
    "mem_read (cb_buff c) (unat (idx (cb_read_ptr c))) (unat n) = Some (take (unat n) (cb_contents c))"
    "mem_write data (unat i) (take (unat n) (cb_contents c)) =
       Some (take (unat i) data @ take (unat n) (cb_contents c) @ drop (unat i + unat n) data)"
    "cb_end_async_operation (cb_started True n c) True = (SUCCESS, cb_finish True (unat n) c)"
    "cb_ok (cb_finish True (unat n) c)"
    "cb_contents (cb_finish True (unat n) c) = drop (unat n) (cb_contents c)"
    using cb_read_step [OF st(2-5) False] .
  have "unat i + unat n < 4294967296"
    using n(2) st(6) unat_u32_less [of sz] by linarith
  then have "unat (i + n) = unat i + unat n" by (simp add: unat_word_ariths)
  then have "cb_read_starved (cb_finish True (unat n) c) (take (unat i) data @
      take (unat n) (cb_contents c) @ drop (unat i + unat n) data) sz True (i + n)"
    using st n by (auto simp: cb_read_starved_def word_le_nat_alt)
  then have "f (cb_finish True (unat n) c) (take (unat i) data @ take (unat n) (cb_contents c) @
      drop (unat i + unat n) data) sz True (i + n) so = None"
    using IH by (metis not_None_eq)
  then show ?thesis using st(1) n(4-7) by simp
qed

lemma cb_read_loop_starved:
  assumes ret: "cb_operation_loop c data sz is_read i so = Some y"
  shows "\<not> cb_read_starved c data sz is_read i"
proof (rule cb_operation_loop.raw_induct
    [where P = "\<lambda>c data sz is_read i so y. \<not> cb_read_starved c data sz is_read i", OF _ ret])
  fix f :: "circular_buffer \<Rightarrow> u8 list \<Rightarrow> u32 \<Rightarrow> bool \<Rightarrow> u32 \<Rightarrow> bool \<Rightarrow>
      (int \<times> circular_buffer \<times> u8 list) option"
  fix c data sz is_read i so y
  assume IH: "\<And>c data sz is_read i so y. f c data sz is_read i so = Some y \<Longrightarrow>
      \<not> cb_read_starved c data sz is_read i"
  assume "(if \<not> i < sz then
        Some (if so then - EOVERRUN else SUCCESS, c, data)
      else
        (case cb_prepare_async_operation c (sz - i) is_read of
           (ret, c1, None) \<Rightarrow> f c1 data sz is_read i so
         | (ret, c1, Some (at, n)) \<Rightarrow> do {
             (ring, data') \<leftarrow>
               (if is_read then do {
                  chunk \<leftarrow> mem_read (cb_buff c1) (unat at) (unat n);
                  d \<leftarrow> mem_write data (unat i) chunk;
                  Some (cb_buff c1, d)
                } else do {
                  chunk \<leftarrow> mem_read data (unat i) (unat n);
                  b \<leftarrow> mem_write (cb_buff c1) (unat at) chunk;
                  Some (b, data)
                });
             f (snd (cb_end_async_operation (c1\<lparr>cb_buff := ring\<rparr>) is_read))
               data' sz is_read (i + n) (so \<or> ret = - EOVERRUN)
           })) = Some y"
  then show "\<not> cb_read_starved c data sz is_read i"
    using cb_read_starved_step [of c data sz is_read i f so, OF _ IH]
    by (cases "i < sz") (auto simp: cb_read_starved_def word_less_nat_alt)
qed

lemma cb_write_fits:
  assumes "cb_ok c" "\<not> async_started (cb_write_ptr c)" "sz \<noteq> 0" "unat sz \<le> length data"
    "length (cb_contents c) + unat sz \<le> unat (cb_size_field c)"
  shows "\<exists>c'. cb_write c (Some data) sz = Some (SUCCESS, c', Some data) \<and> cb_ok c' \<and>
    cb_contents c' = cb_contents c @ take (unat sz) data \<and>
    cb_read_ptr c' = cb_read_ptr c \<and> cb_size_field c' = cb_size_field c \<and>
    \<not> async_started (cb_write_ptr c')"
  using cb_write_loop [OF assms(1,2), of 0 sz data] assms(3-)
  by (auto simp: cb_write_def cb_operation_def)

lemma cb_read_fits:
  assumes "cb_ok c" "\<not> async_started (cb_read_ptr c)" "sz \<noteq> 0" "unat sz \<le> length data"
    "unat sz \<le> length (cb_contents c)"
  shows "\<exists>c'. cb_read c (Some data) sz =
      Some (SUCCESS, c', Some (take (unat sz) (cb_contents c) @ drop (unat sz) data)) \<and>
    cb_ok c' \<and> cb_contents c' = drop (unat sz) (cb_contents c) \<and>
    cb_write_ptr c' = cb_write_ptr c \<and> cb_size_field c' = cb_size_field c \<and>
    \<not> async_started (cb_read_ptr c')"
  using cb_read_loop [OF assms(1,2), of 0 sz data] assms(3-)
  by (auto simp: cb_read_def cb_operation_def)

text \<open>
  C19. A blocking write that fits appends its bytes to the contents, whatever the position of
  the ring's ends, and leaves the reader's side alone.
\<close>

theorem cb_write_appends:
  assumes "cb_ok c" "\<not> async_started (cb_write_ptr c)" "sz \<noteq> 0" "unat sz \<le> length data"
    "length (cb_contents c) + unat sz \<le> unat (cb_size_field c)"
  shows "\<exists>c'. cb_write c (Some data) sz = Some (SUCCESS, c', Some data) \<and> cb_ok c' \<and>
    cb_contents c' = cb_contents c @ take (unat sz) data \<and>
    cb_read_ptr c' = cb_read_ptr c \<and> cb_size_field c' = cb_size_field c \<and>
    \<not> async_started (cb_write_ptr c')"
  using assms by (rule cb_write_fits)

text \<open>
  C20. A blocking read of bytes that are there takes them from the front, in order.
\<close>

theorem cb_read_takes:
  assumes "cb_ok c" "\<not> async_started (cb_read_ptr c)" "sz \<noteq> 0" "unat sz \<le> length data"
    "unat sz \<le> length (cb_contents c)"
  shows "\<exists>c'. cb_read c (Some data) sz =
      Some (SUCCESS, c', Some (take (unat sz) (cb_contents c) @ drop (unat sz) data)) \<and>
    cb_ok c' \<and> cb_contents c' = drop (unat sz) (cb_contents c) \<and>
    cb_write_ptr c' = cb_write_ptr c \<and> cb_size_field c' = cb_size_field c \<and>
    \<not> async_started (cb_read_ptr c')"
  using assms by (rule cb_read_fits)

text \<open>A buffer as cb_init leaves it, and one with a reader in the middle of the ring.\<close>

definition cb_example :: circular_buffer where
  "cb_example = \<lparr>cb_size_field = 4, cb_buff = [5, 6, 7, 8],
     cb_write_ptr = \<lparr>idx = 1, spin_count = 0, async_started = False, async_size = 0\<rparr>,
     cb_read_ptr = \<lparr>idx = 3, spin_count = 0xffffffff, async_started = False, async_size = 0\<rparr>\<rparr>"

lemma cb_example_ok:
  "cb_ok cb_example" "cb_contents cb_example = [8, 5]"
  "\<not> async_started (cb_write_ptr cb_example)" "\<not> async_started (cb_read_ptr cb_example)"
  "cb_size_field cb_example = 4"
  by (simp_all add: cb_ok_def cb_wf_def cb_ptr_wf_def cb_contents_def cb_example_def u32_all_ones)

theorem cb_write_appends_witness:
  "\<exists>c'. cb_write cb_example (Some [1, 2]) 2 = Some (SUCCESS, c', Some [1, 2]) \<and>
     cb_contents c' = [8, 5, 1, 2]"
  using cb_write_appends [of cb_example 2 "[1, 2]"] by (auto simp: cb_example_ok)

theorem cb_read_takes_witness:
  "\<exists>c'. cb_read cb_example (Some [0, 0]) 2 = Some (SUCCESS, c', Some [8, 5]) \<and>
     cb_contents c' = []"
  using cb_read_takes [of cb_example 2 "[0, 0]"] by (auto simp: cb_example_ok)

text \<open>
  A blocking read of more bytes than the buffer holds does not return while nobody
  writes: it spins on -EAGAIN.
\<close>

theorem cb_read_blocks:
  assumes "cb_ok c" "\<not> async_started (cb_read_ptr c)" "unat sz \<le> length data"
    "length (cb_contents c) < unat sz"
  shows "cb_read c (Some data) sz = None"
proof -
  have "sz \<noteq> 0" using assms(4) by auto
  moreover have "cb_read_starved c data sz True 0" using assms by (simp add: cb_read_starved_def)
  then have "cb_operation_loop c data sz True 0 False = None"
    using cb_read_loop_starved by (metis not_None_eq)
  ultimately show ?thesis by (simp add: cb_read_def cb_operation_def)
qed

theorem cb_read_blocks_witness: "cb_read cb_example (Some [0, 0, 0]) 3 = None"
  using cb_read_blocks [of cb_example 3 "[0, 0, 0]"] by (simp add: cb_example_ok)

section \<open>One writer and one reader, interleaved\<close>

text \<open>
  The asynchronous calls of a writer (an interrupt handler or DMA) and of a reader, in any
  order. The writer never asks for more than the free space; between its prepare and its end
  the hardware stores any bytes in the window it was given. Two ghost lists record the bytes
  each side has completed.
\<close>

definition cb_window :: "bool \<Rightarrow> circular_buffer \<Rightarrow> u8 list" where
  "cb_window b c = take (unat (async_size (cb_sel b c))) (drop (unat (idx (cb_sel b c))) (cb_buff c))"

inductive cb_step ::
  "circular_buffer \<times> u8 list \<times> u8 list \<Rightarrow> circular_buffer \<times> u8 list \<times> u8 list \<Rightarrow> bool" where
  prepare_write: "cb_prepare_async_write c req = (SUCCESS, c', Some w) \<Longrightarrow>
     unat req + length (cb_contents c) \<le> unat (cb_size_field c) \<Longrightarrow>
     cb_step (c, wr, rd) (c', wr, rd)"
| dma_store: "async_started (cb_write_ptr c) \<Longrightarrow>
     length chunk = unat (async_size (cb_write_ptr c)) \<Longrightarrow>
     mem_write (cb_buff c) (unat (idx (cb_write_ptr c))) chunk = Some ring \<Longrightarrow>
     cb_step (c, wr, rd) (c\<lparr>cb_buff := ring\<rparr>, wr, rd)"
| end_write: "cb_end_async_write c = (SUCCESS, c') \<Longrightarrow>
     cb_step (c, wr, rd) (c', wr @ cb_window False c, rd)"
| prepare_read: "cb_prepare_async_read c req = (ret, c', w) \<Longrightarrow> cb_step (c, wr, rd) (c', wr, rd)"
| end_read: "cb_end_async_read c = (SUCCESS, c') \<Longrightarrow>
     cb_step (c, wr, rd) (c', wr, rd @ cb_window True c)"

definition cb_conc_inv :: "circular_buffer \<times> u8 list \<times> u8 list \<Rightarrow> bool" where
  "cb_conc_inv s \<longleftrightarrow> (case s of (c, wr, rd) \<Rightarrow> cb_ok c \<and> wr = rd @ cb_contents c \<and>
     length (cb_contents c) + unat (async_size (cb_write_ptr c)) \<le> unat (cb_size_field c) \<and>
     unat (async_size (cb_read_ptr c)) \<le> length (cb_contents c))"

lemma cb_end_finish:
  assumes "cb_wf c" "async_started (cb_sel b c)"
  shows "cb_end_async_operation c b = (SUCCESS, cb_finish b (unat (async_size (cb_sel b c))) c)"
proof -
  have wf: "cb_ptr_wf (unat (cb_size_field c)) (cb_sel b c)" "unat (cb_size_field c) < 2 ^ 31"
    using assms(1) by (auto simp: cb_wf_def cb_sel_def)
  show ?thesis
    unfolding cb_end_async_fields [OF wf(1) assms(2) wf(2)]
    by (cases b) (simp_all add: cb_finish_def cb_upd_def)
qed

lemma cb_end_not_started: "\<not> async_started (cb_sel b c) \<Longrightarrow> cb_end_async_operation c b = (FAILURE, c)"
  by (simp add: cb_end_async_operation_def)

lemma cb_started_ok:
  assumes "cb_ok c" "unat (idx (cb_sel b c)) + unat n \<le> unat (cb_size_field c)"
  shows "cb_ok (cb_started b n c) \<and> cb_contents (cb_started b n c) = cb_contents c"
  using assms by (cases b)
    (auto simp: cb_started_def cb_ok_def cb_wf_def cb_ptr_wf_def cb_contents_def)

lemma cb_dma_store_ok:
  assumes "cb_ok c" "mem_write (cb_buff c) (unat (idx (cb_write_ptr c))) chunk = Some ring"
    "length (cb_contents c) + length chunk \<le> unat (cb_size_field c)"
    "unat (idx (cb_write_ptr c)) + length chunk \<le> unat (cb_size_field c)"
  shows "cb_ok (c\<lparr>cb_buff := ring\<rparr>) \<and> cb_contents (c\<lparr>cb_buff := ring\<rparr>) = cb_contents c"
proof -
  let ?w = "unat (idx (cb_write_ptr c))" and ?r = "unat (idx (cb_read_ptr c))"
    and ?n = "unat (cb_size_field c)" and ?k = "length chunk"
  have wf: "length (cb_buff c) = ?n" "?w < ?n" "?r < ?n"
    using assms(1) by (auto simp: cb_ok_def cb_wf_def cb_ptr_wf_def)
  have rg: "ring = take ?w (cb_buff c) @ chunk @ drop (?w + ?k) (cb_buff c)"
    using assms(2) by (auto simp: mem_write_def split: if_splits)
  have "length ring = ?n" using wf assms(4) by (simp add: rg)
  moreover have "cb_contents (c\<lparr>cb_buff := ring\<rparr>) = cb_contents c"
  proof (cases "spin_count (cb_write_ptr c) = spin_count (cb_read_ptr c)")
    case True
    with assms(1) have "?r \<le> ?w" by (simp add: cb_ok_def)
    with True wf show ?thesis by (simp add: cb_contents_def Let_def rg drop_take)
  next
    case False
    with assms(1,3) have "?w + ?k \<le> ?r"
      using length_cb_contents [OF assms(1)] wf by simp
    with False wf show ?thesis by (simp add: cb_contents_def Let_def rg)
  qed
  ultimately show ?thesis using assms(1) by (simp add: cb_ok_def cb_wf_def)
qed

lemma cb_conc_prepare_write:
  assumes inv: "cb_conc_inv (c, wr, rd)"
    and p: "cb_prepare_async_write c req = (SUCCESS, c', Some w)"
      "unat req + length (cb_contents c) \<le> unat (cb_size_field c)"
  shows "cb_conc_inv (c', wr, rd)"
proof -
  have ns: "\<not> async_started (cb_write_ptr c)"
    using p(1) by (auto simp: cb_prepare_async_write_def cb_prepare_async_operation_def)
  define n where "n = min_u32 req (cb_size_field c - idx (cb_write_ptr c))"
  have c': "c' = cb_started False n c"
    using p(1) by (simp add: cb_prepare_async_write_def cb_prepare_write [OF ns] n_def Let_def)
  have lt: "unat (idx (cb_write_ptr c)) < unat (cb_size_field c)"
    using inv by (auto simp: cb_conc_inv_def cb_ok_def cb_wf_def cb_ptr_wf_def)
  then have "unat n = min (unat req) (unat (cb_size_field c) - unat (idx (cb_write_ptr c)))"
    by (simp add: n_def unat_diff_u32 word_le_nat_alt)
  then have n: "unat (idx (cb_sel False c)) + unat n \<le> unat (cb_size_field c)" "unat n \<le> unat req"
    using lt by auto
  have "async_size (cb_write_ptr c') = n" "cb_read_ptr c' = cb_read_ptr c"
      "cb_size_field c' = cb_size_field c"
    by (simp_all add: c' cb_started_def)
  then show ?thesis
    using inv n p(2) cb_started_ok [of c False n] by (simp add: cb_conc_inv_def c')
qed

lemma cb_conc_prepare_read:
  assumes inv: "cb_conc_inv (c, wr, rd)" and p: "cb_prepare_async_read c req = (ret, c', w)"
  shows "cb_conc_inv (c', wr, rd)"
proof (cases "async_started (cb_read_ptr c) \<or> cb_contents c = [] \<or> req = 0")
  case True
  moreover have "cb_ok c" using inv by (simp add: cb_conc_inv_def)
  ultimately have "c' = c"
    using p by (auto simp: cb_prepare_async_read_def cb_prepare_async_operation_def cb_size_ok
        Let_def split: if_splits)
  with inv show ?thesis by simp
next
  case False
  have ok: "cb_ok c" using inv by (simp add: cb_conc_inv_def)
  define n where "n = min_u32 (min_u32 req (of_nat (length (cb_contents c))))
    (cb_size_field c - idx (cb_read_ptr c))"
  have c': "c' = cb_started True n c"
    using p False by (simp add: cb_prepare_async_read_def cb_prepare_read [OF ok] n_def Let_def)
  have lt: "unat (idx (cb_read_ptr c)) < unat (cb_size_field c)" "unat (cb_size_field c) < 2 ^ 31"
    using ok by (auto simp: cb_ok_def cb_wf_def cb_ptr_wf_def)
  then have "unat n = min (min (unat req) (length (cb_contents c)))
      (unat (cb_size_field c) - unat (idx (cb_read_ptr c)))"
    using length_cb_contents_le [OF ok]
    by (simp add: n_def unat_diff_u32 word_le_nat_alt unat_of_nat)
  then have n: "unat (idx (cb_sel True c)) + unat n \<le> unat (cb_size_field c)"
      "unat n \<le> length (cb_contents c)"
    using lt by auto
  have "async_size (cb_read_ptr c') = n" "cb_write_ptr c' = cb_write_ptr c"
      "cb_size_field c' = cb_size_field c"
    by (simp_all add: c' cb_started_def)
  then show ?thesis
    using inv n cb_started_ok [of c True n] by (simp add: cb_conc_inv_def c')
qed

lemma cb_conc_end_write:
  assumes inv: "cb_conc_inv (c, wr, rd)" and p: "cb_end_async_write c = (SUCCESS, c')"
  shows "cb_conc_inv (c', wr @ cb_window False c, rd)"
proof -
  let ?w = "unat (idx (cb_write_ptr c))" and ?k = "unat (async_size (cb_write_ptr c))"
  have ok: "cb_ok c" "cb_wf c" using inv by (auto simp: cb_conc_inv_def cb_ok_def)
  have st: "async_started (cb_write_ptr c)"
    using p cb_end_not_started [of False c] by (auto simp: cb_end_async_write_def)
  have c': "c' = cb_finish False ?k c"
    using p cb_end_finish [OF ok(2), of False] st by (simp add: cb_end_async_write_def)
  have fit: "?w + ?k \<le> unat (cb_size_field c)" "length (cb_buff c) = unat (cb_size_field c)"
    using ok by (auto simp: cb_wf_def cb_ptr_wf_def)
  have lw: "length (cb_window False c) = ?k" using fit by (simp add: cb_window_def)
  have "mem_write (cb_buff c) ?w (cb_window False c) = Some (cb_buff c)"
    using fit by (simp add: cb_window_def mem_write_same)
  then have "cb_ok c' \<and> cb_contents c' = cb_contents c @ cb_window False c"
    using cb_write_chunk [OF ok(1), of "cb_window False c" "cb_buff c"] fit inv
    by (simp add: lw c' cb_conc_inv_def)
  then show ?thesis using inv lw by (simp add: cb_conc_inv_def c' cb_finish_def)
qed

lemma cb_conc_end_read:
  assumes inv: "cb_conc_inv (c, wr, rd)" and p: "cb_end_async_read c = (SUCCESS, c')"
  shows "cb_conc_inv (c', wr, rd @ cb_window True c)"
proof -
  let ?r = "unat (idx (cb_read_ptr c))" and ?k = "unat (async_size (cb_read_ptr c))"
  have ok: "cb_ok c" "cb_wf c" using inv by (auto simp: cb_conc_inv_def cb_ok_def)
  have st: "async_started (cb_read_ptr c)"
    using p cb_end_not_started [of True c] by (auto simp: cb_end_async_read_def)
  have c': "c' = cb_finish True ?k c"
    using p cb_end_finish [OF ok(2), of True] st by (simp add: cb_end_async_read_def)
  have fit: "?r + ?k \<le> unat (cb_size_field c)" "?k \<le> length (cb_contents c)"
    using ok inv by (auto simp: cb_wf_def cb_ptr_wf_def cb_conc_inv_def)
  have rc: "cb_window True c = take ?k (cb_contents c)" "cb_ok c'"
      "cb_contents c' = drop ?k (cb_contents c)"
    using cb_read_chunk [OF ok(1) fit]
    by (auto simp: c' cb_window_def mem_read_def split: if_splits)
  moreover have "async_size (cb_read_ptr c') = 0" "cb_write_ptr c' = cb_write_ptr c"
      "cb_size_field c' = cb_size_field c"
    by (simp_all add: c')
  ultimately show ?thesis using inv by (auto simp: cb_conc_inv_def)
qed

lemma cb_step_inv: "cb_step s s' \<Longrightarrow> cb_conc_inv s \<Longrightarrow> cb_conc_inv s'"
proof (induction rule: cb_step.induct)
  case (dma_store c chunk ring wr rd)
  then have "unat (idx (cb_write_ptr c)) + length chunk \<le> unat (cb_size_field c)"
    by (auto simp: cb_conc_inv_def cb_ok_def cb_wf_def cb_ptr_wf_def)
  with dma_store cb_dma_store_ok [of c chunk ring] show ?case by (simp add: cb_conc_inv_def)
qed (blast intro: cb_conc_prepare_write cb_conc_prepare_read cb_conc_end_write cb_conc_end_read)+

text \<open>
  C1. For one writer that respects the free space and one reader, whatever the interleaving
  of their asynchronous calls and of the hardware's stores, the bytes the reader has completed
  followed by the bytes in the buffer are exactly the bytes the writer has completed.
\<close>

theorem cb_spsc_fifo:
  assumes "cb_step\<^sup>*\<^sup>* (c0, [], []) (c, wr, rd)"
    and "cb_init (Some Null) n True True = (SUCCESS, Some (Live c0))" and "unat n < 2 ^ 31"
  shows "cb_ok c \<and> wr = rd @ cb_contents c"
proof -
  have "cb_conc_inv (c0, [], [])"
    using assms(2,3) by (auto simp: cb_init_def cb_conc_inv_def cb_ok_def cb_wf_def cb_ptr_wf_def
        cb_contents_def cb_ptr_zero_def unat_gt_0 split: if_splits)
  with assms(1) have "cb_conc_inv (c, wr, rd)"
    by (induction rule: rtranclp_induct) (auto intro: cb_step_inv)
  then show ?thesis by (simp add: cb_conc_inv_def)
qed

definition cb_fresh :: circular_buffer where
  "cb_fresh = \<lparr>cb_size_field = 4, cb_buff = [0, 0, 0, 0],
     cb_write_ptr = cb_ptr_zero, cb_read_ptr = cb_ptr_zero\<rparr>"

theorem cb_spsc_fifo_witness:
  "\<exists>c. cb_step\<^sup>*\<^sup>* (cb_fresh, [], []) (c, [], []) \<and> async_started (cb_write_ptr c) \<and>
     cb_ok c \<and> [] = [] @ cb_contents c"
proof -
  have "replicate 4 (0 :: u8) = [0, 0, 0, 0]" by (simp add: numeral_eq_Suc)
  then have i: "cb_init (Some Null) 4 True True = (SUCCESS, Some (Live cb_fresh))"
    by (simp add: cb_init_def cb_fresh_def)
  define c where "c = cb_started False 3 cb_fresh"
  have "cb_prepare_async_write cb_fresh 3 = (SUCCESS, c, Some (0, 3))"
    by (simp add: cb_prepare_async_write_def cb_prepare_write cb_fresh_def cb_ptr_zero_def c_def
        min_u32_def Let_def)
  moreover have "unat (3 :: u32) + length (cb_contents cb_fresh) \<le> unat (cb_size_field cb_fresh)"
    by (simp add: cb_fresh_def cb_contents_def cb_ptr_zero_def)
  ultimately have "cb_step (cb_fresh, [], []) (c, [], [])" by (rule cb_step.prepare_write)
  then have s: "cb_step\<^sup>*\<^sup>* (cb_fresh, [], []) (c, [], [])" by (rule r_into_rtranclp)
  then have "cb_ok c \<and> [] = [] @ cb_contents c" using i by (rule cb_spsc_fifo) simp
  with s show ?thesis by (auto simp: c_def cb_started_def)
qed

section \<open>Overrun\<close>

lemma cb_overrun_resync:
  assumes "cb_wf c" "spin_count (cb_write_ptr c) = spin_count (cb_read_ptr c) + k" "1 \<le> k"
    and "unat (idx (cb_read_ptr c)) < unat (idx (cb_write_ptr c))" "\<not> async_started (cb_read_ptr c)" "req \<noteq> 0"
  shows "\<exists>c' n. cb_prepare_async_read c req = (- EOVERRUN, c', Some (idx (cb_write_ptr c), n)) \<and>
     0 < unat n \<and> cb_ok c' \<and>
     cb_contents c' = drop (unat (idx (cb_write_ptr c))) (cb_buff c) @
                      take (unat (idx (cb_write_ptr c))) (cb_buff c)"
proof -
  let ?w = "idx (cb_write_ptr c)" and ?r = "idx (cb_read_ptr c)" and ?n = "cb_size_field c"
  have wf: "unat ?n < 2 ^ 31" "unat ?w < unat ?n" "unat ?r \<le> unat ?n"
    using assms(1) by (auto simp: cb_wf_def cb_ptr_wf_def)
  have "unat (?n + ?w - ?r) = unat ?n + unat ?w - unat ?r" by (rule u32_add_sub_nat [OF wf])
  then have "?n + ?w - ?r > ?n" using assms(4) by (simp add: word_less_nat_alt)
  moreover have "cb_nb_spins c > 0" using assms(2,3) by (auto simp: word_gt_0)
  ultimately have sz: "cb_size c = (- EOVERRUN, ?n)" by (simp add: cb_size_def)
  define c1 where "c1 = cb_upd True (\<lambda>p. p\<lparr>spin_count := spin_count (cb_write_ptr c) - 1, idx := ?w\<rparr>) c"
  define n where "n = min_u32 (min_u32 req ?n) (?n - ?w)"
  have ok1: "cb_ok c1" "cb_contents c1 = drop (unat ?w) (cb_buff c) @ take (unat ?w) (cb_buff c)"
    using assms by (auto simp: c1_def cb_ok_def cb_wf_def cb_ptr_wf_def cb_contents_def)
  have un: "unat n = min (min (unat req) (unat ?n)) (unat ?n - unat ?w)"
    using wf by (simp add: n_def unat_diff_u32 word_le_nat_alt)
  have n0: "0 < unat n" "min_u32 req ?n \<noteq> 0"
    using un wf assms(6) by (auto simp: unat_gt_0 min_u32_def)
  have "cb_prepare_async_read c req = (- EOVERRUN, cb_started True n c1, Some (?w, n))"
    using assms(5) n0(2)
    by (simp add: cb_prepare_async_read_def cb_prepare_async_operation_def sz Let_def cb_started_def
        flip: c1_def) (simp add: c1_def n_def)
  moreover have "unat (idx (cb_sel True c1)) + unat n \<le> unat (cb_size_field c1)"
    using un wf by (simp add: c1_def)
  ultimately show ?thesis using cb_started_ok [of c1 True n] ok1 n0(1) by auto
qed

lemma cb_overrun_unseen:
  assumes "cb_wf c" "spin_count (cb_write_ptr c) = spin_count (cb_read_ptr c) + k" "1 \<le> k"
    "unat (idx (cb_write_ptr c)) \<le> unat (idx (cb_read_ptr c))"
  shows "cb_size c = (SUCCESS, cb_size_field c + idx (cb_write_ptr c) - idx (cb_read_ptr c))"
proof -
  let ?w = "idx (cb_write_ptr c)" and ?r = "idx (cb_read_ptr c)" and ?n = "cb_size_field c"
  have wf: "unat ?n < 2 ^ 31" "unat ?w < unat ?n" "unat ?r \<le> unat ?n"
    using assms(1) by (auto simp: cb_wf_def cb_ptr_wf_def)
  have "unat (?n + ?w - ?r) = unat ?n + unat ?w - unat ?r" by (rule u32_add_sub_nat [OF wf])
  then have "\<not> ?n + ?w - ?r > ?n" using assms(4) by (simp add: word_less_nat_alt)
  moreover have "cb_nb_spins c > 0" using assms(2,3) by (auto simp: word_gt_0)
  ultimately show ?thesis by (simp add: cb_size_def)
qed

text \<open>
  C35. A writer one or more laps ahead of the reader, k laps as the spin counts tell. When its
  index is beyond the reader's, the next asynchronous read reports -EOVERRUN, moves the reader
  to the oldest byte still in the ring and offers data from there, for every k. When its
  index is at or below the reader's, nothing is reported: cb_size returns SUCCESS and the
  distance of the indices over the wrap. That is right for one lap, where no byte is lost, and
  misses the overrun for two laps or more.
\<close>

theorem cb_overrun_detected:
  assumes "cb_wf c" "spin_count (cb_write_ptr c) = spin_count (cb_read_ptr c) + k" "1 \<le> k"
  shows "(unat (idx (cb_read_ptr c)) < unat (idx (cb_write_ptr c)) \<and> \<not> async_started (cb_read_ptr c) \<and> req \<noteq> 0 \<longrightarrow>
      (\<exists>c' n. cb_prepare_async_read c req = (- EOVERRUN, c', Some (idx (cb_write_ptr c), n)) \<and>
         0 < unat n \<and> cb_ok c' \<and>
         cb_contents c' = drop (unat (idx (cb_write_ptr c))) (cb_buff c) @
                          take (unat (idx (cb_write_ptr c))) (cb_buff c)))
    \<and> (unat (idx (cb_write_ptr c)) \<le> unat (idx (cb_read_ptr c)) \<longrightarrow>
         cb_size c = (SUCCESS, cb_size_field c + idx (cb_write_ptr c) - idx (cb_read_ptr c)))"
  using cb_overrun_resync [OF assms] cb_overrun_unseen [OF assms] by blast

theorem cb_overrun_detected_witness:
  "\<exists>c' n. cb_prepare_async_read (cb_example\<lparr>cb_read_ptr := (cb_read_ptr cb_example)\<lparr>idx := 0\<rparr>\<rparr>) 2 =
       (- EOVERRUN, c', Some (1, n)) \<and> cb_contents c' = [6, 7, 8, 5]"
  using cb_overrun_detected [of "cb_example\<lparr>cb_read_ptr := (cb_read_ptr cb_example)\<lparr>idx := 0\<rparr>\<rparr>" 1 2]
  by (auto simp: cb_example_def cb_wf_def cb_ptr_wf_def u32_all_ones)

text \<open>
  So a whole buffer of lost bytes can go unnoticed: after two or more laps with the write index
  at or below the read index a normal fill level is reported.
\<close>

theorem cb_overrun_of_laps_missed:
  assumes "cb_wf c" "spin_count (cb_write_ptr c) = spin_count (cb_read_ptr c) + k" "2 \<le> k"
    "unat (idx (cb_write_ptr c)) \<le> unat (idx (cb_read_ptr c))"
  shows "cb_size c = (SUCCESS, cb_size_field c + idx (cb_write_ptr c) - idx (cb_read_ptr c))"
  using assms by (intro cb_overrun_unseen) (auto simp: word_le_nat_alt)

theorem cb_overrun_of_laps_missed_witness:
  "cb_size (cb_example\<lparr>cb_write_ptr := (cb_write_ptr cb_example)\<lparr>spin_count := 1\<rparr>\<rparr>) = (SUCCESS, 2)"
  using cb_overrun_of_laps_missed
    [of "cb_example\<lparr>cb_write_ptr := (cb_write_ptr cb_example)\<lparr>spin_count := 1\<rparr>\<rparr>" 2]
  by (auto simp: cb_example_def cb_wf_def cb_ptr_wf_def u32_all_ones)

section \<open>The buffer is a queue of bytes\<close>

definition cb_put :: "circular_buffer \<Rightarrow> u8 \<Rightarrow> circular_buffer option" where
  "cb_put c x = do { (ret, c', _) \<leftarrow> cb_write c (Some [x]) 1; guard (ret = SUCCESS); Some c' }"

definition cb_get :: "circular_buffer \<Rightarrow> (u8 \<times> circular_buffer) option" where
  "cb_get c = do {
     (ret, c', d) \<leftarrow> cb_read c (Some [0]) 1;
     guard (ret = SUCCESS);
     xs \<leftarrow> d;
     Some (hd xs, c')
   }"

interpretation cbq: queue "\<lambda>c. cb_ok c \<and> cb_idle c" cb_contents
  "\<lambda>c _. length (cb_contents c) < unat (cb_size_field c)" cb_put cb_get
proof (unfold_locales, goal_cases)
  case (1 c x)
  then show ?case
    using cb_write_fits [of c 1 "[x]"] by (auto simp: cb_put_def cb_idle_def)
next
  case (2 c x xs)
  then show ?case
    using cb_read_fits [of c 1 "[0]"] by (auto simp: cb_get_def cb_idle_def)
qed

lemma cb_room_all:
  "cb_ok c \<and> cb_idle c \<Longrightarrow> length (cb_contents c) + length xs \<le> unat (cb_size_field c) \<Longrightarrow>
   cbq.room_all c xs"
proof (induction xs arbitrary: c)
  case (Cons x xs)
  then obtain c' where c': "cb_put c x = Some c'" "cb_ok c' \<and> cb_idle c'"
    "length (cb_contents c') = Suc (length (cb_contents c))" "cb_size_field c' = cb_size_field c"
    using cb_write_fits [of c 1 "[x]"] by (auto simp: cb_put_def cb_idle_def)
  with Cons show ?case by simp
qed simp

end
