(* ===== verification/Linked_List.thy ===== *)
theory Linked_List
  imports NoOS_Prelude Queue_Interface "HOL-Library.Multiset"
begin

text \<open>
  util/list.c: the doubly linked list with iterators and adapters. The elements live in a
  heap of list_elem cells; the descriptor (struct _list_desc) and the heap are the state
  every operation takes and returns. A void pointer is its 32 bit address, so
  default_comparator subtracts as the code does. The argument \<open>list_desc\<close> (and
  \<open>data\<close> where it is an output pointer) is False for a NULL pointer; the value stored to
  \<open>*data\<close> is an option, \<open>None\<close> when nothing is stored. An iterator is passed by value
  and returned updated, \<open>None\<close> for NULL; the internal iterator l_it is a field of the
  descriptor.

  The second half relates the heap to a list of address and data pairs (\<open>list_rep\<close>) and
  shows that every operation is the list function its name says.
\<close>

section \<open>Data\<close>

record list_elem =
  e_data :: u32
  e_prev :: "nat option"
  e_next :: "nat option"

record iterator =
  it_elem :: "nat option"

record list_desc =
  l_first :: "nat option"
  l_last :: "nat option"
  nb_elements :: u32
  comparator :: "u32 \<Rightarrow> u32 \<Rightarrow> int"
  nb_iterators :: u32
  l_it :: iterator
  l_mem :: "list_elem heap"

datatype adapter_type = LIST_DEFAULT | LIST_STACK | LIST_QUEUE | LIST_PRIORITY_LIST

definition default_comparator :: "u32 \<Rightarrow> u32 \<Rightarrow> int" where
  "default_comparator data1 data2 = sint (data1 - data2)"

section \<open>Links\<close>

definition load :: "nat \<Rightarrow> list_elem heap \<Rightarrow> list_elem option" where
  "load a m = cells m a"

definition store :: "nat \<Rightarrow> (list_elem \<Rightarrow> list_elem) \<Rightarrow> list_elem heap \<Rightarrow> list_elem heap option" where
  "store a f m = (case cells m a of None \<Rightarrow> None
     | Some e \<Rightarrow> Some (m\<lparr>cells := (cells m)(a \<mapsto> f e)\<rparr>))"

definition create_element ::
  "u32 \<Rightarrow> nat option \<Rightarrow> nat option \<Rightarrow> list_elem heap \<Rightarrow> nat option \<times> list_elem heap" where
  "create_element data p n m = calloc \<lparr>e_data = data, e_prev = p, e_next = n\<rparr> m"

definition update_links ::
  "nat option \<Rightarrow> nat option \<Rightarrow> nat option \<Rightarrow> list_elem heap \<Rightarrow> list_elem heap option" where
  "update_links p elem n m = do {
     m \<leftarrow> (case p of None \<Rightarrow> Some m
        | Some a \<Rightarrow> store a (\<lambda>e. e\<lparr>e_next := if elem \<noteq> None then elem else n\<rparr>) m);
     m \<leftarrow> (case elem of None \<Rightarrow> Some m
        | Some a \<Rightarrow> store a (\<lambda>e. e\<lparr>e_prev := p, e_next := n\<rparr>) m);
     (case n of None \<Rightarrow> Some m
        | Some a \<Rightarrow> store a (\<lambda>e. e\<lparr>e_prev := if elem \<noteq> None then elem else p\<rparr>) m)
   }"

definition update_desc :: "nat option \<Rightarrow> nat option \<Rightarrow> list_desc \<Rightarrow> list_desc" where
  "update_desc new_first new_last s =
     (if new_first = l_first s then
        let s = s\<lparr>l_last := new_last\<rparr> in
        if new_first = None \<or> new_last = None then s\<lparr>l_first := new_last\<rparr> else s
      else
        let s = s\<lparr>l_first := new_first\<rparr> in
        if new_last = None \<or> new_first = None then s\<lparr>l_last := new_first\<rparr> else s)"

section \<open>Operations at the ends\<close>

definition list_get_size :: "bool \<Rightarrow> bool \<Rightarrow> list_desc \<Rightarrow> int \<times> u32 option" where
  "list_get_size list_desc out_size s =
     (if \<not> list_desc \<or> \<not> out_size then (FAILURE, None) else (SUCCESS, Some (nb_elements s)))"

definition list_add_first :: "bool \<Rightarrow> u32 \<Rightarrow> list_desc \<Rightarrow> (int \<times> list_desc) option" where
  "list_add_first list_desc data s =
     (if \<not> list_desc then Some (FAILURE, s)
      else let n = l_first s in
        case create_element data None n (l_mem s) of
          (None, m) \<Rightarrow> Some (FAILURE, s\<lparr>l_mem := m\<rparr>)
        | (Some elem, m) \<Rightarrow> do {
            m \<leftarrow> update_links None (Some elem) n m;
            let s = update_desc (Some elem) (l_last s) (s\<lparr>l_mem := m\<rparr>);
            Some (SUCCESS, s\<lparr>nb_elements := nb_elements s + 1\<rparr>)
          })"

definition list_add_last :: "bool \<Rightarrow> u32 \<Rightarrow> list_desc \<Rightarrow> (int \<times> list_desc) option" where
  "list_add_last list_desc data s =
     (if \<not> list_desc then Some (FAILURE, s)
      else let p = l_last s in
        case create_element data p None (l_mem s) of
          (None, m) \<Rightarrow> Some (FAILURE, s\<lparr>l_mem := m\<rparr>)
        | (Some elem, m) \<Rightarrow> do {
            m \<leftarrow> update_links p (Some elem) None m;
            let s = update_desc (l_first s) (Some elem) (s\<lparr>l_mem := m\<rparr>);
            Some (SUCCESS, s\<lparr>nb_elements := nb_elements s + 1\<rparr>)
          })"

definition list_edit_first :: "bool \<Rightarrow> u32 \<Rightarrow> list_desc \<Rightarrow> (int \<times> list_desc) option" where
  "list_edit_first list_desc new_data s =
     (if \<not> list_desc then Some (FAILURE, s)
      else do {
        a \<leftarrow> l_first s;
        m \<leftarrow> store a (\<lambda>e. e\<lparr>e_data := new_data\<rparr>) (l_mem s);
        Some (SUCCESS, s\<lparr>l_mem := m\<rparr>)
      })"

definition list_edit_last :: "bool \<Rightarrow> u32 \<Rightarrow> list_desc \<Rightarrow> (int \<times> list_desc) option" where
  "list_edit_last list_desc new_data s =
     (if \<not> list_desc then Some (FAILURE, s)
      else do {
        a \<leftarrow> l_last s;
        m \<leftarrow> store a (\<lambda>e. e\<lparr>e_data := new_data\<rparr>) (l_mem s);
        Some (SUCCESS, s\<lparr>l_mem := m\<rparr>)
      })"

definition list_read_first ::
  "bool \<Rightarrow> bool \<Rightarrow> list_desc \<Rightarrow> (int \<times> u32 option \<times> list_desc) option" where
  "list_read_first list_desc data s =
     (if \<not> list_desc \<or> \<not> data then Some (FAILURE, None, s)
      else case l_first s of
        None \<Rightarrow> Some (FAILURE, Some 0, s)
      | Some a \<Rightarrow> do {e \<leftarrow> load a (l_mem s); Some (SUCCESS, Some (e_data e), s)})"

definition list_read_last ::
  "bool \<Rightarrow> bool \<Rightarrow> list_desc \<Rightarrow> (int \<times> u32 option \<times> list_desc) option" where
  "list_read_last list_desc data s =
     (if \<not> list_desc \<or> \<not> data then Some (FAILURE, None, s)
      else case l_last s of
        None \<Rightarrow> Some (FAILURE, Some 0, s)
      | Some a \<Rightarrow> do {e \<leftarrow> load a (l_mem s); Some (SUCCESS, Some (e_data e), s)})"

definition list_get_first ::
  "bool \<Rightarrow> bool \<Rightarrow> list_desc \<Rightarrow> (int \<times> u32 option \<times> list_desc) option" where
  "list_get_first list_desc data s =
     (if \<not> list_desc \<or> \<not> data then Some (FAILURE, None, s)
      else if nb_elements s = 0 then Some (FAILURE, Some 0, s)
      else do {
        a \<leftarrow> l_first s;
        elem \<leftarrow> load a (l_mem s);
        m \<leftarrow> update_links (e_prev elem) None (e_next elem) (l_mem s);
        let s = update_desc (e_next elem) (l_last s) (s\<lparr>l_mem := m\<rparr>);
        let s = s\<lparr>nb_elements := nb_elements s - 1\<rparr>;
        elem \<leftarrow> load a (l_mem s);
        m \<leftarrow> cfree a (l_mem s);
        Some (SUCCESS, Some (e_data elem), s\<lparr>l_mem := m\<rparr>)
      })"

definition list_get_last ::
  "bool \<Rightarrow> bool \<Rightarrow> list_desc \<Rightarrow> (int \<times> u32 option \<times> list_desc) option" where
  "list_get_last list_desc data s =
     (if \<not> list_desc \<or> \<not> data then Some (FAILURE, None, s)
      else if nb_elements s = 0 then Some (FAILURE, Some 0, s)
      else do {
        a \<leftarrow> l_last s;
        elem \<leftarrow> load a (l_mem s);
        m \<leftarrow> update_links (e_prev elem) None (e_next elem) (l_mem s);
        let s = update_desc (l_first s) (e_prev elem) (s\<lparr>l_mem := m\<rparr>);
        let s = s\<lparr>nb_elements := nb_elements s - 1\<rparr>;
        elem \<leftarrow> load a (l_mem s);
        m \<leftarrow> cfree a (l_mem s);
        Some (SUCCESS, Some (e_data elem), s\<lparr>l_mem := m\<rparr>)
      })"

section \<open>Iterators\<close>

text \<open>\<open>alloc_ok\<close> says whether the calloc of the iterator succeeds.\<close>

definition iterator_init ::
  "bool \<Rightarrow> bool \<Rightarrow> bool \<Rightarrow> list_desc \<Rightarrow> int \<times> iterator option \<times> list_desc" where
  "iterator_init list_desc start alloc_ok s =
     (if \<not> list_desc \<or> \<not> alloc_ok then (FAILURE, None, s)
      else (SUCCESS, Some \<lparr>it_elem = if start then l_first s else l_last s\<rparr>,
            s\<lparr>nb_iterators := nb_iterators s + 1\<rparr>))"

definition iterator_remove :: "iterator option \<Rightarrow> list_desc \<Rightarrow> int \<times> list_desc" where
  "iterator_remove iter s =
     (if iter = None then (FAILURE, s) else (SUCCESS, s\<lparr>nb_iterators := nb_iterators s - 1\<rparr>))"

text \<open>The loop of iterator_move, idx positions in the direction \<open>dir\<close>.\<close>

fun move_loop :: "list_elem heap \<Rightarrow> int \<Rightarrow> nat \<Rightarrow> nat option \<Rightarrow> nat option option" where
  "move_loop m dir 0 elem = Some elem"
| "move_loop m dir (Suc idx) None = Some None"
| "move_loop m dir (Suc idx) (Some a) = do {
     e \<leftarrow> load a m;
     move_loop m dir idx (if dir > 0 then e_next e else e_prev e)
   }"

definition iterator_move ::
  "iterator option \<Rightarrow> int \<Rightarrow> list_desc \<Rightarrow> (int \<times> iterator option) option" where
  "iterator_move iter idx s =
     (case iter of
        None \<Rightarrow> Some (FAILURE, None)
      | Some it \<Rightarrow> do {
          guard (idx \<noteq> - (2 ^ 31));
          elem \<leftarrow> move_loop (l_mem s) (if idx < 0 then -1 else 1) (nat \<bar>idx\<bar>) (it_elem it);
          if elem = None then Some (FAILURE, iter)
          else Some (SUCCESS, Some (it\<lparr>it_elem := elem\<rparr>))
        })"

text \<open>
  The search loops of iterator_find and list_add_find: the first element, from \<open>elem\<close> on,
  that the condition holds for. On a cyclic chain the loop of the code does not end.
\<close>

partial_function (option) search_loop ::
  "(u32 \<Rightarrow> bool) \<Rightarrow> list_elem heap \<Rightarrow> nat option \<Rightarrow> nat option option" where
  "search_loop P m elem =
     (case elem of
        None \<Rightarrow> Some None
      | Some a \<Rightarrow> do {
          e \<leftarrow> load a m;
          if P (e_data e) then Some elem else search_loop P m (e_next e)
        })"

definition iterator_find ::
  "iterator option \<Rightarrow> u32 \<Rightarrow> list_desc \<Rightarrow> (int \<times> iterator option) option" where
  "iterator_find iter cmp_data s =
     (case iter of
        None \<Rightarrow> Some (FAILURE, None)
      | Some it \<Rightarrow> do {
          elem \<leftarrow> search_loop (\<lambda>d. 0 = comparator s d cmp_data) (l_mem s) (l_first s);
          if elem = None then Some (FAILURE, iter)
          else Some (SUCCESS, Some (it\<lparr>it_elem := elem\<rparr>))
        })"

definition iterator_edit ::
  "iterator option \<Rightarrow> u32 \<Rightarrow> list_desc \<Rightarrow> (int \<times> list_desc) option" where
  "iterator_edit iter new_data s =
     (case iter of
        None \<Rightarrow> Some (FAILURE, s)
      | Some it \<Rightarrow> do {
          a \<leftarrow> it_elem it;
          m \<leftarrow> store a (\<lambda>e. e\<lparr>e_data := new_data\<rparr>) (l_mem s);
          Some (SUCCESS, s\<lparr>l_mem := m\<rparr>)
        })"

definition iterator_get ::
  "iterator option \<Rightarrow> bool \<Rightarrow> list_desc \<Rightarrow>
   (int \<times> u32 option \<times> iterator option \<times> list_desc) option" where
  "iterator_get iter data s =
     (case iter of
        None \<Rightarrow> Some (FAILURE, None, iter, s)
      | Some it \<Rightarrow> (case it_elem it of
          None \<Rightarrow> Some (FAILURE, None, iter, s)
        | Some a \<Rightarrow>
            if \<not> data then Some (FAILURE, None, iter, s)
            else do {
              elem \<leftarrow> load a (l_mem s);
              m \<leftarrow> update_links (e_prev elem) None (e_next elem) (l_mem s);
              let s = s\<lparr>l_mem := m\<rparr>;
              elem \<leftarrow> load a (l_mem s);
              let s = (if Some a = l_first s then update_desc (e_next elem) (l_last s) s
                       else if Some a = l_last s then update_desc (l_first s) (e_prev elem) s
                       else s);
              let s = s\<lparr>nb_elements := nb_elements s - 1\<rparr>;
              let n = (if Some a = l_last s then e_prev elem else e_next elem);
              m \<leftarrow> cfree a (l_mem s);
              Some (SUCCESS, Some (e_data elem), Some (it\<lparr>it_elem := n\<rparr>), s\<lparr>l_mem := m\<rparr>)
            }))"

definition iterator_read ::
  "iterator option \<Rightarrow> bool \<Rightarrow> list_desc \<Rightarrow> (int \<times> u32 option) option" where
  "iterator_read iter data s =
     (case iter of
        None \<Rightarrow> Some (FAILURE, None)
      | Some it \<Rightarrow> (case it_elem it of
          None \<Rightarrow> Some (FAILURE, None)
        | Some a \<Rightarrow>
            if \<not> data then Some (FAILURE, None)
            else do {e \<leftarrow> load a (l_mem s); Some (SUCCESS, Some (e_data e))}))"

definition iterator_insert ::
  "iterator option \<Rightarrow> u32 \<Rightarrow> bool \<Rightarrow> list_desc \<Rightarrow> (int \<times> list_desc) option" where
  "iterator_insert iter data after s =
     (case iter of
        None \<Rightarrow> Some (FAILURE, s)
      | Some it \<Rightarrow>
          if after \<and> it_elem it = l_last s then list_add_last True data s
          else if \<not> after \<and> it_elem it = l_first s then list_add_first True data s
          else do {
            a \<leftarrow> it_elem it;
            e \<leftarrow> load a (l_mem s);
            let (p, n) = (if after then (Some a, e_next e) else (e_prev e, Some a));
            case create_element data p n (l_mem s) of
              (None, m) \<Rightarrow> Some (FAILURE, s\<lparr>l_mem := m\<rparr>)
            | (Some elem, m) \<Rightarrow> do {
                m \<leftarrow> update_links p (Some elem) n m;
                Some (SUCCESS, s\<lparr>l_mem := m, nb_elements := nb_elements s + 1\<rparr>)
              }
          })"

section \<open>Operations at an index and by value\<close>

text \<open>
  These work through the internal iterator: \<open>rewind\<close> is list->l_it.elem = list->first.
  A uint32_t index becomes the int32_t argument of iterator_move.
\<close>

definition rewind :: "list_desc \<Rightarrow> list_desc" where
  "rewind s = s\<lparr>l_it := \<lparr>it_elem = l_first s\<rparr>\<rparr>"

definition l_it_move :: "u32 \<Rightarrow> list_desc \<Rightarrow> (int \<times> list_desc) option" where
  "l_it_move i s = do {
     (ret, it) \<leftarrow> iterator_move (Some (l_it s)) (sint i) s;
     Some (ret, s\<lparr>l_it := the it\<rparr>)
   }"

definition l_it_find :: "u32 \<Rightarrow> list_desc \<Rightarrow> (int \<times> list_desc) option" where
  "l_it_find cmp_data s = do {
     (ret, it) \<leftarrow> iterator_find (Some (l_it s)) cmp_data s;
     Some (ret, s\<lparr>l_it := the it\<rparr>)
   }"

definition l_it_get :: "bool \<Rightarrow> list_desc \<Rightarrow> (int \<times> u32 option \<times> list_desc) option" where
  "l_it_get data s = do {
     (ret, d, it, s) \<leftarrow> iterator_get (Some (l_it s)) data s;
     Some (ret, d, s\<lparr>l_it := the it\<rparr>)
   }"

definition list_add_idx :: "bool \<Rightarrow> u32 \<Rightarrow> u32 \<Rightarrow> list_desc \<Rightarrow> (int \<times> list_desc) option" where
  "list_add_idx list_desc data i s =
     (if \<not> list_desc then Some (FAILURE, s)
      else if nb_elements s = 0 \<or> i = 0 then list_add_first list_desc data s
      else if nb_elements s = i then list_add_last list_desc data s
      else do {
        (ret, s) \<leftarrow> l_it_move i (rewind s);
        if ret \<noteq> SUCCESS then Some (FAILURE, s)
        else iterator_insert (Some (l_it s)) data False s
      })"

definition list_add_find :: "bool \<Rightarrow> u32 \<Rightarrow> list_desc \<Rightarrow> (int \<times> list_desc) option" where
  "list_add_find list_desc data s =
     (if \<not> list_desc then Some (FAILURE, s)
      else do {
        elem \<leftarrow> search_loop (\<lambda>d. 0 < comparator s d data) (l_mem s) (l_first s);
        if elem = None then
          let s = s\<lparr>l_it := \<lparr>it_elem = l_last s\<rparr>\<rparr>
          in iterator_insert (Some (l_it s)) data True s
        else
          let s = s\<lparr>l_it := \<lparr>it_elem = elem\<rparr>\<rparr>
          in iterator_insert (Some (l_it s)) data False s
      })"

definition list_edit_idx :: "bool \<Rightarrow> u32 \<Rightarrow> u32 \<Rightarrow> list_desc \<Rightarrow> (int \<times> list_desc) option" where
  "list_edit_idx list_desc new_data i s =
     (if \<not> list_desc then Some (FAILURE, s)
      else do {
        (ret, s) \<leftarrow> l_it_move i (rewind s);
        if ret \<noteq> SUCCESS then Some (FAILURE, s)
        else iterator_edit (Some (l_it s)) new_data s
      })"

definition list_edit_find :: "bool \<Rightarrow> u32 \<Rightarrow> u32 \<Rightarrow> list_desc \<Rightarrow> (int \<times> list_desc) option" where
  "list_edit_find list_desc new_data cmp_data s =
     (if \<not> list_desc then Some (FAILURE, s)
      else do {
        (ret, s) \<leftarrow> l_it_find cmp_data (rewind s);
        if ret \<noteq> SUCCESS then Some (FAILURE, s)
        else iterator_edit (Some (l_it s)) new_data s
      })"

definition list_read_idx ::
  "bool \<Rightarrow> bool \<Rightarrow> u32 \<Rightarrow> list_desc \<Rightarrow> (int \<times> u32 option \<times> list_desc) option" where
  "list_read_idx list_desc data i s =
     (if \<not> list_desc \<or> \<not> data then Some (FAILURE, None, s)
      else if i \<ge> nb_elements s then Some (FAILURE, Some 0, s)
      else do {
        (ret, s) \<leftarrow> l_it_move i (rewind s);
        if ret \<noteq> SUCCESS then Some (FAILURE, Some 0, s)
        else do {
          (ret, d) \<leftarrow> iterator_read (Some (l_it s)) data s;
          Some (ret, if d = None then Some 0 else d, s)
        }
      })"

definition list_read_find ::
  "bool \<Rightarrow> bool \<Rightarrow> u32 \<Rightarrow> list_desc \<Rightarrow> (int \<times> u32 option \<times> list_desc) option" where
  "list_read_find list_desc data cmp_data s =
     (if \<not> list_desc \<or> \<not> data then Some (FAILURE, None, s)
      else do {
        (ret, s) \<leftarrow> l_it_find cmp_data (rewind s);
        if ret \<noteq> SUCCESS then Some (FAILURE, Some 0, s)
        else do {
          (ret, d) \<leftarrow> iterator_read (Some (l_it s)) data s;
          Some (ret, if d = None then Some 0 else d, s)
        }
      })"

definition list_get_idx ::
  "bool \<Rightarrow> bool \<Rightarrow> u32 \<Rightarrow> list_desc \<Rightarrow> (int \<times> u32 option \<times> list_desc) option" where
  "list_get_idx list_desc data i s =
     (if \<not> list_desc \<or> \<not> data then Some (FAILURE, None, s)
      else do {
        (ret, s) \<leftarrow> l_it_move i (rewind s);
        if ret \<noteq> SUCCESS then Some (FAILURE, Some 0, s)
        else do {
          (ret, d, s) \<leftarrow> l_it_get data s;
          Some (ret, if d = None then Some 0 else d, s)
        }
      })"

definition list_get_find ::
  "bool \<Rightarrow> bool \<Rightarrow> u32 \<Rightarrow> list_desc \<Rightarrow> (int \<times> u32 option \<times> list_desc) option" where
  "list_get_find list_desc data cmp_data s =
     (if \<not> list_desc \<or> \<not> data then Some (FAILURE, None, s)
      else do {
        (ret, s) \<leftarrow> l_it_find cmp_data (rewind s);
        if ret \<noteq> SUCCESS then Some (FAILURE, Some 0, s)
        else do {
          (ret, d, s) \<leftarrow> l_it_get data s;
          Some (ret, if d = None then Some 0 else d, s)
        }
      })"

section \<open>Descriptor and adapters\<close>

record adapter =
  ad_push :: "bool \<Rightarrow> u32 \<Rightarrow> list_desc \<Rightarrow> (int \<times> list_desc) option"
  ad_pop :: "bool \<Rightarrow> bool \<Rightarrow> list_desc \<Rightarrow> (int \<times> u32 option \<times> list_desc) option"
  ad_top_next :: "bool \<Rightarrow> bool \<Rightarrow> list_desc \<Rightarrow> (int \<times> u32 option \<times> list_desc) option"
  ad_back :: "bool \<Rightarrow> bool \<Rightarrow> list_desc \<Rightarrow> (int \<times> u32 option \<times> list_desc) option"
  ad_swap :: "bool \<Rightarrow> u32 \<Rightarrow> list_desc \<Rightarrow> (int \<times> list_desc) option"

fun set_adapter :: "adapter_type \<Rightarrow> adapter" where
  "set_adapter LIST_PRIORITY_LIST =
     \<lparr>ad_push = list_add_find, ad_pop = list_get_first, ad_top_next = list_read_first,
      ad_back = list_read_last, ad_swap = list_edit_first\<rparr>"
| "set_adapter LIST_QUEUE =
     \<lparr>ad_push = list_add_last, ad_pop = list_get_first, ad_top_next = list_read_first,
      ad_back = list_read_last, ad_swap = list_edit_first\<rparr>"
| "set_adapter _ =
     \<lparr>ad_push = list_add_last, ad_pop = list_get_last, ad_top_next = list_read_last,
      ad_back = list_read_first, ad_swap = list_edit_last\<rparr>"

text \<open>
  \<open>alloc1\<close> and \<open>alloc2\<close> say whether the callocs of the two descriptors succeed; \<open>m\<close> is
  the heap the elements will come from.
\<close>

definition list_init ::
  "bool \<Rightarrow> adapter_type \<Rightarrow> (u32 \<Rightarrow> u32 \<Rightarrow> int) option \<Rightarrow> bool \<Rightarrow> bool \<Rightarrow> list_elem heap \<Rightarrow>
   int \<times> (adapter \<times> list_desc) option" where
  "list_init list_desc type cmp alloc1 alloc2 m =
     (if \<not> list_desc \<or> \<not> alloc1 \<or> \<not> alloc2 then (FAILURE, None)
      else (SUCCESS, Some (set_adapter type,
        \<lparr>l_first = None, l_last = None, nb_elements = 0,
         comparator = (case cmp of None \<Rightarrow> default_comparator | Some c \<Rightarrow> c),
         nb_iterators = 0, l_it = \<lparr>it_elem = None\<rparr>, l_mem = m\<rparr>)))"

text \<open>The loop of list_remove, which discards elements until list_get_first fails.\<close>

partial_function (option) remove_loop :: "list_desc \<Rightarrow> list_desc option" where
  "remove_loop s = do {
     (ret, d, s) \<leftarrow> list_get_first True True s;
     if ret = SUCCESS then remove_loop s else Some s
   }"

text \<open>On SUCCESS the two descriptors are gone and what is left is the heap of the elements.\<close>

definition list_remove :: "bool \<Rightarrow> list_desc \<Rightarrow> (int \<times> (list_elem heap + list_desc)) option" where
  "list_remove list_desc s =
     (if \<not> list_desc \<or> nb_iterators s \<noteq> 0 then Some (FAILURE, Inr s)
      else do {s \<leftarrow> remove_loop s; Some (SUCCESS, Inl (l_mem s))})"

section \<open>Representation\<close>

text \<open>
  \<open>dll c p zs n\<close>: the cells of \<open>c\<close> hold the elements \<open>zs\<close> (address and data) linked in
  both directions, between a predecessor \<open>p\<close> and a successor \<open>n\<close>.
\<close>

definition hd_addr :: "(nat \<times> u32) list \<Rightarrow> nat option \<Rightarrow> nat option" where
  "hd_addr zs n = (case zs of [] \<Rightarrow> n | (a, _) # _ \<Rightarrow> Some a)"

definition last_addr :: "nat option \<Rightarrow> (nat \<times> u32) list \<Rightarrow> nat option" where
  "last_addr p zs = (if zs = [] then p else Some (fst (last zs)))"

fun dll :: "(nat \<rightharpoonup> list_elem) \<Rightarrow> nat option \<Rightarrow> (nat \<times> u32) list \<Rightarrow> nat option \<Rightarrow> bool" where
  "dll c p [] n = True"
| "dll c p ((a, d) # zs) n =
     (c a = Some \<lparr>e_data = d, e_prev = p, e_next = hd_addr zs n\<rparr> \<and> dll c (Some a) zs n)"

definition list_rep :: "list_desc \<Rightarrow> (nat \<times> u32) list \<Rightarrow> bool" where
  "list_rep s zs \<longleftrightarrow>
     dll (cells (l_mem s)) None zs None \<and> distinct (map fst zs) \<and>
     l_first s = hd_addr zs None \<and> l_last s = last_addr None zs \<and>
     unat (nb_elements s) = length zs \<and> heap_wf (l_mem s)"

text \<open>The next calloc on the heap of the list will succeed.\<close>

definition mem_ok :: "list_desc \<Rightarrow> bool" where
  "mem_ok s \<longleftrightarrow> \<not> oom (l_mem s) (brk (l_mem s))"

lemma hd_addr_simps [simp]:
  "hd_addr [] n = n" "hd_addr (z # zs) n = Some (fst z)"
  "hd_addr (us @ vs) n = hd_addr us (hd_addr vs n)"
  by (auto simp: hd_addr_def split: list.splits prod.splits)

lemma last_addr_simps [simp]:
  "last_addr p [] = p" "last_addr p (zs @ [z]) = Some (fst z)"
  "last_addr p (z # zs) = last_addr (Some (fst z)) zs"
  "last_addr p (us @ vs) = last_addr (last_addr p us) vs"
  by (auto simp: last_addr_def)

lemma hd_addr_None [simp]: "(hd_addr zs None = None) = (zs = [])"
  by (cases zs) auto

lemma last_addr_None [simp]: "(last_addr None zs = None) = (zs = [])"
  by (auto simp: last_addr_def)

lemma last_addr_Some [simp]: "last_addr (Some a) zs \<noteq> None"
  by (auto simp: last_addr_def)

lemma hd_addr_in: "hd_addr zs None = Some a \<Longrightarrow> a \<in> fst ` set zs"
  by (cases zs) auto

lemma last_addr_in: "last_addr None zs = Some a \<Longrightarrow> a \<in> fst ` set zs"
  by (auto simp: last_addr_def split: if_splits)

lemma dll_append [simp]:
  "dll c p (us @ vs) n = (dll c p us (hd_addr vs n) \<and> dll c (last_addr p us) vs n)"
proof (induction us arbitrary: p)
  case (Cons z us)
  then show ?case by (cases z) simp
qed simp

lemma dll_frame: "a \<notin> fst ` set zs \<Longrightarrow> dll (c(a := x)) p zs n = dll c p zs n"
proof (induction zs arbitrary: p)
  case (Cons z zs)
  then show ?case by (cases z) simp
qed simp

lemma dll_dom: "dll c p zs n \<Longrightarrow> a \<in> fst ` set zs \<Longrightarrow> a \<in> dom c"
proof (induction zs arbitrary: p)
  case (Cons z zs)
  then show ?case by (cases z) auto
qed simp

lemma dll_Cons: "dll c p (z # zs) n = (c (fst z) =
    Some \<lparr>e_data = snd z, e_prev = p, e_next = hd_addr zs n\<rparr> \<and> dll c (Some (fst z)) zs n)"
  by (cases z) auto

text \<open>Changing the outer links of a segment: what update_links does to its two sides.\<close>

lemma dll_relink_last:
  assumes "dll c p us n" "distinct (map fst us)" "last_addr None us = Some a"
  shows "\<exists>e. c a = Some e \<and> dll (c(a \<mapsto> e\<lparr>e_next := n'\<rparr>)) p us n'"
proof -
  obtain ws z where us: "us = ws @ [z]" using assms(3) by (cases us rule: rev_cases) auto
  with assms show ?thesis by (auto simp: dll_frame dll_Cons)
qed

lemma dll_relink_first:
  assumes "dll c p vs n" "distinct (map fst vs)" "hd_addr vs None = Some a"
  shows "\<exists>e. c a = Some e \<and> dll (c(a \<mapsto> e\<lparr>e_prev := p'\<rparr>)) p' vs n"
  using assms by (cases vs) (auto simp: dll_frame dll_Cons)

lemma dll_cong: "(\<And>b. b \<in> fst ` set zs \<Longrightarrow> c b = c' b) \<Longrightarrow> dll c p zs n = dll c' p zs n"
proof (induction zs arbitrary: p)
  case (Cons z zs)
  then show ?case by (cases z) auto
qed simp

definition same_alloc :: "list_elem heap \<Rightarrow> list_elem heap \<Rightarrow> bool" where
  "same_alloc m m' \<longleftrightarrow> brk m' = brk m \<and> oom m' = oom m \<and> dom (cells m') = dom (cells m)"

lemma same_alloc_refl [simp]: "same_alloc m m"
  by (simp add: same_alloc_def)

lemma same_alloc_trans: "same_alloc m m' \<Longrightarrow> same_alloc m' m'' \<Longrightarrow> same_alloc m m''"
  by (simp add: same_alloc_def)

lemma same_alloc_wf: "same_alloc m m' \<Longrightarrow> heap_wf m \<Longrightarrow> heap_wf m'"
  by (simp add: same_alloc_def heap_wf_def)

lemma store_Some:
  "cells m a = Some e \<Longrightarrow> store a f m = Some (m\<lparr>cells := (cells m)(a \<mapsto> f e)\<rparr>)"
  by (simp add: store_def)

lemma store_same: "store a f m = Some m' \<Longrightarrow> same_alloc m m'"
  by (auto simp: store_def same_alloc_def split: option.splits if_splits)

lemma link_next:
  assumes "dll (cells m) p us n" "distinct (map fst us)"
  shows "\<exists>m'. (case last_addr None us of None \<Rightarrow> Some m
      | Some a \<Rightarrow> store a (\<lambda>e. e\<lparr>e_next := n'\<rparr>) m) = Some m' \<and>
    dll (cells m') p us n' \<and> same_alloc m m' \<and>
    (\<forall>b. b \<notin> fst ` set us \<longrightarrow> cells m' b = cells m b)"
proof (cases "last_addr None us")
  case (Some a)
  from dll_relink_last [OF assms Some, of n'] obtain e
    where e: "cells m a = Some e" "dll ((cells m)(a \<mapsto> e\<lparr>e_next := n'\<rparr>)) p us n'" by blast
  moreover have "a \<in> fst ` set us" using Some by (rule last_addr_in)
  ultimately show ?thesis
    using Some store_same [OF store_Some [OF e(1)]] by (auto simp: store_Some)
qed simp

lemma link_prev:
  assumes "dll (cells m) p vs n" "distinct (map fst vs)"
  shows "\<exists>m'. (case hd_addr vs None of None \<Rightarrow> Some m
      | Some a \<Rightarrow> store a (\<lambda>e. e\<lparr>e_prev := p'\<rparr>) m) = Some m' \<and>
    dll (cells m') p' vs n \<and> same_alloc m m' \<and>
    (\<forall>b. b \<notin> fst ` set vs \<longrightarrow> cells m' b = cells m b)"
proof (cases "hd_addr vs None")
  case (Some a)
  from dll_relink_first [OF assms Some, of p'] obtain e
    where e: "cells m a = Some e" "dll ((cells m)(a \<mapsto> e\<lparr>e_prev := p'\<rparr>)) p' vs n" by blast
  moreover have "a \<in> fst ` set vs" using Some by (rule hd_addr_in)
  ultimately show ?thesis
    using Some store_same [OF store_Some [OF e(1)]] by (auto simp: store_Some)
qed simp

text \<open>update_links with an element splices it in; without one it closes the gap.\<close>

lemma update_links_splice:
  assumes us: "dll (cells m) None us x" and vs: "dll (cells m) y vs None"
    and d: "distinct (map fst (us @ vs))"
    and a: "cells m a = Some e" "a \<notin> fst ` set (us @ vs)"
  shows "\<exists>m'. update_links (last_addr None us) (Some a) (hd_addr vs None) m = Some m' \<and>
    dll (cells m') None (us @ (a, e_data e) # vs) None \<and> same_alloc m m'"
proof -
  obtain m1 where m1: "(case last_addr None us of None \<Rightarrow> Some m
      | Some b \<Rightarrow> store b (\<lambda>e. e\<lparr>e_next := Some a\<rparr>) m) = Some m1"
    "dll (cells m1) None us (Some a)" "same_alloc m m1"
    "\<And>b. b \<notin> fst ` set us \<Longrightarrow> cells m1 b = cells m b"
    using link_next [OF us, of "Some a"] d by auto
  define e2 where "e2 = e\<lparr>e_prev := last_addr None us, e_next := hd_addr vs None\<rparr>"
  define m2 where "m2 = m1\<lparr>cells := (cells m1)(a \<mapsto> e2)\<rparr>"
  have m2: "store a (\<lambda>e. e\<lparr>e_prev := last_addr None us, e_next := hd_addr vs None\<rparr>) m1 = Some m2"
    using m1(4) [of a] a by (simp add: store_Some m2_def e2_def image_Un)
  have "dll (cells m2) y vs None"
  proof (subst dll_cong [of vs _ "cells m"])
    show "cells m2 b = cells m b" if "b \<in> fst ` set vs" for b
      using that a(2) d m1(4) [of b] by (auto simp: m2_def)
  qed (rule vs)
  then obtain m3 where m3: "(case hd_addr vs None of None \<Rightarrow> Some m2
      | Some b \<Rightarrow> store b (\<lambda>e. e\<lparr>e_prev := Some a\<rparr>) m2) = Some m3"
    "dll (cells m3) (Some a) vs None" "same_alloc m2 m3"
    "\<And>b. b \<notin> fst ` set vs \<Longrightarrow> cells m3 b = cells m2 b"
    using link_prev [of m2 y vs None "Some a"] d by auto
  have "dll (cells m3) None us (Some a)"
  proof (subst dll_cong [of us _ "cells m1"])
    show "cells m3 b = cells m1 b" if "b \<in> fst ` set us" for b
    proof -
      have "b \<notin> fst ` set vs" "b \<noteq> a" using that a(2) d by (auto simp: image_Un)
      then show ?thesis using m3(4) [of b] by (simp add: m2_def)
    qed
  qed (rule m1(2))
  moreover have "cells m3 a = Some e2" using m3(4) [of a] a(2) by (auto simp: m2_def)
  moreover have "same_alloc m m3"
    using same_alloc_trans [OF m1(3) same_alloc_trans [OF store_same [OF m2] m3(3)]] .
  moreover have "update_links (last_addr None us) (Some a) (hd_addr vs None) m = Some m3"
    using m1(1) m2 m3(1) by (simp add: update_links_def)
  ultimately show ?thesis using m3(2) by (auto simp: e2_def)
qed

lemma update_links_close:
  assumes us: "dll (cells m) None us x" and vs: "dll (cells m) y vs None"
    and d: "distinct (map fst (us @ vs))"
  shows "\<exists>m'. update_links (last_addr None us) None (hd_addr vs None) m = Some m' \<and>
    dll (cells m') None (us @ vs) None \<and> same_alloc m m' \<and>
    (\<forall>a. a \<notin> fst ` set (us @ vs) \<longrightarrow> cells m' a = cells m a)"
proof -
  obtain m1 where m1: "(case last_addr None us of None \<Rightarrow> Some m
      | Some b \<Rightarrow> store b (\<lambda>e. e\<lparr>e_next := hd_addr vs None\<rparr>) m) = Some m1"
    "dll (cells m1) None us (hd_addr vs None)" "same_alloc m m1"
    "\<And>b. b \<notin> fst ` set us \<Longrightarrow> cells m1 b = cells m b"
    using link_next [OF us, of "hd_addr vs None"] d by auto
  have "dll (cells m1) y vs None"
  proof (subst dll_cong [of vs _ "cells m"])
    show "cells m1 b = cells m b" if "b \<in> fst ` set vs" for b
      using that d m1(4) [of b] by auto
  qed (rule vs)
  then obtain m3 where m3: "(case hd_addr vs None of None \<Rightarrow> Some m1
      | Some b \<Rightarrow> store b (\<lambda>e. e\<lparr>e_prev := last_addr None us\<rparr>) m1) = Some m3"
    "dll (cells m3) (last_addr None us) vs None" "same_alloc m1 m3"
    "\<And>b. b \<notin> fst ` set vs \<Longrightarrow> cells m3 b = cells m1 b"
    using link_prev [of m1 y vs None "last_addr None us"] d by auto
  have "dll (cells m3) None us (hd_addr vs None)"
  proof (subst dll_cong [of us _ "cells m1"])
    show "cells m3 b = cells m1 b" if "b \<in> fst ` set us" for b
      using that d m3(4) [of b] by auto
  qed (rule m1(2))
  moreover have "update_links (last_addr None us) None (hd_addr vs None) m = Some m3"
    using m1(1) m3(1) by (simp add: update_links_def)
  ultimately show ?thesis using m3(2,4) m1(4) same_alloc_trans [OF m1(3) m3(3)]
    by (auto simp: image_Un)
qed

section \<open>Every operation is a list function\<close>

text \<open>What an operation leaves alone besides the elements and the internal iterator.\<close>

definition same_desc :: "list_desc \<Rightarrow> list_desc \<Rightarrow> bool" where
  "same_desc s s' \<longleftrightarrow> comparator s' = comparator s \<and> nb_iterators s' = nb_iterators s"

lemma same_desc_refl [simp]: "same_desc s s"
  by (simp add: same_desc_def)

lemma same_desc_trans: "same_desc s s' \<Longrightarrow> same_desc s' s'' \<Longrightarrow> same_desc s s''"
  by (simp add: same_desc_def)

lemma list_rep_unat: "list_rep s zs \<Longrightarrow> unat (nb_elements s) = length zs"
  by (simp add: list_rep_def)

lemma list_rep_nb_0: "list_rep s zs \<Longrightarrow> (nb_elements s = 0) = (zs = [])"
  using list_rep_unat [of s zs] by (metis length_0_conv unat_eq_zero)

text \<open>Room for one more element: memory, and a count that does not wrap.\<close>

definition can_add :: "list_desc \<Rightarrow> bool" where
  "can_add s \<longleftrightarrow> mem_ok s \<and> nb_elements s \<noteq> 0xffffffff"

lemma unat_nb_Suc: "nb \<noteq> (0xffffffff :: u32) \<Longrightarrow> unat (nb + 1) = Suc (unat nb)"
  by (rule u32_Suc_nowrap) (simp add: u32_all_ones eq_neg_iff_add_eq_0)

lemma splice_mem:
  assumes "list_rep s (us @ vs)" "mem_ok s"
  shows "\<exists>m1 m2. create_element d (last_addr None us) (hd_addr vs None) (l_mem s) =
      (Some (brk (l_mem s)), m1) \<and>
    update_links (last_addr None us) (Some (brk (l_mem s))) (hd_addr vs None) m1 = Some m2 \<and>
    dll (cells m2) None (us @ (brk (l_mem s), d) # vs) None \<and> heap_wf m2 \<and>
    brk (l_mem s) \<notin> fst ` set (us @ vs)"
proof -
  let ?m = "l_mem s" and ?zs = "us @ vs"
  let ?e = "\<lparr>e_data = d, e_prev = last_addr None us, e_next = hd_addr vs None\<rparr>"
  define m1 where "m1 = ?m\<lparr>cells := (cells ?m)(brk ?m \<mapsto> ?e), brk := Suc (brk ?m)\<rparr>"
  have rep: "dll (cells ?m) None ?zs None" "distinct (map fst ?zs)" "heap_wf ?m"
    using assms(1) by (auto simp: list_rep_def)
  have fresh: "brk ?m \<notin> fst ` set ?zs"
  proof
    assume "brk ?m \<in> fst ` set ?zs"
    then have "brk ?m \<in> dom (cells ?m)" by (rule dll_dom [OF rep(1)])
    with heap_wf_fresh [OF rep(3)] show False by auto
  qed
  then have "dll (cells m1) None us (hd_addr vs None)" "dll (cells m1) (last_addr None us) vs None"
    using rep(1) by (auto simp: m1_def dll_frame image_Un)
  moreover have "cells m1 (brk ?m) = Some ?e" by (simp add: m1_def)
  ultimately obtain m2 where
    "update_links (last_addr None us) (Some (brk ?m)) (hd_addr vs None) m1 = Some m2"
    "dll (cells m2) None (us @ (brk ?m, d) # vs) None" "same_alloc m1 m2"
    using update_links_splice [of m1 us "hd_addr vs None" "last_addr None us" vs "brk ?m" ?e]
      rep(2) fresh by auto
  moreover have "heap_wf m1" using heap_wf_alloc [OF rep(3), of ?e] by (simp add: m1_def)
  moreover have "create_element d (last_addr None us) (hd_addr vs None) ?m = (Some (brk ?m), m1)"
    using assms(2) by (simp add: create_element_def calloc_def mem_ok_def m1_def)
  ultimately show ?thesis using fresh same_alloc_wf by blast
qed

lemma close_mem:
  assumes "list_rep s (us @ (a, d) # vs)"
  shows "\<exists>m1 m2. load a (l_mem s) =
      Some \<lparr>e_data = d, e_prev = last_addr None us, e_next = hd_addr vs None\<rparr> \<and>
    update_links (last_addr None us) None (hd_addr vs None) (l_mem s) = Some m1 \<and>
    load a m1 = Some \<lparr>e_data = d, e_prev = last_addr None us, e_next = hd_addr vs None\<rparr> \<and>
    cfree a m1 = Some m2 \<and> dll (cells m2) None (us @ vs) None \<and> heap_wf m2 \<and>
    a \<notin> fst ` set (us @ vs) \<and> dom (cells m2) = dom (cells (l_mem s)) - {a}"
proof -
  let ?m = "l_mem s"
  let ?e = "\<lparr>e_data = d, e_prev = last_addr None us, e_next = hd_addr vs None\<rparr>"
  have rep: "dll (cells ?m) None us (Some a)" "cells ?m a = Some ?e"
    "dll (cells ?m) (Some a) vs None" "distinct (map fst (us @ vs))" "heap_wf ?m"
    "a \<notin> fst ` set (us @ vs)"
    using assms by (auto simp: list_rep_def image_Un)
  obtain m1 where m1: "update_links (last_addr None us) None (hd_addr vs None) ?m = Some m1"
    "dll (cells m1) None (us @ vs) None" "same_alloc ?m m1" "cells m1 a = Some ?e"
    using update_links_close [OF rep(1,3,4)] rep(2,6) by auto
  moreover have "dll ((cells m1)(a := None)) None (us @ vs) None"
    using m1(2) rep(6) by (simp add: dll_frame image_Un)
  moreover have "heap_wf m1" using m1(3) rep(5) by (rule same_alloc_wf)
  ultimately show ?thesis
    using rep(2,6) heap_wf_free [of m1 a] by (simp add: load_def cfree_def same_alloc_def)
qed

lemma list_rep_add:
  assumes "list_rep s (us @ vs)" "nb_elements s \<noteq> 0xffffffff"
    "dll (cells m) None (us @ (a, d) # vs) None" "heap_wf m" "a \<notin> fst ` set (us @ vs)"
  shows "list_rep (s\<lparr>l_mem := m, l_first := hd_addr us (Some a),
    l_last := last_addr (Some a) vs, nb_elements := nb_elements s + 1\<rparr>) (us @ (a, d) # vs)"
  using assms by (auto simp: list_rep_def unat_nb_Suc image_Un)

lemma list_rep_del:
  assumes "list_rep s (us @ (a, d) # vs)"
    "dll (cells m) None (us @ vs) None" "heap_wf m"
  shows "list_rep (s\<lparr>l_mem := m, l_first := hd_addr (us @ vs) None,
    l_last := last_addr None (us @ vs), nb_elements := nb_elements s - 1\<rparr>) (us @ vs)"
proof -
  have n: "unat (nb_elements s) = Suc (length (us @ vs))" using list_rep_unat [OF assms(1)] by simp
  then have "nb_elements s \<noteq> 0" by auto
  then have "unat (nb_elements s - 1) = length (us @ vs)" using n by (simp add: unat_minus_one)
  with assms show ?thesis by (auto simp: list_rep_def)
qed

subsection \<open>Insertion and removal\<close>

lemma list_add_first_rep:
  assumes "list_rep s zs" "can_add s"
  shows "\<exists>s'. list_add_first True d s = Some (SUCCESS, s') \<and>
    list_rep s' ((brk (l_mem s), d) # zs) \<and> same_desc s s' \<and> l_it s' = l_it s"
proof -
  let ?a = "brk (l_mem s)"
  obtain m1 m2 where m: "create_element d None (hd_addr zs None) (l_mem s) = (Some ?a, m1)"
    "update_links None (Some ?a) (hd_addr zs None) m1 = Some m2"
    "dll (cells m2) None ((?a, d) # zs) None" "heap_wf m2" "?a \<notin> fst ` set zs"
    using splice_mem [of s "[]" zs d] assms by (auto simp: can_add_def)
  let ?s' = "s\<lparr>l_mem := m2, l_first := Some ?a, l_last := last_addr (Some ?a) zs,
    nb_elements := nb_elements s + 1\<rparr>"
  have "list_rep ?s' ((?a, d) # zs)"
    using list_rep_add [of s "[]" zs m2 ?a d] assms m by (auto simp: can_add_def)
  moreover have "l_first s \<noteq> Some ?a"
    using m(5) assms(1) hd_addr_in [of zs ?a] by (auto simp: list_rep_def)
  then have "list_add_first True d s = Some (SUCCESS, ?s')"
    using assms(1) m by (auto simp: list_add_first_def list_rep_def update_desc_def last_addr_def)
  ultimately show ?thesis by (auto simp: same_desc_def)
qed

lemma list_add_last_rep:
  assumes "list_rep s zs" "can_add s"
  shows "\<exists>s'. list_add_last True d s = Some (SUCCESS, s') \<and>
    list_rep s' (zs @ [(brk (l_mem s), d)]) \<and> same_desc s s' \<and> l_it s' = l_it s"
proof -
  let ?a = "brk (l_mem s)"
  obtain m1 m2 where m: "create_element d (last_addr None zs) None (l_mem s) = (Some ?a, m1)"
    "update_links (last_addr None zs) (Some ?a) None m1 = Some m2"
    "dll (cells m2) None (zs @ [(?a, d)]) None" "heap_wf m2" "?a \<notin> fst ` set zs"
    using splice_mem [of s zs "[]" d] assms by (auto simp: can_add_def)
  let ?s' = "s\<lparr>l_mem := m2, l_first := hd_addr zs (Some ?a), l_last := Some ?a,
    nb_elements := nb_elements s + 1\<rparr>"
  have "list_rep ?s' (zs @ [(?a, d)])"
    using list_rep_add [of s zs "[]" m2 ?a d] assms m by (auto simp: can_add_def)
  moreover have "list_add_last True d s = Some (SUCCESS, ?s')"
    using assms(1) m by (cases zs) (auto simp: list_add_last_def list_rep_def update_desc_def)
  ultimately show ?thesis by (auto simp: same_desc_def)
qed

text \<open>iterator_insert at the element between \<open>us\<close> and \<open>vs\<close>.\<close>

lemma iterator_insert_before:
  assumes "list_rep s (us @ vs)" "vs \<noteq> []" "can_add s" "it_elem it = hd_addr vs None"
  shows "\<exists>s'. iterator_insert (Some it) d False s = Some (SUCCESS, s') \<and>
    list_rep s' (us @ (brk (l_mem s), d) # vs) \<and> same_desc s s'"
proof (cases us rule: rev_cases)
  case Nil
  then show ?thesis
    using assms list_add_first_rep [of s vs d] by (auto simp: iterator_insert_def list_rep_def)
next
  case (snoc us0 u)
  let ?a = "brk (l_mem s)"
  obtain b e vs0 where vs: "vs = (b, e) # vs0" using assms(2) by (cases vs) auto
  obtain m1 m2 where m: "create_element d (last_addr None us) (Some b) (l_mem s) = (Some ?a, m1)"
    "update_links (last_addr None us) (Some ?a) (Some b) m1 = Some m2"
    "dll (cells m2) None (us @ (?a, d) # vs) None" "heap_wf m2" "?a \<notin> fst ` set (us @ vs)"
    using splice_mem [of s us vs d] assms by (auto simp: can_add_def vs)
  let ?s' = "s\<lparr>l_mem := m2, l_first := hd_addr us (Some ?a), l_last := last_addr (Some ?a) vs,
    nb_elements := nb_elements s + 1\<rparr>"
  have rep: "list_rep ?s' (us @ (?a, d) # vs)"
    using list_rep_add [of s us vs m2 ?a d] assms m by (auto simp: can_add_def)
  have "hd_addr us (Some ?a) = l_first s" "last_addr (Some ?a) vs = l_last s"
    using assms(1) snoc vs by (cases us; auto simp: list_rep_def)+
  with rep have "list_rep (s\<lparr>l_mem := m2, nb_elements := nb_elements s + 1\<rparr>) (us @ (?a, d) # vs)"
    by (auto simp: list_rep_def)
  moreover have "l_first s \<noteq> Some b" using assms(1) snoc vs by (cases us0) (auto simp: list_rep_def)
  moreover have "load b (l_mem s) =
      Some \<lparr>e_data = e, e_prev = last_addr None us, e_next = hd_addr vs0 None\<rparr>"
    using assms(1) by (simp add: vs list_rep_def load_def)
  ultimately show ?thesis
    using m(1,2) assms(4) by (auto simp: iterator_insert_def vs same_desc_def)
qed

lemma iterator_insert_at_end:
  assumes "list_rep s zs" "can_add s" "it_elem it = l_last s"
  shows "\<exists>s'. iterator_insert (Some it) d True s = Some (SUCCESS, s') \<and>
    list_rep s' (zs @ [(brk (l_mem s), d)]) \<and> same_desc s s'"
  using list_add_last_rep [OF assms(1,2), of d] assms(3) by (auto simp: iterator_insert_def)

lemma list_get_first_rep:
  assumes "list_rep s ((a, d) # zs)"
  shows "\<exists>s'. list_get_first True True s = Some (SUCCESS, Some d, s') \<and>
    list_rep s' zs \<and> same_desc s s' \<and> l_it s' = l_it s \<and>
    dom (cells (l_mem s')) = dom (cells (l_mem s)) - {a}"
proof -
  obtain m1 m2 where m: "load a (l_mem s) =
      Some \<lparr>e_data = d, e_prev = None, e_next = hd_addr zs None\<rparr>"
    "update_links None None (hd_addr zs None) (l_mem s) = Some m1"
    "load a m1 = Some \<lparr>e_data = d, e_prev = None, e_next = hd_addr zs None\<rparr>"
    "cfree a m1 = Some m2" "dll (cells m2) None zs None" "heap_wf m2" "a \<notin> fst ` set zs"
    "dom (cells m2) = dom (cells (l_mem s)) - {a}"
    using close_mem [of s "[]" a d zs] assms by auto
  let ?s' = "s\<lparr>l_mem := m2, l_first := hd_addr zs None, l_last := last_addr None zs,
    nb_elements := nb_elements s - 1\<rparr>"
  have "list_rep ?s' zs" using list_rep_del [of s "[]" a d zs m2] assms m by simp
  moreover have "hd_addr zs None \<noteq> Some a" using m(7) hd_addr_in by blast
  then have "list_get_first True True s = Some (SUCCESS, Some d, ?s')"
    using assms m list_rep_nb_0 [OF assms]
    by (auto simp: list_get_first_def list_rep_def update_desc_def last_addr_def Let_def)
  ultimately show ?thesis using m(8) by (auto simp: same_desc_def)
qed

lemma list_get_last_rep:
  assumes "list_rep s (zs @ [(a, d)])"
  shows "\<exists>s'. list_get_last True True s = Some (SUCCESS, Some d, s') \<and>
    list_rep s' zs \<and> same_desc s s' \<and> l_it s' = l_it s"
proof -
  obtain m1 m2 where m: "load a (l_mem s) =
      Some \<lparr>e_data = d, e_prev = last_addr None zs, e_next = None\<rparr>"
    "update_links (last_addr None zs) None None (l_mem s) = Some m1"
    "load a m1 = Some \<lparr>e_data = d, e_prev = last_addr None zs, e_next = None\<rparr>"
    "cfree a m1 = Some m2" "dll (cells m2) None zs None" "heap_wf m2" "a \<notin> fst ` set zs"
    using close_mem [of s zs a d "[]"] assms by auto
  let ?s' = "s\<lparr>l_mem := m2, l_first := hd_addr zs None, l_last := last_addr None zs,
    nb_elements := nb_elements s - 1\<rparr>"
  have "list_rep ?s' zs" using list_rep_del [of s zs a d "[]" m2] assms m by simp
  moreover have "list_get_last True True s = Some (SUCCESS, Some d, ?s')"
    using assms m list_rep_nb_0 [OF assms]
    by (cases zs) (auto simp: list_get_last_def list_rep_def update_desc_def Let_def)
  ultimately show ?thesis by (auto simp: same_desc_def)
qed

text \<open>iterator_get removes the element and leaves the iterator on the one after it.\<close>

lemma iterator_get_rep:
  assumes "list_rep s (us @ (a, d) # vs)" "it_elem it = Some a"
  shows "\<exists>s'. iterator_get (Some it) True s =
      Some (SUCCESS, Some d, Some (it\<lparr>it_elem := hd_addr vs None\<rparr>), s') \<and>
    list_rep s' (us @ vs) \<and> same_desc s s' \<and> l_it s' = l_it s"
proof -
  obtain m1 m2 where m: "load a (l_mem s) =
      Some \<lparr>e_data = d, e_prev = last_addr None us, e_next = hd_addr vs None\<rparr>"
    "update_links (last_addr None us) None (hd_addr vs None) (l_mem s) = Some m1"
    "load a m1 = Some \<lparr>e_data = d, e_prev = last_addr None us, e_next = hd_addr vs None\<rparr>"
    "cfree a m1 = Some m2" "dll (cells m2) None (us @ vs) None" "heap_wf m2"
    "a \<notin> fst ` set (us @ vs)"
    using close_mem [of s us a d vs] assms(1) by blast
  let ?s' = "s\<lparr>l_mem := m2, l_first := hd_addr (us @ vs) None, l_last := last_addr None (us @ vs),
    nb_elements := nb_elements s - 1\<rparr>"
  have rep: "list_rep ?s' (us @ vs)" using list_rep_del [of s us a d vs m2] assms(1) m by blast
  have ends: "l_first s = hd_addr us (Some a)" "l_last s = last_addr (Some a) vs"
    using assms(1) by (auto simp: list_rep_def)
  have na: "hd_addr vs None \<noteq> Some a" "last_addr None us \<noteq> Some a"
    "us \<noteq> [] \<Longrightarrow> hd_addr us (Some a) \<noteq> Some a" "vs \<noteq> [] \<Longrightarrow> last_addr (Some a) vs \<noteq> Some a"
    using m(7) hd_addr_in [of vs a] last_addr_in [of us a]
    by (auto simp: image_Un last_addr_def hd_addr_def split: list.splits if_splits)
  have "iterator_get (Some it) True s =
      Some (SUCCESS, Some d, Some (it\<lparr>it_elem := hd_addr vs None\<rparr>), ?s')"
  proof (cases "us = []")
    case True
    then show ?thesis using m na ends assms(2)
      by (cases "vs = []") (auto simp: iterator_get_def update_desc_def Let_def last_addr_def)
  next
    case False
    then have "Some a \<noteq> l_first s" using na(3) ends(1) by simp
    then show ?thesis using m na ends assms(2) False
      by (cases "vs = []"; cases us) (auto simp: iterator_get_def update_desc_def Let_def last_addr_def)
  qed
  with rep show ?thesis by (auto simp: same_desc_def)
qed

lemma list_get_first_empty: "list_rep s [] \<Longrightarrow> list_get_first True True s = Some (FAILURE, Some 0, s)"
  using list_rep_nb_0 [of s "[]"] by (simp add: list_get_first_def)

lemma list_get_last_empty: "list_rep s [] \<Longrightarrow> list_get_last True True s = Some (FAILURE, Some 0, s)"
  using list_rep_nb_0 [of s "[]"] by (simp add: list_get_last_def)

subsection \<open>Searching, reading, editing\<close>

lemma list_rep_l_it [simp]: "list_rep (s\<lparr>l_it := it\<rparr>) zs = list_rep s zs"
  by (simp add: list_rep_def)

lemma list_rep_rewind [simp]: "list_rep (rewind s) zs = list_rep s zs"
  by (simp add: rewind_def)

lemma same_desc_l_it [simp]:
  "same_desc s (s'\<lparr>l_it := it\<rparr>) = same_desc s s'" "same_desc (s\<lparr>l_it := it\<rparr>) s' = same_desc s s'"
  by (simp_all add: same_desc_def)

lemma can_add_l_it [simp]: "can_add (s\<lparr>l_it := it\<rparr>) = can_add s"
  by (simp add: can_add_def mem_ok_def)

lemma move_loop_None [simp]: "move_loop m dir i None = Some None"
  by (cases i) auto

lemma move_loop_forward:
  "dll (cells m) p zs None \<Longrightarrow> move_loop m 1 i (hd_addr zs None) = Some (hd_addr (drop i zs) None)"
proof (induction zs arbitrary: p i)
  case (Cons z zs)
  then show ?case by (cases i; cases z) (auto simp: load_def)
qed simp

lemma move_loop_backward:
  "dll (cells m) None us n \<Longrightarrow>
   move_loop m (-1) i (last_addr None us) = Some (last_addr None (take (length us - i) us))"
proof (induction us arbitrary: n i rule: rev_induct)
  case (snoc u us)
  then show ?case by (cases i; cases u) (auto simp: load_def)
qed simp

lemma search_loop_rep:
  "dll (cells m) p zs None \<Longrightarrow>
   search_loop P m (hd_addr zs None) = Some (hd_addr (dropWhile (\<lambda>z. \<not> P (snd z)) zs) None)"
proof (induction zs arbitrary: p)
  case Nil
  then show ?case by (simp add: search_loop.simps)
next
  case (Cons z zs)
  then show ?case by (cases z) (subst search_loop.simps, auto simp: load_def)
qed

lemma l_it_move_rep:
  assumes "list_rep s zs" "unat i < 2 ^ 31"
  shows "l_it_move i (rewind s) =
    (if unat i < length zs
     then Some (SUCCESS, s\<lparr>l_it := \<lparr>it_elem = hd_addr (drop (unat i) zs) None\<rparr>\<rparr>)
     else Some (FAILURE, rewind s))"
proof -
  have "move_loop (l_mem s) 1 (unat i) (l_first s) = Some (hd_addr (drop (unat i) zs) None)"
    using assms(1) move_loop_forward [of "l_mem s" None zs "unat i"] by (auto simp: list_rep_def)
  moreover have "sint i = int (unat i)" "sint i \<noteq> - 2147483648"
    using sint_u32_small [OF assms(2)] unsigned_greater_eq [of i, where ?'a = int] by linarith+
  ultimately show ?thesis
    by (simp add: l_it_move_def iterator_move_def rewind_def not_less del: sint_u32_small)
qed

lemma l_it_find_rep:
  assumes "list_rep s zs"
    and "ws = dropWhile (\<lambda>z. comparator s (snd z) key \<noteq> 0) zs"
  shows "l_it_find key (rewind s) =
    (if ws \<noteq> [] then Some (SUCCESS, s\<lparr>l_it := \<lparr>it_elem = hd_addr ws None\<rparr>\<rparr>)
     else Some (FAILURE, rewind s))"
proof -
  have "search_loop (\<lambda>d. 0 = comparator s d key) (l_mem s) (l_first s) = Some (hd_addr ws None)"
    using assms search_loop_rep [of "l_mem s" None zs "\<lambda>d. 0 = comparator s d key"]
    by (simp add: list_rep_def eq_sym_conv [of 0 "comparator s _ key"])
  then show ?thesis
    by (simp add: l_it_find_def iterator_find_def rewind_def)
qed

lemma store_data_rep:
  assumes "list_rep s (us @ (a, d) # vs)"
  shows "\<exists>m. store a (\<lambda>e. e\<lparr>e_data := d'\<rparr>) (l_mem s) = Some m \<and>
    list_rep (s\<lparr>l_mem := m\<rparr>) (us @ (a, d') # vs)"
proof -
  have "cells (l_mem s) a = Some \<lparr>e_data = d, e_prev = last_addr None us, e_next = hd_addr vs None\<rparr>"
    using assms by (auto simp: list_rep_def)
  then show ?thesis
    using assms heap_wf_upd by (fastforce simp: store_Some list_rep_def dll_frame image_Un)
qed

lemma iterator_edit_rep:
  assumes "list_rep s (us @ (a, d) # vs)" "it_elem it = Some a"
  shows "\<exists>s'. iterator_edit (Some it) d' s = Some (SUCCESS, s') \<and>
    list_rep s' (us @ (a, d') # vs) \<and> same_desc s s'"
  using store_data_rep [OF assms(1), of d'] assms(2)
  by (auto simp: iterator_edit_def same_desc_def)

lemma iterator_read_rep:
  assumes "list_rep s (us @ (a, d) # vs)" "it_elem it = Some a"
  shows "iterator_read (Some it) True s = Some (SUCCESS, Some d)"
  using assms by (auto simp: iterator_read_def list_rep_def load_def)

subsection \<open>By index and by value\<close>

lemma split_at: "n < length zs \<Longrightarrow> zs = take n zs @ (fst (zs ! n), snd (zs ! n)) # drop (Suc n) zs"
  by (simp add: id_take_nth_drop [symmetric])

lemma hd_addr_drop: "n < length zs \<Longrightarrow> hd_addr (drop n zs) None = Some (fst (zs ! n))"
  by (simp add: Cons_nth_drop_Suc [symmetric])

lemma list_add_idx_rep:
  assumes "list_rep s zs" "can_add s" "unat i < 2 ^ 31" "unat i \<le> length zs \<or> zs = []"
  shows "\<exists>s'. list_add_idx True d i s = Some (SUCCESS, s') \<and> same_desc s s' \<and>
    list_rep s' (take (unat i) zs @ (brk (l_mem s), d) # drop (unat i) zs)"
proof -
  have nb: "unat (nb_elements s) = length zs" "(nb_elements s = 0) = (zs = [])"
    using list_rep_unat [OF assms(1)] list_rep_nb_0 [OF assms(1)] by auto
  consider "zs = [] \<or> i = 0" | "nb_elements s = i" "zs \<noteq> []" "i \<noteq> 0"
    | "nb_elements s \<noteq> i" "zs \<noteq> []" "i \<noteq> 0" by blast
  then show ?thesis
  proof cases
    case 1
    then show ?thesis
      using list_add_first_rep [OF assms(1,2), of d] nb(2) by (auto simp: list_add_idx_def)
  next
    case 2
    then show ?thesis
      using list_add_last_rep [OF assms(1,2), of d] nb by (auto simp: list_add_idx_def)
  next
    case 3
    then have lt: "unat i < length zs" using assms(4) nb(1) by (metis le_neq_implies_less word_unat_eq_iff)
    let ?it = "\<lparr>it_elem = hd_addr (drop (unat i) zs) None\<rparr>"
    obtain s' where "iterator_insert (Some ?it) d False (s\<lparr>l_it := ?it\<rparr>) = Some (SUCCESS, s')"
      "list_rep s' (take (unat i) zs @ (brk (l_mem s), d) # drop (unat i) zs)" "same_desc s s'"
      using iterator_insert_before [of "s\<lparr>l_it := ?it\<rparr>" "take (unat i) zs" "drop (unat i) zs" ?it d]
        assms(1,2) lt by auto
    then show ?thesis
      using 3 lt nb l_it_move_rep [OF assms(1,3)] by (simp add: list_add_idx_def)
  qed
qed

lemma list_read_idx_rep:
  assumes "list_rep s zs" "unat i < 2 ^ 31"
  shows "\<exists>s'. list_read_idx True True i s =
      Some (if unat i < length zs then (SUCCESS, Some (snd (zs ! unat i)), s')
            else (FAILURE, Some 0, s')) \<and> list_rep s' zs \<and> same_desc s s'"
proof -
  have "i \<ge> nb_elements s \<longleftrightarrow> length zs \<le> unat i"
    using list_rep_unat [OF assms(1)] by (simp add: word_le_nat_alt)
  moreover have "iterator_read (Some \<lparr>it_elem = hd_addr (drop (unat i) zs) None\<rparr>) True
      (s\<lparr>l_it := it\<rparr>) = Some (SUCCESS, Some (snd (zs ! unat i)))" if lt: "unat i < length zs" for it
    using split_at [OF lt] iterator_read_rep assms(1) hd_addr_drop [OF lt]
    by (metis list_rep_l_it iterator.select_convs(1))
  ultimately show ?thesis
    using l_it_move_rep [OF assms] assms(1) by (auto simp: list_read_idx_def not_le)
qed

lemma list_edit_idx_rep:
  assumes "list_rep s zs" "unat i < 2 ^ 31"
  shows "\<exists>s'. list_edit_idx True d i s =
      Some (if unat i < length zs then SUCCESS else FAILURE, s') \<and> same_desc s s' \<and>
    list_rep s' (zs[unat i := (fst (zs ! unat i), d)])"
proof (cases "unat i < length zs")
  case True
  let ?it = "\<lparr>it_elem = hd_addr (drop (unat i) zs) None\<rparr>"
  obtain s' where "iterator_edit (Some ?it) d (s\<lparr>l_it := ?it\<rparr>) = Some (SUCCESS, s')"
    "list_rep s' (take (unat i) zs @ (fst (zs ! unat i), d) # drop (Suc (unat i)) zs)"
    "same_desc s s'"
    using iterator_edit_rep [of "s\<lparr>l_it := ?it\<rparr>" "take (unat i) zs" "fst (zs ! unat i)"
        "snd (zs ! unat i)" "drop (Suc (unat i)) zs" ?it d] split_at [OF True] assms(1)
      hd_addr_drop [OF True] by auto
  then show ?thesis
    using True l_it_move_rep [OF assms] by (simp add: list_edit_idx_def upd_conv_take_nth_drop)
next
  case False
  then show ?thesis
    using l_it_move_rep [OF assms] assms(1) by (simp add: list_edit_idx_def rewind_def list_update_beyond)
qed

lemma l_it_get_rep:
  assumes "list_rep s (us @ (a, d) # vs)" "it_elem (l_it s) = Some a"
  shows "\<exists>s'. l_it_get True s = Some (SUCCESS, Some d, s') \<and> list_rep s' (us @ vs) \<and> same_desc s s'"
  using iterator_get_rep [OF assms] by (auto simp: l_it_get_def)

lemma list_get_idx_rep:
  assumes "list_rep s zs" "unat i < 2 ^ 31"
  shows "\<exists>s'. list_get_idx True True i s =
      Some (if unat i < length zs then (SUCCESS, Some (snd (zs ! unat i)), s')
            else (FAILURE, Some 0, s')) \<and> same_desc s s' \<and>
    list_rep s' (take (unat i) zs @ drop (Suc (unat i)) zs)"
proof (cases "unat i < length zs")
  case True
  let ?it = "\<lparr>it_elem = hd_addr (drop (unat i) zs) None\<rparr>"
  obtain s' where "l_it_get True (s\<lparr>l_it := ?it\<rparr>) = Some (SUCCESS, Some (snd (zs ! unat i)), s')"
    "list_rep s' (take (unat i) zs @ drop (Suc (unat i)) zs)" "same_desc s s'"
    using l_it_get_rep [of "s\<lparr>l_it := ?it\<rparr>" "take (unat i) zs" "fst (zs ! unat i)"
        "snd (zs ! unat i)" "drop (Suc (unat i)) zs"] split_at [OF True] assms(1)
      hd_addr_drop [OF True] by auto
  then show ?thesis
    using True l_it_move_rep [OF assms] by (simp add: list_get_idx_def)
next
  case False
  then show ?thesis
    using l_it_move_rep [OF assms] assms(1) by (simp add: list_get_idx_def rewind_def)
qed

text \<open>The element a find function stops at: \<open>us\<close> does not match, \<open>(a, d)\<close> is the first that does.\<close>

lemma find_split:
  assumes "dropWhile (\<lambda>z. \<not> P (snd z)) zs \<noteq> []"
  obtains us a d vs where "zs = us @ (a, d) # vs" "P d" "\<forall>z \<in> set us. \<not> P (snd z)"
    "dropWhile (\<lambda>z. \<not> P (snd z)) zs = (a, d) # vs"
proof -
  let ?Q = "\<lambda>z. \<not> P (snd z)"
  obtain a d vs where "dropWhile ?Q zs = (a, d) # vs" using assms by (cases "dropWhile ?Q zs") auto
  moreover then have "P d" using hd_dropWhile [OF assms] by simp
  ultimately show ?thesis
    using that [of "takeWhile ?Q zs" a d vs] takeWhile_dropWhile_id [of ?Q zs] set_takeWhileD [of _ ?Q zs]
    by metis
qed

lemma find_first: "P d \<Longrightarrow> \<forall>x \<in> set xs. \<not> P x \<Longrightarrow> find P (xs @ d # ys) = Some d"
  by (induction xs) auto

lemma list_read_find_rep:
  assumes "list_rep s zs"
  shows "\<exists>s'. list_read_find True True key s =
      Some (case find (\<lambda>d. comparator s d key = 0) (map snd zs) of
              Some d \<Rightarrow> (SUCCESS, Some d, s') | None \<Rightarrow> (FAILURE, Some 0, s')) \<and>
    list_rep s' zs \<and> same_desc s s'"
proof (cases "dropWhile (\<lambda>z. comparator s (snd z) key \<noteq> 0) zs = []")
  case True
  then have "find (\<lambda>d. comparator s d key = 0) (map snd zs) = None"
    by (auto simp: find_None_iff)
  then show ?thesis
    using True l_it_find_rep [OF assms refl, of key] assms by (simp add: list_read_find_def rewind_def)
next
  case False
  then obtain us a d vs where zs: "zs = us @ (a, d) # vs" "comparator s d key = 0"
    "\<forall>z \<in> set us. comparator s (snd z) key \<noteq> 0"
    "dropWhile (\<lambda>z. comparator s (snd z) key \<noteq> 0) zs = (a, d) # vs"
    by (rule find_split [of "\<lambda>d. comparator s d key = 0"])
  have "find (\<lambda>d. comparator s d key = 0) (map snd zs) = Some d"
    using zs(2,3) by (simp add: zs(1) find_first)
  moreover have "iterator_read (Some \<lparr>it_elem = Some a\<rparr>) True (s\<lparr>l_it := it\<rparr>) = Some (SUCCESS, Some d)"
    for it using iterator_read_rep [of "s\<lparr>l_it := it\<rparr>" us a d vs] assms zs(1) by simp
  ultimately show ?thesis
    using l_it_find_rep [OF assms refl, of key] assms zs(4) by (simp add: list_read_find_def)
qed

lemma list_edit_find_rep:
  assumes "list_rep s zs"
  shows "\<exists>s'. list_edit_find True new_data key s =
      Some (if \<exists>d \<in> snd ` set zs. comparator s d key = 0 then SUCCESS else FAILURE, s') \<and>
    same_desc s s' \<and>
    (\<exists>us a d vs. zs = us @ (a, d) # vs \<and> comparator s d key = 0 \<and>
        (\<forall>z \<in> set us. comparator s (snd z) key \<noteq> 0) \<and> list_rep s' (us @ (a, new_data) # vs) \<or>
      (\<forall>d \<in> snd ` set zs. comparator s d key \<noteq> 0) \<and> list_rep s' zs)"
proof (cases "dropWhile (\<lambda>z. comparator s (snd z) key \<noteq> 0) zs = []")
  case True
  then show ?thesis
    using l_it_find_rep [OF assms refl, of key] assms by (auto simp: list_edit_find_def rewind_def)
next
  case False
  then obtain us a d vs where zs: "zs = us @ (a, d) # vs" "comparator s d key = 0"
    "\<forall>z \<in> set us. comparator s (snd z) key \<noteq> 0"
    "dropWhile (\<lambda>z. comparator s (snd z) key \<noteq> 0) zs = (a, d) # vs"
    by (rule find_split [of "\<lambda>d. comparator s d key = 0"])
  let ?it = "\<lparr>it_elem = Some a\<rparr>"
  obtain s' where "iterator_edit (Some ?it) new_data (s\<lparr>l_it := ?it\<rparr>) = Some (SUCCESS, s')"
    "list_rep s' (us @ (a, new_data) # vs)" "same_desc s s'"
    using iterator_edit_rep [of "s\<lparr>l_it := ?it\<rparr>" us a d vs ?it new_data] assms zs(1) by auto
  moreover have "\<exists>d \<in> snd ` set zs. comparator s d key = 0" using zs(1,2) by auto
  ultimately show ?thesis
    using l_it_find_rep [OF assms refl, of key] zs by (auto simp: list_edit_find_def)
qed

lemma list_get_find_rep:
  assumes "list_rep s (us @ (a, d) # vs)" "comparator s d key = 0"
    "\<forall>z \<in> set us. comparator s (snd z) key \<noteq> 0"
  shows "\<exists>s'. list_get_find True True key s = Some (SUCCESS, Some d, s') \<and>
    list_rep s' (us @ vs) \<and> same_desc s s'"
proof -
  let ?zs = "us @ (a, d) # vs" and ?it = "\<lparr>it_elem = Some a\<rparr>"
  have "dropWhile (\<lambda>z. comparator s (snd z) key \<noteq> 0) ?zs = (a, d) # vs"
    using assms(2,3) by (simp add: dropWhile_append2)
  moreover obtain s' where "l_it_get True (s\<lparr>l_it := ?it\<rparr>) = Some (SUCCESS, Some d, s')"
    "list_rep s' (us @ vs)" "same_desc s s'"
    using l_it_get_rep [of "s\<lparr>l_it := ?it\<rparr>" us a d vs] assms(1) by auto
  ultimately show ?thesis
    using l_it_find_rep [OF assms(1) refl, of key] by (simp add: list_get_find_def)
qed

lemma list_get_find_none:
  assumes "list_rep s zs" "\<forall>z \<in> set zs. comparator s (snd z) key \<noteq> 0"
  shows "\<exists>s'. list_get_find True True key s = Some (FAILURE, Some 0, s') \<and>
    list_rep s' zs \<and> same_desc s s'"
  using l_it_find_rep [OF assms(1) refl, of key] assms
  by (auto simp: list_get_find_def rewind_def)

lemma list_add_find_rep:
  assumes "list_rep s zs" "can_add s"
  shows "\<exists>s'. list_add_find True d s = Some (SUCCESS, s') \<and> same_desc s s' \<and>
    list_rep s' (takeWhile (\<lambda>z. comparator s (snd z) d \<le> 0) zs @ (brk (l_mem s), d) #
      dropWhile (\<lambda>z. comparator s (snd z) d \<le> 0) zs)"
proof -
  let ?P = "\<lambda>z. comparator s (snd z) d \<le> 0"
  have loop: "search_loop (\<lambda>x. 0 < comparator s x d) (l_mem s) (l_first s) =
      Some (hd_addr (dropWhile ?P zs) None)"
    using assms(1) search_loop_rep [of "l_mem s" None zs "\<lambda>x. 0 < comparator s x d"]
    by (simp add: list_rep_def not_less)
  show ?thesis
  proof (cases "dropWhile ?P zs = []")
    case True
    then have e: "takeWhile ?P zs = zs" using takeWhile_dropWhile_id [of ?P zs] by simp
    show ?thesis
      unfolding e True
      using loop [unfolded True] iterator_insert_at_end [of "s\<lparr>l_it := \<lparr>it_elem = l_last s\<rparr>\<rparr>" zs
          "\<lparr>it_elem = l_last s\<rparr>" d] assms by (auto simp: list_add_find_def)
  next
    case False
    let ?it = "\<lparr>it_elem = hd_addr (dropWhile ?P zs) None\<rparr>"
    show ?thesis
      using False loop iterator_insert_before [of "s\<lparr>l_it := ?it\<rparr>" "takeWhile ?P zs"
          "dropWhile ?P zs" ?it d] assms by (auto simp: list_add_find_def)
  qed
qed

lemma remove_loop_rep:
  "list_rep s zs \<Longrightarrow> \<exists>s'. remove_loop s = Some s' \<and> list_rep s' [] \<and>
     dom (cells (l_mem s')) = dom (cells (l_mem s)) - fst ` set zs"
proof (induction zs arbitrary: s)
  case Nil
  then show ?case using list_get_first_empty [OF Nil] by (subst remove_loop.simps) auto
next
  case (Cons z zs)
  obtain a d where z: "z = (a, d)" by force
  obtain s1 where s1: "list_get_first True True s = Some (SUCCESS, Some d, s1)" "list_rep s1 zs"
    "dom (cells (l_mem s1)) = dom (cells (l_mem s)) - {a}"
    using list_get_first_rep [of s a d zs] Cons.prems z by auto
  then show ?case using Cons.IH [OF s1(2)] z by (subst remove_loop.simps) auto
qed

subsection \<open>No memory\<close>

lemma list_rep_brk: "list_rep s zs \<Longrightarrow> list_rep (s\<lparr>l_mem := (l_mem s)\<lparr>brk := Suc (brk (l_mem s))\<rparr>\<rparr>) zs"
  by (auto simp: list_rep_def heap_wf_brk)

lemma create_element_oom:
  "\<not> mem_ok s \<Longrightarrow> create_element d p n (l_mem s) = (None, (l_mem s)\<lparr>brk := Suc (brk (l_mem s))\<rparr>)"
  by (simp add: create_element_def calloc_def mem_ok_def)

lemma list_add_ends_oom:
  assumes "list_rep s zs" "\<not> mem_ok s"
  shows "\<exists>s'. list_add_first True d s = Some (FAILURE, s') \<and> list_rep s' zs"
    "\<exists>s'. list_add_last True d s = Some (FAILURE, s') \<and> list_rep s' zs"
  using list_rep_brk [OF assms(1)] create_element_oom [OF assms(2)]
  by (auto simp: list_add_first_def list_add_last_def)

lemma iterator_insert_oom:
  assumes "list_rep s zs" "\<not> mem_ok s" "it_elem it = Some a" "a \<in> fst ` set zs"
  shows "\<exists>s'. iterator_insert (Some it) d after s = Some (FAILURE, s') \<and> list_rep s' zs"
proof -
  have "a \<in> dom (cells (l_mem s))" using assms(1) dll_dom [OF _ assms(4)] unfolding list_rep_def by blast
  then obtain e where "load a (l_mem s) = Some e" by (auto simp: load_def)
  then show ?thesis
    using list_add_ends_oom [OF assms(1,2)] list_rep_brk [OF assms(1)] assms(3)
    by (auto simp: iterator_insert_def create_element_oom [OF assms(2)] split: prod.splits)
qed

lemma list_add_find_oom:
  assumes "list_rep s zs" "\<not> mem_ok s"
  shows "\<exists>s'. list_add_find True d s = Some (FAILURE, s') \<and> list_rep s' zs"
proof -
  let ?ws = "dropWhile (\<lambda>z. \<not> 0 < comparator s (snd z) d) zs"
  have loop: "search_loop (\<lambda>x. 0 < comparator s x d) (l_mem s) (l_first s) = Some (hd_addr ?ws None)"
    using assms(1) search_loop_rep [of "l_mem s" None zs "\<lambda>x. 0 < comparator s x d"]
    by (simp add: list_rep_def)
  show ?thesis
  proof (cases "hd_addr ?ws None")
    case None
    then show ?thesis
      using loop list_add_ends_oom(2) [of "s\<lparr>l_it := \<lparr>it_elem = l_last s\<rparr>\<rparr>" zs d] assms
      by (auto simp: list_add_find_def iterator_insert_def mem_ok_def)
  next
    case (Some a)
    then have "a \<in> fst ` set zs" using hd_addr_in set_dropWhileD by fastforce
    then show ?thesis
      using loop Some iterator_insert_oom [of "s\<lparr>l_it := \<lparr>it_elem = Some a\<rparr>\<rparr>" zs
          "\<lparr>it_elem = Some a\<rparr>" a d False] assms
      by (auto simp: list_add_find_def mem_ok_def)
  qed
qed

subsection \<open>Ordered insertion\<close>

text \<open>
  What list_add_find needs of a comparator to keep a list ordered: on the data that is
  stored, "not greater" is total and transitive.
\<close>

locale f_cmp =
  fixes cmp :: "'a \<Rightarrow> 'a \<Rightarrow> int" and A :: "'a set"
  assumes cmp_total: "x \<in> A \<Longrightarrow> y \<in> A \<Longrightarrow> 0 < cmp x y \<Longrightarrow> cmp y x \<le> 0"
    and cmp_trans: "x \<in> A \<Longrightarrow> y \<in> A \<Longrightarrow> z \<in> A \<Longrightarrow> cmp x y \<le> 0 \<Longrightarrow> cmp y z \<le> 0 \<Longrightarrow> cmp x z \<le> 0"
begin

lemma insert_sorted_wrt:
  assumes "sorted_wrt (\<lambda>x y. cmp x y \<le> 0) xs" "set xs \<subseteq> A" "d \<in> A"
  shows "sorted_wrt (\<lambda>x y. cmp x y \<le> 0)
    (takeWhile (\<lambda>x. cmp x d \<le> 0) xs @ d # dropWhile (\<lambda>x. cmp x d \<le> 0) xs)"
  using assms
proof (induction xs)
  case (Cons x xs)
  show ?case
  proof (cases "cmp x d \<le> 0")
    case True
    have "set (takeWhile (\<lambda>x. cmp x d \<le> 0) xs @ dropWhile (\<lambda>x. cmp x d \<le> 0) xs) = set xs" by simp
    then have "\<forall>y \<in> set (takeWhile (\<lambda>x. cmp x d \<le> 0) xs @ d # dropWhile (\<lambda>x. cmp x d \<le> 0) xs). cmp x y \<le> 0"
      using Cons.prems(1) True by (auto simp del: takeWhile_dropWhile_id)
    with True Cons show ?thesis by simp
  next
    case False
    then have "cmp d x \<le> 0" using Cons.prems cmp_total by auto
    then have "\<forall>y \<in> set (x # xs). cmp d y \<le> 0" using Cons.prems cmp_trans [of d x] by auto
    with False Cons show ?thesis by simp
  qed
qed simp

end

lemma default_comparator_small:
  assumes "unat x < 2 ^ 31" "unat y < 2 ^ 31"
  shows "default_comparator x y = int (unat x) - int (unat y)"
proof -
  have "sint x = int (unat x)" "sint y = int (unat y)" using assms sint_u32_small by blast+
  moreover have "unat x < 2147483648" "unat y < 2147483648" using assms by simp_all
  then have "- 2147483648 \<le> int (unat x) - int (unat y)" "int (unat x) - int (unat y) < 2147483648"
    by linarith+
  ultimately show ?thesis
    by (simp add: default_comparator_def sint_word_ariths(2) signed_take_bit_int_eq_self_iff)
qed

text \<open>
  default_comparator subtracts 32 bit addresses and reads the difference as signed: it is an
  order on addresses below 2^31, and not on all of them.
\<close>

interpretation default_cmp: f_cmp default_comparator "{x. unat x < 2 ^ 31}"
proof (unfold_locales, unfold mem_Collect_eq)
  fix x y z :: u32
  assume b: "unat x < 2 ^ 31" "unat y < 2 ^ 31"
  show "default_comparator y x \<le> 0" if "0 < default_comparator x y"
    using that by (simp add: default_comparator_small [OF b] default_comparator_small [OF b(2,1)])
  show "default_comparator x z \<le> 0"
    if z: "unat z < 2 ^ 31" and "default_comparator x y \<le> 0" "default_comparator y z \<le> 0"
    using that(2-) by (simp add: default_comparator_small [OF b]
        default_comparator_small [OF b(1) z] default_comparator_small [OF b(2) z])
qed

section \<open>Properties\<close>

text \<open>The data a list holds, in order, whatever its addresses.\<close>

definition list_holds :: "list_desc \<Rightarrow> u32 list \<Rightarrow> bool" where
  "list_holds s xs \<longleftrightarrow> (\<exists>zs. list_rep s zs \<and> map snd zs = xs)"

text \<open>A list of two elements, at the addresses 0 and 1.\<close>

definition list_two :: list_desc where
  "list_two = \<lparr>l_first = Some 0, l_last = Some 1, nb_elements = 2, comparator = default_comparator,
     nb_iterators = 0, l_it = \<lparr>it_elem = None\<rparr>,
     l_mem = \<lparr>cells = [0 \<mapsto> \<lparr>e_data = 10, e_prev = None, e_next = Some 1\<rparr>,
                       1 \<mapsto> \<lparr>e_data = 30, e_prev = Some 0, e_next = None\<rparr>],
              brk = 2, oom = (\<lambda>n. n = 3)\<rparr>\<rparr>"

lemma list_two_rep: "list_rep list_two [(0, 10), (1, 30)]"
  by (simp add: list_rep_def list_two_def last_addr_def heap_wf_def)

lemma list_two_holds: "list_holds list_two [10, 30]"
  using list_two_rep by (force simp: list_holds_def)

lemma list_two_can_add: "can_add list_two" "comparator list_two = default_comparator"
  by (simp_all add: can_add_def mem_ok_def list_two_def)

text \<open>
  C3. list_add_idx puts the data at the index and keeps the order of the rest. On an empty
  list any index is accepted.
\<close>

theorem list_add_idx_inserts:
  assumes "list_holds s xs" "can_add s" "unat i < 2 ^ 31" "unat i \<le> length xs \<or> xs = []"
  shows "\<exists>s'. list_add_idx True d i s = Some (SUCCESS, s') \<and>
    list_holds s' (take (unat i) xs @ d # drop (unat i) xs)"
proof -
  obtain zs where zs: "list_rep s zs" "map snd zs = xs" using assms(1) by (auto simp: list_holds_def)
  then show ?thesis
    using list_add_idx_rep [OF zs(1) assms(2,3), of d] assms(4)
    by (force simp: list_holds_def take_map drop_map)
qed

theorem list_add_idx_inserts_witness:
  "\<exists>s'. list_add_idx True 20 1 list_two = Some (SUCCESS, s') \<and> list_holds s' [10, 20, 30]"
  using list_add_idx_inserts [OF list_two_holds list_two_can_add(1), of 1 20] by simp

text \<open>
  C21. list_get_idx returns the data at the index and removes exactly that element; past the
  end it fails and the list keeps its elements.
\<close>

theorem list_get_idx_removes:
  assumes "list_holds s xs" "unat i < 2 ^ 31"
  shows "\<exists>s'. list_get_idx True True i s =
      Some (if unat i < length xs then (SUCCESS, Some (xs ! unat i), s') else (FAILURE, Some 0, s')) \<and>
    list_holds s' (take (unat i) xs @ drop (Suc (unat i)) xs)"
proof -
  obtain zs where zs: "list_rep s zs" "xs = map snd zs" using assms(1) by (auto simp: list_holds_def)
  obtain s' where "list_get_idx True True i s =
      Some (if unat i < length zs then (SUCCESS, Some (snd (zs ! unat i)), s')
            else (FAILURE, Some 0, s'))"
    "list_rep s' (take (unat i) zs @ drop (Suc (unat i)) zs)"
    using list_get_idx_rep [OF zs(1) assms(2)] by blast
  then show ?thesis
    by (intro exI [of _ s']) (auto simp: zs(2) list_holds_def take_map drop_map)
qed

theorem list_get_idx_removes_witness:
  "(\<exists>s'. list_get_idx True True 0 list_two = Some (SUCCESS, Some 10, s') \<and> list_holds s' [30]) \<and>
   (\<exists>s'. list_get_idx True True 2 list_two = Some (FAILURE, Some 0, s') \<and> list_holds s' [10, 30])"
  using list_get_idx_removes [OF list_two_holds, of 0] list_get_idx_removes [OF list_two_holds, of 2]
  by simp

text \<open>
  list_read_find returns the first stored data the comparator accepts, fails when there
  is none, and does not change the list.
\<close>

theorem list_read_find_first_match:
  assumes "list_holds s xs"
  shows "\<exists>s'. list_read_find True True key s =
      Some (case find (\<lambda>d. comparator s d key = 0) xs of
              Some d \<Rightarrow> (SUCCESS, Some d, s') | None \<Rightarrow> (FAILURE, Some 0, s')) \<and>
    list_holds s' xs"
proof -
  obtain zs where zs: "list_rep s zs" "map snd zs = xs" using assms(1) by (auto simp: list_holds_def)
  then show ?thesis using list_read_find_rep [OF zs(1), of key] by (auto simp: list_holds_def)
qed

theorem list_read_find_first_match_witness:
  "\<exists>s'. list_read_find True True 30 list_two = Some (SUCCESS, Some 30, s') \<and> list_holds s' [10, 30]"
  using list_read_find_first_match [OF list_two_holds, of 30]
  by (simp add: list_two_can_add default_comparator_def)

text \<open>
  C18. The push of a priority list keeps it ordered by the comparator of the list, with the
  new data after its equals, and adds nothing else: for every comparator that is a total and
  transitive order on the data of the list and the new data. (default_comparator is one on
  addresses below 2^31, \<open>default_cmp\<close>; it is none on addresses further apart.)
\<close>

theorem list_add_find_sorted:
  assumes "list_holds s xs" "can_add s"
    and "\<forall>x \<in> set (d # xs). \<forall>y \<in> set (d # xs). 0 < comparator s x y \<longrightarrow> comparator s y x \<le> 0"
    and "\<forall>x \<in> set (d # xs). \<forall>y \<in> set (d # xs). \<forall>z \<in> set (d # xs).
      comparator s x y \<le> 0 \<longrightarrow> comparator s y z \<le> 0 \<longrightarrow> comparator s x z \<le> 0"
    and "sorted_wrt (\<lambda>x y. comparator s x y \<le> 0) xs"
  shows "\<exists>s' ys. ad_push (set_adapter LIST_PRIORITY_LIST) True d s = Some (SUCCESS, s') \<and> list_holds s' ys
    \<and> ys = takeWhile (\<lambda>x. comparator s x d \<le> 0) xs @ d # dropWhile (\<lambda>x. comparator s x d \<le> 0) xs
    \<and> sorted_wrt (\<lambda>x y. comparator s x y \<le> 0) ys \<and> mset ys = mset (d # xs)"
proof -
  obtain zs where zs: "list_rep s zs" "map snd zs = xs" using assms(1) by (auto simp: list_holds_def)
  let ?P = "\<lambda>x. comparator s x d \<le> 0"
  let ?ys = "takeWhile ?P xs @ d # dropWhile ?P xs"
  have "mset ?ys = add_mset d (mset (takeWhile ?P xs @ dropWhile ?P xs))"
    by (simp del: takeWhile_dropWhile_id)
  then have ms: "mset ?ys = mset (d # xs)" by (simp only: takeWhile_dropWhile_id mset.simps)
  have cmp: "f_cmp (comparator s) (set (d # xs))" by unfold_locales (use assms(3,4) in blast)+
  have "sorted_wrt (\<lambda>x y. comparator s x y \<le> 0) ?ys"
    by (rule f_cmp.insert_sorted_wrt [OF cmp assms(5)]) auto
  moreover have "map snd (takeWhile (\<lambda>z. ?P (snd z)) zs @ (a, d) # dropWhile (\<lambda>z. ?P (snd z)) zs) = ?ys" for a
    using zs(2) by (auto simp: takeWhile_map dropWhile_map comp_def)
  then obtain s' where "list_add_find True d s = Some (SUCCESS, s')" "list_holds s' ?ys"
    using list_add_find_rep [OF zs(1) assms(2), of d] unfolding list_holds_def by metis
  ultimately show ?thesis using ms by auto
qed

theorem list_add_find_sorted_witness:
  "\<exists>s' ys. ad_push (set_adapter LIST_PRIORITY_LIST) True 20 list_two = Some (SUCCESS, s') \<and>
    list_holds s' ys \<and> ys = [10, 20, 30]"
proof -
  have small: "x \<in> set [20, 10, 30] \<Longrightarrow> x \<in> {x :: u32. unat x < 2 ^ 31}" for x by auto
  have total: "\<forall>x \<in> set [20, 10, 30]. \<forall>y \<in> set [20, 10, 30]. 0 < default_comparator x y \<longrightarrow> default_comparator y x \<le> 0"
    by (intro ballI impI) (rule default_cmp.cmp_total [OF small small])
  have trans: "\<forall>x \<in> set [20, 10, 30]. \<forall>y \<in> set [20, 10, 30]. \<forall>z \<in> set [20, 10, 30].
      default_comparator x y \<le> 0 \<longrightarrow> default_comparator y z \<le> 0 \<longrightarrow> default_comparator x z \<le> 0"
    by (intro ballI impI) (rule default_cmp.cmp_trans [OF small small small])
  have sorted: "sorted_wrt (\<lambda>x y. default_comparator x y \<le> 0) [10, 30]" by (simp add: default_comparator_def)
  note inst = list_add_find_sorted [OF list_two_holds list_two_can_add(1), of 20, unfolded list_two_can_add(2), OF total trans sorted]
  then show ?thesis by (auto simp: default_comparator_def)
qed

text \<open>
  The adapters: after a push, a queue pops its oldest data, a stack and a default list
  pop what was pushed.
\<close>

theorem list_adapter_order:
  assumes "list_holds s xs" "can_add s"
  shows "(\<exists>s1 s2. ad_push (set_adapter LIST_QUEUE) True d s = Some (SUCCESS, s1) \<and>
      ad_pop (set_adapter LIST_QUEUE) True True s1 = Some (SUCCESS, Some (hd (xs @ [d])), s2) \<and>
      list_holds s2 (tl (xs @ [d]))) \<and>
    (\<exists>s1 s2. ad_push (set_adapter LIST_STACK) True d s = Some (SUCCESS, s1) \<and>
      ad_pop (set_adapter LIST_STACK) True True s1 = Some (SUCCESS, Some d, s2) \<and>
      list_holds s2 xs) \<and>
    set_adapter LIST_DEFAULT = set_adapter LIST_STACK"
proof -
  obtain zs where zs: "list_rep s zs" "map snd zs = xs" using assms(1) by (auto simp: list_holds_def)
  let ?ys = "zs @ [(brk (l_mem s), d)]"
  obtain s1 where s1: "list_add_last True d s = Some (SUCCESS, s1)" "list_rep s1 ?ys"
    using list_add_last_rep [OF zs(1) assms(2), of d] by blast
  obtain a e ys where ys: "?ys = (a, e) # ys" by (cases ?ys) auto
  from arg_cong [OF this, of "map snd"] have "xs @ [d] = e # map snd ys" using zs(2) by simp
  then have tl: "hd (xs @ [d]) = e" "tl (xs @ [d]) = map snd ys" by simp_all
  obtain s2 where s2: "list_get_first True True s1 = Some (SUCCESS, Some e, s2)" "list_rep s2 ys"
    using list_get_first_rep [of s1 a e ys] s1(2) ys by auto
  obtain s3 where s3: "list_get_last True True s1 = Some (SUCCESS, Some d, s3)" "list_rep s3 zs"
    using list_get_last_rep [of s1 zs _ d] s1(2) by blast
  have "list_holds s2 (map snd ys)" "list_holds s3 xs"
    using s2(2) s3(2) zs(2) unfolding list_holds_def by blast+
  then show ?thesis using s1(1) s2(1) s3(1) unfolding tl by auto
qed

theorem list_adapter_order_witness:
  "\<exists>s1 s2. ad_push (set_adapter LIST_QUEUE) True 20 list_two = Some (SUCCESS, s1) \<and>
      ad_pop (set_adapter LIST_QUEUE) True True s1 = Some (SUCCESS, Some 10, s2) \<and>
      list_holds s2 [30, 20]"
  using list_adapter_order [OF list_two_holds list_two_can_add(1), of 20] by simp

text \<open>
  list_remove of a list with no live iterator returns and frees every element: of the
  allocated cells, exactly those of the list are gone.
\<close>

theorem list_remove_frees_all:
  assumes "list_rep s zs" "nb_iterators s = 0"
  shows "\<exists>m. list_remove True s = Some (SUCCESS, Inl m) \<and>
    dom (cells m) = dom (cells (l_mem s)) - fst ` set zs"
  using remove_loop_rep [OF assms(1)] assms(2) by (auto simp: list_remove_def)

theorem list_remove_frees_all_witness:
  "\<exists>m. list_remove True list_two = Some (SUCCESS, Inl m) \<and> dom (cells m) = {}"
  using list_remove_frees_all [OF list_two_rep] by (simp add: list_two_def)

text \<open>
  When the allocation of the element fails, the three ways to add return FAILURE and the
  list keeps its elements.
\<close>

theorem list_add_no_memory:
  assumes "list_holds s xs" "\<not> mem_ok s"
    "add \<in> {list_add_first, list_add_last, list_add_find}"
  shows "\<exists>s'. add True d s = Some (FAILURE, s') \<and> list_holds s' xs"
proof -
  obtain zs where zs: "list_rep s zs" "map snd zs = xs" using assms(1) by (auto simp: list_holds_def)
  then show ?thesis
    using assms(3) list_add_ends_oom [OF zs(1) assms(2), of d] list_add_find_oom [OF zs(1) assms(2), of d]
    by (auto simp: list_holds_def)
qed

theorem list_add_no_memory_witness:
  "\<exists>s'. list_add_find True 20 (list_two\<lparr>l_mem := (l_mem list_two)\<lparr>brk := 3\<rparr>\<rparr>) =
     Some (FAILURE, s') \<and> list_holds s' [10, 30]"
proof (rule list_add_no_memory)
  have "list_rep (list_two\<lparr>l_mem := (l_mem list_two)\<lparr>brk := 3\<rparr>\<rparr>) [(0, 10), (1, 30)]"
    by (simp add: list_rep_def list_two_def last_addr_def heap_wf_def)
  then show "list_holds (list_two\<lparr>l_mem := (l_mem list_two)\<lparr>brk := 3\<rparr>\<rparr>) [10, 30]"
    by (force simp: list_holds_def)
qed (simp_all add: mem_ok_def list_two_def)

text \<open>
  iterator_move goes to the element that many positions away in either direction; when
  there is none it fails and the iterator keeps its position.
\<close>

theorem iterator_move_position:
  assumes "list_rep s zs" "p < length zs" "\<bar>i\<bar> < 2 ^ 31"
  shows "iterator_move (Some \<lparr>it_elem = Some (fst (zs ! p))\<rparr>) i s =
    (if 0 \<le> int p + i \<and> int p + i < int (length zs)
     then Some (SUCCESS, Some \<lparr>it_elem = Some (fst (zs ! nat (int p + i)))\<rparr>)
     else Some (FAILURE, Some \<lparr>it_elem = Some (fst (zs ! p))\<rparr>))"
proof -
  let ?us = "take (Suc p) zs" and ?vs = "drop p zs"
  have "dll (cells (l_mem s)) None (take p zs @ ?vs) None"
    "dll (cells (l_mem s)) None (?us @ drop (Suc p) zs) None"
    using assms(1) by (simp_all only: append_take_drop_id list_rep_def)
  then have dll: "dll (cells (l_mem s)) (last_addr None (take p zs)) ?vs None"
    "dll (cells (l_mem s)) None ?us (hd_addr (drop (Suc p) zs) None)" by (simp_all only: dll_append)
  have ends: "hd_addr ?vs None = Some (fst (zs ! p))" "last_addr None ?us = Some (fst (zs ! p))"
    using assms(2) by (simp_all add: hd_addr_drop take_Suc_conv_app_nth)
  have last: "last_addr None (take k zs) = (if k = 0 then None else Some (fst (zs ! (k - 1))))"
    if "k \<le> length zs" for k using that by (cases k) (simp_all add: take_Suc_conv_app_nth)
  show ?thesis
  proof (cases "i < 0")
    case True
    have k: "Suc p - nat \<bar>i\<bar> = (if 0 \<le> int p + i then Suc (nat (int p + i)) else 0)"
      using True by auto
    have "move_loop (l_mem s) (-1) (nat \<bar>i\<bar>) (Some (fst (zs ! p))) =
        Some (last_addr None (take (Suc p - nat \<bar>i\<bar>) zs))"
      using move_loop_backward [OF dll(2), of "nat \<bar>i\<bar>"] assms(2)
      by (simp add: ends(2) Suc_leI min_absorb1 min_absorb2)
    then show ?thesis
      using True assms(2,3) last [of "Suc p - nat \<bar>i\<bar>"] k
      by (auto simp: iterator_move_def split: if_splits)
  next
    case False
    then have "nat \<bar>i\<bar> + p = nat (int p + i)" by auto
    then have "move_loop (l_mem s) 1 (nat \<bar>i\<bar>) (Some (fst (zs ! p))) =
        Some (hd_addr (drop (nat (int p + i)) zs) None)"
      using move_loop_forward [OF dll(1), of "nat \<bar>i\<bar>"] by (simp only: ends(1) drop_drop)
    then show ?thesis
      using False assms(3) hd_addr_drop [of "nat (int p + i)" zs]
      by (cases "int p + i < int (length zs)") (auto simp: iterator_move_def nat_less_iff)
  qed
qed

theorem iterator_move_position_witness:
  "iterator_move (Some \<lparr>it_elem = Some 1\<rparr>) (-1) list_two = Some (SUCCESS, Some \<lparr>it_elem = Some 0\<rparr>)"
  using iterator_move_position [OF list_two_rep, of 1 "-1"] by simp

text \<open>
  iterator_get on the last of several elements leaves the iterator on no element: the
  comparison with the last element comes after the descriptor was updated. The documentation
  has it move to the previous element.
\<close>

theorem iterator_get_last_unset:
  assumes "list_rep s (us @ [(a, d)])" "us \<noteq> []" "it_elem it = Some a"
  shows "\<exists>s'. iterator_get (Some it) True s = Some (SUCCESS, Some d, Some (it\<lparr>it_elem := None\<rparr>), s') \<and>
    list_rep s' us"
  using iterator_get_rep [OF assms(1,3)] by auto

theorem iterator_get_last_unset_witness:
  "\<exists>s'. iterator_get (Some \<lparr>it_elem = Some 1\<rparr>) True list_two =
      Some (SUCCESS, Some 30, Some \<lparr>it_elem = None\<rparr>, s') \<and> list_rep s' [(0, 10)]"
  using iterator_get_last_unset [of list_two "[(0, 10)]" 1 30 "\<lparr>it_elem = Some 1\<rparr>"] list_two_rep by simp

section \<open>A list with the queue adapter is a queue\<close>

definition list_put :: "list_desc \<Rightarrow> u32 \<Rightarrow> list_desc option" where
  "list_put s d = (case ad_push (set_adapter LIST_QUEUE) True d s of
     Some (ret, s') \<Rightarrow> if ret = SUCCESS then Some s' else None | None \<Rightarrow> None)"

definition list_take :: "list_desc \<Rightarrow> (u32 \<times> list_desc) option" where
  "list_take s = (case ad_pop (set_adapter LIST_QUEUE) True True s of
     Some (ret, Some d, s') \<Rightarrow> if ret = SUCCESS then Some (d, s') else None | _ \<Rightarrow> None)"

text \<open>The elements by walking the chain, at most \<open>nb_elements\<close> of them.\<close>

fun list_walk :: "list_elem heap \<Rightarrow> nat option \<Rightarrow> nat \<Rightarrow> u32 list" where
  "list_walk m (Some a) (Suc n) =
     (case cells m a of None \<Rightarrow> [] | Some e \<Rightarrow> e_data e # list_walk m (e_next e) n)"
| "list_walk m _ _ = []"

definition list_contents :: "list_desc \<Rightarrow> u32 list" where
  "list_contents s = list_walk (l_mem s) (l_first s) (unat (nb_elements s))"

lemma list_walk_dll:
  "dll (cells m) p zs None \<Longrightarrow> list_walk m (hd_addr zs None) (length zs) = map snd zs"
proof (induction zs arbitrary: p)
  case (Cons z zs)
  then show ?case by (cases z) auto
qed simp

lemma list_contents_rep: "list_rep s zs \<Longrightarrow> list_contents s = map snd zs"
  using list_walk_dll [of "l_mem s" None zs] by (simp add: list_contents_def list_rep_def)

interpretation lq: queue "\<lambda>s. \<exists>zs. list_rep s zs" list_contents "\<lambda>s _. can_add s" list_put list_take
proof (unfold_locales, goal_cases)
  case (1 s x)
  then obtain zs where zs: "list_rep s zs" by blast
  then show ?case
    using list_add_last_rep [OF zs 1(2), of x] by (force simp: list_put_def list_contents_rep)
next
  case (2 s x xs)
  then obtain zs where zs: "list_rep s zs" by blast
  then obtain a ys where "zs = (a, x) # ys" "map snd ys = xs"
    using 2(2) by (cases zs) (auto simp: list_contents_rep)
  then show ?case
    using list_get_first_rep [of s a x ys] zs by (force simp: list_take_def list_contents_rep)
qed

end
