(* ===== verification/Fifo.thy ===== *)
theory Fifo
  imports NoOS_Prelude Queue_Interface
begin

text \<open>
  util/fifo.c: the linked fifo of byte buffers the UART drivers keep their received data in.
  One heap holds the fifo_element structs and the byte buffers they own, each from a calloc of
  its own that may fail. The fifo itself is the pointer to its first element.
\<close>

section \<open>Definitions\<close>

record fifo_element =
  f_next :: "nat option"
  f_data :: "nat option"
  f_len :: u32

datatype fifo_cell = Elem fifo_element | Bytes "u8 list"

type_synonym fifo_heap = "fifo_cell heap"

definition elem_at :: "nat \<Rightarrow> fifo_heap \<Rightarrow> fifo_element option" where
  "elem_at a h = (case cells h a of Some (Elem e) \<Rightarrow> Some e | _ \<Rightarrow> None)"

definition put_elem :: "nat \<Rightarrow> (fifo_element \<Rightarrow> fifo_element) \<Rightarrow> fifo_heap \<Rightarrow> fifo_heap option" where
  "put_elem a f h = do {
     e \<leftarrow> elem_at a h;
     Some (h\<lparr>cells := (cells h)(a \<mapsto> Elem (f e))\<rparr>)
   }"

text \<open>calloc (1, len) hands out len zero bytes; memcpy then overwrites them all.\<close>

definition fifo_new_element :: "u8 list \<Rightarrow> u32 \<Rightarrow> fifo_heap \<Rightarrow> (nat option \<times> fifo_heap) option" where
  "fifo_new_element buff n h =
     (case calloc (Elem \<lparr>f_next = None, f_data = None, f_len = 0\<rparr>) h of
        (None, h) \<Rightarrow> Some (None, h)
      | (Some q, h) \<Rightarrow> do {
          h \<leftarrow> put_elem q (\<lambda>e. e\<lparr>f_len := n\<rparr>) h;
          case calloc (Bytes (replicate (unat n) 0)) h of
            (None, h) \<Rightarrow> do {h \<leftarrow> cfree q h; Some (None, h)}
          | (Some d, h) \<Rightarrow> do {
              h \<leftarrow> put_elem q (\<lambda>e. e\<lparr>f_data := Some d\<rparr>) h;
              guard (unat n \<le> length buff);
              Some (Some q, h\<lparr>cells := (cells h)(d \<mapsto> Bytes (take (unat n) buff))\<rparr>)
            }
        })"

partial_function (option) fifo_get_last_loop :: "nat \<Rightarrow> fifo_heap \<Rightarrow> nat option" where
  "fifo_get_last_loop p h = do {
     e \<leftarrow> elem_at p h;
     case f_next e of None \<Rightarrow> Some p | Some p' \<Rightarrow> fifo_get_last_loop p' h
   }"

definition fifo_get_last :: "nat option \<Rightarrow> fifo_heap \<Rightarrow> nat option option" where
  "fifo_get_last p_fifo h =
     (case p_fifo of None \<Rightarrow> Some None | Some p \<Rightarrow> map_option Some (fifo_get_last_loop p h))"

definition fifo_insert ::
  "nat option \<Rightarrow> u8 list \<Rightarrow> u32 \<Rightarrow> fifo_heap \<Rightarrow> (int \<times> nat option \<times> fifo_heap) option" where
  "fifo_insert p_fifo buff n h =
     (if n \<le> 0 then Some (FAILURE, p_fifo, h)
      else do {
        (q, h) \<leftarrow> fifo_new_element buff n h;
        if q = None then Some (FAILURE, p_fifo, h)
        else if p_fifo = None then Some (SUCCESS, q, h)
        else do {
          l \<leftarrow> fifo_get_last p_fifo h;
          p \<leftarrow> l;
          h \<leftarrow> put_elem p (\<lambda>e. e\<lparr>f_next := q\<rparr>) h;
          Some (SUCCESS, p_fifo, h)
        }
      })"

definition fifo_remove :: "nat option \<Rightarrow> fifo_heap \<Rightarrow> (nat option \<times> fifo_heap) option" where
  "fifo_remove p_fifo h =
     (case p_fifo of
        None \<Rightarrow> Some (None, h)
      | Some p \<Rightarrow> do {
          e \<leftarrow> elem_at p h;
          h \<leftarrow> (case f_data e of None \<Rightarrow> Some h | Some d \<Rightarrow> cfree d h);
          h \<leftarrow> cfree p h;
          Some (f_next e, h)
        })"

section \<open>Representation\<close>

text \<open>\<open>fseg c zs n\<close>: a chain of elements (address, address of the buffer, bytes) up to \<open>n\<close>.\<close>

type_synonym fcells = "(nat \<times> nat \<times> u8 list) list"

definition fhd :: "fcells \<Rightarrow> nat option \<Rightarrow> nat option" where
  "fhd zs n = (case zs of [] \<Rightarrow> n | (a, _) # _ \<Rightarrow> Some a)"

fun fseg :: "(nat \<rightharpoonup> fifo_cell) \<Rightarrow> fcells \<Rightarrow> nat option \<Rightarrow> bool" where
  "fseg c [] n = True"
| "fseg c ((a, b, bs) # zs) n =
     (c a = Some (Elem \<lparr>f_next = fhd zs n, f_data = Some b, f_len = of_nat (length bs)\<rparr>) \<and>
      c b = Some (Bytes bs) \<and> 0 < length bs \<and> length bs < 2 ^ 32 \<and> fseg c zs n)"

definition faddrs :: "fcells \<Rightarrow> nat list" where
  "faddrs zs = concat (map (\<lambda>(a, b, _). [a, b]) zs)"

definition fifo_rep :: "nat option \<Rightarrow> fifo_heap \<Rightarrow> fcells \<Rightarrow> bool" where
  "fifo_rep p h zs \<longleftrightarrow> fseg (cells h) zs None \<and> p = fhd zs None \<and> distinct (faddrs zs) \<and> heap_wf h"

definition fifo_data :: "fcells \<Rightarrow> u8 list list" where
  "fifo_data zs = map (\<lambda>(_, _, bs). bs) zs"

lemma fhd_simps [simp]: "fhd [] n = n" "fhd (z # zs) n = Some (fst z)"
  by (auto simp: fhd_def split: prod.splits)

lemma fhd_append [simp]: "fhd (us @ vs) n = fhd us (fhd vs n)"
  by (cases us) auto

lemma faddrs_simps [simp]:
  "faddrs [] = []" "faddrs ((a, b, bs) # zs) = a # b # faddrs zs"
  "faddrs (us @ vs) = faddrs us @ faddrs vs"
  by (simp_all add: faddrs_def)

lemma fifo_data_simps [simp]:
  "fifo_data [] = []" "fifo_data ((a, b, bs) # zs) = bs # fifo_data zs"
  "fifo_data (us @ vs) = fifo_data us @ fifo_data vs"
  by (simp_all add: fifo_data_def)

lemma fseg_append [simp]: "fseg c (us @ vs) n = (fseg c us (fhd vs n) \<and> fseg c vs n)"
proof (induction us)
  case (Cons z us)
  then show ?case by (cases z) simp
qed simp

lemma fseg_frame: "x \<notin> set (faddrs zs) \<Longrightarrow> fseg (c(x := y)) zs n = fseg c zs n"
proof (induction zs)
  case (Cons z zs)
  then show ?case by (cases z) simp
qed simp

lemma fseg_dom: "fseg c zs n \<Longrightarrow> x \<in> set (faddrs zs) \<Longrightarrow> x \<in> dom c"
proof (induction zs)
  case (Cons z zs)
  then show ?case by (cases z) auto
qed simp

lemma fifo_get_last_loop_seg:
  "fseg (cells h) (us @ [(a, b, bs)]) None \<Longrightarrow>
   fifo_get_last_loop (the (fhd us (Some a))) h = Some a"
proof (induction us)
  case Nil
  then show ?case by (subst fifo_get_last_loop.simps) (simp add: elem_at_def)
next
  case (Cons z us)
  obtain a1 b1 bs1 where z: "z = (a1, b1, bs1)" by (cases z)
  have "fhd us (Some a) = Some (the (fhd us (Some a)))" by (cases us) auto
  then obtain a2 where a2: "fhd us (Some a) = Some a2" by blast
  with Cons z show ?case by (subst fifo_get_last_loop.simps) (simp add: elem_at_def)
qed
section \<open>Operations\<close>

text \<open>The two allocations of the next insert will succeed.\<close>

definition fifo_mem_ok :: "fifo_heap \<Rightarrow> bool" where
  "fifo_mem_ok h \<longleftrightarrow> \<not> oom h (brk h) \<and> \<not> oom h (Suc (brk h))"

lemma fifo_new_element_ok:
  assumes "fifo_mem_ok h" "unat n \<le> length buff"
  shows "fifo_new_element buff n h = Some (Some (brk h),
    h\<lparr>cells := (cells h)(brk h \<mapsto> Elem \<lparr>f_next = None, f_data = Some (Suc (brk h)), f_len = n\<rparr>,
                Suc (brk h) \<mapsto> Bytes (take (unat n) buff)), brk := Suc (Suc (brk h))\<rparr>)"
  using assms by (simp add: fifo_new_element_def calloc_def put_elem_def elem_at_def fifo_mem_ok_def)

lemma fifo_new_element_oom:
  assumes "\<not> fifo_mem_ok h" "heap_wf h"
  shows "\<exists>k. fifo_new_element buff n h = Some (None, h\<lparr>brk := k\<rparr>) \<and> brk h \<le> k"
proof (cases "oom h (brk h)")
  case False
  with assms(1) have "oom h (Suc (brk h))" by (simp add: fifo_mem_ok_def)
  moreover have "(cells h)(brk h := None) = cells h" using heap_wf_fresh [OF assms(2)] by auto
  ultimately show ?thesis using False
    by (auto simp: fifo_new_element_def calloc_def put_elem_def elem_at_def cfree_def
        intro!: exI [of _ "Suc (Suc (brk h))"])
qed (auto simp: fifo_new_element_def calloc_def)

lemma fifo_insert_rep:
  assumes "fifo_rep p h zs" "fifo_mem_ok h" "n \<noteq> 0" "unat n \<le> length buff"
  shows "\<exists>p' h'. fifo_insert p buff n h = Some (SUCCESS, p', h') \<and>
    fifo_rep p' h' (zs @ [(brk h, Suc (brk h), take (unat n) buff)])"
proof -
  let ?q = "brk h" and ?d = "Suc (brk h)" and ?bs = "take (unat n) buff"
  let ?e = "Elem \<lparr>f_next = None, f_data = Some ?d, f_len = n\<rparr>"
  define h1 where "h1 = h\<lparr>cells := (cells h)(?q \<mapsto> ?e, ?d \<mapsto> Bytes ?bs), brk := Suc (Suc (brk h))\<rparr>"
  have new: "fifo_new_element buff n h = Some (Some ?q, h1)"
    using fifo_new_element_ok [OF assms(2,4)] by (simp add: h1_def)
  have rep: "fseg (cells h) zs None" "p = fhd zs None" "distinct (faddrs zs)" "heap_wf h"
    using assms(1) by (auto simp: fifo_rep_def)
  have "set (faddrs zs) \<subseteq> {..<brk h}"
    using fseg_dom [OF rep(1)] rep(4) by (auto simp: heap_wf_def)
  then have fresh: "?q \<notin> set (faddrs zs)" "?d \<notin> set (faddrs zs)" by auto
  have n: "length ?bs = unat n" "0 < unat n" "of_nat (unat n) = n"
    using assms(3,4) by (simp_all add: unat_gt_0)
  have seg1: "fseg (cells h1) zs None" using rep(1) fresh by (simp add: h1_def fseg_frame)
  have new1: "fseg (cells h1) [(?q, ?d, ?bs)] None" using n by (simp add: h1_def)
  have wf1: "heap_wf h1" using rep(4) by (auto simp: h1_def heap_wf_def less_Suc_eq)
  have "n > 0" using assms(3) by (simp add: word_gt_0)
  show ?thesis
  proof (cases zs rule: rev_cases)
    case Nil
    then show ?thesis
      using new new1 wf1 rep(2) \<open>n > 0\<close> by (auto simp: fifo_insert_def fifo_rep_def)
  next
    case (snoc us z)
    obtain a b bs where z: "z = (a, b, bs)" by (cases z)
    let ?l = "\<lparr>f_next = Some ?q, f_data = Some b, f_len = of_nat (length bs)\<rparr>"
    let ?h2 = "h1\<lparr>cells := (cells h1)(a \<mapsto> Elem ?l)\<rparr>"
    have pa: "p = Some (the (fhd us (Some a)))" using rep(2) snoc z by (cases us) auto
    have last: "fifo_get_last p h1 = Some (Some a)"
      using fifo_get_last_loop_seg [of h1 us a b bs] seg1 snoc z by (subst pa) (simp add: fifo_get_last_def)
    have ad: "a \<notin> set (faddrs us)" "a \<noteq> b" "a \<noteq> ?q" "a \<noteq> ?d"
      using rep(3) fresh by (auto simp: snoc z)
    have "fseg (cells ?h2) (zs @ [(?q, ?d, ?bs)]) None"
      using seg1 new1 ad by (simp add: snoc z fseg_frame)
    moreover have "put_elem a (\<lambda>e. e\<lparr>f_next := Some ?q\<rparr>) h1 = Some ?h2"
      using seg1 by (simp add: put_elem_def elem_at_def snoc z)
    moreover have "heap_wf ?h2" using wf1 seg1 heap_wf_upd [of h1 a] by (auto simp: snoc z)
    moreover have "fhd zs (Some ?q) = p" using rep(2) snoc by (cases us) auto
    ultimately show ?thesis
      using new last pa rep(3) fresh \<open>n > 0\<close> by (auto simp: fifo_insert_def fifo_rep_def)
  qed
qed

lemma fifo_remove_rep:
  assumes "fifo_rep p h ((a, b, bs) # zs)"
  shows "\<exists>h'. fifo_remove p h = Some (fhd zs None, h') \<and> fifo_rep (fhd zs None) h' zs \<and>
    dom (cells h') = dom (cells h) - {a, b} \<and> brk h' = brk h \<and> oom h' = oom h"
proof -
  let ?h' = "h\<lparr>cells := (cells h)(b := None, a := None)\<rparr>"
  have "fifo_remove p h = Some (fhd zs None, ?h')"
    using assms by (auto simp: fifo_remove_def fifo_rep_def elem_at_def cfree_def)
  moreover have "fifo_rep (fhd zs None) ?h' zs"
    using assms by (auto simp: fifo_rep_def fseg_frame heap_wf_def)
  ultimately show ?thesis by auto
qed

section \<open>Properties\<close>

text \<open>
  C22. fifo_insert appends the bytes as one buffer, whatever the length of the fifo, and the
  fifo stays well formed; fifo_remove then takes the oldest buffer off and frees the element
  and its bytes, nothing else.
\<close>

theorem fifo_insert_remove:
  assumes "fifo_rep p h zs" "fifo_mem_ok h" "n \<noteq> 0" "unat n \<le> length buff"
  shows "\<exists>p1 h1 ys a b bs p2 h2. fifo_insert p buff n h = Some (SUCCESS, p1, h1) \<and>
    fifo_rep p1 h1 ((a, b, bs) # ys) \<and>
    fifo_data ((a, b, bs) # ys) = fifo_data zs @ [take (unat n) buff] \<and>
    fifo_remove p1 h1 = Some (p2, h2) \<and> fifo_rep p2 h2 ys \<and>
    dom (cells h2) = dom (cells h1) - {a, b}"
proof -
  let ?ys = "zs @ [(brk h, Suc (brk h), take (unat n) buff)]"
  obtain p1 h1 where 1: "fifo_insert p buff n h = Some (SUCCESS, p1, h1)" "fifo_rep p1 h1 ?ys"
    using fifo_insert_rep [OF assms] by blast
  obtain a b bs ys where ys: "?ys = (a, b, bs) # ys" by (cases ?ys) auto
  obtain h2 where "fifo_remove p1 h1 = Some (fhd ys None, h2)" "fifo_rep (fhd ys None) h2 ys"
    "dom (cells h2) = dom (cells h1) - {a, b}"
    using fifo_remove_rep [of p1 h1 a b bs ys] 1(2) ys by auto
  moreover from arg_cong [OF ys, of fifo_data]
  have "fifo_data ((a, b, bs) # ys) = fifo_data zs @ [take (unat n) buff]" by simp
  ultimately show ?thesis using 1 unfolding ys by blast
qed

definition fifo_one :: fifo_heap where
  "fifo_one = \<lparr>cells = [0 \<mapsto> Elem \<lparr>f_next = None, f_data = Some 1, f_len = 2\<rparr>, 1 \<mapsto> Bytes [7, 8]],
     brk = 2, oom = (\<lambda>n. n = 5)\<rparr>"

lemma fifo_one_rep: "fifo_rep (Some 0) fifo_one [(0, 1, [7, 8])]"
  by (simp add: fifo_rep_def fifo_one_def heap_wf_def)

theorem fifo_insert_remove_witness:
  "\<exists>p1 h1 ys a b bs p2 h2. fifo_insert (Some 0) [1, 2, 3] 2 fifo_one = Some (SUCCESS, p1, h1) \<and>
    fifo_data ((a, b, bs) # ys) = [[7, 8], [1, 2]] \<and>
    fifo_remove p1 h1 = Some (p2, h2) \<and> fifo_rep p2 h2 ys"
proof -
  have *: "fifo_mem_ok fifo_one" "(2 :: u32) \<noteq> 0" "unat (2 :: u32) \<le> length [1, 2, 3 :: u8]"
    by (simp_all add: fifo_mem_ok_def fifo_one_def)
  show ?thesis using fifo_insert_remove [OF fifo_one_rep *] by (auto simp del: fifo_data_simps(2)) fastforce
qed

text \<open>
  When either allocation fails, fifo_insert returns FAILURE, the fifo is as before and no
  cell is leaked.
\<close>

theorem fifo_insert_no_memory:
  assumes "fifo_rep p h zs" "\<not> fifo_mem_ok h"
  shows "\<exists>h'. fifo_insert p buff n h = Some (FAILURE, p, h') \<and> fifo_rep p h' zs \<and> cells h' = cells h"
proof (cases "n \<le> 0")
  case True
  then show ?thesis using assms(1) by (simp add: fifo_insert_def)
next
  case False
  have "heap_wf h" using assms(1) by (simp add: fifo_rep_def)
  then obtain k where "fifo_new_element buff n h = Some (None, h\<lparr>brk := k\<rparr>)" "brk h \<le> k"
    using fifo_new_element_oom [OF assms(2)] by blast
  then show ?thesis
    using False assms(1) by (auto simp: fifo_insert_def fifo_rep_def heap_wf_brk_mono)
qed

theorem fifo_insert_no_memory_witness:
  "\<exists>h'. fifo_insert (Some 0) [1] 1 (fifo_one\<lparr>brk := 4\<rparr>) = Some (FAILURE, Some 0, h') \<and>
     cells h' = cells fifo_one"
proof -
  have "fifo_rep (Some 0) (fifo_one\<lparr>brk := 4\<rparr>) [(0, 1, [7, 8])]"
    by (simp add: fifo_rep_def fifo_one_def heap_wf_def)
  moreover have "\<not> fifo_mem_ok (fifo_one\<lparr>brk := 4\<rparr>)" by (simp add: fifo_mem_ok_def fifo_one_def)
  ultimately show ?thesis using fifo_insert_no_memory [of _ "fifo_one\<lparr>brk := 4\<rparr>"] by fastforce
qed

section \<open>The fifo is a queue of buffers\<close>

definition fifo_put :: "nat option \<times> fifo_heap \<Rightarrow> u8 list \<Rightarrow> (nat option \<times> fifo_heap) option" where
  "fifo_put s bs = (case fifo_insert (fst s) bs (of_nat (length bs)) (snd s) of
     Some (ret, p, h) \<Rightarrow> if ret = SUCCESS then Some (p, h) else None | None \<Rightarrow> None)"

text \<open>A client reads the data of the first element and then removes it.\<close>

definition fifo_take :: "nat option \<times> fifo_heap \<Rightarrow> (u8 list \<times> nat option \<times> fifo_heap) option" where
  "fifo_take s = do {
     a \<leftarrow> fst s;
     e \<leftarrow> elem_at a (snd s);
     d \<leftarrow> f_data e;
     bs \<leftarrow> (case cells (snd s) d of Some (Bytes bs) \<Rightarrow> Some bs | _ \<Rightarrow> None);
     (p, h) \<leftarrow> fifo_remove (fst s) (snd s);
     Some (bs, p, h)
   }"

partial_function (option) fifo_walk :: "nat option \<Rightarrow> fifo_heap \<Rightarrow> u8 list list option" where
  "fifo_walk p h = (case p of None \<Rightarrow> Some []
     | Some a \<Rightarrow> do {
         e \<leftarrow> elem_at a h;
         d \<leftarrow> f_data e;
         bs \<leftarrow> (case cells h d of Some (Bytes bs) \<Rightarrow> Some bs | _ \<Rightarrow> None);
         rest \<leftarrow> fifo_walk (f_next e) h;
         Some (bs # rest)
       })"

lemma fifo_walk_seg: "fseg (cells h) zs None \<Longrightarrow> fifo_walk (fhd zs None) h = Some (fifo_data zs)"
proof (induction zs)
  case (Cons z zs)
  then show ?case by (cases z) (subst fifo_walk.simps, simp add: elem_at_def)
qed (subst fifo_walk.simps, simp)

lemma fifo_walk_rep: "fifo_rep p h zs \<Longrightarrow> fifo_walk p h = Some (fifo_data zs)"
  by (auto simp: fifo_rep_def fifo_walk_seg)

interpretation fq: queue "\<lambda>s. \<exists>zs. fifo_rep (fst s) (snd s) zs" "\<lambda>s. the (fifo_walk (fst s) (snd s))"
  "\<lambda>s bs. fifo_mem_ok (snd s) \<and> 0 < length bs \<and> length bs < 2 ^ 32" fifo_put fifo_take
proof (unfold_locales, goal_cases)
  case (1 s x)
  then obtain zs where zs: "fifo_rep (fst s) (snd s) zs" by blast
  have n: "unat (of_nat (length x) :: u32) = length x" using 1(2) by (simp add: unat_of_nat)
  then have "(of_nat (length x) :: u32) \<noteq> 0" using 1(2) by (metis less_irrefl unat_0)
  then obtain p h where "fifo_insert (fst s) x (of_nat (length x)) (snd s) = Some (SUCCESS, p, h)"
    "fifo_rep p h (zs @ [(brk (snd s), Suc (brk (snd s)), x)])"
    using fifo_insert_rep [OF zs, of "of_nat (length x)" x] 1(2) n by auto
  then show ?case using fifo_walk_rep [OF zs] fifo_walk_rep [of p h] by (auto simp: fifo_put_def)
next
  case (2 s x xs)
  then obtain zs where zs: "fifo_rep (fst s) (snd s) zs" by blast
  then obtain a b ys where ys: "zs = (a, b, x) # ys" "fifo_data ys = xs"
    using 2(2) fifo_walk_rep [OF zs] by (cases zs) auto
  obtain h where h: "fifo_remove (fst s) (snd s) = Some (fhd ys None, h)"
    "fifo_rep (fhd ys None) h ys"
    using fifo_remove_rep [of "fst s" "snd s" a b x ys] zs ys by auto
  moreover have "fifo_take s = Some (x, fhd ys None, h)"
    using zs ys(1) h(1) by (auto simp: fifo_take_def fifo_rep_def elem_at_def)
  ultimately show ?case using ys fifo_walk_rep [of _ h ys] by auto
qed

end
