(* ===== verification/Crc.thy ===== *)
theory Crc
  imports NoOS_Prelude
begin

text \<open>
  util/crc8.c, crc16.c and crc24.c: table generation and the table driven CRC. A lookup table
  is the list of its entries, \<open>None\<close> for a NULL pointer; reading past the data or outside the
  table is undefined (\<open>None\<close>). The CRC-16 expressions are evaluated in 32 bits, as the
  integer promotions of C have it, and truncated where the code stores them.

  The reference is the serial shift register of the CRC standards, one message bit per step;
  the table driven functions are shown equal to it for every polynomial.
\<close>

section \<open>Definitions\<close>

definition CRC8_TABLE_SIZE :: nat where [simp]: "CRC8_TABLE_SIZE = 256"
definition CRC16_TABLE_SIZE :: nat where [simp]: "CRC16_TABLE_SIZE = 256"
definition CRC24_TABLE_SIZE :: nat where [simp]: "CRC24_TABLE_SIZE = 256"

subsection \<open>crc8.c\<close>

definition crc8_shift :: "u8 \<Rightarrow> u8 \<Rightarrow> u8" where
  "crc8_shift polynomial currByte =
     (if currByte AND 0x80 \<noteq> 0 then push_bit 1 currByte XOR polynomial else push_bit 1 currByte)"

definition crc8_entry :: "u8 \<Rightarrow> nat \<Rightarrow> u8" where
  "crc8_entry polynomial n = (crc8_shift polynomial ^^ 8) (of_nat n)"

definition crc8_populate_msb :: "u8 list option \<Rightarrow> u8 \<Rightarrow> u8 list option option" where
  "crc8_populate_msb table polynomial =
     (case table of
        None \<Rightarrow> Some None
      | Some t \<Rightarrow> do {
          guard (CRC8_TABLE_SIZE \<le> length t);
          Some (Some (map (crc8_entry polynomial) [0..<CRC8_TABLE_SIZE] @ drop CRC8_TABLE_SIZE t))
        })"

fun crc8 :: "u8 list \<Rightarrow> u8 list \<Rightarrow> nat \<Rightarrow> u8 \<Rightarrow> u8 option" where
  "crc8 table pdata 0 crc = Some crc"
| "crc8 table [] (Suc nbytes) crc = None"
| "crc8 table (b # pdata) (Suc nbytes) crc = do {
     let i = unat (ucast crc XOR ucast b :: u32);
     guard (i < length table);
     crc8 table pdata nbytes (ucast ((ucast (table ! i) :: u32) AND 0xff))
   }"

subsection \<open>crc16.c\<close>

definition crc16_shift :: "u16 \<Rightarrow> u16 \<Rightarrow> u16" where
  "crc16_shift polynomial currByte =
     (if currByte AND 0x8000 \<noteq> 0 then push_bit 1 currByte XOR polynomial else push_bit 1 currByte)"

definition crc16_entry :: "u16 \<Rightarrow> nat \<Rightarrow> u16" where
  "crc16_entry polynomial n = (crc16_shift polynomial ^^ 8) (ucast (push_bit 8 (of_nat n :: u32)))"

definition crc16_populate_msb :: "u16 list option \<Rightarrow> u16 \<Rightarrow> u16 list option option" where
  "crc16_populate_msb table polynomial =
     (case table of
        None \<Rightarrow> Some None
      | Some t \<Rightarrow> do {
          guard (CRC16_TABLE_SIZE \<le> length t);
          Some (Some (map (crc16_entry polynomial) [0..<CRC16_TABLE_SIZE] @ drop CRC16_TABLE_SIZE t))
        })"

fun crc16 :: "u16 list \<Rightarrow> u8 list \<Rightarrow> nat \<Rightarrow> u16 \<Rightarrow> u16 option" where
  "crc16 table pdata 0 crc = Some crc"
| "crc16 table [] (Suc nbytes) crc = None"
| "crc16 table (b # pdata) (Suc nbytes) crc = do {
     let i = unat ((drop_bit 8 (ucast crc) XOR ucast b) AND (0xff :: u32));
     guard (i < length table);
     crc16 table pdata nbytes
       (ucast ((ucast (table ! i) XOR push_bit 8 (ucast crc)) AND (0xffff :: u32)))
   }"

subsection \<open>crc24.c\<close>

definition crc24_shift :: "u32 \<Rightarrow> u32 \<Rightarrow> u32" where
  "crc24_shift polynomial currByte =
     (if currByte AND 0x800000 \<noteq> 0 then push_bit 1 (currByte AND 0x7FFFFF) XOR polynomial
      else push_bit 1 currByte)"

definition crc24_entry :: "u32 \<Rightarrow> nat \<Rightarrow> u32" where
  "crc24_entry polynomial n = (crc24_shift polynomial ^^ 8) (push_bit 16 (of_nat n))"

definition crc24_populate_msb :: "u32 list option \<Rightarrow> u32 \<Rightarrow> u32 list option option" where
  "crc24_populate_msb table polynomial =
     (case table of
        None \<Rightarrow> Some None
      | Some t \<Rightarrow> do {
          guard (CRC24_TABLE_SIZE \<le> length t);
          Some (Some (map (crc24_entry polynomial) [0..<CRC24_TABLE_SIZE] @ drop CRC24_TABLE_SIZE t))
        })"

fun crc24_loop :: "u32 list \<Rightarrow> u8 list \<Rightarrow> nat \<Rightarrow> u32 \<Rightarrow> u32 option" where
  "crc24_loop table pdata 0 crc = Some crc"
| "crc24_loop table [] (Suc nbytes) crc = None"
| "crc24_loop table (b # pdata) (Suc nbytes) crc = do {
     let i = unat ((drop_bit 16 crc XOR ucast b) AND 0xff);
     guard (i < length table);
     crc24_loop table pdata nbytes ((table ! i XOR push_bit 8 crc) AND 0xffffff)
   }"

definition crc24 :: "u32 list \<Rightarrow> u8 list \<Rightarrow> nat \<Rightarrow> u32 \<Rightarrow> u32 option" where
  "crc24 table pdata nbytes crc = do {
     c \<leftarrow> crc24_loop table pdata nbytes crc;
     Some (c AND 0xffffff)
   }"

section \<open>The shift register\<close>

text \<open>One step of the register with a message bit, and the register over a message.\<close>

definition lfsr :: "'a::len word \<Rightarrow> 'a word \<Rightarrow> bool \<Rightarrow> 'a word" where
  "lfsr p c b = (if bit c (LENGTH('a) - 1) \<noteq> b then push_bit 1 c XOR p else push_bit 1 c)"

definition byte_bits :: "u8 \<Rightarrow> bool list" where
  "byte_bits b = map (bit b) [7, 6, 5, 4, 3, 2, 1, 0]"

definition serial_crc :: "'a::len word \<Rightarrow> 'a word \<Rightarrow> u8 list \<Rightarrow> 'a word" where
  "serial_crc p c bs = foldl (lfsr p) c (concat (map byte_bits bs))"

text \<open>The same step on a register the message bit has been added to.\<close>

definition gstep :: "'a::len word \<Rightarrow> 'a word \<Rightarrow> 'a word" where
  "gstep p w = (if bit w (LENGTH('a) - 1) then push_bit 1 w XOR p else push_bit 1 w)"

lemma gstep_xor: "gstep p (a XOR b) XOR (if c then p else 0) =
    gstep p a XOR gstep p b XOR (if c then p else 0)" for a :: "'a::len word"
  by (rule bit_word_eqI) (auto simp: gstep_def bit_simps simp del: push_bit_Suc)

lemma gstep_linear: "gstep p (a XOR b) = gstep p a XOR gstep p b"
  using gstep_xor [of p a b False] by simp

lemma gstep_pow_linear: "(gstep p ^^ k) (a XOR b) = (gstep p ^^ k) a XOR (gstep p ^^ k) b"
  by (induction k) (simp_all add: gstep_linear)

lemma gstep_pow_low:
  "(\<And>n. LENGTH('a) \<le> n + k \<Longrightarrow> \<not> bit w n) \<Longrightarrow> (gstep p ^^ k) w = push_bit k w"
  for w :: "'a::len word"
proof (induction k arbitrary: w)
  case (Suc k)
  have "\<not> bit w (LENGTH('a) - 1)" using Suc.prems [of "LENGTH('a) - 1"] by simp
  then have "gstep p w = push_bit 1 w" by (simp add: gstep_def)
  moreover have "(gstep p ^^ k) (push_bit 1 w) = push_bit k (push_bit 1 w)"
    by (rule Suc.IH) (use Suc.prems in \<open>auto simp: bit_simps simp del: push_bit_Suc\<close>)
  ultimately show ?case
    by (simp add: funpow_Suc_right push_bit_push_bit del: funpow.simps push_bit_Suc)
qed simp

lemma lfsr_gstep: "lfsr p c b = gstep p (c XOR (if b then push_bit (LENGTH('a) - 1) 1 else 0))"
  for c :: "'a::len word"
  by (rule bit_word_eqI) (auto simp: lfsr_def gstep_def bit_simps simp del: push_bit_Suc)

text \<open>A list of bits as the top bits of a register.\<close>

fun top_bits :: "bool list \<Rightarrow> 'a::len word" where
  "top_bits [] = 0"
| "top_bits (b # bs) = (if b then push_bit (LENGTH('a) - 1) 1 else 0) XOR drop_bit 1 (top_bits bs)"

lemma bit_top_bits:
  "length bs \<le> LENGTH('a) \<Longrightarrow> bit (top_bits bs :: 'a::len word) n \<longleftrightarrow>
   n < LENGTH('a) \<and> LENGTH('a) - 1 - n < length bs \<and> bs ! (LENGTH('a) - 1 - n)"
proof (induction bs arbitrary: n)
  case (Cons b bs)
  consider "LENGTH('a) \<le> n" | "n = LENGTH('a) - 1" | "n < LENGTH('a) - 1" by linarith
  then show ?case
  proof cases
    case 3
    then have "LENGTH('a) - 1 - n = Suc (LENGTH('a) - 1 - Suc n)" "Suc n < LENGTH('a)" "n < LENGTH('a)"
      by linarith+
    with Cons 3 show ?thesis by (simp add: bit_simps)
  qed (use Cons in \<open>simp_all add: bit_simps\<close>)
qed simp

lemma foldl_lfsr:
  "length bs \<le> LENGTH('a) \<Longrightarrow>
   foldl (lfsr p) c bs = (gstep p ^^ length bs) (c XOR top_bits bs)" for c :: "'a::len word"
proof (induction bs arbitrary: c)
  case (Cons b bs)
  let ?t = "(if b then push_bit (LENGTH('a) - 1) 1 else 0) :: 'a word"
  let ?r = "drop_bit 1 (top_bits bs) :: 'a word"
  have "gstep p ?r = push_bit 1 ?r"
    by (simp add: gstep_def bit_simps)
  also have "\<dots> = top_bits bs"
    using Cons.prems
    by (auto intro!: bit_word_eqI simp: bit_simps bit_top_bits simp del: push_bit_Suc)
  finally have r: "gstep p ?r = top_bits bs" .
  have "foldl (lfsr p) c (b # bs) = (gstep p ^^ length bs) (gstep p (c XOR ?t) XOR top_bits bs)"
    using Cons.IH [of "lfsr p c b"] Cons.prems by (simp add: lfsr_gstep [of p c b])
  also have "\<dots> = (gstep p ^^ length bs) (gstep p ((c XOR ?t) XOR ?r))"
    by (simp only: gstep_linear [of p "c XOR ?t" ?r] r)
  finally show ?case by (simp add: funpow_Suc_right xor.assoc del: funpow.simps)
qed simp
lemma length_byte_bits [simp]: "length (byte_bits b) = 8"
  by (simp add: byte_bits_def)

lemma top_byte:
  assumes "8 \<le> LENGTH('a)"
  shows "top_bits (byte_bits b) = (push_bit (LENGTH('a) - 8) (ucast b) :: 'a::len word)"
proof (rule bit_word_eqI)
  fix n assume n: "n < LENGTH('a)"
  have nth: "byte_bits b ! k = bit b (7 - k)" if "k < 8" for k
  proof -
    from that have "k \<in> {0, 1, 2, 3, 4, 5, 6, 7}" by auto
    then show ?thesis by (auto simp: byte_bits_def)
  qed
  show "bit (top_bits (byte_bits b) :: 'a word) n = bit (push_bit (LENGTH('a) - 8) (ucast b) :: 'a word) n"
  proof (cases "LENGTH('a) - 8 \<le> n")
    case True
    then have "LENGTH('a) - 1 - n < 8" "7 - (LENGTH('a) - 1 - n) = n - (LENGTH('a) - 8)"
      using n assms by linarith+
    moreover have "n - (LENGTH('a) - 8) < 8" using n assms by linarith
    ultimately show ?thesis
      using True n assms by (simp add: bit_top_bits nth bit_simps)
  next
    case False
    then have "\<not> LENGTH('a) - 1 - n < 8" using assms by linarith
    with False n assms show ?thesis by (simp add: bit_top_bits bit_simps)
  qed
qed

text \<open>A byte of the message: eight steps of the register the byte was added to.\<close>

lemma serial_crc_Cons:
  fixes c :: "'a::len word"
  assumes "8 \<le> LENGTH('a)"
  shows "serial_crc p c (b # bs) =
    serial_crc p ((gstep p ^^ 8) (c XOR push_bit (LENGTH('a) - 8) (ucast b))) bs"
proof -
  have "foldl (lfsr p) c (byte_bits b) = (gstep p ^^ 8) (c XOR push_bit (LENGTH('a) - 8) (ucast b))"
    using foldl_lfsr [of "byte_bits b" p c] assms
    by (simp only: length_byte_bits top_byte [OF assms])
  then show ?thesis by (simp only: serial_crc_def list.map concat.simps foldl_append)
qed

lemma serial_crc_Nil [simp]: "serial_crc p c [] = c"
  by (simp add: serial_crc_def)

lemma serial_crc_append: "serial_crc p c (as @ bs) = serial_crc p (serial_crc p c as) bs"
  by (simp add: serial_crc_def)

text \<open>The table lookup: the top byte through the table, the rest shifted.\<close>

lemma gstep_table:
  fixes c :: "'a::len word" and b :: u8
  assumes "8 \<le> LENGTH('a)"
  shows "(gstep p ^^ 8) (c XOR push_bit (LENGTH('a) - 8) (ucast b)) =
    (gstep p ^^ 8) (push_bit (LENGTH('a) - 8) (ucast (ucast (drop_bit (LENGTH('a) - 8) c) XOR b))) XOR
    push_bit 8 c"
proof -
  let ?k = "LENGTH('a) - 8"
  have "c XOR push_bit ?k (ucast b) =
      push_bit ?k (ucast (ucast (drop_bit ?k c) XOR b)) XOR take_bit ?k c"
    by (rule bit_word_eqI) (use assms in \<open>auto simp: bit_simps\<close>)
  moreover have "(gstep p ^^ 8) (take_bit ?k c) = push_bit 8 (take_bit ?k c)"
    by (rule gstep_pow_low) (auto simp: bit_simps)
  moreover have "push_bit 8 (take_bit ?k c) = push_bit 8 c"
    by (rule bit_word_eqI) (auto simp: bit_simps)
  ultimately show ?thesis by (simp add: gstep_pow_linear)
qed

section \<open>The table driven functions\<close>

lemma crc8_shift_gstep: "crc8_shift = gstep"
proof (intro ext)
  fix p w :: u8
  have "(w AND 0x80 \<noteq> 0) = bit w 7" using and_exp_eq_0_iff_not_bit [of w 7] by simp
  then show "crc8_shift p w = gstep p w" by (simp add: crc8_shift_def gstep_def)
qed

lemma crc16_shift_gstep: "crc16_shift = gstep"
proof (intro ext)
  fix p w :: u16
  have "(w AND 0x8000 \<noteq> 0) = bit w 15" using and_exp_eq_0_iff_not_bit [of w 15] by simp
  then show "crc16_shift p w = gstep p w" by (simp add: crc16_shift_def gstep_def)
qed

text \<open>The CRC-24 code keeps its 24 bit register in 32 bits.\<close>

lemma mask_23: "(0x7FFFFF :: u32) = mask 23" and mask_24: "(0xffffff :: u32) = mask 24"
  and mask_16: "(0xffff :: u32) = mask 16" and mask_8: "(0xff :: u32) = mask 8"
  by (simp_all add: mask_eq_exp_minus_1)

lemma crc24_shift_gstep: "ucast (crc24_shift p w) = gstep (ucast p) (ucast w :: 24 word)"
proof -
  have "(w AND 0x800000 \<noteq> 0) = bit w 23" using and_exp_eq_0_iff_not_bit [of w 23] by simp
  moreover have "bit (ucast w :: 24 word) 23 = bit w 23" by (simp add: bit_simps)
  moreover have "ucast (push_bit 1 (w AND 0x7FFFFF)) = (push_bit 1 (ucast w) :: 24 word)"
    by (rule bit_word_eqI) (auto simp: mask_23 bit_simps simp del: push_bit_Suc)
  moreover have "ucast (push_bit 1 w) = (push_bit 1 (ucast w) :: 24 word)"
    by (rule bit_word_eqI) (auto simp: bit_simps simp del: push_bit_Suc)
  ultimately show ?thesis
    by (simp add: crc24_shift_def gstep_def unsigned_xor_eq del: push_bit_Suc)
qed

lemma crc24_pow_gstep:
  "ucast ((crc24_shift p ^^ k) w) = (gstep (ucast p) ^^ k) (ucast w :: 24 word)"
  by (induction k) (simp_all add: crc24_shift_gstep)

text \<open>The index each function computes is the top byte of the register plus the message byte.\<close>

lemma unat_ucast_byte: "unat (ucast (x :: u8) :: u32) = unat x"
proof -
  have "unat x < 4294967296" by (rule less_le_trans [OF unat_u8_less]) simp
  then show ?thesis by (simp add: unsigned_ucast_eq take_bit_nat_eq_self_iff)
qed

lemma crc8_index: "unat (ucast crc XOR ucast b :: u32) = unat (crc XOR b)" for crc b :: u8
  by (simp flip: unsigned_xor_eq add: unat_ucast_byte)

lemma crc16_index:
  "unat ((drop_bit 8 (ucast crc) XOR ucast b) AND (0xff :: u32)) = unat (ucast (drop_bit 8 crc) XOR b)"
  for crc :: u16 and b :: u8
proof -
  have "(drop_bit 8 (ucast crc) XOR ucast b) AND (0xff :: u32) = ucast (ucast (drop_bit 8 crc) XOR b)"
    by (rule bit_word_eqI) (auto simp: mask_8 bit_simps dest: bit_imp_le_length)
  then show ?thesis by (simp only: unat_ucast_byte)
qed

lemma crc24_index:
  "unat ((drop_bit 16 crc XOR ucast b) AND (0xff :: u32)) =
   unat (ucast (drop_bit 16 (ucast crc :: 24 word)) XOR b)" for crc :: u32 and b :: u8
proof -
  have "(drop_bit 16 crc XOR ucast b) AND (0xff :: u32) =
      ucast (ucast (drop_bit 16 (ucast crc :: 24 word)) XOR b)"
    by (rule bit_word_eqI) (auto simp: mask_8 bit_simps dest: bit_imp_le_length)
  then show ?thesis by (simp only: unat_ucast_byte)
qed

lemma crc8_serial:
  "n \<le> length pdata \<Longrightarrow>
   crc8 (map (crc8_entry p) [0..<256] @ rest) pdata n crc = Some (serial_crc p crc (take n pdata))"
proof (induction "map (crc8_entry p) [0..<256] @ rest" pdata n crc rule: crc8.induct)
  case (3 b pdata n crc)
  let ?t = "map (crc8_entry p) [0..<256] @ rest" and ?i = "unat (crc XOR b)"
  have e: "?t ! ?i = (gstep p ^^ 8) (crc XOR b)"
    by (simp add: nth_append crc8_entry_def crc8_shift_gstep del: funpow.simps)
  have "(gstep p ^^ 8) (crc XOR b) = (gstep p ^^ 8) (crc XOR push_bit (LENGTH(8) - 8) (ucast b))"
    by simp
  moreover have "ucast ((ucast x :: u32) AND 0xff) = x" for x :: u8
    by (rule bit_word_eqI) (auto simp: mask_8 bit_simps)
  moreover have "?i < length ?t" by (rule less_le_trans [OF unat_u8_less]) simp
  ultimately show ?case
    using 3 by (simp add: crc8_index e serial_crc_Cons Let_def del: funpow.simps map_append)
qed simp_all

lemma crc16_serial:
  "n \<le> length pdata \<Longrightarrow>
   crc16 (map (crc16_entry p) [0..<256] @ rest) pdata n crc = Some (serial_crc p crc (take n pdata))"
proof (induction "map (crc16_entry p) [0..<256] @ rest" pdata n crc rule: crc16.induct)
  case (3 b pdata n crc)
  let ?t = "map (crc16_entry p) [0..<256] @ rest"
  let ?x = "ucast (drop_bit 8 crc) XOR b" and ?s = "push_bit (LENGTH(16) - 8) (ucast b) :: u16"
  have "ucast (push_bit 8 (of_nat (unat ?x) :: u32)) = (push_bit 8 (ucast ?x) :: u16)"
    by (rule bit_word_eqI) (auto simp: bit_simps)
  then have e: "?t ! unat ?x = (gstep p ^^ 8) (push_bit 8 (ucast ?x))"
    by (simp add: nth_append crc16_entry_def crc16_shift_gstep del: funpow.simps)
  have "ucast ((ucast x XOR push_bit 8 (ucast crc)) AND (0xffff :: u32)) = x XOR push_bit 8 crc" for x :: u16
    by (rule bit_word_eqI) (auto simp: mask_16 bit_simps)
  moreover have "unat ?x < length ?t" by (rule less_le_trans [OF unat_u8_less]) simp
  moreover have "(gstep p ^^ 8) (crc XOR ?s) = (gstep p ^^ 8) (push_bit 8 (ucast ?x)) XOR push_bit 8 crc"
    using gstep_table [of p crc b] by (simp del: funpow.simps)
  ultimately show ?case
    using 3 by (simp add: crc16_index e serial_crc_Cons Let_def del: funpow.simps map_append)
qed simp_all

lemma crc24_loop_serial:
  "n \<le> length pdata \<Longrightarrow>
   \<exists>r. crc24_loop (map (crc24_entry p) [0..<256] @ rest) pdata n crc = Some r \<and>
     ucast r = serial_crc (ucast p :: 24 word) (ucast crc) (take n pdata)"
proof (induction "map (crc24_entry p) [0..<256] @ rest" pdata n crc rule: crc24_loop.induct)
  case (3 b pdata n crc)
  let ?t = "map (crc24_entry p) [0..<256] @ rest" and ?c = "ucast crc :: 24 word"
  let ?x = "ucast (drop_bit 16 ?c) XOR b" and ?q = "ucast p :: 24 word"
  let ?s = "push_bit (LENGTH(24) - 8) (ucast b) :: 24 word"
  have "ucast (push_bit 16 (of_nat (unat ?x) :: u32)) = (push_bit 16 (ucast ?x) :: 24 word)"
    by (rule bit_word_eqI) (auto simp: bit_simps)
  then have "ucast (crc24_entry p (unat ?x)) = (gstep ?q ^^ 8) (push_bit 16 (ucast ?x))"
    by (simp add: crc24_entry_def crc24_pow_gstep del: funpow.simps)
  then have e: "ucast (?t ! unat ?x) = (gstep ?q ^^ 8) (push_bit 16 (ucast ?x))"
    by (simp add: nth_append del: funpow.simps)
  have "ucast ((x XOR push_bit 8 crc) AND 0xffffff) = ucast x XOR push_bit 8 ?c" for x
    by (rule bit_word_eqI) (auto simp: mask_24 bit_simps)
  moreover have "unat ?x < length ?t" by (rule less_le_trans [OF unat_u8_less]) simp
  moreover have "(gstep ?q ^^ 8) (?c XOR ?s) = (gstep ?q ^^ 8) (push_bit 16 (ucast ?x)) XOR push_bit 8 ?c"
    using gstep_table [of ?q ?c b] by (simp del: funpow.simps)
  ultimately show ?case
    using 3 by (simp add: crc24_index e serial_crc_Cons Let_def del: funpow.simps map_append)
qed simp_all

lemma crc24_serial:
  assumes "n \<le> length pdata"
  shows "crc24 (map (crc24_entry p) [0..<256] @ rest) pdata n crc =
    Some (ucast (serial_crc (ucast p :: 24 word) (ucast crc) (take n pdata)))"
proof -
  obtain r where r: "crc24_loop (map (crc24_entry p) [0..<256] @ rest) pdata n crc = Some r"
    "ucast r = serial_crc (ucast p :: 24 word) (ucast crc) (take n pdata)"
    using crc24_loop_serial [OF assms] by blast
  have "r AND 0xffffff = ucast (ucast r :: 24 word)"
    by (rule bit_word_eqI) (auto simp: mask_24 bit_simps)
  with r show ?thesis by (simp add: crc24_def)
qed

section \<open>Properties\<close>

text \<open>
  C17. With the table its populate function makes, each of crc8, crc16 and crc24 computes the
  CRC of the serial shift register with the same polynomial and initial value, for every
  polynomial and message (for CRC-24 the register is the low 24 bits of the arguments).
\<close>

theorem crc_table_driven_is_serial:
  assumes "n \<le> length pdata"
    "crc8_populate_msb (Some t8) p8 = Some (Some t8')"
    "crc16_populate_msb (Some t16) p16 = Some (Some t16')"
    "crc24_populate_msb (Some t24) p24 = Some (Some t24')"
  shows "crc8 t8' pdata n c8 = Some (serial_crc p8 c8 (take n pdata)) \<and>
    crc16 t16' pdata n c16 = Some (serial_crc p16 c16 (take n pdata)) \<and>
    crc24 t24' pdata n c24 =
      Some (ucast (serial_crc (ucast p24 :: 24 word) (ucast c24) (take n pdata)))"
proof -
  obtain r8 where "t8' = map (crc8_entry p8) [0..<256] @ r8"
    using assms(2) by (auto simp: crc8_populate_msb_def)
  moreover obtain r16 where "t16' = map (crc16_entry p16) [0..<256] @ r16"
    using assms(3) by (auto simp: crc16_populate_msb_def)
  moreover obtain r24 where "t24' = map (crc24_entry p24) [0..<256] @ r24"
    using assms(4) by (auto simp: crc24_populate_msb_def)
  ultimately show ?thesis
    using crc8_serial crc16_serial crc24_serial assms(1) by auto
qed

theorem crc_table_driven_is_serial_witness:
  "\<exists>t. crc8_populate_msb (Some (replicate 256 0)) 7 = Some (Some t) \<and>
     crc8 t [0x31, 0x32] 2 0 = Some (serial_crc 7 0 [0x31, 0x32])"
  using crc_table_driven_is_serial [of 2 "[0x31, 0x32]" "replicate 256 0" 7 _ "replicate 256 0" 1 _
      "replicate 256 0" 1 _ 0 0 0]
  by (simp add: crc8_populate_msb_def crc16_populate_msb_def crc24_populate_msb_def)

text \<open>
  Calls cascade as the documentation says: the CRC of a message is the CRC of its second
  part started from the CRC of its first part.
\<close>

theorem crc_cascade:
  "crc8 t8 (xs @ ys) (length xs + n) c8 = Option.bind (crc8 t8 xs (length xs) c8) (crc8 t8 ys n) \<and>
   crc16 t16 (xs @ ys) (length xs + n) c16 =
     Option.bind (crc16 t16 xs (length xs) c16) (crc16 t16 ys n)"
proof
  show "crc8 t8 (xs @ ys) (length xs + n) c8 = Option.bind (crc8 t8 xs (length xs) c8) (crc8 t8 ys n)"
    by (induction xs arbitrary: c8) (auto simp: Let_def guard_def)
  show "crc16 t16 (xs @ ys) (length xs + n) c16 =
      Option.bind (crc16 t16 xs (length xs) c16) (crc16 t16 ys n)"
    by (induction xs arbitrary: c16) (auto simp: Let_def guard_def)
qed

end
