(* ===== verification/Peripherals.thy ===== *)
theory Peripherals
  imports NoOS_Prelude
begin

text \<open>
  The platform independent peripheral layers: drivers/gpio/gpio.c, drivers/spi/spi.c,
  drivers/i2c/i2c.c and util/clk.c. Each calls through a table of function pointers that a
  platform driver supplies. The functions of the table are parameters of the model: record
  fields that take and return the state \<open>'h\<close> of the hardware and of the memory the driver
  works on, with the int32_t code they return. What a descriptor holds besides the table is
  the business of the platform (\<open>'d\<close>), as is the rest of the init parameters (\<open>'p\<close>).
\<close>

section \<open>gpio.c\<close>

record ('p, 'd, 'h) gpio_platform_ops =
  gpio_ops_get :: "int \<Rightarrow> 'p \<Rightarrow> 'h \<Rightarrow> int \<times> 'd option \<times> 'h"
  gpio_ops_get_optional :: "int \<Rightarrow> 'p \<Rightarrow> 'h \<Rightarrow> int \<times> 'd option \<times> 'h"
  gpio_ops_remove :: "'d \<Rightarrow> 'h \<Rightarrow> int \<times> 'h"
  gpio_ops_direction_input :: "'d \<Rightarrow> 'h \<Rightarrow> int \<times> 'h"
  gpio_ops_direction_output :: "'d \<Rightarrow> u8 \<Rightarrow> 'h \<Rightarrow> int \<times> 'h"
  gpio_ops_get_direction :: "'d \<Rightarrow> 'h \<Rightarrow> int \<times> u8 option \<times> 'h"
  gpio_ops_set_value :: "'d \<Rightarrow> u8 \<Rightarrow> 'h \<Rightarrow> int \<times> 'h"
  gpio_ops_get_value :: "'d \<Rightarrow> 'h \<Rightarrow> int \<times> u8 option \<times> 'h"

record ('p, 'd, 'h) gpio_init_param =
  gpio_number :: int
  gpio_param_ops :: "('p, 'd, 'h) gpio_platform_ops"
  gpio_extra :: 'p

record ('p, 'd, 'h) gpio_desc =
  gpio_dev :: 'd
  gpio_desc_ops :: "('p, 'd, 'h) gpio_platform_ops"

text \<open>
  gpio_get stores the table in the descriptor the platform allocated; a platform that reports
  success without a descriptor would have it write through NULL.
\<close>

definition gpio_get ::
  "('p, 'd, 'h) gpio_init_param option \<Rightarrow> 'h \<Rightarrow> (int \<times> ('p, 'd, 'h) gpio_desc option \<times> 'h) option" where
  "gpio_get param h =
     (case param of
        None \<Rightarrow> Some (FAILURE, None, h)
      | Some pm \<Rightarrow>
          case gpio_ops_get (gpio_param_ops pm) (gpio_number pm) (gpio_extra pm) h of
            (ret, d, h) \<Rightarrow>
              if ret \<noteq> 0 then Some (FAILURE, None, h)
              else do {
                d \<leftarrow> d;
                Some (SUCCESS, Some \<lparr>gpio_dev = d, gpio_desc_ops = gpio_param_ops pm\<rparr>, h)
              })"

definition gpio_get_optional ::
  "('p, 'd, 'h) gpio_init_param option \<Rightarrow> 'h \<Rightarrow> (int \<times> ('p, 'd, 'h) gpio_desc option \<times> 'h) option" where
  "gpio_get_optional param h =
     (case param of
        None \<Rightarrow> Some (SUCCESS, None, h)
      | Some pm \<Rightarrow>
          if gpio_number pm = -1 then Some (SUCCESS, None, h)
          else case gpio_ops_get_optional (gpio_param_ops pm) (gpio_number pm) (gpio_extra pm) h of
            (ret, d, h) \<Rightarrow>
              if ret \<noteq> 0 then Some (FAILURE, None, h)
              else do {
                d \<leftarrow> d;
                Some (SUCCESS, Some \<lparr>gpio_dev = d, gpio_desc_ops = gpio_param_ops pm\<rparr>, h)
              })"

definition gpio_remove :: "('p, 'd, 'h) gpio_desc option \<Rightarrow> 'h \<Rightarrow> int \<times> 'h" where
  "gpio_remove desc h =
     (case desc of Some d \<Rightarrow> gpio_ops_remove (gpio_desc_ops d) (gpio_dev d) h | None \<Rightarrow> (SUCCESS, h))"

definition gpio_direction_input :: "('p, 'd, 'h) gpio_desc option \<Rightarrow> 'h \<Rightarrow> int \<times> 'h" where
  "gpio_direction_input desc h =
     (case desc of Some d \<Rightarrow> gpio_ops_direction_input (gpio_desc_ops d) (gpio_dev d) h
      | None \<Rightarrow> (SUCCESS, h))"

definition gpio_direction_output :: "('p, 'd, 'h) gpio_desc option \<Rightarrow> u8 \<Rightarrow> 'h \<Rightarrow> int \<times> 'h" where
  "gpio_direction_output desc val h =
     (case desc of Some d \<Rightarrow> gpio_ops_direction_output (gpio_desc_ops d) (gpio_dev d) val h
      | None \<Rightarrow> (SUCCESS, h))"

definition gpio_get_direction :: "('p, 'd, 'h) gpio_desc option \<Rightarrow> 'h \<Rightarrow> int \<times> u8 option \<times> 'h" where
  "gpio_get_direction desc h =
     (case desc of Some d \<Rightarrow> gpio_ops_get_direction (gpio_desc_ops d) (gpio_dev d) h
      | None \<Rightarrow> (SUCCESS, None, h))"

definition gpio_set_value :: "('p, 'd, 'h) gpio_desc option \<Rightarrow> u8 \<Rightarrow> 'h \<Rightarrow> int \<times> 'h" where
  "gpio_set_value desc val h =
     (case desc of Some d \<Rightarrow> gpio_ops_set_value (gpio_desc_ops d) (gpio_dev d) val h
      | None \<Rightarrow> (SUCCESS, h))"

definition gpio_get_value :: "('p, 'd, 'h) gpio_desc option \<Rightarrow> 'h \<Rightarrow> int \<times> u8 option \<times> 'h" where
  "gpio_get_value desc h =
     (case desc of Some d \<Rightarrow> gpio_ops_get_value (gpio_desc_ops d) (gpio_dev d) h
      | None \<Rightarrow> (SUCCESS, None, h))"

section \<open>spi.c\<close>

text \<open>Buffers are addresses (\<open>None\<close> is NULL); the bytes they hold are part of \<open>'h\<close>.\<close>

record spi_msg =
  tx_buff :: "nat option"
  rx_buff :: "nat option"
  bytes_number :: u32
  cs_change :: u8

record ('p, 'd, 'h) spi_platform_ops =
  spi_ops_init :: "'p \<Rightarrow> 'h \<Rightarrow> int \<times> 'd option \<times> 'h"
  spi_ops_write_and_read :: "'d \<Rightarrow> nat option \<Rightarrow> u16 \<Rightarrow> 'h \<Rightarrow> int \<times> 'h"
  spi_ops_transfer :: "('d \<Rightarrow> spi_msg list \<Rightarrow> u32 \<Rightarrow> 'h \<Rightarrow> int \<times> 'h) option"
  spi_ops_remove :: "'d \<Rightarrow> 'h \<Rightarrow> int \<times> 'h"

record ('p, 'd, 'h) spi_init_param =
  spi_param_ops :: "('p, 'd, 'h) spi_platform_ops"
  spi_param :: 'p

record ('p, 'd, 'h) spi_desc =
  spi_dev :: 'd
  spi_desc_ops :: "('p, 'd, 'h) spi_platform_ops option"

definition spi_init ::
  "('p, 'd, 'h) spi_init_param option \<Rightarrow> 'h \<Rightarrow> (int \<times> ('p, 'd, 'h) spi_desc option \<times> 'h) option" where
  "spi_init param h =
     (case param of
        None \<Rightarrow> Some (FAILURE, None, h)
      | Some pm \<Rightarrow>
          case spi_ops_init (spi_param_ops pm) (spi_param pm) h of
            (ret, d, h) \<Rightarrow>
              if ret \<noteq> 0 then Some (FAILURE, None, h)
              else do {
                d \<leftarrow> d;
                Some (SUCCESS, Some \<lparr>spi_dev = d, spi_desc_ops = Some (spi_param_ops pm)\<rparr>, h)
              })"

definition spi_remove :: "('p, 'd, 'h) spi_desc option \<Rightarrow> 'h \<Rightarrow> (int \<times> 'h) option" where
  "spi_remove desc h = do {
     d \<leftarrow> desc;
     ops \<leftarrow> spi_desc_ops d;
     Some (spi_ops_remove ops (spi_dev d) h)
   }"

definition spi_write_and_read ::
  "('p, 'd, 'h) spi_desc option \<Rightarrow> nat option \<Rightarrow> u16 \<Rightarrow> 'h \<Rightarrow> (int \<times> 'h) option" where
  "spi_write_and_read desc data n h = do {
     d \<leftarrow> desc;
     ops \<leftarrow> spi_desc_ops d;
     Some (spi_ops_write_and_read ops (spi_dev d) data n h)
   }"

text \<open>
  The loop of spi_transfer over the messages left, \<open>n\<close> of them. The uint32_t count of a
  message is passed as the uint16_t parameter of spi_write_and_read.
\<close>

fun spi_transfer_loop ::
  "('p, 'd, 'h) spi_desc option \<Rightarrow> spi_msg list \<Rightarrow> nat \<Rightarrow> 'h \<Rightarrow> (int \<times> 'h) option" where
  "spi_transfer_loop desc msgs 0 h = Some (SUCCESS, h)"
| "spi_transfer_loop desc [] (Suc n) h = None"
| "spi_transfer_loop desc (m # msgs) (Suc n) h =
     (if rx_buff m \<noteq> tx_buff m \<or> tx_buff m = None then Some (- EINVAL, h)
      else do {
        (ret, h) \<leftarrow> spi_write_and_read desc (rx_buff m) (ucast (bytes_number m)) h;
        if IS_ERR_VALUE ret then Some (ret, h) else spi_transfer_loop desc msgs n h
      })"

definition spi_transfer ::
  "('p, 'd, 'h) spi_desc option \<Rightarrow> spi_msg list \<Rightarrow> u32 \<Rightarrow> 'h \<Rightarrow> (int \<times> 'h) option" where
  "spi_transfer desc msgs n h =
     (case desc of
        None \<Rightarrow> Some (- EINVAL, h)
      | Some d \<Rightarrow> (case spi_desc_ops d of
          None \<Rightarrow> Some (- EINVAL, h)
        | Some ops \<Rightarrow> (case spi_ops_transfer ops of
            Some transfer \<Rightarrow> Some (transfer (spi_dev d) msgs n h)
          | None \<Rightarrow> spi_transfer_loop desc msgs (unat n) h)))"

section \<open>i2c.c\<close>

record ('p, 'd, 'h) i2c_platform_ops =
  i2c_ops_init :: "'p \<Rightarrow> 'h \<Rightarrow> int \<times> 'd option \<times> 'h"
  i2c_ops_write :: "'d \<Rightarrow> u8 list \<Rightarrow> u8 \<Rightarrow> u8 \<Rightarrow> 'h \<Rightarrow> int \<times> 'h"
  i2c_ops_read :: "'d \<Rightarrow> u8 \<Rightarrow> u8 \<Rightarrow> 'h \<Rightarrow> int \<times> u8 list \<times> 'h"
  i2c_ops_remove :: "'d \<Rightarrow> 'h \<Rightarrow> int \<times> 'h"

record ('p, 'd, 'h) i2c_init_param =
  i2c_param_ops :: "('p, 'd, 'h) i2c_platform_ops"
  i2c_param :: 'p

record ('p, 'd, 'h) i2c_desc =
  i2c_dev :: 'd
  i2c_desc_ops :: "('p, 'd, 'h) i2c_platform_ops"

definition i2c_init ::
  "('p, 'd, 'h) i2c_init_param option \<Rightarrow> 'h \<Rightarrow> (int \<times> ('p, 'd, 'h) i2c_desc option \<times> 'h) option" where
  "i2c_init param h =
     (case param of
        None \<Rightarrow> Some (FAILURE, None, h)
      | Some pm \<Rightarrow>
          case i2c_ops_init (i2c_param_ops pm) (i2c_param pm) h of
            (ret, d, h) \<Rightarrow>
              if ret \<noteq> 0 then Some (FAILURE, None, h)
              else do {
                d \<leftarrow> d;
                Some (SUCCESS, Some \<lparr>i2c_dev = d, i2c_desc_ops = i2c_param_ops pm\<rparr>, h)
              })"

definition i2c_remove :: "('p, 'd, 'h) i2c_desc option \<Rightarrow> 'h \<Rightarrow> (int \<times> 'h) option" where
  "i2c_remove desc h = do {
     d \<leftarrow> desc;
     Some (i2c_ops_remove (i2c_desc_ops d) (i2c_dev d) h)
   }"

definition i2c_write ::
  "('p, 'd, 'h) i2c_desc option \<Rightarrow> u8 list \<Rightarrow> u8 \<Rightarrow> u8 \<Rightarrow> 'h \<Rightarrow> (int \<times> 'h) option" where
  "i2c_write desc data n stop_bit h = do {
     d \<leftarrow> desc;
     Some (i2c_ops_write (i2c_desc_ops d) (i2c_dev d) data n stop_bit h)
   }"

definition i2c_read ::
  "('p, 'd, 'h) i2c_desc option \<Rightarrow> u8 \<Rightarrow> u8 \<Rightarrow> 'h \<Rightarrow> (int \<times> u8 list \<times> 'h) option" where
  "i2c_read desc n stop_bit h = do {
     d \<leftarrow> desc;
     Some (i2c_ops_read (i2c_desc_ops d) (i2c_dev d) n stop_bit h)
   }"

section \<open>clk.c\<close>

text \<open>A clock provider may leave any of its function pointers NULL.\<close>

record ('d, 'h) clk_hw =
  clk_dev :: 'd
  dev_clk_enable :: "('d \<Rightarrow> 'h \<Rightarrow> int \<times> 'h) option"
  dev_clk_disable :: "('d \<Rightarrow> 'h \<Rightarrow> int \<times> 'h) option"
  dev_clk_recalc_rate :: "('d \<Rightarrow> u32 \<Rightarrow> 'h \<Rightarrow> int \<times> u64 option \<times> 'h) option"
  dev_clk_set_rate :: "('d \<Rightarrow> u32 \<Rightarrow> u64 \<Rightarrow> 'h \<Rightarrow> int \<times> 'h) option"
  dev_clk_round_rate :: "('d \<Rightarrow> u32 \<Rightarrow> u64 \<Rightarrow> 'h \<Rightarrow> int \<times> u64 option \<times> 'h) option"

record ('d, 'h) clk =
  clk_hw :: "('d, 'h) clk_hw"
  hw_ch_num :: u32

definition clk_enable :: "('d, 'h) clk \<Rightarrow> 'h \<Rightarrow> int \<times> 'h" where
  "clk_enable c h = (case dev_clk_enable (clk_hw c) of
     Some f \<Rightarrow> f (clk_dev (clk_hw c)) h | None \<Rightarrow> (FAILURE, h))"

definition clk_disable :: "('d, 'h) clk \<Rightarrow> 'h \<Rightarrow> int \<times> 'h" where
  "clk_disable c h = (case dev_clk_disable (clk_hw c) of
     Some f \<Rightarrow> f (clk_dev (clk_hw c)) h | None \<Rightarrow> (FAILURE, h))"

definition clk_recalc_rate :: "('d, 'h) clk \<Rightarrow> 'h \<Rightarrow> int \<times> u64 option \<times> 'h" where
  "clk_recalc_rate c h = (case dev_clk_recalc_rate (clk_hw c) of
     Some f \<Rightarrow> f (clk_dev (clk_hw c)) (hw_ch_num c) h | None \<Rightarrow> (FAILURE, None, h))"

definition clk_round_rate :: "('d, 'h) clk \<Rightarrow> u64 \<Rightarrow> 'h \<Rightarrow> int \<times> u64 option \<times> 'h" where
  "clk_round_rate c rate h = (case dev_clk_round_rate (clk_hw c) of
     Some f \<Rightarrow> f (clk_dev (clk_hw c)) (hw_ch_num c) rate h | None \<Rightarrow> (FAILURE, None, h))"

definition clk_set_rate :: "('d, 'h) clk \<Rightarrow> u64 \<Rightarrow> 'h \<Rightarrow> int \<times> 'h" where
  "clk_set_rate c rate h = (case dev_clk_set_rate (clk_hw c) of
     Some f \<Rightarrow> f (clk_dev (clk_hw c)) (hw_ch_num c) rate h | None \<Rightarrow> (FAILURE, h))"

section \<open>Properties\<close>

text \<open>\<open>spi_sent ops d ms h h'\<close>: the messages went out one after the other, each without an error.\<close>

definition spi_msg_ok :: "spi_msg \<Rightarrow> bool" where
  "spi_msg_ok m \<longleftrightarrow> rx_buff m = tx_buff m \<and> tx_buff m \<noteq> None"

inductive spi_sent ::
  "('p, 'd, 'h) spi_platform_ops \<Rightarrow> 'd \<Rightarrow> spi_msg list \<Rightarrow> 'h \<Rightarrow> 'h \<Rightarrow> bool" where
  none: "spi_sent ops d [] h h"
| one: "spi_msg_ok m \<Longrightarrow>
    spi_ops_write_and_read ops d (rx_buff m) (ucast (bytes_number m)) h = (ret, h1) \<Longrightarrow> 0 \<le> ret \<Longrightarrow>
    spi_sent ops d ms h1 h2 \<Longrightarrow> spi_sent ops d (m # ms) h h2"

inductive_cases spi_sent_ConsE: "spi_sent ops d (m # ms) h h'"

lemma spi_transfer_loop_spec:
  assumes "n \<le> length msgs" "spi_desc_ops d = Some ops"
  shows "\<exists>r h'. spi_transfer_loop (Some d) msgs n h = Some (r, h') \<and>
    (r = SUCCESS \<and> spi_sent ops (spi_dev d) (take n msgs) h h' \<or>
     (\<exists>k hk. k < n \<and> spi_sent ops (spi_dev d) (take k msgs) h hk \<and>
       (\<not> spi_msg_ok (msgs ! k) \<and> r = - EINVAL \<and> h' = hk \<or>
        spi_msg_ok (msgs ! k) \<and> r < 0 \<and>
        spi_ops_write_and_read ops (spi_dev d) (rx_buff (msgs ! k)) (ucast (bytes_number (msgs ! k))) hk =
          (r, h'))))"
  using assms(1)
proof (induction n arbitrary: msgs h)
  case 0
  then show ?case by (simp add: spi_sent.none)
next
  case (Suc n)
  then obtain m ms where ms: "msgs = m # ms" by (cases msgs) auto
  obtain ret h1 where w: "spi_ops_write_and_read ops (spi_dev d) (rx_buff m) (ucast (bytes_number m)) h =
      (ret, h1)" by force
  show ?case
  proof (cases "spi_msg_ok m \<and> 0 \<le> ret")
    case False
    then show ?thesis
      using ms w assms(2) spi_sent.none
      by (intro exI [of _ "if spi_msg_ok m then ret else - EINVAL"] exI [of _ "if spi_msg_ok m then h1 else h"])
        (auto simp: spi_msg_ok_def spi_write_and_read_def intro!: exI [of _ 0] spi_sent.none)
  next
    case True
    obtain r h' where IH: "spi_transfer_loop (Some d) ms n h1 = Some (r, h')"
      "r = SUCCESS \<and> spi_sent ops (spi_dev d) (take n ms) h1 h' \<or>
       (\<exists>k hk. k < n \<and> spi_sent ops (spi_dev d) (take k ms) h1 hk \<and>
         (\<not> spi_msg_ok (ms ! k) \<and> r = - EINVAL \<and> h' = hk \<or>
          spi_msg_ok (ms ! k) \<and> r < 0 \<and>
          spi_ops_write_and_read ops (spi_dev d) (rx_buff (ms ! k)) (ucast (bytes_number (ms ! k))) hk =
            (r, h')))"
      using Suc.IH [of ms h1] Suc.prems ms by auto
    have step: "spi_sent ops (spi_dev d) (m # us) h h2" if "spi_sent ops (spi_dev d) us h1 h2" for us h2
      using True w that by (blast intro: spi_sent.one)
    have "spi_transfer_loop (Some d) msgs (Suc n) h = Some (r, h')"
      using True ms w assms(2) IH(1) by (auto simp: spi_msg_ok_def spi_write_and_read_def)
    moreover from IH(2) consider "r = SUCCESS" "spi_sent ops (spi_dev d) (take n ms) h1 h'"
      | k hk where "k < n" "spi_sent ops (spi_dev d) (take k ms) h1 hk"
        "\<not> spi_msg_ok (ms ! k) \<and> r = - EINVAL \<and> h' = hk \<or> spi_msg_ok (ms ! k) \<and> r < 0 \<and>
          spi_ops_write_and_read ops (spi_dev d) (rx_buff (ms ! k)) (ucast (bytes_number (ms ! k))) hk =
            (r, h')" by blast
    then have "r = SUCCESS \<and> spi_sent ops (spi_dev d) (take (Suc n) msgs) h h' \<or>
     (\<exists>k hk. k < Suc n \<and> spi_sent ops (spi_dev d) (take k msgs) h hk \<and>
       (\<not> spi_msg_ok (msgs ! k) \<and> r = - EINVAL \<and> h' = hk \<or>
        spi_msg_ok (msgs ! k) \<and> r < 0 \<and>
        spi_ops_write_and_read ops (spi_dev d) (rx_buff (msgs ! k)) (ucast (bytes_number (msgs ! k))) hk =
          (r, h')))"
    proof cases
      case 1
      then show ?thesis using step [of "take n ms" h'] ms by simp
    next
      case (2 k hk)
      then show ?thesis using step [of "take k ms" hk] ms by (intro disjI2 exI [of _ "Suc k"] exI [of _ hk]) simp
    qed
    ultimately show ?thesis by blast
  qed
qed

lemma spi_sent_ok: "spi_sent ops d ms h h' \<Longrightarrow> m \<in> set ms \<Longrightarrow> spi_msg_ok m"
  by (induction rule: spi_sent.induct) auto

text \<open>
  C28. spi_transfer rejects messages that spi.h documents as legal. The header says that a NULL
  tx_buff sends 0x00 and that a NULL rx_buff discards what comes in; the code sends a message
  only when both buffers are the same pointer and not NULL. A platform with a transfer function of
  its own gets the call unchanged. Without one, the messages go out in order, each with its
  count modulo 2^16, up to the first one with a NULL buffer or with two different buffers,
  for which -EINVAL is returned and the hardware not touched, or up to the first one the platform
  fails, with the error of the platform; the later ones are not sent. SUCCESS means that all
  went out, so that messages with a documented NULL buffer among them always make the call fail.
\<close>

theorem spi_transfer_stops_at_first_error:
  assumes "spi_desc_ops d = Some ops" "unat n \<le> length msgs"
  shows "(\<forall>f. spi_ops_transfer ops = Some f \<longrightarrow> spi_transfer (Some d) msgs n h = Some (f (spi_dev d) msgs n h))
    \<and> (spi_ops_transfer ops = None \<longrightarrow> (\<exists>r h'. spi_transfer (Some d) msgs n h = Some (r, h')
        \<and> (r = SUCCESS \<and> spi_sent ops (spi_dev d) (take (unat n) msgs) h h' \<or>
           (\<exists>k hk. k < unat n \<and> spi_sent ops (spi_dev d) (take k msgs) h hk \<and>
             ((tx_buff (msgs ! k) = None \<or> rx_buff (msgs ! k) = None \<or> rx_buff (msgs ! k) \<noteq> tx_buff (msgs ! k))
                \<and> r = - EINVAL \<and> h' = hk \<or>
              rx_buff (msgs ! k) = tx_buff (msgs ! k) \<and> tx_buff (msgs ! k) \<noteq> None \<and> r < 0 \<and>
                spi_ops_write_and_read ops (spi_dev d) (rx_buff (msgs ! k)) (ucast (bytes_number (msgs ! k))) hk = (r, h'))))
        \<and> ((\<exists>m \<in> set (take (unat n) msgs). tx_buff m = None \<or> rx_buff m = None) \<longrightarrow> r < 0)))"
proof -
  obtain r h' where r: "spi_transfer_loop (Some d) msgs (unat n) h = Some (r, h')"
    "r = SUCCESS \<and> spi_sent ops (spi_dev d) (take (unat n) msgs) h h' \<or>
     (\<exists>k hk. k < unat n \<and> spi_sent ops (spi_dev d) (take k msgs) h hk \<and>
       (\<not> spi_msg_ok (msgs ! k) \<and> r = - EINVAL \<and> h' = hk \<or>
        spi_msg_ok (msgs ! k) \<and> r < 0 \<and>
        spi_ops_write_and_read ops (spi_dev d) (rx_buff (msgs ! k)) (ucast (bytes_number (msgs ! k))) hk = (r, h')))"
    using spi_transfer_loop_spec [OF assms(2,1), of h] by blast
  have ok: "(\<not> spi_msg_ok m) = (tx_buff m = None \<or> rx_buff m = None \<or> rx_buff m \<noteq> tx_buff m)"
    "spi_msg_ok m = (rx_buff m = tx_buff m \<and> tx_buff m \<noteq> None)" for m by (auto simp: spi_msg_ok_def)
  have "r = SUCCESS \<and> (\<forall>m \<in> set (take (unat n) msgs). spi_msg_ok m) \<or> r < 0"
    using r(2) by (auto dest: spi_sent_ok)
  then have "(\<exists>m \<in> set (take (unat n) msgs). tx_buff m = None \<or> rx_buff m = None) \<longrightarrow> r < 0"
    using ok(1) by blast
  moreover have "spi_transfer (Some d) msgs n h = Some (r, h')" if "spi_ops_transfer ops = None"
    using that assms(1) r(1) by (simp add: spi_transfer_def)
  moreover have "spi_transfer (Some d) msgs n h = Some (f (spi_dev d) msgs n h)" if "spi_ops_transfer ops = Some f" for f
    using that assms(1) by (simp add: spi_transfer_def)
  ultimately show ?thesis using r(2) [unfolded ok(1), unfolded ok(2)] by blast
qed

text \<open>A platform that logs the transfers it is asked for and refuses more than 4 bytes.\<close>

definition spi_log_ops :: "(unit, unit, (nat option \<times> u16) list) spi_platform_ops" where
  "spi_log_ops = \<lparr>spi_ops_init = (\<lambda>_ h. (0, Some (), h)),
     spi_ops_write_and_read = (\<lambda>_ b n h. if 4 < n then (- EINVAL, h) else (0, h @ [(b, n)])),
     spi_ops_transfer = None, spi_ops_remove = (\<lambda>_ h. (0, h))\<rparr>"

definition spi_log_desc :: "(unit, unit, (nat option \<times> u16) list) spi_desc" where
  "spi_log_desc = \<lparr>spi_dev = (), spi_desc_ops = Some spi_log_ops\<rparr>"

theorem spi_transfer_stops_at_first_error_witness:
  "\<exists>r h'. spi_transfer (Some spi_log_desc) [\<lparr>tx_buff = Some 1, rx_buff = Some 1, bytes_number = 2, cs_change = 0\<rparr>,
      \<lparr>tx_buff = Some 1, rx_buff = None, bytes_number = 2, cs_change = 0\<rparr>] 2 [] = Some (r, h') \<and> r = - EINVAL"
proof -
  let ?m = "\<lparr>tx_buff = Some 1, rx_buff = Some 1, bytes_number = 2, cs_change = 0\<rparr>"
    and ?w = "\<lparr>tx_buff = Some 1, rx_buff = None, bytes_number = 2, cs_change = 0\<rparr>"
  have pre: "spi_desc_ops spi_log_desc = Some spi_log_ops" "unat (2 :: u32) \<le> length [?m, ?w]"
    and none: "spi_ops_transfer spi_log_ops = None" by (simp_all add: spi_log_desc_def spi_log_ops_def)
  have "\<exists>m \<in> set (take (unat (2 :: u32)) [?m, ?w]). tx_buff m = None \<or> rx_buff m = None" by simp
  then obtain r h' where "spi_transfer (Some spi_log_desc) [?m, ?w] 2 [] = Some (r, h')" "r < 0"
    using spi_transfer_stops_at_first_error [OF pre, of "[]"] none by blast
  moreover have "unat (2 :: u32) = Suc (Suc 0)" by simp
  then have "spi_transfer (Some spi_log_desc) [?m, ?w] 2 [] = Some (- EINVAL, [(Some 1, 2)])"
    by (simp only: spi_transfer_def spi_log_desc_def option.case spi_desc.select_convs)
      (simp add: spi_log_ops_def spi_write_and_read_def word_less_nat_alt)
  ultimately show ?thesis by auto
qed

text \<open>
  The byte count of a message is truncated to 16 bits on its way to the platform: a message
  of 65536 bytes is transferred as one of 0 bytes, and reported as sent.
\<close>

theorem spi_transfer_truncates_count:
  assumes "spi_desc_ops d = Some ops" "spi_ops_transfer ops = None"
    "spi_ops_write_and_read ops (spi_dev d) (Some b) 0 h = (0, h')"
  shows "spi_transfer (Some d)
    [\<lparr>tx_buff = Some b, rx_buff = Some b, bytes_number = 0x10000, cs_change = cs\<rparr>] 1 h = Some (SUCCESS, h')"
proof -
  have "(ucast (0x10000 :: u32) :: u16) = 0" by code_simp
  then have "spi_ops_write_and_read ops (spi_dev d) (Some b) (ucast (0x10000 :: u32)) h = (0, h')"
    using assms(3) by (simp only:)
  with assms(1,2) show ?thesis
    by (simp add: spi_transfer_def spi_write_and_read_def)
qed

theorem spi_transfer_truncates_count_witness:
  "spi_transfer (Some spi_log_desc)
    [\<lparr>tx_buff = Some 1, rx_buff = Some 1, bytes_number = 0x10000, cs_change = 0\<rparr>] 1 [] =
   Some (SUCCESS, [(Some 1, 0)])"
  by (rule spi_transfer_truncates_count [where ops = spi_log_ops]) (simp_all add: spi_log_desc_def spi_log_ops_def)

text \<open>
  An optional pin that is not there: gpio_get_optional succeeds with no descriptor and
  every operation on it succeeds without touching the hardware.
\<close>

theorem gpio_optional_absent:
  "(\<exists>desc. gpio_get_optional (Some (pm\<lparr>gpio_number := -1\<rparr>)) h = Some (SUCCESS, desc, h) \<and>
     gpio_set_value desc v h = (SUCCESS, h) \<and> gpio_direction_output desc v h = (SUCCESS, h) \<and>
     gpio_direction_input desc h = (SUCCESS, h) \<and> gpio_get_value desc h = (SUCCESS, None, h) \<and>
     gpio_get_direction desc h = (SUCCESS, None, h) \<and> gpio_remove desc h = (SUCCESS, h)) \<and>
   gpio_get (None :: ('p, 'd, 'h) gpio_init_param option) h = Some (FAILURE, None, h)"
  by (simp add: gpio_get_optional_def gpio_set_value_def gpio_direction_output_def
      gpio_direction_input_def gpio_get_value_def gpio_get_direction_def gpio_remove_def gpio_get_def)

end
