(* ===== verification/CStdlib.thy ===== *)
theory CStdlib
  imports Util
begin

text \<open>
  The parts of the C library the sources use on strings: strcmp, the conversions of printf
  and scanf, strtol and strtoul, strtok. A C string is the list of its characters before the
  terminator. Types have the widths of the 32 bit targets (long is 32 bits), so strtol
  saturates at 2^31 - 1.

  With them, the two string conversions of util/util.c.
\<close>

section \<open>Definitions\<close>

definition cstr :: "string \<Rightarrow> bool" where
  "cstr s \<longleftrightarrow> CHR 0x00 \<notin> set s"

fun strcmp :: "string \<Rightarrow> string \<Rightarrow> int" where
  "strcmp [] [] = 0"
| "strcmp [] (d # ds) = - of_char d"
| "strcmp (c # cs) [] = of_char c"
| "strcmp (c # cs) (d # ds) = (if c = d then strcmp cs ds else of_char c - of_char d)"

definition isspace :: "char \<Rightarrow> bool" where
  "isspace c \<longleftrightarrow> c \<in> {CHR '' '', CHR 0x09, CHR 0x0A, CHR 0x0B, CHR 0x0C, CHR 0x0D}"

subsection \<open>Printing\<close>

definition digit_char :: "nat \<Rightarrow> char" where
  "digit_char d = char_of (48 + d)"

fun show_nat :: "nat \<Rightarrow> string" where
  "show_nat n = (if n < 10 then [digit_char n] else show_nat (n div 10) @ [digit_char (n mod 10)])"

declare show_nat.simps [simp del]

text \<open>%d, and %0wu of an argument that is passed as an int.\<close>

definition show_int :: "int \<Rightarrow> string" where
  "show_int i = (if i < 0 then CHR ''-'' # show_nat (nat (- i)) else show_nat (nat i))"

definition show_unsigned :: "nat \<Rightarrow> int \<Rightarrow> string" where
  "show_unsigned w i = (let s = show_nat (nat (i mod 2 ^ 32)) in replicate (w - length s) CHR ''0'' @ s)"

text \<open>
  snprintf of the formatted text into a buffer of \<open>len\<close> bytes: the length of the whole text,
  and the string left in the buffer (none is stored when \<open>len\<close> is 0).
\<close>

definition snprintf :: "nat \<Rightarrow> string \<Rightarrow> nat \<times> string option" where
  "snprintf len text = (length text, if len = 0 then None else Some (take (len - 1) text))"

subsection \<open>Reading numbers\<close>

definition digit_val :: "char \<Rightarrow> nat option" where
  "digit_val c = (let n = of_char c :: nat in
     if 48 \<le> n \<and> n < 58 then Some (n - 48)
     else if 97 \<le> n \<and> n < 123 then Some (n - 87)
     else if 65 \<le> n \<and> n < 91 then Some (n - 55)
     else None)"

definition is_digit :: "nat \<Rightarrow> char \<Rightarrow> bool" where
  "is_digit base c = (case digit_val c of None \<Rightarrow> False | Some d \<Rightarrow> d < base)"

definition digits_val :: "nat \<Rightarrow> string \<Rightarrow> nat" where
  "digits_val base cs = foldl (\<lambda>v c. v * base + the (digit_val c)) 0 cs"

text \<open>
  The subject sequence of strtol with base 0: spaces, a sign, a prefix that selects the base,
  digits. The result is the sign, the magnitude and the rest of the string, or None when there
  are no digits (and nothing is consumed). A 0x without a hexadecimal digit is the number 0.
\<close>

fun sign_of :: "string \<Rightarrow> bool \<times> string" where
  "sign_of (c # cs) = (if c = CHR ''-'' then (True, cs) else if c = CHR ''+'' then (False, cs)
     else (False, c # cs))"
| "sign_of [] = (False, [])"

fun base_of :: "string \<Rightarrow> nat \<times> string" where
  "base_of (a # b # c # cs) =
     (if a = CHR ''0'' \<and> (b = CHR ''x'' \<or> b = CHR ''X'') \<and> is_digit 16 c then (16, c # cs)
      else if a = CHR ''0'' then (8, a # b # c # cs) else (10, a # b # c # cs))"
| "base_of (a # cs) = (if a = CHR ''0'' then (8, a # cs) else (10, a # cs))"
| "base_of [] = (10, [])"

definition strto_subject :: "string \<Rightarrow> (bool \<times> nat \<times> string) option" where
  "strto_subject s =
     (let (neg, s1) = sign_of (dropWhile isspace s); (base, s2) = base_of s1;
          ds = takeWhile (is_digit base) s2 in
      if ds = [] then None else Some (neg, digits_val base ds, dropWhile (is_digit base) s2))"

definition clamp_s32 :: "int \<Rightarrow> int" where
  "clamp_s32 i = (if i < - (2 ^ 31) then - (2 ^ 31) else if 2 ^ 31 - 1 < i then 2 ^ 31 - 1 else i)"

definition strtol :: "string \<Rightarrow> int" where
  "strtol s = (case strto_subject s of None \<Rightarrow> 0
     | Some (neg, n, _) \<Rightarrow> clamp_s32 (if neg then - int n else int n))"

definition strtoul :: "string \<Rightarrow> u32" where
  "strtoul s = (case strto_subject s of None \<Rightarrow> 0
     | Some (neg, n, _) \<Rightarrow> if 2 ^ 32 \<le> n then 0xffffffff else if neg then - of_nat n else of_nat n)"

text \<open>The conversions %u and %x of sscanf: the value and the rest, None on a matching failure.\<close>

definition scan_base :: "nat \<Rightarrow> string \<Rightarrow> (u32 \<times> string) option" where
  "scan_base base s =
     (let (neg, s1) = sign_of (dropWhile isspace s);
          s2 = (case s1 of a # b # c # cs \<Rightarrow>
                 if base = 16 \<and> a = CHR ''0'' \<and> (b = CHR ''x'' \<or> b = CHR ''X'') \<and> is_digit 16 c
                 then c # cs else s1 | _ \<Rightarrow> s1);
          ds = takeWhile (is_digit base) s2; n = digits_val base ds in
      if ds = [] then None
      else Some (if 2 ^ 32 \<le> n then 0xffffffff else if neg then - of_nat n else of_nat n,
                 dropWhile (is_digit base) s2))"

text \<open>strtok: the next token and the string it goes on with, None when there is none.\<close>

definition strtok :: "string \<Rightarrow> string \<Rightarrow> (string \<times> string) option" where
  "strtok delims s =
     (let s1 = dropWhile (\<lambda>c. c \<in> set delims) s in
      if s1 = [] then None
      else Some (takeWhile (\<lambda>c. c \<notin> set delims) s1, drop 1 (dropWhile (\<lambda>c. c \<notin> set delims) s1)))"

subsection \<open>util.c\<close>

definition str_to_int32 :: "string \<Rightarrow> int" where
  "str_to_int32 str = (case strto_subject str of None \<Rightarrow> - EINVAL | Some _ \<Rightarrow> strtol str)"

definition srt_to_uint32 :: "string \<Rightarrow> u32" where
  "srt_to_uint32 str = (case strto_subject str of None \<Rightarrow> of_int (- EINVAL) | Some _ \<Rightarrow> strtoul str)"

section \<open>Lemmas\<close>

lemma of_char_0_iff [simp]: "(of_char c :: int) = 0 \<longleftrightarrow> c = CHR 0x00"
proof -
  have "(of_char c :: int) = of_char CHR 0x00 \<longleftrightarrow> c = CHR 0x00" by (rule of_char_eq_iff)
  then show ?thesis by simp
qed

lemma strcmp_eq_0: "cstr a \<Longrightarrow> cstr b \<Longrightarrow> strcmp a b = 0 \<longleftrightarrow> a = b"
  by (induction a b rule: strcmp.induct) (auto simp: cstr_def)

lemma digit_val_char: "d < 10 \<Longrightarrow> digit_val (digit_char d) = Some d"
  by (simp add: digit_val_def digit_char_def)

lemma is_digit_char [simp]: "d < 10 \<Longrightarrow> is_digit 10 (digit_char d)"
  by (simp add: is_digit_def digit_val_char)

lemma show_nat_digits: "c \<in> set (show_nat n) \<Longrightarrow> \<exists>d < 10. c = digit_char d"
proof (induction n rule: show_nat.induct)
  case (1 n)
  show ?case
  proof (cases "n < 10")
    case True
    with 1 show ?thesis by (auto simp: show_nat.simps [of n])
  next
    case False
    with 1 show ?thesis by (auto simp: show_nat.simps [of n] intro: exI [of _ "n mod 10"])
  qed
qed

lemma show_nat_ne [simp]: "show_nat n \<noteq> []"
  by (simp add: show_nat.simps)

lemma digits_val_snoc: "digits_val b (cs @ [c]) = digits_val b cs * b + the (digit_val c)"
  by (simp add: digits_val_def)

lemma digits_val_show_nat: "digits_val 10 (show_nat n) = n"
proof (induction n rule: show_nat.induct)
  case (1 n)
  show ?case
  proof (cases "n < 10")
    case True
    then show ?thesis by (simp add: show_nat.simps [of n] digits_val_def digit_val_char)
  next
    case False
    then show ?thesis using 1 by (simp add: show_nat.simps [of n] digits_val_snoc digit_val_char)
  qed
qed

text \<open>A printed number has no leading zero, unless it is 0.\<close>

lemma show_nat_hd: "0 < n \<Longrightarrow> \<exists>d cs. show_nat n = digit_char d # cs \<and> 0 < d \<and> d < 10"
proof (induction n rule: show_nat.induct)
  case (1 n)
  show ?case
  proof (cases "n < 10")
    case True
    then show ?thesis using "1.prems" by (auto simp: show_nat.simps [of n])
  next
    case False
    then have "0 < n div 10" by (simp add: div_greater_zero_iff)
    with 1 False obtain d cs where "show_nat (n div 10) = digit_char d # cs" "0 < d" "d < 10" by auto
    with False show ?thesis by (auto simp: show_nat.simps [of n])
  qed
qed

lemma digit_char_eq: "d < 10 \<Longrightarrow> digit_char d = c \<longleftrightarrow> of_char c = 48 + d"
proof -
  assume "d < 10"
  then have "of_char (digit_char d) = 48 + d" by (simp add: digit_char_def)
  then show ?thesis by (metis of_char_eq_iff)
qed

lemma digit_char_not_space: "d < 10 \<Longrightarrow> \<not> isspace (digit_char d)"
  by (auto simp: isspace_def digit_char_eq)

lemma base_of_pos: "0 < d \<Longrightarrow> d < 10 \<Longrightarrow> base_of (digit_char d # cs) = (10, digit_char d # cs)"
  by (cases cs rule: base_of.cases; cases cs) (auto simp: digit_char_eq)

lemma strto_show_nat:
  assumes "rest = [] \<or> \<not> is_digit 10 (hd rest)" "0 < n \<or> rest = []"
  shows "sign_of (show_nat n @ rest) = (False, show_nat n @ rest)"
    "0 < n \<Longrightarrow> base_of (show_nat n @ rest) = (10, show_nat n @ rest)"
    "takeWhile (is_digit 10) (show_nat n @ rest) = show_nat n"
    "dropWhile (is_digit 10) (show_nat n @ rest) = rest"
    "dropWhile isspace (show_nat n @ rest) = show_nat n @ rest"
proof -
  obtain c cs where c: "show_nat n = c # cs" by (cases "show_nat n") auto
  then obtain d where d: "c = digit_char d" "d < 10" using show_nat_digits [of c n] by auto
  show "sign_of (show_nat n @ rest) = (False, show_nat n @ rest)"
    using c d by (auto simp: digit_char_eq)
  show "dropWhile isspace (show_nat n @ rest) = show_nat n @ rest"
    using c d by (simp add: digit_char_not_space)
  show "base_of (show_nat n @ rest) = (10, show_nat n @ rest)" if "0 < n"
    using show_nat_hd [OF that] base_of_pos by auto
  have "\<And>x. x \<in> set (show_nat n) \<Longrightarrow> is_digit 10 x" using show_nat_digits by fastforce
  then show "takeWhile (is_digit 10) (show_nat n @ rest) = show_nat n"
    "dropWhile (is_digit 10) (show_nat n @ rest) = rest"
    using assms(1) by (cases rest; simp)+
qed

lemma strto_subject_nat:
  "strto_subject (show_nat n) = Some (False, n, [])"
proof (cases "n = 0")
  case True
  have "digit_char 0 = CHR ''0''" using digit_char_eq [of 0 "CHR ''0''"] by simp
  moreover have "is_digit 8 CHR ''0''" "\<not> isspace CHR ''0''"
    by (simp_all add: is_digit_def digit_val_def isspace_def)
  ultimately show ?thesis using True
    by (simp add: show_nat.simps strto_subject_def digits_val_def digit_val_def)
next
  case False
  then have "sign_of (show_nat n) = (False, show_nat n)" "base_of (show_nat n) = (10, show_nat n)"
    "takeWhile (is_digit 10) (show_nat n) = show_nat n" "dropWhile (is_digit 10) (show_nat n) = []"
    "dropWhile isspace (show_nat n) = show_nat n"
    using strto_show_nat [of "[]" n] by (simp_all only: append_Nil2 simp_thms neq0_conv)
  note * = this
  show ?thesis
    by (simp add: strto_subject_def digits_val_show_nat * del: takeWhile_eq_all_conv dropWhile_eq_Nil_conv)
qed

lemma strto_subject_int:
  "strto_subject (show_int i) = Some (i < 0, nat \<bar>i\<bar>, [])"
proof (cases "i < 0")
  case True
  let ?s = "show_nat (nat (- i))"
  have "0 < nat (- i)" using True by simp
  then have "base_of ?s = (10, ?s)" "takeWhile (is_digit 10) ?s = ?s" "dropWhile (is_digit 10) ?s = []"
    using strto_show_nat [of "[]" "nat (- i)"] by (simp_all only: append_Nil2 simp_thms)
  note * = this
  show ?thesis
    using True by (simp add: show_int_def strto_subject_def isspace_def digits_val_show_nat * del: takeWhile_eq_all_conv dropWhile_eq_Nil_conv)
qed (simp add: show_int_def strto_subject_nat)

lemma clamp_s32_id: "in_s32 i \<Longrightarrow> clamp_s32 i = i"
  by (simp add: clamp_s32_def in_s32_def)

lemma strtol_show_int: "in_s32 i \<Longrightarrow> strtol (show_int i) = i"
  by (simp add: strtol_def strto_subject_int clamp_s32_id)

section \<open>Properties\<close>

text \<open>
  str_to_int32 reads back what printf ("%d") prints, for every int32_t; a string without a
  number gives -EINVAL, which it cannot tell from the number -22.
\<close>

theorem str_to_int32_reads_back:
  "(in_s32 i \<longrightarrow> str_to_int32 (show_int i) = i) \<and>
   str_to_int32 ''x'' = - EINVAL \<and> str_to_int32 ''-22'' = - EINVAL"
proof (intro conjI impI)
  show "str_to_int32 (show_int i) = i" if "in_s32 i"
    using that by (simp add: str_to_int32_def strto_subject_int strtol_show_int)
  show "str_to_int32 ''x'' = - EINVAL" "str_to_int32 ''-22'' = - EINVAL" by code_simp+
qed

theorem str_to_int32_reads_back_witness: "str_to_int32 (show_int (-40)) = -40"
  using str_to_int32_reads_back [of "-40"] by (simp add: in_s32_def)

end
