(* ===== verification/Iio_Device.thy ===== *)
theory Iio_Device
  imports CStdlib
begin

text \<open>
  iio/iio_types.h and the parts of iio/iio.c that work on one device: channel names, the
  attribute functions, the value formats, the register access attribute and the sample
  count of a transfer.

  The show and store functions of an attribute and the callbacks of a device come from the
  device drivers. They are fields of the records, so parameters of the model: functions of the
  device instance \<open>'d\<close> that take and return the state \<open>'h\<close> of the hardware. A show function
  returns the bytes it stores at the start of the buffer. The arrays of attributes end at the
  element without a name, so they are lists; \<open>None\<close> is a NULL pointer.
\<close>

section \<open>Types\<close>

datatype iio_val = IIO_VAL_INT | IIO_VAL_INT_PLUS_MICRO | IIO_VAL_INT_PLUS_NANO
  | IIO_VAL_INT_PLUS_MICRO_DB | IIO_VAL_INT_MULTIPLE | IIO_VAL_FRACTIONAL
  | IIO_VAL_FRACTIONAL_LOG2 | IIO_VAL_CHAR

datatype iio_chan_type = IIO_VOLTAGE | IIO_CURRENT | IIO_ALTVOLTAGE | IIO_ANGL_VEL | IIO_TEMP
  | IIO_CAPACITANCE

datatype iio_attribute_shared = IIO_SEPARATE | IIO_SHARED_BY_TYPE | IIO_SHARED_BY_DIR | IIO_SHARED_BY_ALL

record iio_ch_info =
  ch_num :: int
  info_out :: bool
  info_type :: iio_chan_type
  info_differential :: bool
  info_address :: u32

record ('d, 'h) iio_attribute =
  attr_name :: string
  attr_priv :: int
  attr_shared :: iio_attribute_shared
  attr_show :: "('d \<Rightarrow> u32 \<Rightarrow> iio_ch_info option \<Rightarrow> int \<Rightarrow> 'h \<Rightarrow> int \<times> u8 list \<times> 'h) option"
  attr_store :: "('d \<Rightarrow> u8 list \<Rightarrow> u32 \<Rightarrow> iio_ch_info option \<Rightarrow> int \<Rightarrow> 'h \<Rightarrow> int \<times> 'h) option"

record scan_type =
  scan_sign :: char
  realbits :: u8
  storagebits :: u8
  scan_shift :: u8
  is_big_endian :: bool

record ('d, 'h) iio_channel =
  ch_name :: "string option"
  ch_type :: iio_chan_type
  channel :: int
  channel2 :: int
  ch_address :: u32
  scan_index :: int
  ch_scan_type :: "scan_type option"
  ch_attributes :: "('d, 'h) iio_attribute list option"
  ch_out :: bool
  modified :: bool
  indexed :: bool
  diferential :: bool

record iio_data_buffer =
  db_size :: u32
  db_buff :: "u8 list"

text \<open>
  \<open>channels\<close> is the whole array and \<open>num_ch\<close> the count the device declares; \<open>None\<close> for a NULL
  array or a NULL callback.
\<close>

record ('d, 'h) iio_device =
  num_ch :: u16
  channels :: "('d, 'h) iio_channel list option"
  attributes :: "('d, 'h) iio_attribute list option"
  debug_attributes :: "('d, 'h) iio_attribute list option"
  buffer_attributes :: "('d, 'h) iio_attribute list option"
  prepare_transfer :: "('d \<Rightarrow> u32 \<Rightarrow> 'h \<Rightarrow> int \<times> 'h) option"
  end_transfer :: "('d \<Rightarrow> 'h \<Rightarrow> int \<times> 'h) option"
  read_dev :: "('d \<Rightarrow> u32 \<Rightarrow> 'h \<Rightarrow> int \<times> u8 list \<times> 'h) option"
  write_dev :: "('d \<Rightarrow> u8 list \<Rightarrow> u32 \<Rightarrow> 'h \<Rightarrow> int \<times> 'h) option"
  dev_debug_reg_read :: "('d \<Rightarrow> u32 \<Rightarrow> 'h \<Rightarrow> int \<times> u32 \<times> 'h) option"
  dev_debug_reg_write :: "('d \<Rightarrow> u32 \<Rightarrow> u32 \<Rightarrow> 'h \<Rightarrow> int \<times> 'h) option"

section \<open>Channel names\<close>

fun iio_chan_type_string :: "iio_chan_type \<Rightarrow> string" where
  "iio_chan_type_string IIO_VOLTAGE = ''voltage''"
| "iio_chan_type_string IIO_CURRENT = ''current''"
| "iio_chan_type_string IIO_ALTVOLTAGE = ''altvoltage''"
| "iio_chan_type_string IIO_ANGL_VEL = ''anglvel''"
| "iio_chan_type_string IIO_TEMP = ''temp''"
| "iio_chan_type_string IIO_CAPACITANCE = ''capacitance''"

text \<open>The array has names for IIO_MOD_X (1) and IIO_MOD_Y (2) only; other indices are undefined.\<close>

definition iio_modifier_names :: "int \<Rightarrow> string option" where
  "iio_modifier_names i = (if i = 1 then Some ''x'' else if i = 2 then Some ''y'' else None)"

definition print_ch_id :: "('d, 'h) iio_channel \<Rightarrow> string option" where
  "print_ch_id ch =
     (let t = iio_chan_type_string (ch_type ch) in
      if modified ch then do {
        m \<leftarrow> iio_modifier_names (channel2 ch);
        Some (t @ ''_'' @ m)
      }
      else if indexed ch then
        if diferential ch
        then Some (t @ show_int (channel ch) @ ''-'' @ t @ show_int (channel2 ch))
        else Some (t @ show_int (channel ch))
      else Some t)"

text \<open>The search of iio_get_channel from index \<open>i\<close> on, reading num_ch elements of the array.\<close>

function iio_get_channel_loop ::
  "string \<Rightarrow> ('d, 'h) iio_device \<Rightarrow> bool \<Rightarrow> nat \<Rightarrow> ('d, 'h) iio_channel option option" where
  "iio_get_channel_loop name desc out i =
     (if i < unat (num_ch desc) then do {
        chs \<leftarrow> channels desc;
        guard (i < length chs);
        ch_id \<leftarrow> print_ch_id (chs ! i);
        if strcmp name ch_id = 0 \<and> ch_out (chs ! i) = out then Some (Some (chs ! i))
        else iio_get_channel_loop name desc out (Suc i)
      } else Some None)"
  by pat_completeness auto
termination
  by (relation "measure (\<lambda>(_, desc, _, i). unat (num_ch desc) - i)") auto

declare iio_get_channel_loop.simps [simp del]

definition iio_get_channel ::
  "string \<Rightarrow> ('d, 'h) iio_device \<Rightarrow> bool \<Rightarrow> ('d, 'h) iio_channel option option" where
  "iio_get_channel name desc out = iio_get_channel_loop name desc out 0"

section \<open>Attributes\<close>

record 'd attr_fun_params =
  par_dev_instance :: 'd
  par_buf :: "u8 list"
  par_buf_addr :: u32
  par_len :: u32
  par_ch_info :: "iio_ch_info option"

text \<open>The 32 bit word stored through a uint32_t pointer, least significant byte first.\<close>

definition le_bytes32 :: "u32 \<Rightarrow> u8 list" where
  "le_bytes32 w = [ucast w, ucast (drop_bit 8 w), ucast (drop_bit 16 w), ucast (drop_bit 24 w)]"

definition round_up_4 :: "int \<Rightarrow> int" where
  "round_up_4 n = (if n AND 3 \<noteq> 0 then push_bit 2 (drop_bit 2 n + 1) else n)"

text \<open>
  The loop of iio_read_all_attr: each show function writes to a local buffer of 256 bytes whose
  string is then copied behind the length. \<open>j\<close> is an int16_t: past its range the code is not
  defined here.
\<close>

fun iio_read_all_attr_loop ::
  "'d attr_fun_params \<Rightarrow> ('d, 'h) iio_attribute list \<Rightarrow> int \<Rightarrow> u8 list \<Rightarrow> 'h \<Rightarrow> (int \<times> u8 list \<times> 'h) option" where
  "iio_read_all_attr_loop pars [] j buf h = Some (j, buf, h)"
| "iio_read_all_attr_loop pars (a # as) j buf h = do {
     show \<leftarrow> attr_show a;
     let (attr_length, text, h) = show (par_dev_instance pars) (par_len pars) (par_ch_info pars) (attr_priv a) h;
     guard (length text \<le> 256);
     buf \<leftarrow> mem_write buf (nat j) (le_bytes32 (bswap_constant_32 (of_int attr_length)));
     let j = j + 4;
     (j, buf) \<leftarrow>
       (if attr_length \<ge> 0 then do {
          guard (0 \<in> set text);
          buf \<leftarrow> mem_write buf (nat j) (takeWhile (\<lambda>b. b \<noteq> 0) text @ [0]);
          Some (j + round_up_4 attr_length, buf)
        } else Some (j, buf));
     guard (j < 2 ^ 15);
     iio_read_all_attr_loop pars as j buf h
   }"

definition iio_read_all_attr ::
  "'d attr_fun_params \<Rightarrow> ('d, 'h) iio_attribute list option \<Rightarrow> 'h \<Rightarrow> (int \<times> u8 list \<times> 'h) option" where
  "iio_read_all_attr pars attrs h = do {
     as \<leftarrow> attrs;
     iio_read_all_attr_loop pars as 0 (par_buf pars) h
   }"

text \<open>
  The loop of iio_write_all_attr. The length of a value is the byte swapped address
  \<open>params->buf + j\<close>, not the word stored there, cut to an int16_t.
\<close>

fun iio_write_all_attr_loop ::
  "'d attr_fun_params \<Rightarrow> ('d, 'h) iio_attribute list \<Rightarrow> int \<Rightarrow> 'h \<Rightarrow> 'h option" where
  "iio_write_all_attr_loop pars [] j h = Some h"
| "iio_write_all_attr_loop pars (a # as) j h = do {
     let attr_length = sint (ucast (bswap_constant_32 (par_buf_addr pars + of_int j)) :: u16);
     let j = j + 4;
     store \<leftarrow> attr_store a;
     guard (0 \<le> j \<and> nat j \<le> length (par_buf pars));
     let (ret, h) = store (par_dev_instance pars) (drop (nat j) (par_buf pars)) (of_int attr_length)
                      (par_ch_info pars) (attr_priv a) h;
     let j = round_up_4 (j + attr_length);
     guard (- (2 ^ 15) \<le> j \<and> j < 2 ^ 15);
     iio_write_all_attr_loop pars as j h
   }"

definition iio_write_all_attr ::
  "'d attr_fun_params \<Rightarrow> ('d, 'h) iio_attribute list option \<Rightarrow> 'h \<Rightarrow> (int \<times> 'h) option" where
  "iio_write_all_attr pars attrs h = do {
     as \<leftarrow> attrs;
     h \<leftarrow> iio_write_all_attr_loop pars as 0 h;
     Some (int (unat (par_len pars)), h)
   }"

definition find_attr :: "string \<Rightarrow> ('d, 'h) iio_attribute list \<Rightarrow> ('d, 'h) iio_attribute option" where
  "find_attr name as = find (\<lambda>a. strcmp name (attr_name a) = 0) as"

text \<open>The buffer is returned as the show function leaves it.\<close>

definition iio_rd_wr_attribute ::
  "'d attr_fun_params \<Rightarrow> ('d, 'h) iio_attribute list option \<Rightarrow> string \<Rightarrow> bool \<Rightarrow> 'h \<Rightarrow>
   (int \<times> u8 list \<times> 'h) option" where
  "iio_rd_wr_attribute pars attrs name is_write h = do {
     as \<leftarrow> attrs;
     case find_attr name as of
       None \<Rightarrow> Some (- ENOENT, par_buf pars, h)
     | Some a \<Rightarrow>
         if is_write then
           (case attr_store a of
              None \<Rightarrow> Some (- ENOENT, par_buf pars, h)
            | Some store \<Rightarrow>
                (case store (par_dev_instance pars) (par_buf pars) (par_len pars) (par_ch_info pars)
                        (attr_priv a) h of
                   (ret, h) \<Rightarrow> Some (ret, par_buf pars, h)))
         else
           (case attr_show a of
              None \<Rightarrow> Some (- ENOENT, par_buf pars, h)
            | Some show \<Rightarrow>
                (case show (par_dev_instance pars) (par_len pars) (par_ch_info pars) (attr_priv a) h of
                   (ret, text, h) \<Rightarrow> do {
                     buf \<leftarrow> mem_write (par_buf pars) 0 text;
                     Some (ret, buf, h)
                   }))
   }"

section \<open>Values as text\<close>

text \<open>
  The arithmetic on fract is done in int: a product outside its range is undefined.
\<close>

definition iio_str_parse :: "string \<Rightarrow> bool \<Rightarrow> int + int \<times> int" where
  "iio_str_parse buf scale_db =
     (case strtok ''.'' buf of
        None \<Rightarrow> Inl (- EINVAL)
      | Some (p, rest) \<Rightarrow>
          (case strtok (if scale_db then ''db'' else [CHR 0x0A]) rest of
             None \<Rightarrow> Inl (- EINVAL)
           | Some (q, _) \<Rightarrow> Inr (strtol p, strtol q)))"

definition mul_s32 :: "int \<Rightarrow> int \<Rightarrow> int option" where
  "mul_s32 a b = (if in_s32 (a * b) then Some (a * b) else None)"

definition parse_scaled :: "string \<Rightarrow> bool \<Rightarrow> int \<Rightarrow> (int \<times> (int \<times> int) option) option" where
  "parse_scaled buf scale_db k =
     (case iio_str_parse buf scale_db of
        Inl e \<Rightarrow> Some (e, None)
      | Inr (integer, fract) \<Rightarrow> do {
          f \<leftarrow> mul_s32 fract k;
          Some (0, Some (integer, f))
        })"

text \<open>The result is the code and, on success, *val and *val2.\<close>

fun iio_parse_value :: "string \<Rightarrow> iio_val \<Rightarrow> (int \<times> (int \<times> int) option) option" where
  "iio_parse_value buf IIO_VAL_INT = Some (0, Some (strtol buf, 0))"
| "iio_parse_value buf IIO_VAL_INT_PLUS_MICRO_DB = parse_scaled buf True 100000"
| "iio_parse_value buf IIO_VAL_INT_PLUS_MICRO = parse_scaled buf False 100000"
| "iio_parse_value buf IIO_VAL_INT_PLUS_NANO = parse_scaled buf False 100000000"
| "iio_parse_value buf IIO_VAL_CHAR =
     (case buf of [] \<Rightarrow> Some (- EINVAL, None) | c # _ \<Rightarrow> Some (0, Some (of_char c, 0)))"
| "iio_parse_value buf _ = Some (- EINVAL, None)"

text \<open>The loop of IIO_VAL_INT_MULTIPLE: the text so far and the length counted so far.\<close>

fun format_multiple :: "nat \<Rightarrow> int list \<Rightarrow> nat \<Rightarrow> string \<Rightarrow> nat \<times> string" where
  "format_multiple len [] l text = (l, text)"
| "format_multiple len (v # vs) l text =
     (let s = show_int v @ '' ''; l' = l + length s;
          text' = (if l < len then take (len - 1) (text @ s) else text) in
      if len \<le> l' then (l', text') else format_multiple len vs l' text')"

definition format_fract :: "int \<Rightarrow> string option" where
  "format_fract tmp = do {
     (integer, fractional) \<leftarrow> div_s64_rem tmp 1000000000;
     Some (show_int (signed_take_bit 31 integer) @ ''.'' @ show_unsigned 9 \<bar>fractional\<bar>)
   }"

text \<open>
  tmp is a uint64_t that is passed as an int64_t, so it holds the signed quotient. The shift of
  IIO_VAL_FRACTIONAL_LOG2 must be by 0 to 63.
\<close>

fun iio_format_value :: "nat \<Rightarrow> iio_val \<Rightarrow> int \<Rightarrow> int list \<Rightarrow> (nat \<times> string option) option" where
  "iio_format_value len IIO_VAL_INT sz vals = do {
     guard (1 \<le> length vals);
     Some (snprintf len (show_int (vals ! 0)))
   }"
| "iio_format_value len IIO_VAL_INT_PLUS_MICRO_DB sz vals = do {
     guard (2 \<le> length vals);
     Some (snprintf len (show_int (vals ! 0) @ ''.'' @ show_unsigned 6 (vals ! 1) @ '' dB''))
   }"
| "iio_format_value len IIO_VAL_INT_PLUS_MICRO sz vals = do {
     guard (2 \<le> length vals);
     Some (snprintf len (show_int (vals ! 0) @ ''.'' @ show_unsigned 6 (vals ! 1)))
   }"
| "iio_format_value len IIO_VAL_INT_PLUS_NANO sz vals = do {
     guard (2 \<le> length vals);
     Some (snprintf len (show_int (vals ! 0) @ ''.'' @ show_unsigned 9 (vals ! 1)))
   }"
| "iio_format_value len IIO_VAL_FRACTIONAL sz vals = do {
     guard (2 \<le> length vals);
     tmp \<leftarrow> div_s64 (vals ! 0 * 1000000000) (vals ! 1);
     text \<leftarrow> format_fract tmp;
     Some (snprintf len text)
   }"
| "iio_format_value len IIO_VAL_FRACTIONAL_LOG2 sz vals = do {
     guard (2 \<le> length vals);
     guard (0 \<le> vals ! 1 \<and> vals ! 1 < 64);
     text \<leftarrow> format_fract (shift_right (vals ! 0 * 1000000000) (nat (vals ! 1)));
     Some (snprintf len text)
   }"
| "iio_format_value len IIO_VAL_INT_MULTIPLE sz vals = do {
     guard (nat sz \<le> length vals);
     case format_multiple len (take (nat sz) vals) 0 [] of
       (l, text) \<Rightarrow> Some (l, if len = 0 \<or> sz \<le> 0 then None else Some text)
   }"
| "iio_format_value len IIO_VAL_CHAR sz vals = do {
     guard (1 \<le> length vals);
     Some (snprintf len [char_of (nat (vals ! 0 mod 256))])
   }"

section \<open>Properties\<close>

lemma iio_get_channel_loop_find:
  assumes "channels desc = Some chs" "unat (num_ch desc) \<le> length chs"
    "\<And>j. j < unat (num_ch desc) \<Longrightarrow> \<exists>nm. print_ch_id (chs ! j) = Some nm \<and> cstr nm"
    "i \<le> k" "k < unat (num_ch desc)" "print_ch_id (chs ! k) = Some name" "ch_out (chs ! k) = out"
    "\<And>j. j < k \<Longrightarrow> \<not> (print_ch_id (chs ! j) = Some name \<and> ch_out (chs ! j) = out)"
  shows "iio_get_channel_loop name desc out i = Some (Some (chs ! k))"
  using assms(4)
proof (induction "k - i" arbitrary: i)
  case 0
  then have "i = k" by simp
  moreover have "cstr name" using assms(3) [OF assms(5)] assms(6) by auto
  ultimately show ?case
    using assms(1,2,5,6,7) by (subst iio_get_channel_loop.simps) (simp add: strcmp_eq_0)
next
  case (Suc n)
  then have i: "i < k" by simp
  obtain nm where nm: "print_ch_id (chs ! i) = Some nm" "cstr nm"
    using assms(3) [of i] i assms(5) by auto
  have "cstr name" using assms(3) [OF assms(5)] assms(6) by auto
  then have ne: "\<not> (strcmp name nm = 0 \<and> ch_out (chs ! i) = out)"
    using nm assms(8) [OF i] by (auto simp: strcmp_eq_0)
  have "iio_get_channel_loop name desc out (Suc i) = Some (Some (chs ! k))"
    using Suc by simp
  then show ?case
    using assms(1,2,5) i nm(1) ne by (subst iio_get_channel_loop.simps) auto
qed

text \<open>
  iio_get_channel finds the first channel of the device that has the given name and
  direction.
\<close>

theorem iio_get_channel_first:
  assumes "channels desc = Some chs" "unat (num_ch desc) \<le> length chs"
    "\<forall>j < unat (num_ch desc). \<exists>nm. print_ch_id (chs ! j) = Some nm \<and> cstr nm"
    "k < unat (num_ch desc)" "print_ch_id (chs ! k) = Some name" "ch_out (chs ! k) = out"
    "\<forall>j < k. \<not> (print_ch_id (chs ! j) = Some name \<and> ch_out (chs ! j) = out)"
  shows "iio_get_channel name desc out = Some (Some (chs ! k))"
  using iio_get_channel_loop_find [of desc chs 0 k name out] assms
  by (simp add: iio_get_channel_def)

definition voltage_ch :: "int \<Rightarrow> bool \<Rightarrow> (unit, unit) iio_channel" where
  "voltage_ch n out = \<lparr>ch_name = None, ch_type = IIO_VOLTAGE, channel = n, channel2 = 0, ch_address = 0,
     scan_index = n, ch_scan_type = None, ch_attributes = None, ch_out = out, modified = False,
     indexed = True, diferential = False\<rparr>"

definition two_ch_device :: "(unit, unit) iio_device" where
  "two_ch_device = \<lparr>num_ch = 2, channels = Some [voltage_ch 0 False, voltage_ch 0 True], attributes = None,
     debug_attributes = None, buffer_attributes = None, prepare_transfer = None, end_transfer = None,
     read_dev = None, write_dev = None, dev_debug_reg_read = None, dev_debug_reg_write = None\<rparr>"

theorem iio_get_channel_first_witness:
  "iio_get_channel ''voltage0'' two_ch_device True = Some (Some (voltage_ch 0 True))"
proof -
  let ?chs = "[voltage_ch 0 False, voltage_ch 0 True]"
  have "show_int 0 = ''0''" by code_simp
  then have id: "print_ch_id (voltage_ch 0 b) = Some ''voltage0''" for b
    by (simp add: print_ch_id_def voltage_ch_def)
  have d: "channels two_ch_device = Some ?chs" "unat (num_ch two_ch_device) = 2"
    by (simp_all add: two_ch_device_def)
  have out: "ch_out (voltage_ch 0 b) = b" for b by (simp add: voltage_ch_def)
  have j: "j < 2 \<Longrightarrow> j = 0 \<or> j = 1" for j :: nat by auto
  have "iio_get_channel ''voltage0'' two_ch_device True = Some (Some (?chs ! 1))"
    by (rule iio_get_channel_first) (auto simp: d id out cstr_def dest: j)
  then show ?thesis by simp
qed

text \<open>
  An integer attribute survives the trip through text: what iio_format_value prints with
  IIO_VAL_INT into a buffer that is long enough, iio_parse_value reads back.
\<close>

theorem iio_value_int_roundtrip:
  assumes "in_s32 v" "length (show_int v) < len"
  shows "\<exists>text. iio_format_value len IIO_VAL_INT sz [v] = Some (length text, Some text) \<and>
    iio_parse_value text IIO_VAL_INT = Some (0, Some (v, 0))"
  using assms by (simp add: snprintf_def strtol_show_int)

theorem iio_value_int_roundtrip_witness:
  "\<exists>text. iio_format_value 16 IIO_VAL_INT 1 [-250] = Some (length text, Some text) \<and>
    iio_parse_value text IIO_VAL_INT = Some (0, Some (-250, 0))"
proof (rule iio_value_int_roundtrip)
  have "show_int (-250) = ''-250''" by code_simp
  then show "length (show_int (-250)) < 16" by simp
qed (simp add: in_s32_def)

text \<open>
  The fractional formats do not: the digits after the point are read as a number of their
  own (with a leading 0, as an octal one) and multiplied by 100000, so 1.25 is read as one and
  2.5 million micro, 0.08 as 0, and the text that iio_format_value prints for 1.25 makes the
  multiplication overflow.
\<close>

theorem iio_parse_value_fraction_wrong:
  "iio_parse_value ''1.25'' IIO_VAL_INT_PLUS_MICRO = Some (0, Some (1, 2500000)) \<and>
   iio_parse_value ''0.08'' IIO_VAL_INT_PLUS_MICRO = Some (0, Some (0, 0)) \<and>
   iio_format_value 32 IIO_VAL_INT_PLUS_MICRO 2 [1, 250000] = Some (8, Some ''1.250000'') \<and>
   iio_parse_value ''1.250000'' IIO_VAL_INT_PLUS_MICRO = None"
proof (intro conjI)
  show "iio_parse_value ''1.25'' IIO_VAL_INT_PLUS_MICRO = Some (0, Some (1, 2500000))"
    "iio_parse_value ''0.08'' IIO_VAL_INT_PLUS_MICRO = Some (0, Some (0, 0))"
    "iio_parse_value ''1.250000'' IIO_VAL_INT_PLUS_MICRO = None"
    by (simp_all add: parse_scaled_def iio_str_parse_def strtok_def strtol_def strto_subject_def
        isspace_def is_digit_def digit_val_def digits_val_def clamp_s32_def mul_s32_def in_s32_def)
  have "show_nat 250000 = ''250000''" "show_nat 1 = ''1''"
    by (simp_all add: show_nat.simps digit_char_eq)
  then show "iio_format_value 32 IIO_VAL_INT_PLUS_MICRO 2 [1, 250000] = Some (8, Some ''1.250000'')"
    by (simp add: show_int_def show_unsigned_def snprintf_def)
qed

text \<open>
  iio_write_all_attr takes the length of a value from the address of the buffer, not from
  the length word in front of the value: what is in that word makes no difference to what the
  store function is called with.
\<close>

theorem iio_write_all_attr_ignores_length:
  "iio_write_all_attr (pars\<lparr>par_buf := b0 # b1 # b2 # b3 # val\<rparr>) (Some [a]) h =
   iio_write_all_attr (pars\<lparr>par_buf := c0 # c1 # c2 # c3 # val\<rparr>) (Some [a]) h"
proof -
  have "drop 4 (x0 # x1 # x2 # x3 # val) = val" for x0 x1 x2 x3 :: u8 by (simp add: numeral_eq_Suc)
  then show ?thesis by (simp add: iio_write_all_attr_def)
qed

end
