(* ===== verification/Iio_Xml.thy ===== *)
theory Iio_Xml
  imports Iio_Device
begin

text \<open>
  iio_generate_device_xml of iio/iio.c. Every snprintf of the function is a piece of text, put
  at the position the counter has reached; the pieces are listed in the order of the calls, and
  the flag says that the function returned early with -EINVAL after them. The counter i of the
  code is an int32_t and here a nat: texts stay below 2 GiB.
\<close>

section \<open>Definitions\<close>

text \<open>
  \<open>snprintf (buff + i, max (n - i, 0), piece)\<close>: the counter, and the string in the buffer, which
  is complete as long as the counter is below n.
\<close>

definition xml_put :: "int \<Rightarrow> string \<Rightarrow> nat \<times> string \<Rightarrow> nat \<times> string" where
  "xml_put n piece st = (case st of (i, text) \<Rightarrow>
     (i + length piece, if int i < n then text @ take (nat n - i - 1) piece else text))"

definition dir_string :: "('d, 'h) iio_channel \<Rightarrow> string" where
  "dir_string ch = (if ch_out ch then ''out'' else ''in'')"

text \<open>The filename of a channel attribute; None for a differential channel without an index.\<close>

definition attr_filename :: "('d, 'h) iio_channel \<Rightarrow> ('d, 'h) iio_attribute \<Rightarrow> string option" where
  "attr_filename ch a =
     (let t = iio_chan_type_string (ch_type ch); nm = attr_name a; pre = dir_string ch @ ''_'' in
      if diferential ch then
        (case attr_shared a of
           IIO_SHARED_BY_ALL \<Rightarrow> Some nm
         | IIO_SHARED_BY_DIR \<Rightarrow> Some (pre @ nm)
         | IIO_SHARED_BY_TYPE \<Rightarrow> Some (pre @ t @ ''-'' @ t @ ''_'' @ nm)
         | IIO_SEPARATE \<Rightarrow>
             if \<not> indexed ch then None
             else Some (pre @ t @ show_int (channel ch) @ ''-'' @ t @ show_int (channel2 ch) @ ''_'' @ nm))
      else
        (case attr_shared a of
           IIO_SHARED_BY_ALL \<Rightarrow> Some nm
         | IIO_SHARED_BY_DIR \<Rightarrow> Some (pre @ nm)
         | IIO_SHARED_BY_TYPE \<Rightarrow> Some (pre @ t @ ''_'' @ nm)
         | IIO_SEPARATE \<Rightarrow>
             if indexed ch then Some (pre @ t @ show_int (channel ch) @ ''_'' @ nm)
             else Some (pre @ t @ ''_'' @ nm)))"

definition quoted :: "string \<Rightarrow> string" where
  "quoted s = CHR 0x22 # s @ [CHR 0x22]"

definition attr_pieces :: "('d, 'h) iio_channel \<Rightarrow> ('d, 'h) iio_attribute \<Rightarrow> string list \<times> bool" where
  "attr_pieces ch a =
     (let start = ''<attribute name='' @ quoted (attr_name a) @ '' '' in
      case attr_filename ch a of
        None \<Rightarrow> ([start], True)
      | Some f \<Rightarrow> ([start, ''filename='' @ quoted f, '' />''], False))"

text \<open>The pieces of several parts, up to the first that ends early.\<close>

fun seq_pieces :: "(string list \<times> bool) list \<Rightarrow> string list \<times> bool" where
  "seq_pieces [] = ([], False)"
| "seq_pieces ((ps, stop) # parts) =
     (if stop then (ps, True) else (case seq_pieces parts of (qs, s) \<Rightarrow> (ps @ qs, s)))"

definition scan_piece :: "('d, 'h) iio_channel \<Rightarrow> scan_type \<Rightarrow> string" where
  "scan_piece ch st = ''<scan-element index='' @ quoted (show_int (scan_index ch)) @ '' format='' @
     quoted ((if is_big_endian st then ''be'' else ''le'') @ '':'' @ [scan_sign st] @
       show_nat (unat (realbits st)) @ ''/'' @ show_nat (unat (storagebits st)) @ ''>>'' @
       show_nat (unat (scan_shift st))) @ '' />''"

definition channel_pieces :: "('d, 'h) iio_channel \<Rightarrow> (string list \<times> bool) option" where
  "channel_pieces ch = do {
     ch_id \<leftarrow> print_ch_id ch;
     Some (seq_pieces
       ([([''<channel id='' @ quoted ch_id], False),
         ((case ch_name ch of None \<Rightarrow> [] | Some nm \<Rightarrow> ['' name='' @ quoted nm]), False),
         (['' type='' @ quoted (if ch_out ch then ''output'' else ''input'') @ '' >''], False),
         ((case ch_scan_type ch of None \<Rightarrow> [] | Some st \<Rightarrow> [scan_piece ch st]), False)] @
        (case ch_attributes ch of None \<Rightarrow> [] | Some as \<Rightarrow> map (attr_pieces ch) as) @
        [([''</channel>''], False)]))
   }"

fun channels_pieces :: "('d, 'h) iio_channel list \<Rightarrow> (string list \<times> bool) list option" where
  "channels_pieces [] = Some []"
| "channels_pieces (ch # chs) = do {
     p \<leftarrow> channel_pieces ch;
     ps \<leftarrow> channels_pieces chs;
     Some (p # ps)
   }"

definition named_pieces :: "string \<Rightarrow> ('d, 'h) iio_attribute list option \<Rightarrow> string list" where
  "named_pieces tag attrs =
     (case attrs of None \<Rightarrow> [] | Some as \<Rightarrow> map (\<lambda>a. ''<'' @ tag @ '' name='' @ quoted (attr_name a) @ '' />'') as)"

definition REG_ACCESS_ATTRIBUTE :: string where
  "REG_ACCESS_ATTRIBUTE = ''direct_reg_access''"

definition device_pieces :: "('d, 'h) iio_device \<Rightarrow> string \<Rightarrow> int \<Rightarrow> (string list \<times> bool) option" where
  "device_pieces device name i = do {
     chs \<leftarrow> (case channels device of
        None \<Rightarrow> Some []
      | Some chs \<Rightarrow> do {
          guard (unat (num_ch device) \<le> length chs);
          channels_pieces (take (unat (num_ch device)) chs)
        });
     Some (seq_pieces
       ([([''<device id='' @ quoted (''device'' @ show_int i) @ '' name='' @ quoted name @ ''>''], False)] @
        chs @
        [(named_pieces ''attribute'' (attributes device), False),
         (named_pieces ''debug-attribute'' (debug_attributes device), False),
         ((if dev_debug_reg_read device \<noteq> None \<or> dev_debug_reg_write device \<noteq> None
           then [''<debug-attribute name='' @ quoted REG_ACCESS_ATTRIBUTE @ '' />''] else []), False),
         (named_pieces ''buffer-attribute'' (buffer_attributes device), False),
         ([''</device>''], False)]))
   }"

text \<open>With buff_size -1 nothing is written and the text is only counted.\<close>

definition iio_generate_device_xml ::
  "('d, 'h) iio_device \<Rightarrow> string \<Rightarrow> int \<Rightarrow> u32 \<Rightarrow> (u32 \<times> string) option" where
  "iio_generate_device_xml device name i buff_size = do {
     (ps, stopped) \<leftarrow> device_pieces device name i;
     let n = (if sint buff_size = -1 then 0 else sint buff_size);
     let (len, text) = fold (xml_put n) ps (0, []);
     Some (if stopped then of_int (- EINVAL) else of_nat len, text)
   }"

section \<open>Counting and writing agree\<close>

text \<open>The text of a device, and whether its generation ends early.\<close>

definition device_xml :: "('d, 'h) iio_device \<Rightarrow> string \<Rightarrow> int \<Rightarrow> string option" where
  "device_xml device name i = (case device_pieces device name i of
     Some (ps, False) \<Rightarrow> Some (concat ps) | _ \<Rightarrow> None)"

lemma xml_put_fst: "fst (fold (xml_put n) ps st) = fst st + length (concat ps)"
  by (induction ps arbitrary: st) (auto simp: xml_put_def split: prod.splits)

lemma xml_put_none: "n \<le> 0 \<Longrightarrow> snd (fold (xml_put n) ps st) = snd st"
  by (induction ps arbitrary: st) (auto simp: xml_put_def split: prod.splits)

lemma xml_put_all:
  "int (i + length (concat ps)) < n \<Longrightarrow>
   fold (xml_put n) ps (i, tx) = (i + length (concat ps), tx @ concat ps)"
proof (induction ps arbitrary: i tx)
  case (Cons p ps)
  then have "length p \<le> nat n - i - 1" "int i < n" by auto
  then have "xml_put n p (i, tx) = (i + length p, tx @ p)" by (simp add: xml_put_def)
  then show ?case using Cons.IH [of "i + length p" "tx @ p"] Cons.prems by simp
qed simp

lemma sint_minus_1 [simp]: "sint (-1 :: u32) = -1"
  by simp

lemma iio_generate_count:
  assumes "device_xml device name i = Some xml"
  shows "iio_generate_device_xml device name i (-1) = Some (of_nat (length xml), [])"
proof -
  obtain ps where ps: "device_pieces device name i = Some (ps, False)" "xml = concat ps"
    using assms by (auto simp: device_xml_def split: option.splits prod.splits bool.splits)
  have "fold (xml_put 0) ps (0, []) = (length (concat ps), [])"
    using xml_put_fst [of 0 ps "(0, [])"] xml_put_none [of 0 ps "(0, [])"] by (simp add: prod_eq_iff)
  with ps show ?thesis by (simp add: iio_generate_device_xml_def)
qed

lemma iio_generate_write:
  assumes "device_xml device name i = Some xml" "int (length xml) < sint buff_size"
  shows "iio_generate_device_xml device name i buff_size = Some (of_nat (length xml), xml)"
proof -
  obtain ps where ps: "device_pieces device name i = Some (ps, False)" "xml = concat ps"
    using assms(1) by (auto simp: device_xml_def split: option.splits prod.splits bool.splits)
  moreover have "sint buff_size \<noteq> -1" using assms(2) by linarith
  ultimately show ?thesis
    using xml_put_all [of 0 ps "sint buff_size" "[]"] assms(2) by (simp add: iio_generate_device_xml_def)
qed

section \<open>Properties\<close>

text \<open>
  C29. The counting pass and the writing pass of iio_generate_device_xml agree: a buffer of one
  byte more than the counted length receives the whole text, and the same length is returned.
\<close>

theorem iio_generate_two_passes:
  assumes "iio_generate_device_xml device name i 0xffffffff = Some (n, t)"
    "device_xml device name i = Some xml" "length xml < 2 ^ 31 - 1"
  shows "iio_generate_device_xml device name i (n + 1) = Some (n, xml) \<and> unat n = length xml"
proof -
  have n: "n = of_nat (length xml)"
    using assms(1) iio_generate_count [OF assms(2)] by (simp add: u32_all_ones)
  then have un: "unat n = length xml" using assms(3) by (simp add: unat_of_nat)
  moreover have "unat (n + 1) = Suc (length xml)" using un assms(3) by (simp add: unat_word_ariths)
  moreover have "unat (n + 1) < 2 ^ 31" using assms(3) \<open>unat (n + 1) = Suc (length xml)\<close> by simp
  then have "sint (n + 1) = int (unat (n + 1))" by (rule sint_u32_small)
  ultimately have "int (length xml) < sint (n + 1)" by simp
  from iio_generate_write [OF assms(2) this] n un show ?thesis by simp
qed

lemma two_ch_device_xml: "\<exists>xml. device_xml two_ch_device ''adc'' 0 = Some xml \<and> length xml < 2 ^ 31 - 1"
proof -
  have "show_int 0 = ''0''" by code_simp
  moreover have "take 2 [voltage_ch 0 False, voltage_ch 0 True] = [voltage_ch 0 False, voltage_ch 0 True]" by simp
  ultimately show ?thesis
    by (simp add: device_xml_def device_pieces_def two_ch_device_def named_pieces_def quoted_def
        channel_pieces_def print_ch_id_def voltage_ch_def)
qed

theorem iio_generate_two_passes_witness:
  "\<exists>n xml. iio_generate_device_xml two_ch_device ''adc'' 0 (n + 1) = Some (n, xml) \<and> unat n = length xml"
proof -
  obtain xml where x: "device_xml two_ch_device ''adc'' 0 = Some xml" "length xml < 2 ^ 31 - 1"
    using two_ch_device_xml by blast
  have "iio_generate_device_xml two_ch_device ''adc'' 0 0xffffffff = Some (of_nat (length xml), [])"
    using iio_generate_count [OF x(1)] by (simp add: u32_all_ones)
  from iio_generate_two_passes [OF this x] show ?thesis by blast
qed

end
