(* ===== verification/Iio.thy ===== *)
theory Iio
  imports Linked_List Iio_Xml
begin

text \<open>
  The rest of iio/iio.c, in the configuration without ENABLE_IIO_NETWORK: the registry of
  device interfaces and the operations libtinyiiod calls by device id. libtinyiiod is not part
  of the repository; its calls are the operations below, and what iio.c calls of it
  (tinyiiod_create, tinyiiod_read_command) is an argument, as are the UART functions.

  The interfaces are cells of a heap, and the list of interfaces is the linked list of
  Linked_List over their addresses, searched with iio_cmp_interfaces, which reads the
  interfaces through the pointers; the comparator passed to a list operation is that function
  on the memory of the moment. The state of the hardware and the buffers of the applications
  are part of the descriptor.
\<close>

section \<open>State\<close>

record ('d, 'h) iio_interface =
  dev_id :: string
  intf_name :: string
  ch_mask :: u32
  dev_instance :: 'd
  active_reg_addr :: u32
  dev_descriptor :: "('d, 'h) iio_device"
  write_buffer :: "nat option"
  read_buffer :: "nat option"

text \<open>xml_desc is \<open>None\<close> once the memory it points to has been freed.\<close>

record ('d, 'h) iio_desc =
  interfaces :: "('d, 'h) iio_interface heap"
  interfaces_list :: list_desc
  list_ops :: adapter
  xml_desc :: "string option"
  xml_size :: u32
  xml_size_to_last_dev :: u32
  dev_count :: u32
  phy_desc :: "nat option"
  uart_desc :: "nat option"
  data_bufs :: "nat \<rightharpoonup> iio_data_buffer"
  hw :: 'h

definition iface_at :: "nat \<Rightarrow> ('d, 'h) iio_desc \<Rightarrow> ('d, 'h) iio_interface option" where
  "iface_at a d = cells (interfaces d) a"

definition iface_upd ::
  "nat \<Rightarrow> (('d, 'h) iio_interface \<Rightarrow> ('d, 'h) iio_interface) \<Rightarrow> ('d, 'h) iio_desc \<Rightarrow> ('d, 'h) iio_desc option" where
  "iface_upd a f d = do {
     i \<leftarrow> iface_at a d;
     Some (d\<lparr>interfaces := (interfaces d)\<lparr>cells := (cells (interfaces d))(a \<mapsto> f i)\<rparr>\<rparr>)
   }"

section \<open>Finding an interface\<close>

text \<open>
  iio_cmp_interfaces on the dev_id strings found at the two addresses. The temporary interface
  a search compares with is on the stack, at an address no interface has.
\<close>

definition iio_cmp_interfaces :: "(nat \<rightharpoonup> string) \<Rightarrow> u32 \<Rightarrow> u32 \<Rightarrow> int" where
  "iio_cmp_interfaces ids a b = strcmp (the (ids (unat a))) (the (ids (unat b)))"

definition dev_ids :: "('d, 'h) iio_desc \<Rightarrow> nat \<rightharpoonup> string" where
  "dev_ids d = (\<lambda>a. map_option dev_id (iface_at a d))"

definition stack_addr :: u32 where
  "stack_addr = 0xffffffff"

text \<open>The strcpy to the 10 bytes of dev_id must not overflow.\<close>

definition iio_get_interface :: "string \<Rightarrow> ('d, 'h) iio_desc \<Rightarrow> (nat option \<times> ('d, 'h) iio_desc) option" where
  "iio_get_interface device_name d = do {
     guard (length device_name < 10);
     let ids = (dev_ids d)(unat stack_addr \<mapsto> device_name);
     (ret, p, l) \<leftarrow> list_read_find True True stack_addr
                     ((interfaces_list d)\<lparr>comparator := iio_cmp_interfaces ids\<rparr>);
     let d = d\<lparr>interfaces_list := l\<rparr>;
     if IS_ERR_VALUE ret then Some (None, d) else Some (map_option unat p, d)
   }"

section \<open>Attributes of a device\<close>

datatype iio_attr_type = IIO_ATTR_TYPE_DEBUG | IIO_ATTR_TYPE_DEVICE | IIO_ATTR_TYPE_BUFFER

fun attrs_of :: "iio_attr_type \<Rightarrow> ('d, 'h) iio_device \<Rightarrow> ('d, 'h) iio_attribute list option" where
  "attrs_of IIO_ATTR_TYPE_DEBUG dev = debug_attributes dev"
| "attrs_of IIO_ATTR_TYPE_DEVICE dev = attributes dev"
| "attrs_of IIO_ATTR_TYPE_BUFFER dev = buffer_attributes dev"

definition str_bytes :: "string \<Rightarrow> u8 list" where
  "str_bytes s = map of_char s @ [0]"

definition bytes_str :: "u8 list \<Rightarrow> string option" where
  "bytes_str bs = (if 0 \<in> set bs then Some (map (\<lambda>b. char_of (unat b)) (takeWhile (\<lambda>b. b \<noteq> 0) bs)) else None)"

text \<open>The value is printed with snprintf into the \<open>len\<close> bytes of the buffer.\<close>

definition debug_reg_read ::
  "nat \<Rightarrow> u8 list \<Rightarrow> u32 \<Rightarrow> ('d, 'h) iio_desc \<Rightarrow> (int \<times> u8 list \<times> ('d, 'h) iio_desc) option" where
  "debug_reg_read a buf len d = do {
     i \<leftarrow> iface_at a d;
     read \<leftarrow> dev_debug_reg_read (dev_descriptor i);
     let (ret, val, h) = read (dev_instance i) (active_reg_addr i) (hw d);
     let d = d\<lparr>hw := h\<rparr>;
     if IS_ERR_VALUE ret then Some (ret, buf, d)
     else (case snprintf (unat len) (show_nat (unat val)) of
       (n, None) \<Rightarrow> Some (int n, buf, d)
     | (n, Some s) \<Rightarrow> do {
         buf \<leftarrow> mem_write buf 0 (str_bytes s);
         Some (int n, buf, d)
       })
   }"

text \<open>sscanf (buf, "0x%x 0x%x"): address and value when both are filled.\<close>

definition scan_addr_value :: "string \<Rightarrow> (u32 \<times> u32) option" where
  "scan_addr_value s =
     (case s of
        a # b # rest \<Rightarrow>
          if a = CHR ''0'' \<and> b = CHR ''x'' then do {
            (addr, rest) \<leftarrow> scan_base 16 rest;
            case dropWhile isspace rest of
              a # b # rest \<Rightarrow>
                if a = CHR ''0'' \<and> b = CHR ''x'' then do {
                  (val, _) \<leftarrow> scan_base 16 rest;
                  Some (addr, val)
                } else None
            | _ \<Rightarrow> None
          } else None
      | _ \<Rightarrow> None)"

definition debug_reg_write ::
  "nat \<Rightarrow> u8 list \<Rightarrow> u32 \<Rightarrow> ('d, 'h) iio_desc \<Rightarrow> (int \<times> ('d, 'h) iio_desc) option" where
  "debug_reg_write a buf len d = do {
     i \<leftarrow> iface_at a d;
     s \<leftarrow> bytes_str buf;
     case scan_addr_value s of
       Some (addr, val) \<Rightarrow> do {
         write \<leftarrow> dev_debug_reg_write (dev_descriptor i);
         let (ret, h) = write (dev_instance i) addr val (hw d);
         Some (if IS_ERR_VALUE ret then ret else sint len, d\<lparr>hw := h\<rparr>)
       }
     | None \<Rightarrow>
         (case scan_base 10 s of
            Some (addr, _) \<Rightarrow> do {
              d \<leftarrow> iface_upd a (\<lambda>i. i\<lparr>active_reg_addr := addr\<rparr>) d;
              Some (sint len, d)
            }
          | None \<Rightarrow> Some (- EINVAL, d))
   }"

definition params_of ::
  "('d, 'h) iio_interface \<Rightarrow> u8 list \<Rightarrow> u32 \<Rightarrow> u32 \<Rightarrow> iio_ch_info option \<Rightarrow> 'd attr_fun_params" where
  "params_of i buf addr len ci =
     \<lparr>par_dev_instance = dev_instance i, par_buf = buf, par_buf_addr = addr, par_len = len, par_ch_info = ci\<rparr>"

definition iio_read_attr ::
  "string \<Rightarrow> string \<Rightarrow> u8 list \<Rightarrow> u32 \<Rightarrow> iio_attr_type \<Rightarrow> ('d, 'h) iio_desc \<Rightarrow>
   (int \<times> u8 list \<times> ('d, 'h) iio_desc) option" where
  "iio_read_attr device_id attr buf len type d = do {
     (p, d) \<leftarrow> iio_get_interface device_id d;
     case p of
       None \<Rightarrow> Some (FAILURE, buf, d)
     | Some a \<Rightarrow> do {
         i \<leftarrow> iface_at a d;
         if type = IIO_ATTR_TYPE_DEBUG \<and> strcmp attr REG_ACCESS_ATTRIBUTE = 0 then
           if dev_debug_reg_read (dev_descriptor i) \<noteq> None then debug_reg_read a buf len d
           else Some (- ENOENT, buf, d)
         else do {
           let pars = params_of i buf 0 len None;
           let attrs = attrs_of type (dev_descriptor i);
           (ret, buf, h) \<leftarrow>
             (if strcmp attr [] = 0 then iio_read_all_attr pars attrs (hw d)
              else iio_rd_wr_attribute pars attrs attr False (hw d));
           Some (ret, buf, d\<lparr>hw := h\<rparr>)
         }
       }
   }"

text \<open>\<open>addr\<close> is the address of \<open>buf\<close>.\<close>

definition iio_write_attr ::
  "string \<Rightarrow> string \<Rightarrow> u8 list \<Rightarrow> u32 \<Rightarrow> u32 \<Rightarrow> iio_attr_type \<Rightarrow> ('d, 'h) iio_desc \<Rightarrow>
   (int \<times> ('d, 'h) iio_desc) option" where
  "iio_write_attr device_id attr buf addr len type d = do {
     (p, d) \<leftarrow> iio_get_interface device_id d;
     case p of
       None \<Rightarrow> Some (- ENODEV, d)
     | Some a \<Rightarrow> do {
         i \<leftarrow> iface_at a d;
         if type = IIO_ATTR_TYPE_DEBUG \<and> strcmp attr REG_ACCESS_ATTRIBUTE = 0 then
           if dev_debug_reg_write (dev_descriptor i) \<noteq> None then debug_reg_write a buf len d
           else Some (- ENOENT, d)
         else do {
           let pars = params_of i buf addr len None;
           let attrs = attrs_of type (dev_descriptor i);
           (ret, h) \<leftarrow>
             (if strcmp attr [] = 0 then iio_write_all_attr pars attrs (hw d)
              else do {
                (ret, _, h) \<leftarrow> iio_rd_wr_attribute pars attrs attr True (hw d);
                Some (ret, h)
              });
           Some (ret, d\<lparr>hw := h\<rparr>)
         }
       }
   }"

text \<open>The channel number is cut to the int16_t of iio_ch_info.\<close>

definition ch_info_of :: "('d, 'h) iio_channel \<Rightarrow> bool \<Rightarrow> iio_ch_info" where
  "ch_info_of ch out = \<lparr>ch_num = signed_take_bit 15 (channel ch), info_out = out, info_type = ch_type ch,
     info_differential = diferential ch, info_address = ch_address ch\<rparr>"

definition iio_ch_read_attr ::
  "string \<Rightarrow> string \<Rightarrow> bool \<Rightarrow> string \<Rightarrow> u8 list \<Rightarrow> u32 \<Rightarrow> ('d, 'h) iio_desc \<Rightarrow>
   (int \<times> u8 list \<times> ('d, 'h) iio_desc) option" where
  "iio_ch_read_attr device_id chn out attr buf len d = do {
     (p, d) \<leftarrow> iio_get_interface device_id d;
     case p of
       None \<Rightarrow> Some (FAILURE, buf, d)
     | Some a \<Rightarrow> do {
         i \<leftarrow> iface_at a d;
         ch \<leftarrow> iio_get_channel chn (dev_descriptor i) out;
         case ch of
           None \<Rightarrow> Some (- ENOENT, buf, d)
         | Some ch \<Rightarrow> do {
             let pars = params_of i buf 0 len (Some (ch_info_of ch out));
             (ret, buf, h) \<leftarrow>
               (if strcmp attr [] = 0 then iio_read_all_attr pars (ch_attributes ch) (hw d)
                else iio_rd_wr_attribute pars (ch_attributes ch) attr False (hw d));
             Some (ret, buf, d\<lparr>hw := h\<rparr>)
           }
       }
   }"

definition iio_ch_write_attr ::
  "string \<Rightarrow> string \<Rightarrow> bool \<Rightarrow> string \<Rightarrow> u8 list \<Rightarrow> u32 \<Rightarrow> u32 \<Rightarrow> ('d, 'h) iio_desc \<Rightarrow>
   (int \<times> ('d, 'h) iio_desc) option" where
  "iio_ch_write_attr device_id chn out attr buf addr len d = do {
     (p, d) \<leftarrow> iio_get_interface device_id d;
     case p of
       None \<Rightarrow> Some (- ENOENT, d)
     | Some a \<Rightarrow> do {
         i \<leftarrow> iface_at a d;
         ch \<leftarrow> iio_get_channel chn (dev_descriptor i) out;
         case ch of
           None \<Rightarrow> Some (- ENOENT, d)
         | Some ch \<Rightarrow> do {
             let pars = params_of i buf addr len (Some (ch_info_of ch out));
             (ret, h) \<leftarrow>
               (if strcmp attr [] = 0 then iio_write_all_attr pars (ch_attributes ch) (hw d)
                else do {
                  (ret, _, h) \<leftarrow> iio_rd_wr_attribute pars (ch_attributes ch) attr True (hw d);
                  Some (ret, h)
                });
             Some (ret, d\<lparr>hw := h\<rparr>)
           }
       }
   }"

section \<open>Opening and closing\<close>

definition iio_open_dev ::
  "string \<Rightarrow> u32 \<Rightarrow> u32 \<Rightarrow> bool \<Rightarrow> ('d, 'h) iio_desc \<Rightarrow> (int \<times> ('d, 'h) iio_desc) option" where
  "iio_open_dev device sample_size mask_arg cyclic d = do {
     (p, d) \<leftarrow> iio_get_interface device d;
     case p of
       None \<Rightarrow> Some (- ENODEV, d)
     | Some a \<Rightarrow> do {
         i \<leftarrow> iface_at a d;
         guard (unat (num_ch (dev_descriptor i)) \<le> 32);
         chm \<leftarrow> shr32 0xFFFFFFFF (32 - unat (num_ch (dev_descriptor i)));
         if mask_arg AND NOT chm \<noteq> 0 then Some (- ENOENT, d)
         else do {
           d \<leftarrow> iface_upd a (\<lambda>i. i\<lparr>ch_mask := mask_arg\<rparr>) d;
           case prepare_transfer (dev_descriptor i) of
             None \<Rightarrow> Some (SUCCESS, d)
           | Some f \<Rightarrow> (case f (dev_instance i) mask_arg (hw d) of (ret, h) \<Rightarrow> Some (ret, d\<lparr>hw := h\<rparr>))
         }
       }
   }"

definition iio_close_dev :: "string \<Rightarrow> ('d, 'h) iio_desc \<Rightarrow> (int \<times> ('d, 'h) iio_desc) option" where
  "iio_close_dev device d = do {
     (p, d) \<leftarrow> iio_get_interface device d;
     case p of
       None \<Rightarrow> Some (FAILURE, d)
     | Some a \<Rightarrow> do {
         i \<leftarrow> iface_at a d;
         d \<leftarrow> iface_upd a (\<lambda>i. i\<lparr>ch_mask := 0\<rparr>) d;
         case end_transfer (dev_descriptor i) of
           None \<Rightarrow> Some (SUCCESS, d)
         | Some f \<Rightarrow> (case f (dev_instance i) (hw d) of (ret, h) \<Rightarrow> Some (ret, d\<lparr>hw := h\<rparr>))
       }
   }"

definition iio_get_mask ::
  "string \<Rightarrow> ('d, 'h) iio_desc \<Rightarrow> (int \<times> u32 option \<times> ('d, 'h) iio_desc) option" where
  "iio_get_mask device d = do {
     (p, d) \<leftarrow> iio_get_interface device d;
     case p of
       None \<Rightarrow> Some (- ENODEV, None, d)
     | Some a \<Rightarrow> do {
         i \<leftarrow> iface_at a d;
         Some (SUCCESS, Some (ch_mask i), d)
       }
   }"

section \<open>Transfers\<close>

text \<open>The loop of bytes_to_samples: first_ch and nb_active_ch.\<close>

function count_channels :: "u32 \<Rightarrow> u32 \<Rightarrow> bool \<Rightarrow> u32 \<Rightarrow> u32 \<times> u32" where
  "count_channels m first_ch found nb =
     (if m = 0 then (first_ch, nb)
      else if m AND 1 \<noteq> 0 then
        count_channels (drop_bit 1 m) (if found then first_ch + 1 else first_ch) True (nb + 1)
      else count_channels (drop_bit 1 m) first_ch found nb)"
  by pat_completeness auto
termination
  by (relation "measure (\<lambda>(m, _). unat m)")
    (auto simp only: in_measure split: prod.splits intro: unat_drop_bit_1_less)

declare count_channels.simps [simp del]

definition bytes_to_samples :: "('d, 'h) iio_interface \<Rightarrow> u32 \<Rightarrow> u32 option" where
  "bytes_to_samples intf bytes = do {
     let (first_ch, nb_active_ch) = count_channels (ch_mask intf) 0 False 0;
     chs \<leftarrow> channels (dev_descriptor intf);
     guard (unat first_ch < length chs);
     st \<leftarrow> ch_scan_type (chs ! unat first_ch);
     let bytes_per_sample = ucast (storagebits st) div 8;
     guard (bytes_per_sample \<noteq> 0 \<and> nb_active_ch \<noteq> 0);
     Some (bytes div bytes_per_sample div nb_active_ch)
   }"

definition iio_transfer_dev_to_mem ::
  "string \<Rightarrow> u32 \<Rightarrow> ('d, 'h) iio_desc \<Rightarrow> (int \<times> ('d, 'h) iio_desc) option" where
  "iio_transfer_dev_to_mem device bytes_count d = do {
     (p, d) \<leftarrow> iio_get_interface device d;
     a \<leftarrow> p;
     i \<leftarrow> iface_at a d;
     case (read_buffer i, read_dev (dev_descriptor i)) of
       (Some b, Some f) \<Rightarrow> do {
         r_buff \<leftarrow> data_bufs d b;
         if bytes_count > db_size r_buff then Some (- ENOMEM, d)
         else do {
           samples \<leftarrow> bytes_to_samples i bytes_count;
           let (ret, bs, h) = f (dev_instance i) samples (hw d);
           m \<leftarrow> mem_write (db_buff r_buff) 0 bs;
           Some (if ret < 0 then ret else sint bytes_count,
                 d\<lparr>data_bufs := (data_bufs d)(b \<mapsto> r_buff\<lparr>db_buff := m\<rparr>), hw := h\<rparr>)
         }
       }
     | _ \<Rightarrow> Some (- ENOENT, d)
   }"

text \<open>offset + bytes_count is computed in 32 bits.\<close>

definition iio_read_dev ::
  "string \<Rightarrow> u32 \<Rightarrow> u32 \<Rightarrow> ('d, 'h) iio_desc \<Rightarrow> (int \<times> u8 list \<times> ('d, 'h) iio_desc) option" where
  "iio_read_dev device offset bytes_count d = do {
     (p, d) \<leftarrow> iio_get_interface device d;
     a \<leftarrow> p;
     i \<leftarrow> iface_at a d;
     case read_buffer i of
       Some b \<Rightarrow> do {
         r_buff \<leftarrow> data_bufs d b;
         if offset + bytes_count > db_size r_buff then Some (- ENOMEM, [], d)
         else do {
           bs \<leftarrow> mem_read (db_buff r_buff) (unat offset) (unat bytes_count);
           Some (sint bytes_count, bs, d)
         }
       }
     | None \<Rightarrow> Some (- ENOENT, [], d)
   }"

definition iio_transfer_mem_to_dev ::
  "string \<Rightarrow> u32 \<Rightarrow> ('d, 'h) iio_desc \<Rightarrow> (int \<times> ('d, 'h) iio_desc) option" where
  "iio_transfer_mem_to_dev device bytes_count d = do {
     (p, d) \<leftarrow> iio_get_interface device d;
     a \<leftarrow> p;
     i \<leftarrow> iface_at a d;
     case (write_buffer i, write_dev (dev_descriptor i)) of
       (Some b, Some f) \<Rightarrow> do {
         w_buff \<leftarrow> data_bufs d b;
         if bytes_count > db_size w_buff then Some (- ENOMEM, d)
         else do {
           samples \<leftarrow> bytes_to_samples i bytes_count;
           let (ret, h) = f (dev_instance i) (db_buff w_buff) samples (hw d);
           Some (if ret < 0 then ret else sint bytes_count, d\<lparr>hw := h\<rparr>)
         }
       }
     | _ \<Rightarrow> Some (- ENOENT, d)
   }"

definition iio_write_dev ::
  "string \<Rightarrow> u8 list \<Rightarrow> u32 \<Rightarrow> u32 \<Rightarrow> ('d, 'h) iio_desc \<Rightarrow> (int \<times> ('d, 'h) iio_desc) option" where
  "iio_write_dev device buf offset bytes_count d = do {
     (p, d) \<leftarrow> iio_get_interface device d;
     a \<leftarrow> p;
     i \<leftarrow> iface_at a d;
     case write_buffer i of
       Some b \<Rightarrow> do {
         w_buff \<leftarrow> data_bufs d b;
         if offset + bytes_count > db_size w_buff then Some (- ENOMEM, d)
         else do {
           bs \<leftarrow> mem_read buf 0 (unat bytes_count);
           m \<leftarrow> mem_write (db_buff w_buff) (unat offset) bs;
           Some (sint bytes_count, d\<lparr>data_bufs := (data_bufs d)(b \<mapsto> w_buff\<lparr>db_buff := m\<rparr>)\<rparr>)
         }
       }
     | None \<Rightarrow> Some (- ENOENT, d)
   }"

definition iio_get_xml :: "bool \<Rightarrow> ('d, 'h) iio_desc \<Rightarrow> int \<times> string option" where
  "iio_get_xml outxml d = (if \<not> outxml then (FAILURE, None) else (sint (xml_size d), xml_desc d))"

text \<open>Without a network an iio_step is one command of libtinyiiod.\<close>

definition iio_step :: "(('d, 'h) iio_desc \<Rightarrow> int \<times> ('d, 'h) iio_desc) \<Rightarrow> ('d, 'h) iio_desc \<Rightarrow> int \<times> ('d, 'h) iio_desc" where
  "iio_step tinyiiod_read_command d = tinyiiod_read_command d"

section \<open>The registry\<close>

definition header_end :: string where
  "header_end = ''</context>''"

text \<open>
  \<open>realloc_ok\<close> says whether the realloc of the XML succeeds. A string that no longer fits the
  reallocated memory loses its terminator, which is undefined for the strcat that follows. When
  the push fails the XML has been freed.
\<close>

definition iio_register ::
  "bool \<Rightarrow> ('d, 'h) iio_device \<Rightarrow> string \<Rightarrow> 'd \<Rightarrow> nat option \<Rightarrow> nat option \<Rightarrow> ('d, 'h) iio_desc \<Rightarrow>
   (int \<times> ('d, 'h) iio_desc) option" where
  "iio_register realloc_ok descriptor name inst read_buff write_buff d =
     (case calloc \<lparr>dev_id = [], intf_name = name, ch_mask = 0, dev_instance = inst, active_reg_addr = 0,
                    dev_descriptor = descriptor, write_buffer = write_buff, read_buffer = read_buff\<rparr>
             (interfaces d) of
        (None, hp) \<Rightarrow> Some (- ENOMEM, d\<lparr>interfaces := hp\<rparr>)
      | (Some a, hp) \<Rightarrow> do {
          let d = d\<lparr>interfaces := hp\<rparr>;
          (n, _) \<leftarrow> iio_generate_device_xml descriptor name (sint (dev_count d)) (-1);
          let new_size = xml_size d + n;
          if \<not> realloc_ok then do {
            hp \<leftarrow> cfree a (interfaces d);
            Some (- ENOMEM, d\<lparr>interfaces := hp\<rparr>)
          }
          else do {
            xml \<leftarrow> xml_desc d;
            guard (length xml < unat new_size);
            (ret, l) \<leftarrow> ad_push (list_ops d) True (of_nat a)
                          ((interfaces_list d)\<lparr>comparator := iio_cmp_interfaces (dev_ids d)\<rparr>);
            let d = d\<lparr>interfaces_list := l\<rparr>;
            if IS_ERR_VALUE ret then do {
              hp \<leftarrow> cfree a (interfaces d);
              Some (ret, d\<lparr>interfaces := hp, xml_desc := None\<rparr>)
            }
            else do {
              (_, dev_xml) \<leftarrow> iio_generate_device_xml descriptor name (sint (dev_count d))
                                (new_size - xml_size_to_last_dev d);
              let xml = take (unat (xml_size_to_last_dev d)) xml @ dev_xml;
              let did = ''device'' @ show_int (sint (dev_count d));
              guard (length did < 10);
              d \<leftarrow> iface_upd a (\<lambda>i. i\<lparr>dev_id := did\<rparr>) d;
              let xml = xml @ header_end;
              guard (length xml < unat new_size);
              Some (SUCCESS, d\<lparr>xml_desc := Some xml,
                xml_size_to_last_dev := xml_size_to_last_dev d + n, xml_size := xml_size d + n,
                dev_count := dev_count d + 1\<rparr>)
            }
          }
        })"

text \<open>
  The temporary interface of iio_unregister has its name set and its dev_id left as it was on the
  stack (\<open>junk\<close>), which is what the comparator reads. The interface is freed before its fields
  are read.
\<close>

definition iio_unregister ::
  "string \<Rightarrow> string \<Rightarrow> ('d, 'h) iio_desc \<Rightarrow> (int \<times> ('d, 'h) iio_desc) option" where
  "iio_unregister junk name d = do {
     let ids = (dev_ids d)(unat stack_addr \<mapsto> junk);
     (ret, p, l) \<leftarrow> list_get_find True True stack_addr
                     ((interfaces_list d)\<lparr>comparator := iio_cmp_interfaces ids\<rparr>);
     let d = d\<lparr>interfaces_list := l\<rparr>;
     if IS_ERR_VALUE ret then Some (ret, d)
     else do {
       p \<leftarrow> p;
       hp \<leftarrow> cfree (unat p) (interfaces d);
       let d = d\<lparr>interfaces := hp\<rparr>;
       i \<leftarrow> iface_at (unat p) d;
       (n, _) \<leftarrow> iio_generate_device_xml (dev_descriptor i) (intf_name i) (sint (dev_count d)) (-1);
       xml \<leftarrow> xml_desc d;
       let at = unat (xml_size_to_last_dev d - n);
       guard (at + unat n \<le> length xml);
       let rest = drop (at + unat n) xml;
       Some (SUCCESS, d\<lparr>xml_desc := Some (take at xml @ rest @ drop (at + length rest) xml),
         xml_size := xml_size d - n, xml_size_to_last_dev := xml_size_to_last_dev d - n\<rparr>)
     }
   }"

text \<open>
  iio_init: the three allocations, the two of list_init and tinyiiod_create may each fail.
  \<open>hdr\<close> is the text of the array header.
\<close>

definition iio_init ::
  "string \<Rightarrow> nat option option \<Rightarrow> bool \<Rightarrow> bool \<Rightarrow> bool \<Rightarrow> bool \<Rightarrow> bool \<Rightarrow> bool \<Rightarrow> ('d, 'h) iio_interface heap \<Rightarrow>
   list_elem heap \<Rightarrow> (nat \<rightharpoonup> iio_data_buffer) \<Rightarrow> 'h \<Rightarrow> int \<times> ('d, 'h) iio_desc option" where
  "iio_init hdr init_param ops_ok desc_ok xml_ok list1_ok list2_ok create_ok hp lm bufs h =
     (case init_param of
        None \<Rightarrow> (- EINVAL, None)
      | Some uart \<Rightarrow>
          if \<not> ops_ok \<or> \<not> desc_ok \<or> \<not> xml_ok then (FAILURE, None)
          else case list_init True LIST_PRIORITY_LIST (Some (iio_cmp_interfaces (\<lambda>_. None))) list1_ok list2_ok lm of
            (ret, None) \<Rightarrow> (FAILURE, None)
          | (ret, Some (ops, l)) \<Rightarrow>
              if \<not> create_ok then (FAILURE, None)
              else (SUCCESS, Some \<lparr>interfaces = hp, interfaces_list = l, list_ops = ops,
                xml_desc = Some (hdr @ header_end),
                xml_size = of_nat (length hdr + 1 + (length header_end + 1)),
                xml_size_to_last_dev = of_nat (length hdr), dev_count = 0, phy_desc = None,
                uart_desc = uart, data_bufs = bufs, hw = h\<rparr>))"

text \<open>
  The loop of iio_remove. The result of iio_remove has the heap of the interfaces that is left and the
  handle uart_remove is called with.
\<close>

partial_function (option) iio_remove_loop :: "('d, 'h) iio_desc \<Rightarrow> ('d, 'h) iio_desc option" where
  "iio_remove_loop d = do {
     (ret, p, l) \<leftarrow> list_get_first True True (interfaces_list d);
     if ret = SUCCESS then do {
       p \<leftarrow> p;
       hp \<leftarrow> cfree (unat p) (interfaces d);
       iio_remove_loop (d\<lparr>interfaces_list := l, interfaces := hp\<rparr>)
     } else Some (d\<lparr>interfaces_list := l\<rparr>)
   }"

definition iio_remove ::
  "('d, 'h) iio_desc \<Rightarrow> (int \<times> ('d, 'h) iio_interface heap \<times> nat option) option" where
  "iio_remove d = do {
     d \<leftarrow> iio_remove_loop d;
     (ret, _) \<leftarrow> list_remove True (interfaces_list d);
     guard (xml_desc d \<noteq> None);
     Some (SUCCESS, interfaces d, phy_desc d)
   }"

section \<open>Well-formed registries\<close>

definition dev_name :: "nat \<Rightarrow> string" where
  "dev_name k = ''device'' @ show_nat k"

lemma dev_name_inj: "dev_name j = dev_name k \<longleftrightarrow> j = k"
  by (metis dev_name_def digits_val_show_nat same_append_eq)

lemma cstr_show_nat [simp]: "cstr (show_nat k)"
proof -
  have "d < 10 \<Longrightarrow> digit_char d \<noteq> CHR 0x00" for d by (simp add: digit_char_eq)
  then show ?thesis using show_nat_digits by (fastforce simp: cstr_def)
qed

lemma cstr_dev_name [simp]: "cstr (dev_name k)"
  using cstr_show_nat [of k] by (simp add: dev_name_def cstr_def)

text \<open>
  \<open>iio_rep d as\<close>: the list of the registry holds the interfaces at the addresses \<open>as\<close>, all of the
  allocated ones, with different ids that the counter has handed out.
\<close>

definition id_at :: "('d, 'h) iio_desc \<Rightarrow> nat \<Rightarrow> string" where
  "id_at d a = dev_id (the (iface_at a d))"

definition iio_rep :: "('d, 'h) iio_desc \<Rightarrow> nat list \<Rightarrow> bool" where
  "iio_rep d as \<longleftrightarrow>
     (\<exists>zs. list_rep (interfaces_list d) zs \<and> map snd zs = map of_nat as) \<and> distinct as \<and>
     set as = dom (cells (interfaces d)) \<and> heap_wf (interfaces d) \<and> brk (interfaces d) < 2 ^ 32 \<and>
     list_ops d = set_adapter LIST_PRIORITY_LIST \<and>
     (\<forall>a \<in> set as. \<exists>k < unat (dev_count d). id_at d a = dev_name k) \<and> inj_on (id_at d) (set as) \<and>
     0xffffffff \<notin> set as"

lemma iface_at_simps [simp]:
  "iface_at a (d\<lparr>interfaces_list := l\<rparr>) = iface_at a d" "iface_at a (d\<lparr>hw := h\<rparr>) = iface_at a d"
  "iface_at a (d\<lparr>data_bufs := b\<rparr>) = iface_at a d"
  by (simp_all add: iface_at_def)

lemma id_at_simps [simp]:
  "id_at (d\<lparr>interfaces_list := l\<rparr>) = id_at d" "id_at (d\<lparr>hw := h\<rparr>) = id_at d"
  "id_at (d\<lparr>data_bufs := b\<rparr>) = id_at d"
  by (simp_all add: id_at_def fun_eq_iff)

lemma iio_rep_simps [simp]:
  "iio_rep (d\<lparr>hw := h\<rparr>) as = iio_rep d as" "iio_rep (d\<lparr>data_bufs := b\<rparr>) as = iio_rep d as"
  by (simp_all add: iio_rep_def)

lemma list_rep_comparator [simp]: "list_rep (s\<lparr>comparator := c\<rparr>) zs = list_rep s zs"
  by (simp add: list_rep_def)

lemma can_add_comparator [simp]: "can_add (s\<lparr>comparator := c\<rparr>) = can_add s"
  by (simp add: can_add_def mem_ok_def)

lemma unat_stack_addr: "unat stack_addr = 0xffffffff"
  by (simp add: stack_addr_def)

lemma iio_rep_addr:
  assumes "iio_rep d as" "a \<in> set as"
  shows "unat (of_nat a :: u32) = a" "a \<noteq> 0xffffffff" "\<exists>i. iface_at a d = Some i" "cstr (id_at d a)" "a < brk (interfaces d)"
proof -
  have "a < brk (interfaces d)" "brk (interfaces d) < 2 ^ 32" "a \<in> dom (cells (interfaces d))"
    using assms by (auto simp: iio_rep_def heap_wf_def)
  then show "unat (of_nat a :: u32) = a" "\<exists>i. iface_at a d = Some i" "a < brk (interfaces d)"
    by (auto simp: unat_of_nat iface_at_def)
  show "a \<noteq> 0xffffffff" using assms by (auto simp: iio_rep_def)
  show "cstr (id_at d a)" using assms unfolding iio_rep_def by (metis cstr_dev_name)
qed

lemma find_map_of_nat:
  "find P (map of_nat as) = map_option of_nat (find (\<lambda>a. P (of_nat a)) as)"
  by (induction as) auto

lemma find_cong_set: "(\<And>a. a \<in> set as \<Longrightarrow> P a = Q a) \<Longrightarrow> find P as = find Q as"
  by (induction as) auto

lemma iio_get_interface_rep:
  assumes "iio_rep d as" "cstr name" "length name < 10"
  shows "\<exists>l. iio_get_interface name d = Some (find (\<lambda>a. id_at d a = name) as, d\<lparr>interfaces_list := l\<rparr>) \<and>
    iio_rep (d\<lparr>interfaces_list := l\<rparr>) as"
proof -
  obtain zs where zs: "list_rep (interfaces_list d) zs" "map snd zs = map of_nat as"
    using assms(1) by (auto simp: iio_rep_def)
  let ?ids = "(dev_ids d)(unat stack_addr \<mapsto> name)"
  let ?s = "(interfaces_list d)\<lparr>comparator := iio_cmp_interfaces ?ids\<rparr>"
  have cmp: "iio_cmp_interfaces ?ids (of_nat a) stack_addr = 0 \<longleftrightarrow> id_at d a = name" if a: "a \<in> set as" for a
  proof -
    note A = iio_rep_addr [OF assms(1) a]
    then obtain i where i: "iface_at a d = Some i" by blast
    then have "?ids (unat (of_nat a :: u32)) = Some (id_at d a)"
      using A(1,2) by (simp add: dev_ids_def id_at_def unat_stack_addr)
    then show ?thesis
      using A(4) assms(2) by (simp add: iio_cmp_interfaces_def strcmp_eq_0)
  qed
  have F: "find (\<lambda>x. comparator ?s x stack_addr = 0) (map snd zs) =
      map_option of_nat (find (\<lambda>a. id_at d a = name) as)"
    using find_cong_set [of as "\<lambda>a. iio_cmp_interfaces ?ids (of_nat a) stack_addr = 0"] cmp
    by (simp add: zs(2) find_map_of_nat)
  obtain l where l: "list_read_find True True stack_addr ?s =
      Some (case map_option of_nat (find (\<lambda>a. id_at d a = name) as) of
        Some x \<Rightarrow> (SUCCESS, Some x, l) | None \<Rightarrow> (FAILURE, Some 0, l))" "list_rep l zs"
    using list_read_find_rep [of ?s zs stack_addr] zs(1) unfolding F list_rep_comparator by blast
  have "iio_get_interface name d = Some (find (\<lambda>a. id_at d a = name) as, d\<lparr>interfaces_list := l\<rparr>)"
  proof (cases "find (\<lambda>a. id_at d a = name) as")
    case None
    then show ?thesis using l(1) assms(3) by (simp add: iio_get_interface_def)
  next
    case (Some a)
    then have "a \<in> set as" by (auto simp: find_Some_iff)
    then show ?thesis
      using Some l(1) assms(3) iio_rep_addr(1) [OF assms(1)] by (simp add: iio_get_interface_def)
  qed
  moreover have "iio_rep (d\<lparr>interfaces_list := l\<rparr>) as"
    using assms(1) l(2) zs(2) by (auto simp: iio_rep_def)
  ultimately show ?thesis by blast
qed

text \<open>The lookup of a registered device, by its address.\<close>

lemma iio_get_interface_at:
  assumes "iio_rep d as" "a \<in> set as" "length (id_at d a) < 10"
  shows "\<exists>l. iio_get_interface (id_at d a) d = Some (Some a, d\<lparr>interfaces_list := l\<rparr>) \<and>
    iio_rep (d\<lparr>interfaces_list := l\<rparr>) as"
proof -
  have "find (\<lambda>b. id_at d b = id_at d a) as = Some a"
  proof -
    have "\<And>b. b \<in> set as \<Longrightarrow> (id_at d b = id_at d a) = (b = a)"
      using assms(1,2) unfolding iio_rep_def by (meson inj_on_eq_iff)
    then have "find (\<lambda>b. id_at d b = id_at d a) as = find (\<lambda>b. b = a) as" by (rule find_cong_set)
    also have "\<dots> = Some a" using assms(2) by (induction as) auto
    finally show ?thesis .
  qed
  then show ?thesis
    using iio_get_interface_rep [OF assms(1) iio_rep_addr(4) [OF assms(1,2)] assms(3)] by simp
qed

section \<open>Registering a device\<close>

text \<open>The XML of the context: the header, the devices, the closing tag, in memory that holds them.\<close>

definition xml_inv :: "('d, 'h) iio_desc \<Rightarrow> string \<Rightarrow> string \<Rightarrow> bool" where
  "xml_inv d hdr devs \<longleftrightarrow> xml_desc d = Some (hdr @ devs @ header_end) \<and>
     unat (xml_size_to_last_dev d) = length (hdr @ devs) \<and>
     unat (xml_size d) = length (hdr @ devs @ header_end) + 2"

lemma length_header_end [simp]: "length header_end = 10"
  by (simp add: header_end_def)

lemma iio_init_rep:
  assumes "iio_init hdr (Some uart) True True True True True True hp lm bufs h = (SUCCESS, Some d)"
    "cells hp = Map.empty" "brk hp < 2 ^ 32" "heap_wf lm" "length hdr < 2 ^ 31"
  shows "iio_rep d [] \<and> xml_inv d hdr []"
proof -
  have d: "d = \<lparr>interfaces = hp, interfaces_list = interfaces_list d, list_ops = set_adapter LIST_PRIORITY_LIST,
      xml_desc = Some (hdr @ header_end), xml_size = of_nat (length hdr + 1 + (length header_end + 1)),
      xml_size_to_last_dev = of_nat (length hdr), dev_count = 0, phy_desc = None,
      uart_desc = uart, data_bufs = bufs, hw = h\<rparr>" "list_rep (interfaces_list d) []"
    using assms(1,4) by (auto simp: iio_init_def list_init_def list_rep_def)
  have "unat (of_nat (length hdr + 1 + (length header_end + 1)) :: u32) = length hdr + 12"
    using assms(5) by (simp add: unat_of_nat del: of_nat_add of_nat_Suc)
  moreover have "unat (of_nat (length hdr) :: u32) = length hdr" using assms(5) by (simp add: unat_of_nat)
  ultimately have "xml_inv d hdr []" by (subst d(1)) (simp add: xml_inv_def del: of_nat_add)
  moreover have "iio_rep d []"
    using d(2) assms(2,3) by (subst d(1)) (auto simp: iio_rep_def heap_wf_def)
  ultimately show ?thesis by simp
qed

lemma strcmp_dev_name_Nil: "0 < strcmp (dev_name k) []"
  by (simp add: dev_name_def)

text \<open>The push of a new interface, whose dev_id is still empty, puts it in front.\<close>

lemma iio_push_front:
  assumes "iio_rep d as" "can_add (interfaces_list d)" "a \<notin> set as" "a < 0xffffffff"
    "ids a = Some []" "\<And>b. b \<in> set as \<Longrightarrow> ids b = Some (id_at d b)"
  shows "\<exists>l zs. ad_push (list_ops d) True (of_nat a)
      ((interfaces_list d)\<lparr>comparator := iio_cmp_interfaces ids\<rparr>) = Some (SUCCESS, l) \<and>
    list_rep l zs \<and> map snd zs = map of_nat (a # as)"
proof -
  obtain zs where zs: "list_rep (interfaces_list d) zs" "map snd zs = map of_nat as"
    using assms(1) by (auto simp: iio_rep_def)
  let ?s = "(interfaces_list d)\<lparr>comparator := iio_cmp_interfaces ids\<rparr>"
  let ?P = "\<lambda>z. comparator ?s (snd z) (of_nat a) \<le> 0"
  have gt: "0 < iio_cmp_interfaces ids (of_nat b) (of_nat a)" if b: "b \<in> set as" for b
  proof -
    obtain k where "id_at d b = dev_name k" using assms(1) b by (auto simp: iio_rep_def)
    then show ?thesis
      using assms(4,5) assms(6) [OF b] iio_rep_addr(1) [OF assms(1) b] strcmp_dev_name_Nil
      by (simp add: iio_cmp_interfaces_def unat_of_nat)
  qed
  have "\<not> ?P z" if "z \<in> set zs" for z
  proof -
    have "snd z \<in> set (map snd zs)" using that by simp
    then obtain b where "b \<in> set as" "snd z = of_nat b" by (auto simp: zs(2))
    then show ?thesis using gt by (simp add: not_le)
  qed
  then have "takeWhile ?P zs = []" "dropWhile ?P zs = zs" by (cases zs; auto)+
  moreover obtain l where "list_add_find True (of_nat a) ?s = Some (SUCCESS, l)"
    "list_rep l (takeWhile ?P zs @ (brk (l_mem ?s), of_nat a) # dropWhile ?P zs)"
    using list_add_find_rep [of ?s zs "of_nat a"] zs(1) assms(2) by auto
  ultimately show ?thesis using assms(1) zs(2) by (auto simp: iio_rep_def)
qed

lemma length_show_nat_3: "k < 1000 \<Longrightarrow> length (show_nat k) \<le> 3"
  by (simp add: show_nat.simps [of k] show_nat.simps [of "k div 10"] show_nat.simps [of "k div 10 div 10"])

definition new_iface ::
  "('d, 'h) iio_device \<Rightarrow> string \<Rightarrow> 'd \<Rightarrow> nat option \<Rightarrow> nat option \<Rightarrow> string \<Rightarrow> ('d, 'h) iio_interface" where
  "new_iface descriptor name inst rb wb did = \<lparr>dev_id = did, intf_name = name, ch_mask = 0, dev_instance = inst,
     active_reg_addr = 0, dev_descriptor = descriptor, write_buffer = wb, read_buffer = rb\<rparr>"

lemma iio_rep_new:
  assumes rep: "iio_rep d as" and k: "k = unat (dev_count d)" "k < 1000"
    and a: "a = brk (interfaces d)" "a < 0xffffffff"
    and l: "list_rep l zs" "map snd zs = map of_nat (a # as)"
    and d': "interfaces d' = (interfaces d)\<lparr>cells := (cells (interfaces d))(a \<mapsto> i), brk := Suc a\<rparr>"
      "interfaces_list d' = l" "list_ops d' = list_ops d" "dev_count d' = dev_count d + 1"
    and i: "dev_id i = dev_name k"
  shows "iio_rep d' (a # as)"
proof -
  have fresh: "a \<notin> set as" using iio_rep_addr(5) [OF rep, of a] a(1) by auto
  have cnt: "unat (dev_count d') = Suc k" using k d'(4) by (simp add: unat_word_ariths)
  have same: "id_at d' b = id_at d b" if "b \<in> set as" for b
    using that fresh by (auto simp: id_at_def iface_at_def d'(1))
  have new: "id_at d' a = dev_name k" by (simp add: id_at_def iface_at_def d'(1) i)
  have old: "\<exists>j < k. id_at d b = dev_name j" if "b \<in> set as" for b
    using rep that k(1) by (auto simp: iio_rep_def)
  have "inj_on (id_at d') (set (a # as))"
  proof -
    have "inj_on (id_at d') (set as)" using rep same by (simp add: iio_rep_def inj_on_def)
    moreover have "id_at d' a \<notin> id_at d' ` set as" using old same new dev_name_inj by fastforce
    ultimately show ?thesis using fresh by simp
  qed
  moreover have "\<forall>b \<in> set (a # as). \<exists>j < unat (dev_count d'). id_at d' b = dev_name j"
    using old same new cnt by (auto simp: less_Suc_eq)
  moreover have "heap_wf (interfaces d')" "set (a # as) = dom (cells (interfaces d'))"
    using rep heap_wf_alloc [of "interfaces d" i] by (auto simp: d'(1) a(1) iio_rep_def)
  ultimately show ?thesis
    using rep fresh l a by (auto simp: iio_rep_def d')
qed

lemma iio_register_rep:
  fixes descriptor :: "('d, 'h) iio_device"
  assumes rep: "iio_rep d as" and xml: "xml_inv d hdr devs"
    and k: "k = unat (dev_count d)" "k < 1000"
    and x: "device_xml descriptor name (int k) = Some x" "length (hdr @ devs) + length x + 12 < 2 ^ 31"
    and mem: "\<not> oom (interfaces d) (brk (interfaces d))" "brk (interfaces d) < 0xffffffff"
      "can_add (interfaces_list d)"
  shows "\<exists>d'. iio_register True descriptor name inst rb wb d = Some (SUCCESS, d') \<and>
    iio_rep d' (brk (interfaces d) # as) \<and> xml_inv d' hdr (devs @ x) \<and>
    iface_at (brk (interfaces d)) d' = Some (new_iface descriptor name inst rb wb (dev_name k)) \<and>
    (\<forall>b \<in> set as. iface_at b d' = iface_at b d) \<and> hw d' = hw d \<and> data_bufs d' = data_bufs d"
proof -
  let ?a = "brk (interfaces d)"
  let ?blank = "new_iface descriptor name inst rb wb []" and ?ifc = "new_iface descriptor name inst rb wb (dev_name k)"
  let ?hp = "(interfaces d)\<lparr>cells := (cells (interfaces d))(?a \<mapsto> ?blank), brk := Suc ?a\<rparr>"
  let ?n = "of_nat (length x) :: u32"
  have fresh: "?a \<notin> set as" using iio_rep_addr(5) [OF rep, of ?a] by auto
  have cnt: "sint (dev_count d) = int k"
    using k by (subst sint_u32_small) simp_all
  have X: "xml_desc d = Some (hdr @ devs @ header_end)" "unat (xml_size_to_last_dev d) = length (hdr @ devs)"
    "unat (xml_size d) = length (hdr @ devs) + 12"
    using xml by (auto simp: xml_inv_def)
  have n: "unat ?n = length x" using x(2) by (simp add: unat_of_nat)
  have sz: "unat (xml_size d + ?n) = length (hdr @ devs) + length x + 12"
    "unat (xml_size_to_last_dev d + ?n) = length (hdr @ devs) + length x"
    using X(2,3) n x(2) by (simp_all add: unat_word_ariths)
  have bs: "unat (xml_size d + ?n - xml_size_to_last_dev d) = length x + 12"
    using sz(1) X(2) by (simp add: unat_sub word_le_nat_alt)
  then have "sint (xml_size d + ?n - xml_size_to_last_dev d) = int (length x + 12)"
    using x(2) by (subst sint_u32_small) simp_all
  then have gen: "iio_generate_device_xml descriptor name (int k)
      (xml_size d + ?n - xml_size_to_last_dev d) = Some (?n, x)"
    by (intro iio_generate_write [OF x(1)]) simp
  have ids: "dev_ids (d\<lparr>interfaces := ?hp\<rparr>) ?a = Some []"
    "\<And>b. b \<in> set as \<Longrightarrow> dev_ids (d\<lparr>interfaces := ?hp\<rparr>) b = Some (id_at d b)"
    using iio_rep_addr(3) [OF rep] fresh by (fastforce simp: dev_ids_def iface_at_def new_iface_def id_at_def)+
  obtain l zs where l: "ad_push (list_ops d) True (of_nat ?a)
      ((interfaces_list d)\<lparr>comparator := iio_cmp_interfaces (dev_ids (d\<lparr>interfaces := ?hp\<rparr>))\<rparr>) = Some (SUCCESS, l)"
    "list_rep l zs" "map snd zs = map of_nat (?a # as)"
    using iio_push_front [OF rep mem(3) fresh mem(2) ids] by blast
  have did: "''device'' @ show_int (int k) = dev_name k" "length (show_int (int k)) < 4"
    using length_show_nat_3 [OF k(2)] by (simp_all add: dev_name_def show_int_def)
  let ?d' = "d\<lparr>interfaces := ?hp\<lparr>cells := (cells ?hp)(?a \<mapsto> ?ifc)\<rparr>, interfaces_list := l,
    xml_desc := Some ((hdr @ devs) @ x @ header_end), xml_size_to_last_dev := xml_size_to_last_dev d + ?n,
    xml_size := xml_size d + ?n, dev_count := dev_count d + 1\<rparr>"
  have "iio_register True descriptor name inst rb wb d = Some (SUCCESS, ?d')"
    using mem(1) cnt iio_generate_count [OF x(1)] X sz l(1) gen did
    by (simp add: iio_register_def calloc_def iface_upd_def iface_at_def flip: new_iface_def)
      (simp add: new_iface_def)
  moreover have "iio_rep ?d' (?a # as)"
    using iio_rep_new [OF rep k refl mem(2) l(2,3), where d' = ?d' and i = ?ifc] by (simp add: new_iface_def)
  moreover have "xml_inv ?d' hdr (devs @ x)" using sz by (simp add: xml_inv_def)
  moreover have "\<forall>b \<in> set as. iface_at b ?d' = iface_at b d" using fresh by (auto simp: iface_at_def)
  ultimately show ?thesis by (intro exI [of _ ?d']) (simp add: iface_at_def)
qed

section \<open>Operations on a registered device\<close>

lemma iio_rep_id_length:
  assumes "iio_rep d as" "a \<in> set as" "unat (dev_count d) \<le> 1000"
  shows "length (id_at d a) < 10"
proof -
  obtain k where k: "k < unat (dev_count d)" "id_at d a = dev_name k" using assms(1,2) by (auto simp: iio_rep_def)
  then have "k < 1000" using assms(3) by simp
  then show ?thesis using k(2) length_show_nat_3 [of k] by (simp add: dev_name_def)
qed

lemma iface_upd_rep:
  assumes "iio_rep d as" "iface_at a d = Some i" "dev_id (f i) = dev_id i"
  shows "\<exists>d'. iface_upd a f d = Some d' \<and> iio_rep d' as \<and> iface_at a d' = Some (f i) \<and> id_at d' = id_at d \<and>
    dev_count d' = dev_count d \<and> hw d' = hw d \<and> data_bufs d' = data_bufs d"
proof -
  let ?d' = "d\<lparr>interfaces := (interfaces d)\<lparr>cells := (cells (interfaces d))(a \<mapsto> f i)\<rparr>\<rparr>"
  have id: "id_at ?d' = id_at d"
    using assms(2,3) by (auto simp: fun_eq_iff id_at_def iface_at_def)
  have "a \<in> set as" using assms(1,2) by (auto simp: iio_rep_def iface_at_def)
  then have "iio_rep ?d' as"
    using assms(1,2) id heap_wf_upd [of "interfaces d" a i] by (auto simp: iio_rep_def iface_at_def)
  then show ?thesis using assms(2) id by (auto simp: iface_upd_def iface_at_def)
qed

text \<open>
  A device that is registered, with its interface: the setting the operations below start from.
\<close>

definition registered :: "('d, 'h) iio_desc \<Rightarrow> nat list \<Rightarrow> nat \<Rightarrow> ('d, 'h) iio_interface \<Rightarrow> bool" where
  "registered d as a i \<longleftrightarrow> iio_rep d as \<and> unat (dev_count d) \<le> 1000 \<and> iface_at a d = Some i"

lemma registered_lookup:
  assumes "registered d as a i"
  shows "\<exists>l. iio_get_interface (dev_id i) d = Some (Some a, d\<lparr>interfaces_list := l\<rparr>) \<and>
    registered (d\<lparr>interfaces_list := l\<rparr>) as a i"
proof -
  have a: "a \<in> set as" using assms by (auto simp: registered_def iio_rep_def iface_at_def)
  have id: "id_at d a = dev_id i" using assms by (simp add: id_at_def registered_def)
  show ?thesis
    using iio_get_interface_at [of d as a] iio_rep_id_length [of d as a] assms a
    by (auto simp: registered_def id)
qed

lemma registered_simps [simp]:
  "registered (d\<lparr>hw := h\<rparr>) as a i = registered d as a i"
  "registered (d\<lparr>data_bufs := b\<rparr>) as a i = registered d as a i"
  by (simp_all add: registered_def)

lemma registered_upd:
  assumes "registered d as a i" "dev_id (f i) = dev_id i"
  shows "\<exists>d'. iface_upd a f d = Some d' \<and> registered d' as a (f i) \<and> hw d' = hw d \<and> data_bufs d' = data_bufs d"
  using iface_upd_rep [of d as a i f] assms by (auto simp: registered_def)

lemma mask_outside:
  assumes "1 \<le> n" "n \<le> 32"
  shows "shr32 0xFFFFFFFF (32 - n) = Some (mask n)"
    "((m :: u32) AND NOT (mask n) \<noteq> 0) = (\<exists>b \<ge> n. bit m b)"
proof -
  have "drop_bit (32 - n) (0xFFFFFFFF :: u32) = mask n"
    by (rule bit_word_eqI) (use assms in \<open>auto simp: u32_all_ones bit_simps\<close>)
  then show "shr32 0xFFFFFFFF (32 - n) = Some (mask n)" using assms by (simp add: shr32_def)
  have "bit m b \<Longrightarrow> b < 32" for b using bit_imp_le_length [of m b] by simp
  then show "(m AND NOT (mask n) \<noteq> 0) = (\<exists>b \<ge> n. bit m b)"
    by (auto simp: bit_eq_iff bit_simps not_less)
qed

lemma count_channels_card:
  "count_channels m f found nb =
   (f + of_nat (card {b. bit m b} - (if found then 0 else 1)), nb + of_nat (card {b. bit m b}))"
proof (induction m f found nb rule: count_channels.induct)
  case (1 m f found nb)
  show ?case
  proof (cases "m = 0")
    case False
    then show ?thesis
      using "1.IH" by (cases found) (auto simp: count_channels.simps [of m] card_bits_Suc [of m])
  qed (simp add: count_channels.simps)
qed

section \<open>Properties\<close>

text \<open>The empty registry iio_init leaves, for examples.\<close>

definition empty_heap :: "'e heap" where
  "empty_heap = \<lparr>cells = Map.empty, brk = 0, oom = (\<lambda>_. False)\<rparr>"

definition iio_start :: "(unit, unit) iio_desc" where
  "iio_start = \<lparr>interfaces = empty_heap,
     interfaces_list = \<lparr>l_first = None, l_last = None, nb_elements = 0,
       comparator = iio_cmp_interfaces (\<lambda>_. None), nb_iterators = 0, l_it = \<lparr>it_elem = None\<rparr>, l_mem = empty_heap\<rparr>,
     list_ops = set_adapter LIST_PRIORITY_LIST, xml_desc = Some (''<context>'' @ header_end),
     xml_size = 21, xml_size_to_last_dev = 9, dev_count = 0, phy_desc = None, uart_desc = Some 7,
     data_bufs = [0 \<mapsto> \<lparr>db_size = 4, db_buff = [1, 2, 3, 4]\<rparr>], hw = ()\<rparr>"

lemma iio_start_init:
  "iio_init ''<context>'' (Some (Some 7)) True True True True True True empty_heap empty_heap
     [0 \<mapsto> \<lparr>db_size = 4, db_buff = [1, 2, 3, 4]\<rparr>] () = (SUCCESS, Some iio_start)"
  by (simp add: iio_init_def list_init_def iio_start_def)

lemma iio_start_rep: "iio_rep iio_start []" "xml_inv iio_start ''<context>'' []"
  using iio_init_rep [OF iio_start_init] by (simp_all add: empty_heap_def heap_wf_def)

lemma iio_start_room:
  "\<not> oom (interfaces iio_start) (brk (interfaces iio_start))" "brk (interfaces iio_start) = 0"
  "can_add (interfaces_list iio_start)" "dev_count iio_start = 0"
  by (simp_all add: iio_start_def empty_heap_def can_add_def mem_ok_def)

text \<open>
  C2. Registering a device on a well formed registry: the device is found under its new id with
  the descriptor it was registered with, every earlier device is still found under its id, and the
  XML is the old one with the text of the device before the closing tag, without writing past the
  memory allocated for it.
\<close>

theorem iio_register_found:
  assumes "iio_rep d as" "xml_inv d hdr devs" "k = unat (dev_count d)" "k < 1000"
    "device_xml descriptor name (int k) = Some x" "length (hdr @ devs) + length x + 12 < 2 ^ 31"
    "\<not> oom (interfaces d) (brk (interfaces d))" "brk (interfaces d) < 0xffffffff"
    "can_add (interfaces_list d)"
  shows "\<exists>d'. iio_register True descriptor name inst rb wb d = Some (SUCCESS, d') \<and>
    xml_inv d' hdr (devs @ x) \<and>
    (\<exists>l. iio_get_interface (dev_name k) d' = Some (Some (brk (interfaces d)), d'\<lparr>interfaces_list := l\<rparr>)) \<and>
    iface_at (brk (interfaces d)) d' = Some (new_iface descriptor name inst rb wb (dev_name k)) \<and>
    (\<forall>b \<in> set as. iface_at b d' = iface_at b d \<and>
       (\<exists>l. iio_get_interface (id_at d b) d' = Some (Some b, d'\<lparr>interfaces_list := l\<rparr>)))"
proof -
  let ?a = "brk (interfaces d)"
  obtain d' where d': "iio_register True descriptor name inst rb wb d = Some (SUCCESS, d')"
    "iio_rep d' (?a # as)" "xml_inv d' hdr (devs @ x)"
    "iface_at ?a d' = Some (new_iface descriptor name inst rb wb (dev_name k))"
    "\<forall>b \<in> set as. iface_at b d' = iface_at b d"
    using iio_register_rep [OF assms] by blast
  have len: "length (id_at d' b) < 10" if "b \<in> set (?a # as)" for b
  proof -
    from that consider "b = ?a" | "b \<in> set as" by auto
    then show ?thesis
    proof cases
      case 1
      then show ?thesis using d'(4) length_show_nat_3 [OF assms(4)] by (simp add: id_at_def new_iface_def dev_name_def)
    next
      case 2
      then show ?thesis using iio_rep_id_length [OF assms(1) 2] assms(3,4) d'(5) by (simp add: id_at_def)
    qed
  qed
  have look: "\<exists>l. iio_get_interface (id_at d' b) d' = Some (Some b, d'\<lparr>interfaces_list := l\<rparr>)"
    if "b \<in> set (?a # as)" for b using iio_get_interface_at [OF d'(2) that len [OF that]] by blast
  have "id_at d' ?a = dev_name k" using d'(4) by (simp add: id_at_def new_iface_def)
  moreover have "id_at d' b = id_at d b" if "b \<in> set as" for b using d'(5) that by (simp add: id_at_def)
  ultimately show ?thesis using d'(1,3,4,5) look by fastforce
qed

theorem iio_register_found_witness:
  "\<exists>d' l. iio_register True two_ch_device ''adc'' () (Some 0) (Some 0) iio_start = Some (SUCCESS, d') \<and>
    iio_get_interface (dev_name 0) d' = Some (Some 0, d'\<lparr>interfaces_list := l\<rparr>)"
proof -
  obtain x where x: "device_xml two_ch_device ''adc'' (int 0) = Some x" "length x < 200"
  proof -
    have "show_int 0 = ''0''" by code_simp
    then have "\<exists>xml. device_xml two_ch_device ''adc'' 0 = Some xml \<and> length xml < 200"
      by (simp add: device_xml_def device_pieces_def two_ch_device_def named_pieces_def quoted_def
          channel_pieces_def print_ch_id_def voltage_ch_def)
    then show ?thesis using that by auto
  qed
  have "0 = unat (dev_count iio_start)" "(0 :: nat) < 1000" by (simp_all add: iio_start_room)
  moreover have "length (''<context>'' @ []) + length x + 12 < 2 ^ 31" using x(2) by simp
  moreover have "brk (interfaces iio_start) < 0xffffffff" by (simp add: iio_start_room)
  ultimately show ?thesis
    using iio_register_found [OF iio_start_rep _ _ x(1) _ iio_start_room(1) _ iio_start_room(3), of "()" "Some 0" "Some 0"]
    by (auto simp: iio_start_room(2))
qed

text \<open>
  Opening a registered device (without a prepare_transfer function) succeeds exactly when the
  mask has no bit beyond its channels, and the mask reported afterwards is the new one, or the old
  one when the call failed.
\<close>

theorem iio_open_checks_mask:
  assumes "registered d as a i" "n = unat (num_ch (dev_descriptor i))" "1 \<le> n" "n \<le> 32"
    "prepare_transfer (dev_descriptor i) = None"
  shows "\<exists>d' d''. iio_open_dev (dev_id i) ss m cyclic d =
      Some (if \<exists>b \<ge> n. bit m b then - ENOENT else SUCCESS, d') \<and>
    iio_get_mask (dev_id i) d' = Some (SUCCESS, Some (if \<exists>b \<ge> n. bit m b then ch_mask i else m), d'')"
proof -
  obtain l where l: "iio_get_interface (dev_id i) d = Some (Some a, d\<lparr>interfaces_list := l\<rparr>)"
    "registered (d\<lparr>interfaces_list := l\<rparr>) as a i"
    using registered_lookup [OF assms(1)] by blast
  have at: "iface_at a d = Some i" using assms(1) by (simp add: registered_def)
  note mk = mask_outside [OF assms(3,4)]
  have get: "\<exists>d''. iio_get_mask (dev_id j) e = Some (SUCCESS, Some (ch_mask j), d'')"
    if "registered e as a j" for e and j :: "('a, 'b) iio_interface"
    using registered_lookup [OF that] that by (auto simp: iio_get_mask_def registered_def)
  show ?thesis
  proof (cases "\<exists>b \<ge> n. bit m b")
    case True
    then have "m AND NOT (mask n) \<noteq> 0" using mk(2) by blast
    then have "iio_open_dev (dev_id i) ss m cyclic d = Some (- ENOENT, d\<lparr>interfaces_list := l\<rparr>)"
      using l(1) at assms(4) by (simp add: iio_open_dev_def mk(1) flip: assms(2))
    then show ?thesis using True get [OF l(2)] by auto
  next
    case False
    then have z: "m AND NOT (mask n) = 0" using mk(2) by blast
    obtain d' where d': "iface_upd a (\<lambda>i. i\<lparr>ch_mask := m\<rparr>) (d\<lparr>interfaces_list := l\<rparr>) = Some d'"
      "registered d' as a (i\<lparr>ch_mask := m\<rparr>)"
      using registered_upd [OF l(2), of "\<lambda>i. i\<lparr>ch_mask := m\<rparr>"] by auto
    then have "iio_open_dev (dev_id i) ss m cyclic d = Some (SUCCESS, d')"
      using l(1) at assms(4,5) z by (simp add: iio_open_dev_def mk(1) flip: assms(2))
    then show ?thesis using False get [OF d'(2)] by auto
  qed
qed

text \<open>
  How a client moves data: it fills the buffer of the device piece by piece with iio_write_dev
  and hands it to the driver, or it lets the driver fill the buffer and fetches it piece by
  piece with iio_read_dev. A step fails here when the call does not return its byte count.
\<close>

fun iio_write_chunks :: "string \<Rightarrow> u8 list list \<Rightarrow> u32 \<Rightarrow> ('d, 'h) iio_desc \<Rightarrow> ('d, 'h) iio_desc option" where
  "iio_write_chunks device [] offset d = Some d"
| "iio_write_chunks device (c # cs) offset d = do {
     (ret, d) \<leftarrow> iio_write_dev device c offset (of_nat (length c)) d;
     guard (ret = int (length c));
     iio_write_chunks device cs (offset + of_nat (length c)) d}"

fun iio_read_chunks :: "string \<Rightarrow> nat list \<Rightarrow> u32 \<Rightarrow> ('d, 'h) iio_desc \<Rightarrow> (u8 list \<times> ('d, 'h) iio_desc) option" where
  "iio_read_chunks device [] offset d = Some ([], d)"
| "iio_read_chunks device (n # ns) offset d = do {
     (ret, bs, d) \<leftarrow> iio_read_dev device offset (of_nat n) d;
     guard (ret = int n);
     (rest, d) \<leftarrow> iio_read_chunks device ns (offset + of_nat n) d;
     Some (bs @ rest, d)}"

text \<open>A buffer of the device: its memory has the size the descriptor says, below 2^31.\<close>

definition buffer_at :: "('d, 'h) iio_desc \<Rightarrow> nat \<Rightarrow> u8 list \<Rightarrow> bool" where
  "buffer_at d b m \<longleftrightarrow> (\<exists>db. data_bufs d b = Some db \<and> db_buff db = m \<and> unat (db_size db) = length m \<and> length m < 2 ^ 31)"

lemma range_fits:
  fixes offset sz :: u32
  assumes "unat offset + n \<le> unat sz" "unat sz < 2 ^ 31"
  shows "unat (of_nat n :: u32) = n" "sint (of_nat n :: u32) = int n" "\<not> sz < offset + of_nat n"
    "unat (offset + of_nat n) = unat offset + n"
proof -
  show n: "unat (of_nat n :: u32) = n" using assms by (simp add: unat_of_nat_u32)
  then show "sint (of_nat n :: u32) = int n" using assms sint_u32_small [of "of_nat n"] by simp
  show sum: "unat (offset + of_nat n) = unat offset + n" using assms n by (simp add: unat_word_ariths)
  then show "\<not> sz < offset + of_nat n" using assms(1) by (simp add: word_less_nat_alt)
qed

lemma iio_write_dev_at:
  assumes "registered d as a i" "write_buffer i = Some b" "buffer_at d b m" "unat offset + length c \<le> length m"
  shows "\<exists>d'. iio_write_dev (dev_id i) c offset (of_nat (length c)) d = Some (int (length c), d') \<and> registered d' as a i
    \<and> buffer_at d' b (take (unat offset) m @ c @ drop (unat offset + length c) m) \<and> hw d' = hw d"
proof -
  obtain l where l: "iio_get_interface (dev_id i) d = Some (Some a, d\<lparr>interfaces_list := l\<rparr>)"
    "registered (d\<lparr>interfaces_list := l\<rparr>) as a i"
    using registered_lookup [OF assms(1)] by blast
  have at: "iface_at a d = Some i" using assms(1) by (simp add: registered_def)
  obtain db where db: "data_bufs d b = Some db" "db_buff db = m" "unat (db_size db) = length m" "length m < 2 ^ 31"
    using assms(3) by (auto simp: buffer_at_def)
  note fits = range_fits [of offset "length c" "db_size db", unfolded db(3), OF assms(4) db(4)]
  let ?m = "take (unat offset) m @ c @ drop (unat offset + length c) m"
  let ?d' = "d\<lparr>interfaces_list := l, data_bufs := (data_bufs d)(b \<mapsto> db\<lparr>db_buff := ?m\<rparr>)\<rparr>"
  have "iio_write_dev (dev_id i) c offset (of_nat (length c)) d = Some (int (length c), ?d')"
    using l(1) at assms(2,4) db fits by (simp add: iio_write_dev_def mem_read_def mem_write_def)
  moreover have "buffer_at ?d' b ?m" using db(3,4) assms(4) by (simp add: buffer_at_def)
  moreover have "registered ?d' as a i" using l(2) by simp
  ultimately show ?thesis by (intro exI [of _ ?d']) simp
qed

lemma iio_write_chunks_at:
  assumes "registered d as a i" "write_buffer i = Some b" "buffer_at d b m" "unat offset + length (concat cs) \<le> length m"
  shows "\<exists>d'. iio_write_chunks (dev_id i) cs offset d = Some d' \<and> registered d' as a i
    \<and> buffer_at d' b (take (unat offset) m @ concat cs @ drop (unat offset + length (concat cs)) m) \<and> hw d' = hw d"
  using assms
proof (induction cs arbitrary: d m offset)
  case (Cons c cs)
  have "unat offset + length c \<le> length m" using Cons.prems(4) by simp
  from iio_write_dev_at [OF Cons.prems(1-3) this] obtain d1 where
    d1: "iio_write_dev (dev_id i) c offset (of_nat (length c)) d = Some (int (length c), d1)" "registered d1 as a i"
      "buffer_at d1 b (take (unat offset) m @ c @ drop (unat offset + length c) m)" "hw d1 = hw d" by blast
  let ?m = "take (unat offset) m @ c @ drop (unat offset + length c) m"
  have "unat offset + length c \<le> length m" "length m < 2 ^ 31" using Cons.prems(3,4) by (auto simp: buffer_at_def)
  then have off: "unat (offset + of_nat (length c)) = unat offset + length c"
    by (intro range_fits(4) [of offset "length c" "of_nat (length m)"]) (simp_all add: unat_of_nat_u32)
  have "unat (offset + of_nat (length c)) + length (concat cs) \<le> length ?m" using Cons.prems(4) by (simp add: off)
  from Cons.IH [OF d1(2) Cons.prems(2) d1(3) this] d1 Cons.prems(4) show ?case by (simp add: off ac_simps)
qed auto

text \<open>
  C34. What a client writes piece by piece reaches the driver: the pieces, written with
  iio_write_dev at consecutive offsets of the write buffer of a registered device, are all accepted with
  their lengths when they fit in the buffer, and iio_transfer_mem_to_dev passes the driver the
  buffer with the pieces in order at its start, the old bytes after them, and the number of
  samples they make, and returns the byte count, or the error of the driver. (Buffers below
  2^31 bytes.)
\<close>

theorem iio_chunks_reach_device:
  assumes "registered d as a i" "write_buffer i = Some b" "write_dev (dev_descriptor i) = Some f"
    and "buffer_at d b m" "length (concat cs) \<le> length m"
    and "bytes_to_samples i (of_nat (length (concat cs))) = Some samples"
    and "f (dev_instance i) (concat cs @ drop (length (concat cs)) m) samples (hw d) = (ret, h)"
  shows "\<exists>d1 d2. iio_write_chunks (dev_id i) cs 0 d = Some d1
    \<and> iio_transfer_mem_to_dev (dev_id i) (of_nat (length (concat cs))) d1
        = Some (if ret < 0 then ret else int (length (concat cs)), d2)
    \<and> hw d2 = h \<and> registered d2 as a i"
proof -
  let ?n = "length (concat cs)"
  have z: "unat (0 :: u32) + ?n \<le> length m" using assms(5) by simp
  from iio_write_chunks_at [OF assms(1,2,4) z] obtain d1 where
    d1: "iio_write_chunks (dev_id i) cs 0 d = Some d1" "registered d1 as a i" "buffer_at d1 b (concat cs @ drop ?n m)" "hw d1 = hw d"
    by auto
  obtain l where l: "iio_get_interface (dev_id i) d1 = Some (Some a, d1\<lparr>interfaces_list := l\<rparr>)"
    "registered (d1\<lparr>interfaces_list := l\<rparr>) as a i"
    using registered_lookup [OF d1(2)] by blast
  have at: "iface_at a d1 = Some i" using d1(2) by (simp add: registered_def)
  obtain db where db: "data_bufs d1 b = Some db" "db_buff db = concat cs @ drop ?n m" "unat (db_size db) = length m" "length m < 2 ^ 31"
    using d1(3) assms(5) by (auto simp: buffer_at_def)
  have "\<not> db_size db < of_nat ?n" "sint (of_nat ?n :: u32) = int ?n"
    using range_fits(2,3) [of 0 ?n "db_size db"] db(3,4) assms(5) by simp_all
  then have "iio_transfer_mem_to_dev (dev_id i) (of_nat ?n) d1
      = Some (if ret < 0 then ret else int ?n, d1\<lparr>interfaces_list := l, hw := h\<rparr>)"
    using l(1) at assms(2,3,6,7) db d1(4) by (simp add: iio_transfer_mem_to_dev_def)
  moreover have "registered (d1\<lparr>interfaces_list := l, hw := h\<rparr>) as a i" using l(2) by simp
  ultimately show ?thesis using d1(1) by (intro exI [of _ d1] exI [of _ "d1\<lparr>interfaces_list := l, hw := h\<rparr>"]) simp
qed

lemma iio_read_chunks_at:
  assumes "registered d as a i" "read_buffer i = Some b" "buffer_at d b m" "unat offset + sum_list ns \<le> length m"
  shows "\<exists>d'. iio_read_chunks (dev_id i) ns offset d = Some (take (sum_list ns) (drop (unat offset) m), d')
    \<and> registered d' as a i \<and> buffer_at d' b m \<and> hw d' = hw d"
  using assms
proof (induction ns arbitrary: d offset)
  case (Cons n ns)
  obtain l where l: "iio_get_interface (dev_id i) d = Some (Some a, d\<lparr>interfaces_list := l\<rparr>)"
    "registered (d\<lparr>interfaces_list := l\<rparr>) as a i"
    using registered_lookup [OF Cons.prems(1)] by blast
  have at: "iface_at a d = Some i" using Cons.prems(1) by (simp add: registered_def)
  obtain db where db: "data_bufs d b = Some db" "db_buff db = m" "unat (db_size db) = length m" "length m < 2 ^ 31"
    using Cons.prems(3) by (auto simp: buffer_at_def)
  have n: "unat offset + n \<le> unat (db_size db)" "unat (db_size db) < 2 ^ 31" using Cons.prems(4) db(3,4) by simp_all
  note fits = range_fits [OF n]
  have rd: "iio_read_dev (dev_id i) offset (of_nat n) d = Some (int n, take n (drop (unat offset) m), d\<lparr>interfaces_list := l\<rparr>)"
    using l(1) at Cons.prems(2) db n fits by (simp add: iio_read_dev_def mem_read_def)
  have "buffer_at (d\<lparr>interfaces_list := l\<rparr>) b m" using Cons.prems(3) by (simp add: buffer_at_def)
  from Cons.IH [OF l(2) Cons.prems(2) this, of "offset + of_nat n"] Cons.prems(4) obtain d' where
    "iio_read_chunks (dev_id i) ns (offset + of_nat n) (d\<lparr>interfaces_list := l\<rparr>)
      = Some (take (sum_list ns) (drop (unat offset + n) m), d')" "registered d' as a i" "buffer_at d' b m" "hw d' = hw d"
    by (auto simp: fits(4))
  then show ?case using rd by (simp add: take_add add.commute)
qed auto

text \<open>
  C13. What the driver delivers reaches the client piece by piece: iio_transfer_dev_to_mem lets
  the driver of a registered device fill its read buffer and returns the byte count, and the pieces that
  iio_read_dev then returns from consecutive offsets, cut in any way, are together the bytes
  of the driver. (Buffers below 2^31 bytes; the driver succeeds and delivers the bytes that
  were asked for, or more that fit.)
\<close>

theorem iio_device_reaches_chunks:
  assumes "registered d as a i" "read_buffer i = Some b" "read_dev (dev_descriptor i) = Some f"
    and "buffer_at d b m" "sum_list ns \<le> length bs" "length bs \<le> length m"
    and "bytes_to_samples i (of_nat (sum_list ns)) = Some samples"
    and "f (dev_instance i) samples (hw d) = (ret, bs, h)" "0 \<le> ret"
  shows "\<exists>d1 d2. iio_transfer_dev_to_mem (dev_id i) (of_nat (sum_list ns)) d = Some (int (sum_list ns), d1)
    \<and> iio_read_chunks (dev_id i) ns 0 d1 = Some (take (sum_list ns) bs, d2) \<and> hw d2 = h \<and> registered d2 as a i"
proof -
  let ?n = "sum_list ns"
  obtain l where l: "iio_get_interface (dev_id i) d = Some (Some a, d\<lparr>interfaces_list := l\<rparr>)"
    "registered (d\<lparr>interfaces_list := l\<rparr>) as a i"
    using registered_lookup [OF assms(1)] by blast
  have at: "iface_at a d = Some i" using assms(1) by (simp add: registered_def)
  obtain db where db: "data_bufs d b = Some db" "db_buff db = m" "unat (db_size db) = length m" "length m < 2 ^ 31"
    using assms(4) by (auto simp: buffer_at_def)
  have fits: "\<not> db_size db < of_nat ?n" "sint (of_nat ?n :: u32) = int ?n"
    using range_fits(2,3) [of 0 ?n "db_size db"] db(3,4) assms(5,6) by simp_all
  let ?m = "bs @ drop (length bs) m"
  let ?d1 = "d\<lparr>interfaces_list := l, data_bufs := (data_bufs d)(b \<mapsto> db\<lparr>db_buff := ?m\<rparr>), hw := h\<rparr>"
  have tr: "iio_transfer_dev_to_mem (dev_id i) (of_nat ?n) d = Some (int ?n, ?d1)"
    using l(1) at assms(2,3,6-9) db fits by (simp add: iio_transfer_dev_to_mem_def mem_write_def)
  have "registered ?d1 as a i" using l(2) by simp
  moreover have "buffer_at ?d1 b ?m" using db(3,4) assms(6) by (simp add: buffer_at_def)
  moreover have "unat (0 :: u32) + ?n \<le> length ?m" using assms(5,6) by simp
  ultimately obtain d2 where "iio_read_chunks (dev_id i) ns 0 ?d1 = Some (take ?n (drop (unat (0 :: u32)) ?m), d2)"
      "registered d2 as a i" "hw d2 = hw ?d1"
    using iio_read_chunks_at [OF _ assms(2)] by blast
  then show ?thesis using tr assms(5) by (intro exI [of _ ?d1] exI [of _ d2]) simp
qed

text \<open>A registry with one device of two channels, which reads and writes through buffer 0.\<close>

definition iface_one :: "(unit, unit) iio_interface" where
  "iface_one = new_iface two_ch_device ''adc'' () (Some 0) (Some 0) (dev_name 0)"

definition iio_one :: "(unit, unit) iio_desc" where
  "iio_one = iio_start\<lparr>interfaces := \<lparr>cells = [0 \<mapsto> iface_one], brk = 1, oom = (\<lambda>_. False)\<rparr>,
     interfaces_list := (interfaces_list iio_start)\<lparr>l_first := Some 0, l_last := Some 0, nb_elements := 1,
       l_mem := \<lparr>cells = [0 \<mapsto> \<lparr>e_data = 0, e_prev = None, e_next = None\<rparr>], brk = 1, oom = (\<lambda>_. False)\<rparr>\<rparr>,
     dev_count := 1\<rparr>"

lemma iio_one_registered: "registered iio_one [0] 0 iface_one"
proof -
  have "list_rep (interfaces_list iio_one) [(0, 0)]"
    by (simp add: list_rep_def iio_one_def last_addr_def heap_wf_def)
  then have "\<exists>zs. list_rep (interfaces_list iio_one) zs \<and> map snd zs = map of_nat [0]" by force
  moreover have at: "iface_at 0 iio_one = Some iface_one" by (simp add: iface_at_def iio_one_def)
  then have "id_at iio_one 0 = dev_name 0" by (simp add: id_at_def iface_one_def new_iface_def)
  ultimately have "iio_rep iio_one [0]"
    by (simp add: iio_rep_def) (simp add: iio_one_def heap_wf_def iio_start_def)
  with at show ?thesis by (simp add: registered_def) (simp add: iio_one_def)
qed

lemma iface_one_simps:
  "dev_id iface_one = dev_name 0" "dev_descriptor iface_one = two_ch_device"
  "write_buffer iface_one = Some 0" "read_buffer iface_one = Some 0"
  "data_bufs iio_one 0 = Some \<lparr>db_size = 4, db_buff = [1, 2, 3, 4]\<rparr>"
  by (simp_all add: iface_one_def new_iface_def iio_one_def iio_start_def)

theorem iio_open_checks_mask_witness:
  "\<exists>d' d''. iio_open_dev (dev_id iface_one) 4 4 False iio_one =
      Some (if \<exists>b \<ge> 2. bit (4 :: u32) b then - ENOENT else SUCCESS, d') \<and>
    iio_get_mask (dev_id iface_one) d' =
      Some (SUCCESS, Some (if \<exists>b \<ge> 2. bit (4 :: u32) b then ch_mask iface_one else 4), d'')"
  by (rule iio_open_checks_mask [OF iio_one_registered])
    (simp_all add: iface_one_simps two_ch_device_def)

text \<open>
  A registry with one device of two channels of 8 bits, both active, which keeps the bytes the
  driver was given and delivers them again.
\<close>

definition memory_device :: "(unit, u8 list) iio_device" where
  "memory_device = (let st = \<lparr>scan_sign = CHR ''u'', realbits = 8, storagebits = 8, scan_shift = 0, is_big_endian = False\<rparr>;
      ch = (\<lambda>n. \<lparr>ch_name = None, ch_type = IIO_VOLTAGE, channel = n, channel2 = 0, ch_address = 0, scan_index = n,
        ch_scan_type = Some st, ch_attributes = None, ch_out = True, modified = False, indexed = True, diferential = False\<rparr>)
    in \<lparr>num_ch = 2, channels = Some [ch 0, ch 1], attributes = None,
     debug_attributes = None, buffer_attributes = None, prepare_transfer = None, end_transfer = None,
     read_dev = Some (\<lambda>_ n h. (0, h, h)), write_dev = Some (\<lambda>_ buf n h. (0, take (2 * unat n) buf)),
     dev_debug_reg_read = None, dev_debug_reg_write = None\<rparr>)"

definition memory_iface :: "(unit, u8 list) iio_interface" where
  "memory_iface = (new_iface memory_device ''mem'' () (Some 1) (Some 0) (dev_name 0))\<lparr>ch_mask := 3\<rparr>"

definition iio_mem :: "(unit, u8 list) iio_desc" where
  "iio_mem = \<lparr>interfaces = \<lparr>cells = [0 \<mapsto> memory_iface], brk = 1, oom = (\<lambda>_. False)\<rparr>,
     interfaces_list = interfaces_list iio_one, list_ops = list_ops iio_one, xml_desc = xml_desc iio_one,
     xml_size = xml_size iio_one, xml_size_to_last_dev = xml_size_to_last_dev iio_one, dev_count = 1,
     phy_desc = None, uart_desc = Some 7,
     data_bufs = [0 \<mapsto> \<lparr>db_size = 6, db_buff = [1, 2, 3, 4, 5, 6]\<rparr>, 1 \<mapsto> \<lparr>db_size = 8, db_buff = replicate 8 0\<rparr>],
     hw = [7, 8, 9, 10]\<rparr>"

lemma iio_mem_registered: "registered iio_mem [0] 0 memory_iface"
proof -
  have "\<exists>zs. list_rep (interfaces_list iio_mem) zs \<and> map snd zs = map of_nat [0]"
    using iio_one_registered by (simp add: registered_def iio_rep_def iio_mem_def)
  moreover have at: "iface_at 0 iio_mem = Some memory_iface" by (simp add: iface_at_def iio_mem_def)
  then have "id_at iio_mem 0 = dev_name 0" by (simp add: id_at_def memory_iface_def new_iface_def)
  ultimately have "iio_rep iio_mem [0]"
    by (simp add: iio_rep_def) (simp add: iio_mem_def iio_one_def heap_wf_def iio_start_def)
  with at show ?thesis by (simp add: registered_def) (simp add: iio_mem_def)
qed

lemma memory_samples: "bytes_to_samples memory_iface 4 = Some 2"
  by (simp add: bytes_to_samples_def memory_iface_def memory_device_def new_iface_def count_channels.simps Let_def)

theorem iio_chunks_reach_device_witness:
  "\<exists>d1 d2. iio_write_chunks (dev_id memory_iface) [[21, 22, 23], [24]] 0 iio_mem = Some d1
    \<and> iio_transfer_mem_to_dev (dev_id memory_iface) 4 d1 = Some (4, d2) \<and> hw d2 = [21, 22, 23, 24]"
proof -
  obtain f where f: "write_dev (dev_descriptor memory_iface) = Some f" "f = (\<lambda>_ buf n h. (0, take (2 * unat n) buf))"
    by (simp add: memory_iface_def new_iface_def memory_device_def Let_def)
  have "write_buffer memory_iface = Some 0" "buffer_at iio_mem 0 [1, 2, 3, 4, 5, 6]"
    by (simp_all add: memory_iface_def new_iface_def buffer_at_def iio_mem_def)
  from iio_chunks_reach_device [OF iio_mem_registered this(1) f(1) this(2), of "[[21, 22, 23], [24]]" 2 0 "[21, 22, 23, 24]"]
  show ?thesis by (simp add: memory_samples f(2)) blast
qed

theorem iio_device_reaches_chunks_witness:
  "\<exists>d1 d2. iio_transfer_dev_to_mem (dev_id memory_iface) 4 iio_mem = Some (4, d1)
    \<and> iio_read_chunks (dev_id memory_iface) [1, 3] 0 d1 = Some ([7, 8, 9, 10], d2)"
proof -
  obtain f where f: "read_dev (dev_descriptor memory_iface) = Some f" "f = (\<lambda>_ n h. (0, h, h))"
    by (simp add: memory_iface_def new_iface_def memory_device_def Let_def)
  have "read_buffer memory_iface = Some 1" "buffer_at iio_mem 1 (replicate 8 0)"
    by (simp_all add: memory_iface_def new_iface_def buffer_at_def iio_mem_def)
  from iio_device_reaches_chunks [OF iio_mem_registered this(1) f(1) this(2), of "[1, 3]" "[7, 8, 9, 10]" 2 0 "[7, 8, 9, 10]"]
  show ?thesis by (simp add: memory_samples f(2) iio_mem_def) blast
qed

text \<open>
  The bounds check of iio_read_dev adds in 32 bits: when offset and count wrap past 2^32 to a
  small sum, the check passes and the copy reads outside the buffer.
\<close>

theorem iio_read_dev_wraps:
  assumes "registered d as a i" "read_buffer i = Some b" "data_bufs d b = Some db"
    "length (db_buff db) = unat (db_size db)" "2 ^ 32 \<le> unat offset + unat n" "offset + n \<le> db_size db"
  shows "iio_read_dev (dev_id i) offset n d = None"
proof -
  obtain l where l: "iio_get_interface (dev_id i) d = Some (Some a, d\<lparr>interfaces_list := l\<rparr>)"
    using registered_lookup [OF assms(1)] by blast
  have at: "iface_at a d = Some i" using assms(1) by (simp add: registered_def)
  have "unat (db_size db) < 4294967296" "4294967296 \<le> unat offset + unat n"
    using assms(5) unat_u32_less [of "db_size db"] by simp_all
  then have "\<not> unat offset + unat n \<le> length (db_buff db)" using assms(4) by linarith
  then show ?thesis using l at assms(2,3,6) by (simp add: iio_read_dev_def mem_read_def not_less)
qed

theorem iio_read_dev_wraps_witness: "iio_read_dev (dev_id iface_one) 0xffffffff 2 iio_one = None"
  by (rule iio_read_dev_wraps [OF iio_one_registered iface_one_simps(4,5)]) simp_all

text \<open>
  iio_unregister cannot succeed: the id it searches for is whatever the stack holds; when it is
  the id of no device the call fails, and when it is the id of one the interface is read after it
  was freed.
\<close>

theorem iio_unregister_never_succeeds:
  assumes "iio_rep d as" "cstr junk"
  shows "(if junk \<in> id_at d ` set as then iio_unregister junk name d = None
    else (\<exists>d'. iio_unregister junk name d = Some (FAILURE, d')))"
proof -
  obtain zs where zs: "list_rep (interfaces_list d) zs" "map snd zs = map of_nat as"
    using assms(1) by (auto simp: iio_rep_def)
  let ?ids = "(dev_ids d)(unat stack_addr \<mapsto> junk)"
  let ?s = "(interfaces_list d)\<lparr>comparator := iio_cmp_interfaces ?ids\<rparr>"
  have cmp: "iio_cmp_interfaces ?ids (of_nat a) stack_addr = 0 \<longleftrightarrow> id_at d a = junk" if a: "a \<in> set as" for a
    using iio_rep_addr [OF assms(1) a] assms(2)
    by (auto simp: iio_cmp_interfaces_def dev_ids_def id_at_def unat_stack_addr strcmp_eq_0)
  have zd: "\<exists>a \<in> set as. snd z = of_nat a" if "z \<in> set zs" for z
  proof -
    have "snd z \<in> set (map snd zs)" using that by simp
    then show ?thesis by (auto simp: zs(2))
  qed
  show ?thesis
  proof (cases "\<exists>z \<in> set zs. comparator ?s (snd z) stack_addr = 0")
    case True
    then obtain us z vs where z: "zs = us @ z # vs" "comparator ?s (snd z) stack_addr = 0"
      "\<forall>y \<in> set us. comparator ?s (snd y) stack_addr \<noteq> 0"
      using split_list_first_prop [of zs "\<lambda>z. comparator ?s (snd z) stack_addr = 0"] by blast
    then obtain a where a: "a \<in> set as" "snd z = of_nat a" using zd [of z] by auto
    have "junk \<in> id_at d ` set as" using cmp [OF a(1)] z(2) a by auto
    moreover have "list_rep ?s (us @ (fst z, of_nat a) # vs)" using zs(1) z(1) by (simp flip: a(2))
    then obtain l where l: "list_get_find True True stack_addr ?s = Some (SUCCESS, Some (of_nat a), l)"
      using list_get_find_rep [of ?s us "fst z" "of_nat a" vs stack_addr] z(2,3) a(2) by auto
    have "unat (of_nat a :: u32) = a" "\<exists>i. iface_at a d = Some i" using iio_rep_addr [OF assms(1) a(1)] by auto
    then have "iio_unregister junk name d = None"
      using l by (auto simp: iio_unregister_def cfree_def iface_at_def)
    ultimately show ?thesis by simp
  next
    case False
    then obtain l where "list_get_find True True stack_addr ?s = Some (FAILURE, Some 0, l)"
      using list_get_find_none [of ?s zs stack_addr] zs(1) by auto
    then have "\<exists>d'. iio_unregister junk name d = Some (FAILURE, d')" by (simp add: iio_unregister_def)
    moreover have "junk \<notin> id_at d ` set as"
    proof
      assume "junk \<in> id_at d ` set as"
      then obtain a where a: "a \<in> set as" "id_at d a = junk" by auto
      then have "of_nat a \<in> set (map snd zs)" by (simp add: zs(2))
      then show False using False cmp [OF a(1)] a(2) by auto
    qed
    ultimately show ?thesis by simp
  qed
qed

theorem iio_unregister_never_succeeds_witness:
  "iio_unregister (dev_name 0) ''adc'' iio_one = None"
proof -
  have "iio_rep iio_one [0]" "id_at iio_one 0 = dev_name 0"
    using iio_one_registered by (simp_all add: registered_def id_at_def iface_one_simps)
  then show ?thesis using iio_unregister_never_succeeds [of iio_one "[0]" "dev_name 0" "''adc''"] by simp
qed

text \<open>
  bytes_to_samples takes the sample size from the channel whose index is one less than the number
  of active channels, not from the first active channel: with only channel 1 active it reads the
  scan type of channel 0.
\<close>

theorem bytes_to_samples_wrong_channel:
  assumes "ch_mask intf = 2" "channels (dev_descriptor intf) = Some (ch0 # ch1 # chs)"
    "ch_scan_type ch0 = Some st0" "8 \<le> unat (storagebits st0)"
  shows "bytes_to_samples intf bytes = Some (bytes div (ucast (storagebits st0) div 8))"
proof -
  have "bit (2 :: u32) b \<longleftrightarrow> b = 1" for b using bit_exp_iff [of 1 b, where ?'a = u32] by auto
  then have "count_channels 2 0 False 0 = (0, 1)" by (simp add: count_channels_card)
  moreover have "(ucast (storagebits st0) div 8 :: u32) \<noteq> 0"
  proof
    assume "(ucast (storagebits st0) div 8 :: u32) = 0"
    then have "unat (ucast (storagebits st0) div 8 :: u32) = 0" by simp
    moreover have "unat (ucast (storagebits st0) :: u32) = unat (storagebits st0)"
    proof -
      have "unat (storagebits st0) < 4294967296" by (rule less_le_trans [OF unat_u8_less]) simp
      then show ?thesis by (simp add: unsigned_ucast_eq take_bit_nat_eq_self_iff)
    qed
    ultimately show False using assms(4) by (simp add: unat_div div_eq_0_iff)
  qed
  ultimately show ?thesis using assms(1-3) by (simp add: bytes_to_samples_def)
qed

definition scan16 :: scan_type where
  "scan16 = \<lparr>scan_sign = CHR ''s'', realbits = 12, storagebits = 16, scan_shift = 0, is_big_endian = False\<rparr>"

theorem bytes_to_samples_wrong_channel_witness:
  "bytes_to_samples (iface_one\<lparr>ch_mask := 2, dev_descriptor := two_ch_device\<lparr>channels :=
     Some [(voltage_ch 0 False)\<lparr>ch_scan_type := Some scan16\<rparr>,
           (voltage_ch 1 False)\<lparr>ch_scan_type := Some (scan16\<lparr>storagebits := 32\<rparr>)\<rparr>]\<rparr>\<rparr>) 8 = Some 4"
proof -
  have "(8 :: u32) div (ucast (storagebits scan16) div 8) = 4" by (simp add: scan16_def)
  then show ?thesis
    by (subst bytes_to_samples_wrong_channel [where ?st0.0 = scan16 and chs = "[]"
          and ?ch1.0 = "(voltage_ch 1 False)\<lparr>ch_scan_type := Some (scan16\<lparr>storagebits := 32\<rparr>)\<rparr>"
          and ?ch0.0 = "(voltage_ch 0 False)\<lparr>ch_scan_type := Some scan16\<rparr>"])
      (simp_all add: scan16_def)
qed

lemma iio_remove_loop_rep:
  assumes "list_rep (interfaces_list d) zs" "map snd zs = map of_nat as" "distinct as"
    "\<And>a. a \<in> set as \<Longrightarrow> unat (of_nat a :: u32) = a \<and> a \<in> dom (cells (interfaces d))"
  shows "\<exists>d'. iio_remove_loop d = Some d' \<and> list_rep (interfaces_list d') [] \<and>
    nb_iterators (interfaces_list d') = nb_iterators (interfaces_list d) \<and>
    dom (cells (interfaces d')) = dom (cells (interfaces d)) - set as \<and>
    xml_desc d' = xml_desc d \<and> phy_desc d' = phy_desc d"
  using assms
proof (induction as arbitrary: d zs)
  case Nil
  then show ?case using list_get_first_empty by (subst iio_remove_loop.simps) auto
next
  case (Cons a as)
  then obtain x ys where zs: "zs = (x, of_nat a) # ys" "map snd ys = map of_nat as" by (cases zs) auto
  then obtain l where l: "list_get_first True True (interfaces_list d) = Some (SUCCESS, Some (of_nat a), l)"
    "list_rep l ys" "nb_iterators l = nb_iterators (interfaces_list d)"
    using list_get_first_rep [of "interfaces_list d" x "of_nat a" ys] Cons.prems(1) by (auto simp: same_desc_def)
  let ?hp = "(interfaces d)\<lparr>cells := (cells (interfaces d))(a := None)\<rparr>"
  define d1 where "d1 = d\<lparr>interfaces_list := l, interfaces := ?hp\<rparr>"
  have d1: "interfaces_list d1 = l" "dom (cells (interfaces d1)) = dom (cells (interfaces d)) - {a}"
    "xml_desc d1 = xml_desc d" "phy_desc d1 = phy_desc d" by (simp_all add: d1_def)
  have free: "cfree (unat (of_nat a :: u32)) (interfaces d) = Some ?hp"
    using Cons.prems(4) [of a] by (auto simp: cfree_def)
  have dom1: "unat (of_nat b :: u32) = b \<and> b \<in> dom (cells (interfaces d1))" if "b \<in> set as" for b
    using Cons.prems(3) Cons.prems(4) [of b] that by (auto simp: d1(2))
  have "list_rep (interfaces_list d1) ys" "distinct as" using l(2) Cons.prems(3) by (simp_all add: d1(1))
  from Cons.IH [OF this(1) zs(2) this(2) dom1] obtain d' where "iio_remove_loop d1 = Some d'"
    "list_rep (interfaces_list d') []" "nb_iterators (interfaces_list d') = nb_iterators l"
    "dom (cells (interfaces d')) = dom (cells (interfaces d1)) - set as" "xml_desc d' = xml_desc d"
    "phy_desc d' = phy_desc d"
    by (auto simp: d1(1,3,4))
  then show ?case using l free by (subst iio_remove_loop.simps) (auto simp: d1(2) d1_def [symmetric])
qed

text \<open>
  iio_remove frees every interface; and it removes the UART through phy_desc, which nothing sets,
  and not through the uart_desc that iio_init stored.
\<close>

theorem iio_remove_frees_interfaces:
  assumes "iio_rep d as" "nb_iterators (interfaces_list d) = 0" "xml_desc d \<noteq> None"
  shows "\<exists>hp. iio_remove d = Some (SUCCESS, hp, phy_desc d) \<and> cells hp = Map.empty"
proof -
  obtain zs where zs: "list_rep (interfaces_list d) zs" "map snd zs = map of_nat as"
    using assms(1) by (auto simp: iio_rep_def)
  have as: "distinct as" "\<And>a. a \<in> set as \<Longrightarrow> unat (of_nat a :: u32) = a \<and> a \<in> dom (cells (interfaces d))"
    using assms(1) iio_rep_addr(1) [OF assms(1)] by (auto simp: iio_rep_def)
  obtain d' where d': "iio_remove_loop d = Some d'" "list_rep (interfaces_list d') []"
    "nb_iterators (interfaces_list d') = 0" "dom (cells (interfaces d')) = dom (cells (interfaces d)) - set as"
    "xml_desc d' = xml_desc d" "phy_desc d' = phy_desc d"
    using iio_remove_loop_rep [OF zs as] assms(2) by auto
  moreover have "dom (cells (interfaces d')) = {}" using d'(4) assms(1) by (auto simp: iio_rep_def)
  then have "cells (interfaces d') = Map.empty" by simp
  moreover obtain s' where "remove_loop (interfaces_list d') = Some s'" using remove_loop_rep [OF d'(2)] by blast
  ultimately show ?thesis using assms(3) by (simp add: iio_remove_def list_remove_def)
qed

theorem iio_remove_frees_interfaces_witness:
  "\<exists>hp. iio_remove iio_one = Some (SUCCESS, hp, None) \<and> cells hp = Map.empty \<and> uart_desc iio_one = Some 7"
proof -
  have "iio_rep iio_one [0]" using iio_one_registered by (simp add: registered_def)
  moreover have "nb_iterators (interfaces_list iio_one) = 0" "xml_desc iio_one \<noteq> None" "phy_desc iio_one = None"
    "uart_desc iio_one = Some 7" by (simp_all add: iio_one_def iio_start_def)
  ultimately show ?thesis using iio_remove_frees_interfaces [of iio_one "[0]"] by auto
qed

end
