(* ===== verification/Axi_Io.thy ===== *)
theory Axi_Io
  imports Util "HOL-Library.State_Monad"
begin

text \<open>
  Access to the memory mapped registers of an FPGA core: the Xilinx variant of axi_io.c.
  The bus behind it (Xil_In32 and Xil_Out32 of the vendor's library, and the core that
  answers) is a parameter: a read may change the state of the hardware, since time passes
  and status bits are cleared by reading, and a write only has an effect. The drivers of
  the cores run in the state monad over the state of that hardware.
\<close>

section \<open>The bus\<close>

record 's axi_bus =
  Xil_In32 :: "u32 \<Rightarrow> 's \<Rightarrow> u32 \<times> 's"
  Xil_Out32 :: "u32 \<Rightarrow> u32 \<Rightarrow> 's \<Rightarrow> 's"

text \<open>The data comes back through the pointer argument, beside the return code.\<close>

definition axi_io_read :: "'s axi_bus \<Rightarrow> u32 \<Rightarrow> u32 \<Rightarrow> ('s, int \<times> u32) state" where
  "axi_io_read bus base offset = State (\<lambda>s.
     (case Xil_In32 bus (base + offset) s of (data, s') \<Rightarrow> ((SUCCESS, data), s')))"

definition axi_io_write :: "'s axi_bus \<Rightarrow> u32 \<Rightarrow> u32 \<Rightarrow> u32 \<Rightarrow> ('s, int) state" where
  "axi_io_write bus base offset data =
     State (\<lambda>s. (SUCCESS, Xil_Out32 bus (base + offset) data s))"

section \<open>Sequences of register writes\<close>

text \<open>What a list of writes to the core at \<open>base\<close> leaves in the hardware.\<close>

primrec writes :: "'s axi_bus \<Rightarrow> u32 \<Rightarrow> (u32 \<times> u32) list \<Rightarrow> 's \<Rightarrow> 's" where
  "writes bus base [] s = s"
| "writes bus base (w # ws) s = writes bus base ws (Xil_Out32 bus (base + fst w) (snd w) s)"

lemma writes_append: "writes bus base (us @ vs) s = writes bus base vs (writes bus base us s)"
  by (induction us arbitrary: s) simp_all

lemma run_axi_io_read [simp]:
  "run_state (axi_io_read bus base offset) s =
     ((SUCCESS, fst (Xil_In32 bus (base + offset) s)), snd (Xil_In32 bus (base + offset) s))"
  by (simp add: axi_io_read_def split_beta)

lemma run_axi_io_write [simp]:
  "run_state (axi_io_write bus base offset data) s = (SUCCESS, Xil_Out32 bus (base + offset) data s)"
  by (simp add: axi_io_write_def)

section \<open>A bus that records\<close>

text \<open>
  The hardware the concrete runs use: registers keep what is written to them, reads have no
  effect, and the writes are kept in order, the latest first.
\<close>

record reg_file =
  regs :: "u32 \<Rightarrow> u32"
  log :: "(u32 \<times> u32) list"

definition reg_file_bus :: "reg_file axi_bus" where
  "reg_file_bus = \<lparr>Xil_In32 = (\<lambda>a s. (regs s a, s)),
     Xil_Out32 = (\<lambda>a v s. s\<lparr>regs := (regs s)(a := v), log := (a, v) # log s\<rparr>)\<rparr>"

lemma reg_file_bus_simps [simp]:
  "Xil_In32 reg_file_bus a s = (regs s a, s)"
  "Xil_Out32 reg_file_bus a v s = s\<lparr>regs := (regs s)(a := v), log := (a, v) # log s\<rparr>"
  by (simp_all add: reg_file_bus_def)

end
