(* ===== verification/Axi_Dmac.thy ===== *)
theory Axi_Dmac
  imports Axi_Io
begin

text \<open>
  The driver of the AXI DMA controller, drivers/axi_core/axi_dmac: one-burst transfers, big
  transfers that the interrupt handler continues burst by burst, the blocking transfer with
  its polling loops, and creation and removal of the descriptor. The controller is the bus
  parameter. Interrupts are a second parameter: before each poll \<open>irq\<close> lets time pass in the
  hardware and says whether the interrupt controller calls axi_dmac_default_isr.
\<close>

section \<open>Registers and data\<close>

definition AXI_DMAC_REG_IRQ_MASK :: u32 where [simp]: "AXI_DMAC_REG_IRQ_MASK = 0x80"
definition AXI_DMAC_REG_IRQ_PENDING :: u32 where [simp]: "AXI_DMAC_REG_IRQ_PENDING = 0x84"
definition AXI_DMAC_IRQ_SOT :: u32 where [simp]: "AXI_DMAC_IRQ_SOT = 1"
definition AXI_DMAC_IRQ_EOT :: u32 where [simp]: "AXI_DMAC_IRQ_EOT = 2"
definition AXI_DMAC_REG_CTRL :: u32 where [simp]: "AXI_DMAC_REG_CTRL = 0x400"
definition AXI_DMAC_CTRL_ENABLE :: u32 where [simp]: "AXI_DMAC_CTRL_ENABLE = 1"
definition AXI_DMAC_REG_TRANSFER_ID :: u32 where [simp]: "AXI_DMAC_REG_TRANSFER_ID = 0x404"
definition AXI_DMAC_REG_START_TRANSFER :: u32 where [simp]: "AXI_DMAC_REG_START_TRANSFER = 0x408"
definition AXI_DMAC_REG_FLAGS :: u32 where [simp]: "AXI_DMAC_REG_FLAGS = 0x40c"
definition AXI_DMAC_REG_DEST_ADDRESS :: u32 where [simp]: "AXI_DMAC_REG_DEST_ADDRESS = 0x410"
definition AXI_DMAC_REG_SRC_ADDRESS :: u32 where [simp]: "AXI_DMAC_REG_SRC_ADDRESS = 0x414"
definition AXI_DMAC_REG_X_LENGTH :: u32 where [simp]: "AXI_DMAC_REG_X_LENGTH = 0x418"
definition AXI_DMAC_REG_Y_LENGTH :: u32 where [simp]: "AXI_DMAC_REG_Y_LENGTH = 0x41c"
definition AXI_DMAC_REG_DEST_STRIDE :: u32 where [simp]: "AXI_DMAC_REG_DEST_STRIDE = 0x420"
definition AXI_DMAC_REG_SRC_STRIDE :: u32 where [simp]: "AXI_DMAC_REG_SRC_STRIDE = 0x424"
definition AXI_DMAC_REG_TRANSFER_DONE :: u32 where [simp]: "AXI_DMAC_REG_TRANSFER_DONE = 0x428"
definition DMA_CYCLIC :: u32 where [simp]: "DMA_CYCLIC = 1"

text \<open>A C enum can hold a value that is no enumerator: the default branches of the switches.\<close>

datatype dma_direction = DMA_DEV_TO_MEM | DMA_MEM_TO_DEV | DMA_UNKNOWN u32

record axi_dma_transfer =
  tsize :: u32
  address :: u32
  size_done :: u32
  transfer_done :: bool

record axi_dmac =
  name :: string
  base :: u32
  direction :: dma_direction
  flags :: u32
  transfer_max_size :: u32
  big_transfer :: axi_dma_transfer

record axi_dmac_init_param =
  init_name :: string
  init_base :: u32
  init_direction :: dma_direction
  init_flags :: u32

text \<open>The descriptor, which the program and the handler share, and the hardware.\<close>

record 's dmac_sys =
  dmac :: axi_dmac
  hw :: 's

definition set_big :: "u32 \<Rightarrow> u32 \<Rightarrow> u32 \<Rightarrow> axi_dmac \<Rightarrow> axi_dmac" where
  "set_big addr sz dn d =
     d\<lparr>big_transfer := (big_transfer d)\<lparr>address := addr, tsize := sz, size_done := dn\<rparr>\<rparr>"

definition modify_dmac :: "(axi_dmac \<Rightarrow> axi_dmac) \<Rightarrow> ('s dmac_sys, unit) state" where
  "modify_dmac f = State (\<lambda>st. ((), st\<lparr>dmac := f (dmac st)\<rparr>))"

definition dmac_get :: "('s dmac_sys, axi_dmac) state" where
  "dmac_get = State (\<lambda>st. (dmac st, st))"

section \<open>Register access\<close>

definition axi_dmac_read :: "'s axi_bus \<Rightarrow> u32 \<Rightarrow> ('s dmac_sys, int \<times> u32) state" where
  "axi_dmac_read bus reg_addr = State (\<lambda>st.
     (case run_state (axi_io_read bus (base (dmac st)) reg_addr) (hw st) of
        ((_, reg_data), s') \<Rightarrow> ((SUCCESS, reg_data), st\<lparr>hw := s'\<rparr>)))"

definition axi_dmac_write :: "'s axi_bus \<Rightarrow> u32 \<Rightarrow> u32 \<Rightarrow> ('s dmac_sys, int) state" where
  "axi_dmac_write bus reg_addr reg_data = State (\<lambda>st.
     (case run_state (axi_io_write bus (base (dmac st)) reg_addr reg_data) (hw st) of
        (_, s') \<Rightarrow> (SUCCESS, st\<lparr>hw := s'\<rparr>)))"

text \<open>The switch on the direction; False where the source returns from its default branch.\<close>

definition set_burst_address :: "'s axi_bus \<Rightarrow> u32 \<Rightarrow> ('s dmac_sys, bool) state" where
  "set_burst_address bus addr = do {
     d \<leftarrow> dmac_get;
     (case direction d of
        DMA_DEV_TO_MEM \<Rightarrow> do {
          axi_dmac_write bus AXI_DMAC_REG_DEST_ADDRESS addr;
          axi_dmac_write bus AXI_DMAC_REG_DEST_STRIDE 0;
          State_Monad.return True}
      | DMA_MEM_TO_DEV \<Rightarrow> do {
          axi_dmac_write bus AXI_DMAC_REG_SRC_ADDRESS addr;
          axi_dmac_write bus AXI_DMAC_REG_SRC_STRIDE 0;
          State_Monad.return True}
      | DMA_UNKNOWN _ \<Rightarrow> State_Monad.return False)}"

section \<open>The interrupt handler\<close>

definition isr_end_of_transfer :: "u32 \<Rightarrow> ('s dmac_sys, unit) state" where
  "isr_end_of_transfer reg_val =
     (if reg_val AND AXI_DMAC_IRQ_EOT \<noteq> 0
      then modify_dmac (\<lambda>d. d\<lparr>big_transfer :=
             \<lparr>tsize = 0, address = 0, size_done = 0, transfer_done = True\<rparr>\<rparr>)
      else State_Monad.return ())"

definition axi_dmac_default_isr :: "'s axi_bus \<Rightarrow> ('s dmac_sys, unit) state" where
  "axi_dmac_default_isr bus = do {
     (_, reg_val) \<leftarrow> axi_dmac_read bus AXI_DMAC_REG_IRQ_PENDING;
     axi_dmac_write bus AXI_DMAC_REG_IRQ_PENDING reg_val;
     d \<leftarrow> dmac_get;
     if reg_val AND AXI_DMAC_IRQ_SOT \<noteq> 0 \<and> tsize (big_transfer d) \<noteq> 0
     then (let bt = big_transfer d;
               remaining_size = tsize bt - size_done bt;
               burst_size = (if remaining_size \<le> transfer_max_size d
                             then remaining_size else transfer_max_size d) in do {
       modify_dmac (set_big (address bt + burst_size) (tsize bt) (size_done bt + burst_size));
       known \<leftarrow> set_burst_address bus (address bt + burst_size);
       if \<not> known then State_Monad.return ()
       else do {
         axi_dmac_write bus AXI_DMAC_REG_X_LENGTH burst_size;
         axi_dmac_write bus AXI_DMAC_REG_Y_LENGTH 0;
         axi_dmac_write bus AXI_DMAC_REG_START_TRANSFER 1;
         isr_end_of_transfer reg_val}})
     else isr_end_of_transfer reg_val}"

section \<open>Starting a transfer\<close>

definition start_transfer :: "'s axi_bus \<Rightarrow> u32 \<Rightarrow> ('s dmac_sys, unit) state" where
  "start_transfer bus x_length = do {
     axi_dmac_write bus AXI_DMAC_REG_X_LENGTH x_length;
     axi_dmac_write bus AXI_DMAC_REG_Y_LENGTH 0;
     d \<leftarrow> dmac_get;
     axi_dmac_write bus AXI_DMAC_REG_FLAGS (flags d);
     axi_dmac_write bus AXI_DMAC_REG_START_TRANSFER 1;
     State_Monad.return ()}"

definition axi_dmac_transfer_nonblocking ::
  "'s axi_bus \<Rightarrow> u32 \<Rightarrow> u32 \<Rightarrow> ('s dmac_sys, int) state" where
  "axi_dmac_transfer_nonblocking bus addr sz =
     (if sz = 0 then State_Monad.return SUCCESS
      else do {
        (_, reg_val) \<leftarrow> axi_dmac_read bus AXI_DMAC_REG_CTRL;
        (if reg_val AND AXI_DMAC_CTRL_ENABLE = 0 then do {
           axi_dmac_write bus AXI_DMAC_REG_CTRL 0;
           axi_dmac_write bus AXI_DMAC_REG_CTRL AXI_DMAC_CTRL_ENABLE;
           axi_dmac_write bus AXI_DMAC_REG_IRQ_MASK 0;
           State_Monad.return ()}
         else State_Monad.return ());
        (_, reg_val) \<leftarrow> axi_dmac_read bus AXI_DMAC_REG_START_TRANSFER;
        if reg_val AND 1 \<noteq> 0 then State_Monad.return FAILURE
        else do {
          known \<leftarrow> set_burst_address bus addr;
          if \<not> known then State_Monad.return FAILURE
          else do {
            d \<leftarrow> dmac_get;
            (if sz - 1 > transfer_max_size d then do {
               modify_dmac (set_big addr (sz - 1) (transfer_max_size d));
               start_transfer bus (transfer_max_size d)}
             else start_transfer bus (sz - 1));
            State_Monad.return SUCCESS}}})"

definition axi_dmac_is_transfer_ready :: "('s dmac_sys, int \<times> bool) state" where
  "axi_dmac_is_transfer_ready = do {
     d \<leftarrow> dmac_get;
     State_Monad.return (SUCCESS, transfer_done (big_transfer d))}"

section \<open>The blocking transfer\<close>

text \<open>Between two polls the hardware advances and the handler may run.\<close>

definition preempt :: "'s axi_bus \<Rightarrow> ('s \<Rightarrow> bool \<times> 's) \<Rightarrow> 's dmac_sys \<Rightarrow> 's dmac_sys" where
  "preempt bus irq st =
     (case irq (hw st) of (raised, s') \<Rightarrow>
        if raised then snd (run_state (axi_dmac_default_isr bus) (st\<lparr>hw := s'\<rparr>))
        else st\<lparr>hw := s'\<rparr>)"

lemma timeout_decreases:
  assumes "(timeout :: u32) \<noteq> 4294967294"
  shows "unat (4294967293 - timeout) < unat (4294967294 - timeout)"
proof -
  have "4294967294 - timeout \<noteq> 0" using assms by simp
  then show ?thesis using measure_unat [of "4294967294 - timeout"] by (simp add: algebra_simps)
qed

text \<open>The wait for the end of a big transfer: at most UINT32_MAX tests of transfer_done.\<close>

function wait_done ::
  "'s axi_bus \<Rightarrow> ('s \<Rightarrow> bool \<times> 's) \<Rightarrow> u32 \<Rightarrow> 's dmac_sys \<Rightarrow> bool \<times> 's dmac_sys" where
  "wait_done bus irq timeout st =
     (let st = preempt bus irq st in
      if transfer_done (big_transfer (dmac st)) then (True, st)
      else if timeout + 1 = 0xffffffff then (False, st)
      else wait_done bus irq (timeout + 1) st)"
  by pat_completeness auto
termination
  by (relation "measure (\<lambda>(_, _, timeout, _). unat (0xfffffffe - timeout))")
    (auto simp: Let_def intro: timeout_decreases)

text \<open>
  The polling loops on a register. They have no bound: \<open>None\<close> is a loop the hardware never
  lets go.
\<close>

partial_function (option) poll ::
  "'s axi_bus \<Rightarrow> ('s \<Rightarrow> bool \<times> 's) \<Rightarrow> u32 \<Rightarrow> (u32 \<Rightarrow> axi_dmac \<Rightarrow> bool) \<Rightarrow> 's dmac_sys
     \<Rightarrow> (u32 \<times> 's dmac_sys) option" where
  "poll bus irq reg stop st =
     (case run_state (axi_dmac_read bus reg) (preempt bus irq st) of
        ((_, reg_val), st') \<Rightarrow>
          if stop reg_val (dmac st') then Some (reg_val, st') else poll bus irq reg stop st')"

definition wait_completed ::
  "'s axi_bus \<Rightarrow> ('s \<Rightarrow> bool \<times> 's) \<Rightarrow> u32 \<Rightarrow> 's dmac_sys \<Rightarrow> (int \<times> 's dmac_sys) option" where
  "wait_completed bus irq transfer_id st = do {
     (_, st) \<leftarrow> poll bus irq AXI_DMAC_REG_START_TRANSFER (\<lambda>v _. v \<noteq> 1) st;
     (reg_val, st) \<leftarrow> poll bus irq AXI_DMAC_REG_IRQ_PENDING
        (\<lambda>v d. v = AXI_DMAC_IRQ_SOT OR AXI_DMAC_IRQ_EOT \<or> transfer_done (big_transfer d)) st;
     let st = (if reg_val \<noteq> AXI_DMAC_IRQ_SOT OR AXI_DMAC_IRQ_EOT
               then snd (run_state (axi_dmac_write bus AXI_DMAC_REG_IRQ_PENDING reg_val) st) else st);
     guard (unat transfer_id < 32);
     (_, st) \<leftarrow> poll bus irq AXI_DMAC_REG_TRANSFER_DONE
        (\<lambda>v _. v AND push_bit (unat transfer_id) 1 = push_bit (unat transfer_id) 1) st;
     Some (SUCCESS, st)}"

text \<open>The part of axi_dmac_transfer before the switch on the size, with the transfer id.\<close>

definition transfer_setup :: "'s axi_bus \<Rightarrow> u32 \<Rightarrow> ('s dmac_sys, u32 \<times> bool) state" where
  "transfer_setup bus addr = do {
     axi_dmac_write bus AXI_DMAC_REG_CTRL 0;
     axi_dmac_write bus AXI_DMAC_REG_CTRL AXI_DMAC_CTRL_ENABLE;
     axi_dmac_write bus AXI_DMAC_REG_IRQ_MASK 0;
     (_, transfer_id) \<leftarrow> axi_dmac_read bus AXI_DMAC_REG_TRANSFER_ID;
     (_, reg_val) \<leftarrow> axi_dmac_read bus AXI_DMAC_REG_IRQ_PENDING;
     axi_dmac_write bus AXI_DMAC_REG_IRQ_PENDING reg_val;
     known \<leftarrow> set_burst_address bus addr;
     State_Monad.return (transfer_id, known)}"

definition axi_dmac_transfer ::
  "'s axi_bus \<Rightarrow> ('s \<Rightarrow> bool \<times> 's) \<Rightarrow> u32 \<Rightarrow> u32 \<Rightarrow> 's dmac_sys \<Rightarrow> (int \<times> 's dmac_sys) option"
where
  "axi_dmac_transfer bus irq addr sz st =
     (if sz = 0 then Some (SUCCESS, st)
      else case run_state (transfer_setup bus addr) st of ((transfer_id, known), st) \<Rightarrow>
        if \<not> known then Some (FAILURE, st)
        else let max_size = transfer_max_size (dmac st) in
        if sz - 1 > max_size
        then (let st = snd (run_state (do {
                    modify_dmac (set_big addr (sz - 1) max_size);
                    start_transfer bus max_size}) st) in
              case wait_done bus irq 0 st of
                (False, st) \<Rightarrow> Some (FAILURE, st)
              | (True, st) \<Rightarrow> Some (SUCCESS, st\<lparr>dmac := set_big 0 0 0 (dmac st)\<rparr>))
        else (let st = snd (run_state (start_transfer bus (sz - 1)) st) in
              if flags (dmac st) AND DMA_CYCLIC \<noteq> 0 then Some (SUCCESS, st)
              else wait_completed bus irq transfer_id st))"

section \<open>Creation and removal\<close>

text \<open>
  The descriptor comes from malloc, so \<open>junk\<close>, what the memory held before, is the initial
  value of the one field init does not set, transfer_done.
\<close>

definition axi_dmac_init ::
  "'s axi_bus \<Rightarrow> axi_dmac \<Rightarrow> axi_dmac_init_param \<Rightarrow> axi_dmac heap \<times> 's
     \<Rightarrow> int \<times> nat option \<times> axi_dmac heap \<times> 's" where
  "axi_dmac_init bus junk init m =
     (let d = junk\<lparr>name := init_name init, base := init_base init,
            direction := init_direction init, flags := init_flags init,
            transfer_max_size := -1\<rparr>;
          d = set_big 0 0 0 d;
          st = snd (run_state (axi_dmac_write bus AXI_DMAC_REG_X_LENGTH (transfer_max_size d))
                      \<lparr>dmac = d, hw = snd m\<rparr>);
          (r, st) = run_state (axi_dmac_read bus AXI_DMAC_REG_X_LENGTH) st
      in case calloc (d\<lparr>transfer_max_size := snd r\<rparr>) (fst m) of
           (None, h) \<Rightarrow> (FAILURE, None, h, snd m)
         | (Some a, h) \<Rightarrow> (SUCCESS, Some a, h, hw st))"

definition axi_dmac_remove :: "nat option \<Rightarrow> axi_dmac heap \<Rightarrow> (int \<times> axi_dmac heap) option" where
  "axi_dmac_remove p h = (case p of None \<Rightarrow> Some (FAILURE, h)
     | Some a \<Rightarrow> do {h \<leftarrow> cfree a h; Some (SUCCESS, h)})"

declare wait_done.simps [simp del]

section \<open>What each operation does\<close>

lemma run_dmac_read [simp]:
  "run_state (axi_dmac_read bus r) st =
     ((0, fst (Xil_In32 bus (base (dmac st) + r) (hw st))),
      st\<lparr>hw := snd (Xil_In32 bus (base (dmac st) + r) (hw st))\<rparr>)"
  by (simp add: axi_dmac_read_def)

lemma run_dmac_write [simp]:
  "run_state (axi_dmac_write bus r v) st =
     (0, st\<lparr>hw := Xil_Out32 bus (base (dmac st) + r) v (hw st)\<rparr>)"
  by (simp add: axi_dmac_write_def)

lemma run_modify_dmac [simp]:
  "run_state (modify_dmac f) st = ((), st\<lparr>dmac := f (dmac st)\<rparr>)"
  by (simp add: modify_dmac_def)

lemma run_dmac_get [simp]: "run_state dmac_get st = (dmac st, st)"
  by (simp add: dmac_get_def)

lemma set_big_simps [simp]:
  "base (set_big a s n d) = base d"
  "direction (set_big a s n d) = direction d"
  "flags (set_big a s n d) = flags d"
  "transfer_max_size (set_big a s n d) = transfer_max_size d"
  "tsize (big_transfer (set_big a s n d)) = s"
  "address (big_transfer (set_big a s n d)) = a"
  "size_done (big_transfer (set_big a s n d)) = n"
  "transfer_done (big_transfer (set_big a s n d)) = transfer_done (big_transfer d)"
  "set_big a s n (set_big a' s' n' d) = set_big a s n d"
  by (simp_all add: set_big_def)

text \<open>The two registers that take an address, by direction.\<close>

definition addr_reg :: "dma_direction \<Rightarrow> u32" where
  "addr_reg dir = (if dir = DMA_DEV_TO_MEM then AXI_DMAC_REG_DEST_ADDRESS else AXI_DMAC_REG_SRC_ADDRESS)"

definition stride_reg :: "dma_direction \<Rightarrow> u32" where
  "stride_reg dir = (if dir = DMA_DEV_TO_MEM then AXI_DMAC_REG_DEST_STRIDE else AXI_DMAC_REG_SRC_STRIDE)"

definition known_direction :: "dma_direction \<Rightarrow> bool" where
  "known_direction dir = (dir = DMA_DEV_TO_MEM \<or> dir = DMA_MEM_TO_DEV)"

lemma run_set_burst_address [simp]:
  "run_state (set_burst_address bus a) st =
     (if known_direction (direction (dmac st))
      then (True, st\<lparr>hw := writes bus (base (dmac st))
              [(addr_reg (direction (dmac st)), a), (stride_reg (direction (dmac st)), 0)] (hw st)\<rparr>)
      else (False, st))"
  by (cases "direction (dmac st)")
    (simp_all add: set_burst_address_def known_direction_def addr_reg_def stride_reg_def)

lemma run_start_transfer [simp]:
  "run_state (start_transfer bus n) st =
     ((), st\<lparr>hw := writes bus (base (dmac st))
        [(AXI_DMAC_REG_X_LENGTH, n), (AXI_DMAC_REG_Y_LENGTH, 0),
         (AXI_DMAC_REG_FLAGS, flags (dmac st)), (AXI_DMAC_REG_START_TRANSFER, 1)] (hw st)\<rparr>)"
  by (simp add: start_transfer_def)

lemma isr_keeps_done:
  "transfer_done (big_transfer (dmac st))
     \<Longrightarrow> transfer_done (big_transfer (dmac (snd (run_state (axi_dmac_default_isr bus) st))))"
  by (simp add: axi_dmac_default_isr_def isr_end_of_transfer_def split_beta Let_def)

lemma preempt_keeps_done:
  "transfer_done (big_transfer (dmac st))
     \<Longrightarrow> transfer_done (big_transfer (dmac (preempt bus irq st)))"
  by (simp add: preempt_def split_beta isr_keeps_done)

text \<open>The burst a start-of-transfer interrupt queues.\<close>

definition next_burst :: "axi_dmac \<Rightarrow> u32" where
  "next_burst d = min (tsize (big_transfer d) - size_done (big_transfer d)) (transfer_max_size d)"

lemma isr_sot:
  fixes st :: "'s dmac_sys"
  assumes pend: "fst (Xil_In32 bus (base (dmac st) + AXI_DMAC_REG_IRQ_PENDING) (hw st)) = AXI_DMAC_IRQ_SOT"
    and dir: "known_direction (direction (dmac st))"
    and big: "tsize (big_transfer (dmac st)) \<noteq> 0"
  defines "d \<equiv> dmac st" and "bt \<equiv> big_transfer (dmac st)" and "n \<equiv> next_burst (dmac st)"
  shows "snd (run_state (axi_dmac_default_isr bus) st) =
    \<lparr>dmac = set_big (address bt + n) (tsize bt) (size_done bt + n) d,
     hw = writes bus (base d)
       [(AXI_DMAC_REG_IRQ_PENDING, AXI_DMAC_IRQ_SOT),
        (addr_reg (direction d), address bt + n), (stride_reg (direction d), 0),
        (AXI_DMAC_REG_X_LENGTH, n), (AXI_DMAC_REG_Y_LENGTH, 0), (AXI_DMAC_REG_START_TRANSFER, 1)]
       (snd (Xil_In32 bus (base d + AXI_DMAC_REG_IRQ_PENDING) (hw st)))\<rparr>"
  using pend dir big
  by (cases st) (simp add: axi_dmac_default_isr_def isr_end_of_transfer_def split_beta Let_def
      bt_def d_def n_def next_burst_def min_def)

section \<open>Big transfers\<close>

lemma big_iff:
  assumes "Suc (unat m) < unat (sz :: u32)"
  shows "sz \<noteq> 0" "unat (sz - 1) = unat sz - 1" "m < sz - 1" "unat m < unat (sz - 1)"
proof -
  show "sz \<noteq> 0" using assms by auto
  then show "unat (sz - 1) = unat sz - 1" by (rule unat_minus_one)
  then show "m < sz - 1" "unat m < unat (sz - 1)" using assms by (simp_all add: word_less_nat_alt)
qed

lemma nonblocking_big:
  assumes "run_state (axi_dmac_transfer_nonblocking bus a sz) st = (SUCCESS, st')"
    and "Suc (unat (transfer_max_size (dmac st))) < unat sz"
  shows "known_direction (direction (dmac st))"
    and "dmac st' = set_big a (sz - 1) (transfer_max_size (dmac st)) (dmac st)"
  using assms(1) big_iff [OF assms(2)]
  by (auto simp: axi_dmac_transfer_nonblocking_def Let_def split: if_splits prod.splits)

text \<open>How much of a transfer of X_LENGTH \<open>whole\<close> is queued after \<open>n\<close> interrupts.\<close>

definition queued :: "nat \<Rightarrow> nat \<Rightarrow> nat \<Rightarrow> nat" where
  "queued whole mx n = min whole (Suc n * mx)"

lemma queued_step: "queued whole mx (Suc n) = queued whole mx n + min (whole - queued whole mx n) mx"
  by (auto simp: queued_def)

lemma u32_min_of_nat:
  "x < 4294967296 \<Longrightarrow> y < 4294967296 \<Longrightarrow> min (of_nat x :: u32) (of_nat y) = of_nat (min x y)"
  by (auto simp: min_def word_le_nat_alt unat_of_nat)

abbreviation sot_only :: "'s axi_bus \<Rightarrow> u32 \<Rightarrow> bool" where
  "sot_only bus b \<equiv> (\<forall>s. fst (Xil_In32 bus (b + AXI_DMAC_REG_IRQ_PENDING) s) = AXI_DMAC_IRQ_SOT)"

abbreviation run_isr :: "'s axi_bus \<Rightarrow> 's dmac_sys \<Rightarrow> 's dmac_sys" where
  "run_isr bus st \<equiv> snd (run_state (axi_dmac_default_isr bus) st)"

lemma isr_iterated:
  fixes d :: axi_dmac and sz :: u32
  defines "mx \<equiv> unat (transfer_max_size d)" and "whole \<equiv> unat (sz - 1)"
  assumes sot: "sot_only bus (base d)" and dir: "known_direction (direction d)"
    and big: "mx < whole" and st: "dmac st = set_big a (sz - 1) (transfer_max_size d) d"
  shows "dmac ((run_isr bus ^^ n) st) =
    set_big (a + of_nat (queued whole mx n - mx)) (sz - 1) (of_nat (queued whole mx n)) d"
proof (induction n)
  case 0
  have "queued whole mx 0 = mx" using big by (simp add: queued_def)
  then show ?case by (simp add: st mx_def)
next
  case (Suc n)
  let ?st = "(run_isr bus ^^ n) st" and ?q = "queued whole mx n"
  have tot: "whole < 4294967296" by (simp add: whole_def)
  have q: "?q \<le> whole" "mx \<le> ?q" using big by (simp_all add: queued_def)
  have sz: "sz - 1 = of_nat whole" by (simp add: whole_def)
  have max: "transfer_max_size d = of_nat mx" by (simp add: mx_def)
  have nb: "next_burst (dmac ?st) = of_nat (min (whole - ?q) mx)"
  proof -
    have "next_burst (dmac ?st) = min (of_nat whole - of_nat ?q) (of_nat mx)"
      by (simp only: Suc.IH next_burst_def set_big_simps sz max)
    also have "\<dots> = min (of_nat (whole - ?q)) (of_nat mx)" using q by (simp add: of_nat_diff)
    also have "\<dots> = of_nat (min (whole - ?q) mx)"
      using tot big q by (intro u32_min_of_nat) simp_all
    finally show ?thesis .
  qed
  have pre: "fst (Xil_In32 bus (base (dmac ?st) + AXI_DMAC_REG_IRQ_PENDING) (hw ?st)) = AXI_DMAC_IRQ_SOT"
    "known_direction (direction (dmac ?st))" "tsize (big_transfer (dmac ?st)) \<noteq> 0"
    using sot dir big by (auto simp: Suc.IH whole_def)
  have "dmac (run_isr bus ?st) =
      set_big (a + of_nat (?q - mx) + of_nat (min (whole - ?q) mx)) (sz - 1)
        (of_nat ?q + of_nat (min (whole - ?q) mx)) d"
    unfolding isr_sot [OF pre] nb by (simp add: Suc.IH)
  moreover have "queued whole mx (Suc n) - mx = (?q - mx) + min (whole - ?q) mx"
    using q by (simp add: queued_step)
  ultimately show ?case by (simp add: queued_step add.assoc flip: of_nat_add)
qed

lemma next_burst_iterated:
  fixes d :: axi_dmac and sz :: u32
  defines "mx \<equiv> unat (transfer_max_size d)" and "whole \<equiv> unat (sz - 1)"
  assumes sot: "sot_only bus (base d)" and dir: "known_direction (direction d)"
    and big: "mx < whole" and st: "dmac st = set_big a (sz - 1) (transfer_max_size d) d"
  shows "next_burst (dmac ((run_isr bus ^^ n) st)) = of_nat (queued whole mx (Suc n) - queued whole mx n)"
proof -
  let ?q = "queued whole mx n"
  have tot: "whole < 4294967296" by (simp add: whole_def)
  have q: "?q \<le> whole" by (simp add: queued_def)
  have "next_burst (dmac ((run_isr bus ^^ n) st)) = min (of_nat whole - of_nat ?q) (of_nat mx)"
    unfolding isr_iterated [OF sot dir big [unfolded mx_def whole_def] st, folded mx_def whole_def] next_burst_def set_big_simps
    by (simp add: mx_def whole_def)
  also have "\<dots> = min (of_nat (whole - ?q)) (of_nat mx)" using q by (simp add: of_nat_diff)
  also have "\<dots> = of_nat (min (whole - ?q) mx)" using tot big by (intro u32_min_of_nat) simp_all
  finally show ?thesis by (simp add: queued_step)
qed

text \<open>
  C32. A transfer larger than one burst, started by axi_dmac_transfer_nonblocking and carried
  on by the interrupt handler, seen from the hardware: the k-th start-of-transfer interrupt
  acknowledges itself, writes the address advanced by what the interrupts have queued, stride
  0, X_LENGTH with the next part of the transfer, Y_LENGTH 0, and starts it. The parts are
  maximal bursts until all of size - 1 is queued, with a last one for the rest, and the
  bookkeeping agrees: what is queued after n interrupts is size_done. When all is queued the handler
  does not stop: each further interrupt starts once more, with X_LENGTH 0.
\<close>

theorem axi_dmac_big_transfer_progress:
  assumes "run_state (axi_dmac_transfer_nonblocking bus a sz) st = (SUCCESS, st')"
    and "Suc (unat (transfer_max_size (dmac st))) < unat sz"
    and "\<forall>s. fst (Xil_In32 bus (base (dmac st) + AXI_DMAC_REG_IRQ_PENDING) s) = AXI_DMAC_IRQ_SOT"
    and "S = (\<lambda>k. ((\<lambda>x. snd (run_state (axi_dmac_default_isr bus) x)) ^^ k) st')"
    and "q = (\<lambda>k. min (unat (sz - 1)) (Suc k * unat (transfer_max_size (dmac st))))"
  shows "unat (size_done (big_transfer (dmac (S n)))) = q n \<and> tsize (big_transfer (dmac (S n))) = sz - 1
    \<and> address (big_transfer (dmac (S n))) = a + of_nat (q n - unat (transfer_max_size (dmac st)))
    \<and> hw (S (Suc n)) = writes bus (base (dmac st))
        [(AXI_DMAC_REG_IRQ_PENDING, AXI_DMAC_IRQ_SOT),
         (if direction (dmac st) = DMA_DEV_TO_MEM then AXI_DMAC_REG_DEST_ADDRESS else AXI_DMAC_REG_SRC_ADDRESS,
          a + of_nat (q (Suc n) - unat (transfer_max_size (dmac st)))),
         (if direction (dmac st) = DMA_DEV_TO_MEM then AXI_DMAC_REG_DEST_STRIDE else AXI_DMAC_REG_SRC_STRIDE, 0),
         (AXI_DMAC_REG_X_LENGTH, of_nat (q (Suc n) - q n)), (AXI_DMAC_REG_Y_LENGTH, 0),
         (AXI_DMAC_REG_START_TRANSFER, 1)]
        (snd (Xil_In32 bus (base (dmac st) + AXI_DMAC_REG_IRQ_PENDING) (hw (S n))))"
proof -
  let ?d = "dmac st"
  let ?mx = "unat (transfer_max_size ?d)" and ?Q = "queued (unat (sz - 1)) (unat (transfer_max_size ?d))"
  note dir = nonblocking_big(1) [OF assms(1,2)] and big = big_iff(4) [OF assms(2)]
  note d = isr_iterated [OF assms(3) dir big nonblocking_big(2) [OF assms(1,2)]]
  note nb = next_burst_iterated [OF assms(3) dir big nonblocking_big(2) [OF assms(1,2)]]
  have q: "q k = ?Q k" for k by (simp add: assms(5) queued_def)
  have lt: "q k < 4294967296" for k unfolding assms(5) by (rule le_less_trans [OF min.cobounded1]) simp
  have Q: "?mx \<le> ?Q n" using big by (simp add: queued_def)
  have dn: "dmac (S n) = set_big (a + of_nat (?Q n - ?mx)) (sz - 1) (of_nat (?Q n)) ?d"
    unfolding assms(4) by (rule d)
  have pre: "fst (Xil_In32 bus (base (dmac (S n)) + AXI_DMAC_REG_IRQ_PENDING) (hw (S n))) = AXI_DMAC_IRQ_SOT"
    "known_direction (direction (dmac (S n)))" "tsize (big_transfer (dmac (S n))) \<noteq> 0"
    using assms(3) dir big by (auto simp: dn)
  have "?Q (Suc n) - ?mx = (?Q n - ?mx) + (?Q (Suc n) - ?Q n)" using Q by (simp add: queued_step)
  then have addr: "a + of_nat (?Q (Suc n) - ?mx) = a + of_nat (?Q n - ?mx) + (of_nat (?Q (Suc n) - ?Q n) :: u32)"
    by (simp only: of_nat_add add.assoc)
  have "next_burst (dmac (S n)) = of_nat (?Q (Suc n) - ?Q n)" unfolding assms(4) by (rule nb)
  moreover have "S (Suc n) = snd (run_state (axi_dmac_default_isr bus) (S n))" by (simp add: assms(4))
  ultimately have "hw (S (Suc n)) = writes bus (base ?d)
      [(AXI_DMAC_REG_IRQ_PENDING, AXI_DMAC_IRQ_SOT), (addr_reg (direction ?d), a + of_nat (?Q (Suc n) - ?mx)),
       (stride_reg (direction ?d), 0), (AXI_DMAC_REG_X_LENGTH, of_nat (?Q (Suc n) - ?Q n)), (AXI_DMAC_REG_Y_LENGTH, 0),
       (AXI_DMAC_REG_START_TRANSFER, 1)] (snd (Xil_In32 bus (base ?d + AXI_DMAC_REG_IRQ_PENDING) (hw (S n))))"
    unfolding addr by (simp only: isr_sot [OF pre] dmac_sys.simps) (simp only: dn set_big_simps)
  moreover have "unat (size_done (big_transfer (dmac (S n)))) = ?Q n"
    using lt [of n] by (simp add: dn q unat_of_nat_u32)
  ultimately show ?thesis unfolding q addr_reg_def stride_reg_def by (simp add: dn)
qed

text \<open>
  When the second burst is the last, the handler sends it to the start address plus the
  length of that second burst, not to where the first burst ended: for every size between
  one and two bursts its target lies inside the block the first burst already moved.
\<close>

theorem axi_dmac_second_burst_overlaps:
  assumes "run_state (axi_dmac_transfer_nonblocking bus a sz) st = (SUCCESS, st')"
    and "Suc (unat (transfer_max_size (dmac st))) < unat sz"
    and "unat sz \<le> 2 * unat (transfer_max_size (dmac st))"
    and "fst (Xil_In32 bus (base (dmac st) + AXI_DMAC_REG_IRQ_PENDING) (hw st')) = AXI_DMAC_IRQ_SOT"
    and "rest = sz - 1 - transfer_max_size (dmac st)"
  shows "(\<exists>s. hw (snd (run_state (axi_dmac_default_isr bus) st')) = writes bus (base (dmac st))
      [(AXI_DMAC_REG_IRQ_PENDING, AXI_DMAC_IRQ_SOT),
       (addr_reg (direction (dmac st)), a + rest), (stride_reg (direction (dmac st)), 0),
       (AXI_DMAC_REG_X_LENGTH, rest), (AXI_DMAC_REG_Y_LENGTH, 0),
       (AXI_DMAC_REG_START_TRANSFER, 1)] s)
    \<and> rest < transfer_max_size (dmac st)"
proof -
  note d = nonblocking_big [OF assms(1,2)]
  note big = big_iff [OF assms(2)]
  have "unat rest = unat (sz - 1) - unat (transfer_max_size (dmac st))"
    using big(3) assms(5) by (simp add: unat_sub less_imp_le)
  then have "unat rest < unat (transfer_max_size (dmac st))" using assms(3) big(2,4) by linarith
  then have small: "rest < transfer_max_size (dmac st)" by (simp add: word_less_nat_alt)
  then have nb: "next_burst (dmac st') = rest"
    by (simp add: d(2) next_burst_def assms(5) min_def less_imp_le)
  have "tsize (big_transfer (dmac st')) \<noteq> 0" using big(4) by (auto simp: d(2))
  from isr_sot [OF _ _ this, of bus] assms(4) d(1) small show ?thesis
    unfolding nb by (simp only: d(2) set_big_simps dmac_sys.simps) blast
qed

text \<open>A controller for concrete runs: idle, with a start-of-transfer interrupt always pending.\<close>

definition sot_bus :: "(u32 \<times> u32) list axi_bus" where
  "sot_bus = \<lparr>Xil_In32 = (\<lambda>a s. (if a = AXI_DMAC_REG_IRQ_PENDING then AXI_DMAC_IRQ_SOT else 0, s)),
     Xil_Out32 = (\<lambda>a v s. (a, v) # s)\<rparr>"

definition example_sys :: "(u32 \<times> u32) list dmac_sys" where
  "example_sys = \<lparr>dmac = \<lparr>name = ''rx'', base = 0, direction = DMA_DEV_TO_MEM, flags = 0,
     transfer_max_size = 100,
     big_transfer = \<lparr>tsize = 0, address = 0, size_done = 0, transfer_done = False\<rparr>\<rparr>, hw = []\<rparr>"

lemma example_starts:
  assumes "100 < sz - 1" "sz \<noteq> 0"
  shows "fst (run_state (axi_dmac_transfer_nonblocking sot_bus a sz) example_sys) = SUCCESS"
  using assms by (simp add: axi_dmac_transfer_nonblocking_def example_sys_def sot_bus_def Let_def
      known_direction_def split_beta)

lemma example_run:
  assumes "100 < sz - 1" "sz \<noteq> 0"
  shows "run_state (axi_dmac_transfer_nonblocking sot_bus a sz) example_sys =
    (SUCCESS, snd (run_state (axi_dmac_transfer_nonblocking sot_bus a sz) example_sys))"
  using example_starts [OF assms] by (metis prod.collapse)

text \<open>350 in bursts of 100: after three interrupts all is queued, and the fourth starts with X_LENGTH 0.\<close>

theorem axi_dmac_big_transfer_progress_witness:
  "\<exists>st' S. run_state (axi_dmac_transfer_nonblocking sot_bus 0x1000 351) example_sys = (SUCCESS, st')
     \<and> S = (\<lambda>k. ((\<lambda>x. snd (run_state (axi_dmac_default_isr sot_bus) x)) ^^ k) st')
     \<and> unat (size_done (big_transfer (dmac (S 2)))) = 300
     \<and> take 6 (hw (S 3)) = rev [(AXI_DMAC_REG_IRQ_PENDING, AXI_DMAC_IRQ_SOT), (AXI_DMAC_REG_DEST_ADDRESS, 0x1000 + 250),
         (AXI_DMAC_REG_DEST_STRIDE, 0), (AXI_DMAC_REG_X_LENGTH, 50), (AXI_DMAC_REG_Y_LENGTH, 0), (AXI_DMAC_REG_START_TRANSFER, 1)]
     \<and> take 6 (hw (S 4)) = rev [(AXI_DMAC_REG_IRQ_PENDING, AXI_DMAC_IRQ_SOT), (AXI_DMAC_REG_DEST_ADDRESS, 0x1000 + 250),
         (AXI_DMAC_REG_DEST_STRIDE, 0), (AXI_DMAC_REG_X_LENGTH, 0), (AXI_DMAC_REG_Y_LENGTH, 0), (AXI_DMAC_REG_START_TRANSFER, 1)]"
proof -
  let ?st = "snd (run_state (axi_dmac_transfer_nonblocking sot_bus 0x1000 351) example_sys)"
  obtain S where S: "S = (\<lambda>k. ((\<lambda>x. snd (run_state (axi_dmac_default_isr sot_bus) x)) ^^ k) ?st)" by blast
  have run: "run_state (axi_dmac_transfer_nonblocking sot_bus 0x1000 351) example_sys = (SUCCESS, ?st)"
    by (rule example_run) simp_all
  have pre: "Suc (unat (transfer_max_size (dmac example_sys))) < unat (351 :: u32)"
    "\<forall>s. fst (Xil_In32 sot_bus (base (dmac example_sys) + AXI_DMAC_REG_IRQ_PENDING) s) = AXI_DMAC_IRQ_SOT"
    by (simp_all add: example_sys_def sot_bus_def)
  note steps = axi_dmac_big_transfer_progress [OF run pre S refl]
  have dev: "base (dmac example_sys) = 0" "direction (dmac example_sys) = DMA_DEV_TO_MEM"
    "unat (transfer_max_size (dmac example_sys)) = 100" by (simp_all add: example_sys_def)
  have bus: "Xil_Out32 sot_bus a v s = (a, v) # s" "snd (Xil_In32 sot_bus a s) = s" for a v s
    by (simp_all add: sot_bus_def)
  have "unat (size_done (big_transfer (dmac (S 2)))) = 300" using steps [of 2] unfolding dev by simp
  moreover have "take 6 (hw (S 3)) = rev [(AXI_DMAC_REG_IRQ_PENDING, AXI_DMAC_IRQ_SOT), (AXI_DMAC_REG_DEST_ADDRESS, 0x1000 + 250),
         (AXI_DMAC_REG_DEST_STRIDE, 0), (AXI_DMAC_REG_X_LENGTH, 50), (AXI_DMAC_REG_Y_LENGTH, 0), (AXI_DMAC_REG_START_TRANSFER, 1)]"
    using steps [of 2] unfolding dev by (simp add: bus)
  moreover have "take 6 (hw (S 4)) = rev [(AXI_DMAC_REG_IRQ_PENDING, AXI_DMAC_IRQ_SOT), (AXI_DMAC_REG_DEST_ADDRESS, 0x1000 + 250),
         (AXI_DMAC_REG_DEST_STRIDE, 0), (AXI_DMAC_REG_X_LENGTH, 0), (AXI_DMAC_REG_Y_LENGTH, 0), (AXI_DMAC_REG_START_TRANSFER, 1)]"
    using steps [of 3] unfolding dev by (simp add: bus)
  ultimately show ?thesis using run S by blast
qed

theorem axi_dmac_second_burst_overlaps_witness:
  "\<exists>st' s. run_state (axi_dmac_transfer_nonblocking sot_bus 0x1000 151) example_sys = (SUCCESS, st')
     \<and> hw (snd (run_state (axi_dmac_default_isr sot_bus) st')) = writes sot_bus 0
         [(AXI_DMAC_REG_IRQ_PENDING, AXI_DMAC_IRQ_SOT),
          (AXI_DMAC_REG_DEST_ADDRESS, 0x1000 + 50), (AXI_DMAC_REG_DEST_STRIDE, 0),
          (AXI_DMAC_REG_X_LENGTH, 50), (AXI_DMAC_REG_Y_LENGTH, 0),
          (AXI_DMAC_REG_START_TRANSFER, 1)] s"
proof -
  let ?st = "snd (run_state (axi_dmac_transfer_nonblocking sot_bus 0x1000 151) example_sys)"
  have run: "run_state (axi_dmac_transfer_nonblocking sot_bus 0x1000 151) example_sys = (SUCCESS, ?st)"
    by (rule example_run) simp_all
  have "Suc (unat (transfer_max_size (dmac example_sys))) < unat (151 :: u32)"
    "unat (151 :: u32) \<le> 2 * unat (transfer_max_size (dmac example_sys))"
    "fst (Xil_In32 sot_bus (base (dmac example_sys) + AXI_DMAC_REG_IRQ_PENDING) (hw ?st)) = AXI_DMAC_IRQ_SOT"
    by (simp_all add: example_sys_def sot_bus_def)
  from axi_dmac_second_burst_overlaps [OF run this refl] run show ?thesis
    by (auto simp: example_sys_def addr_reg_def stride_reg_def)
qed

section \<open>The blocking transfer\<close>

abbreviation is_done :: "'s dmac_sys \<Rightarrow> bool" where
  "is_done st \<equiv> transfer_done (big_transfer (dmac st))"

lemma wait_done_found:
  assumes "\<And>k. k < n \<Longrightarrow> \<not> is_done ((preempt bus irq ^^ Suc k) st)"
    and "is_done ((preempt bus irq ^^ Suc n) st)" and "unat t + n < 0xffffffff"
  shows "wait_done bus irq t st = (True, (preempt bus irq ^^ Suc n) st)"
  using assms
proof (induction n arbitrary: t st)
  case 0
  then show ?case by (simp add: wait_done.simps Let_def)
next
  case (Suc n)
  have nd: "\<not> is_done (preempt bus irq st)" using Suc.prems(1) [of 0] by simp
  have lt: "unat t < 4294967294" using Suc.prems(3) by simp
  then have t: "t + 1 \<noteq> 0xffffffff" by auto
  have "unat (t + 1) = Suc (unat t)" using lt by (intro u32_Suc_below) simp
  then have "wait_done bus irq (t + 1) (preempt bus irq st)
      = (True, (preempt bus irq ^^ Suc n) (preempt bus irq st))"
    using Suc.prems(2,3) Suc.prems(1) [of "Suc _"] by (intro Suc.IH) (simp_all add: funpow_swap1)
  with nd t show ?case by (subst wait_done.simps) (simp add: Let_def funpow_swap1)
qed

lemma wait_done_fails:
  assumes "\<And>k. \<not> is_done ((preempt bus irq ^^ Suc k) st)"
  shows "fst (wait_done bus irq t st) = False"
  using assms
proof (induction bus irq t st rule: wait_done.induct)
  case (1 bus irq t st)
  have "\<not> is_done (preempt bus irq st)" using 1(2) [of 0] by simp
  moreover have "\<not> is_done ((preempt bus irq ^^ Suc k) (preempt bus irq st))" for k
    using 1(2) [of "Suc k"] by (simp add: funpow_swap1)
  ultimately show ?case using 1(1) by (subst wait_done.simps) (simp add: Let_def)
qed

text \<open>The system as axi_dmac_transfer leaves it when the wait for a big transfer begins.\<close>

definition big_started :: "'s axi_bus \<Rightarrow> u32 \<Rightarrow> u32 \<Rightarrow> 's dmac_sys \<Rightarrow> 's dmac_sys" where
  "big_started bus a sz st =
     (let st1 = snd (run_state (transfer_setup bus a) st); m = transfer_max_size (dmac st) in
      snd (run_state (start_transfer bus m)
        (st1\<lparr>dmac := set_big a (sz - 1) m (dmac st)\<rparr>)))"

lemma transfer_setup_simps:
  "dmac (snd (run_state (transfer_setup bus a) st)) = dmac st"
  "snd (fst (run_state (transfer_setup bus a) st)) = known_direction (direction (dmac st))"
  by (cases "known_direction (direction (dmac st))",
      simp_all add: transfer_setup_def split_beta del: writes.simps)

lemma transfer_big:
  assumes "Suc (unat (transfer_max_size (dmac st))) < unat sz"
    and "known_direction (direction (dmac st))"
  shows "axi_dmac_transfer bus irq a sz st =
    (case wait_done bus irq 0 (big_started bus a sz st) of
       (False, st') \<Rightarrow> Some (FAILURE, st')
     | (True, st') \<Rightarrow> Some (SUCCESS, st'\<lparr>dmac := set_big 0 0 0 (dmac st')\<rparr>))"
  using big_iff [OF assms(1)] assms(2)
  by (simp add: axi_dmac_transfer_def big_started_def Let_def split_beta transfer_setup_simps)

text \<open>
  C33. A blocking transfer that needs several bursts always returns: with SUCCESS, and the
  transfer record cleared, when the completion flag is seen at one of the first UINT32_MAX
  tests, whatever the interrupt handler does between the tests, and with FAILURE when the
  flag is never set.
\<close>

theorem axi_dmac_transfer_big_returns:
  assumes "Suc (unat (transfer_max_size (dmac st))) < unat sz"
    and "direction (dmac st) = DMA_DEV_TO_MEM \<or> direction (dmac st) = DMA_MEM_TO_DEV"
    and "run = (\<lambda>k. (preempt bus irq ^^ Suc k) (big_started bus a sz st))"
  shows "(\<forall>n < 0xffffffff. (\<forall>k < n. \<not> transfer_done (big_transfer (dmac (run k))))
            \<and> transfer_done (big_transfer (dmac (run n)))
          \<longrightarrow> axi_dmac_transfer bus irq a sz st =
               Some (SUCCESS, (run n)\<lparr>dmac := set_big 0 0 0 (dmac (run n))\<rparr>))
    \<and> ((\<forall>n. \<not> transfer_done (big_transfer (dmac (run n))))
          \<longrightarrow> (\<exists>st'. axi_dmac_transfer bus irq a sz st = Some (FAILURE, st')))"
proof -
  have tr: "axi_dmac_transfer bus irq a sz st =
    (case wait_done bus irq 0 (big_started bus a sz st) of
       (False, st') \<Rightarrow> Some (FAILURE, st')
     | (True, st') \<Rightarrow> Some (SUCCESS, st'\<lparr>dmac := set_big 0 0 0 (dmac st')\<rparr>))"
    using assms(1,2) by (intro transfer_big) (simp_all add: known_direction_def)
  have found: "wait_done bus irq 0 (big_started bus a sz st) = (True, run n)"
    if "n < 0xffffffff" "\<forall>k < n. \<not> is_done (run k)" "is_done (run n)" for n
    using that unfolding assms(3) by (intro wait_done_found) simp_all
  have "fst (wait_done bus irq 0 (big_started bus a sz st)) = False" if "\<forall>n. \<not> is_done (run n)"
    using that unfolding assms(3) by (intro wait_done_fails) simp
  then have "\<exists>st'. axi_dmac_transfer bus irq a sz st = Some (FAILURE, st')"
    if "\<forall>n. \<not> is_done (run n)"
    using that by (simp add: tr split_beta)
  with found show ?thesis by (auto simp: tr)
qed

text \<open>
  The completion flag of an earlier transfer is not cleared: a blocking transfer of
  several bursts that starts with the flag set returns SUCCESS at its first test, also on a
  controller that never raises an interrupt and so has not moved more than one burst.
\<close>

theorem axi_dmac_transfer_stale_done:
  assumes "Suc (unat (transfer_max_size (dmac st))) < unat sz"
    and "direction (dmac st) = DMA_DEV_TO_MEM \<or> direction (dmac st) = DMA_MEM_TO_DEV"
    and "transfer_done (big_transfer (dmac st))"
  shows "\<exists>st'. axi_dmac_transfer bus (\<lambda>s. (False, s)) a sz st = Some (SUCCESS, st')
    \<and> hw st' = hw (big_started bus a sz st)"
proof -
  have "is_done (big_started bus a sz st)" using assms(3) by (simp add: big_started_def Let_def)
  then have "wait_done bus (\<lambda>s. (False, s)) 0 (big_started bus a sz st) = (True, big_started bus a sz st)"
    by (simp add: wait_done.simps preempt_def Let_def)
  with assms(1,2) show ?thesis by (subst transfer_big) (simp_all add: known_direction_def)
qed

definition done_sys :: "(u32 \<times> u32) list dmac_sys" where
  "done_sys = example_sys\<lparr>dmac := (dmac example_sys)\<lparr>big_transfer :=
     \<lparr>tsize = 0, address = 0, size_done = 0, transfer_done = True\<rparr>\<rparr>\<rparr>"

theorem axi_dmac_transfer_big_returns_witness:
  "\<exists>st'. axi_dmac_transfer sot_bus (\<lambda>s. (False, s)) 0x1000 351 done_sys = Some (SUCCESS, st')"
proof -
  have *: "Suc (unat (transfer_max_size (dmac done_sys))) < unat (351 :: u32)"
    "direction (dmac done_sys) = DMA_DEV_TO_MEM \<or> direction (dmac done_sys) = DMA_MEM_TO_DEV"
    by (simp_all add: done_sys_def example_sys_def)
  have "is_done (preempt sot_bus (\<lambda>s. (False, s)) (big_started sot_bus 0x1000 351 done_sys))"
    by (simp add: done_sys_def example_sys_def preempt_def big_started_def Let_def)
  then show ?thesis
    using conjunct1 [OF axi_dmac_transfer_big_returns [OF * refl], rule_format, of 0]
    by simp
qed

theorem axi_dmac_transfer_stale_done_witness:
  "\<exists>st'. axi_dmac_transfer sot_bus (\<lambda>s. (False, s)) 0x1000 351 done_sys = Some (SUCCESS, st')
     \<and> hw st' = hw (big_started sot_bus 0x1000 351 done_sys)"
  by (rule axi_dmac_transfer_stale_done) (simp_all add: done_sys_def example_sys_def)

end
