(* ===== verification/Axi_Clkgen.thy ===== *)
theory Axi_Clkgen
  imports Axi_Io
begin

text \<open>
  The driver of the AXI clock generator, drivers/axi_core/clk_axi_clkgen: access to the
  registers of the MMCM through the DRP port with its timeouts, the search for the divider
  settings of a rate, and the operations set_rate, get_rate, init and remove. The core is
  the bus parameter; the descriptor is never changed by the driver and is an argument.
\<close>

section \<open>Registers and tables\<close>

definition AXI_PCORE_VER_MAJOR :: "u32 \<Rightarrow> u32" where "AXI_PCORE_VER_MAJOR version = drop_bit 16 version"
definition AXI_INFO_FPGA_TECH :: "u32 \<Rightarrow> u32" where "AXI_INFO_FPGA_TECH info = drop_bit 24 info"
definition AXI_INFO_FPGA_FAMILY :: "u32 \<Rightarrow> u32" where "AXI_INFO_FPGA_FAMILY info = drop_bit 16 info AND 0xff"
definition AXI_INFO_FPGA_SPEED_GRADE :: "u32 \<Rightarrow> u32" where
  "AXI_INFO_FPGA_SPEED_GRADE info = drop_bit 8 info AND 0xff"
definition AXI_INFO_FPGA_VOLTAGE :: "u32 \<Rightarrow> u32" where "AXI_INFO_FPGA_VOLTAGE val = val AND 0xffff"

definition AXI_REG_VERSION :: u32 where [simp]: "AXI_REG_VERSION = 0x0000"
definition AXI_REG_FPGA_INFO :: u32 where [simp]: "AXI_REG_FPGA_INFO = 0x001C"
definition AXI_REG_FPGA_VOLTAGE :: u32 where [simp]: "AXI_REG_FPGA_VOLTAGE = 0x0140"
definition AXI_CLKGEN_REG_RESETN :: u32 where [simp]: "AXI_CLKGEN_REG_RESETN = 0x40"
definition AXI_CLKGEN_MMCM_RESETN :: u32 where [simp]: "AXI_CLKGEN_MMCM_RESETN = 2"
definition AXI_CLKGEN_RESETN :: u32 where [simp]: "AXI_CLKGEN_RESETN = 1"
definition AXI_CLKGEN_REG_STATUS :: u32 where [simp]: "AXI_CLKGEN_REG_STATUS = 0x5c"
definition AXI_CLKGEN_STATUS :: u32 where [simp]: "AXI_CLKGEN_STATUS = 1"
definition AXI_CLKGEN_REG_DRP_CNTRL :: u32 where [simp]: "AXI_CLKGEN_REG_DRP_CNTRL = 0x70"
definition AXI_CLKGEN_DRP_CNTRL_SEL :: u32 where [simp]: "AXI_CLKGEN_DRP_CNTRL_SEL = 0x20000000"
definition AXI_CLKGEN_DRP_CNTRL_READ :: u32 where [simp]: "AXI_CLKGEN_DRP_CNTRL_READ = 0x10000000"
definition AXI_CLKGEN_REG_DRP_STATUS :: u32 where [simp]: "AXI_CLKGEN_REG_DRP_STATUS = 0x74"
definition AXI_CLKGEN_DRP_STATUS_BUSY :: u32 where [simp]: "AXI_CLKGEN_DRP_STATUS_BUSY = 0x10000"
definition MMCM_REG_CLKOUT0_1 :: u32 where [simp]: "MMCM_REG_CLKOUT0_1 = 0x08"
definition MMCM_REG_CLKOUT0_2 :: u32 where [simp]: "MMCM_REG_CLKOUT0_2 = 0x09"
definition MMCM_REG_CLKOUT1_1 :: u32 where [simp]: "MMCM_REG_CLKOUT1_1 = 0x0A"
definition MMCM_REG_CLKOUT1_2 :: u32 where [simp]: "MMCM_REG_CLKOUT1_2 = 0x0B"
definition MMCM_REG_CLK_FB1 :: u32 where [simp]: "MMCM_REG_CLK_FB1 = 0x14"
definition MMCM_REG_CLK_FB2 :: u32 where [simp]: "MMCM_REG_CLK_FB2 = 0x15"
definition MMCM_REG_CLK_DIV :: u32 where [simp]: "MMCM_REG_CLK_DIV = 0x16"
definition MMCM_REG_LOCK1 :: u32 where [simp]: "MMCM_REG_LOCK1 = 0x18"
definition MMCM_REG_LOCK2 :: u32 where [simp]: "MMCM_REG_LOCK2 = 0x19"
definition MMCM_REG_LOCK3 :: u32 where [simp]: "MMCM_REG_LOCK3 = 0x1a"
definition MMCM_REG_FILTER1 :: u32 where [simp]: "MMCM_REG_FILTER1 = 0x4e"
definition MMCM_REG_FILTER2 :: u32 where [simp]: "MMCM_REG_FILTER2 = 0x4f"

definition axi_clkgen_filter_table :: "u32 list" where
  "axi_clkgen_filter_table =
    [0x01001990, 0x01001190, 0x01009890, 0x01001890,
     0x01008890, 0x01009090, 0x01009090, 0x01009090,
     0x01009090, 0x01000890, 0x01000890, 0x01000890,
     0x08009090, 0x01001090, 0x01001090, 0x01001090,
     0x01001090, 0x01001090, 0x01001090, 0x01001090,
     0x01001090, 0x01001090, 0x01001090, 0x01008090,
     0x01008090, 0x01008090, 0x01008090, 0x01008090,
     0x01008090, 0x01008090, 0x01008090, 0x01008090,
     0x01008090, 0x01008090, 0x01008090, 0x01008090,
     0x01008090, 0x08001090, 0x08001090, 0x08001090,
     0x08001090, 0x08001090, 0x08001090, 0x08001090,
     0x08001090, 0x08001090, 0x08001090]"

definition axi_clkgen_lock_table :: "u32 list" where
  "axi_clkgen_lock_table =
    [0x060603e8, 0x060603e8, 0x080803e8, 0x0b0b03e8,
     0x0e0e03e8, 0x111103e8, 0x131303e8, 0x161603e8,
     0x191903e8, 0x1c1c03e8, 0x1f1f0384, 0x1f1f0339,
     0x1f1f02ee, 0x1f1f02bc, 0x1f1f028a, 0x1f1f0271,
     0x1f1f023f, 0x1f1f0226, 0x1f1f020d, 0x1f1f01f4,
     0x1f1f01db, 0x1f1f01c2, 0x1f1f01a9, 0x1f1f0190,
     0x1f1f0190, 0x1f1f0177, 0x1f1f015e, 0x1f1f015e,
     0x1f1f0145, 0x1f1f0145, 0x1f1f012c, 0x1f1f012c,
     0x1f1f012c, 0x1f1f0113, 0x1f1f0113, 0x1f1f0113]"

definition AXI_FPGA_TECH_ULTRASCALE_PLUS :: u32 where [simp]: "AXI_FPGA_TECH_ULTRASCALE_PLUS = 3"
definition AXI_FPGA_FAMILY_ARTIX :: u32 where [simp]: "AXI_FPGA_FAMILY_ARTIX = 1"
definition AXI_FPGA_FAMILY_KINTEX :: u32 where [simp]: "AXI_FPGA_FAMILY_KINTEX = 2"
definition AXI_FPGA_SPEED_1 :: u32 where [simp]: "AXI_FPGA_SPEED_1 = 10"
definition AXI_FPGA_SPEED_1LV :: u32 where [simp]: "AXI_FPGA_SPEED_1LV = 14"
definition AXI_FPGA_SPEED_2 :: u32 where [simp]: "AXI_FPGA_SPEED_2 = 20"
definition AXI_FPGA_SPEED_2LV :: u32 where [simp]: "AXI_FPGA_SPEED_2LV = 22"
definition AXI_FPGA_SPEED_3 :: u32 where [simp]: "AXI_FPGA_SPEED_3 = 30"

record axi_clkgen =
  name :: string
  base :: u32
  parent_rate :: u32

section \<open>Register access\<close>

definition axi_clkgen_write :: "'s axi_bus \<Rightarrow> axi_clkgen \<Rightarrow> u32 \<Rightarrow> u32 \<Rightarrow> ('s, int) state" where
  "axi_clkgen_write bus clkgen reg_addr reg_val = do {
     axi_io_write bus (base clkgen) reg_addr reg_val;
     State_Monad.return 0}"

definition axi_clkgen_read :: "'s axi_bus \<Rightarrow> axi_clkgen \<Rightarrow> u32 \<Rightarrow> ('s, int \<times> u32) state" where
  "axi_clkgen_read bus clkgen reg_addr = do {
     (_, reg_val) \<leftarrow> axi_io_read bus (base clkgen) reg_addr;
     State_Monad.return (0, reg_val)}"

text \<open>
  The wait for the DRP port: read the status until it is not busy, at most \<open>timeout\<close> times;
  the last status read and what is left of the timeout, 0 when it ran out.
\<close>

lemma drp_wait_decreases: "(t :: u32) \<noteq> 1 \<Longrightarrow> unat (t - 2) < unat (t - 1)"
  using measure_unat [of "t - 1"] by simp

function drp_wait :: "'s axi_bus \<Rightarrow> axi_clkgen \<Rightarrow> u32 \<Rightarrow> 's \<Rightarrow> (u32 \<times> u32) \<times> 's" where
  "drp_wait bus clkgen timeout s =
     (case run_state (axi_clkgen_read bus clkgen AXI_CLKGEN_REG_DRP_STATUS) s of
        ((_, reg_val), s') \<Rightarrow>
          if reg_val AND AXI_CLKGEN_DRP_STATUS_BUSY \<noteq> 0 then
            (if timeout - 1 \<noteq> 0 then drp_wait bus clkgen (timeout - 1) s'
             else ((reg_val, timeout - 1), s'))
          else ((reg_val, timeout), s'))"
  by pat_completeness auto
termination
  by (relation "measure (\<lambda>(_, _, timeout, _). unat (timeout - 1))")
    (auto intro: drp_wait_decreases)

text \<open>
  \<open>val\<close> is what the caller's variable holds before: a timeout of the first wait leaves it,
  a timeout of the second leaves the busy status in it.
\<close>

definition axi_clkgen_mmcm_read :: "'s axi_bus \<Rightarrow> axi_clkgen \<Rightarrow> u32 \<Rightarrow> u32 \<Rightarrow> ('s, u32) state" where
  "axi_clkgen_mmcm_read bus clkgen reg val = do {
     (_, timeout) \<leftarrow> State (drp_wait bus clkgen 1000000);
     if timeout = 0 then State_Monad.return val
     else do {
       axi_clkgen_write bus clkgen AXI_CLKGEN_REG_DRP_CNTRL
         (AXI_CLKGEN_DRP_CNTRL_SEL OR AXI_CLKGEN_DRP_CNTRL_READ OR push_bit 16 reg);
       (val, timeout) \<leftarrow> State (drp_wait bus clkgen timeout);
       if timeout = 0 then State_Monad.return val
       else State_Monad.return (val AND 0xffff)}}"

definition axi_clkgen_mmcm_write ::
  "'s axi_bus \<Rightarrow> axi_clkgen \<Rightarrow> u32 \<Rightarrow> u32 \<Rightarrow> u32 \<Rightarrow> ('s, unit) state" where
  "axi_clkgen_mmcm_write bus clkgen reg val msk = do {
     (reg_val, timeout) \<leftarrow> State (drp_wait bus clkgen 1000000);
     if timeout = 0 then State_Monad.return ()
     else do {
       reg_val \<leftarrow> (if msk \<noteq> 0xffff
          then do {
            reg_val \<leftarrow> axi_clkgen_mmcm_read bus clkgen reg reg_val;
            State_Monad.return (reg_val AND NOT msk)}
          else State_Monad.return 0);
       axi_clkgen_write bus clkgen AXI_CLKGEN_REG_DRP_CNTRL
         (reg_val OR (AXI_CLKGEN_DRP_CNTRL_SEL OR push_bit 16 reg OR (val AND msk)));
       State_Monad.return ()}}"

definition axi_clkgen_lookup_filter :: "u32 \<Rightarrow> u32" where
  "axi_clkgen_lookup_filter m =
     (if m < 47 then axi_clkgen_filter_table ! unat m else 0x08008090)"

definition axi_clkgen_lookup_lock :: "u32 \<Rightarrow> u32" where
  "axi_clkgen_lookup_lock m = (if m < 36 then axi_clkgen_lock_table ! unat m else 0x1f1f00fa)"

section \<open>The search for the dividers\<close>

text \<open>The limits (fpfd_min, fpfd_max, fvco_min, fvco_max), in kHz, by the FPGA's grade.\<close>

definition axi_clkgen_setup_ranges ::
  "'s axi_bus \<Rightarrow> axi_clkgen \<Rightarrow> u32 \<times> u32 \<times> u32 \<times> u32 \<Rightarrow> ('s, u32 \<times> u32 \<times> u32 \<times> u32) state" where
  "axi_clkgen_setup_ranges bus clkgen ranges = (case ranges of (fpfd_min, fpfd_max, fvco_min, fvco_max) \<Rightarrow> do {
     (_, reg_value) \<leftarrow> axi_clkgen_read bus clkgen AXI_REG_FPGA_INFO;
     let tech = AXI_INFO_FPGA_TECH reg_value;
     let family = AXI_INFO_FPGA_FAMILY reg_value;
     let speed_grade = AXI_INFO_FPGA_SPEED_GRADE reg_value;
     (_, reg_value) \<leftarrow> axi_clkgen_read bus clkgen AXI_REG_FPGA_VOLTAGE;
     let voltage = AXI_INFO_FPGA_VOLTAGE reg_value;
     let (fvco_max, fpfd_max) =
       (if AXI_FPGA_SPEED_1 \<le> speed_grade \<and> speed_grade \<le> AXI_FPGA_SPEED_1LV then (1200000, 450000)
        else if AXI_FPGA_SPEED_2 \<le> speed_grade \<and> speed_grade \<le> AXI_FPGA_SPEED_2LV then
          (if (family = AXI_FPGA_FAMILY_KINTEX \<or> family = AXI_FPGA_FAMILY_ARTIX) \<and> voltage < 950
           then (1200000, 450000) else (1440000, 500000))
        else if speed_grade = AXI_FPGA_SPEED_3 then (1600000, 550000)
        else (fvco_max, fpfd_max));
     let (fvco_max, fvco_min) =
       (if tech = AXI_FPGA_TECH_ULTRASCALE_PLUS then (1600000, 800000) else (fvco_max, fvco_min));
     State_Monad.return (fpfd_min, fpfd_max, fvco_min, fvco_max)})"

text \<open>
  The best setting so far: the distance is compared in signed arithmetic, which does not
  overflow, since every f is at most the VCO frequency and fout is below 2^32 / 1000.
\<close>

record clk_best =
  best_f :: int
  best_d :: u32
  best_m :: u32
  best_dout :: u32

text \<open>The loops visit the numbers from the lower to the upper bound; True is the early return.\<close>

definition range_u32 :: "u32 \<Rightarrow> u32 \<Rightarrow> u32 list" where
  "range_u32 lo hi = map of_nat [unat lo ..< Suc (unat hi)]"

fun search_d :: "u32 \<Rightarrow> u32 \<Rightarrow> u32 \<Rightarrow> u32 list \<Rightarrow> clk_best \<Rightarrow> (clk_best \<times> bool) option" where
  "search_d fin fout m [] b = Some (b, False)"
| "search_d fin fout m (d # ds) b = do {
     guard (d \<noteq> 0);
     let fvco = fin * m div d;
     dout \<leftarrow> DIV_ROUND_CLOSEST fvco fout;
     let dout = clamp_u32 dout 1 128;
     let f = sint (fvco div dout);
     if \<bar>f - sint fout\<bar> < \<bar>best_f b - sint fout\<bar>
     then (let b = \<lparr>best_f = f, best_d = d, best_m = m, best_dout = dout\<rparr> in
           if best_f b = sint fout then Some (b, True)
           else search_d fin fout m ds b)
     else search_d fin fout m ds b}"

fun search_m ::
  "u32 \<Rightarrow> u32 \<Rightarrow> u32 \<Rightarrow> u32 \<Rightarrow> u32 \<Rightarrow> u32 \<Rightarrow> u32 list \<Rightarrow> clk_best \<Rightarrow> clk_best option" where
  "search_m fin fout d_min d_max fvco_min fvco_max [] b = Some b"
| "search_m fin fout d_min d_max fvco_min fvco_max (m # ms) b = do {
     up \<leftarrow> DIV_ROUND_UP (fin * m) fvco_max;
     guard (fvco_min \<noteq> 0);
     let dd_min = max_u32 d_min up;
     let dd_max = min_u32 d_max (fin * m div fvco_min);
     (b, found) \<leftarrow> search_d fin fout m (range_u32 dd_min dd_max) b;
     if found then Some b else search_m fin fout d_min d_max fvco_min fvco_max ms b}"

text \<open>The part of axi_clkgen_calc_params after the registers are read.\<close>

definition calc_search :: "u32 \<times> u32 \<times> u32 \<times> u32 \<Rightarrow> u32 \<Rightarrow> u32 \<Rightarrow> clk_best option" where
  "calc_search ranges fin fout = (case ranges of (fpfd_min, fpfd_max, fvco_min, fvco_max) \<Rightarrow> do {
     let fin = fin div 1000;
     let fout = fout div 1000;
     let b = \<lparr>best_f = 0x7fffffff, best_d = 0, best_m = 0, best_dout = 0\<rparr>;
     up \<leftarrow> DIV_ROUND_UP fin fpfd_max;
     let d_min = max_u32 up 1;
     guard (fpfd_min \<noteq> 0);
     let d_max = min_u32 (fin div fpfd_min) 80;
     up \<leftarrow> DIV_ROUND_UP fvco_min fin;
     let m_min = max_u32 (up * d_min) 1;
     let m_max = min_u32 (fvco_max * d_max div fin) 64;
     search_m fin fout d_min d_max fvco_min fvco_max (range_u32 m_min m_max) b})"

text \<open>The limits in force: the defaults, or those of the FPGA on a recent core.\<close>

definition freq_ranges :: "'s axi_bus \<Rightarrow> axi_clkgen \<Rightarrow> ('s, u32 \<times> u32 \<times> u32 \<times> u32) state" where
  "freq_ranges bus clkgen = do {
     (_, pcore_version) \<leftarrow> axi_clkgen_read bus clkgen AXI_REG_VERSION;
     if AXI_PCORE_VER_MAJOR pcore_version > 0x04
     then axi_clkgen_setup_ranges bus clkgen (10000, 300000, 600000, 1200000)
     else State_Monad.return (10000, 300000, 600000, 1200000)}"

definition axi_clkgen_calc_params ::
  "'s axi_bus \<Rightarrow> axi_clkgen \<Rightarrow> u32 \<Rightarrow> u32 \<Rightarrow> ('s, (u32 \<times> u32 \<times> u32) option) state" where
  "axi_clkgen_calc_params bus clkgen fin fout = do {
     ranges \<leftarrow> freq_ranges bus clkgen;
     State_Monad.return (map_option (\<lambda>b. (best_d b, best_m b, best_dout b))
       (calc_search ranges fin fout))}"

text \<open>(low, high, edge, nocount) of a divider.\<close>

definition axi_clkgen_calc_clk_params :: "u32 \<Rightarrow> u32 \<times> u32 \<times> u32 \<times> u32" where
  "axi_clkgen_calc_clk_params divider =
     (let nocount = (if divider = 1 then 1 else 0);
          high = divider div 2;
          edge = divider mod 2
      in (divider - high, high, edge, nocount))"

section \<open>Rates\<close>

definition axi_clkgen_mmcm_enable :: "'s axi_bus \<Rightarrow> axi_clkgen \<Rightarrow> bool \<Rightarrow> ('s, unit) state" where
  "axi_clkgen_mmcm_enable bus clkgen enable = do {
     axi_clkgen_write bus clkgen AXI_CLKGEN_REG_RESETN
       (if enable then AXI_CLKGEN_RESETN OR AXI_CLKGEN_MMCM_RESETN else AXI_CLKGEN_RESETN);
     State_Monad.return ()}"

text \<open>The counter pair of one clock output or of the feedback: two registers.\<close>

definition write_clk_regs :: "'s axi_bus \<Rightarrow> axi_clkgen \<Rightarrow> u32 \<Rightarrow> u32 \<Rightarrow> u32 \<Rightarrow> ('s, unit) state" where
  "write_clk_regs bus clkgen reg1 reg2 divider =
     (case axi_clkgen_calc_clk_params divider of (low, high, edge, nocount) \<Rightarrow> do {
        axi_clkgen_mmcm_write bus clkgen reg1 (push_bit 6 high OR low) 0xefff;
        axi_clkgen_mmcm_write bus clkgen reg2 (push_bit 7 edge OR push_bit 6 nocount) 0x03ff})"

text \<open>All the MMCM registers of a setting (d, m, dout), between reset and release.\<close>

definition program_mmcm :: "'s axi_bus \<Rightarrow> axi_clkgen \<Rightarrow> u32 \<Rightarrow> u32 \<Rightarrow> u32 \<Rightarrow> ('s, unit) state" where
  "program_mmcm bus clkgen d m dout = (let filtr = axi_clkgen_lookup_filter (m - 1);
                                           lock = axi_clkgen_lookup_lock (m - 1) in do {
     axi_clkgen_mmcm_enable bus clkgen False;
     write_clk_regs bus clkgen MMCM_REG_CLKOUT0_1 MMCM_REG_CLKOUT0_2 dout;
     write_clk_regs bus clkgen MMCM_REG_CLKOUT1_1 MMCM_REG_CLKOUT1_2 (dout * 4);
     (case axi_clkgen_calc_clk_params d of (low, high, edge, nocount) \<Rightarrow>
        axi_clkgen_mmcm_write bus clkgen MMCM_REG_CLK_DIV
          (push_bit 13 edge OR push_bit 12 nocount OR push_bit 6 high OR low) 0x3fff);
     write_clk_regs bus clkgen MMCM_REG_CLK_FB1 MMCM_REG_CLK_FB2 m;
     axi_clkgen_mmcm_write bus clkgen MMCM_REG_LOCK1 (lock AND 0x3ff) 0x3ff;
     axi_clkgen_mmcm_write bus clkgen MMCM_REG_LOCK2
       (push_bit 10 (drop_bit 16 lock AND 0x1f) OR 0x1) 0x7fff;
     axi_clkgen_mmcm_write bus clkgen MMCM_REG_LOCK3
       (push_bit 10 (drop_bit 24 lock AND 0x1f) OR 0x3e9) 0x7fff;
     axi_clkgen_mmcm_write bus clkgen MMCM_REG_FILTER1 (drop_bit 16 filtr) 0x9900;
     axi_clkgen_mmcm_write bus clkgen MMCM_REG_FILTER2 filtr 0x9900;
     axi_clkgen_mmcm_enable bus clkgen True})"

text \<open>\<open>None\<close> is the division by zero of the search; \<open>mdelay\<close> is the time that passes.\<close>

definition axi_clkgen_set_rate ::
  "'s axi_bus \<Rightarrow> ('s \<Rightarrow> 's) \<Rightarrow> axi_clkgen \<Rightarrow> u32 \<Rightarrow> ('s, int option) state" where
  "axi_clkgen_set_rate bus mdelay10 clkgen rate =
     (if parent_rate clkgen = 0 \<or> rate = 0 then State_Monad.return (Some 0)
      else do {
        params \<leftarrow> axi_clkgen_calc_params bus clkgen (parent_rate clkgen) rate;
        case params of None \<Rightarrow> State_Monad.return None
        | Some (d, m, dout) \<Rightarrow>
            if d = 0 \<or> dout = 0 \<or> m = 0 then State_Monad.return (Some 0)
            else do {
              program_mmcm bus clkgen d m dout;
              State_Monad.update mdelay10;
              (_, reg_val) \<leftarrow> axi_clkgen_read bus clkgen AXI_CLKGEN_REG_STATUS;
              State_Monad.return (Some
                (if reg_val AND AXI_CLKGEN_STATUS = 0 then FAILURE else SUCCESS))}})"

definition reg_divider :: "u32 \<Rightarrow> u32" where
  "reg_divider reg = (reg AND 0x3f) + (drop_bit 6 reg AND 0x3f)"

text \<open>\<open>junk\<close> is what the uninitialised variable reg holds.\<close>

definition axi_clkgen_get_rate :: "'s axi_bus \<Rightarrow> axi_clkgen \<Rightarrow> u32 \<Rightarrow> ('s, int \<times> u32) state" where
  "axi_clkgen_get_rate bus clkgen junk = do {
     reg \<leftarrow> axi_clkgen_mmcm_read bus clkgen MMCM_REG_CLKOUT0_1 junk;
     let dout = reg_divider reg;
     reg \<leftarrow> axi_clkgen_mmcm_read bus clkgen MMCM_REG_CLK_DIV reg;
     let d = reg_divider reg;
     reg \<leftarrow> axi_clkgen_mmcm_read bus clkgen MMCM_REG_CLK_FB1 reg;
     let m = reg_divider reg;
     if d = 0 \<or> dout = 0 then State_Monad.return (SUCCESS, 0)
     else (let tmp = (ucast (parent_rate clkgen div d) :: u64) * ucast m;
               tmp = tmp div ucast dout;
               rate = (if tmp > 0xffffffff then (0xffffffff :: u32) else 0);
               rate = ucast tmp
           in State_Monad.return (SUCCESS, rate))}"

section \<open>Creation and removal\<close>

definition axi_clkgen_init ::
  "axi_clkgen \<Rightarrow> axi_clkgen heap \<Rightarrow> int \<times> nat option \<times> axi_clkgen heap" where
  "axi_clkgen_init init h =
     (case calloc \<lparr>name = name init, base = base init, parent_rate = parent_rate init\<rparr> h of
        (None, h) \<Rightarrow> (FAILURE, None, h)
      | (Some a, h) \<Rightarrow> (SUCCESS, Some a, h))"

text \<open>free accepts a NULL pointer.\<close>

definition axi_clkgen_remove :: "nat option \<Rightarrow> axi_clkgen heap \<Rightarrow> (int \<times> axi_clkgen heap) option" where
  "axi_clkgen_remove p h = (case p of None \<Rightarrow> Some (SUCCESS, h)
     | Some a \<Rightarrow> do {h \<leftarrow> cfree a h; Some (SUCCESS, h)})"

declare drp_wait.simps [simp del]

section \<open>The search finds the best setting\<close>

text \<open>The output divider and the frequency of the setting (m, d), as the search computes them.\<close>

definition dout_of :: "u32 \<Rightarrow> u32 \<Rightarrow> u32 \<Rightarrow> u32 \<Rightarrow> u32" where
  "dout_of fin fout m d = clamp_u32 ((fin * m div d + fout div 2) div fout) 1 128"

definition f_of :: "u32 \<Rightarrow> u32 \<Rightarrow> u32 \<Rightarrow> u32 \<Rightarrow> int" where
  "f_of fin fout m d = sint (fin * m div d div dout_of fin fout m d)"

definition setting :: "u32 \<Rightarrow> u32 \<Rightarrow> u32 \<Rightarrow> u32 \<Rightarrow> clk_best" where
  "setting fin fout m d =
     \<lparr>best_f = f_of fin fout m d, best_d = d, best_m = m, best_dout = dout_of fin fout m d\<rparr>"

text \<open>
  \<open>b'\<close> is \<open>b\<close> or the best of the settings in \<open>S\<close>; \<open>found\<close> says that it hits the target, and
  only then settings of \<open>S\<close> may have been left out.
\<close>

definition improves :: "u32 \<Rightarrow> u32 \<Rightarrow> (u32 \<times> u32) set \<Rightarrow> clk_best \<Rightarrow> clk_best \<Rightarrow> bool \<Rightarrow> bool" where
  "improves fin fout S b b' found \<longleftrightarrow>
     (b' = b \<or> (\<exists>(m, d) \<in> S. b' = setting fin fout m d))
     \<and> \<bar>best_f b' - sint fout\<bar> \<le> \<bar>best_f b - sint fout\<bar>
     \<and> (found \<longrightarrow> best_f b' = sint fout)
     \<and> (\<not> found \<longrightarrow> (\<forall>(m, d) \<in> S. \<bar>best_f b' - sint fout\<bar> \<le> \<bar>f_of fin fout m d - sint fout\<bar>))"

lemma improves_trans:
  assumes "improves fin fout S b b' False" "improves fin fout T b' b'' found"
  shows "improves fin fout (S \<union> T) b b'' found"
  using assms unfolding improves_def by (auto intro: order_trans)

lemma improves_found_mono:
  "improves fin fout S b b' True \<Longrightarrow> improves fin fout (S \<union> T) b b' True"
  unfolding improves_def by blast

lemma improves_min:
  assumes "improves fin fout S b b' found" "(m, d) \<in> S"
  shows "\<bar>best_f b' - sint fout\<bar> \<le> \<bar>f_of fin fout m d - sint fout\<bar>"
  using assms by (cases found) (auto simp: improves_def)

lemma improves_one:
  "improves fin fout {(m, d)} b
     (if \<bar>f_of fin fout m d - sint fout\<bar> < \<bar>best_f b - sint fout\<bar> then setting fin fout m d else b)
     False"
  by (simp add: improves_def setting_def)

lemma search_d_spec:
  assumes "fout \<noteq> 0" "0 \<notin> set ds"
  shows "\<exists>b' found. search_d fin fout m ds b = Some (b', found)
    \<and> improves fin fout ({m} \<times> set ds) b b' found"
  using assms(2)
proof (induction ds arbitrary: b)
  case Nil
  show ?case by (auto simp: improves_def intro: exI [of _ False])
next
  case (Cons d ds)
  let ?F = "sint fout" and ?s = "setting fin fout m d"
  let ?better = "\<bar>f_of fin fout m d - ?F\<bar> < \<bar>best_f b - ?F\<bar>"
  have step: "search_d fin fout m (d # ds) b =
      (if ?better then if best_f ?s = ?F then Some (?s, True) else search_d fin fout m ds ?s
       else search_d fin fout m ds b)"
    using Cons.prems assms(1)
    by (simp add: DIV_ROUND_CLOSEST_def Let_def f_of_def dout_of_def setting_def)
  have Un: "{m} \<times> set (d # ds) = {(m, d)} \<union> {m} \<times> set ds" by auto
  note one = improves_one [of fin fout m d b]
  show ?case
  proof (cases "?better \<and> best_f ?s = ?F")
    case True
    then have "improves fin fout {(m, d)} b ?s True" by (simp add: improves_def setting_def)
    then have "improves fin fout ({(m, d)} \<union> {m} \<times> set ds) b ?s True"
      by (rule improves_found_mono)
    then show ?thesis using True unfolding Un step by auto
  next
    case False
    let ?b = "if ?better then ?s else b"
    have eq: "search_d fin fout m (d # ds) b = search_d fin fout m ds ?b"
      using False by (auto simp: step simp del: search_d.simps)
    obtain b' found where s: "search_d fin fout m ds ?b = Some (b', found)"
      and i: "improves fin fout ({m} \<times> set ds) ?b b' found"
      using Cons.IH [of ?b] Cons.prems by auto
    from s improves_trans [OF one i] show ?thesis unfolding Un eq by blast
  qed
qed

definition d_range :: "u32 \<Rightarrow> u32 \<Rightarrow> u32 \<Rightarrow> u32 \<Rightarrow> u32 \<Rightarrow> u32 \<Rightarrow> u32 list" where
  "d_range fin d_min d_max fvco_min fvco_max m =
     range_u32 (max_u32 d_min ((fin * m + fvco_max - 1) div fvco_max))
       (min_u32 d_max (fin * m div fvco_min))"

lemma set_range_u32: "set (range_u32 lo hi) = {lo..hi}"
proof -
  have "x \<in> of_nat ` {unat lo..unat hi}" if "lo \<le> x" "x \<le> hi" for x
    using that by (intro image_eqI [of _ _ "unat x"]) (simp_all add: word_le_nat_alt)
  moreover have "of_nat k \<in> {lo..hi}" if "unat lo \<le> k" "k \<le> unat hi" for k
    using that le_less_trans [OF that(2) unat_u32_less]
    by (simp add: word_le_nat_alt unat_of_nat_u32)
  ultimately show ?thesis
    unfolding range_u32_def by (auto simp: atLeastLessThanSuc_atLeastAtMost simp del: upt_Suc)
qed

lemma search_m_spec:
  assumes "fout \<noteq> 0" "d_min \<noteq> 0" "fvco_min \<noteq> 0" "fvco_max \<noteq> 0"
  shows "\<exists>b' found. search_m fin fout d_min d_max fvco_min fvco_max ms b = Some b'
    \<and> improves fin fout (SIGMA m:set ms. set (d_range fin d_min d_max fvco_min fvco_max m)) b b' found"
proof (induction ms arbitrary: b)
  case Nil
  show ?case by (auto simp: improves_def intro: exI [of _ False])
next
  case (Cons m ms)
  let ?R = "d_range fin d_min d_max fvco_min fvco_max"
  have Un: "(SIGMA m:set (m # ms). set (?R m)) = {m} \<times> set (?R m) \<union> (SIGMA m:set ms. set (?R m))"
    by auto
  have "0 \<notin> set (?R m)"
    using assms(2) by (auto simp: d_range_def set_range_u32 max_u32_def word_gt_0 split: if_splits)
  then obtain b' found where d: "search_d fin fout m (?R m) b = Some (b', found)"
    "improves fin fout ({m} \<times> set (?R m)) b b' found"
    using search_d_spec [OF assms(1)] by blast
  then have step: "search_m fin fout d_min d_max fvco_min fvco_max (m # ms) b =
      (if found then Some b' else search_m fin fout d_min d_max fvco_min fvco_max ms b')"
    using assms(3,4) by (simp add: DIV_ROUND_UP_def d_range_def Let_def)
  show ?case
  proof (cases found)
    case True
    then have "improves fin fout ({m} \<times> set (?R m) \<union> (SIGMA m:set ms. set (?R m))) b b' True"
      using d(2) improves_found_mono by simp
    then show ?thesis using True unfolding Un step by auto
  next
    case False
    obtain b'' fnd where "search_m fin fout d_min d_max fvco_min fvco_max ms b' = Some b''"
      "improves fin fout (SIGMA m:set ms. set (?R m)) b' b'' fnd"
      using Cons.IH [of b'] by blast
    moreover from this(2) d(2) False
    have "improves fin fout ({m} \<times> set (?R m) \<union> (SIGMA m:set ms. set (?R m))) b b'' fnd"
      using improves_trans by simp
    ultimately show ?thesis using False unfolding Un step by auto
  qed
qed

text \<open>The settings the MMCM supports: all frequencies in kHz, as natural numbers.\<close>

definition legal :: "u32 \<times> u32 \<times> u32 \<times> u32 \<Rightarrow> u32 \<Rightarrow> u32 \<Rightarrow> u32 \<Rightarrow> bool" where
  "legal ranges fin m d = (case ranges of (fpfd_min, fpfd_max, fvco_min, fvco_max) \<Rightarrow>
     1 \<le> unat d \<and> unat d \<le> 80 \<and> 1 \<le> unat m \<and> unat m \<le> 64
     \<and> unat fpfd_min * unat d \<le> unat fin \<and> unat fin \<le> unat fpfd_max * unat d
     \<and> unat fvco_min * unat d \<le> unat fin * unat m \<and> unat fin * unat m \<le> unat fvco_max * unat d)"

definition good_ranges :: "u32 \<times> u32 \<times> u32 \<times> u32 \<Rightarrow> bool" where
  "good_ranges ranges = (case ranges of (fpfd_min, fpfd_max, fvco_min, fvco_max) \<Rightarrow>
     \<forall>x \<in> {fpfd_min, fpfd_max, fvco_min, fvco_max}. 0 < unat x \<and> unat x < 16777216)"

lemma ceil_le_iff:
  assumes "(y :: u32) \<noteq> 0" "unat x + unat y \<le> 4294967296"
  shows "(x + y - 1) div y \<le> d \<longleftrightarrow> unat x \<le> unat y * unat d"
proof -
  have y: "0 < unat y" using assms(1) by (simp add: unat_gt_0)
  have y1: "unat (y - 1) = unat y - 1" using assms(1) by (rule unat_minus_one)
  have "unat (x + (y - 1)) = unat x + (unat y - 1)"
    using assms(2) y by (simp add: unat_word_ariths(1) y1)
  then have "unat ((x + y - 1) div y) = (unat x + unat y - 1) div unat y"
    using y by (simp add: unat_div add_diff_eq)
  also have "\<dots> \<le> unat d \<longleftrightarrow> unat x \<le> unat y * unat d"
    using y by (simp add: less_Suc_eq_le [symmetric] div_less_iff_less_mult) (auto simp: algebra_simps)
  finally show ?thesis by (simp add: word_le_nat_alt)
qed

lemma le_div_u32_iff: "(y :: u32) \<noteq> 0 \<Longrightarrow> d \<le> x div y \<longleftrightarrow> unat d * unat y \<le> unat x"
  by (simp add: word_le_nat_alt unat_div less_eq_div_iff_mult_less_eq unat_gt_0)

lemma max_u32_le [simp]: "max_u32 a b \<le> d \<longleftrightarrow> a \<le> d \<and> b \<le> d"
  by (auto simp: max_u32_def)

lemma le_min_u32 [simp]: "d \<le> min_u32 a b \<longleftrightarrow> d \<le> a \<and> d \<le> b"
  by (auto simp: min_u32_def)

lemma unat_mult_u32: "unat (x :: u32) * unat y < 4294967296 \<Longrightarrow> unat (x * y) = unat x * unat y"
  by (simp add: unat_word_ariths(2))

text \<open>The settings the loops visit are legal ones, and all of them when no divider is forced.\<close>

definition grid :: "u32 \<times> u32 \<times> u32 \<times> u32 \<Rightarrow> u32 \<Rightarrow> (u32 \<times> u32) set" where
  "grid ranges fin = (case ranges of (fpfd_min, fpfd_max, fvco_min, fvco_max) \<Rightarrow>
     let d_min = max_u32 ((fin + fpfd_max - 1) div fpfd_max) 1;
         d_max = min_u32 (fin div fpfd_min) 80;
         m_min = max_u32 ((fvco_min + fin - 1) div fin * d_min) 1;
         m_max = min_u32 (fvco_max * d_max div fin) 64
     in SIGMA m:{m_min..m_max}. set (d_range fin d_min d_max fvco_min fvco_max m))"

lemma u32_1_le: "1 \<le> (x :: u32) \<longleftrightarrow> 1 \<le> unat x"
  by (simp add: word_le_nat_alt)

lemma mem_d_range:
  assumes "unat fin \<le> 4294967" "m \<le> 64" "good_ranges (fpfd_min, fpfd_max, fvco_min, fvco_max)"
  shows "d \<in> set (d_range fin d_min d_max fvco_min fvco_max m) \<longleftrightarrow>
    d_min \<le> d \<and> d \<le> d_max
    \<and> unat fvco_min * unat d \<le> unat fin * unat m \<and> unat fin * unat m \<le> unat fvco_max * unat d"
proof -
  have m: "unat m \<le> 64" using assms(2) by (simp add: word_le_nat_alt)
  have le: "unat fin * unat m \<le> 4294967 * 64" using assms(1) m by (rule mult_le_mono)
  then have fm: "unat (fin * m) = unat fin * unat m" by (intro unat_mult_u32) simp
  have "fvco_min \<noteq> 0" "fvco_max \<noteq> 0" "unat (fin * m) + unat fvco_max \<le> 4294967296"
    using assms(3) le by (auto simp: good_ranges_def fm)
  then show ?thesis
    by (auto simp: d_range_def set_range_u32 ceil_le_iff le_div_u32_iff fm mult.commute)
qed

lemma grid_legal:
  assumes "unat fin \<le> 4294967" "good_ranges ranges" "(m, d) \<in> grid ranges fin"
  shows "legal ranges fin m d"
proof -
  obtain fpfd_min fpfd_max fvco_min fvco_max where r: "ranges = (fpfd_min, fpfd_max, fvco_min, fvco_max)"
    by (cases ranges) auto
  have m: "m \<le> 64" "1 \<le> m" using assms(3) by (auto simp: grid_def r Let_def)
  have "fpfd_min \<noteq> 0" "fpfd_max \<noteq> 0" "unat fin + unat fpfd_max \<le> 4294967296"
    using assms(1,2) by (auto simp: good_ranges_def r)
  then have "1 \<le> d" "d \<le> 80" "unat fpfd_min * unat d \<le> unat fin" "unat fin \<le> unat fpfd_max * unat d"
    "unat fvco_min * unat d \<le> unat fin * unat m" "unat fin * unat m \<le> unat fvco_max * unat d"
    using assms(3) mem_d_range [OF assms(1) m(1) assms(2) [unfolded r]]
    by (auto simp: grid_def r Let_def ceil_le_iff le_div_u32_iff mult.commute)
  with m show ?thesis by (simp add: legal_def r word_le_nat_alt)
qed

lemma legal_grid:
  assumes "unat fin \<le> 4294967" "fin \<noteq> 0" "good_ranges ranges" "legal ranges fin m d"
    "fin \<le> fst (snd ranges)"
  shows "(m, d) \<in> grid ranges fin"
proof -
  obtain fpfd_min fpfd_max fvco_min fvco_max where r: "ranges = (fpfd_min, fpfd_max, fvco_min, fvco_max)"
    by (cases ranges) auto
  let ?d_max = "min_u32 (fin div fpfd_min) 80"
  have nz: "fpfd_min \<noteq> 0" "fpfd_max \<noteq> 0" "unat fin + unat fpfd_max \<le> 4294967296"
    "unat fvco_min + unat fin \<le> 4294967296" "unat fvco_max < 16777216"
    using assms(1,3) by (auto simp: good_ranges_def r)
  have d_min: "max_u32 ((fin + fpfd_max - 1) div fpfd_max) 1 = 1"
  proof -
    have "(fin + fpfd_max - 1) div fpfd_max \<le> 1"
      unfolding ceil_le_iff [OF nz(2,3)] using assms(5) by (simp add: r word_le_nat_alt)
    then show ?thesis by (auto simp: max_u32_def)
  qed
  have m: "m \<le> 64" "1 \<le> m" and d: "1 \<le> d" "d \<le> 80"
    using assms(4) by (simp_all add: legal_def r word_le_nat_alt)
  have d: "1 \<le> d" "d \<le> ?d_max"
    using d assms(4) nz(1) by (simp_all add: legal_def r le_div_u32_iff mult.commute)
  have "?d_max \<le> 80" using le_min_u32 [of ?d_max "fin div fpfd_min" 80] by simp
  then have "unat fvco_max * unat ?d_max \<le> 16777216 * 80"
    using nz(5) by (intro mult_le_mono) (simp_all add: word_le_nat_alt)
  then have dm: "unat (fvco_max * ?d_max) = unat fvco_max * unat ?d_max"
    by (intro unat_mult_u32) simp
  have "unat fvco_min * 1 \<le> unat fvco_min * unat d" using assms(4) by (intro mult_le_mono) (simp_all add: legal_def r)
  also have "\<dots> \<le> unat fin * unat m" using assms(4) by (simp add: legal_def r)
  finally have lo: "(fvco_min + fin - 1) div fin \<le> m" using ceil_le_iff [OF assms(2) nz(4)] by simp
  have "unat fin * unat m \<le> unat fvco_max * unat d" using assms(4) by (simp add: legal_def r)
  also have "\<dots> \<le> unat fvco_max * unat ?d_max" using d(2) by (simp add: word_le_nat_alt)
  finally have hi: "m \<le> fvco_max * ?d_max div fin"
    unfolding le_div_u32_iff [OF assms(2)] dm by (simp only: mult.commute)
  show ?thesis
    using m d lo hi mem_d_range [OF assms(1) m(1) assms(3) [unfolded r]] assms(4)
    by (simp add: grid_def r d_min legal_def Let_def)
qed

lemma calc_search_spec:
  assumes "good_ranges ranges" "1000 \<le> fin" "1000 \<le> fout"
  shows "\<exists>b found. calc_search ranges fin fout = Some b
    \<and> improves (fin div 1000) (fout div 1000) (grid ranges (fin div 1000))
        \<lparr>best_f = 0x7fffffff, best_d = 0, best_m = 0, best_dout = 0\<rparr> b found"
proof -
  obtain fpfd_min fpfd_max fvco_min fvco_max where r: "ranges = (fpfd_min, fpfd_max, fvco_min, fvco_max)"
    by (cases ranges) auto
  have nz: "fpfd_min \<noteq> 0" "fpfd_max \<noteq> 0" "fvco_min \<noteq> 0" "fvco_max \<noteq> 0"
    using assms(1) by (auto simp: good_ranges_def r)
  have "1 \<le> fin div 1000" "1 \<le> fout div 1000"
    using assms(2,3) by (subst le_div_u32_iff; simp add: word_le_nat_alt)+
  then have k: "fin div 1000 \<noteq> 0" "fout div 1000 \<noteq> 0" by auto
  have "max_u32 x 1 \<noteq> 0" for x :: u32 by (auto simp: max_u32_def)
  from search_m_spec [OF k(2) this nz(3,4), of "fin div 1000"] show ?thesis
    using nz k by (simp add: calc_search_def grid_def r Let_def DIV_ROUND_UP_def set_range_u32 [symmetric])
qed

lemma f_of_bounds:
  assumes "unat fin \<le> 4294967" "unat m \<le> 64"
  shows "0 \<le> f_of fin fout m d" "f_of fin fout m d \<le> 274877888"
proof -
  have le: "unat fin * unat m \<le> 4294967 * 64" using assms by (rule mult_le_mono)
  then have fm: "unat (fin * m) = unat fin * unat m" by (intro unat_mult_u32) simp
  let ?x = "fin * m div d div dout_of fin fout m d"
  have "unat ?x \<le> unat (fin * m)" unfolding unat_div by (meson div_le_dividend le_trans)
  with le have x: "unat ?x \<le> 274877888" by (simp add: fm)
  then have "sint ?x = int (unat ?x)" by (intro sint_u32_small) simp
  with x show "0 \<le> f_of fin fout m d" "f_of fin fout m d \<le> 274877888"
    by (simp_all only: f_of_def of_nat_0_le_iff of_nat_le_iff [of _ 274877888, simplified])
qed

lemma dout_of_bounds: "1 \<le> dout_of fin fout m d" "dout_of fin fout m d \<le> 128"
  by (auto simp: dout_of_def clamp_u32_def max_u32_def min_u32_def)

lemma unat_div_1000: "unat ((x :: u32) div 1000) \<le> 4294967"
proof -
  have "unat x div 1000 \<le> 4294967296 div 1000" by (rule div_le_mono) (simp add: less_imp_le)
  then show ?thesis by (simp add: unat_div)
qed

text \<open>What the search returns: no setting, or a legal one no worse than any legal one.\<close>

lemma calc_search_best:
  fixes fin fout :: u32
  defines "fi \<equiv> fin div 1000" and "fo \<equiv> fout div 1000"
  assumes good: "good_ranges ranges" and in_out: "1000 \<le> fin" "1000 \<le> fout"
  shows "\<exists>b. calc_search ranges fin fout = Some b
    \<and> (best_d b = 0 \<and> best_m b = 0 \<and> best_dout b = 0
       \<or> legal ranges fi (best_m b) (best_d b) \<and> b = setting fi fo (best_m b) (best_d b))
    \<and> (\<forall>m d. legal ranges fi m d \<and> fi \<le> fst (snd ranges) \<longrightarrow>
         best_d b \<noteq> 0 \<and> \<bar>best_f b - sint fo\<bar> \<le> \<bar>f_of fi fo m d - sint fo\<bar>)"
proof -
  let ?b0 = "\<lparr>best_f = 0x7fffffff, best_d = 0, best_m = 0, best_dout = 0\<rparr>"
  obtain b found where b: "calc_search ranges fin fout = Some b"
    and imp: "improves fi fo (grid ranges fi) ?b0 b found"
    using calc_search_spec [OF good in_out] unfolding fi_def fo_def by blast
  have fi: "unat fi \<le> 4294967" "fi \<noteq> 0"
    using unat_div_1000 in_out(1) by (auto simp: fi_def word_le_nat_alt unat_div unat_eq_zero [symmetric] simp del: unat_eq_zero)
  have leg: "legal ranges fi m d" if "(m, d) \<in> grid ranges fi" for m d
    using grid_legal [OF fi(1) good that] .
  have first: "best_d b = 0 \<and> best_m b = 0 \<and> best_dout b = 0
       \<or> legal ranges fi (best_m b) (best_d b) \<and> b = setting fi fo (best_m b) (best_d b)"
    using imp leg unfolding improves_def by (fastforce simp: setting_def)
  have "best_d b \<noteq> 0 \<and> \<bar>best_f b - sint fo\<bar> \<le> \<bar>f_of fi fo m d - sint fo\<bar>"
    if "legal ranges fi m d" "fi \<le> fst (snd ranges)" for m d
  proof -
    have mem: "(m, d) \<in> grid ranges fi" by (rule legal_grid [OF fi good that])
    have near: "\<bar>best_f b - sint fo\<bar> \<le> \<bar>f_of fi fo m d - sint fo\<bar>" by (rule improves_min [OF imp mem])
    have "sint fo = int (unat fo)" and "unat fo \<le> 4294967"
      using unat_div_1000 [of fout] by (simp_all add: fo_def sint_u32_small)
    moreover have "0 \<le> f_of fi fo m d" "f_of fi fo m d \<le> 274877888"
      using f_of_bounds [OF fi(1)] that(1) by (auto simp: legal_def split: prod.splits)
    ultimately have "best_f b \<noteq> 0x7fffffff" using near by linarith
    then have "b \<noteq> ?b0" by auto
    with imp leg have "legal ranges fi (best_m b) (best_d b)"
      unfolding improves_def by (fastforce simp: setting_def)
    with near show ?thesis by (auto simp: legal_def split: prod.splits)
  qed
  with b first show ?thesis by auto
qed

lemma run_clkgen_read [simp]:
  "run_state (axi_clkgen_read bus c r) s =
     ((0, fst (Xil_In32 bus (base c + r) s)), snd (Xil_In32 bus (base c + r) s))"
  by (simp add: axi_clkgen_read_def)

lemma run_clkgen_write [simp]:
  "run_state (axi_clkgen_write bus c r v) s = (0, Xil_Out32 bus (base c + r) v s)"
  by (simp add: axi_clkgen_write_def)

lemma freq_ranges_good: "good_ranges (fst (run_state (freq_ranges bus c) s))"
  by (simp add: freq_ranges_def axi_clkgen_setup_ranges_def good_ranges_def split_beta Let_def)

text \<open>
  C30. The search of the clock generator for a parent and a target rate of at least 1 kHz ends
  without dividing by zero and yields either no setting at all or one that respects every
  limit of the FPGA the core reports: the divider ranges, the phase detector and the VCO
  frequency. The output divider is not searched: for each pair of d and m it is the VCO
  frequency divided by the target, rounded and clamped to 1..128. When the parent rate does
  not exceed the phase detector limit, the search yields a setting whenever a legal pair
  exists, and no legal pair, with the output divider rounded in this way, comes closer to the
  target. (With another output divider one may, see \<open>axi_clkgen_other_divider_closer\<close>.)
\<close>

theorem axi_clkgen_calc_params_best:
  assumes "1000 \<le> fin" "1000 \<le> fout"
    and "ranges = fst (run_state (freq_ranges bus clkgen) s)"
    and "fi = fin div 1000" "fo = fout div 1000"
  shows "\<exists>d m dout. fst (run_state (axi_clkgen_calc_params bus clkgen fin fout) s) = Some (d, m, dout)
    \<and> (d = 0 \<and> m = 0 \<and> dout = 0
       \<or> legal ranges fi m d \<and> 1 \<le> dout \<and> dout \<le> 128 \<and> dout = dout_of fi fo m d)
    \<and> (\<forall>m' d'. legal ranges fi m' d' \<and> fi \<le> fst (snd ranges)
         \<longrightarrow> d \<noteq> 0 \<and> \<bar>f_of fi fo m d - sint fo\<bar> \<le> \<bar>f_of fi fo m' d' - sint fo\<bar>)"
proof -
  have "good_ranges ranges" by (simp add: assms(3) freq_ranges_good)
  from calc_search_best [OF this assms(1,2)] obtain b where b:
    "calc_search ranges fin fout = Some b"
    "best_d b = 0 \<and> best_m b = 0 \<and> best_dout b = 0
       \<or> legal ranges fi (best_m b) (best_d b) \<and> b = setting fi fo (best_m b) (best_d b)"
    "\<forall>m d. legal ranges fi m d \<and> fi \<le> fst (snd ranges) \<longrightarrow>
         best_d b \<noteq> 0 \<and> \<bar>best_f b - sint fo\<bar> \<le> \<bar>f_of fi fo m d - sint fo\<bar>"
    unfolding assms(4,5) by blast
  have eq: "best_dout b = dout_of fi fo (best_m b) (best_d b)"
    "best_f b = f_of fi fo (best_m b) (best_d b)" if "best_d b \<noteq> 0"
  proof -
    have "b = setting fi fo (best_m b) (best_d b)" using b(2) that by blast
    from arg_cong [OF this, of best_dout] arg_cong [OF this, of best_f]
    show "best_dout b = dout_of fi fo (best_m b) (best_d b)"
      "best_f b = f_of fi fo (best_m b) (best_d b)"
      by (simp_all only: setting_def clk_best.select_convs)
  qed
  have "fst (run_state (axi_clkgen_calc_params bus clkgen fin fout) s) =
      Some (best_d b, best_m b, best_dout b)"
    by (simp add: axi_clkgen_calc_params_def split_beta assms(3) [symmetric] b(1))
  moreover have "best_d b \<noteq> 0" if "legal ranges fi (best_m b) (best_d b)"
    using that by (auto simp: legal_def split: prod.splits)
  ultimately show ?thesis using b(2,3) eq dout_of_bounds by metis
qed

definition plain_bus :: "unit axi_bus" where
  "plain_bus = \<lparr>Xil_In32 = (\<lambda>a s. (0, s)), Xil_Out32 = (\<lambda>a v s. s)\<rparr>"

definition example_clkgen :: axi_clkgen where
  "example_clkgen = \<lparr>name = ''clk'', base = 0, parent_rate = 100000000\<rparr>"

theorem axi_clkgen_calc_params_best_witness:
  "\<exists>d m dout. fst (run_state (axi_clkgen_calc_params plain_bus example_clkgen 100000000 148500000) ())
       = Some (d, m, dout) \<and> d \<noteq> 0
     \<and> \<bar>f_of 100000 148500 m d - 148500\<bar> \<le> \<bar>f_of 100000 148500 37 5 - 148500\<bar>"
proof -
  have r: "fst (run_state (freq_ranges plain_bus example_clkgen) ()) = (10000, 300000, 600000, 1200000)"
    by (simp add: freq_ranges_def plain_bus_def example_clkgen_def AXI_PCORE_VER_MAJOR_def)
  have "legal (10000, 300000, 600000, 1200000) 100000 37 5" by (simp add: legal_def)
  with axi_clkgen_calc_params_best [of 100000000 148500000 _ plain_bus example_clkgen "()", OF _ _ refl refl refl]
  show ?thesis unfolding r by fastforce
qed

text \<open>
  The rounded output divider is not always the best: for 427 MHz from 10 MHz the search
  returns m = 60 with the divider 1, that is 600 MHz, while m = 64 with the divider 2 is legal
  as well and gives 320 MHz, which is closer.
\<close>

theorem axi_clkgen_other_divider_closer:
  "fst (run_state (axi_clkgen_calc_params plain_bus example_clkgen 10000000 427000000) ()) = Some (1, 60, 1)
   \<and> legal (10000, 300000, 600000, 1200000) 10000 64 1
   \<and> (10000 * 64 div 1 div 2 :: u32) = 320000 \<and> f_of 10000 427000 60 1 = 600000
   \<and> \<bar>320000 - 427000\<bar> < \<bar>600000 - (427000 :: int)\<bar>"
proof -
  have r: "fst (run_state (freq_ranges plain_bus example_clkgen) ()) = (10000, 300000, 600000, 1200000)"
    by (simp add: freq_ranges_def plain_bus_def example_clkgen_def AXI_PCORE_VER_MAJOR_def)
  have range: "range_u32 60 64 = [60, 61, 62, 63, 64]" "range_u32 1 1 = [1]"
    by (simp_all add: range_u32_def upt_rec)
  have "calc_search (10000, 300000, 600000, 1200000) 10000000 427000000 = Some (setting 10000 427000 60 1)"
    by (simp add: calc_search_def DIV_ROUND_UP_def DIV_ROUND_CLOSEST_def max_u32_def min_u32_def clamp_u32_def range Let_def
        setting_def f_of_def dout_of_def)
  then show ?thesis
    by (simp add: axi_clkgen_calc_params_def split_beta r setting_def dout_of_def f_of_def legal_def clamp_u32_def
        max_u32_def min_u32_def)
qed

section \<open>The registers hold the dividers\<close>

text \<open>The first counter register of a divider, as axi_clkgen_set_rate writes it.\<close>

definition counter_reg :: "u32 \<Rightarrow> u32" where
  "counter_reg divider = (case axi_clkgen_calc_clk_params divider of (low, high, _) \<Rightarrow> push_bit 6 high OR low)"

lemma reg_divider_fields:
  fixes hi lo :: u32
  assumes "hi < 64" "lo < 64"
  shows "reg_divider (push_bit 6 hi OR lo) = lo + hi"
proof -
  have m: "(0x3f :: u32) = mask 6" by (simp add: mask_eq_exp_minus_1)
  have t: "take_bit 6 lo = lo" "take_bit 6 hi = hi"
    using assms by (simp_all add: take_bit_eq_mod mod_word_less)
  have d: "drop_bit 6 lo = 0" using t(1) by (metis drop_bit_take_bit diff_self_eq_0 take_bit_0)
  have p: "drop_bit 6 (push_bit 6 hi) = hi"
  proof (rule bit_word_eqI)
    fix n assume "n < LENGTH(32)"
    moreover have "bit hi n \<Longrightarrow> n < 6" using t(2) by (metis bit_take_bit_iff)
    ultimately show "bit (drop_bit 6 (push_bit 6 hi)) n = bit hi n"
      by (auto simp: bit_simps)
  qed
  show ?thesis
    unfolding reg_divider_def m
    by (simp add: take_bit_eq_mask [symmetric] drop_bit_or take_bit_or take_bit_push_bit p d t)
qed

lemma reg_divider_counter:
  assumes "divider < 127"
  shows "reg_divider (counter_reg divider) = divider"
proof -
  have d: "unat divider < 127" using assms by (simp add: word_less_nat_alt)
  have hi: "unat (divider div 2) = unat divider div 2" by (simp add: unat_div)
  have lo: "unat (divider - divider div 2) = unat divider - unat divider div 2"
    by (subst unat_sub) (simp_all add: word_le_nat_alt hi)
  have "divider div 2 < 64" "divider - divider div 2 < 64"
    using d hi lo by (simp_all add: word_less_nat_alt)
  from reg_divider_fields [OF this] show ?thesis
    by (simp add: counter_reg_def axi_clkgen_calc_clk_params_def Let_def)
qed

text \<open>What a masked write keeps of the old register does not reach the fields.\<close>

lemma reg_divider_masked: "reg_divider ((old AND NOT 0xefff) OR (x AND 0xefff)) = reg_divider x"
  by (simp add: reg_divider_def bit.conj_disj_distrib2 and.assoc drop_bit_or drop_bit_and)

lemma reg_divider_masked_div: "reg_divider ((old AND NOT 0x3fff) OR (x AND 0x3fff)) = reg_divider x"
  by (simp add: reg_divider_def bit.conj_disj_distrib2 and.assoc drop_bit_or drop_bit_and)

section \<open>Setting a rate and reading it back\<close>

text \<open>
  What the driver relies on of the DRP port at \<open>b\<close>, with \<open>mmcm s\<close> the registers of the MMCM
  in the state \<open>s\<close>: the port is ready whenever it is polled, a read command makes the register
  appear in the low half of the status, a write command stores the low half of the command,
  and nothing else changes the registers.
\<close>

definition drp_port :: "'s axi_bus \<Rightarrow> u32 \<Rightarrow> ('s \<Rightarrow> u32 \<Rightarrow> u32) \<Rightarrow> bool" where
  "drp_port bus b mmcm \<longleftrightarrow>
     (\<forall>s. fst (Xil_In32 bus (b + AXI_CLKGEN_REG_DRP_STATUS) s) AND AXI_CLKGEN_DRP_STATUS_BUSY = 0)
   \<and> (\<forall>s a. mmcm (snd (Xil_In32 bus a s)) = mmcm s)
   \<and> (\<forall>s v. mmcm (Xil_Out32 bus (b + AXI_CLKGEN_REG_RESETN) v s) = mmcm s)
   \<and> (\<forall>s reg. reg < 128 \<longrightarrow>
        (let s' = Xil_Out32 bus (b + AXI_CLKGEN_REG_DRP_CNTRL)
                    (AXI_CLKGEN_DRP_CNTRL_SEL OR AXI_CLKGEN_DRP_CNTRL_READ OR push_bit 16 reg) s in
         mmcm s' = mmcm s
         \<and> fst (Xil_In32 bus (b + AXI_CLKGEN_REG_DRP_STATUS) s') AND 0xffff = mmcm s reg))
   \<and> (\<forall>s reg v. reg < 128 \<and> v \<le> 0xffff \<longrightarrow>
        mmcm (Xil_Out32 bus (b + AXI_CLKGEN_REG_DRP_CNTRL)
               (AXI_CLKGEN_DRP_CNTRL_SEL OR push_bit 16 reg OR v) s) = (mmcm s)(reg := v))"

lemma drp_wait_ready:
  assumes "drp_port bus (base c) mmcm"
  shows "drp_wait bus c t s = ((fst (Xil_In32 bus (base c + AXI_CLKGEN_REG_DRP_STATUS) s), t),
    snd (Xil_In32 bus (base c + AXI_CLKGEN_REG_DRP_STATUS) s))"
  using assms by (subst drp_wait.simps) (simp add: drp_port_def)

lemma mmcm_read_run:
  assumes "drp_port bus (base c) mmcm" "reg < 128"
  shows "fst (run_state (axi_clkgen_mmcm_read bus c reg junk) s) = mmcm s reg"
    "mmcm (snd (run_state (axi_clkgen_mmcm_read bus c reg junk) s)) = mmcm s"
  using assms
  by (simp_all add: axi_clkgen_mmcm_read_def drp_wait_ready [OF assms(1)])
    (simp_all add: drp_port_def Let_def)

lemma and_le_u32: "(x :: u32) \<le> m \<Longrightarrow> x AND y \<le> m"
  by (meson order_trans word_and_le1 word_and_le2)

lemma mmcm_reg_le:
  assumes "drp_port bus b mmcm" "reg < 128"
  shows "mmcm s reg \<le> 0xffff"
proof -
  have "mmcm s reg = fst (Xil_In32 bus (b + AXI_CLKGEN_REG_DRP_STATUS)
      (Xil_Out32 bus (b + AXI_CLKGEN_REG_DRP_CNTRL)
        (AXI_CLKGEN_DRP_CNTRL_SEL OR AXI_CLKGEN_DRP_CNTRL_READ OR push_bit 16 reg) s)) AND 0xffff"
    using assms by (simp add: drp_port_def Let_def)
  then show ?thesis by (simp add: word_and_le1)
qed

text \<open>A masked write replaces the bits of the mask and keeps the others.\<close>

definition masked :: "u32 \<Rightarrow> u32 \<Rightarrow> u32 \<Rightarrow> u32" where
  "masked old x msk = (old AND NOT msk) OR (x AND msk)"

lemma or_le_ffff: "(x :: u32) \<le> 0xffff \<Longrightarrow> y \<le> 0xffff \<Longrightarrow> x OR y \<le> 0xffff"
proof -
  have m: "z \<le> 0xffff \<longleftrightarrow> take_bit 16 z = z" for z :: u32
  proof
    assume "z \<le> 0xffff"
    then have "z < 2 ^ 16" by (simp add: word_le_nat_alt word_less_nat_alt)
    then show "take_bit 16 z = z" by (simp add: take_bit_eq_mod mod_word_less)
  next
    assume "take_bit 16 z = z"
    then have "z AND 0xffff = z" by (simp add: take_bit_eq_mask mask_eq_exp_minus_1)
    then show "z \<le> 0xffff" by (metis word_and_le1)
  qed
  show "x \<le> 0xffff \<Longrightarrow> y \<le> 0xffff \<Longrightarrow> x OR y \<le> 0xffff" by (simp add: m take_bit_or)
qed

lemma mmcm_write_run:
  assumes port: "drp_port bus (base c) mmcm" and reg: "reg < 128" and msk: "msk < 0xffff"
  shows "mmcm (snd (run_state (axi_clkgen_mmcm_write bus c reg x msk) s)) =
    (mmcm s)(reg := masked (mmcm s reg) x msk)"
proof -
  let ?s = "snd (Xil_In32 bus (base c + AXI_CLKGEN_REG_DRP_STATUS) s)"
  let ?r = "axi_clkgen_mmcm_read bus c reg (fst (Xil_In32 bus (base c + AXI_CLKGEN_REG_DRP_STATUS) s))"
  have s: "mmcm ?s = mmcm s" using port by (simp add: drp_port_def)
  note rd = mmcm_read_run [OF port reg, of _ ?s, unfolded s]
  have "masked (mmcm s reg) x msk \<le> 0xffff"
    using mmcm_reg_le [OF port reg] msk unfolding masked_def
    by (intro or_le_ffff) (simp_all add: and.commute [of x] and_le_u32 less_imp_le)
  then have "mmcm (Xil_Out32 bus (base c + AXI_CLKGEN_REG_DRP_CNTRL)
      (AXI_CLKGEN_DRP_CNTRL_SEL OR push_bit 16 reg OR masked (mmcm s reg) x msk) (snd (run_state ?r ?s)))
    = (mmcm s)(reg := masked (mmcm s reg) x msk)"
    using port reg rd(2) unfolding drp_port_def by simp
  moreover have "AXI_CLKGEN_DRP_CNTRL_SEL OR push_bit 16 reg OR masked (mmcm s reg) x msk =
      (mmcm s reg AND NOT msk) OR (AXI_CLKGEN_DRP_CNTRL_SEL OR push_bit 16 reg OR (x AND msk))"
    unfolding masked_def by (simp only: ac_simps)
  moreover have "msk \<noteq> 0xffff" using msk by auto
  ultimately show ?thesis
    by (simp add: axi_clkgen_mmcm_write_def drp_wait_ready [OF port] split_beta rd(1) [simplified])
qed

lemma mmcm_enable_run:
  "drp_port bus (base c) mmcm
     \<Longrightarrow> mmcm (snd (run_state (axi_clkgen_mmcm_enable bus c e) s)) = mmcm s"
  by (simp add: axi_clkgen_mmcm_enable_def drp_port_def)

lemma write_clk_regs_run:
  assumes "drp_port bus (base c) mmcm" "r1 < 128" "r2 < 128"
  shows "\<exists>v. mmcm (snd (run_state (write_clk_regs bus c r1 r2 n) s)) =
    (mmcm s)(r1 := masked (mmcm s r1) (counter_reg n) 0xefff, r2 := v)"
  using assms by (auto simp: write_clk_regs_def counter_reg_def mmcm_write_run [OF assms(1)] split_beta)

definition div_reg :: "u32 \<Rightarrow> u32" where
  "div_reg d = (case axi_clkgen_calc_clk_params d of (low, high, edge, nocount) \<Rightarrow>
     push_bit 13 edge OR push_bit 12 nocount OR push_bit 6 high OR low)"

lemma reg_divider_div_reg: "reg_divider (div_reg d) = reg_divider (counter_reg d)"
proof -
  have z: "take_bit 6 (push_bit (k + 12) x) = 0" "take_bit 6 (drop_bit 6 (push_bit (k + 12) x)) = 0"
    for k and x :: u32
    by (rule bit_eqI; simp add: bit_simps)+
  have m: "(0x3f :: u32) = mask 6" by (simp add: mask_eq_exp_minus_1)
  show ?thesis
    using z [of 1] z [of 0]
    by (simp add: reg_divider_def div_reg_def counter_reg_def m take_bit_eq_mask [symmetric]
        drop_bit_or take_bit_or split_beta)
qed

text \<open>After the programming the three registers get_rate reads hold the three dividers.\<close>

lemma program_mmcm_regs:
  fixes s :: 's and d m dout :: u32
  assumes port: "drp_port bus (base c) mmcm"
  defines "s' \<equiv> snd (run_state (program_mmcm bus c d m dout) s)"
  shows "mmcm s' 0x08 = masked (mmcm s 0x08) (counter_reg dout) 0xefff"
    "mmcm s' 0x14 = masked (mmcm s 0x14) (counter_reg m) 0xefff"
    "mmcm s' 0x16 = masked (mmcm s 0x16) (div_reg d) 0x3fff"
proof -
  define s1 where "s1 = snd (run_state (axi_clkgen_mmcm_enable bus c False) s)"
  define s2 where "s2 = snd (run_state (write_clk_regs bus c 8 9 dout) s1)"
  define s3 where "s3 = snd (run_state (write_clk_regs bus c 0xA 0xB (dout * 4)) s2)"
  define s4 where "s4 = snd (run_state (axi_clkgen_mmcm_write bus c 0x16 (div_reg d) 0x3fff) s3)"
  define s5 where "s5 = snd (run_state (write_clk_regs bus c 0x14 0x15 m) s4)"
  have s1: "mmcm s1 = mmcm s" unfolding s1_def by (rule mmcm_enable_run [OF port])
  obtain v2 where s2: "mmcm s2 = (mmcm s1)(8 := masked (mmcm s1 8) (counter_reg dout) 0xefff, 9 := v2)"
    using write_clk_regs_run [OF port, of 8 9] unfolding s2_def by auto
  obtain v3 where s3: "mmcm s3 = (mmcm s2)(0xA := masked (mmcm s2 0xA) (counter_reg (dout * 4)) 0xefff, 0xB := v3)"
    using write_clk_regs_run [OF port, of "0xA" "0xB"] unfolding s3_def by auto
  have s4: "mmcm s4 = (mmcm s3)(0x16 := masked (mmcm s3 0x16) (div_reg d) 0x3fff)"
    unfolding s4_def by (rule mmcm_write_run [OF port]) simp_all
  obtain v5 where s5: "mmcm s5 = (mmcm s4)(0x14 := masked (mmcm s4 0x14) (counter_reg m) 0xefff, 0x15 := v5)"
    using write_clk_regs_run [OF port, of "0x14" "0x15"] unfolding s5_def by auto
  have "mmcm s' r = mmcm s5 r" if "r \<in> {0x08, 0x14, 0x16}" for r
    using that unfolding s'_def s5_def s4_def s3_def s2_def s1_def
    by (auto simp: program_mmcm_def Let_def split_beta div_reg_def mmcm_write_run [OF port] mmcm_enable_run [OF port])
  then show "mmcm s' 0x08 = masked (mmcm s 0x08) (counter_reg dout) 0xefff"
    "mmcm s' 0x14 = masked (mmcm s 0x14) (counter_reg m) 0xefff"
    "mmcm s' 0x16 = masked (mmcm s 0x16) (div_reg d) 0x3fff"
    by (simp_all add: s1 s2 s3 s4 s5)
qed

lemma program_mmcm_dividers:
  fixes s :: 's
  assumes port: "drp_port bus (base c) mmcm" and "dout < 127" "d < 127" "m < 127"
  defines "r \<equiv> mmcm (snd (run_state (program_mmcm bus c d m dout) s))"
  shows "reg_divider (r 0x08) = dout" "reg_divider (r 0x14) = m" "reg_divider (r 0x16) = d"
  using assms(2-4) unfolding r_def program_mmcm_regs [OF port] masked_def
    reg_divider_masked reg_divider_masked_div reg_divider_div_reg
  by (simp_all add: reg_divider_counter)

lemma freq_ranges_keeps:
  "drp_port bus (base c) mmcm \<Longrightarrow> mmcm (snd (run_state (freq_ranges bus c) s)) = mmcm s"
  by (simp add: freq_ranges_def axi_clkgen_setup_ranges_def drp_port_def split_beta Let_def)

text \<open>get_rate on registers that hold three dividers.\<close>

lemma get_rate_run:
  assumes port: "drp_port bus (base c) mmcm"
    and dividers: "reg_divider (mmcm s 0x08) = dout" "reg_divider (mmcm s 0x16) = d"
      "reg_divider (mmcm s 0x14) = m"
  shows "fst (run_state (axi_clkgen_get_rate bus c junk) s) =
    (SUCCESS, if d = 0 \<or> dout = 0 then 0
       else ucast ((ucast (parent_rate c div d) :: u64) * ucast m div ucast dout))"
  using dividers by (simp add: axi_clkgen_get_rate_def mmcm_read_run [OF port] Let_def split_beta)

lemma take_bit_64_u32: "take_bit 64 (unat (x :: u32)) = unat x"
  using less_trans [OF unat_u32_less [of x], of "2 ^ 64"] by (simp add: take_bit_nat_eq_self)

lemma ucast_rate:
  fixes p m dout :: u32
  assumes "unat p * unat m div unat dout < 4294967296"
  shows "unat (ucast ((ucast p :: u64) * ucast m div ucast dout) :: u32) = unat p * unat m div unat dout"
proof -
  have "unat p * unat m < 4294967296 * 4294967296" by (rule mult_strict_mono) simp_all
  then have "unat ((ucast p :: u64) * ucast m) = unat p * unat m"
    by (simp add: unat_word_ariths(2) unsigned_ucast_eq take_bit_64_u32)
  then have "unat ((ucast p :: u64) * ucast m div ucast dout) = unat p * unat m div unat dout"
    by (simp add: unat_div unsigned_ucast_eq take_bit_64_u32)
  then show ?thesis using assms by (simp add: unsigned_ucast_eq take_bit_nat_eq_self)
qed

lemma freq_ranges_fvco: "(a, b, lo, hi) = fst (run_state (freq_ranges bus c) s) \<Longrightarrow> unat hi \<le> 1600000"
  by (auto simp: freq_ranges_def axi_clkgen_setup_ranges_def split_beta Let_def split: if_splits)

text \<open>The rate of a legal setting fits 32 bits.\<close>

lemma legal_rate_fits:
  assumes leg: "legal ranges (P div 1000) m d" and r: "ranges = fst (run_state (freq_ranges bus c) s)"
  shows "unat (P div d) * unat m div unat dout < 4294967296"
proof -
  obtain a b lo hi where abc: "ranges = (a, b, lo, hi)" by (cases ranges) auto
  have hi: "unat hi \<le> 1600000" using freq_ranges_fvco r abc by metis
  have d: "1 \<le> unat d" and m: "unat m \<le> 64"
    and le: "unat P div 1000 * unat m \<le> unat hi * unat d"
    using leg by (simp_all add: legal_def abc unat_div)
  have "unat P \<le> 1000 * (unat P div 1000) + 999" by simp
  then have "unat P * unat m \<le> (1000 * (unat P div 1000) + 999) * unat m" by (rule mult_right_mono) simp
  also have "\<dots> = 1000 * (unat P div 1000 * unat m) + 999 * unat m" by (simp add: algebra_simps)
  also have "\<dots> \<le> 1000 * (1600000 * unat d) + 63936 * unat d"
    using le m d mult_right_mono [OF hi, of "unat d"] by (intro add_mono) linarith+
  finally have "unat P * unat m \<le> 1600063936 * unat d" by simp
  then have "unat P * unat m div unat d \<le> 1600063936 * unat d div unat d" by (rule div_le_mono)
  then have "unat P * unat m div unat d \<le> 1600063936" using d by simp
  moreover have "unat P div unat d * unat m \<le> unat P * unat m div unat d"
  proof -
    have "unat P div unat d * unat d * unat m \<le> unat P * unat m" by (intro mult_le_mono) simp_all
    then show ?thesis using d by (simp add: less_eq_div_iff_mult_less_eq algebra_simps)
  qed
  moreover have "unat P div unat d * unat m div unat dout \<le> unat P div unat d * unat m" by simp
  ultimately show ?thesis unfolding unat_div by linarith
qed

text \<open>
  C31. A rate that was set can be read back, when the search finds a setting (otherwise
  axi_clkgen_set_rate returns SUCCESS and programs nothing) with an output divider below 127
  (127 and 128 do not fit the six bit counter fields, \<open>axi_clkgen_divider_overflow\<close>), on a
  core whose DRP port always answers and whose MMCM registers do not change in the wait for the
  lock: after a successful axi_clkgen_set_rate, axi_clkgen_get_rate returns exactly the rate of
  the setting, parent / d * m / dout, in 32 bits.
\<close>

theorem axi_clkgen_set_then_get:
  assumes port: "drp_port bus (base clkgen) mmcm" and wait: "\<forall>s. mmcm (mdelay10 s) = mmcm s"
    and rates: "1000 \<le> parent_rate clkgen" "1000 \<le> rate"
    and params: "fst (run_state (axi_clkgen_calc_params bus clkgen (parent_rate clkgen) rate) s)
      = Some (d, m, dout)"
    and found: "d \<noteq> 0" "dout < 127"
    and set: "run_state (axi_clkgen_set_rate bus mdelay10 clkgen rate) s = (Some SUCCESS, s')"
  shows "\<exists>r. fst (run_state (axi_clkgen_get_rate bus clkgen junk) s') = (SUCCESS, r)
    \<and> unat r = unat (parent_rate clkgen) div unat d * unat m div unat dout"
proof -
  let ?P = "parent_rate clkgen"
  define ranges where "ranges = fst (run_state (freq_ranges bus clkgen) s)"
  define fi fo where "fi = ?P div 1000" and "fo = rate div 1000"
  have good: "good_ranges ranges" by (simp add: ranges_def freq_ranges_good)
  obtain b where b: "calc_search ranges ?P rate = Some b" "best_d b = d" "best_m b = m" "best_dout b = dout"
    using params by (auto simp: axi_clkgen_calc_params_def split_beta ranges_def)
  then have leg: "legal ranges fi m d" and st: "b = setting fi fo m d"
    using calc_search_best [OF good rates] found(1) by (auto simp: fi_def fo_def)
  have "dout = dout_of fi fo m d" unfolding b(4) [symmetric] by (subst st) (simp add: setting_def)
  then have dout: "dout \<noteq> 0" using dout_of_bounds(1) [of fi fo m d] by auto
  have dm: "m \<noteq> 0" "d < 127" "m < 127"
    using leg by (auto simp: legal_def word_less_nat_alt split: prod.splits)
  let ?s1 = "snd (run_state (freq_ranges bus clkgen) s)"
  let ?s2 = "snd (run_state (program_mmcm bus clkgen d m dout) ?s1)"
  have nz: "?P \<noteq> 0" "rate \<noteq> 0" using rates by auto
  have calc: "run_state (axi_clkgen_calc_params bus clkgen ?P rate) s = (Some (d, m, dout), ?s1)"
    using params by (simp add: axi_clkgen_calc_params_def split_beta)
  have "s' = snd (Xil_In32 bus (base clkgen + AXI_CLKGEN_REG_STATUS) (mdelay10 ?s2))"
    using set nz found(1) dout dm(1)
    by (simp add: axi_clkgen_set_rate_def calc State_Monad.update_def split_beta)
  then have "mmcm s' = mmcm ?s2" using port wait by (simp add: drp_port_def)
  with program_mmcm_dividers [OF port found(2) dm(2,3), of ?s1]
  have "fst (run_state (axi_clkgen_get_rate bus clkgen junk) s') =
      (SUCCESS, ucast ((ucast (?P div d) :: u64) * ucast m div ucast dout))"
    using get_rate_run [OF port, of s'] found(1) dout by auto
  moreover have "unat (?P div d) * unat m div unat dout < 4294967296"
    by (rule legal_rate_fits [OF leg [unfolded fi_def] ranges_def])
  ultimately show ?thesis by (simp add: ucast_rate unat_div)
qed

text \<open>A core for concrete runs: a register file behind the DRP port, always locked.\<close>

record drp_sim =
  mregs :: "u32 \<Rightarrow> u32"
  latch :: u32

definition drp_sim_bus :: "drp_sim axi_bus" where
  "drp_sim_bus = \<lparr>
     Xil_In32 = (\<lambda>a s. (if a = AXI_CLKGEN_REG_DRP_STATUS then latch s AND 0xffff
                       else if a = AXI_CLKGEN_REG_STATUS then 1 else 0, s)),
     Xil_Out32 = (\<lambda>a v s. if a = AXI_CLKGEN_REG_DRP_CNTRL then
         (let reg = take_bit 7 (drop_bit 16 v) in
          if bit v 28 then s\<lparr>latch := mregs s reg\<rparr>
          else s\<lparr>mregs := (mregs s)(reg := take_bit 16 v)\<rparr>)
       else s)\<rparr>"

lemma drp_command:
  assumes "reg < (128 :: u32)" "x \<le> 0xffff"
  shows "take_bit 7 (drop_bit 16 (0x20000000 OR push_bit 16 reg OR x)) = reg"
    "take_bit 16 (0x20000000 OR push_bit 16 reg OR x) = x"
    "\<not> bit (0x20000000 OR push_bit 16 reg OR x) 28"
    "take_bit 7 (drop_bit 16 (0x20000000 OR 0x10000000 OR push_bit 16 reg)) = reg"
    "bit (0x20000000 OR 0x10000000 OR push_bit 16 reg) 28"
proof -
  have r: "take_bit 7 reg = reg" using assms(1) by (simp add: take_bit_eq_mod mod_word_less)
  have "x < 2 ^ 16" using assms(2) by (simp add: word_le_nat_alt word_less_nat_alt)
  then have x: "take_bit 16 x = x" by (simp add: take_bit_eq_mod mod_word_less)
  then have x0: "drop_bit 16 x = 0" by (metis drop_bit_take_bit diff_self_eq_0 take_bit_0)
  have p: "take_bit 7 (drop_bit 16 (push_bit 16 reg)) = reg"
  proof (rule bit_word_eqI)
    fix n assume "n < LENGTH(32)"
    moreover have "bit reg n \<Longrightarrow> n < 7" using r by (metis bit_take_bit_iff)
    ultimately show "bit (take_bit 7 (drop_bit 16 (push_bit 16 reg))) n = bit reg n"
      by (auto simp: bit_simps)
  qed
  have "\<not> bit (take_bit 7 reg) 12" "\<not> bit (take_bit 16 x) 28" by (simp_all add: bit_take_bit_iff)
  then have b: "\<not> bit reg 12" "\<not> bit x 28" by (simp_all add: r x)
  show "take_bit 7 (drop_bit 16 (0x20000000 OR push_bit 16 reg OR x)) = reg"
    "take_bit 16 (0x20000000 OR push_bit 16 reg OR x) = x"
    "take_bit 7 (drop_bit 16 (0x20000000 OR 0x10000000 OR push_bit 16 reg)) = reg"
    using p x x0 by (simp_all add: drop_bit_or take_bit_or take_bit_push_bit)
  show "\<not> bit (0x20000000 OR push_bit 16 reg OR x) 28"
    "bit (0x20000000 OR 0x10000000 OR push_bit 16 reg) 28"
    using b by (simp_all add: bit_or_iff bit_push_bit_iff)
qed

lemma drp_sim_commands:
  assumes "reg < 128"
  shows "Xil_Out32 drp_sim_bus 0x70 (0x20000000 OR 0x10000000 OR push_bit 16 reg) s = s\<lparr>latch := mregs s reg\<rparr>"
    "x \<le> 0xffff \<Longrightarrow> Xil_Out32 drp_sim_bus 0x70 (0x20000000 OR push_bit 16 reg OR x) s =
       s\<lparr>mregs := (mregs s)(reg := x)\<rparr>"
  unfolding drp_sim_bus_def
  by (simp_all only: axi_bus.simps AXI_CLKGEN_REG_DRP_CNTRL_def drp_command [OF assms order_refl]
      drp_command [OF assms] Let_def if_True if_False refl)

lemma drp_sim_access:
  "Xil_In32 drp_sim_bus a s = (if a = 0x74 then latch s AND 0xffff else if a = 0x5c then 1 else 0, s)"
  "a \<noteq> 0x70 \<Longrightarrow> Xil_Out32 drp_sim_bus a v s = s"
  by (simp_all add: drp_sim_bus_def)

lemma drp_sim_port: "drp_port drp_sim_bus 0 (\<lambda>s reg. mregs s reg AND 0xffff)"
proof -
  have "x AND 0xffff = x" if "x \<le> 0xffff" for x :: u32
  proof -
    have "x < 2 ^ 16" using that by (simp add: word_le_nat_alt word_less_nat_alt)
    then have "take_bit 16 x = x" by (simp add: take_bit_eq_mod mod_word_less)
    then show ?thesis by (simp add: take_bit_eq_mask mask_eq_exp_minus_1)
  qed
  then show ?thesis
    unfolding drp_port_def
    by (simp add: drp_sim_access drp_sim_commands [simplified] drp_sim_commands and.assoc fun_eq_iff
        del: fun_upd_apply) simp
qed

lemma example_search: "calc_search (10000, 300000, 600000, 1200000) 100000000 100000000 =
    Some \<lparr>best_f = 100000, best_d = 1, best_m = 6, best_dout = 6\<rparr>"
proof -
  have "range_u32 6 64 = 6 # range_u32 7 64" "range_u32 1 1 = [1 :: u32]"
    by (simp_all add: range_u32_def upt_rec)
  then show ?thesis
    by (simp add: calc_search_def Let_def DIV_ROUND_UP_def DIV_ROUND_CLOSEST_def min_u32_def
        max_u32_def clamp_u32_def)
qed

lemma example_params:
  "fst (run_state (axi_clkgen_calc_params drp_sim_bus example_clkgen 100000000 100000000) s) = Some (1, 6, 6)"
  by (simp add: axi_clkgen_calc_params_def freq_ranges_def drp_sim_bus_def example_clkgen_def
      AXI_PCORE_VER_MAJOR_def example_search)

lemma example_set:
  fixes s :: drp_sim
  shows "\<exists>s'. run_state (axi_clkgen_set_rate drp_sim_bus (\<lambda>s. s) example_clkgen 100000000) s
    = (Some SUCCESS, s')"
  using example_params [of s]
  by (auto simp: axi_clkgen_set_rate_def split_beta State_Monad.update_def example_clkgen_def
      drp_sim_bus_def)

theorem axi_clkgen_set_then_get_witness:
  "\<exists>s' r. run_state (axi_clkgen_set_rate drp_sim_bus (\<lambda>s. s) example_clkgen 100000000)
       \<lparr>mregs = (\<lambda>_. 0xffff), latch = 0\<rparr> = (Some SUCCESS, s')
     \<and> fst (run_state (axi_clkgen_get_rate drp_sim_bus example_clkgen 0) s') = (SUCCESS, r)
     \<and> unat r = 100000000"
proof -
  obtain s' where set: "run_state (axi_clkgen_set_rate drp_sim_bus (\<lambda>s. s) example_clkgen 100000000)
       \<lparr>mregs = (\<lambda>_. 0xffff), latch = 0\<rparr> = (Some SUCCESS, s')"
    using example_set by blast
  have port: "drp_port drp_sim_bus (base example_clkgen) (\<lambda>s reg. mregs s reg AND 0xffff)"
    using drp_sim_port by (simp add: example_clkgen_def)
  have "\<exists>r. fst (run_state (axi_clkgen_get_rate drp_sim_bus example_clkgen 0) s') = (SUCCESS, r)
    \<and> unat r = unat (parent_rate example_clkgen) div unat (1 :: u32) * unat (6 :: u32) div unat (6 :: u32)"
    by (rule axi_clkgen_set_then_get [OF port _ _ _ _ _ _ set])
      (use example_params in \<open>simp_all add: example_clkgen_def\<close>)
  then show ?thesis using set by (auto simp: example_clkgen_def)
qed

section \<open>Limits of the driver\<close>

text \<open>
  The output dividers 127 and 128, which the search may choose, do not fit the six bit
  counter fields: the registers written for them decode to 63 and 1, so the MMCM runs at a
  rate other than the one searched for, and axi_clkgen_get_rate reports that other rate.
\<close>

theorem axi_clkgen_divider_overflow:
  "axi_clkgen_calc_clk_params 127 = (64, 63, 1, 0)
   \<and> reg_divider ((push_bit 6 63 OR 64) AND 0xefff) = 63
   \<and> axi_clkgen_calc_clk_params 128 = (64, 64, 0, 0)
   \<and> reg_divider ((push_bit 6 64 OR 64) AND 0xefff) = 1
   \<and> clamp_u32 127 1 128 = 127 \<and> clamp_u32 128 1 128 = 128"
  by (simp add: axi_clkgen_calc_clk_params_def reg_divider_def clamp_u32_def min_u32_def
      max_u32_def Let_def)

text \<open>
  axi_clkgen_get_rate means to report 0xffffffff for a rate above 32 bits, but the next
  statement overwrites it: the rate reported is the low 32 bits of the true one.
\<close>

theorem axi_clkgen_get_rate_truncates:
  assumes "drp_port bus (base clkgen) mmcm" "parent_rate clkgen = 0xc0000000"
    and "reg_divider (mmcm s MMCM_REG_CLKOUT0_1) = 1" "reg_divider (mmcm s MMCM_REG_CLK_DIV) = 1"
      "reg_divider (mmcm s MMCM_REG_CLK_FB1) = 2"
  shows "fst (run_state (axi_clkgen_get_rate bus clkgen junk) s) = (SUCCESS, 0x80000000)"
  using get_rate_run [OF assms(1), of s 1 1 2] assms(2-5) by simp

theorem axi_clkgen_get_rate_truncates_witness:
  "fst (run_state (axi_clkgen_get_rate drp_sim_bus \<lparr>name = ''clk'', base = 0, parent_rate = 0xc0000000\<rparr> 0)
     \<lparr>mregs = (\<lambda>r. if r = 0x14 then 2 else 1), latch = 0\<rparr>) = (SUCCESS, 0x80000000)"
  by (rule axi_clkgen_get_rate_truncates [where mmcm = "\<lambda>s reg. mregs s reg AND 0xffff"])
    (simp_all add: drp_sim_port reg_divider_def)

text \<open>
  A parent rate or a target below 1 kHz is not refused: in the arithmetic in kHz it is
  zero, and for such a parent the search divides by zero.
\<close>

theorem axi_clkgen_set_rate_div_by_zero:
  assumes "0 < parent_rate clkgen" "parent_rate clkgen < 1000" "rate \<noteq> 0"
  shows "fst (run_state (axi_clkgen_set_rate bus mdelay10 clkgen rate) s) = None"
proof -
  have "parent_rate clkgen div 1000 = 0" using assms(2) by (simp add: div_word_less)
  moreover have "good_ranges (fst (run_state (freq_ranges bus clkgen) s))" by (rule freq_ranges_good)
  ultimately have "calc_search (fst (run_state (freq_ranges bus clkgen) s)) (parent_rate clkgen) rate = None"
    by (auto simp: calc_search_def DIV_ROUND_UP_def Let_def good_ranges_def split: prod.splits option.splits)
  then show ?thesis
    using assms(1,3) by (simp add: axi_clkgen_set_rate_def axi_clkgen_calc_params_def split_beta)
qed

theorem axi_clkgen_set_rate_div_by_zero_witness:
  "fst (run_state (axi_clkgen_set_rate plain_bus (\<lambda>s. s) \<lparr>name = ''clk'', base = 0, parent_rate = 999\<rparr> 500) ()) = None"
  by (rule axi_clkgen_set_rate_div_by_zero) simp_all

end
