(* ===== verification/Spi_Queue.thy ===== *)
theory Spi_Queue
  imports Queue_Interface
begin

text \<open>
  The queue of commands of the SPI engine driver, drivers/axi_core/spi_engine/spi_engine.c: a
  singly linked list of malloc'd cells, with commands added at either end before a transfer and
  taken from the front during it. It is an interpretation (\<open>sq\<close>) of the contract of a queue.
\<close>

section \<open>Data and operations\<close>

record spi_engine_cmd_queue =
  q_cmd :: u32
  q_next :: "nat option"

type_synonym cmd_heap = "spi_engine_cmd_queue heap"

text \<open>The result code, the pointer behind the argument \<open>fifo\<close>, and the heap.\<close>

definition spi_engine_queue_new_cmd :: "nat option \<Rightarrow> u32 \<Rightarrow> cmd_heap \<Rightarrow> int \<times> nat option \<times> cmd_heap" where
  "spi_engine_queue_new_cmd fifo c h =
     (case calloc \<lparr>q_cmd = c, q_next = None\<rparr> h of
        (None, h) \<Rightarrow> (FAILURE, fifo, h)
      | (Some a, h) \<Rightarrow> (SUCCESS, Some a, h))"

text \<open>The loop of spi_engine_queue_add_cmd that looks for the last element.\<close>

partial_function (option) last_cmd :: "nat \<Rightarrow> cmd_heap \<Rightarrow> nat option" where
  "last_cmd a h = do {
     e \<leftarrow> cells h a;
     (case q_next e of None \<Rightarrow> Some a | Some b \<Rightarrow> last_cmd b h)}"

text \<open>When there is no memory the command is dropped; an empty queue is a NULL dereference.\<close>

definition spi_engine_queue_add_cmd :: "nat option \<Rightarrow> u32 \<Rightarrow> cmd_heap \<Rightarrow> cmd_heap option" where
  "spi_engine_queue_add_cmd fifo c h = do {
     a \<leftarrow> fifo;
     l \<leftarrow> last_cmd a h;
     let (_, to_add, h) = spi_engine_queue_new_cmd None c h;
     e \<leftarrow> cells h l;
     Some (h\<lparr>cells := (cells h)(l \<mapsto> e\<lparr>q_next := to_add\<rparr>)\<rparr>)}"

text \<open>Here the missing memory is dereferenced.\<close>

definition spi_engine_queue_append_cmd :: "nat option \<Rightarrow> u32 \<Rightarrow> cmd_heap \<Rightarrow> (nat option \<times> cmd_heap) option" where
  "spi_engine_queue_append_cmd fifo c h = do {
     let (_, to_add, h) = spi_engine_queue_new_cmd None c h;
     a \<leftarrow> to_add;
     e \<leftarrow> cells h a;
     Some (to_add, h\<lparr>cells := (cells h)(a \<mapsto> e\<lparr>q_next := fifo\<rparr>)\<rparr>)}"

text \<open>
  The command behind the pointer argument is None where the code leaves it as it was. The last
  command leaves a NULL pointer, which is the next pointer of its cell.
\<close>

definition spi_engine_queue_get_cmd ::
  "nat option \<Rightarrow> cmd_heap \<Rightarrow> (int \<times> u32 option \<times> nat option \<times> cmd_heap) option" where
  "spi_engine_queue_get_cmd fifo h =
     (case fifo of
        None \<Rightarrow> Some (FAILURE, None, None, h)
      | Some a \<Rightarrow> do {
          e \<leftarrow> cells h a;
          h \<leftarrow> cfree a h;
          Some (SUCCESS, Some (q_cmd e), q_next e, h)})"

text \<open>The tail is freed first, and the pointer to it set to NULL in the cell before it.\<close>

partial_function (option) queue_free_loop :: "nat option \<Rightarrow> cmd_heap \<Rightarrow> (nat option \<times> cmd_heap) option" where
  "queue_free_loop fifo h =
     (case fifo of
        None \<Rightarrow> Some (None, h)
      | Some a \<Rightarrow> do {
          e \<leftarrow> cells h a;
          h \<leftarrow> (if q_next e = None then Some h
                else do {
                  (q, h) \<leftarrow> queue_free_loop (q_next e) h;
                  e \<leftarrow> cells h a;
                  Some (h\<lparr>cells := (cells h)(a \<mapsto> e\<lparr>q_next := q\<rparr>)\<rparr>)});
          h \<leftarrow> cfree a h;
          Some (None, h)})"

definition spi_engine_queue_free :: "nat option \<Rightarrow> cmd_heap \<Rightarrow> (int \<times> nat option \<times> cmd_heap) option" where
  "spi_engine_queue_free fifo h = do {
     (q, h) \<leftarrow> queue_free_loop fifo h;
     Some (SUCCESS, q, h)}"

section \<open>The list a queue represents\<close>

text \<open>\<open>qseg m zs p\<close>: from \<open>p\<close> the cells at the addresses of \<open>zs\<close> hold its commands, up to NULL.\<close>

fun qseg :: "(nat \<rightharpoonup> spi_engine_cmd_queue) \<Rightarrow> (nat \<times> u32) list \<Rightarrow> nat option \<Rightarrow> bool" where
  "qseg m [] p = (p = None)"
| "qseg m (z # zs) p = (p = Some (fst z) \<and> (\<exists>q. m (fst z) = Some \<lparr>q_cmd = snd z, q_next = q\<rparr> \<and> qseg m zs q))"

text \<open>The queue is all there is in the heap.\<close>

definition queue_cells :: "nat option \<Rightarrow> cmd_heap \<Rightarrow> (nat \<times> u32) list \<Rightarrow> bool" where
  "queue_cells p h zs \<longleftrightarrow> qseg (cells h) zs p \<and> dom (cells h) = set (map fst zs) \<and> distinct (map fst zs) \<and> heap_wf h"

definition queue_rep :: "nat option \<Rightarrow> cmd_heap \<Rightarrow> u32 list \<Rightarrow> bool" where
  "queue_rep p h cs \<longleftrightarrow> (\<exists>zs. queue_cells p h zs \<and> map snd zs = cs)"

lemma qseg_frame: "qseg m zs p \<Longrightarrow> \<forall>a \<in> set (map fst zs). m' a = m a \<Longrightarrow> qseg m' zs p"
  by (induction zs arbitrary: p) auto

lemma qseg_upd: "a \<notin> set (map fst zs) \<Longrightarrow> qseg (m(a := e)) zs p = qseg m zs p"
  by (induction zs arbitrary: p) auto

lemma qseg_last:
  "qseg (cells h) (zs @ [z]) p \<Longrightarrow> last_cmd (the p) h = Some (fst z)"
proof (induction zs arbitrary: p)
  case Nil
  then show ?case by (subst last_cmd.simps) auto
next
  case (Cons y zs)
  then obtain q where q: "p = Some (fst y)" "cells h (fst y) = Some \<lparr>q_cmd = snd y, q_next = q\<rparr>" "qseg (cells h) (zs @ [z]) q"
    by auto
  then have "q \<noteq> None" by (cases zs) auto
  then show ?case using q Cons.IH [OF q(3)] by (subst last_cmd.simps) auto
qed

text \<open>Linking a new cell behind the last one.\<close>

lemma qseg_snoc:
  assumes "qseg m (zs @ [z]) p" "distinct (map fst (zs @ [z]))" "a \<notin> set (map fst (zs @ [z]))"
  shows "qseg (m(a \<mapsto> \<lparr>q_cmd = c, q_next = None\<rparr>, fst z \<mapsto> \<lparr>q_cmd = snd z, q_next = Some a\<rparr>)) (zs @ [z, (a, c)]) p"
  using assms by (induction zs arbitrary: p) (auto simp: qseg_upd)

lemma queue_nonempty: "queue_cells p h zs \<Longrightarrow> p \<noteq> None \<longleftrightarrow> zs \<noteq> []"
  by (cases zs) (auto simp: queue_cells_def)

section \<open>What each operation does\<close>

lemma new_cmd_ok:
  "\<not> oom h (brk h) \<Longrightarrow> spi_engine_queue_new_cmd p c h =
     (SUCCESS, Some (brk h), h\<lparr>cells := (cells h)(brk h \<mapsto> \<lparr>q_cmd = c, q_next = None\<rparr>), brk := Suc (brk h)\<rparr>)"
  by (simp add: spi_engine_queue_new_cmd_def calloc_def)

lemma add_cmd_rep:
  assumes "queue_rep p h cs" "cs \<noteq> []" "\<not> oom h (brk h)"
  shows "\<exists>h'. spi_engine_queue_add_cmd p c h = Some h' \<and> queue_rep p h' (cs @ [c]) \<and> brk h' = Suc (brk h) \<and> oom h' = oom h"
proof -
  obtain zs z where z: "queue_cells p h (zs @ [z])" "map snd (zs @ [z]) = cs"
    using assms(1,2) by (metis append_butlast_last_id map_is_Nil_conv queue_rep_def)
  have q: "qseg (cells h) (zs @ [z]) p" "dom (cells h) = set (map fst (zs @ [z]))" "distinct (map fst (zs @ [z]))" "heap_wf h"
    using z(1) by (auto simp: queue_cells_def)
  obtain a where a: "p = Some a" using queue_nonempty [OF z(1)] by auto
  have fresh: "brk h \<notin> set (map fst (zs @ [z]))" using heap_wf_fresh [OF q(4)] q(2) by (metis domIff)
  have tail: "cells h (fst z) = Some \<lparr>q_cmd = snd z, q_next = None\<rparr>"
    using q(1) by (induction zs arbitrary: p) auto
  define h' where "h' = h\<lparr>cells := (cells h)(brk h \<mapsto> \<lparr>q_cmd = c, q_next = None\<rparr>, fst z \<mapsto> \<lparr>q_cmd = snd z, q_next = Some (brk h)\<rparr>),
      brk := Suc (brk h)\<rparr>"
  have "fst z \<noteq> brk h" using fresh by auto
  then have "spi_engine_queue_add_cmd p c h = Some h'"
    using qseg_last [OF q(1)] a tail assms(3)
    by (simp add: spi_engine_queue_add_cmd_def new_cmd_ok h'_def)
  moreover have "queue_cells p h' (zs @ [z, (brk h, c)])"
    unfolding queue_cells_def h'_def
    using qseg_snoc [OF q(1,3) fresh, of c] q(2-4) fresh tail
    by (auto simp: heap_wf_def less_Suc_eq)
  ultimately show ?thesis using z(2) unfolding queue_rep_def by (auto simp: h'_def)
qed

lemma append_cmd_rep:
  assumes "queue_rep p h cs" "\<not> oom h (brk h)"
  shows "\<exists>p' h'. spi_engine_queue_append_cmd p c h = Some (p', h') \<and> queue_rep p' h' (c # cs) \<and> brk h' = Suc (brk h) \<and> oom h' = oom h"
proof -
  obtain zs where z: "queue_cells p h zs" "map snd zs = cs" using assms(1) by (auto simp: queue_rep_def)
  have q: "qseg (cells h) zs p" "dom (cells h) = set (map fst zs)" "distinct (map fst zs)" "heap_wf h"
    using z(1) by (auto simp: queue_cells_def)
  have fresh: "brk h \<notin> set (map fst zs)" using heap_wf_fresh [OF q(4)] q(2) by (metis domIff)
  let ?h = "h\<lparr>cells := (cells h)(brk h \<mapsto> \<lparr>q_cmd = c, q_next = p\<rparr>), brk := Suc (brk h)\<rparr>"
  have "spi_engine_queue_append_cmd p c h = Some (Some (brk h), ?h)"
    using assms(2) by (simp add: spi_engine_queue_append_cmd_def new_cmd_ok)
  moreover have "queue_cells (Some (brk h)) ?h ((brk h, c) # zs)"
    unfolding queue_cells_def using q fresh by (auto simp: qseg_upd heap_wf_def less_Suc_eq)
  ultimately show ?thesis using z(2) unfolding queue_rep_def by (auto intro!: exI [of _ "(brk h, c) # zs"])
qed

lemma get_cmd_rep:
  assumes "queue_rep p h (c # cs)"
  shows "\<exists>p' h'. spi_engine_queue_get_cmd p h = Some (SUCCESS, Some c, p', h') \<and> queue_rep p' h' cs \<and> brk h' = brk h \<and> oom h' = oom h"
proof -
  obtain z zs where z: "queue_cells p h (z # zs)" "snd z = c" "map snd zs = cs" using assms by (auto simp: queue_rep_def)
  then obtain q where q: "p = Some (fst z)" "cells h (fst z) = Some \<lparr>q_cmd = c, q_next = q\<rparr>" "qseg (cells h) zs q"
    by (auto simp: queue_cells_def)
  let ?h = "h\<lparr>cells := (cells h)(fst z := None)\<rparr>"
  have "spi_engine_queue_get_cmd p h = Some (SUCCESS, Some c, q, ?h)"
    using q by (simp add: spi_engine_queue_get_cmd_def cfree_def split: option.splits)
  moreover have "queue_cells q ?h zs"
    using z(1) q(3) by (auto simp: queue_cells_def qseg_upd heap_wf_free)
  ultimately show ?thesis using z(3) unfolding queue_rep_def by auto
qed

lemma get_cmd_empty: "spi_engine_queue_get_cmd None h = Some (FAILURE, None, None, h)"
  by (simp add: spi_engine_queue_get_cmd_def)

lemma queue_rep_empty: "queue_rep p h [] \<longleftrightarrow> p = None \<and> cells h = Map.empty \<and> heap_wf h"
  by (auto simp: queue_rep_def queue_cells_def)

lemma queue_rep_pointer: "queue_rep p h (c # cs) \<Longrightarrow> \<exists>a. p = Some a"
  by (auto simp: queue_rep_def queue_cells_def)

text \<open>Freeing ends and leaves nothing of the queue.\<close>

lemma free_loop_frees:
  "qseg (cells h) zs p \<Longrightarrow> distinct (map fst zs) \<Longrightarrow>
   queue_free_loop p h = Some (None, h\<lparr>cells := (cells h) |` (- set (map fst zs))\<rparr>)"
proof (induction zs arbitrary: p)
  case Nil
  then show ?case by (subst queue_free_loop.simps) (cases h, simp add: restrict_map_def)
next
  case (Cons z zs)
  then obtain q where q: "p = Some (fst z)" "cells h (fst z) = Some \<lparr>q_cmd = snd z, q_next = q\<rparr>" "qseg (cells h) zs q"
    by auto
  let ?m = "(cells h) |` (- set (map fst zs))"
  have rest: "queue_free_loop q h = Some (None, h\<lparr>cells := ?m\<rparr>)" using Cons.IH [OF q(3)] Cons.prems(2) by simp
  have mem: "?m (fst z) = Some \<lparr>q_cmd = snd z, q_next = q\<rparr>" using q(2) Cons.prems(2) by (auto simp: restrict_map_def)
  have fin: "?m(fst z := None) = (cells h) |` (- set (map fst (z # zs)))"
    by (rule ext) (auto simp: restrict_map_def)
  show ?case
  proof (cases "q = None")
    case True
    then have "zs = []" using q(3) by (cases zs) auto
    moreover have "(cells h)(fst z := None) = (cells h) |` (- {fst z})" by (rule ext) (simp add: restrict_map_def)
    ultimately show ?thesis using q True
      by (subst queue_free_loop.simps) (simp add: cfree_def)
  next
    case False
    then show ?thesis using q rest mem fin
      by (subst queue_free_loop.simps) (auto simp: cfree_def)
  qed
qed

lemma queue_free_rep:
  assumes "queue_rep p h cs"
  shows "\<exists>h'. spi_engine_queue_free p h = Some (SUCCESS, None, h') \<and> queue_rep None h' []"
proof -
  obtain zs where "queue_cells p h zs" using assms by (auto simp: queue_rep_def)
  then have z: "qseg (cells h) zs p" "distinct (map fst zs)" "dom (cells h) = set (map fst zs)" "heap_wf h"
    by (auto simp: queue_cells_def)
  have "(cells h) |` (- set (map fst zs)) = Map.empty" using z(3) by (auto simp: restrict_map_def fun_eq_iff domIff)
  then have "spi_engine_queue_free p h = Some (SUCCESS, None, h\<lparr>cells := Map.empty\<rparr>)"
    using free_loop_frees [OF z(1,2)] by (simp add: spi_engine_queue_free_def)
  then show ?thesis by (auto simp: queue_rep_empty heap_wf_def)
qed

section \<open>The contract of a queue\<close>

partial_function (option) queue_walk :: "nat option \<Rightarrow> cmd_heap \<Rightarrow> u32 list option" where
  "queue_walk p h = (case p of None \<Rightarrow> Some []
     | Some a \<Rightarrow> do {e \<leftarrow> cells h a; cs \<leftarrow> queue_walk (q_next e) h; Some (q_cmd e # cs)})"

lemma queue_walk_seg: "qseg (cells h) zs p \<Longrightarrow> queue_walk p h = Some (map snd zs)"
proof (induction zs arbitrary: p)
  case (Cons z zs)
  then show ?case by (subst queue_walk.simps) auto
qed (subst queue_walk.simps, simp)

lemma queue_walk_rep: "queue_rep p h cs \<Longrightarrow> queue_walk p h = Some cs"
  by (auto simp: queue_rep_def queue_cells_def queue_walk_seg)

definition cmd_put :: "nat option \<times> cmd_heap \<Rightarrow> u32 \<Rightarrow> (nat option \<times> cmd_heap) option" where
  "cmd_put s c = do {h \<leftarrow> spi_engine_queue_add_cmd (fst s) c (snd s); Some (fst s, h)}"

definition cmd_take :: "nat option \<times> cmd_heap \<Rightarrow> (u32 \<times> nat option \<times> cmd_heap) option" where
  "cmd_take s = do {
     (_, c, p, h) \<leftarrow> spi_engine_queue_get_cmd (fst s) (snd s);
     c \<leftarrow> c;
     Some (c, p, h)}"

interpretation sq: queue "\<lambda>s. \<exists>cs. queue_rep (fst s) (snd s) cs" "\<lambda>s. the (queue_walk (fst s) (snd s))"
  "\<lambda>s c. fst s \<noteq> None \<and> \<not> oom (snd s) (brk (snd s))" cmd_put cmd_take
proof (unfold_locales, goal_cases)
  case (1 s c)
  then obtain cs where cs: "queue_rep (fst s) (snd s) cs" by blast
  have "cs \<noteq> []" using 1(2) cs queue_rep_empty [of "fst s" "snd s"] by auto
  then obtain h where h: "spi_engine_queue_add_cmd (fst s) c (snd s) = Some h" "queue_rep (fst s) h (cs @ [c])"
    using add_cmd_rep [OF cs, of c] 1(2) by auto
  then have "cmd_put s c = Some (fst s, h)" "queue_walk (fst s) h = Some (cs @ [c])" "queue_rep (fst s) h (cs @ [c])"
    using queue_walk_rep by (simp_all add: cmd_put_def)
  then show ?case using queue_walk_rep [OF cs] by (intro exI [of _ "(fst s, h)"]) auto
next
  case (2 s c cs)
  then obtain ds where ds: "queue_rep (fst s) (snd s) ds" by blast
  then have "ds = c # cs" using 2(2) queue_walk_rep [OF ds] by simp
  then have "queue_rep (fst s) (snd s) (c # cs)" using ds by simp
  then obtain p h where "spi_engine_queue_get_cmd (fst s) (snd s) = Some (SUCCESS, Some c, p, h)" "queue_rep p h cs"
    using get_cmd_rep by blast
  then have "cmd_take s = Some (c, p, h)" "queue_walk p h = Some cs" "queue_rep p h cs"
    using queue_walk_rep by (simp_all add: cmd_take_def)
  then show ?case by (intro exI [of _ "(p, h)"]) auto
qed

text \<open>A command of which there is no memory is lost: the queue and its caller do not notice.\<close>

lemma add_cmd_lost:
  assumes "queue_rep p h cs" "cs \<noteq> []" "oom h (brk h)"
  shows "\<exists>h'. spi_engine_queue_add_cmd p c h = Some h' \<and> queue_rep p h' cs"
proof -
  obtain zs z where z: "queue_cells p h (zs @ [z])" "map snd (zs @ [z]) = cs"
    using assms(1,2) by (metis append_butlast_last_id map_is_Nil_conv queue_rep_def)
  have q: "qseg (cells h) (zs @ [z]) p" using z(1) by (auto simp: queue_cells_def)
  obtain a where a: "p = Some a" using queue_nonempty [OF z(1)] by auto
  have tail: "cells h (fst z) = Some \<lparr>q_cmd = snd z, q_next = None\<rparr>"
    using q by (induction zs arbitrary: p) auto
  have "(cells h)(fst z \<mapsto> \<lparr>q_cmd = snd z, q_next = None\<rparr>) = cells h" using tail by auto
  then have "spi_engine_queue_add_cmd p c h = Some (h\<lparr>brk := Suc (brk h)\<rparr>)"
    using qseg_last [OF q] a tail assms(3)
    by (simp add: spi_engine_queue_add_cmd_def spi_engine_queue_new_cmd_def calloc_def)
  moreover have "queue_cells p (h\<lparr>brk := Suc (brk h)\<rparr>) (zs @ [z])"
    using z(1) by (auto simp: queue_cells_def heap_wf_brk)
  ultimately show ?thesis using z(2) unfolding queue_rep_def by blast
qed

end
