(* ===== verification/Spi_Engine.thy ===== *)
theory Spi_Engine
  imports Spi_Queue Axi_Dmac
begin

text \<open>
  The driver of the SPI engine core, drivers/axi_core/spi_engine/spi_engine.c with its headers:
  register access, the interpreter of commands, transfers through the fifos of the core, the
  offload module with its two DMA controllers, and creation and removal.

  The core behind the bus is a parameter, as in the other drivers; so are \<open>usleep\<close>, what happens
  in the hardware while the program sleeps, and \<open>irq\<close>, the interrupts of the DMA controllers.
  An operation runs on the record \<open>spi_sys\<close>: the descriptor, the static \<open>_sync_id\<close>, the memory of
  the command queues and of the DMA descriptors, and the hardware.
\<close>

section \<open>Registers and commands\<close>

definition SPI_ENGINE_REG_VERSION :: u32 where [simp]: "SPI_ENGINE_REG_VERSION = 0x00"
definition SPI_ENGINE_REG_DATA_WIDTH :: u32 where [simp]: "SPI_ENGINE_REG_DATA_WIDTH = 0x0C"
definition SPI_ENGINE_REG_RESET :: u32 where [simp]: "SPI_ENGINE_REG_RESET = 0x40"
definition SPI_ENGINE_REG_SYNC_ID :: u32 where [simp]: "SPI_ENGINE_REG_SYNC_ID = 0xC0"
definition SPI_ENGINE_REG_CMD_FIFO :: u32 where [simp]: "SPI_ENGINE_REG_CMD_FIFO = 0xE0"
definition SPI_ENGINE_REG_SDO_DATA_FIFO :: u32 where [simp]: "SPI_ENGINE_REG_SDO_DATA_FIFO = 0xE4"
definition SPI_ENGINE_REG_SDI_DATA_FIFO :: u32 where [simp]: "SPI_ENGINE_REG_SDI_DATA_FIFO = 0xE8"

definition SPI_ENGINE_REG_OFFLOAD_CTRL :: "u32 \<Rightarrow> u32" where [simp]: "SPI_ENGINE_REG_OFFLOAD_CTRL x = 0x100 + 0x20 * x"
definition SPI_ENGINE_REG_OFFLOAD_RESET :: "u32 \<Rightarrow> u32" where [simp]: "SPI_ENGINE_REG_OFFLOAD_RESET x = 0x108 + 0x20 * x"
definition SPI_ENGINE_REG_OFFLOAD_CMD_MEM :: "u32 \<Rightarrow> u32" where [simp]: "SPI_ENGINE_REG_OFFLOAD_CMD_MEM x = 0x110 + 0x20 * x"
definition SPI_ENGINE_REG_OFFLOAD_SDO_MEM :: "u32 \<Rightarrow> u32" where [simp]: "SPI_ENGINE_REG_OFFLOAD_SDO_MEM x = 0x114 + 0x20 * x"

definition SPI_ENGINE_INST_TRANSFER :: u32 where [simp]: "SPI_ENGINE_INST_TRANSFER = 0"
definition SPI_ENGINE_INST_ASSERT :: u32 where [simp]: "SPI_ENGINE_INST_ASSERT = 1"
definition SPI_ENGINE_INST_CONFIG :: u32 where [simp]: "SPI_ENGINE_INST_CONFIG = 2"
definition SPI_ENGINE_INST_MISC :: u32 where [simp]: "SPI_ENGINE_INST_MISC = 3"
definition SPI_ENGINE_CMD_REG_CLK_DIV :: u32 where [simp]: "SPI_ENGINE_CMD_REG_CLK_DIV = 0"
definition SPI_ENGINE_CMD_REG_CONFIG :: u32 where [simp]: "SPI_ENGINE_CMD_REG_CONFIG = 1"
definition SPI_ENGINE_CMD_DATA_TRANSFER_LEN :: u32 where [simp]: "SPI_ENGINE_CMD_DATA_TRANSFER_LEN = 2"
definition SPI_ENGINE_MISC_SYNC :: u32 where [simp]: "SPI_ENGINE_MISC_SYNC = 0"
definition SPI_ENGINE_MISC_SLEEP :: u32 where [simp]: "SPI_ENGINE_MISC_SLEEP = 1"
definition SPI_ENGINE_INSTRUCTION_TRANSFER_RW :: u32 where [simp]: "SPI_ENGINE_INSTRUCTION_TRANSFER_RW = 3"

definition OFFLOAD_DISABLED :: u8 where [simp]: "OFFLOAD_DISABLED = 0"
definition OFFLOAD_TX_EN :: u8 where [simp]: "OFFLOAD_TX_EN = 1"
definition OFFLOAD_RX_EN :: u8 where [simp]: "OFFLOAD_RX_EN = 2"

text \<open>The last argument of a command is not masked.\<close>

definition SPI_ENGINE_CMD :: "u32 \<Rightarrow> u32 \<Rightarrow> u32 \<Rightarrow> u32" where
  "SPI_ENGINE_CMD inst arg1 arg2 = push_bit 12 (inst AND 3) OR push_bit 8 (arg1 AND 3) OR arg2"

definition SPI_ENGINE_CMD_TRANSFER :: "u32 \<Rightarrow> u32 \<Rightarrow> u32" where
  "SPI_ENGINE_CMD_TRANSFER readwrite n = SPI_ENGINE_CMD SPI_ENGINE_INST_TRANSFER readwrite n"
definition SPI_ENGINE_CMD_ASSERT :: "u32 \<Rightarrow> u32 \<Rightarrow> u32" where
  "SPI_ENGINE_CMD_ASSERT delay cs = SPI_ENGINE_CMD SPI_ENGINE_INST_ASSERT delay cs"
definition SPI_ENGINE_CMD_CONFIG :: "u32 \<Rightarrow> u32 \<Rightarrow> u32" where
  "SPI_ENGINE_CMD_CONFIG reg val = SPI_ENGINE_CMD SPI_ENGINE_INST_CONFIG reg val"
definition SPI_ENGINE_CMD_SLEEP :: "u32 \<Rightarrow> u32" where
  "SPI_ENGINE_CMD_SLEEP delay = SPI_ENGINE_CMD SPI_ENGINE_INST_MISC SPI_ENGINE_MISC_SLEEP delay"
definition SPI_ENGINE_CMD_SYNC :: "u32 \<Rightarrow> u32" where
  "SPI_ENGINE_CMD_SYNC i = SPI_ENGINE_CMD SPI_ENGINE_INST_MISC SPI_ENGINE_MISC_SYNC i"

definition WRITE_READ :: "u32 \<Rightarrow> u32" where
  "WRITE_READ no_bytes = push_bit 12 SPI_ENGINE_INST_TRANSFER OR push_bit 8 SPI_ENGINE_INSTRUCTION_TRANSFER_RW OR no_bytes"
definition CS_HIGH :: u32 where "CS_HIGH = SPI_ENGINE_CMD_ASSERT 0x03 0xFF"
definition CS_LOW :: u32 where "CS_LOW = SPI_ENGINE_CMD_ASSERT 0x03 0x00"

section \<open>Data\<close>

datatype xil_spi_type = SPI_PL | SPI_PS | SPI_ENGINE

record spi_engine_desc =
  ref_clk_hz :: u32
  eng_type :: xil_spi_type
  offload_tx_dma :: "nat option"
  offload_rx_dma :: "nat option"
  offload_config :: u8
  offload_tx_len :: u8
  offload_rx_len :: u8
  spi_engine_baseaddr :: u32
  rx_dma_baseaddr :: u32
  tx_dma_baseaddr :: u32
  cs_delay :: u8
  clk_div :: u32
  data_width :: u8
  max_data_width :: u8

record spi_engine_init_param =
  par_ref_clk_hz :: u32
  par_type :: xil_spi_type
  par_baseaddr :: u32
  par_cs_delay :: u32
  par_data_width :: u8

record spi_engine_offload_init_param =
  par_rx_dma_baseaddr :: u32
  par_tx_dma_baseaddr :: u32
  dma_flags :: "u32 option"
  par_offload_config :: u8

record spi_engine_offload_message =
  off_commands :: "u32 list"
  off_no_commands :: u32
  off_commands_data :: "u32 list option"
  off_tx_addr :: u32
  off_rx_addr :: u32

record spi_engine_msg =
  tx_buf :: "u32 list option"
  rx_buf :: "u32 list option"
  msg_length :: u32
  cmds :: "nat option"

text \<open>The members of the generic spi_desc and spi_init_param this driver uses.\<close>

record eng_spi_desc =
  max_speed_hz :: u32
  chip_select :: u8
  spi_mode :: u32
  extra :: spi_engine_desc

record eng_spi_init_param =
  par_max_speed_hz :: u32
  par_chip_select :: u8
  par_mode :: u32
  par_extra :: spi_engine_init_param

record 's spi_sys =
  spi :: eng_spi_desc
  sync_id :: u8
  cmd_mem :: cmd_heap
  dma_mem :: "axi_dmac heap"
  engine :: 's

abbreviation eng :: "'s spi_sys \<Rightarrow> spi_engine_desc" where "eng st \<equiv> extra (spi st)"

definition upd_eng :: "(spi_engine_desc \<Rightarrow> spi_engine_desc) \<Rightarrow> 's spi_sys \<Rightarrow> 's spi_sys" where
  "upd_eng f st = st\<lparr>spi := (spi st)\<lparr>extra := f (extra (spi st))\<rparr>\<rparr>"

section \<open>Register access and settings\<close>

definition spi_engine_write :: "'s axi_bus \<Rightarrow> u32 \<Rightarrow> u32 \<Rightarrow> 's spi_sys \<Rightarrow> int \<times> 's spi_sys" where
  "spi_engine_write bus reg_addr reg_data st =
     (case run_state (axi_io_write bus (spi_engine_baseaddr (eng st)) reg_addr reg_data) (engine st) of
        (_, s) \<Rightarrow> (SUCCESS, st\<lparr>engine := s\<rparr>))"

definition spi_engine_read :: "'s axi_bus \<Rightarrow> u32 \<Rightarrow> 's spi_sys \<Rightarrow> (int \<times> u32) \<times> 's spi_sys" where
  "spi_engine_read bus reg_addr st =
     (case run_state (axi_io_read bus (spi_engine_baseaddr (eng st)) reg_addr) (engine st) of
        ((_, reg_data), s) \<Rightarrow> ((SUCCESS, reg_data), st\<lparr>engine := s\<rparr>))"

definition spi_engine_set_transfer_width :: "u8 \<Rightarrow> 's spi_sys \<Rightarrow> int \<times> 's spi_sys" where
  "spi_engine_set_transfer_width w st =
     (SUCCESS, upd_eng (\<lambda>d. d\<lparr>data_width := (if w > max_data_width d then max_data_width d else w)\<rparr>) st)"

text \<open>The division by zero of a speed of 0, or of 2^31 Hz, is undefined.\<close>

definition spi_engine_set_speed :: "u32 \<Rightarrow> 's spi_sys \<Rightarrow> 's spi_sys option" where
  "spi_engine_set_speed speed_hz st = do {
     guard (2 * speed_hz \<noteq> 0);
     Some (upd_eng (\<lambda>d. d\<lparr>clk_div := ref_clk_hz d div (2 * speed_hz) - 1\<rparr>) st)}"

definition spi_get_words_number :: "spi_engine_desc \<Rightarrow> u8 \<Rightarrow> u8 option" where
  "spi_get_words_number d bytes_number = do {
     let xfer_word_len = data_width d div 8;
     guard (xfer_word_len \<noteq> 0);
     let words_number = bytes_number div xfer_word_len;
     Some (if bytes_number mod xfer_word_len \<noteq> 0 then words_number + 1 else words_number)}"

definition spi_get_word_lenght :: "spi_engine_desc \<Rightarrow> u8" where
  "spi_get_word_lenght d = data_width d div 8"

definition spi_get_sleep_div :: "eng_spi_desc \<Rightarrow> u32 \<Rightarrow> u32 option" where
  "spi_get_sleep_div d sleep_time_ns = do {
     let scale = (clk_div (extra d) + 1) * 2;
     guard (scale \<noteq> 0);
     Some ((max_speed_hz d div 1000000 * sleep_time_ns div 1000) div scale - 1)}"

section \<open>The interpreter of commands\<close>

definition spi_engine_write_cmd_reg :: "'s axi_bus \<Rightarrow> u32 \<Rightarrow> 's spi_sys \<Rightarrow> int \<times> 's spi_sys" where
  "spi_engine_write_cmd_reg bus c st =
     (if offload_config (eng st) AND (OFFLOAD_TX_EN OR OFFLOAD_RX_EN) \<noteq> 0
      then spi_engine_write bus (SPI_ENGINE_REG_OFFLOAD_CMD_MEM 0) c st
      else spi_engine_write bus SPI_ENGINE_REG_CMD_FIFO c st)"

text \<open>\<open>words_number - 1\<close> is computed in int: for no words it is minus one.\<close>

definition spi_engine_transfer :: "'s axi_bus \<Rightarrow> u8 \<Rightarrow> u8 \<Rightarrow> 's spi_sys \<Rightarrow> (int \<times> 's spi_sys) option" where
  "spi_engine_transfer bus read_write bytes_number st = do {
     words_number \<leftarrow> spi_get_words_number (eng st) bytes_number;
     let st = upd_eng (\<lambda>d. d\<lparr>offload_tx_len := offload_tx_len d + words_number\<rparr>) st;
     let (_, st) = spi_engine_write_cmd_reg bus (SPI_ENGINE_CMD_TRANSFER (ucast read_write) (ucast words_number - 1)) st;
     Some (SUCCESS, st)}"

definition spi_engine_set_cs :: "'s axi_bus \<Rightarrow> bool \<Rightarrow> 's spi_sys \<Rightarrow> 's spi_sys option" where
  "spi_engine_set_cs bus high st = do {
     guard (high \<or> unat (chip_select (spi st)) < 32);
     let m = (if high then 0xFF else 0xFF XOR push_bit (unat (chip_select (spi st))) 1 :: u8);
     Some (snd (spi_engine_write_cmd_reg bus (SPI_ENGINE_CMD_ASSERT (ucast (cs_delay (eng st))) (ucast m)) st))}"

definition spi_gen_sleep_ns :: "'s axi_bus \<Rightarrow> u32 \<Rightarrow> 's spi_sys \<Rightarrow> 's spi_sys option" where
  "spi_gen_sleep_ns bus sleep_time_ns st = do {
     sleep_div \<leftarrow> spi_get_sleep_div (spi st) sleep_time_ns;
     Some (snd (spi_engine_write_cmd_reg bus (SPI_ENGINE_CMD_SLEEP sleep_div) st))}"

definition spi_engine_write_cmd :: "'s axi_bus \<Rightarrow> u32 \<Rightarrow> 's spi_sys \<Rightarrow> (int \<times> 's spi_sys) option" where
  "spi_engine_write_cmd bus c st =
     (let engine_command = drop_bit 12 c AND 0x0F;
          modifier = ucast (drop_bit 8 c AND 0x0F) :: u8;
          parameter = ucast (c AND 0xFF) :: u8
      in if engine_command = SPI_ENGINE_INST_TRANSFER then do {
           (_, st) \<leftarrow> spi_engine_transfer bus modifier parameter st;
           Some (SUCCESS, st)}
         else if engine_command = SPI_ENGINE_INST_ASSERT then do {
           st \<leftarrow> (if parameter = 0xFF then spi_engine_set_cs bus True st
                 else if parameter = 0 then spi_engine_set_cs bus False st
                 else Some st);
           Some (SUCCESS, st)}
         else if engine_command = SPI_ENGINE_INST_MISC then do {
           st \<leftarrow> (if modifier = 0 then Some (snd (spi_engine_write_cmd_reg bus c st))
                 else if modifier = 1 then spi_gen_sleep_ns bus (ucast parameter) st
                 else Some st);
           Some (SUCCESS, st)}
         else if engine_command = SPI_ENGINE_INST_CONFIG then Some (SUCCESS, snd (spi_engine_write_cmd_reg bus c st))
         else Some (FAILURE, st))"

section \<open>Transfers\<close>

text \<open>The queue operations on the memory of the system.\<close>

definition add_cmd :: "nat option \<Rightarrow> u32 \<Rightarrow> 's spi_sys \<Rightarrow> 's spi_sys option" where
  "add_cmd q c st = do {h \<leftarrow> spi_engine_queue_add_cmd q c (cmd_mem st); Some (st\<lparr>cmd_mem := h\<rparr>)}"

definition append_cmd :: "nat option \<Rightarrow> u32 \<Rightarrow> 's spi_sys \<Rightarrow> (nat option \<times> 's spi_sys) option" where
  "append_cmd q c st = do {(q, h) \<leftarrow> spi_engine_queue_append_cmd q c (cmd_mem st); Some (q, st\<lparr>cmd_mem := h\<rparr>)}"

definition spi_engine_compile_message :: "spi_engine_msg \<Rightarrow> 's spi_sys \<Rightarrow> (int \<times> spi_engine_msg \<times> 's spi_sys) option" where
  "spi_engine_compile_message msg st = do {
     (q, st) \<leftarrow> append_cmd (cmds msg) (SPI_ENGINE_CMD_CONFIG SPI_ENGINE_CMD_REG_CLK_DIV (clk_div (eng st))) st;
     (q, st) \<leftarrow> append_cmd q (SPI_ENGINE_CMD_CONFIG SPI_ENGINE_CMD_DATA_TRANSFER_LEN (ucast (data_width (eng st)))) st;
     (q, st) \<leftarrow> append_cmd q (SPI_ENGINE_CMD_CONFIG SPI_ENGINE_CMD_REG_CONFIG (spi_mode (spi st))) st;
     st \<leftarrow> add_cmd q (SPI_ENGINE_CMD_SYNC (ucast (sync_id st))) st;
     Some (SUCCESS, msg\<lparr>cmds := q\<rparr>, st)}"

text \<open>The loop that sends the commands; what the interpreter returns is not looked at.\<close>

partial_function (option) send_cmds :: "'s axi_bus \<Rightarrow> nat option \<Rightarrow> 's spi_sys \<Rightarrow> 's spi_sys option" where
  "send_cmds bus q st =
     (if q = None then Some st
      else do {
        (_, c, q, h) \<leftarrow> spi_engine_queue_get_cmd q (cmd_mem st);
        c \<leftarrow> c;
        (_, st) \<leftarrow> spi_engine_write_cmd bus c (st\<lparr>cmd_mem := h\<rparr>);
        send_cmds bus q st})"

text \<open>The first \<open>n\<close> words of a buffer go to one register; reading past the buffer is undefined.\<close>

definition write_words :: "'s axi_bus \<Rightarrow> u32 \<Rightarrow> nat \<Rightarrow> u32 list option \<Rightarrow> 's spi_sys \<Rightarrow> 's spi_sys option" where
  "write_words bus reg n buf st =
     (if n = 0 then Some st
      else do {
        b \<leftarrow> buf;
        guard (n \<le> length b);
        Some (fold (\<lambda>v st. snd (spi_engine_write bus reg v st)) (take n b) st)})"

text \<open>Waiting for the end of the transfer has no bound.\<close>

partial_function (option) wait_sync :: "'s axi_bus \<Rightarrow> 's spi_sys \<Rightarrow> 's spi_sys option" where
  "wait_sync bus st =
     (case spi_engine_read bus SPI_ENGINE_REG_SYNC_ID st of
        ((_, sid), st) \<Rightarrow> if sid \<noteq> ucast (sync_id st) then wait_sync bus st else Some st)"

primrec read_words :: "'s axi_bus \<Rightarrow> nat \<Rightarrow> 's spi_sys \<Rightarrow> u32 list \<times> 's spi_sys" where
  "read_words bus 0 st = ([], st)"
| "read_words bus (Suc n) st =
     (case spi_engine_read bus SPI_ENGINE_REG_SDI_DATA_FIFO st of
        ((_, v), st) \<Rightarrow> (case read_words bus n st of (vs, st) \<Rightarrow> (v # vs, st)))"

definition spi_engine_transfer_message :: "'s axi_bus \<Rightarrow> spi_engine_msg \<Rightarrow> 's spi_sys \<Rightarrow> (int \<times> spi_engine_msg \<times> 's spi_sys) option" where
  "spi_engine_transfer_message bus msg st = do {
     (_, msg, st) \<leftarrow> spi_engine_compile_message msg st;
     let offload_en = ((offload_config (eng st) AND OFFLOAD_TX_EN) OR (offload_config (eng st) AND OFFLOAD_RX_EN) \<noteq> 0);
     st \<leftarrow> send_cmds bus (cmds msg) st;
     let msg = msg\<lparr>cmds := None\<rparr>;
     if offload_en then do {
       st \<leftarrow> write_words bus (SPI_ENGINE_REG_OFFLOAD_SDO_MEM 0) (unat (offload_tx_len (eng st))) (tx_buf msg) st;
       Some (SUCCESS, msg, st)}
     else do {
       let n = unat (msg_length msg);
       st \<leftarrow> write_words bus SPI_ENGINE_REG_SDO_DATA_FIFO n (tx_buf msg) st;
       st \<leftarrow> wait_sync bus st;
       let st = st\<lparr>sync_id := sync_id st + 1\<rparr>;
       if n = 0 then Some (SUCCESS, msg, st)
       else do {
         b \<leftarrow> rx_buf msg;
         guard (n \<le> length b);
         let (vs, st) = read_words bus n st;
         Some (SUCCESS, msg\<lparr>rx_buf := Some (vs @ drop n b)\<rparr>, st)}}}"

text \<open>
  Packing byte \<open>i\<close> into its word and back; \<open>i\<close> has 8 bits and the number of bytes 16. The shift
  of a byte into the sign bit of int is taken as gcc does it.
\<close>

definition byte_shift :: "u8 \<Rightarrow> u8 \<Rightarrow> u8 \<Rightarrow> nat option" where
  "byte_shift width word_len i = do {
     let k = (unat i mod unat word_len + 1) * 8;
     guard (k \<le> unat width \<and> unat width - k < 32);
     Some (unat width - k)}"

partial_function (option) pack_loop :: "u8 \<Rightarrow> u8 \<Rightarrow> u8 list \<Rightarrow> u16 \<Rightarrow> u8 \<Rightarrow> u32 list option \<Rightarrow> u32 list option option" where
  "pack_loop width word_len data bytes_number i tx =
     (if ucast i < bytes_number then do {
        t \<leftarrow> tx;
        let w = unat i div unat word_len;
        guard (unat i < length data \<and> w < length t);
        s \<leftarrow> byte_shift width word_len i;
        pack_loop width word_len data bytes_number (i + 1) (Some (t[w := t ! w OR push_bit s (ucast (data ! unat i))]))}
      else Some tx)"

partial_function (option) unpack_loop :: "u8 \<Rightarrow> u8 \<Rightarrow> u32 list option \<Rightarrow> u16 \<Rightarrow> u8 \<Rightarrow> u8 list \<Rightarrow> u8 list option" where
  "unpack_loop width word_len rx bytes_number i data =
     (if ucast i < bytes_number then do {
        r \<leftarrow> rx;
        let w = unat i div unat word_len;
        guard (unat i < length data \<and> w < length r);
        s \<leftarrow> byte_shift width word_len i;
        unpack_loop width word_len rx bytes_number (i + 1) (data[unat i := ucast (drop_bit s (r ! w))])}
      else Some data)"

text \<open>\<open>al\<close> are the outcomes of the two calloc calls for the buffers.\<close>

definition spi_engine_write_and_read :: "'s axi_bus \<Rightarrow> bool \<times> bool \<Rightarrow> u8 list \<Rightarrow> u16 \<Rightarrow> 's spi_sys \<Rightarrow>
    (int \<times> u8 list \<times> 's spi_sys) option" where
  "spi_engine_write_and_read bus al data bytes_number st = do {
     let st = upd_eng (\<lambda>d. d\<lparr>offload_config := OFFLOAD_DISABLED\<rparr>) st;
     let (_, st) = spi_engine_write bus (SPI_ENGINE_REG_OFFLOAD_CTRL 0) 0 st;
     words_number \<leftarrow> spi_get_words_number (eng st) (ucast bytes_number);
     (case spi_engine_queue_new_cmd None CS_HIGH (cmd_mem st) of
        (_, None, h) \<Rightarrow> Some (FAILURE, data, st\<lparr>cmd_mem := h\<rparr>)
      | (_, Some a, h) \<Rightarrow> do {
          let st = st\<lparr>cmd_mem := h\<rparr>;
          let q = Some a;
          let tx = (if fst al then Some (replicate (unat words_number) 0) else None);
          let rx = (if snd al then Some (replicate (unat words_number) 0) else None);
          let word_len = spi_get_word_lenght (eng st);
          st \<leftarrow> add_cmd q CS_LOW st;
          st \<leftarrow> add_cmd q (WRITE_READ (ucast bytes_number)) st;
          st \<leftarrow> add_cmd q CS_HIGH st;
          let width = data_width (eng st);
          tx \<leftarrow> pack_loop width word_len data bytes_number 0 tx;
          (ret, msg, st) \<leftarrow> spi_engine_transfer_message bus
            \<lparr>tx_buf = tx, rx_buf = rx, msg_length = ucast words_number, cmds = q\<rparr> st;
          data \<leftarrow> unpack_loop (data_width (eng st)) word_len (rx_buf msg) bytes_number 0 data;
          (_, _, h) \<leftarrow> spi_engine_queue_free (cmds msg) (cmd_mem st);
          Some (ret, data, st\<lparr>cmd_mem := h\<rparr>)})}"

section \<open>The offload module\<close>

text \<open>
  \<open>junk\<close> is what malloc finds in the memory of a DMA descriptor. When axi_dmac_init fails it
  leaves the pointer as it was.
\<close>

definition offload_dmac_init :: "'s axi_bus \<Rightarrow> axi_dmac \<Rightarrow> axi_dmac_init_param \<Rightarrow> nat option \<Rightarrow> 's spi_sys \<Rightarrow> nat option \<times> 's spi_sys" where
  "offload_dmac_init bus junk ini old st =
     (case axi_dmac_init bus junk ini (dma_mem st, engine st) of
        (ret, p, h, s) \<Rightarrow> (if ret = SUCCESS then p else old, st\<lparr>dma_mem := h, engine := s\<rparr>))"

definition spi_engine_offload_init :: "'s axi_bus \<Rightarrow> axi_dmac \<Rightarrow> spi_engine_offload_init_param \<Rightarrow> 's spi_sys \<Rightarrow> int \<times> 's spi_sys" where
  "spi_engine_offload_init bus junk param st =
     (let st = upd_eng (\<lambda>d. d\<lparr>offload_config := par_offload_config param\<rparr>) st;
          fl = (case dma_flags param of None \<Rightarrow> DMA_CYCLIC | Some f \<Rightarrow> f);
          (ok, st) =
            (if par_offload_config param AND OFFLOAD_TX_EN \<noteq> 0
             then (case offload_dmac_init bus junk \<lparr>init_name = ''DAC DMAC'', init_base = par_tx_dma_baseaddr param,
                     init_direction = DMA_MEM_TO_DEV, init_flags = fl\<rparr> (offload_tx_dma (eng st)) st of
                     (p, st) \<Rightarrow> (p \<noteq> None, upd_eng (\<lambda>d. d\<lparr>offload_tx_dma := p\<rparr>) st))
             else (True, st))
      in if \<not> ok then (FAILURE, st)
         else let (ok, st) =
            (if par_offload_config param AND OFFLOAD_RX_EN \<noteq> 0
             then (case offload_dmac_init bus junk \<lparr>init_name = ''ADC DMAC'', init_base = par_rx_dma_baseaddr param,
                     init_direction = DMA_DEV_TO_MEM, init_flags = fl\<rparr> (offload_rx_dma (eng st)) st of
                     (p, st) \<Rightarrow> (p \<noteq> None, upd_eng (\<lambda>d. d\<lparr>offload_rx_dma := p\<rparr>) st))
             else (True, st))
         in if \<not> ok then (FAILURE, st) else (SUCCESS, st))"

text \<open>The rest of the commands of an offload message, from index 1.\<close>

fun add_cmds :: "nat option \<Rightarrow> u32 list \<Rightarrow> 's spi_sys \<Rightarrow> 's spi_sys option" where
  "add_cmds q [] st = Some st"
| "add_cmds q (c # cs) st = do {st \<leftarrow> add_cmd q c st; add_cmds q cs st}"

definition run_dmac :: "'s axi_bus \<Rightarrow> ('s \<Rightarrow> bool \<times> 's) \<Rightarrow> nat option \<Rightarrow> u32 \<Rightarrow> u32 \<Rightarrow> 's spi_sys \<Rightarrow> 's spi_sys option" where
  "run_dmac bus irq p addr sz st = do {
     a \<leftarrow> p;
     d \<leftarrow> cells (dma_mem st) a;
     (_, r) \<leftarrow> axi_dmac_transfer bus irq addr sz \<lparr>dmac = d, hw = engine st\<rparr>;
     Some (st\<lparr>dma_mem := (dma_mem st)\<lparr>cells := (cells (dma_mem st))(a \<mapsto> dmac r)\<rparr>, engine := hw r\<rparr>)}"

text \<open>
  The length and the receive buffer of the message are not set, and not used while the offload
  module is on. The results of the DMA transfers are not looked at.
\<close>

definition spi_engine_offload_transfer :: "'s axi_bus \<Rightarrow> ('s \<Rightarrow> bool \<times> 's) \<Rightarrow> (u32 \<Rightarrow> 's \<Rightarrow> 's) \<Rightarrow>
    spi_engine_offload_message \<Rightarrow> u32 \<Rightarrow> 's spi_sys \<Rightarrow> (int \<times> 's spi_sys) option" where
  "spi_engine_offload_transfer bus irq usleep msg no_samples st =
     (if (offload_config (eng st) AND OFFLOAD_TX_EN) OR (offload_config (eng st) AND OFFLOAD_RX_EN) = 0
      then Some (FAILURE, st)
      else
        let (_, st) = spi_engine_write bus (SPI_ENGINE_REG_OFFLOAD_RESET 0) 1 st;
            (_, st) = spi_engine_write bus (SPI_ENGINE_REG_OFFLOAD_RESET 0) 0 st;
            st = upd_eng (\<lambda>d. d\<lparr>offload_tx_len := 0, offload_rx_len := 0\<rparr>) st
        in (case spi_engine_queue_new_cmd None (hd (off_commands msg)) (cmd_mem st) of
              (_, None, h) \<Rightarrow> Some (FAILURE, st\<lparr>cmd_mem := h\<rparr>)
            | (_, Some a, h) \<Rightarrow> do {
                guard (off_commands msg \<noteq> [] \<and> unat (off_no_commands msg) \<le> length (off_commands msg));
                let q = Some a;
                st \<leftarrow> add_cmds q (drop 1 (take (unat (off_no_commands msg)) (off_commands msg))) (st\<lparr>cmd_mem := h\<rparr>);
                (_, transfer, st) \<leftarrow> spi_engine_transfer_message bus
                  \<lparr>tx_buf = off_commands_data msg, rx_buf = None, msg_length = 0, cmds = q\<rparr> st;
                let (_, st) = spi_engine_write bus (SPI_ENGINE_REG_OFFLOAD_CTRL 0) 1 st;
                let word_length = spi_get_word_lenght (eng st);
                let sz = ucast word_length * ucast (offload_tx_len (eng st)) * no_samples;
                st \<leftarrow> (if offload_config (eng st) AND OFFLOAD_TX_EN \<noteq> 0
                      then run_dmac bus irq (offload_tx_dma (eng st)) (off_tx_addr msg) sz st else Some st);
                st \<leftarrow> (if offload_config (eng st) AND OFFLOAD_RX_EN \<noteq> 0
                      then run_dmac bus irq (offload_rx_dma (eng st)) (off_rx_addr msg) sz st else Some st);
                let st = st\<lparr>engine := usleep 1000 (engine st)\<rparr>;
                (_, _, h) \<leftarrow> spi_engine_queue_free (cmds transfer) (cmd_mem st);
                Some (SUCCESS, st\<lparr>cmd_mem := h\<rparr>)}))"

section \<open>Creation and removal\<close>

text \<open>
  \<open>al\<close> are the outcomes of the two malloc calls, \<open>junk\<close> what they find in the memory of the
  descriptor; the last component of the result is the number of blocks that stay allocated. The
  message printed at the end is left out.
\<close>

definition spi_engine_init :: "'s axi_bus \<Rightarrow> (u32 \<Rightarrow> 's \<Rightarrow> 's) \<Rightarrow> bool \<times> bool \<Rightarrow> spi_engine_desc \<Rightarrow>
    eng_spi_init_param option \<Rightarrow> u8 \<times> cmd_heap \<times> axi_dmac heap \<times> 's \<Rightarrow> (int \<times> 's spi_sys option \<times> nat) option" where
  "spi_engine_init bus usleep al junk param m = (case param of
     None \<Rightarrow> Some (FAILURE, None, 0)
   | Some p \<Rightarrow>
     if \<not> fst al then Some (FAILURE, None, 0)
     else if \<not> snd al then Some (FAILURE, None, 1)
     else do {
       let ini = par_extra p;
       guard (2 * par_max_speed_hz p \<noteq> 0);
       let d = junk\<lparr>offload_config := OFFLOAD_DISABLED, spi_engine_baseaddr := par_baseaddr ini, eng_type := par_type ini,
         cs_delay := ucast (par_cs_delay ini), ref_clk_hz := par_ref_clk_hz ini,
         clk_div := par_ref_clk_hz ini div (2 * par_max_speed_hz p) - 1\<rparr>;
       let st = (case m of (sid, qm, dm, s) \<Rightarrow> \<lparr>spi = \<lparr>max_speed_hz = par_max_speed_hz p, chip_select = par_chip_select p,
         spi_mode = par_mode p, extra = d\<rparr>, sync_id = sid, cmd_mem = qm, dma_mem = dm, engine = s\<rparr>);
       let (_, st) = spi_engine_write bus SPI_ENGINE_REG_RESET 1 st;
       let st = st\<lparr>engine := usleep 1000 (engine st)\<rparr>;
       let (_, st) = spi_engine_write bus SPI_ENGINE_REG_RESET 0 st;
       let ((_, w), st) = spi_engine_read bus SPI_ENGINE_REG_DATA_WIDTH st;
       let st = upd_eng (\<lambda>d. d\<lparr>max_data_width := ucast w\<rparr>) st;
       let (_, st) = spi_engine_set_transfer_width (par_data_width ini) st;
       let (_, st) = spi_engine_read bus SPI_ENGINE_REG_VERSION st;
       Some (SUCCESS, Some st, 2)})"

text \<open>What is left after removal: the sync id, the memories and the hardware.\<close>

definition spi_engine_remove :: "'s spi_sys \<Rightarrow> (int \<times> u8 \<times> cmd_heap \<times> axi_dmac heap \<times> 's) option" where
  "spi_engine_remove st = do {
     h \<leftarrow> (if offload_config (eng st) AND OFFLOAD_TX_EN \<noteq> 0
          then map_option snd (axi_dmac_remove (offload_tx_dma (eng st)) (dma_mem st)) else Some (dma_mem st));
     h \<leftarrow> (if offload_config (eng st) AND OFFLOAD_RX_EN \<noteq> 0
          then map_option snd (axi_dmac_remove (offload_rx_dma (eng st)) h) else Some h);
     Some (SUCCESS, sync_id st, cmd_mem st, h, engine st)}"


section \<open>What the commands are translated to\<close>

text \<open>The words one command makes the driver write, and the words of data it announces.\<close>

definition emitted :: "eng_spi_desc \<Rightarrow> u32 \<Rightarrow> (u32 list \<times> u8) option" where
  "emitted d c =
     (let op = drop_bit 12 c AND 0x0F; modifier = ucast (drop_bit 8 c AND 0x0F) :: u8; parameter = ucast (c AND 0xFF) :: u8
      in if op = 0 then map_option (\<lambda>k. ([SPI_ENGINE_CMD_TRANSFER (ucast modifier) (ucast k - 1)], k)) (spi_get_words_number (extra d) parameter)
         else if op = 1 then
           (if parameter = 0xFF then Some ([SPI_ENGINE_CMD_ASSERT (ucast (cs_delay (extra d))) 0xFF], 0)
            else if parameter = 0 then
              (if unat (chip_select d) < 32
               then Some ([SPI_ENGINE_CMD_ASSERT (ucast (cs_delay (extra d))) (ucast (0xFF XOR push_bit (unat (chip_select d)) 1 :: u8))], 0)
               else None)
            else Some ([], 0))
         else if op = 3 then
           (if modifier = 0 then Some ([c], 0)
            else if modifier = 1 then map_option (\<lambda>s. ([SPI_ENGINE_CMD_SLEEP s], 0)) (spi_get_sleep_div d (ucast parameter))
            else Some ([], 0))
         else if op = 2 then Some ([c], 0)
         else Some ([], 0))"

fun emitted_all :: "eng_spi_desc \<Rightarrow> u32 list \<Rightarrow> (u32 list \<times> u8) option" where
  "emitted_all d [] = Some ([], 0)"
| "emitted_all d (c # cs) = do {
     (ws, k) \<leftarrow> emitted d c;
     (vs, l) \<leftarrow> emitted_all d cs;
     Some (ws @ vs, k + l)}"

text \<open>Writes to the core, and the words of data counted by the descriptor.\<close>

definition emit :: "'s axi_bus \<Rightarrow> (u32 \<times> u32) list \<Rightarrow> 's spi_sys \<Rightarrow> 's spi_sys" where
  "emit bus ws st = st\<lparr>engine := writes bus (spi_engine_baseaddr (eng st)) ws (engine st)\<rparr>"

definition count_words :: "u8 \<Rightarrow> 's spi_sys \<Rightarrow> 's spi_sys" where
  "count_words k = upd_eng (\<lambda>d. d\<lparr>offload_tx_len := offload_tx_len d + k\<rparr>)"

definition cmd_reg :: "spi_engine_desc \<Rightarrow> u32" where
  "cmd_reg d = (if offload_config d AND (OFFLOAD_TX_EN OR OFFLOAD_RX_EN) \<noteq> 0 then SPI_ENGINE_REG_OFFLOAD_CMD_MEM 0 else SPI_ENGINE_REG_CMD_FIFO)"

lemma emit_simps [simp]:
  "emit bus [] st = st" "spi (emit bus ws st) = spi st" "sync_id (emit bus ws st) = sync_id st"
  "cmd_mem (emit bus ws st) = cmd_mem st" "dma_mem (emit bus ws st) = dma_mem st"
  "engine (emit bus ws st) = writes bus (spi_engine_baseaddr (eng st)) ws (engine st)"
  "emit bus vs (emit bus us st) = emit bus (us @ vs) st"
  by (simp_all add: emit_def writes_append)

lemma count_words_simps [simp]:
  "count_words 0 st = st" "count_words l (count_words k st) = count_words (k + l) st"
  "sync_id (count_words k st) = sync_id st" "cmd_mem (count_words k st) = cmd_mem st"
  "dma_mem (count_words k st) = dma_mem st" "engine (count_words k st) = engine st"
  "spi (count_words k st) = (spi st)\<lparr>extra := (eng st)\<lparr>offload_tx_len := offload_tx_len (eng st) + k\<rparr>\<rparr>"
  by (simp_all add: count_words_def upd_eng_def add.assoc)

lemma emit_count: "count_words k (emit bus ws st) = emit bus ws (count_words k st)"
  by (simp add: emit_def count_words_def upd_eng_def)

lemma emit_mem: "(emit bus ws st)\<lparr>cmd_mem := h\<rparr> = emit bus ws (st\<lparr>cmd_mem := h\<rparr>)"
  by (simp add: emit_def)

lemma count_mem: "(count_words k st)\<lparr>cmd_mem := h\<rparr> = count_words k (st\<lparr>cmd_mem := h\<rparr>)"
  by (simp add: count_words_def upd_eng_def)

lemma engine_write [simp]: "spi_engine_write bus r v st = (SUCCESS, emit bus [(r, v)] st)"
  by (simp add: spi_engine_write_def emit_def)

lemma write_cmd_reg [simp]: "spi_engine_write_cmd_reg bus c st = (SUCCESS, emit bus [(cmd_reg (eng st), c)] st)"
  by (simp add: spi_engine_write_cmd_reg_def cmd_reg_def)

text \<open>The translation depends neither on the count of words nor on the direction of the offload module.\<close>

lemma words_number_tx_len [simp]:
  "spi_get_words_number (d\<lparr>offload_tx_len := l\<rparr>) n = spi_get_words_number d n"
  "spi_get_words_number (d\<lparr>offload_config := c\<rparr>) n = spi_get_words_number d n"
  by (simp_all add: spi_get_words_number_def)

lemma sleep_div_frame [simp]:
  "spi_get_sleep_div (d\<lparr>extra := (extra d)\<lparr>offload_tx_len := l\<rparr>\<rparr>) n = spi_get_sleep_div d n"
  "spi_get_sleep_div (d\<lparr>extra := (extra d)\<lparr>offload_config := o'\<rparr>\<rparr>) n = spi_get_sleep_div d n"
  by (simp_all add: spi_get_sleep_div_def)

lemma emitted_frame [simp]:
  "emitted (d\<lparr>extra := (extra d)\<lparr>offload_tx_len := l\<rparr>\<rparr>) c = emitted d c"
  "emitted (d\<lparr>extra := (extra d)\<lparr>offload_config := o'\<rparr>\<rparr>) c = emitted d c"
  unfolding emitted_def Let_def by (simp_all cong: if_cong)

lemma emitted_all_frame [simp]:
  "emitted_all (d\<lparr>extra := (extra d)\<lparr>offload_tx_len := l\<rparr>\<rparr>) cs = emitted_all d cs"
  "emitted_all (d\<lparr>extra := (extra d)\<lparr>offload_config := o'\<rparr>\<rparr>) cs = emitted_all d cs"
  by (induction cs) simp_all

lemma cmd_reg_tx_len [simp]: "cmd_reg (d\<lparr>offload_tx_len := l\<rparr>) = cmd_reg d"
  by (simp add: cmd_reg_def)

lemma write_cmd_emits:
  assumes "emitted (spi st) c = Some (ws, k)"
  shows "\<exists>ret. spi_engine_write_cmd bus c st = Some (ret, emit bus (map (Pair (cmd_reg (eng st))) ws) (count_words k st))"
proof -
  define op where "op = drop_bit 12 c AND 0x0F"
  define m where "m = (ucast (drop_bit 8 c AND 0x0F) :: u8)"
  define p where "p = (ucast (c AND 0xFF) :: u8)"
  note defs = op_def [symmetric] m_def [symmetric] p_def [symmetric]
  note e = assms [unfolded emitted_def Let_def, unfolded defs]
  have [simp]: "upd_eng (\<lambda>d. d\<lparr>offload_tx_len := offload_tx_len d + k\<rparr>) st = count_words k st" for k
    by (simp add: count_words_def)
  consider "op = 0" | "op = 1" | "op = 3" | "op = 2" | "op \<notin> {0, 1, 2, 3}" by auto
  then show ?thesis
  proof cases
    case 1
    then show ?thesis unfolding spi_engine_write_cmd_def Let_def defs using e
      by (auto simp: spi_engine_transfer_def)
  next
    case 2
    then show ?thesis unfolding spi_engine_write_cmd_def Let_def defs using e
      by (auto simp: spi_engine_set_cs_def split: if_splits)
  next
    case 3
    then show ?thesis unfolding spi_engine_write_cmd_def Let_def defs using e
      by (auto simp: spi_gen_sleep_ns_def split: if_splits)
  next
    case 4
    then show ?thesis unfolding spi_engine_write_cmd_def Let_def defs using e by auto
  next
    case 5
    then show ?thesis unfolding spi_engine_write_cmd_def Let_def defs using e by auto
  qed
qed

lemma send_cmds_emits:
  assumes "queue_rep q (cmd_mem st) cs" "emitted_all (spi st) cs = Some (ws, k)"
  shows "\<exists>h. send_cmds bus q st = Some (emit bus (map (Pair (cmd_reg (eng st))) ws) (count_words k (st\<lparr>cmd_mem := h\<rparr>)))
    \<and> queue_rep None h [] \<and> brk h = brk (cmd_mem st) \<and> oom h = oom (cmd_mem st)"
  using assms
proof (induction cs arbitrary: q st ws k)
  case Nil
  then have q: "q = None" "queue_rep None (cmd_mem st) []" by (auto simp: queue_rep_empty)
  then have "send_cmds bus q st = Some st" by (subst send_cmds.simps) simp
  then show ?case using Nil.prems(2) q by (intro exI [of _ "cmd_mem st"]) simp
next
  case (Cons c cs)
  obtain a where a: "q = Some a" using queue_rep_pointer [OF Cons.prems(1)] by blast
  obtain q' h where h: "spi_engine_queue_get_cmd q (cmd_mem st) = Some (SUCCESS, Some c, q', h)" "queue_rep q' h cs"
      "brk h = brk (cmd_mem st)" "oom h = oom (cmd_mem st)"
    using get_cmd_rep [OF Cons.prems(1)] by blast
  obtain us vs i j where e: "emitted (spi st) c = Some (us, i)" "emitted_all (spi st) cs = Some (vs, j)" "ws = us @ vs" "k = i + j"
    using Cons.prems(2) by (auto split: Option.bind_splits)
  let ?st = "st\<lparr>cmd_mem := h\<rparr>"
  obtain ret where r: "spi_engine_write_cmd bus c ?st = Some (ret, emit bus (map (Pair (cmd_reg (eng st))) us) (count_words i ?st))"
    using write_cmd_emits [of ?st c us i bus] e(1) by auto
  let ?st1 = "emit bus (map (Pair (cmd_reg (eng st))) us) (count_words i ?st)"
  have "queue_rep q' (cmd_mem ?st1) cs" "emitted_all (spi ?st1) cs = Some (vs, j)" using h(2) e(2) by simp_all
  then obtain h1 where h1: "send_cmds bus q' ?st1 = Some (emit bus (map (Pair (cmd_reg (eng ?st1))) vs) (count_words j (?st1\<lparr>cmd_mem := h1\<rparr>)))"
      "queue_rep None h1 []" "brk h1 = brk (cmd_mem ?st1)" "oom h1 = oom (cmd_mem ?st1)"
    using Cons.IH by blast
  have "send_cmds bus q st = send_cmds bus q' ?st1"
    using a h(1) r by (subst send_cmds.simps) simp
  also have "\<dots> = Some (emit bus (map (Pair (cmd_reg (eng st))) ws) (count_words k (st\<lparr>cmd_mem := h1\<rparr>)))"
    using h1(1) e(3,4) by (simp add: emit_mem count_mem emit_count)
  finally show ?case using h1(2-4) h(3,4) by auto
qed


section \<open>The fields of a command\<close>

text \<open>As long as the last argument has 8 bits, the interpreter finds the fields the macro put in.\<close>

lemma u32_masks: "(15::u32) = mask 4" "(255::u32) = mask 8" "(3::u32) = mask 2"
  by (simp_all add: mask_eq_exp_minus_1)

lemma small_bits: "(v :: u32) < 256 \<Longrightarrow> 8 \<le> n \<Longrightarrow> \<not> bit v n"
proof
  assume "v < 256" "8 \<le> n" "bit v n"
  then have "bit (unat v) n" by (simp add: bit_unsigned_iff)
  moreover have "unat v < 2 ^ 8" using \<open>v < 256\<close> by (simp add: word_less_nat_alt)
  moreover have "(2::nat) ^ 8 \<le> 2 ^ n" using \<open>8 \<le> n\<close> by (rule power_increasing) simp
  ultimately show False by (simp add: bit_iff_odd)
qed
lemma cmd_fields:
  fixes i a v :: u32
  assumes "v < 256"
  defines "c \<equiv> push_bit 12 (i AND 3) OR push_bit 8 (a AND 3) OR v"
  shows "drop_bit 12 c AND 15 = i AND 3" "drop_bit 8 c AND 15 = a AND 3" "c AND 255 = v"
  unfolding c_def u32_masks
  using small_bits [OF assms(1)] by (rule_tac bit_word_eqI, auto simp: bit_simps not_le [symmetric])+

lemma ucast_u8_small: "(ucast (i :: u8) :: u32) < 256"
  unfolding word_less_nat_alt unsigned_ucast_eq
  by (rule le_less_trans [OF take_bit_nat_less_eq_self]) simp

lemma emitted_config:
  "v < 256 \<Longrightarrow> emitted d (SPI_ENGINE_CMD_CONFIG r v) = Some ([SPI_ENGINE_CMD_CONFIG r v], 0)"
  by (simp add: emitted_def Let_def SPI_ENGINE_CMD_CONFIG_def SPI_ENGINE_CMD_def cmd_fields(1) [of v 2, simplified])

lemma emitted_sync:
  "emitted d (SPI_ENGINE_CMD_SYNC (ucast (i :: u8))) = Some ([SPI_ENGINE_CMD_SYNC (ucast i)], 0)"
proof -
  show ?thesis
    using cmd_fields [OF ucast_u8_small [of i], of 3 0]
    by (simp add: emitted_def Let_def SPI_ENGINE_CMD_SYNC_def SPI_ENGINE_CMD_def)
qed

lemma emitted_cs_high:
  "emitted d CS_HIGH = Some ([SPI_ENGINE_CMD_ASSERT (ucast (cs_delay (extra d))) 0xFF], 0)"
  by (simp add: emitted_def Let_def CS_HIGH_def SPI_ENGINE_CMD_ASSERT_def SPI_ENGINE_CMD_def)

text \<open>The chip select lines with the selected one low; one beyond 7 selects nothing.\<close>

definition cs_lines :: "eng_spi_desc \<Rightarrow> u32" where
  "cs_lines d = ucast (0xFF XOR push_bit (unat (chip_select d)) 1 :: u8)"

lemma emitted_cs_low:
  "unat (chip_select d) < 32 \<Longrightarrow>
   emitted d CS_LOW = Some ([SPI_ENGINE_CMD_ASSERT (ucast (cs_delay (extra d))) (cs_lines d)], 0)"
  by (simp add: emitted_def Let_def CS_LOW_def SPI_ENGINE_CMD_ASSERT_def SPI_ENGINE_CMD_def cs_lines_def)

lemma emitted_transfer:
  assumes "spi_get_words_number (extra d) n = Some k"
  shows "emitted d (WRITE_READ (ucast n)) = Some ([SPI_ENGINE_CMD_TRANSFER 3 (ucast k - 1)], k)"
proof -
  have "(ucast (ucast n :: u32) :: u8) = n" by (rule bit_word_eqI) (auto simp: bit_simps)
  then show ?thesis
    using cmd_fields [OF ucast_u8_small [of n], of 0 3] assms
    by (simp add: emitted_def Let_def WRITE_READ_def)
qed

section \<open>A whole message\<close>

text \<open>The commands of a message with those added around them.\<close>

definition full_message :: "eng_spi_desc \<Rightarrow> u8 \<Rightarrow> u32 list \<Rightarrow> u32 list" where
  "full_message d sid cs =
     [SPI_ENGINE_CMD_CONFIG SPI_ENGINE_CMD_REG_CONFIG (spi_mode d),
      SPI_ENGINE_CMD_CONFIG SPI_ENGINE_CMD_DATA_TRANSFER_LEN (ucast (data_width (extra d))),
      SPI_ENGINE_CMD_CONFIG SPI_ENGINE_CMD_REG_CLK_DIV (clk_div (extra d))] @ cs @ [SPI_ENGINE_CMD_SYNC (ucast sid)]"

abbreviation never_oom :: "cmd_heap \<Rightarrow> bool" where "never_oom h \<equiv> \<forall>n. \<not> oom h n"

lemma compile_rep:
  assumes "queue_rep (cmds msg) (cmd_mem st) cs" "never_oom (cmd_mem st)"
  shows "\<exists>q h. spi_engine_compile_message msg st = Some (SUCCESS, msg\<lparr>cmds := q\<rparr>, st\<lparr>cmd_mem := h\<rparr>)
    \<and> queue_rep q h (full_message (spi st) (sync_id st) cs) \<and> never_oom h"
proof -
  let ?c1 = "SPI_ENGINE_CMD_CONFIG SPI_ENGINE_CMD_REG_CLK_DIV (clk_div (eng st))"
  let ?c2 = "SPI_ENGINE_CMD_CONFIG SPI_ENGINE_CMD_DATA_TRANSFER_LEN (ucast (data_width (eng st)))"
  let ?c3 = "SPI_ENGINE_CMD_CONFIG SPI_ENGINE_CMD_REG_CONFIG (spi_mode (spi st))"
  obtain q1 h1 where 1: "spi_engine_queue_append_cmd (cmds msg) ?c1 (cmd_mem st) = Some (q1, h1)" "queue_rep q1 h1 (?c1 # cs)"
      "oom h1 = oom (cmd_mem st)"
    using append_cmd_rep [OF assms(1)] assms(2) by blast
  obtain q2 h2 where 2: "spi_engine_queue_append_cmd q1 ?c2 h1 = Some (q2, h2)" "queue_rep q2 h2 (?c2 # ?c1 # cs)" "oom h2 = oom (cmd_mem st)"
    using append_cmd_rep [OF 1(2)] 1(3) assms(2) by metis
  obtain q3 h3 where 3: "spi_engine_queue_append_cmd q2 ?c3 h2 = Some (q3, h3)" "queue_rep q3 h3 (?c3 # ?c2 # ?c1 # cs)" "oom h3 = oom (cmd_mem st)"
    using append_cmd_rep [OF 2(2)] 2(3) assms(2) by metis
  obtain h4 where 4: "spi_engine_queue_add_cmd q3 (SPI_ENGINE_CMD_SYNC (ucast (sync_id st))) h3 = Some h4"
      "queue_rep q3 h4 ((?c3 # ?c2 # ?c1 # cs) @ [SPI_ENGINE_CMD_SYNC (ucast (sync_id st))])" "oom h4 = oom (cmd_mem st)"
    using add_cmd_rep [OF 3(2)] 3(3) assms(2) by (metis list.distinct(1))
  show ?thesis
    using 1(1) 2(1) 3(1) 4 assms(2)
    by (intro exI [of _ q3] exI [of _ h4])
      (simp add: spi_engine_compile_message_def append_cmd_def add_cmd_def full_message_def)
qed

text \<open>The polls of a register until it has the value \<open>v\<close>.\<close>

inductive polls :: "'s axi_bus \<Rightarrow> u32 \<Rightarrow> u32 \<Rightarrow> 's \<Rightarrow> 's \<Rightarrow> bool" for bus a v where
  seen: "Xil_In32 bus a s = (v, s') \<Longrightarrow> polls bus a v s s'"
| again: "Xil_In32 bus a s = (w, s1) \<Longrightarrow> w \<noteq> v \<Longrightarrow> polls bus a v s1 s' \<Longrightarrow> polls bus a v s s'"

lemma wait_sync_from:
  "polls bus a v s s' \<Longrightarrow> a = spi_engine_baseaddr (eng st) + 0xC0 \<Longrightarrow> v = ucast (sync_id st) \<Longrightarrow>
   wait_sync bus (st\<lparr>engine := s\<rparr>) = Some (st\<lparr>engine := s'\<rparr>)"
proof (induction rule: polls.induct)
  case (seen s s')
  then show ?case by (subst wait_sync.simps) (simp add: spi_engine_read_def)
next
  case (again s w s1 s')
  then show ?case by (subst wait_sync.simps) (simp add: spi_engine_read_def)
qed

lemma wait_sync_polls:
  "polls bus (spi_engine_baseaddr (eng st) + 0xC0) (ucast (sync_id st)) (engine st) s' \<Longrightarrow>
   wait_sync bus st = Some (st\<lparr>engine := s'\<rparr>)"
  using wait_sync_from [of bus _ _ "engine st" s' st] by simp

text \<open>Reading one register \<open>n\<close> times.\<close>

primrec reads :: "'s axi_bus \<Rightarrow> u32 \<Rightarrow> nat \<Rightarrow> 's \<Rightarrow> u32 list \<times> 's" where
  "reads bus a 0 s = ([], s)"
| "reads bus a (Suc n) s = (case Xil_In32 bus a s of (v, s) \<Rightarrow> (case reads bus a n s of (vs, s) \<Rightarrow> (v # vs, s)))"

lemma read_words_reads:
  "read_words bus n st = (fst (reads bus (spi_engine_baseaddr (eng st) + 0xE8) n (engine st)),
     st\<lparr>engine := snd (reads bus (spi_engine_baseaddr (eng st) + 0xE8) n (engine st))\<rparr>)"
  by (induction n arbitrary: st) (simp_all add: spi_engine_read_def split_beta)

lemma length_reads [simp]: "length (fst (reads bus a n s)) = n"
  by (induction n arbitrary: s) (simp_all add: split_beta)

lemma write_words_emit:
  "n \<le> length b \<Longrightarrow> write_words bus reg n (Some b) st = Some (emit bus (map (Pair reg) (take n b)) st)"
proof -
  have f: "fold (\<lambda>v. emit bus [(reg, v)]) vs st = emit bus (map (Pair reg) vs) st" for vs
    by (induction vs arbitrary: st) simp_all
  show "n \<le> length b \<Longrightarrow> ?thesis" by (simp add: write_words_def f)
qed


text \<open>Through the fifos: the message is written, the end awaited, and as many words read as written.\<close>

lemma transfer_message_fifo:
  assumes "queue_rep (cmds msg) (cmd_mem st) cs" "never_oom (cmd_mem st)" "offload_config (eng st) = OFFLOAD_DISABLED"
    and "emitted_all (spi st) (full_message (spi st) (sync_id st) cs) = Some (ws, k)"
    and "tx_buf msg = Some t" "rx_buf msg = Some r" "length t = n" "length r = n" "unat (msg_length msg) = n"
    and "polls bus (spi_engine_baseaddr (eng st) + 0xC0) (ucast (sync_id st))
      (writes bus (spi_engine_baseaddr (eng st)) (map (Pair 0xE0) ws @ map (Pair 0xE4) t) (engine st)) s"
    and "reads bus (spi_engine_baseaddr (eng st) + 0xE8) n s = (vs, s')"
  shows "\<exists>h. spi_engine_transfer_message bus msg st = Some (SUCCESS, msg\<lparr>cmds := None, rx_buf := Some vs\<rparr>,
      (count_words k st)\<lparr>cmd_mem := h, sync_id := sync_id st + 1, engine := s'\<rparr>) \<and> queue_rep None h [] \<and> never_oom h"
proof -
  obtain q h where c: "spi_engine_compile_message msg st = Some (SUCCESS, msg\<lparr>cmds := q\<rparr>, st\<lparr>cmd_mem := h\<rparr>)"
      "queue_rep q h (full_message (spi st) (sync_id st) cs)" "never_oom h"
    using compile_rep [OF assms(1,2)] by blast
  have reg: "cmd_reg (eng st) = 0xE0" using assms(3) by (simp add: cmd_reg_def)
  obtain h1 where h1: "send_cmds bus q (st\<lparr>cmd_mem := h\<rparr>) =
      Some (emit bus (map (Pair 0xE0) ws) (count_words k (st\<lparr>cmd_mem := h1\<rparr>)))" "queue_rep None h1 []" "never_oom h1"
    using send_cmds_emits [of q "st\<lparr>cmd_mem := h\<rparr>" "full_message (spi st) (sync_id st) cs" ws k bus] c(2,3) assms(4) reg by auto
  let ?st1 = "emit bus (map (Pair 0xE0) ws @ map (Pair 0xE4) t) (count_words k (st\<lparr>cmd_mem := h1\<rparr>))"
  have w: "write_words bus 0xE4 n (Some t) (emit bus (map (Pair 0xE0) ws) (count_words k (st\<lparr>cmd_mem := h1\<rparr>))) = Some ?st1"
    using assms(7) by (simp add: write_words_emit)
  have p: "wait_sync bus ?st1 = Some (?st1\<lparr>engine := s\<rparr>)"
    using assms(10) by (intro wait_sync_polls) simp
  have fin: "?st1\<lparr>engine := s'', sync_id := i\<rparr> = (count_words k st)\<lparr>cmd_mem := h1, sync_id := i, engine := s''\<rparr>" for s'' i
    by (simp add: emit_def count_words_def upd_eng_def)
  have off: "(offload_config (eng st) AND OFFLOAD_TX_EN) OR (offload_config (eng st) AND OFFLOAD_RX_EN) = 0"
    using assms(3) by simp
  have vs: "n = 0 \<Longrightarrow> vs = [] \<and> s' = s" using assms(11) by auto
  show ?thesis
  proof (cases "n = 0")
    case True
    then have "spi_engine_transfer_message bus msg st = Some (SUCCESS, msg\<lparr>cmds := None\<rparr>, ?st1\<lparr>engine := s', sync_id := sync_id st + 1\<rparr>)"
      using c(1) h1(1) w p off assms(5,9) vs by (simp add: spi_engine_transfer_message_def)
    moreover have "msg\<lparr>cmds := None\<rparr> = msg\<lparr>cmds := None, rx_buf := Some vs\<rparr>"
      using assms(6,8) vs True by (cases msg) simp
    ultimately show ?thesis using fin h1 by auto
  next
    case False
    then have "spi_engine_transfer_message bus msg st =
        Some (SUCCESS, msg\<lparr>cmds := None, rx_buf := Some vs\<rparr>, ?st1\<lparr>engine := s', sync_id := sync_id st + 1\<rparr>)"
      using c(1) h1(1) w p off assms(5-9,11) by (simp add: spi_engine_transfer_message_def read_words_reads)
    then show ?thesis using fin h1 by auto
  qed
qed

text \<open>Into the memories of the offload module: the message is only stored there.\<close>

lemma transfer_message_offload:
  assumes "queue_rep (cmds msg) (cmd_mem st) cs" "never_oom (cmd_mem st)"
    and "(offload_config (eng st) AND OFFLOAD_TX_EN) OR (offload_config (eng st) AND OFFLOAD_RX_EN) \<noteq> 0"
    and "emitted_all (spi st) (full_message (spi st) (sync_id st) cs) = Some (ws, k)"
    and "tx_buf msg = Some t" "unat (offload_tx_len (eng st) + k) \<le> length t"
  shows "\<exists>h. spi_engine_transfer_message bus msg st = Some (SUCCESS, msg\<lparr>cmds := None\<rparr>,
      emit bus (map (Pair 0x110) ws @ map (Pair 0x114) (take (unat (offload_tx_len (eng st) + k)) t))
        ((count_words k st)\<lparr>cmd_mem := h\<rparr>)) \<and> queue_rep None h [] \<and> never_oom h"
proof -
  obtain q h where c: "spi_engine_compile_message msg st = Some (SUCCESS, msg\<lparr>cmds := q\<rparr>, st\<lparr>cmd_mem := h\<rparr>)"
      "queue_rep q h (full_message (spi st) (sync_id st) cs)" "never_oom h"
    using compile_rep [OF assms(1,2)] by blast
  have "offload_config (eng st) AND (OFFLOAD_TX_EN OR OFFLOAD_RX_EN) \<noteq> 0"
    using assms(3) by (simp only: bit.conj_disj_distrib not_False_eq_True)
  then have reg: "cmd_reg (eng st) = 0x110" by (simp add: cmd_reg_def)
  obtain h1 where h1: "send_cmds bus q (st\<lparr>cmd_mem := h\<rparr>) =
      Some (emit bus (map (Pair 0x110) ws) (count_words k (st\<lparr>cmd_mem := h1\<rparr>)))" "queue_rep None h1 []" "never_oom h1"
    using send_cmds_emits [of q "st\<lparr>cmd_mem := h\<rparr>" "full_message (spi st) (sync_id st) cs" ws k bus] c(2,3) assms(4) reg by auto
  then show ?thesis
    using c(1) assms(3,5,6)
    by (intro exI [of _ h1]) (simp add: spi_engine_transfer_message_def write_words_emit count_mem)
qed

end
