(* ===== verification/Spi_Transfer.thy ===== *)
theory Spi_Transfer
  imports Spi_Engine
begin

text \<open>
  What the transfers of the SPI engine driver do: how bytes are packed into words and back, the
  exact writes of a transfer and of an offload message, and a transfer through a core that
  sends back what it receives.
\<close>

section \<open>Bytes and words\<close>

text \<open>
  Byte \<open>j\<close> is in word \<open>j div wl\<close>, first byte highest: \<open>word_at\<close> is the word \<open>k\<close> of the first
  \<open>n\<close> bytes.
\<close>

definition shift_of :: "nat \<Rightarrow> nat \<Rightarrow> nat \<Rightarrow> nat" where
  "shift_of width wl j = width - (j mod wl + 1) * 8"

primrec word_at :: "nat \<Rightarrow> nat \<Rightarrow> u8 list \<Rightarrow> nat \<Rightarrow> nat \<Rightarrow> u32" where
  "word_at width wl data 0 k = 0"
| "word_at width wl data (Suc n) k =
     (if n div wl = k then word_at width wl data n k OR push_bit (shift_of width wl n) (ucast (data ! n))
      else word_at width wl data n k)"

definition words_of :: "nat \<Rightarrow> nat \<Rightarrow> nat" where
  "words_of wl n = (if n mod wl = 0 then n div wl else n div wl + 1)"

definition pack_words :: "nat \<Rightarrow> nat \<Rightarrow> nat \<Rightarrow> u8 list \<Rightarrow> u32 list" where
  "pack_words width wl n data = map (word_at width wl data n) [0..<words_of wl n]"

definition unpack_bytes :: "nat \<Rightarrow> nat \<Rightarrow> nat \<Rightarrow> u32 list \<Rightarrow> u8 list" where
  "unpack_bytes width wl n vs = map (\<lambda>j. ucast (drop_bit (shift_of width wl j) (vs ! (j div wl)))) [0..<n]"

text \<open>A width the packing can deal with: at least a byte, and no shift beyond a word.\<close>

definition width_ok :: "u8 \<Rightarrow> bool" where
  "width_ok w \<longleftrightarrow> 8 \<le> unat w \<and> unat w < 40"

lemma word_len_pos: "width_ok w \<Longrightarrow> 0 < unat (w div 8)" "width_ok w \<Longrightarrow> 0 < unat w div 8"
  by (simp_all add: width_ok_def unat_div div_greater_zero_iff)

lemma word_in_range: "0 < wl \<Longrightarrow> j < n \<Longrightarrow> j div wl < words_of wl n"
  by (simp add: words_of_def)
    (metis div_le_mono div_mult_mod_eq less_imp_le_nat less_mult_imp_div_less mult.commute add.right_neutral le_imp_less_Suc)

lemma byte_shift_ok:
  assumes "width_ok w"
  shows "byte_shift w (w div 8) i = Some (shift_of (unat w) (unat (w div 8)) (unat i))"
proof -
  have wl: "unat (w div 8) = unat w div 8" by (simp add: unat_div)
  have "0 < unat w div 8" using assms by (rule word_len_pos)
  then have "unat i mod (unat w div 8) + 1 \<le> unat w div 8" by (simp add: Suc_leI)
  then have "(unat i mod (unat w div 8) + 1) * 8 \<le> unat w div 8 * 8" by (rule mult_le_mono1)
  also have "\<dots> \<le> unat w" by simp
  finally show ?thesis using assms by (simp add: byte_shift_def shift_of_def wl width_ok_def Let_def)
qed

lemma u16_index_less: "unat (n :: u16) < 256 \<Longrightarrow> ucast (i :: u8) < n \<longleftrightarrow> unat i < unat n"
proof -
  have "unat (ucast i :: u16) = unat i"
    unfolding unsigned_ucast_eq by (rule take_bit_nat_eq_self) (rule less_trans [OF unat_u8_less], simp)
  then show ?thesis by (simp add: word_less_nat_alt)
qed

lemma unat_Suc_u8: "unat (i :: u8) < n \<Longrightarrow> n < 256 \<Longrightarrow> unat (i + 1) = Suc (unat i)"
  by (simp add: unat_word_ariths)

lemma pack_loop_words:
  assumes "width_ok w" "unat n < 256" "unat n \<le> length data"
  shows "unat i \<le> unat n \<Longrightarrow>
    pack_loop w (w div 8) data n i (Some (map (word_at (unat w) (unat (w div 8)) data (unat i)) [0..<words_of (unat (w div 8)) (unat n)])) =
      Some (Some (pack_words (unat w) (unat (w div 8)) (unat n) data))"
proof (induction "unat n - unat i" arbitrary: i)
  case 0
  then have "unat i = unat n" by simp
  then show ?case using u16_index_less [OF assms(2)] by (subst pack_loop.simps) (simp add: pack_words_def)
next
  case (Suc m)
  let ?wl = "unat (w div 8)"
  let ?k = "unat i div ?wl"
  have i: "unat i < unat n" using Suc.hyps(2) by simp
  then have s: "unat (i + 1) = Suc (unat i)" using assms(2) by (rule unat_Suc_u8)
  have "0 < ?wl" using assms(1) by (rule word_len_pos)
  then have k: "?k < words_of ?wl (unat n)" using i by (rule word_in_range)
  let ?t = "map (word_at (unat w) ?wl data (unat i)) [0..<words_of ?wl (unat n)]"
  have upd: "?t[?k := ?t ! ?k OR push_bit (shift_of (unat w) ?wl (unat i)) (ucast (data ! unat i))] =
      map (word_at (unat w) ?wl data (unat (i + 1))) [0..<words_of ?wl (unat n)]"
    by (rule nth_equalityI) (auto simp: s nth_list_update)
  have "pack_loop w (w div 8) data n (i + 1) (Some (map (word_at (unat w) ?wl data (unat (i + 1))) [0..<words_of ?wl (unat n)])) =
      Some (Some (pack_words (unat w) ?wl (unat n) data))"
    by (rule Suc.hyps(1)) (use Suc.hyps(2) s i in simp_all)
  then show ?case
    using i k u16_index_less [OF assms(2), of i] assms(3) upd byte_shift_ok [OF assms(1)]
    by (subst pack_loop.simps) simp
qed

lemma unpack_loop_bytes:
  assumes "width_ok w" "unat n < 256" "unat n \<le> length data" "length vs = words_of (unat (w div 8)) (unat n)"
  shows "unat i \<le> unat n \<Longrightarrow>
    unpack_loop w (w div 8) (Some vs) n i (take (unat i) (unpack_bytes (unat w) (unat (w div 8)) (unat n) vs) @ drop (unat i) data) =
      Some (unpack_bytes (unat w) (unat (w div 8)) (unat n) vs @ drop (unat n) data)"
proof (induction "unat n - unat i" arbitrary: i)
  case 0
  then have "unat i = unat n" by simp
  moreover have "length (unpack_bytes (unat w) (unat (w div 8)) (unat n) vs) = unat n" by (simp add: unpack_bytes_def)
  ultimately show ?case using u16_index_less [OF assms(2)] by (subst unpack_loop.simps) simp
next
  case (Suc m)
  let ?wl = "unat (w div 8)"
  let ?u = "unpack_bytes (unat w) ?wl (unat n) vs"
  have i: "unat i < unat n" using Suc.hyps(2) by simp
  then have s: "unat (i + 1) = Suc (unat i)" using assms(2) by (rule unat_Suc_u8)
  have "0 < ?wl" using assms(1) by (rule word_len_pos)
  then have k: "unat i div ?wl < length vs" using i assms(4) by (simp add: word_in_range)
  have u: "length ?u = unat n" by (simp add: unpack_bytes_def)
  have upd: "(take (unat i) ?u @ drop (unat i) data)[unat i := ucast (drop_bit (shift_of (unat w) ?wl (unat i)) (vs ! (unat i div ?wl)))] =
      take (unat (i + 1)) ?u @ drop (unat (i + 1)) data"
    using i u assms(3) by (simp add: s take_Suc_conv_app_nth list_update_append Cons_nth_drop_Suc [symmetric] unpack_bytes_def)
  have "unpack_loop w (w div 8) (Some vs) n (i + 1) (take (unat (i + 1)) ?u @ drop (unat (i + 1)) data) = Some (?u @ drop (unat n) data)"
    by (rule Suc.hyps(1)) (use Suc.hyps(2) s i in simp_all)
  then show ?case
    using i k u16_index_less [OF assms(2), of i] assms(3) upd byte_shift_ok [OF assms(1)] u
    by (subst unpack_loop.simps) simp
qed


text \<open>Packing and unpacking: the bytes of a word do not overlap.\<close>

lemma bit_word_at:
  "bit (word_at width wl data n k) b \<longleftrightarrow>
   (\<exists>j < n. j div wl = k \<and> shift_of width wl j \<le> b \<and> b < 32 \<and> bit (data ! j) (b - shift_of width wl j))"
  by (induction n) (auto simp: bit_simps less_Suc_eq dest: bit_imp_le_length)

lemma mod_bits_le: "0 < wl \<Longrightarrow> wl * 8 \<le> width \<Longrightarrow> (i mod wl + 1) * 8 \<le> (width :: nat)"
proof -
  assume "0 < wl" "wl * 8 \<le> width"
  then have "i mod wl + 1 \<le> wl" by (simp add: Suc_leI)
  then have "(i mod wl + 1) * 8 \<le> wl * 8" by (rule mult_le_mono1)
  then show ?thesis using \<open>wl * 8 \<le> width\<close> by (rule order_trans)
qed

lemma shift_of_inj:
  assumes "0 < wl" "wl * 8 \<le> width" "i div wl = j div wl" "shift_of width wl i \<le> m + shift_of width wl j" "m < 8"
    "m + shift_of width wl j - shift_of width wl i < 8"
  shows "i = j"
proof -
  have "(i mod wl + 1) * 8 \<le> width" "(j mod wl + 1) * 8 \<le> width"
    using assms(1,2) by (rule mod_bits_le)+
  then have "i mod wl = j mod wl" using assms(4-6) by (simp add: shift_of_def)
  then show ?thesis using assms(3) by (metis div_mult_mod_eq)
qed

lemma unpack_pack:
  assumes "0 < wl" "wl * 8 \<le> width" "width \<le> 32" "n \<le> length data"
  shows "unpack_bytes width wl n (pack_words width wl n data) = take n data"
proof (rule nth_equalityI)
  fix j
  assume "j < length (unpack_bytes width wl n (pack_words width wl n data))"
  then have j: "j < n" by (simp add: unpack_bytes_def)
  have fits: "m + shift_of width wl j < 32" if "m < 8" for m using that assms(3) by (simp add: shift_of_def)
  have bits: "bit (ucast (drop_bit (shift_of width wl j) (word_at width wl data n (j div wl))) :: u8) m = bit (data ! j) m" if "m < 8" for m
  proof -
    let ?s = "shift_of width wl j"
    have "bit (ucast (drop_bit ?s (word_at width wl data n (j div wl))) :: u8) m \<longleftrightarrow>
        (\<exists>i < n. i div wl = j div wl \<and> shift_of width wl i \<le> m + ?s \<and> bit (data ! i) (m + ?s - shift_of width wl i))"
      using that fits [OF that] by (auto simp: bit_simps bit_word_at add.commute)
    moreover have "i = j" if "i div wl = j div wl" "shift_of width wl i \<le> m + ?s" "bit (data ! i) (m + ?s - shift_of width wl i)" for i
      using shift_of_inj [OF assms(1,2) that(1,2) \<open>m < 8\<close>] bit_imp_le_length [OF that(3)] by simp
    ultimately show ?thesis using j by (metis add_diff_cancel_right' le_add2)
  qed
  have "(ucast (drop_bit (shift_of width wl j) (word_at width wl data n (j div wl))) :: u8) = data ! j"
    using bits by (intro bit_word_eqI) simp
  then show "unpack_bytes width wl n (pack_words width wl n data) ! j = take n data ! j"
    using j word_in_range [OF assms(1) j] by (simp add: unpack_bytes_def pack_words_def)
qed (use assms(4) in \<open>simp add: unpack_bytes_def\<close>)

section \<open>A transfer\<close>

lemma words_of_le: "0 < wl \<Longrightarrow> words_of wl n \<le> n"
proof -
  assume "0 < wl"
  then have "n div wl \<le> n div wl * wl" by simp
  then have "n div wl + n mod wl \<le> n" using div_mult_mod_eq [of n wl] by linarith
  moreover have "words_of wl n \<le> n div wl + n mod wl" unfolding words_of_def by (simp add: Suc_leI)
  ultimately show ?thesis by simp
qed

lemma unat_u16_u8: "unat (n :: u16) < 256 \<Longrightarrow> unat (ucast n :: u8) = unat n"
  unfolding unsigned_ucast_eq by (rule take_bit_nat_eq_self) simp

lemma unat_u8_u32: "unat (ucast (n :: u8) :: u32) = unat n"
  unfolding unsigned_ucast_eq by (rule take_bit_nat_eq_self) (rule less_trans [OF unat_u8_less], simp)

lemma words_number_of:
  assumes "width_ok (data_width d)" "unat n < 256"
  shows "spi_get_words_number d (ucast (n :: u16)) = Some (of_nat (words_of (unat (data_width d div 8)) (unat n)))"
proof -
  let ?wl = "data_width d div 8"
  have wl: "0 < unat ?wl" using assms(1) by (rule word_len_pos)
  note n = unat_u16_u8 [OF assms(2)]
  have "(ucast n :: u8) div ?wl = of_nat (unat ((ucast n :: u8) div ?wl))" by simp
  then have "(ucast n :: u8) div ?wl = of_nat (unat n div unat ?wl)" by (simp only: unat_div n)
  moreover have "unat ((ucast n :: u8) mod ?wl) = unat n mod unat ?wl" by (simp only: unat_mod n)
  then have "(ucast n :: u8) mod ?wl \<noteq> 0 \<longleftrightarrow> unat n mod unat ?wl \<noteq> 0" by (metis unat_eq_zero)
  moreover have "?wl \<noteq> 0" using wl by auto
  ultimately show ?thesis by (simp add: spi_get_words_number_def words_of_def Let_def)
qed


lemma upd_eng_simps [simp]:
  "spi (upd_eng f st) = (spi st)\<lparr>extra := f (eng st)\<rparr>" "sync_id (upd_eng f st) = sync_id st"
  "cmd_mem (upd_eng f st) = cmd_mem st" "dma_mem (upd_eng f st) = dma_mem st" "engine (upd_eng f st) = engine st"
  by (simp_all add: upd_eng_def)

text \<open>The commands of spi_engine_write_and_read, and what they are translated to.\<close>

definition transfer_cmds :: "u16 \<Rightarrow> u32 list" where
  "transfer_cmds n = [CS_HIGH, CS_LOW, WRITE_READ (ucast n), CS_HIGH]"

definition transfer_writes :: "eng_spi_desc \<Rightarrow> u8 \<Rightarrow> u8 \<Rightarrow> u32 list" where
  "transfer_writes d sid k =
     [SPI_ENGINE_CMD_CONFIG SPI_ENGINE_CMD_REG_CONFIG (spi_mode d),
      SPI_ENGINE_CMD_CONFIG SPI_ENGINE_CMD_DATA_TRANSFER_LEN (ucast (data_width (extra d))),
      SPI_ENGINE_CMD_CONFIG SPI_ENGINE_CMD_REG_CLK_DIV (clk_div (extra d)),
      SPI_ENGINE_CMD_ASSERT (ucast (cs_delay (extra d))) 0xFF,
      SPI_ENGINE_CMD_ASSERT (ucast (cs_delay (extra d))) (cs_lines d),
      SPI_ENGINE_CMD_TRANSFER 3 (ucast k - 1),
      SPI_ENGINE_CMD_ASSERT (ucast (cs_delay (extra d))) 0xFF,
      SPI_ENGINE_CMD_SYNC (ucast sid)]"

definition settings_ok :: "eng_spi_desc \<Rightarrow> bool" where
  "settings_ok d \<longleftrightarrow> width_ok (data_width (extra d)) \<and> clk_div (extra d) < 256 \<and> spi_mode d < 256 \<and> unat (chip_select d) < 32"

text \<open>
  Settings the translation of a message passes on as they are. A clock divider from 256 to 511
  is among them: its command is that of another register, see the last section but one.
\<close>

definition settings_wide :: "eng_spi_desc \<Rightarrow> bool" where
  "settings_wide d \<longleftrightarrow> width_ok (data_width (extra d)) \<and> clk_div (extra d) < 512 \<and> spi_mode d < 256 \<and> unat (chip_select d) < 32"

lemma settings_wideI: "settings_ok d \<Longrightarrow> settings_wide d"
  by (auto simp: settings_ok_def settings_wide_def intro: less_trans)

lemma slow_clock_command:
  assumes "m < 256"
  shows "SPI_ENGINE_CMD_CONFIG SPI_ENGINE_CMD_REG_CLK_DIV (256 + m) = SPI_ENGINE_CMD_CONFIG SPI_ENGINE_CMD_REG_CONFIG m"
proof -
  have "bit (256 :: u32) n \<Longrightarrow> n = 8" for n
    using bit_exp_iff [of 8 n, where ?'a = "32 word"] by simp
  then have "256 + m = (256 OR m :: u32)"
    by (intro disjunctive_add) (use small_bits [OF assms] in force)
  then show ?thesis by (simp add: SPI_ENGINE_CMD_CONFIG_def SPI_ENGINE_CMD_def or.assoc)
qed

lemma emitted_clk_div:
  assumes "v < 512"
  shows "emitted d (SPI_ENGINE_CMD_CONFIG SPI_ENGINE_CMD_REG_CLK_DIV v) = Some ([SPI_ENGINE_CMD_CONFIG SPI_ENGINE_CMD_REG_CLK_DIV v], 0)"
proof (cases "v < 256")
  case False
  then have "unat (v - 256) = unat v - 256" by (simp add: unat_sub not_less)
  then have m: "v - 256 < 256" using assms by (simp add: word_less_nat_alt)
  then show ?thesis using slow_clock_command [OF m] emitted_config [OF m] by simp
qed (rule emitted_config)

lemma emitted_message:
  assumes "settings_wide d" "unat n < 256"
  defines "k \<equiv> of_nat (words_of (unat (data_width (extra d) div 8)) (unat n))"
  shows "emitted_all d (full_message d sid (transfer_cmds n)) = Some (transfer_writes d sid k, k)"
proof -
  have "unat (ucast (ucast n :: u8) :: u32) = unat (ucast n :: u8)" by (rule unat_u8_u32)
  then have "unat (ucast (ucast n :: u8) :: u32) = unat n" by (simp only: unat_u16_u8 [OF assms(2)])
  moreover have "unat (ucast n :: u32) = unat n"
    unfolding unsigned_ucast_eq using assms(2) by (simp add: take_bit_nat_eq_self)
  ultimately have n: "(ucast (ucast n :: u8) :: u32) = ucast n" by (simp add: word_unat_eq_iff)
  show ?thesis
    using assms(1) emitted_transfer [OF words_number_of [OF _ assms(2)], of d] n
    by (simp add: settings_wide_def full_message_def transfer_cmds_def transfer_writes_def emitted_config emitted_clk_div [simplified] ucast_u8_small
        emitted_cs_high emitted_cs_low emitted_sync k_def)
qed


lemma transfer_queue:
  assumes "queue_rep None h []" "never_oom h"
  shows "\<exists>a h0 h1 h2 h3. spi_engine_queue_new_cmd None CS_HIGH h = (SUCCESS, Some a, h0)
    \<and> spi_engine_queue_add_cmd (Some a) CS_LOW h0 = Some h1 \<and> spi_engine_queue_add_cmd (Some a) (WRITE_READ (ucast n)) h1 = Some h2
    \<and> spi_engine_queue_add_cmd (Some a) CS_HIGH h2 = Some h3 \<and> queue_rep (Some a) h3 (transfer_cmds n) \<and> never_oom h3"
proof -
  let ?a = "brk h"
  let ?h0 = "h\<lparr>cells := (cells h)(?a \<mapsto> \<lparr>q_cmd = CS_HIGH, q_next = None\<rparr>), brk := Suc ?a\<rparr>"
  have q0: "queue_rep (Some ?a) ?h0 [CS_HIGH]" "never_oom ?h0"
    using assms by (auto simp: queue_rep_empty queue_rep_def queue_cells_def heap_wf_def intro!: exI [of _ "[(?a, CS_HIGH)]"])
  obtain h1 where h1: "spi_engine_queue_add_cmd (Some ?a) CS_LOW ?h0 = Some h1" "queue_rep (Some ?a) h1 ([CS_HIGH] @ [CS_LOW])" "never_oom h1"
    using add_cmd_rep [OF q0(1)] q0(2) by (metis list.distinct(1))
  obtain h2 where h2: "spi_engine_queue_add_cmd (Some ?a) (WRITE_READ (ucast n)) h1 = Some h2"
      "queue_rep (Some ?a) h2 (([CS_HIGH] @ [CS_LOW]) @ [WRITE_READ (ucast n)])" "never_oom h2"
    using add_cmd_rep [OF h1(2)] h1(3) by (metis append_is_Nil_conv list.distinct(1))
  obtain h3 where h3: "spi_engine_queue_add_cmd (Some ?a) CS_HIGH h2 = Some h3"
      "queue_rep (Some ?a) h3 ((([CS_HIGH] @ [CS_LOW]) @ [WRITE_READ (ucast n)]) @ [CS_HIGH])" "never_oom h3"
    using add_cmd_rep [OF h2(2)] h2(3) by (metis append_is_Nil_conv list.distinct(1))
  have "spi_engine_queue_new_cmd None CS_HIGH h = (SUCCESS, Some ?a, ?h0)" using assms(2) by (simp add: new_cmd_ok)
  then show ?thesis using h1(1) h2(1) h3 by (auto simp: transfer_cmds_def)
qed

lemma write_and_read_exact:
  assumes "settings_wide (spi st)" "unat n < 256" "unat n \<le> length data" "queue_rep None (cmd_mem st) []" "never_oom (cmd_mem st)"
    and "base_addr = spi_engine_baseaddr (eng st)" "wl = unat (data_width (eng st) div 8)"
    and "k = words_of wl (unat n)" "ws = pack_words (unat (data_width (eng st))) wl (unat n) data"
    and "polls bus (base_addr + 0xC0) (ucast (sync_id st))
      (writes bus base_addr ((0x100, 0) # map (Pair 0xE0) (transfer_writes (spi st) (sync_id st) (of_nat k)) @ map (Pair 0xE4) ws) (engine st)) s"
    and "reads bus (base_addr + 0xE8) k s = (vs, s')"
  shows "\<exists>st'. spi_engine_write_and_read bus (True, True) data n st =
      Some (SUCCESS, unpack_bytes (unat (data_width (eng st))) wl (unat n) vs @ drop (unat n) data, st')
    \<and> engine st' = s' \<and> sync_id st' = sync_id st + 1 \<and> cells (cmd_mem st') = Map.empty"
proof -
  let ?d = "eng st"
  let ?off = "upd_eng (\<lambda>d. d\<lparr>offload_config := OFFLOAD_DISABLED\<rparr>) st"
  define st0 where "st0 = emit bus [(0x100, 0)] ?off"
  have st0: "spi st0 = (spi st)\<lparr>extra := ?d\<lparr>offload_config := 0\<rparr>\<rparr>" "cmd_mem st0 = cmd_mem st" "sync_id st0 = sync_id st"
      "engine st0 = writes bus base_addr [(0x100, 0)] (engine st)"
    using assms(6) by (simp_all add: st0_def upd_eng_def)
  have fold0: "emit bus [(0x100, 0)] (upd_eng (offload_config_update (\<lambda>_. 0)) st) = st0" by (simp add: st0_def)
  have wok: "width_ok (data_width ?d)" using assms(1) by (simp add: settings_wide_def)
  have wl: "0 < wl" using assms(7) word_len_pos [OF wok] by simp
  have k: "unat (of_nat k :: u8) = k" "k < 256"
    using words_of_le [OF wl, of "unat n"] assms(2,8) by (simp_all add: unat_of_nat)
  have num: "spi_get_words_number (eng st0) (ucast n) = Some (of_nat k)"
    using words_number_of [OF wok assms(2)] assms(7,8) st0(1) by simp
  obtain a h0 h1 h2 h3 where new: "spi_engine_queue_new_cmd None CS_HIGH (cmd_mem st0) = (SUCCESS, Some a, h0)"
      and add: "spi_engine_queue_add_cmd (Some a) CS_LOW h0 = Some h1"
        "spi_engine_queue_add_cmd (Some a) (WRITE_READ (ucast n)) h1 = Some h2" "spi_engine_queue_add_cmd (Some a) CS_HIGH h2 = Some h3"
      and q: "queue_rep (Some a) h3 (transfer_cmds n)" "never_oom h3"
    using transfer_queue [of "cmd_mem st0" n] assms(4,5) st0(2) by auto
  define st3 where "st3 = st0\<lparr>cmd_mem := h3\<rparr>"
  let ?msg = "\<lparr>tx_buf = Some ws, rx_buf = Some (replicate k 0), msg_length = ucast (of_nat k :: u8), cmds = Some a\<rparr>"
  have zero: "replicate k 0 = map (word_at (unat (data_width ?d)) wl data (unat 0)) [0..<k]"
    by (rule nth_equalityI) simp_all
  have pack: "pack_loop (data_width ?d) (data_width ?d div 8) data n 0 (Some (replicate k 0)) = Some (Some ws)"
    using pack_loop_words [OF wok assms(2,3), of 0] assms(7-9) zero by simp
  have em: "emitted_all (spi st3) (full_message (spi st3) (sync_id st3) (transfer_cmds n)) =
      Some (transfer_writes (spi st) (sync_id st) (of_nat k), of_nat k)"
    using emitted_message [OF assms(1,2), of "sync_id st"] assms(7,8) by (simp add: st3_def st0 full_message_def)
  have "\<exists>h. spi_engine_transfer_message bus ?msg st3 = Some (SUCCESS, ?msg\<lparr>cmds := None, rx_buf := Some vs\<rparr>,
      (count_words (of_nat k) st3)\<lparr>cmd_mem := h, sync_id := sync_id st3 + 1, engine := s'\<rparr>) \<and> queue_rep None h [] \<and> never_oom h"
  proof (rule transfer_message_fifo [where cs = "transfer_cmds n" and n = k and s = s and vs = vs
        and ws = "transfer_writes (spi st) (sync_id st) (of_nat k)" and t = ws and r = "replicate k 0"])
    show "queue_rep (cmds ?msg) (cmd_mem st3) (transfer_cmds n)" using q(1) by (simp add: st3_def)
    show "unat (msg_length ?msg) = k" using k by (simp add: unat_u8_u32)
    show "polls bus (spi_engine_baseaddr (eng st3) + 0xC0) (ucast (sync_id st3))
        (writes bus (spi_engine_baseaddr (eng st3)) (map (Pair 0xE0) (transfer_writes (spi st) (sync_id st) (of_nat k)) @ map (Pair 0xE4) ws) (engine st3)) s"
      using assms(6,10) by (simp add: st3_def st0)
  qed (use q(2) em assms(6-9,11) in \<open>simp_all add: st3_def st0 pack_words_def\<close>)
  then obtain h where h: "spi_engine_transfer_message bus ?msg st3 = Some (SUCCESS, ?msg\<lparr>cmds := None, rx_buf := Some vs\<rparr>,
      (count_words (of_nat k) st3)\<lparr>cmd_mem := h, sync_id := sync_id st3 + 1, engine := s'\<rparr>)" "queue_rep None h []"
    by blast
  have vs: "length vs = words_of (unat (data_width ?d div 8)) (unat n)"
    using assms(7,8,11) length_reads [of bus "base_addr + 0xE8" k s] by simp
  have unpack: "unpack_loop (data_width ?d) (data_width ?d div 8) (Some vs) n 0 data =
      Some (unpack_bytes (unat (data_width ?d)) wl (unat n) vs @ drop (unat n) data)"
    using unpack_loop_bytes [OF wok assms(2,3) vs, of 0] assms(7) by simp
  obtain h' where h': "spi_engine_queue_free None h = Some (SUCCESS, None, h')" "cells h' = Map.empty"
    using queue_free_rep [OF h(2)] by (auto simp: queue_rep_empty)
  let ?st' = "(count_words (of_nat k) st3)\<lparr>cmd_mem := h', sync_id := sync_id st3 + 1, engine := s'\<rparr>"
  have "spi_engine_write_and_read bus (True, True) data n st =
      Some (SUCCESS, unpack_bytes (unat (data_width ?d)) wl (unat n) vs @ drop (unat n) data, ?st')"
    unfolding spi_engine_write_and_read_def
    using num new add pack h(1) unpack h'(1) k
    by (simp add: fold0 st0 add_cmd_def spi_get_word_lenght_def st3_def Let_def)
  then show ?thesis using h'(2) st0(3) by (intro exI [of _ ?st']) (simp add: st3_def)
qed


text \<open>
  C12. A transfer of n bytes, below 256: the driver turns the offload module off, configures the
  mode, the word length and the clock divider, drops the chip select around one transfer of
  all the words, raises it and asks for the sync id; it writes the packed words, waits until
  the core reports that id, reads as many words as it wrote and returns their bytes in place of
  the data. Nothing stays allocated, and the next transfer uses the next sync id.
\<close>

theorem spi_engine_transfer_exact:
  assumes "settings_ok (spi st)" "unat n < 256" "unat n \<le> length data" "queue_rep None (cmd_mem st) []" "never_oom (cmd_mem st)"
    and "base_addr = spi_engine_baseaddr (eng st)" "wl = unat (data_width (eng st) div 8)"
    and "k = words_of wl (unat n)" "ws = pack_words (unat (data_width (eng st))) wl (unat n) data"
    and "polls bus (base_addr + 0xC0) (ucast (sync_id st))
      (writes bus base_addr ((0x100, 0) # map (Pair 0xE0) (transfer_writes (spi st) (sync_id st) (of_nat k)) @ map (Pair 0xE4) ws) (engine st)) s"
    and "reads bus (base_addr + 0xE8) k s = (vs, s')"
  shows "\<exists>st'. spi_engine_write_and_read bus (True, True) data n st =
      Some (SUCCESS, unpack_bytes (unat (data_width (eng st))) wl (unat n) vs @ drop (unat n) data, st')
    \<and> engine st' = s' \<and> sync_id st' = sync_id st + 1 \<and> cells (cmd_mem st') = Map.empty"
  using settings_wideI [OF assms(1)] assms(2-) by (rule write_and_read_exact)

section \<open>A core that sends back what it receives\<close>

text \<open>
  The core at an address, with its data lines connected: the words written to the data fifo
  can be read from it. The sync id of the last SYNC command is reported after \<open>latency\<close> polls,
  and the one before it until then.
\<close>

record loop_core =
  sdo :: "u32 list"
  pending_id :: u32
  done_id :: u32
  lag :: nat
  latency :: nat

definition loop_bus :: "u32 \<Rightarrow> loop_core axi_bus" where
  "loop_bus at = \<lparr>Xil_In32 = (\<lambda>a s.
       if a = at + 0xE8 then (case sdo s of [] \<Rightarrow> (0, s) | v # vs \<Rightarrow> (v, s\<lparr>sdo := vs\<rparr>))
       else if a = at + 0xC0 then (if lag s = 0 then (pending_id s, s\<lparr>done_id := pending_id s\<rparr>) else (done_id s, s\<lparr>lag := lag s - 1\<rparr>))
       else (0, s)),
     Xil_Out32 = (\<lambda>a v s.
       if a = at + 0xE4 then s\<lparr>sdo := sdo s @ [v]\<rparr>
       else if a = at + 0xE0 \<and> drop_bit 8 v = 0x30 then s\<lparr>pending_id := v AND 0xFF, lag := latency s\<rparr>
       else s)\<rparr>"

lemma loop_polls: "pending_id s = v \<Longrightarrow> \<exists>s'. polls (loop_bus at) (at + 0xC0) v s s' \<and> sdo s' = sdo s"
proof (induction "lag s" arbitrary: s)
  case 0
  then have "Xil_In32 (loop_bus at) (at + 0xC0) s = (v, s\<lparr>done_id := v\<rparr>)" by (simp add: loop_bus_def)
  then have "polls (loop_bus at) (at + 0xC0) v s (s\<lparr>done_id := v\<rparr>)" by (rule polls.seen)
  then show ?case by (intro exI [of _ "s\<lparr>done_id := v\<rparr>"]) simp
next
  case (Suc n)
  let ?s = "s\<lparr>lag := lag s - 1\<rparr>"
  have r: "Xil_In32 (loop_bus at) (at + 0xC0) s = (done_id s, ?s)" using Suc.hyps(2) by (simp add: loop_bus_def)
  have "n = lag ?s" using Suc.hyps(2) by (cases "lag s") simp_all
  obtain s' where "polls (loop_bus at) (at + 0xC0) v ?s s'" "sdo s' = sdo ?s"
    using Suc.hyps(1) [of ?s] Suc.prems \<open>n = lag ?s\<close> by auto
  then show ?case using r polls.seen [of "loop_bus at" "at + 0xC0" s v ?s] polls.again [OF r, of v s']
    by (cases "done_id s = v") auto
qed

lemma loop_reads: "reads (loop_bus at) (at + 0xE8) k s = (take k (sdo s) @ replicate (k - length (sdo s)) 0, s\<lparr>sdo := drop k (sdo s)\<rparr>)"
  by (induction k arbitrary: s) (auto simp: loop_bus_def split: list.split)

lemma loop_writes_cmd: "sdo (writes (loop_bus at) at (map (Pair 0xE0) cs) s) = sdo s"
  by (induction cs arbitrary: s) (simp_all add: loop_bus_def)

lemma loop_writes_data:
  "writes (loop_bus at) at (map (Pair 0xE4) ws) s = s\<lparr>sdo := sdo s @ ws\<rparr>"
  by (induction ws arbitrary: s) (simp_all add: loop_bus_def)

lemma sync_cmd_fields:
  "drop_bit 8 (SPI_ENGINE_CMD_SYNC (ucast (i :: u8))) = 0x30" "SPI_ENGINE_CMD_SYNC (ucast i) AND 0xFF = ucast i"
proof -
  show "SPI_ENGINE_CMD_SYNC (ucast i) AND 0xFF = ucast i"
    using cmd_fields(3) [OF ucast_u8_small [of i], of 3 0] by (simp add: SPI_ENGINE_CMD_SYNC_def SPI_ENGINE_CMD_def)
  have "drop_bit 8 (ucast i :: u32) = 0"
    by (rule bit_word_eqI) (auto simp: bit_simps dest: bit_imp_le_length)
  then show "drop_bit 8 (SPI_ENGINE_CMD_SYNC (ucast i)) = 0x30"
    by (simp add: SPI_ENGINE_CMD_SYNC_def SPI_ENGINE_CMD_def drop_bit_or)
qed

lemma loop_after_message:
  assumes "s1 = writes (loop_bus at) at ((0x100, 0) # map (Pair 0xE0) (cs @ [SPI_ENGINE_CMD_SYNC (ucast (i :: u8))]) @ map (Pair 0xE4) ws) s"
  shows "sdo s1 = sdo s @ ws \<and> pending_id s1 = ucast i"
proof -
  let ?s0 = "writes (loop_bus at) at (map (Pair 0xE0) cs) (Xil_Out32 (loop_bus at) (at + 0x100) 0 s)"
  have "sdo ?s0 = sdo s" by (simp add: loop_writes_cmd) (simp add: loop_bus_def)
  moreover have "Xil_Out32 (loop_bus at) (at + 0xE0) (SPI_ENGINE_CMD_SYNC (ucast i)) s' = s'\<lparr>pending_id := ucast i, lag := latency s'\<rparr>" for s'
    by (simp add: loop_bus_def sync_cmd_fields)
  ultimately show ?thesis using assms by (simp add: writes_append loop_writes_data)
qed


lemma loop_transfer:
  assumes "settings_wide (spi st)" "unat n < 256" "unat n \<le> length data" "queue_rep None (cmd_mem st) []" "never_oom (cmd_mem st)"
    and "unat (data_width (eng st)) \<le> 32" "sdo (engine st) = []"
  shows "\<exists>s s'. let at = spi_engine_baseaddr (eng st); w = unat (data_width (eng st)); wl = unat (data_width (eng st) div 8);
      k = words_of wl (unat n); ws = pack_words w wl (unat n) data in
      polls (loop_bus at) (at + 0xC0) (ucast (sync_id st))
        (writes (loop_bus at) at ((0x100, 0) # map (Pair 0xE0) (transfer_writes (spi st) (sync_id st) (of_nat k)) @ map (Pair 0xE4) ws) (engine st)) s
      \<and> reads (loop_bus at) (at + 0xE8) k s = (ws, s') \<and> sdo s' = [] \<and> unpack_bytes w wl (unat n) ws = take (unat n) data"
proof -
  let ?at = "spi_engine_baseaddr (eng st)"
  let ?w = "unat (data_width (eng st))"
  let ?wl = "unat (data_width (eng st) div 8)"
  let ?k = "words_of ?wl (unat n)"
  let ?ws = "pack_words ?w ?wl (unat n) data"
  define s1 where "s1 = writes (loop_bus ?at) ?at ((0x100, 0) # map (Pair 0xE0) (transfer_writes (spi st) (sync_id st) (of_nat ?k)) @ map (Pair 0xE4) ?ws) (engine st)"
  have "sdo s1 = ?ws \<and> pending_id s1 = ucast (sync_id st)"
    using loop_after_message [where cs = "butlast (transfer_writes (spi st) (sync_id st) (of_nat ?k))" and i = "sync_id st" and ws = ?ws
        and ?s1.0 = s1 and at = ?at and s = "engine st"] assms(7) by (simp add: s1_def transfer_writes_def)
  then obtain s where s: "polls (loop_bus ?at) (?at + 0xC0) (ucast (sync_id st)) s1 s" "sdo s = ?ws"
    using loop_polls [of s1 "ucast (sync_id st)" ?at] by auto
  have "length ?ws = ?k" by (simp add: pack_words_def)
  then have "reads (loop_bus ?at) (?at + 0xE8) ?k s = (?ws, s\<lparr>sdo := []\<rparr>)" using s(2) by (simp add: loop_reads)
  moreover have "?wl * 8 \<le> ?w" by (simp add: unat_div)
  then have "unpack_bytes ?w ?wl (unat n) ?ws = take (unat n) data"
    using assms(1,3,6) word_len_pos by (intro unpack_pack) (simp_all add: settings_wide_def)
  ultimately show ?thesis
    using s(1) by (intro exI [of _ s] exI [of _ "s\<lparr>sdo := []\<rparr>"]) (simp add: s1_def Let_def)
qed

text \<open>
  C11. Through a core that sends back what it receives, after any number of polls, a transfer
  of up to 255 bytes returns SUCCESS and gives back the data it was given, for every word
  length of 8 to 32 bits, also when the last word is not full; the core has no word left over.
\<close>

theorem spi_engine_loopback:
  assumes "settings_ok (spi st)" "unat n < 256" "unat n \<le> length data" "queue_rep None (cmd_mem st) []" "never_oom (cmd_mem st)"
    and "unat (data_width (eng st)) \<le> 32" "sdo (engine st) = []"
  shows "\<exists>st'. spi_engine_write_and_read (loop_bus (spi_engine_baseaddr (eng st))) (True, True) data n st = Some (SUCCESS, data, st')
    \<and> sdo (engine st') = [] \<and> sync_id st' = sync_id st + 1 \<and> cells (cmd_mem st') = Map.empty"
proof -
  obtain s s' where s: "let at = spi_engine_baseaddr (eng st); w = unat (data_width (eng st)); wl = unat (data_width (eng st) div 8);
      k = words_of wl (unat n); ws = pack_words w wl (unat n) data in
      polls (loop_bus at) (at + 0xC0) (ucast (sync_id st))
        (writes (loop_bus at) at ((0x100, 0) # map (Pair 0xE0) (transfer_writes (spi st) (sync_id st) (of_nat k)) @ map (Pair 0xE4) ws) (engine st)) s
      \<and> reads (loop_bus at) (at + 0xE8) k s = (ws, s') \<and> sdo s' = [] \<and> unpack_bytes w wl (unat n) ws = take (unat n) data"
    using loop_transfer [OF settings_wideI [OF assms(1)] assms(2-)] by blast
  note p = s [unfolded Let_def]
  show ?thesis
    using write_and_read_exact [OF settings_wideI [OF assms(1)] assms(2-5) refl refl refl refl conjunct1 [OF p] conjunct1 [OF conjunct2 [OF p]]] p by auto
qed

definition demo_engine :: spi_engine_desc where
  "demo_engine = \<lparr>ref_clk_hz = 100000000, eng_type = SPI_ENGINE, offload_tx_dma = None, offload_rx_dma = None, offload_config = 0,
     offload_tx_len = 0, offload_rx_len = 0, spi_engine_baseaddr = 0x44a00000, rx_dma_baseaddr = 0, tx_dma_baseaddr = 0,
     cs_delay = 1, clk_div = 4, data_width = 16, max_data_width = 32\<rparr>"

definition demo_spi :: "'s \<Rightarrow> 's spi_sys" where
  "demo_spi s = \<lparr>spi = \<lparr>max_speed_hz = 10000000, chip_select = 0, spi_mode = 1, extra = demo_engine\<rparr>, sync_id = 1,
     cmd_mem = \<lparr>cells = Map.empty, brk = 0, oom = (\<lambda>n. False)\<rparr>, dma_mem = \<lparr>cells = Map.empty, brk = 0, oom = (\<lambda>n. False)\<rparr>, engine = s\<rparr>"

definition demo_core :: loop_core where
  "demo_core = \<lparr>sdo = [], pending_id = 0, done_id = 0, lag = 0, latency = 3\<rparr>"

lemma demo_spi_ok:
  "settings_ok (spi (demo_spi s))" "queue_rep None (cmd_mem (demo_spi s)) []" "never_oom (cmd_mem (demo_spi s))"
  "eng (demo_spi s) = demo_engine" "sync_id (demo_spi s) = 1" "engine (demo_spi s) = s"
  by (simp_all add: demo_spi_def demo_engine_def settings_ok_def width_ok_def queue_rep_empty heap_wf_def)

theorem spi_engine_loopback_witness:
  "\<exists>st'. spi_engine_write_and_read (loop_bus 0x44a00000) (True, True) [1, 2, 3, 4] 3 (demo_spi demo_core) = Some (SUCCESS, [1, 2, 3, 4], st')
    \<and> sync_id st' = 2"
  using spi_engine_loopback [OF demo_spi_ok(1), of 3 "[1, 2, 3, 4]" demo_core] demo_spi_ok(2-6) [of demo_core]
  by (auto simp: demo_engine_def demo_core_def)

theorem spi_engine_transfer_exact_witness:
  "\<exists>st' vs. spi_engine_write_and_read (loop_bus 0x44a00000) (True, True) [1, 2, 3, 4] 3 (demo_spi demo_core) =
     Some (SUCCESS, unpack_bytes 16 2 3 vs @ [4], st') \<and> sync_id st' = 2"
proof -
  have base: "spi_engine_baseaddr (eng (demo_spi demo_core)) = 0x44a00000" "data_width (eng (demo_spi demo_core)) = 16"
    by (simp_all add: demo_spi_ok(4) demo_engine_def)
  have small: "unat (3 :: u16) < 256" "unat (3 :: u16) \<le> length [1, 2, 3, 4 :: u8]" "sdo (engine (demo_spi demo_core)) = []"
    by (simp_all add: demo_spi_ok demo_core_def)
  obtain s s' where s: "let at = spi_engine_baseaddr (eng (demo_spi demo_core)); w = unat (data_width (eng (demo_spi demo_core)));
      wl = unat (data_width (eng (demo_spi demo_core)) div 8); k = words_of wl (unat (3 :: u16)); ws = pack_words w wl (unat (3 :: u16)) [1, 2, 3, 4] in
      polls (loop_bus at) (at + 0xC0) (ucast (sync_id (demo_spi demo_core)))
        (writes (loop_bus at) at ((0x100, 0) # map (Pair 0xE0) (transfer_writes (spi (demo_spi demo_core)) (sync_id (demo_spi demo_core)) (of_nat k)) @ map (Pair 0xE4) ws)
          (engine (demo_spi demo_core))) s
      \<and> reads (loop_bus at) (at + 0xE8) k s = (ws, s') \<and> sdo s' = [] \<and> unpack_bytes w wl (unat (3 :: u16)) ws = take (unat (3 :: u16)) [1, 2, 3, 4]"
    using loop_transfer [OF settings_wideI [OF demo_spi_ok(1)] small(1,2) demo_spi_ok(2,3) _ small(3)] by (auto simp: base)
  note p = s [unfolded Let_def]
  show ?thesis
    using spi_engine_transfer_exact [OF demo_spi_ok(1) small(1,2) demo_spi_ok(2,3) refl refl refl refl conjunct1 [OF p] conjunct1 [OF conjunct2 [OF p]]]
    by (auto simp: base demo_spi_ok(5))
qed

section \<open>Transfers the driver cannot do\<close>

lemma pack_loop_short:
  assumes "pack_loop width wl data n i tx = Some r"
  shows "unat n < 256"
proof (rule pack_loop.raw_induct [OF _ assms, where P = "\<lambda>width wl data (n :: u16) i tx r. unat n < 256"])
  fix pack width wl data i tx r and n :: u16
  assume IH: "\<And>a b c d e f g. pack a b c d e f = Some g \<Longrightarrow> unat d < 256"
    and run: "(if ucast i < n then do {
        t \<leftarrow> tx;
        let w = unat i div unat wl;
        guard (unat i < length data \<and> w < length t);
        s \<leftarrow> byte_shift width wl i;
        pack width wl data n (i + 1) (Some (t[w := t ! w OR push_bit s (ucast (data ! unat i))]))}
      else Some tx) = Some r"
  show "unat n < 256"
  proof (cases "ucast (i :: u8) < (n :: u16)")
    case True
    then show ?thesis using run IH by (auto simp: Let_def split: Option.bind_splits)
  next
    case False
    have "unat (ucast i :: u16) = unat i"
      unfolding unsigned_ucast_eq by (rule take_bit_nat_eq_self) (rule less_trans [OF unat_u8_less], simp)
    then have "unat n \<le> unat i" using False by (simp add: word_less_nat_alt not_less)
    then show ?thesis using unat_u8_less [of i] by linarith
  qed
qed

text \<open>
  C38. A transfer of 256 bytes or more never returns: the count of the packing loop has 8 bits, so
  that the loop runs for ever or, first, out of the buffer, which was allocated for the number
  of bytes modulo 256. The generic interface allows 65535 bytes.
\<close>

theorem spi_engine_long_transfer_undefined:
  assumes "256 \<le> unat n" "\<not> oom (cmd_mem st) (brk (cmd_mem st))"
  shows "spi_engine_write_and_read bus al data n st = None"
proof (rule ccontr)
  assume "\<not> ?thesis"
  then obtain r where "spi_engine_write_and_read bus al data n st = Some r" by blast
  then obtain a b c i t t' where "pack_loop a b c n i t = Some t'"
    using assms(2) by (auto simp: spi_engine_write_and_read_def new_cmd_ok Let_def split: Option.bind_splits)
  then show False using pack_loop_short assms(1) by fastforce
qed

theorem spi_engine_long_transfer_undefined_witness:
  "spi_engine_write_and_read (loop_bus 0x44a00000) (True, True) (replicate 300 0) 300 (demo_spi demo_core) = None"
  by (rule spi_engine_long_transfer_undefined) (simp_all add: demo_spi_def)


lemma slow_clock_writes:
  assumes "clk_div (extra d') = 256 + m" "m < 256" "spi_mode d' = spi_mode d" "chip_select d' = chip_select d"
    "data_width (extra d') = data_width (extra d)" "cs_delay (extra d') = cs_delay (extra d)"
  shows "transfer_writes d' sid k = (transfer_writes d sid k)[2 := SPI_ENGINE_CMD_CONFIG SPI_ENGINE_CMD_REG_CONFIG m]"
  using assms slow_clock_command [OF assms(2)] by (simp add: transfer_writes_def cs_lines_def)

text \<open>
  C39. A slow clock changes the SPI mode instead: the value of a command is not masked, so that
  the clock divider 256 + m, which set_speed computes for a speed below about a 514th of the
  reference clock, turns the command that sets the divider into one that sets the SPI mode to
  m. On the bus: spi_engine_set_speed succeeds, and the next transfer makes the register writes
  of an ordinary one but for the third command, which, after the mode itself, configures
  the mode m; the divider is not written at all, and SUCCESS is returned.
\<close>

theorem spi_engine_slow_clock_sets_mode:
  assumes "settings_ok (spi st)" "2 * speed \<noteq> 0" "ref_clk_hz (eng st) div (2 * speed) = 257 + m" "m < 256"
    and "unat n < 256" "unat n \<le> length data" "queue_rep None (cmd_mem st) []" "never_oom (cmd_mem st)"
    and "base_addr = spi_engine_baseaddr (eng st)" "wl = unat (data_width (eng st) div 8)"
    and "k = words_of wl (unat n)" "ws = pack_words (unat (data_width (eng st))) wl (unat n) data"
    and "polls bus (base_addr + 0xC0) (ucast (sync_id st))
      (writes bus base_addr ((0x100, 0) # map (Pair 0xE0) ((transfer_writes (spi st) (sync_id st) (of_nat k))
          [2 := SPI_ENGINE_CMD_CONFIG SPI_ENGINE_CMD_REG_CONFIG m]) @ map (Pair 0xE4) ws) (engine st)) s"
    and "reads bus (base_addr + 0xE8) k s = (vs, s')"
  shows "\<exists>st1 st2. spi_engine_set_speed speed st = Some st1 \<and> clk_div (eng st1) = 256 + m
    \<and> spi_engine_write_and_read bus (True, True) data n st1 =
        Some (SUCCESS, unpack_bytes (unat (data_width (eng st))) wl (unat n) vs @ drop (unat n) data, st2)
    \<and> engine st2 = s'"
proof -
  let ?st = "upd_eng (\<lambda>d. d\<lparr>clk_div := ref_clk_hz d div (2 * speed) - 1\<rparr>) st"
  have set: "spi_engine_set_speed speed st = Some ?st" using assms(2) by (simp add: spi_engine_set_speed_def)
  have div: "clk_div (eng ?st) = 256 + m" using assms(3) by simp
  have "unat (256 + m) = 256 + unat m" using assms(4) by (simp add: unat_word_ariths word_less_nat_alt)
  then have "256 + m < 512" using assms(4) by (simp add: word_less_nat_alt)
  then have wide: "settings_wide (spi ?st)" using assms(1) div by (simp add: settings_ok_def settings_wide_def)
  have tw: "transfer_writes (spi ?st) (sync_id ?st) (of_nat k) =
      (transfer_writes (spi st) (sync_id st) (of_nat k))[2 := SPI_ENGINE_CMD_CONFIG SPI_ENGINE_CMD_REG_CONFIG m]"
    using slow_clock_writes [of "spi ?st" m "spi st"] div assms(4) by simp
  obtain st2 where "spi_engine_write_and_read bus (True, True) data n ?st =
      Some (SUCCESS, unpack_bytes (unat (data_width (eng ?st))) wl (unat n) vs @ drop (unat n) data, st2)" "engine st2 = s'"
    using write_and_read_exact [OF wide assms(5,6), of base_addr wl k ws bus s vs s'] assms(7-) unfolding tw by auto
  then show ?thesis using set div by (intro exI [of _ ?st] exI [of _ st2]) simp
qed

text \<open>190 kHz from a reference of 100 MHz: the divider 262 configures the mode 6.\<close>

theorem spi_engine_slow_clock_sets_mode_witness:
  "\<exists>st1 st2 bs. spi_engine_set_speed 190000 (demo_spi demo_core) = Some st1 \<and> clk_div (eng st1) = 262
    \<and> spi_engine_write_and_read (loop_bus 0x44a00000) (True, True) [1, 2, 3, 4] 3 st1 = Some (SUCCESS, bs, st2)"
proof -
  let ?st = "demo_spi demo_core"
  let ?st1 = "upd_eng (\<lambda>d. d\<lparr>clk_div := 262\<rparr>) ?st"
  have wide: "settings_wide (spi ?st1)" using demo_spi_ok(1) [of demo_core] by (simp add: settings_ok_def settings_wide_def)
  have small: "unat (3 :: u16) < 256" "unat (3 :: u16) \<le> length [1, 2, 3, 4 :: u8]" by simp_all
  have mem: "queue_rep None (cmd_mem ?st1) []" "never_oom (cmd_mem ?st1)" "unat (data_width (eng ?st1)) \<le> 32" "sdo (engine ?st1) = []"
    using demo_spi_ok(2,3) [of demo_core] by (simp_all add: demo_spi_ok(4,6) demo_engine_def demo_core_def)
  have tw: "transfer_writes (spi ?st1) sid k =
      (transfer_writes (spi ?st) sid k)[2 := SPI_ENGINE_CMD_CONFIG SPI_ENGINE_CMD_REG_CONFIG 6]" for sid k
    using slow_clock_writes [of "spi ?st1" 6 "spi ?st"] by simp
  obtain s s' where p: "let at = spi_engine_baseaddr (eng ?st1); w = unat (data_width (eng ?st1)); wl = unat (data_width (eng ?st1) div 8);
      k = words_of wl (unat (3 :: u16)); ws = pack_words w wl (unat (3 :: u16)) [1, 2, 3, 4] in
      polls (loop_bus at) (at + 0xC0) (ucast (sync_id ?st1))
        (writes (loop_bus at) at ((0x100, 0) # map (Pair 0xE0) (transfer_writes (spi ?st1) (sync_id ?st1) (of_nat k)) @ map (Pair 0xE4) ws) (engine ?st1)) s
      \<and> reads (loop_bus at) (at + 0xE8) k s = (ws, s') \<and> sdo s' = [] \<and> unpack_bytes w wl (unat (3 :: u16)) ws = take (unat (3 :: u16)) [1, 2, 3, 4]"
    using loop_transfer [OF wide small mem] by blast
  let ?at = "spi_engine_baseaddr (eng ?st)" and ?wl = "unat (data_width (eng ?st) div 8)"
  let ?ws = "pack_words (unat (data_width (eng ?st))) ?wl (unat (3 :: u16)) [1, 2, 3, 4]"
  have same: "spi_engine_baseaddr (eng ?st1) = ?at" "data_width (eng ?st1) = data_width (eng ?st)" "sync_id ?st1 = sync_id ?st"
    "engine ?st1 = engine ?st" by simp_all
  have core: "polls (loop_bus ?at) (?at + 0xC0) (ucast (sync_id ?st))
        (writes (loop_bus ?at) ?at ((0x100, 0) # map (Pair 0xE0) ((transfer_writes (spi ?st) (sync_id ?st) (of_nat (words_of ?wl (unat (3 :: u16)))))
            [2 := SPI_ENGINE_CMD_CONFIG SPI_ENGINE_CMD_REG_CONFIG 6]) @ map (Pair 0xE4) ?ws) (engine ?st)) s"
      "reads (loop_bus ?at) (?at + 0xE8) (words_of ?wl (unat (3 :: u16))) s = (?ws, s')"
    using p unfolding Let_def same tw by blast+
  have speed: "2 * (190000 :: u32) \<noteq> 0" "ref_clk_hz (eng ?st) div (2 * 190000) = 257 + 6" "(6 :: u32) < 256"
    by (simp_all add: demo_spi_ok(4) demo_engine_def)
  have base: "spi_engine_baseaddr (eng ?st) = 0x44a00000" by (simp add: demo_spi_ok(4) demo_engine_def)
  show ?thesis
    using spi_engine_slow_clock_sets_mode [OF demo_spi_ok(1) speed small demo_spi_ok(2,3) refl refl refl refl
        core]
    unfolding base by auto
qed

text \<open>A transfer of no bytes sends the length minus one as it is: every bit of the command is set.\<close>

lemma empty_transfer_command: "SPI_ENGINE_CMD_TRANSFER 3 (ucast (0 :: u8) - 1) = 0xFFFFFFFF"
  by (simp add: SPI_ENGINE_CMD_TRANSFER_def SPI_ENGINE_CMD_def)

section \<open>Offload messages\<close>

lemma add_cmds_rep:
  "queue_rep q (cmd_mem st) cs \<Longrightarrow> cs \<noteq> [] \<Longrightarrow> never_oom (cmd_mem st) \<Longrightarrow>
   \<exists>h. add_cmds q ds st = Some (st\<lparr>cmd_mem := h\<rparr>) \<and> queue_rep q h (cs @ ds) \<and> never_oom h"
proof (induction ds arbitrary: st cs)
  case Nil
  then show ?case by (intro exI [of _ "cmd_mem st"]) simp
next
  case (Cons d ds)
  obtain h where h: "spi_engine_queue_add_cmd q d (cmd_mem st) = Some h" "queue_rep q h (cs @ [d])" "never_oom h"
    using add_cmd_rep [OF Cons.prems(1,2)] Cons.prems(3) by metis
  then show ?case using Cons.IH [of "st\<lparr>cmd_mem := h\<rparr>" "cs @ [d]"] by (simp add: add_cmd_def)
qed

lemma emitted_rx_len [simp]:
  "emitted (d\<lparr>extra := (extra d)\<lparr>offload_tx_len := l, offload_rx_len := r\<rparr>\<rparr>) c = emitted d c"
  unfolding emitted_def Let_def by (simp add: spi_get_sleep_div_def spi_get_words_number_def cong: if_cong)

lemma emitted_all_rx_len [simp]:
  "emitted_all (d\<lparr>extra := (extra d)\<lparr>offload_tx_len := l, offload_rx_len := r\<rparr>\<rparr>) cs = emitted_all d cs"
  by (induction cs) simp_all

text \<open>
  C23. Capturing with the offload module: the message is translated like an ordinary one, but into
  the command memory, with the data it announces into the data memory; then the module is
  enabled and the DMA controller is asked for the words of the message, times the number of
  samples. The commands are freed and the sync id is not used up. SUCCESS is returned whatever
  the DMA transfer returned.
\<close>

theorem spi_engine_offload_capture:
  assumes "offload_config (eng st) = OFFLOAD_RX_EN" "queue_rep None (cmd_mem st) []" "never_oom (cmd_mem st)"
    and "off_commands msg = c # cs" "unat (off_no_commands msg) = Suc (length cs)"
    and "emitted_all (spi st) (full_message (spi st) (sync_id st) (c # cs)) = Some (ws, k)"
    and "off_commands_data msg = Some t" "unat k \<le> length t"
    and "s1 = writes bus (spi_engine_baseaddr (eng st)) ([(0x108, 1), (0x108, 0)] @ map (Pair 0x110) ws
      @ map (Pair 0x114) (take (unat k) t) @ [(0x100, 1)]) (engine st)"
    and "offload_rx_dma (eng st) = Some a" "cells (dma_mem st) a = Some dm"
    and "axi_dmac_transfer bus irq (off_rx_addr msg) (ucast (data_width (eng st) div 8) * ucast k * no_samples) \<lparr>dmac = dm, hw = s1\<rparr> = Some (r, z)"
  shows "\<exists>st'. spi_engine_offload_transfer bus irq usleep msg no_samples st = Some (SUCCESS, st')
    \<and> engine st' = usleep 1000 (hw z) \<and> cells (dma_mem st') a = Some (dmac z) \<and> cells (cmd_mem st') = Map.empty \<and> sync_id st' = sync_id st"
proof -
  let ?b = "cmd_mem st"
  define st0 where "st0 = upd_eng (\<lambda>d. d\<lparr>offload_tx_len := 0, offload_rx_len := 0\<rparr>) (emit bus [(0x108, 1), (0x108, 0)] st)"
  define h0 where "h0 = ?b\<lparr>cells := (cells ?b)(brk ?b \<mapsto> \<lparr>q_cmd = c, q_next = None\<rparr>), brk := Suc (brk ?b)\<rparr>"
  have new: "spi_engine_queue_new_cmd None c (cmd_mem st0) = (SUCCESS, Some (brk ?b), h0)"
    using assms(3) by (simp add: new_cmd_ok h0_def st0_def)
  have q0: "queue_rep (Some (brk ?b)) h0 [c]" "never_oom h0"
    using assms(2,3) by (auto simp: h0_def queue_rep_empty queue_rep_def queue_cells_def heap_wf_def intro!: exI [of _ "[(brk ?b, c)]"])
  then obtain h1 where h1: "add_cmds (Some (brk ?b)) cs (st0\<lparr>cmd_mem := h0\<rparr>) = Some (st0\<lparr>cmd_mem := h1\<rparr>)"
      "queue_rep (Some (brk ?b)) h1 (c # cs)" "never_oom h1"
    using add_cmds_rep [of "Some (brk ?b)" "st0\<lparr>cmd_mem := h0\<rparr>" "[c]" cs] by auto
  let ?st1 = "st0\<lparr>cmd_mem := h1\<rparr>"
  let ?msg = "\<lparr>tx_buf = Some t, rx_buf = None, msg_length = 0, cmds = Some (brk ?b)\<rparr>"
  have em: "emitted_all (spi ?st1) (full_message (spi ?st1) (sync_id ?st1) (c # cs)) = Some (ws, k)"
    using assms(6) by (simp add: st0_def full_message_def)
  have spi1: "spi ?st1 = (spi st)\<lparr>extra := (eng st)\<lparr>offload_tx_len := 0, offload_rx_len := 0\<rparr>\<rparr>" by (simp add: st0_def)
  obtain h where h: "spi_engine_transfer_message bus ?msg ?st1 = Some (SUCCESS, ?msg\<lparr>cmds := None\<rparr>,
      emit bus (map (Pair 0x110) ws @ map (Pair 0x114) (take (unat k) t)) ((count_words k ?st1)\<lparr>cmd_mem := h\<rparr>))" "queue_rep None h []"
    using transfer_message_offload [of ?msg ?st1 "c # cs" ws k t bus] h1(2,3) em assms(1,8) spi1 by auto
  let ?st2 = "emit bus (map (Pair 0x110) ws @ map (Pair 0x114) (take (unat k) t)) ((count_words k ?st1)\<lparr>cmd_mem := h\<rparr>)"
  define st3 where "st3 = emit bus [(0x100, 1)] ?st2"
  have eng3: "engine st3 = s1" "eng st3 = (eng st)\<lparr>offload_tx_len := k, offload_rx_len := 0\<rparr>" "dma_mem st3 = dma_mem st"
      "cmd_mem st3 = h" "sync_id st3 = sync_id st"
    using assms(9) by (simp_all add: st0_def st3_def writes_append)
  obtain h' where h': "spi_engine_queue_free None h = Some (SUCCESS, None, h')" "cells h' = Map.empty"
    using queue_free_rep [OF h(2)] by (auto simp: queue_rep_empty)
  let ?st4 = "st3\<lparr>dma_mem := (dma_mem st)\<lparr>cells := (cells (dma_mem st))(a \<mapsto> dmac z)\<rparr>, engine := hw z\<rparr>"
  have dma: "run_dmac bus irq (Some a) (off_rx_addr msg) (ucast (data_width (eng st) div 8) * ucast k * no_samples) st3 = Some ?st4"
    using assms(11,12) eng3 by (simp add: run_dmac_def)
  have first: "upd_eng (\<lambda>d. d\<lparr>offload_tx_len := 0, offload_rx_len := 0\<rparr>) (emit bus [(0x108, 0)] (emit bus [(0x108, 1)] st)) = st0"
    by (simp add: st0_def)
  have config: "offload_config (eng st0) = 2" using assms(1) by (simp add: st0_def)
  have second: "emit bus [(0x100, 1)] ?st2 = st3" by (simp add: st3_def)
  have "spi_engine_offload_transfer bus irq usleep msg no_samples st =
      Some (SUCCESS, ?st4\<lparr>engine := usleep 1000 (hw z), cmd_mem := h'\<rparr>)"
    unfolding spi_engine_offload_transfer_def
    using new h1(1) h(1) dma h'(1) eng3 assms(1,4,5,7,10) config
    by (simp add: Let_def first second spi_get_word_lenght_def del: emit_simps(7) upd_eng_simps)
  then show ?thesis using h'(2) eng3 by (intro exI [of _ "?st4\<lparr>engine := usleep 1000 (hw z), cmd_mem := h'\<rparr>"]) simp
qed


text \<open>A cyclic DMA transfer of one burst returns as soon as it is started.\<close>

lemma cyclic_returns:
  assumes "known_direction (direction dm)" "flags dm AND DMA_CYCLIC \<noteq> 0" "sz \<noteq> 0" "sz - 1 \<le> transfer_max_size dm"
  shows "\<exists>z. axi_dmac_transfer bus irq addr sz \<lparr>dmac = dm, hw = s\<rparr> = Some (SUCCESS, z)"
proof -
  let ?st = "snd (run_state (transfer_setup bus addr) \<lparr>dmac = dm, hw = s\<rparr>)"
  have "dmac (snd (run_state (start_transfer bus (sz - 1)) ?st)) = dm" by (simp add: transfer_setup_simps)
  then have "axi_dmac_transfer bus irq addr sz \<lparr>dmac = dm, hw = s\<rparr> = Some (SUCCESS, snd (run_state (start_transfer bus (sz - 1)) ?st))"
    using assms leD [OF assms(4)] by (simp add: axi_dmac_transfer_def Let_def split_beta transfer_setup_simps del: run_start_transfer)
  then show ?thesis by blast
qed

definition capture_dmac :: axi_dmac where
  "capture_dmac = \<lparr>name = ''ADC DMAC'', base = 0x44b00000, direction = DMA_DEV_TO_MEM, flags = DMA_CYCLIC,
     transfer_max_size = 0xffffff, big_transfer = \<lparr>tsize = 0, address = 0, size_done = 0, transfer_done = False\<rparr>\<rparr>"

definition capture_spi :: "loop_core spi_sys" where
  "capture_spi = (upd_eng (\<lambda>d. d\<lparr>offload_config := OFFLOAD_RX_EN, offload_rx_dma := Some 7\<rparr>) (demo_spi demo_core))
     \<lparr>dma_mem := \<lparr>cells = [7 \<mapsto> capture_dmac], brk = 8, oom = (\<lambda>n. False)\<rparr>\<rparr>"

definition capture_msg :: spi_engine_offload_message where
  "capture_msg = \<lparr>off_commands = [CS_LOW, WRITE_READ (ucast (2 :: u8)), CS_HIGH], off_no_commands = 3,
     off_commands_data = Some [0xabcd], off_tx_addr = 0, off_rx_addr = 0x10000000\<rparr>"

lemma capture_emitted:
  "\<exists>ws. emitted_all (spi capture_spi) (full_message (spi capture_spi) (sync_id capture_spi) (off_commands capture_msg)) = Some (ws, 1)"
proof -
  have "spi_get_words_number (extra (spi capture_spi)) 2 = Some 1"
    by (simp add: capture_spi_def demo_spi_def demo_engine_def spi_get_words_number_def)
  then have "emitted (spi capture_spi) (WRITE_READ (ucast (2 :: u8))) = Some ([SPI_ENGINE_CMD_TRANSFER 3 (ucast (1 :: u8) - 1)], 1)"
    by (rule emitted_transfer)
  moreover have "unat (chip_select (spi capture_spi)) < 32" "spi_mode (spi capture_spi) < 256" "clk_div (eng capture_spi) < 256"
    by (simp_all add: capture_spi_def demo_spi_def demo_engine_def)
  ultimately show ?thesis
    by (simp add: capture_msg_def full_message_def emitted_config emitted_cs_low emitted_cs_high emitted_sync ucast_u8_small
        del: unsigned_numeral unsigned_1)
qed

theorem spi_engine_offload_capture_witness:
  "\<exists>st'. spi_engine_offload_transfer (loop_bus 0x44a00000) (\<lambda>s. (False, s)) (\<lambda>n s. s) capture_msg 16 capture_spi = Some (SUCCESS, st')
    \<and> cells (cmd_mem st') = Map.empty \<and> sync_id st' = 1"
proof -
  obtain ws where ws: "emitted_all (spi capture_spi) (full_message (spi capture_spi) (sync_id capture_spi)
      (CS_LOW # [WRITE_READ (ucast (2 :: u8)), CS_HIGH])) = Some (ws, 1)"
    using capture_emitted by (auto simp: capture_msg_def)
  define s1 where "s1 = writes (loop_bus 0x44a00000) (spi_engine_baseaddr (eng capture_spi)) ([(0x108, 1), (0x108, 0)] @ map (Pair 0x110) ws
      @ map (Pair 0x114) (take (unat (1 :: u8)) [0xabcd]) @ [(0x100, 1)]) (engine capture_spi)"
  have "\<exists>z. axi_dmac_transfer (loop_bus 0x44a00000) (\<lambda>s. (False, s)) 0x10000000
      (ucast (data_width (eng capture_spi) div 8) * ucast (1 :: u8) * 16) \<lparr>dmac = capture_dmac, hw = s1\<rparr> = Some (SUCCESS, z)"
    by (rule cyclic_returns) (simp_all add: capture_dmac_def known_direction_def capture_spi_def demo_spi_def demo_engine_def)
  then obtain z where z: "axi_dmac_transfer (loop_bus 0x44a00000) (\<lambda>s. (False, s)) 0x10000000
      (ucast (data_width (eng capture_spi) div 8) * ucast (1 :: u8) * 16) \<lparr>dmac = capture_dmac, hw = s1\<rparr> = Some (SUCCESS, z)"
    by blast
  have "\<exists>st'. spi_engine_offload_transfer (loop_bus 0x44a00000) (\<lambda>s. (False, s)) (\<lambda>n s. s) capture_msg 16 capture_spi = Some (SUCCESS, st')
      \<and> engine st' = hw z \<and> cells (dma_mem st') 7 = Some (dmac z) \<and> cells (cmd_mem st') = Map.empty
      \<and> sync_id st' = sync_id capture_spi"
  proof (rule spi_engine_offload_capture [where usleep = "\<lambda>n s. s"])
    show "emitted_all (spi capture_spi) (full_message (spi capture_spi) (sync_id capture_spi) (CS_LOW # [WRITE_READ (ucast (2 :: u8)), CS_HIGH])) = Some (ws, 1)"
      by (rule ws)
    show "axi_dmac_transfer (loop_bus 0x44a00000) (\<lambda>s. (False, s)) (off_rx_addr capture_msg)
        (ucast (data_width (eng capture_spi) div 8) * ucast (1 :: u8) * 16) \<lparr>dmac = capture_dmac, hw = s1\<rparr> = Some (SUCCESS, z)"
      using z by (simp add: capture_msg_def)
    show "s1 = writes (loop_bus 0x44a00000) (spi_engine_baseaddr (eng capture_spi)) ([(0x108, 1), (0x108, 0)] @ map (Pair 0x110) ws
        @ map (Pair 0x114) (take (unat (1 :: u8)) [0xabcd]) @ [(0x100, 1)]) (engine capture_spi)"
      by (rule s1_def)
  qed (simp_all add: capture_spi_def capture_msg_def demo_spi_ok(2,3) [simplified])
  moreover have "sync_id capture_spi = 1" by (simp add: capture_spi_def demo_spi_def)
  ultimately show ?thesis by auto
qed


section \<open>A new descriptor\<close>

text \<open>
  A descriptor made by spi_engine_init is ready for transfers: the core is reset, the word
  length is what was asked for up to what the core supports, and when the speed, the mode and
  the chip select are in range the settings are those the transfers need.
\<close>

theorem spi_engine_init_ready:
  assumes "at = par_baseaddr (par_extra p)" "s1 = Xil_Out32 bus (at + 0x40) 0 (usleep 1000 (Xil_Out32 bus (at + 0x40) 1 s))"
    and "Xil_In32 bus (at + 0x0C) s1 = (w, s2)" "width = min (par_data_width (par_extra p)) (ucast w)" "width_ok width"
    and "2 * par_max_speed_hz p \<noteq> 0" "div_hz = par_ref_clk_hz (par_extra p) div (2 * par_max_speed_hz p)" "1 \<le> div_hz" "div_hz \<le> 256"
    and "par_mode p < 256" "unat (par_chip_select p) < 32"
  shows "\<exists>st. spi_engine_init bus usleep (True, True) junk (Some p) (sid, qm, dm, s) = Some (SUCCESS, Some st, 2)
    \<and> settings_ok (spi st) \<and> data_width (eng st) = width \<and> offload_config (eng st) = OFFLOAD_DISABLED
    \<and> engine st = snd (Xil_In32 bus at s2) \<and> sync_id st = sid \<and> cmd_mem st = qm"
proof -
  have "div_hz - 1 < 256" using assms(8,9) unat_minus_one [of div_hz] by (simp add: word_less_nat_alt word_le_nat_alt unat_eq_zero [symmetric])
  moreover have "(if par_data_width (par_extra p) > ucast w then ucast w else par_data_width (par_extra p)) = width"
    using assms(4) by (auto simp: min_def)
  ultimately show ?thesis
    using assms(1-3,5-7,10,11)
    by (cases "ucast w < par_data_width (par_extra p)")
      (simp_all add: spi_engine_init_def Let_def spi_engine_read_def spi_engine_set_transfer_width_def settings_ok_def)
qed

definition demo_param :: eng_spi_init_param where
  "demo_param = \<lparr>par_max_speed_hz = 10000000, par_chip_select = 0, par_mode = 1,
     par_extra = \<lparr>par_ref_clk_hz = 100000000, par_type = SPI_ENGINE, par_baseaddr = 0x44a00000, par_cs_delay = 1, par_data_width = 16\<rparr>\<rparr>"

theorem spi_engine_init_ready_witness:
  "\<exists>st. spi_engine_init reg_file_bus (\<lambda>n s. s) (True, True) demo_engine (Some demo_param)
      (1, cmd_mem (demo_spi ()), dma_mem (demo_spi ()), \<lparr>regs = (\<lambda>a. 32), log = []\<rparr>) = Some (SUCCESS, Some st, 2)
    \<and> settings_ok (spi st) \<and> data_width (eng st) = 16 \<and> log (engine st) = [(0x44a00040, 0), (0x44a00040, 1)]"
proof -
  have "width_ok 16" by (simp add: width_ok_def)
  then show ?thesis
    using spi_engine_init_ready [where p = demo_param and bus = reg_file_bus and usleep = "\<lambda>n s. s" and s = "\<lparr>regs = (\<lambda>a. 32), log = []\<rparr>"
        and w = 32 and width = 16 and div_hz = 5 and junk = demo_engine and sid = 1 and qm = "cmd_mem (demo_spi ())" and dm = "dma_mem (demo_spi ())",
        OF refl refl _ _ _ _ _]
    by (fastforce simp: demo_param_def)
qed

end
