(* ===== verification/Axi_Adc.thy ===== *)
theory Axi_Adc
  imports Axi_Io
begin

text \<open>
  The driver of the AXI ADC core, drivers/axi_core/axi_adc_core: monitoring of the test patterns,
  the calibration of the input delay, the correction coefficients of the channels, their
  enabling, and creation and removal. The core is the bus parameter and \<open>mdelay\<close> what happens in
  it while the program waits.
\<close>

section \<open>Registers and data\<close>

definition AXI_ADC_REG_RSTN :: u32 where [simp]: "AXI_ADC_REG_RSTN = 0x40"
definition AXI_ADC_MMCM_RSTN :: u32 where [simp]: "AXI_ADC_MMCM_RSTN = 2"
definition AXI_ADC_RSTN :: u32 where [simp]: "AXI_ADC_RSTN = 1"
definition AXI_ADC_REG_CLK_FREQ :: u32 where [simp]: "AXI_ADC_REG_CLK_FREQ = 0x54"
definition AXI_ADC_REG_CLK_RATIO :: u32 where [simp]: "AXI_ADC_REG_CLK_RATIO = 0x58"
definition AXI_ADC_REG_STATUS :: u32 where [simp]: "AXI_ADC_REG_STATUS = 0x5C"
definition AXI_ADC_FORMAT_SIGNEXT :: u32 where [simp]: "AXI_ADC_FORMAT_SIGNEXT = 0x40"
definition AXI_ADC_FORMAT_ENABLE :: u32 where [simp]: "AXI_ADC_FORMAT_ENABLE = 0x10"
definition AXI_ADC_ENABLE :: u32 where [simp]: "AXI_ADC_ENABLE = 1"

definition AXI_ADC_REG_CHAN_CNTRL :: "u32 \<Rightarrow> u32" where "AXI_ADC_REG_CHAN_CNTRL c = 0x0400 + c * 0x40"
definition AXI_ADC_REG_CHAN_STATUS :: "u32 \<Rightarrow> u32" where "AXI_ADC_REG_CHAN_STATUS c = 0x0404 + c * 0x40"
definition AXI_ADC_REG_CHAN_CNTRL_1 :: "u32 \<Rightarrow> u32" where "AXI_ADC_REG_CHAN_CNTRL_1 c = 0x0410 + c * 0x40"
definition AXI_ADC_REG_CHAN_CNTRL_2 :: "u32 \<Rightarrow> u32" where "AXI_ADC_REG_CHAN_CNTRL_2 c = 0x0414 + c * 0x40"
definition AXI_ADC_REG_CHAN_CNTRL_3 :: "u32 \<Rightarrow> u32" where "AXI_ADC_REG_CHAN_CNTRL_3 c = 0x0418 + c * 0x40"
definition AXI_ADC_REG_DELAY :: "u32 \<Rightarrow> u32" where "AXI_ADC_REG_DELAY l = 0x0800 + l * 0x4"

definition AXI_ADC_DCFILT_OFFSET :: "u32 \<Rightarrow> u32" where "AXI_ADC_DCFILT_OFFSET x = push_bit 16 (x AND 0xFFFF)"
definition AXI_ADC_TO_DCFILT_OFFSET :: "u32 \<Rightarrow> u32" where "AXI_ADC_TO_DCFILT_OFFSET x = drop_bit 16 x AND 0xFFFF"
definition AXI_ADC_IQCOR_COEFF_1 :: "u32 \<Rightarrow> u32" where "AXI_ADC_IQCOR_COEFF_1 x = push_bit 16 (x AND 0xFFFF)"
definition AXI_ADC_TO_IQCOR_COEFF_1 :: "u32 \<Rightarrow> u32" where "AXI_ADC_TO_IQCOR_COEFF_1 x = drop_bit 16 x AND 0xFFFF"
definition AXI_ADC_IQCOR_COEFF_2 :: "u32 \<Rightarrow> u32" where "AXI_ADC_IQCOR_COEFF_2 x = x AND 0xFFFF"
definition AXI_ADC_TO_IQCOR_COEFF_2 :: "u32 \<Rightarrow> u32" where "AXI_ADC_TO_IQCOR_COEFF_2 x = x AND 0xFFFF"
definition AXI_ADC_ADC_PN_SEL :: "u32 \<Rightarrow> u32" where "AXI_ADC_ADC_PN_SEL x = push_bit 16 (x AND 0xF)"

record axi_adc =
  adc_name :: string
  adc_base :: u32
  adc_num_channels :: u8
  adc_clock_hz :: u64
  adc_mask :: u32

record axi_adc_init_param =
  ini_name :: string
  ini_base :: u32
  ini_num_channels :: u8

datatype axi_adc_pn_sel = AXI_ADC_PN9 | AXI_ADC_PN23A | AXI_ADC_PN7 | AXI_ADC_PN15 | AXI_ADC_PN23 | AXI_ADC_PN31
  | AXI_ADC_PN_CUSTOM | AXI_ADC_PN_RAMP_NIBBLE | AXI_ADC_PN_RAMP_16 | AXI_ADC_PN_END

fun pn_sel_value :: "axi_adc_pn_sel \<Rightarrow> u32" where
  "pn_sel_value AXI_ADC_PN9 = 0" | "pn_sel_value AXI_ADC_PN23A = 1" | "pn_sel_value AXI_ADC_PN7 = 4"
| "pn_sel_value AXI_ADC_PN15 = 5" | "pn_sel_value AXI_ADC_PN23 = 6" | "pn_sel_value AXI_ADC_PN31 = 7"
| "pn_sel_value AXI_ADC_PN_CUSTOM = 9" | "pn_sel_value AXI_ADC_PN_RAMP_NIBBLE = 10"
| "pn_sel_value AXI_ADC_PN_RAMP_16 = 11" | "pn_sel_value AXI_ADC_PN_END = 12"

section \<open>Register access\<close>

definition axi_adc_read :: "'s axi_bus \<Rightarrow> axi_adc \<Rightarrow> u32 \<Rightarrow> 's \<Rightarrow> (int \<times> u32) \<times> 's" where
  "axi_adc_read bus adc reg_addr s =
     (case run_state (axi_io_read bus (adc_base adc) reg_addr) s of ((_, reg_data), s) \<Rightarrow> ((SUCCESS, reg_data), s))"

definition axi_adc_write :: "'s axi_bus \<Rightarrow> axi_adc \<Rightarrow> u32 \<Rightarrow> u32 \<Rightarrow> 's \<Rightarrow> int \<times> 's" where
  "axi_adc_write bus adc reg_addr reg_data s =
     (case run_state (axi_io_write bus (adc_base adc) reg_addr reg_data) s of (_, s) \<Rightarrow> (SUCCESS, s))"

definition axi_adc_set_pnsel :: "'s axi_bus \<Rightarrow> axi_adc \<Rightarrow> u32 \<Rightarrow> axi_adc_pn_sel \<Rightarrow> 's \<Rightarrow> int \<times> 's" where
  "axi_adc_set_pnsel bus adc chan sel s =
     (let ((_, reg_data), s) = axi_adc_read bus adc (AXI_ADC_REG_CHAN_CNTRL_3 chan) s;
          reg_data = reg_data AND NOT (AXI_ADC_ADC_PN_SEL (NOT 0));
          reg_data = reg_data OR AXI_ADC_ADC_PN_SEL (pn_sel_value sel);
          (_, s) = axi_adc_write bus adc (AXI_ADC_REG_CHAN_CNTRL_3 chan) reg_data s
      in (SUCCESS, s))"

text \<open>The channel numbers of the loops over the channels.\<close>

definition chans :: "axi_adc \<Rightarrow> u32 list" where
  "chans adc = map of_nat [0..<unat (adc_num_channels adc)]"

definition pn_enable :: "'s axi_bus \<Rightarrow> axi_adc \<Rightarrow> axi_adc_pn_sel \<Rightarrow> u32 \<Rightarrow> 's \<Rightarrow> 's" where
  "pn_enable bus adc sel ch s =
     (let ((_, reg_data), s) = axi_adc_read bus adc (AXI_ADC_REG_CHAN_CNTRL ch) s;
          (_, s) = axi_adc_write bus adc (AXI_ADC_REG_CHAN_CNTRL ch) (reg_data OR AXI_ADC_ENABLE) s
      in snd (axi_adc_set_pnsel bus adc ch sel s))"

text \<open>The last loop of axi_adc_pn_mon, up to the first channel with an error.\<close>

fun pn_check :: "'s axi_bus \<Rightarrow> axi_adc \<Rightarrow> u32 list \<Rightarrow> 's \<Rightarrow> int \<times> 's" where
  "pn_check bus adc [] s = (SUCCESS, s)"
| "pn_check bus adc (ch # cs) s =
     (case axi_adc_read bus adc (AXI_ADC_REG_CHAN_STATUS ch) s of
        ((_, reg_data), s) \<Rightarrow> if reg_data \<noteq> 0 then (FAILURE, s) else pn_check bus adc cs s)"

definition axi_adc_pn_mon :: "'s axi_bus \<Rightarrow> (u32 \<Rightarrow> 's \<Rightarrow> 's) \<Rightarrow> axi_adc \<Rightarrow> axi_adc_pn_sel \<Rightarrow> u32 \<Rightarrow> 's \<Rightarrow> int \<times> 's" where
  "axi_adc_pn_mon bus mdelay adc sel delay_ms s =
     (let s = fold (pn_enable bus adc sel) (chans adc) s;
          s = mdelay 1 s;
          s = fold (\<lambda>ch s. snd (axi_adc_write bus adc (AXI_ADC_REG_CHAN_STATUS ch) 0xff s)) (chans adc) s;
          s = mdelay delay_ms s
      in pn_check bus adc (chans adc) s)"

text \<open>The product of the two registers wraps at 32 bits.\<close>

definition clock_rate :: "u32 \<Rightarrow> u32 \<Rightarrow> u64" where
  "clock_rate freq ratio = drop_bit 8 (ucast (freq * ratio) * 390625)"

definition axi_adc_get_sampling_freq :: "'s axi_bus \<Rightarrow> axi_adc \<Rightarrow> u32 \<Rightarrow> 's \<Rightarrow> (int \<times> u64) \<times> 's" where
  "axi_adc_get_sampling_freq bus adc chan s =
     (let ((_, freq), s) = axi_adc_read bus adc AXI_ADC_REG_CLK_FREQ s;
          ((_, ratio), s) = axi_adc_read bus adc AXI_ADC_REG_CLK_RATIO s
      in ((SUCCESS, clock_rate freq ratio), s))"

section \<open>The input delay\<close>

definition axi_adc_idelay_set :: "'s axi_bus \<Rightarrow> axi_adc \<Rightarrow> u32 \<Rightarrow> u32 \<Rightarrow> 's \<Rightarrow> 's" where
  "axi_adc_idelay_set bus adc lane val s = snd (axi_adc_write bus adc (AXI_ADC_REG_DELAY lane) val s)"

text \<open>A lane whose register reads back something else is only reported on the console.\<close>

definition lane_delay_set :: "'s axi_bus \<Rightarrow> axi_adc \<Rightarrow> u32 \<Rightarrow> u32 \<Rightarrow> 's \<Rightarrow> 's" where
  "lane_delay_set bus adc delay i s =
     snd (axi_adc_read bus adc (AXI_ADC_REG_DELAY i) (axi_adc_idelay_set bus adc i delay s))"

definition axi_adc_delay_set :: "'s axi_bus \<Rightarrow> axi_adc \<Rightarrow> u32 \<Rightarrow> u32 \<Rightarrow> 's \<Rightarrow> int \<times> 's" where
  "axi_adc_delay_set bus adc no_of_lanes delay s =
     (let ((_, pcore_version), s) = axi_adc_read bus adc 0 s
      in if drop_bit 16 pcore_version < 9 then (FAILURE, s)
         else (SUCCESS, fold (lane_delay_set bus adc delay) (map of_nat [0..<unat no_of_lanes]) s))"

text \<open>The first loop of the calibration, from \<open>delay\<close>, \<open>n\<close> delays left: which of them had errors.\<close>

fun test_delays :: "'s axi_bus \<Rightarrow> (u32 \<Rightarrow> 's \<Rightarrow> 's) \<Rightarrow> axi_adc \<Rightarrow> u32 \<Rightarrow> axi_adc_pn_sel \<Rightarrow> nat \<Rightarrow> nat \<Rightarrow> 's \<Rightarrow> bool list \<times> 's" where
  "test_delays bus mdelay adc no_of_lanes sel 0 delay s = ([], s)"
| "test_delays bus mdelay adc no_of_lanes sel (Suc n) delay s =
     (let (_, s) = axi_adc_delay_set bus adc no_of_lanes (of_nat delay) s;
          (ret, s) = axi_adc_pn_mon bus mdelay adc sel 100 (mdelay 20 s);
          (errs, s) = test_delays bus mdelay adc no_of_lanes sel n (Suc delay) s
      in ((ret \<noteq> 0) # errs, s))"

text \<open>
  The second loop, over the error field: it records at most five windows of delays without
  errors; an index beyond the five elements of the arrays is undefined. The counters are at
  most 32 and are natural numbers here. \<open>cnt_invalid\<close>, which is not used, is left out.
\<close>

record win_scan =
  start_valid :: nat
  start_invalid :: nat
  interval :: nat
  valid_range :: "nat list"
  invalid_range :: "nat list"
  cnt_valid :: "nat list"

definition scan_zero :: win_scan where
  "scan_zero = \<lparr>start_valid = 32, start_invalid = 32, interval = 0, valid_range = replicate 5 0,
     invalid_range = replicate 5 0, cnt_valid = replicate 5 0\<rparr>"

definition note_valid :: "nat \<Rightarrow> win_scan \<Rightarrow> win_scan option" where
  "note_valid val w = do {
     let sv = (if start_valid w = 32 then val else start_valid w);
     let (sv, si) = (if sv \<noteq> 32 \<and> start_invalid w \<noteq> 32 then (32, 32) else (sv, start_invalid w));
     guard (interval w < 5);
     Some (w\<lparr>start_valid := sv, start_invalid := si,
             cnt_valid := (cnt_valid w)[interval w := cnt_valid w ! interval w + 1]\<rparr>)}"

definition note_invalid :: "nat \<Rightarrow> win_scan \<Rightarrow> win_scan option" where
  "note_invalid val w = do {
     let si = (if start_invalid w = 32 then val else start_invalid w);
     if start_valid w \<noteq> 32 \<and> si \<noteq> 32 then do {
       guard (interval w < 5);
       Some (w\<lparr>valid_range := (valid_range w)[interval w := start_valid w],
               invalid_range := (invalid_range w)[interval w := si],
               start_valid := 32, start_invalid := 32, interval := interval w + 1\<rparr>)}
     else Some (w\<lparr>start_invalid := si\<rparr>)}"

definition scan_step :: "nat \<Rightarrow> bool \<Rightarrow> win_scan \<Rightarrow> win_scan option" where
  "scan_step val err w = do {
     w \<leftarrow> (if \<not> err then note_valid val w else Some w);
     if err \<or> val = 31 then note_invalid val w else Some w}"

fun scan_from :: "nat \<Rightarrow> bool list \<Rightarrow> win_scan \<Rightarrow> win_scan option" where
  "scan_from val [] w = Some w"
| "scan_from val (e # es) w = do {w \<leftarrow> scan_step val e w; scan_from (Suc val) es w}"

text \<open>The interval with the most delays, the first of them; the first one when all are empty.\<close>

definition max_interval :: "nat list \<Rightarrow> nat" where
  "max_interval cnt = snd (fold (\<lambda>i (mx, mi). if cnt ! i > mx then (cnt ! i, i) else (mx, mi)) [0..<5] (0, 0))"

text \<open>For the empty interval of an empty scan this is -1 / 2, which is 0 in C as it is here.\<close>

definition middle_delay :: "win_scan \<Rightarrow> nat" where
  "middle_delay w = (let m = max_interval (cnt_valid w) in (valid_range w ! m + invalid_range w ! m - 1) div 2)"

definition axi_adc_delay_calibrate :: "'s axi_bus \<Rightarrow> (u32 \<Rightarrow> 's \<Rightarrow> 's) \<Rightarrow> axi_adc \<Rightarrow> u32 \<Rightarrow> axi_adc_pn_sel \<Rightarrow> 's \<Rightarrow> (int \<times> 's) option" where
  "axi_adc_delay_calibrate bus mdelay adc no_of_lanes sel s = do {
     let (errs, s) = test_delays bus mdelay adc no_of_lanes sel 32 0 s;
     if list_all id errs then Some (FAILURE, snd (axi_adc_delay_set bus adc no_of_lanes 0 s))
     else do {
       w \<leftarrow> scan_from 0 errs scan_zero;
       Some (SUCCESS, snd (axi_adc_delay_set bus adc no_of_lanes (of_nat (middle_delay w)) s))}}"

section \<open>Correction coefficients\<close>

text \<open>
  The coefficient of \<open>val + val2 / 1000000\<close> as sign, one integer and fourteen fraction bits: the
  switch on the integer part and the rounding of axi_adc_set_calib_phase_scale. The outer None
  is an overflow of the negation, the inner one the default branch.
\<close>

definition calib_fract :: "int \<Rightarrow> int \<Rightarrow> u32 option option" where
  "calib_fract val val2 = do {
     guard (val \<noteq> 0 \<or> val2 \<noteq> - (2 ^ 31));
     let r = (if val = 1 then Some (0x4000, val2)
              else if val = -1 then Some (0xC000, val2)
              else if val = 0 then (if val2 < 0 then Some (0x8000, - val2) else Some (0, val2))
              else None);
     (case r of
        None \<Rightarrow> Some None
      | Some (fract, val2) \<Rightarrow>
          let llval = (of_int val2 * 0x4000 + 1000000 div 2 :: u64) div 1000000
          in Some (Some (fract OR ucast llval)))}"

definition axi_adc_set_calib_phase_scale :: "'s axi_bus \<Rightarrow> axi_adc \<Rightarrow> u32 \<Rightarrow> u32 \<Rightarrow> int \<Rightarrow> int \<Rightarrow> 's \<Rightarrow> (int \<times> 's) option" where
  "axi_adc_set_calib_phase_scale bus adc phase chan val val2 s = do {
     r \<leftarrow> calib_fract val val2;
     (case r of
        None \<Rightarrow> Some (FAILURE, s)
      | Some fract \<Rightarrow>
          let ((_, tmp), s) = axi_adc_read bus adc (AXI_ADC_REG_CHAN_CNTRL_2 chan) s;
              tmp = (if (chan + phase) mod 2 = 0
                     then (tmp AND NOT (AXI_ADC_IQCOR_COEFF_1 (NOT 0))) OR AXI_ADC_IQCOR_COEFF_1 fract
                     else (tmp AND NOT (AXI_ADC_IQCOR_COEFF_2 (NOT 0))) OR AXI_ADC_IQCOR_COEFF_2 fract);
              (_, s) = axi_adc_write bus adc (AXI_ADC_REG_CHAN_CNTRL_2 chan) tmp s
          in Some (SUCCESS, s))}"

text \<open>The two numbers of a coefficient: the fraction is below one million, so nothing overflows.\<close>

definition calib_value :: "u32 \<Rightarrow> int \<times> int" where
  "calib_value tmp =
     (let sgn = (if tmp AND 0x8000 \<noteq> 0 then -1 else 1);
          val = (if tmp AND 0x4000 \<noteq> 0 then 1 * sgn else 0);
          tmp = tmp AND NOT 0xC000;
          llval = (ucast tmp * 1000000 + 0x4000 div 2 :: u64) div 0x4000
      in (val, if val = 0 then uint llval * sgn else uint llval))"

definition axi_adc_get_calib_phase_scale :: "'s axi_bus \<Rightarrow> axi_adc \<Rightarrow> u32 \<Rightarrow> u32 \<Rightarrow> 's \<Rightarrow> (int \<times> int \<times> int) \<times> 's" where
  "axi_adc_get_calib_phase_scale bus adc phase chan s =
     (let ((_, tmp), s) = axi_adc_read bus adc (AXI_ADC_REG_CHAN_CNTRL_2 chan) s;
          tmp = (if (phase + chan) mod 2 = 0 then AXI_ADC_TO_IQCOR_COEFF_1 tmp else AXI_ADC_TO_IQCOR_COEFF_2 tmp)
      in ((SUCCESS, calib_value tmp), s))"

definition axi_adc_set_calib_phase :: "'s axi_bus \<Rightarrow> axi_adc \<Rightarrow> u32 \<Rightarrow> int \<Rightarrow> int \<Rightarrow> 's \<Rightarrow> (int \<times> 's) option" where
  "axi_adc_set_calib_phase bus adc chan val val2 s = axi_adc_set_calib_phase_scale bus adc 1 chan val val2 s"
definition axi_adc_get_calib_phase :: "'s axi_bus \<Rightarrow> axi_adc \<Rightarrow> u32 \<Rightarrow> 's \<Rightarrow> (int \<times> int \<times> int) \<times> 's" where
  "axi_adc_get_calib_phase bus adc chan s = axi_adc_get_calib_phase_scale bus adc 1 chan s"
definition axi_adc_set_calib_scale :: "'s axi_bus \<Rightarrow> axi_adc \<Rightarrow> u32 \<Rightarrow> int \<Rightarrow> int \<Rightarrow> 's \<Rightarrow> (int \<times> 's) option" where
  "axi_adc_set_calib_scale bus adc chan val val2 s = axi_adc_set_calib_phase_scale bus adc 0 chan val val2 s"
definition axi_adc_get_calib_scale :: "'s axi_bus \<Rightarrow> axi_adc \<Rightarrow> u32 \<Rightarrow> 's \<Rightarrow> (int \<times> int \<times> int) \<times> 's" where
  "axi_adc_get_calib_scale bus adc chan s = axi_adc_get_calib_phase_scale bus adc 0 chan s"

definition axi_adc_set_calib_bias :: "'s axi_bus \<Rightarrow> axi_adc \<Rightarrow> u32 \<Rightarrow> int \<Rightarrow> int \<Rightarrow> 's \<Rightarrow> int \<times> 's" where
  "axi_adc_set_calib_bias bus adc chan val val2 s =
     (let ((_, tmp), s) = axi_adc_read bus adc (AXI_ADC_REG_CHAN_CNTRL_1 chan) s;
          tmp = (tmp AND NOT (AXI_ADC_DCFILT_OFFSET (NOT 0))) OR AXI_ADC_DCFILT_OFFSET (ucast (of_int val :: u16));
          (_, s) = axi_adc_write bus adc (AXI_ADC_REG_CHAN_CNTRL_1 chan) tmp s
      in (SUCCESS, s))"

text \<open>\<open>val2\<close> is not set. The offset comes back without a sign.\<close>

definition axi_adc_get_calib_bias :: "'s axi_bus \<Rightarrow> axi_adc \<Rightarrow> u32 \<Rightarrow> 's \<Rightarrow> (int \<times> int) \<times> 's" where
  "axi_adc_get_calib_bias bus adc chan s =
     (let ((_, tmp), s) = axi_adc_read bus adc (AXI_ADC_REG_CHAN_CNTRL_1 chan) s
      in ((SUCCESS, uint (ucast (AXI_ADC_TO_DCFILT_OFFSET tmp) :: u16)), s))"

section \<open>Channels, creation and removal\<close>

fun update_chans :: "'s axi_bus \<Rightarrow> axi_adc \<Rightarrow> u32 list \<Rightarrow> u32 \<Rightarrow> 's \<Rightarrow> 's" where
  "update_chans bus adc [] m s = s"
| "update_chans bus adc (ch # cs) m s =
     (case axi_adc_read bus adc (AXI_ADC_REG_CHAN_CNTRL ch) s of
        ((_, val), s) \<Rightarrow>
          let new_val = val AND NOT AXI_ADC_ENABLE;
              new_val = (if m AND 1 \<noteq> 0 then val OR AXI_ADC_ENABLE else new_val);
              s = (if new_val \<noteq> val then snd (axi_adc_write bus adc (AXI_ADC_REG_CHAN_CNTRL ch) new_val s) else s)
          in update_chans bus adc cs (drop_bit 1 m) s)"

definition axi_adc_update_active_channels :: "'s axi_bus \<Rightarrow> axi_adc \<Rightarrow> u32 \<Rightarrow> 's \<Rightarrow> int \<times> axi_adc \<times> 's" where
  "axi_adc_update_active_channels bus adc m s =
     (if m = adc_mask adc then (SUCCESS, adc, s)
      else let adc = adc\<lparr>adc_mask := m\<rparr> in (SUCCESS, adc, update_chans bus adc (chans adc) m s))"

text \<open>\<open>junk\<close> is what malloc finds in the memory, \<open>al\<close> its outcome; \<open>adc_mask\<close> is left as it is.\<close>

definition axi_adc_init :: "'s axi_bus \<Rightarrow> (u32 \<Rightarrow> 's \<Rightarrow> 's) \<Rightarrow> bool \<Rightarrow> axi_adc \<Rightarrow> axi_adc_init_param \<Rightarrow> 's \<Rightarrow> int \<times> axi_adc option \<times> 's" where
  "axi_adc_init bus mdelay al junk init s =
     (if \<not> al then (FAILURE, None, s)
      else
        let adc = junk\<lparr>adc_name := ini_name init, adc_base := ini_base init, adc_num_channels := ini_num_channels init\<rparr>;
            (_, s) = axi_adc_write bus adc AXI_ADC_REG_RSTN 0 s;
            (_, s) = axi_adc_write bus adc AXI_ADC_REG_RSTN (AXI_ADC_MMCM_RSTN OR AXI_ADC_RSTN) s;
            s = fold (\<lambda>ch s. snd (axi_adc_write bus adc (AXI_ADC_REG_CHAN_CNTRL ch)
                  (AXI_ADC_FORMAT_SIGNEXT OR AXI_ADC_FORMAT_ENABLE OR AXI_ADC_ENABLE) s)) (chans adc) s;
            s = mdelay 100 s;
            ((_, reg_data), s) = axi_adc_read bus adc AXI_ADC_REG_STATUS s
        in if reg_data = 0 then (FAILURE, None, s)
           else
             let ((_, freq), s) = axi_adc_read bus adc AXI_ADC_REG_CLK_FREQ s;
                 ((_, ratio), s) = axi_adc_read bus adc AXI_ADC_REG_CLK_RATIO s
             in (SUCCESS, Some (adc\<lparr>adc_clock_hz := clock_rate freq ratio\<rparr>), s))"

definition axi_adc_remove :: "axi_adc \<Rightarrow> int" where
  "axi_adc_remove adc = SUCCESS"


section \<open>The search for the middle of the longest window\<close>

text \<open>
  A run is an interval of delays without errors. The calibration is right for the error fields
  where no delay is isolated between errors and that have at most five windows.
\<close>

definition run_ok :: "bool list \<Rightarrow> nat \<Rightarrow> nat \<Rightarrow> bool" where
  "run_ok errs a b \<longleftrightarrow> a < b \<and> b \<le> length errs \<and> (\<forall>u. a \<le> u \<and> u < b \<longrightarrow> \<not> errs ! u)"

definition isolated :: "bool list \<Rightarrow> nat \<Rightarrow> bool" where
  "isolated errs v \<longleftrightarrow> v < length errs \<and> \<not> errs ! v \<and> (v = 0 \<or> errs ! (v - 1)) \<and> (Suc v = length errs \<or> errs ! Suc v)"

definition window_starts :: "bool list \<Rightarrow> nat \<Rightarrow> nat" where
  "window_starts errs v = card {u. u < v \<and> \<not> errs ! u \<and> (u = 0 \<or> errs ! (u - 1))}"

lemma window_starts_0 [simp]: "window_starts errs 0 = 0"
  by (simp add: window_starts_def)

lemma window_starts_Suc:
  "window_starts errs (Suc v) = window_starts errs v + (if \<not> errs ! v \<and> (v = 0 \<or> errs ! (v - 1)) then 1 else 0)"
proof -
  let ?P = "\<lambda>u. \<not> errs ! u \<and> (u = 0 \<or> errs ! (u - 1))"
  have "{u. u < Suc v \<and> ?P u} = {u. u < v \<and> ?P u} \<union> (if ?P v then {v} else {})" by (auto simp: less_Suc_eq)
  then show ?thesis by (simp add: window_starts_def card_insert_if)
qed

lemma window_starts_mono: "v \<le> v' \<Longrightarrow> window_starts errs v \<le> window_starts errs v'"
  unfolding window_starts_def by (rule card_mono) auto

definition mid_of :: "win_scan \<Rightarrow> nat \<Rightarrow> nat" where
  "mid_of w i = (valid_range w ! i + invalid_range w ! i - 1) div 2"

text \<open>The windows that are recorded, and where the scan stands after \<open>v\<close> delays.\<close>

definition recorded :: "bool list \<Rightarrow> nat \<Rightarrow> win_scan \<Rightarrow> bool" where
  "recorded errs v w \<longleftrightarrow> length (valid_range w) = 5 \<and> length (invalid_range w) = 5 \<and> length (cnt_valid w) = 5
    \<and> (\<forall>i < interval w. \<exists>a e. run_ok errs a e \<and> cnt_valid w ! i = e - a \<and> a \<le> mid_of w i \<and> mid_of w i < e)
    \<and> (\<forall>i. interval w < i \<and> i < 5 \<longrightarrow> cnt_valid w ! i = 0)
    \<and> (\<forall>a b. run_ok errs a b \<and> b \<le> v \<longrightarrow> (\<exists>i \<le> interval w. i < 5 \<and> b - a \<le> cnt_valid w ! i))"

lemma recorded_run: "recorded errs v w \<Longrightarrow> run_ok errs a b \<Longrightarrow> b \<le> v \<Longrightarrow> \<exists>i \<le> interval w. i < 5 \<and> b - a \<le> cnt_valid w ! i"
  unfolding recorded_def by blast

definition in_window :: "bool list \<Rightarrow> nat \<Rightarrow> bool" where
  "in_window errs v \<longleftrightarrow> 0 < v \<and> \<not> errs ! (v - 1)"

definition current :: "bool list \<Rightarrow> nat \<Rightarrow> nat \<Rightarrow> win_scan \<Rightarrow> bool" where
  "current errs v s w \<longleftrightarrow> run_ok errs s v \<and> (s = 0 \<or> errs ! (s - 1)) \<and> interval w < 5 \<and> cnt_valid w ! interval w = v - s
    \<and> start_invalid w = 32 \<and> (start_valid w = 32 \<and> v = Suc s \<or> start_valid w = s \<or> start_valid w = Suc s \<and> Suc s < v)"

definition scan_inv :: "bool list \<Rightarrow> nat \<Rightarrow> win_scan \<Rightarrow> bool" where
  "scan_inv errs v w \<longleftrightarrow> recorded errs v w
    \<and> interval w + (if in_window errs v then 1 else 0) = window_starts errs v
    \<and> (if in_window errs v then \<exists>s. current errs v s w
       else start_valid w = 32 \<and> (interval w < 5 \<longrightarrow> cnt_valid w ! interval w = 0))"

lemma scan_inv_zero: "scan_inv errs 0 scan_zero"
  by (auto simp: scan_inv_def recorded_def in_window_def scan_zero_def run_ok_def)

lemma run_ok_Suc: "run_ok errs s v \<Longrightarrow> v < length errs \<Longrightarrow> \<not> errs ! v \<Longrightarrow> run_ok errs s (Suc v)"
  by (auto simp: run_ok_def less_Suc_eq)

lemma run_ok_before: "run_ok errs a b \<Longrightarrow> errs ! v \<Longrightarrow> b \<le> Suc v \<Longrightarrow> b \<le> v"
  by (cases "b = Suc v") (auto simp: run_ok_def)

text \<open>A run that ends with the current window lies in it.\<close>

lemma run_in_current:
  assumes "run_ok errs a b" "s = 0 \<or> errs ! (s - 1)" "s < b"
  shows "s \<le> a"
proof (rule ccontr)
  assume "\<not> s \<le> a"
  then have "a \<le> s - 1" "s - 1 < b" "s \<noteq> 0" using assms(3) by auto
  then show False using assms(1,2) by (auto simp: run_ok_def)
qed

lemma note_valid_inv:
  assumes "scan_inv errs v w" "length errs = 32" "v < 32" "\<not> errs ! v" "window_starts errs (Suc v) \<le> 5"
  shows "\<exists>w'. note_valid v w = Some w' \<and> scan_inv errs (Suc v) w'"
proof -
  have k: "interval w < 5"
    using assms(1,4,5) by (auto simp: scan_inv_def window_starts_Suc in_window_def split: if_splits)
  define sv where "sv = (if start_valid w = 32 then v else start_valid w)"
  define w' where "w' = w\<lparr>start_valid := (if start_invalid w \<noteq> 32 then 32 else sv), start_invalid := 32,
    cnt_valid := (cnt_valid w)[interval w := cnt_valid w ! interval w + 1]\<rparr>"
  have "sv \<noteq> 32" using assms(3) by (simp add: sv_def)
  then have step: "note_valid v w = Some w'"
    using k by (cases "start_invalid w = 32") (simp_all add: note_valid_def w'_def sv_def Let_def)
  have rec: "recorded errs v w" using assms(1) by (simp add: scan_inv_def)
  then have len: "length (cnt_valid w) = 5" by (simp add: recorded_def)
  obtain s where s: "run_ok errs s (Suc v)" "s = 0 \<or> errs ! (s - 1)" "cnt_valid w' ! interval w = Suc v - s"
      "start_valid w' = 32 \<and> v = s \<or> start_valid w' = s \<or> start_valid w' = Suc s \<and> Suc s < Suc v"
  proof (cases "in_window errs v")
    case True
    then obtain s where c: "current errs v s w" using assms(1) by (auto simp: scan_inv_def)
    then have "run_ok errs s (Suc v)" using run_ok_Suc assms(2-4) by (auto simp: current_def)
    moreover have "s < v" using c by (simp add: current_def run_ok_def)
    ultimately show ?thesis
      using c that [of s] len k \<open>sv \<noteq> 32\<close> assms(3) by (auto simp: current_def w'_def sv_def split: if_splits)
  next
    case False
    then have "start_valid w = 32 \<and> (interval w < 5 \<longrightarrow> cnt_valid w ! interval w = 0)"
      using assms(1) unfolding scan_inv_def by (metis (full_types))
    then have "start_valid w = 32" "cnt_valid w ! interval w = 0" using k by blast+
    moreover have "run_ok errs v (Suc v)" using assms(2-4) by (auto simp: run_ok_def less_Suc_eq)
    moreover have "v = 0 \<or> errs ! (v - 1)" using False by (auto simp: in_window_def)
    ultimately show ?thesis using that [of v] len k by (auto simp: w'_def sv_def)
  qed
  have "current errs (Suc v) s w'" using s k by (auto simp: current_def w'_def)
  moreover have "recorded errs (Suc v) w'"
  proof -
    have "\<exists>i \<le> interval w. i < 5 \<and> b - a \<le> cnt_valid w' ! i" if r: "run_ok errs a b" and b: "b \<le> Suc v" for a b
    proof (cases "b = Suc v")
      case True
      then have "s \<le> a" using run_in_current [OF r s(2)] s(1) by (simp add: run_ok_def)
      then show ?thesis using True s(3) k by (intro exI [of _ "interval w"]) simp
    next
      case False
      then obtain i where i: "i \<le> interval w" "i < 5" "b - a \<le> cnt_valid w ! i"
        using recorded_run [OF rec r] b by auto
      then have "cnt_valid w ! i \<le> cnt_valid w' ! i" using len by (cases "i = interval w") (simp_all add: w'_def)
      then show ?thesis using i by (intro exI [of _ i]) simp
    qed
    then show ?thesis using rec by (auto simp: recorded_def w'_def mid_of_def)
  qed
  moreover have "in_window errs (Suc v)" using assms(4) by (simp add: in_window_def)
  moreover have "interval w' + 1 = window_starts errs (Suc v)"
    using assms(1,4) by (auto simp: scan_inv_def window_starts_Suc in_window_def w'_def split: if_splits)
  ultimately show ?thesis using step by (auto simp: scan_inv_def)
qed


text \<open>A window of at least two delays that ends at \<open>e\<close> is recorded, with its middle.\<close>

lemma note_invalid_closes:
  assumes "recorded errs v w" "current errs v s w" "start_valid w \<noteq> 32" "val < 32" "val = v \<or> Suc val = v \<and> start_valid w \<le> Suc s \<and> s < val"
  shows "\<exists>w'. note_invalid val w = Some w' \<and> recorded errs v w' \<and> interval w' = Suc (interval w) \<and> start_valid w' = 32
    \<and> (\<forall>i. interval w' \<le> i \<and> i < 5 \<longrightarrow> cnt_valid w' ! i = 0)"
proof -
  let ?k = "interval w"
  have c: "run_ok errs s v" "?k < 5" "cnt_valid w ! ?k = v - s" "start_invalid w = 32"
      "start_valid w = s \<or> start_valid w = Suc s \<and> Suc s < v"
    using assms(2,3) by (auto simp: current_def)
  define w' where "w' = w\<lparr>valid_range := (valid_range w)[?k := start_valid w], invalid_range := (invalid_range w)[?k := val],
    start_valid := 32, start_invalid := 32, interval := Suc ?k\<rparr>"
  have step: "note_invalid val w = Some w'" using c assms(3,4) by (simp add: note_invalid_def w'_def Let_def)
  have len: "length (valid_range w) = 5" "length (invalid_range w) = 5" using assms(1) by (simp_all add: recorded_def)
  have "s < v" using c(1) by (simp add: run_ok_def)
  then have "s \<le> (start_valid w + val - 1) div 2" "(start_valid w + val - 1) div 2 < v"
    using c(5) assms(5) by auto
  then have mid: "s \<le> mid_of w' ?k" "mid_of w' ?k < v" using len c(2) by (simp_all add: mid_of_def w'_def)
  have "\<exists>a e. run_ok errs a e \<and> cnt_valid w' ! i = e - a \<and> a \<le> mid_of w' i \<and> mid_of w' i < e" if "i < interval w'" for i
  proof (cases "i = ?k")
    case True
    then show ?thesis using c(1,3) mid by (intro exI [of _ s] exI [of _ v]) (simp add: w'_def)
  next
    case False
    then have "i < ?k" using that by (simp add: w'_def)
    then show ?thesis using assms(1) by (simp add: recorded_def mid_of_def w'_def)
  qed
  moreover have "\<exists>i \<le> interval w'. i < 5 \<and> b - a \<le> cnt_valid w' ! i" if run: "run_ok errs a b" "b \<le> v" for a b
  proof -
    obtain i where "i \<le> ?k" "i < 5" "b - a \<le> cnt_valid w ! i" using recorded_run [OF assms(1) run] by blast
    then show ?thesis by (intro exI [of _ i]) (simp add: w'_def)
  qed
  ultimately have "recorded errs v w'" using assms(1) by (auto simp: recorded_def w'_def)
  moreover have "\<forall>i. interval w' \<le> i \<and> i < 5 \<longrightarrow> cnt_valid w' ! i = 0" using assms(1) by (auto simp: recorded_def w'_def)
  ultimately show ?thesis using step by (auto simp: w'_def)
qed

text \<open>No window in progress: only the start of an invalid range is noted.\<close>

lemma note_invalid_idle:
  assumes "start_valid w = 32"
  shows "\<exists>si. note_invalid v w = Some (w\<lparr>start_invalid := si\<rparr>)"
proof (cases "start_invalid w = 32")
  case True
  then show ?thesis using assms by (auto simp: note_invalid_def Let_def)
next
  case False
  then have "note_invalid v w = Some (w\<lparr>start_invalid := start_invalid w\<rparr>)" using assms by (simp add: note_invalid_def Let_def)
  then show ?thesis by blast
qed

lemma recorded_after_error: "recorded errs v w \<Longrightarrow> errs ! v \<Longrightarrow> recorded errs (Suc v) w"
  using run_ok_before by (fastforce simp: recorded_def)

lemma not_isolated:
  assumes "\<not> isolated errs s" "run_ok errs s (Suc s)" "s = 0 \<or> errs ! (s - 1)"
  shows "Suc s < length errs \<and> \<not> errs ! Suc s"
  using assms by (auto simp: isolated_def run_ok_def)

lemma note_invalid_inv:
  assumes "scan_inv errs v w" "length errs = 32" "v < 32" "errs ! v" "\<forall>u. \<not> isolated errs u"
  shows "\<exists>w'. note_invalid v w = Some w' \<and> scan_inv errs (Suc v) w'"
proof (cases "in_window errs v")
  case True
  then obtain s where c: "current errs v s w" and k: "Suc (interval w) = window_starts errs v" using assms(1) by (auto simp: scan_inv_def)
  have "start_valid w \<noteq> 32"
  proof
    assume "start_valid w = 32"
    moreover have "s < v" using c by (simp add: current_def run_ok_def)
    ultimately have "v = Suc s" using c assms(3) by (auto simp: current_def)
    then show False using not_isolated [of errs s] c assms(4,5) by (simp add: current_def)
  qed
  moreover have rec: "recorded errs v w" using assms(1) by (simp add: scan_inv_def)
  ultimately obtain w' where "note_invalid v w = Some w'" "recorded errs v w'" "interval w' = Suc (interval w)" "start_valid w' = 32"
      "\<forall>i. interval w' \<le> i \<and> i < 5 \<longrightarrow> cnt_valid w' ! i = 0"
    using note_invalid_closes [OF rec c _ assms(3)] by blast
  then show ?thesis
    using recorded_after_error [OF _ assms(4)] k assms(4) by (auto simp: scan_inv_def in_window_def window_starts_Suc)
next
  case False
  then have "start_valid w = 32" using assms(1) by (simp add: scan_inv_def)
  then obtain si where "note_invalid v w = Some (w\<lparr>start_invalid := si\<rparr>)" using note_invalid_idle by blast
  moreover have "recorded errs (Suc v) w" using assms(1,4) recorded_after_error by (simp add: scan_inv_def)
  ultimately show ?thesis
    using False assms(1,4) by (auto simp: scan_inv_def in_window_def window_starts_Suc recorded_def mid_of_def)
qed

text \<open>At the end every window is recorded, and the other counters are zero.\<close>

definition scan_done :: "bool list \<Rightarrow> win_scan \<Rightarrow> bool" where
  "scan_done errs w \<longleftrightarrow> recorded errs 32 w \<and> (\<forall>i. interval w \<le> i \<and> i < 5 \<longrightarrow> cnt_valid w ! i = 0)"

lemma scan_step_inv:
  assumes "scan_inv errs v w" "length errs = 32" "v < 31" "\<forall>u. \<not> isolated errs u" "window_starts errs 32 \<le> 5"
  shows "\<exists>w'. scan_step v (errs ! v) w = Some w' \<and> scan_inv errs (Suc v) w'"
proof (cases "errs ! v")
  case True
  then show ?thesis using note_invalid_inv [OF assms(1,2) _ True assms(4)] assms(3) by (simp add: scan_step_def)
next
  case False
  have "window_starts errs (Suc v) \<le> 5" using window_starts_mono [of "Suc v" 32 errs] assms(3,5) by simp
  then obtain w' where "note_valid v w = Some w'" "scan_inv errs (Suc v) w'"
    using note_valid_inv [OF assms(1,2) _ False] assms(3) by auto
  then show ?thesis using False assms(3) by (simp add: scan_step_def)
qed

lemma scan_last_inv:
  assumes "scan_inv errs 31 w" "length errs = 32" "\<forall>u. \<not> isolated errs u" "window_starts errs 32 \<le> 5"
  shows "\<exists>w'. scan_step 31 (errs ! 31) w = Some w' \<and> scan_done errs w'"
proof (cases "errs ! 31")
  case True
  then obtain w' where "note_invalid 31 w = Some w'" "scan_inv errs 32 w'"
    using note_invalid_inv [OF assms(1,2) _ True assms(3)] by auto
  moreover then have "cnt_valid w' ! i = 0" if "interval w' \<le> i" "i < 5" for i
    using that True by (cases "i = interval w'") (auto simp: scan_inv_def in_window_def recorded_def)
  ultimately show ?thesis using True by (auto simp: scan_step_def scan_done_def scan_inv_def)
next
  case False
  then obtain w1 where w1: "note_valid 31 w = Some w1" "scan_inv errs 32 w1"
    using note_valid_inv [OF assms(1,2) _ False] assms(4) by auto
  then obtain s where c: "current errs 32 s w1" using False by (auto simp: scan_inv_def in_window_def)
  have "s < 31"
  proof (rule ccontr)
    assume "\<not> s < 31"
    then have "s = 31" using c by (simp add: current_def run_ok_def)
    then show False using not_isolated [of errs 31] c assms(2,3) by (simp add: current_def)
  qed
  moreover then have "start_valid w1 \<noteq> 32" "start_valid w1 \<le> Suc s" using c by (auto simp: current_def)
  moreover have "recorded errs 32 w1" using w1(2) by (simp add: scan_inv_def)
  ultimately obtain w' where "note_invalid 31 w1 = Some w'" "scan_done errs w'"
    using note_invalid_closes [OF _ c, of 31] by (auto simp: scan_done_def)
  then show ?thesis using w1(1) False by (simp add: scan_step_def)
qed

lemma scan_from_done:
  assumes "length errs = 32" "\<forall>u. \<not> isolated errs u" "window_starts errs 32 \<le> 5"
  shows "v \<le> 31 \<Longrightarrow> scan_inv errs v w \<Longrightarrow> \<exists>w'. scan_from v (drop v errs) w = Some w' \<and> scan_done errs w'"
proof (induction "31 - v" arbitrary: v w)
  case 0
  then have "v = 31" by simp
  moreover obtain w' where "scan_step 31 (errs ! 31) w = Some w'" "scan_done errs w'"
    using scan_last_inv [OF _ assms] 0 \<open>v = 31\<close> by auto
  moreover have "drop 31 errs = [errs ! 31]" using assms(1) Cons_nth_drop_Suc [of 31 errs] by simp
  ultimately show ?case by simp
next
  case (Suc n)
  then have v: "v < 31" by simp
  then obtain w1 where "scan_step v (errs ! v) w = Some w1" "scan_inv errs (Suc v) w1"
    using scan_step_inv [OF Suc.prems(2) assms(1) v assms(2,3)] by blast
  moreover have "drop v errs = errs ! v # drop (Suc v) errs" using assms(1) v by (simp add: Cons_nth_drop_Suc)
  ultimately show ?case using Suc.hyps(1) [of "Suc v" w1] Suc.hyps(2) v by auto
qed

lemma max_interval_fold:
  fixes cnt :: "nat list"
  shows "fold (\<lambda>i (mx, mi). if cnt ! i > mx then (cnt ! i, i) else (mx, mi)) [0..<n] (0, 0) = (m, mi) \<Longrightarrow>
     (\<forall>i < n. cnt ! i \<le> m) \<and> (0 < m \<longrightarrow> mi < n \<and> m = cnt ! (mi :: nat)) \<and> (m = 0 \<longrightarrow> mi = 0)"
proof (induction n arbitrary: m mi)
  case (Suc n)
  obtain m' mi' where "fold (\<lambda>i (mx, mi). if cnt ! i > mx then (cnt ! i, i) else (mx, mi)) [0..<n] (0, 0) = (m', mi')"
    by (meson surj_pair)
  moreover from this have "(m, mi) = (if cnt ! n > m' then (cnt ! n, n) else (m', mi'))" using Suc.prems by simp
  ultimately show ?case using Suc.IH [of m' mi'] by (cases "cnt ! n > m'") (auto simp: less_Suc_eq)
qed simp

lemma max_interval_greatest: "i < 5 \<Longrightarrow> 0 < cnt ! i \<Longrightarrow> max_interval cnt < 5 \<and> cnt ! i \<le> cnt ! max_interval cnt"
proof -
  obtain m mi where m: "fold (\<lambda>i (mx, mi). if cnt ! i > mx then (cnt ! i, i) else (mx, mi)) [0..<5] (0, 0) = (m, mi)"
    by (meson surj_pair)
  assume "i < 5" "0 < cnt ! i"
  then have "max_interval cnt = mi" "cnt ! i \<le> m" "0 < m" using max_interval_fold [OF m] m
    by (simp_all add: max_interval_def) (use \<open>i < 5\<close> in \<open>force simp: Suc_le_eq\<close>)
  then show ?thesis using max_interval_fold [OF m] by simp
qed

text \<open>The delay that is chosen lies in a window, and no window is longer.\<close>

lemma scan_longest:
  assumes "length errs = 32" "\<forall>u. \<not> isolated errs u" "window_starts errs 32 \<le> 5" "run_ok errs c d"
  shows "\<exists>w a e. scan_from 0 errs scan_zero = Some w \<and> run_ok errs a e \<and> a \<le> middle_delay w \<and> middle_delay w < e
    \<and> (\<forall>a' e'. run_ok errs a' e' \<longrightarrow> e' - a' \<le> e - a)"
proof -
  obtain w where w: "scan_from 0 errs scan_zero = Some w" "scan_done errs w"
    using scan_from_done [OF assms(1-3), of 0 scan_zero] scan_inv_zero by auto
  then have rec: "recorded errs 32 w" and zero: "\<forall>i. interval w \<le> i \<and> i < 5 \<longrightarrow> cnt_valid w ! i = 0"
    by (simp_all add: scan_done_def)
  let ?m = "max_interval (cnt_valid w)"
  have all: "?m < 5 \<and> 0 < cnt_valid w ! ?m \<and> b - a \<le> cnt_valid w ! ?m" if r: "run_ok errs a b" for a b
  proof -
    have "a < b" "b \<le> 32" using r assms(1) by (simp_all add: run_ok_def)
    moreover then obtain i where "i < 5" "b - a \<le> cnt_valid w ! i" using recorded_run [OF rec r] by blast
    ultimately show ?thesis using max_interval_greatest [of i "cnt_valid w"] by linarith
  qed
  then have "?m < interval w" using zero all [OF assms(4)] by (metis less_irrefl not_le)
  then obtain a e where "run_ok errs a e" "cnt_valid w ! ?m = e - a" "a \<le> mid_of w ?m" "mid_of w ?m < e"
    using rec by (auto simp: recorded_def)
  then show ?thesis using w(1) all by (intro exI [of _ w] exI [of _ a] exI [of _ e]) (simp add: middle_delay_def mid_of_def Let_def)
qed

text \<open>A sixth window overruns the arrays.\<close>

lemma scan_from_overrun:
  assumes "length errs = 32" "\<forall>u. \<not> isolated errs u" "5 < window_starts errs 32"
  shows "v \<le> 31 \<Longrightarrow> scan_inv errs v w \<Longrightarrow> window_starts errs v \<le> 5 \<Longrightarrow> scan_from v (drop v errs) w = None"
proof (induction "31 - v" arbitrary: v w rule: less_induct)
  case less
  have split: "drop v errs = errs ! v # drop (Suc v) errs" using assms(1) less.prems(1) by (simp add: Cons_nth_drop_Suc)
  show ?case
  proof (cases "window_starts errs (Suc v) \<le> 5")
    case True
    then have "v \<noteq> 31" using assms(3) by auto
    then have v: "v < 31" using less.prems(1) by simp
    then have "\<exists>w'. scan_step v (errs ! v) w = Some w' \<and> scan_inv errs (Suc v) w'"
      using note_valid_inv [OF less.prems(2) assms(1) _ _ True] note_invalid_inv [OF less.prems(2) assms(1) _ _ assms(2)]
      by (cases "errs ! v") (auto simp: scan_step_def)
    then show ?thesis using less.hyps [of "Suc v"] True v split by auto
  next
    case False
    then have "\<not> errs ! v" "\<not> in_window errs v" "window_starts errs v = 5"
      using less.prems(3) by (auto simp: window_starts_Suc in_window_def split: if_splits)
    moreover then have "interval w = 5" using less.prems(2) by (simp add: scan_inv_def)
    ultimately show ?thesis using split by (simp add: scan_step_def note_valid_def Let_def split_beta)
  qed
qed

section \<open>The calibration of a core\<close>

text \<open>The pattern is received without errors just at the delays of \<open>good\<close>, whatever happened before.\<close>

definition good_delays :: "'s axi_bus \<Rightarrow> (u32 \<Rightarrow> 's \<Rightarrow> 's) \<Rightarrow> axi_adc \<Rightarrow> u32 \<Rightarrow> axi_adc_pn_sel \<Rightarrow> (nat \<Rightarrow> bool) \<Rightarrow> bool" where
  "good_delays bus mdelay adc no_of_lanes sel good \<longleftrightarrow>
     (\<forall>s. \<forall>d < 32. fst (axi_adc_pn_mon bus mdelay adc sel 100 (mdelay 20
       (snd (axi_adc_delay_set bus adc no_of_lanes (of_nat d) s)))) = 0 \<longleftrightarrow> good d)"

definition good_run :: "(nat \<Rightarrow> bool) \<Rightarrow> nat \<Rightarrow> nat \<Rightarrow> bool" where
  "good_run good a b \<longleftrightarrow> a < b \<and> b \<le> 32 \<and> (\<forall>u. a \<le> u \<and> u < b \<longrightarrow> good u)"

definition has_neighbours :: "(nat \<Rightarrow> bool) \<Rightarrow> bool" where
  "has_neighbours good \<longleftrightarrow> (\<forall>d < 32. good d \<longrightarrow> 0 < d \<and> good (d - 1) \<or> d < 31 \<and> good (d + 1))"

definition windows :: "(nat \<Rightarrow> bool) \<Rightarrow> nat" where
  "windows good = length (filter (\<lambda>d. good d \<and> (d = 0 \<or> \<not> good (d - 1))) [0..<32])"

definition bad_map :: "(nat \<Rightarrow> bool) \<Rightarrow> bool list" where
  "bad_map good = map (\<lambda>d. \<not> good d) [0..<32]"

lemma test_delays_good:
  assumes "good_delays bus mdelay adc no_of_lanes sel good"
  shows "delay + n \<le> 32 \<Longrightarrow> fst (test_delays bus mdelay adc no_of_lanes sel n delay s) = map (\<lambda>d. \<not> good d) [delay..<delay + n]"
proof (induction n arbitrary: delay s)
  case (Suc n)
  have "fst (axi_adc_pn_mon bus mdelay adc sel 100 (mdelay 20 (snd (axi_adc_delay_set bus adc no_of_lanes (of_nat delay) s)))) = 0
      \<longleftrightarrow> good delay" using assms Suc.prems by (simp add: good_delays_def)
  moreover have "[delay..<delay + Suc n] = delay # [Suc delay..<Suc delay + n]" by (simp add: upt_conv_Cons)
  ultimately show ?case using Suc.IH [of "Suc delay"] Suc.prems by (simp add: split_beta Let_def)
qed simp

lemma bad_map_simps [simp]: "length (bad_map good) = 32" "d < 32 \<Longrightarrow> bad_map good ! d = (\<not> good d)"
  by (simp_all add: bad_map_def)

lemma bad_map_run: "run_ok (bad_map good) a b = good_run good a b"
  by (auto simp: run_ok_def good_run_def)

lemma bad_map_isolated: "has_neighbours good \<Longrightarrow> \<not> isolated (bad_map good) v"
proof
  assume *: "has_neighbours good" and i: "isolated (bad_map good) v"
  then have v: "v < 32" "good v" "v = 0 \<or> \<not> good (v - 1)" "Suc v = 32 \<or> bad_map good ! Suc v"
    by (auto simp: isolated_def)
  then have "Suc v = 32 \<or> \<not> good (Suc v)" by (cases "Suc v < 32") auto
  then show False using * v by (auto simp: has_neighbours_def)
qed

lemma bad_map_windows: "window_starts (bad_map good) 32 = windows good"
proof -
  have "{u. u < 32 \<and> \<not> bad_map good ! u \<and> (u = 0 \<or> bad_map good ! (u - 1))}
      = set (filter (\<lambda>d. good d \<and> (d = 0 \<or> \<not> good (d - 1))) [0..<32])" by auto
  then show ?thesis unfolding window_starts_def windows_def by (simp only: distinct_card [OF distinct_filter [OF distinct_upt]])
qed

lemma bad_map_all: "d < 32 \<Longrightarrow> good d \<Longrightarrow> \<not> list_all id (bad_map good)"
  by (auto simp: list_all_length intro!: exI [of _ d])

lemma calibrate_unfold:
  assumes "good_delays bus mdelay adc no_of_lanes sel good" "d < 32" "good d"
  shows "axi_adc_delay_calibrate bus mdelay adc no_of_lanes sel s =
    (case scan_from 0 (bad_map good) scan_zero of None \<Rightarrow> None
     | Some w \<Rightarrow> Some (SUCCESS, snd (axi_adc_delay_set bus adc no_of_lanes (of_nat (middle_delay w))
         (snd (test_delays bus mdelay adc no_of_lanes sel 32 0 s)))))"
proof -
  have "fst (test_delays bus mdelay adc no_of_lanes sel 32 0 s) = bad_map good"
    using test_delays_good [OF assms(1), of 0 32] by (simp add: bad_map_def)
  then show ?thesis using bad_map_all [of d good] assms(2,3)
    by (simp add: axi_adc_delay_calibrate_def Let_def split_beta split: option.split)
qed

text \<open>
  C24. The calibration sets a delay in a longest interval of delays at which the pattern is
  received without errors, when these delays form at most five intervals and each interval has
  at least two of them.
\<close>

theorem axi_adc_delay_calibrate_longest:
  assumes "good_delays bus mdelay adc no_of_lanes sel good" "has_neighbours good" "windows good \<le> 5" "u < 32" "good u"
  shows "\<exists>d a e. axi_adc_delay_calibrate bus mdelay adc no_of_lanes sel s =
      Some (SUCCESS, snd (axi_adc_delay_set bus adc no_of_lanes (of_nat d) (snd (test_delays bus mdelay adc no_of_lanes sel 32 0 s))))
    \<and> good_run good a e \<and> a \<le> d \<and> d < e \<and> (\<forall>a' e'. good_run good a' e' \<longrightarrow> e' - a' \<le> e - a)"
proof -
  have "run_ok (bad_map good) u (Suc u)" using assms(4,5) by (auto simp: bad_map_run good_run_def less_Suc_eq)
  from scan_longest [OF _ _ _ this] obtain w a e where "scan_from 0 (bad_map good) scan_zero = Some w"
      "good_run good a e" "a \<le> middle_delay w" "middle_delay w < e" "\<forall>a' e'. good_run good a' e' \<longrightarrow> e' - a' \<le> e - a"
    using bad_map_isolated [OF assms(2)] assms(3) by (auto simp: bad_map_run bad_map_windows)
  then show ?thesis using calibrate_unfold [OF assms(1,4,5), of s] by auto
qed

text \<open>
  With more than five intervals the calibration writes beyond the ends of its arrays.
\<close>

theorem axi_adc_delay_calibrate_overrun:
  assumes "good_delays bus mdelay adc no_of_lanes sel good" "has_neighbours good" "5 < windows good"
  shows "axi_adc_delay_calibrate bus mdelay adc no_of_lanes sel s = None"
proof -
  have "filter (\<lambda>d. good d \<and> (d = 0 \<or> \<not> good (d - 1))) [0..<32] \<noteq> []" using assms(3) by (auto simp: windows_def)
  then obtain u where "u \<in> set [0..<32]" "good u" unfolding filter_empty_conv by blast
  then have "u < 32" "good u" by simp_all
  moreover have "scan_from 0 (bad_map good) scan_zero = None"
    using scan_from_overrun [of "bad_map good" 0 scan_zero] bad_map_isolated [OF assms(2)] assms(3) scan_inv_zero
    by (simp add: bad_map_windows)
  ultimately show ?thesis using calibrate_unfold [OF assms(1), of u s] by simp
qed

lemma lone_delay_lost: "\<forall>v \<in> set [1..<32]. map_option middle_delay (scan_from 0 (bad_map (\<lambda>d. d = v)) scan_zero) = Some 0"
  by code_simp

text \<open>
  C40. When the pattern is received at a single delay other than the first, the calibration
  reports success and sets delay 0, at which it is not received: a window of one delay after
  errors is not recorded.
\<close>

theorem axi_adc_delay_calibrate_lone_delay:
  assumes "good_delays bus mdelay adc no_of_lanes sel (\<lambda>d. d = v)" "0 < v" "v < 32"
  shows "axi_adc_delay_calibrate bus mdelay adc no_of_lanes sel s =
    Some (SUCCESS, snd (axi_adc_delay_set bus adc no_of_lanes 0 (snd (test_delays bus mdelay adc no_of_lanes sel 32 0 s))))"
proof -
  have "map_option middle_delay (scan_from 0 (bad_map (\<lambda>d. d = v)) scan_zero) = Some 0"
    using lone_delay_lost assms(2,3) by auto
  then show ?thesis using calibrate_unfold [OF assms(1,3) refl, of s] by auto
qed

text \<open>A core with one lane and one channel whose state is the delay of the lane.\<close>

definition lane_bus :: "nat list \<Rightarrow> u32 axi_bus" where
  "lane_bus gs = \<lparr>Xil_In32 = (\<lambda>a s. (if a = 0 then 0x90000 else if a = 0x404 then (if unat s \<in> set gs then 0 else 1) else 0, s)),
     Xil_Out32 = (\<lambda>a v s. if a = 0x800 then v else s)\<rparr>"

definition lane_adc :: axi_adc where
  "lane_adc = \<lparr>adc_name = '''', adc_base = 0, adc_num_channels = 1, adc_clock_hz = 0, adc_mask = 0\<rparr>"

lemma lane_delay: "snd (axi_adc_delay_set (lane_bus gs) lane_adc 1 d s) = d"
  by (simp add: axi_adc_delay_set_def axi_adc_read_def axi_adc_write_def axi_adc_idelay_set_def lane_delay_set_def
      lane_bus_def lane_adc_def AXI_ADC_REG_DELAY_def split_beta Let_def)

lemma lane_mon: "axi_adc_pn_mon (lane_bus gs) (\<lambda>_ s. s) lane_adc sel ms s = (if unat s \<in> set gs then 0 else FAILURE, s)"
  by (simp add: axi_adc_pn_mon_def pn_enable_def axi_adc_set_pnsel_def axi_adc_read_def axi_adc_write_def chans_def
      lane_bus_def lane_adc_def AXI_ADC_REG_CHAN_STATUS_def AXI_ADC_REG_CHAN_CNTRL_def AXI_ADC_REG_CHAN_CNTRL_3_def split_beta Let_def)

lemma lane_good: "good_delays (lane_bus gs) (\<lambda>_ s. s) lane_adc 1 sel (\<lambda>d. d \<in> set gs)"
  by (simp add: good_delays_def lane_delay lane_mon unat_of_nat take_bit_nat_eq_self)

theorem axi_adc_delay_calibrate_longest_witness:
  "\<exists>d. axi_adc_delay_calibrate (lane_bus ([4..<12] @ [20..<24])) (\<lambda>_ s. s) lane_adc 1 AXI_ADC_PN9 0 = Some (SUCCESS, of_nat d)
     \<and> 4 \<le> d \<and> d < 12"
proof -
  define gs where "gs = [4..<12] @ [20..<24::nat]"
  let ?g = "\<lambda>d. d \<in> set gs"
  have "has_neighbours ?g" by (auto simp: has_neighbours_def gs_def)
  moreover have "windows ?g \<le> 5" unfolding gs_def by code_simp
  moreover have "?g 4" by (simp add: gs_def)
  ultimately obtain d a e where c: "axi_adc_delay_calibrate (lane_bus gs) (\<lambda>_ s. s) lane_adc 1 AXI_ADC_PN9 0 = Some (SUCCESS, of_nat d)"
      "good_run ?g a e" "a \<le> d" "d < e" "\<forall>a' e'. good_run ?g a' e' \<longrightarrow> e' - a' \<le> e - a"
    using axi_adc_delay_calibrate_longest [OF lane_good, of gs 4 AXI_ADC_PN9 0] by (auto simp: lane_delay)
  have g: "a \<le> u \<Longrightarrow> u < e \<Longrightarrow> u \<in> {4..<12} \<union> {20..<24}" for u
    using c(2) unfolding good_run_def gs_def by auto
  have "good_run ?g 4 12" by (auto simp: good_run_def gs_def)
  then have "12 - 4 \<le> e - a" using c(5) by blast
  then have "a < e" "a + 7 < e" by simp_all
  then have "a = 4" using g [of a] g [of "a + 7"] by auto
  moreover then have "e \<le> 12" using g [of 12] by force
  ultimately show ?thesis using c(1,3,4) by (intro exI [of _ d]) (simp add: gs_def)
qed

theorem axi_adc_delay_calibrate_overrun_witness:
  "axi_adc_delay_calibrate (lane_bus [0, 1, 3, 4, 6, 7, 9, 10, 12, 13, 15, 16]) (\<lambda>_ s. s) lane_adc 1 AXI_ADC_PN9 0 = None"
proof (rule axi_adc_delay_calibrate_overrun [OF lane_good])
  show "has_neighbours (\<lambda>d. d \<in> set [0, 1, 3, 4, 6, 7, 9, 10, 12, 13, 15, 16])" by (auto simp: has_neighbours_def)
  show "5 < windows (\<lambda>d. d \<in> set [0, 1, 3, 4, 6, 7, 9, 10, 12, 13, 15, 16])" by code_simp
qed

theorem axi_adc_delay_calibrate_lone_delay_witness:
  "axi_adc_delay_calibrate (lane_bus [10]) (\<lambda>_ s. s) lane_adc 1 AXI_ADC_PN9 0 = Some (SUCCESS, 0)
   \<and> fst (axi_adc_pn_mon (lane_bus [10]) (\<lambda>_ s. s) lane_adc AXI_ADC_PN9 100 0) = FAILURE"
proof -
  have "good_delays (lane_bus [10]) (\<lambda>_ s. s) lane_adc 1 AXI_ADC_PN9 (\<lambda>d. d = 10)" using lane_good [of "[10]"] by simp
  from axi_adc_delay_calibrate_lone_delay [OF this, of 0] show ?thesis by (simp add: lane_delay lane_mon)
qed

section \<open>The correction coefficients\<close>

text \<open>The fraction of fourteen bits survives its rounding to millionths.\<close>

lemma millionths_round_trip: "k < 0x4000 \<Longrightarrow> ((k * 1000000 + 0x2000) div 0x4000 * 0x4000 + 500000) div 1000000 = (k :: nat)"
proof -
  assume "k < 0x4000"
  define q where "q = (k * 1000000 + 0x2000) div 0x4000"
  have "q * 0x4000 \<le> k * 1000000 + 0x2000" "k * 1000000 + 0x2000 < q * 0x4000 + 0x4000"
    unfolding q_def by (simp_all add: div_times_less_eq_dividend dividend_less_div_times)
  then have "k * 1000000 \<le> q * 0x4000 + 500000" "q * 0x4000 + 500000 < Suc k * 1000000" by simp_all
  then have "(q * 0x4000 + 500000) div 1000000 = k" by (intro div_nat_eqI) (simp_all add: mult.commute)
  then show ?thesis by (simp add: q_def)
qed

lemma and_single_bit: "(r :: u32) AND push_bit n 1 = (if bit r n then push_bit n 1 else 0)"
  by (rule bit_eqI) (auto simp: bit_simps)

lemma calib_bits:
  "(r :: u32) AND 0x8000 = (if bit r 15 then 0x8000 else 0)" "r AND 0x4000 = (if bit r 14 then 0x4000 else 0)"
  "r AND 0xC000 = (if bit r 15 then 0x8000 else 0) OR (if bit r 14 then 0x4000 else 0)"
proof -
  show *: "r AND 0x8000 = (if bit r 15 then 0x8000 else 0)" "r AND 0x4000 = (if bit r 14 then 0x4000 else 0)"
    using and_single_bit [of r 15] and_single_bit [of r 14] by simp_all
  have "r AND 0xC000 = (r AND 0x8000) OR (r AND 0x4000)" by (simp flip: bit.conj_disj_distrib)
  then show "r AND 0xC000 = (if bit r 15 then 0x8000 else 0) OR (if bit r 14 then 0x4000 else 0)" by (simp only: *)
qed

definition coeff_fraction :: "u32 \<Rightarrow> u64" where
  "coeff_fraction k = (ucast k * 1000000 + 0x4000 div 2) div 0x4000"

lemma unat_coeff_fraction: "k < 0x4000 \<Longrightarrow> unat (coeff_fraction k) = (unat k * 1000000 + 0x2000) div 0x4000"
  by (simp add: coeff_fraction_def unat_div word_less_nat_alt unat_word_ariths unsigned_ucast_eq take_bit_nat_eq_self)

lemma coeff_fraction_bounds: "k < 0x4000 \<Longrightarrow> unat (coeff_fraction k) \<le> 999939" "0 < k \<Longrightarrow> k < 0x4000 \<Longrightarrow> 61 \<le> unat (coeff_fraction k)"
proof -
  assume "k < 0x4000"
  moreover then have "unat k < 0x4000" by (simp add: word_less_nat_alt)
  ultimately show "unat (coeff_fraction k) \<le> 999939" by (simp add: unat_coeff_fraction)
next
  assume "0 < k" "k < 0x4000"
  moreover then have "0 < unat k" by (simp add: word_less_nat_alt)
  ultimately show "61 \<le> unat (coeff_fraction k)" by (simp add: unat_coeff_fraction)
qed

lemma calib_value_eq:
  "calib_value r = (let f = uint (coeff_fraction (r AND NOT 0xC000)) in
     if bit r 14 then (if bit r 15 then -1 else 1, f) else (0, if bit r 15 then - f else f))"
  unfolding calib_value_def calib_bits coeff_fraction_def Let_def by simp

definition coeff_word :: "u64 \<Rightarrow> u32" where
  "coeff_word f = ucast ((f * 0x4000 + 1000000 div 2) div 1000000)"

lemma calib_fract_eq:
  "uint f < 1000000 \<Longrightarrow> calib_fract 1 (uint f) = Some (Some (0x4000 OR coeff_word f))"
  "uint f < 1000000 \<Longrightarrow> calib_fract (-1) (uint f) = Some (Some (0xC000 OR coeff_word f))"
  "uint f < 1000000 \<Longrightarrow> calib_fract 0 (uint f) = Some (Some (coeff_word f))"
  "0 < uint f \<Longrightarrow> calib_fract 0 (- uint f) = (if uint f = 2 ^ 31 then None else Some (Some (0x8000 OR coeff_word f)))"
proof -
  have "uint f \<noteq> - 2147483648" using uint_ge_0 [of f] by linarith
  then show "uint f < 1000000 \<Longrightarrow> calib_fract 1 (uint f) = Some (Some (0x4000 OR coeff_word f))"
    "uint f < 1000000 \<Longrightarrow> calib_fract (-1) (uint f) = Some (Some (0xC000 OR coeff_word f))"
    "uint f < 1000000 \<Longrightarrow> calib_fract 0 (uint f) = Some (Some (coeff_word f))"
    "0 < uint f \<Longrightarrow> calib_fract 0 (- uint f) = (if uint f = 2 ^ 31 then None else Some (Some (0x8000 OR coeff_word f)))"
    unfolding calib_fract_def coeff_word_def Let_def by auto
qed

lemma coeff_word_fraction:
  assumes "k < 0x4000"
  shows "coeff_word (coeff_fraction k) = k"
proof -
  have "unat ((coeff_fraction k * 0x4000 + 500000) div 1000000) = unat k"
    using millionths_round_trip [of "unat k"] coeff_fraction_bounds(1) [OF assms] assms
    by (simp add: unat_div unat_word_ariths unat_coeff_fraction word_less_nat_alt)
  then show ?thesis by (simp add: coeff_word_def word_unat_eq_iff unsigned_ucast_eq take_bit_nat_eq_self)
qed

lemma calib_value_round_trip:
  assumes "r < 0x10000" "r \<noteq> 0x8000"
  shows "case_prod calib_fract (calib_value r) = Some (Some r)"
proof -
  define k where "k = r AND NOT 0xC000"
  have r: "(r AND 0xC000) OR k = r" by (simp add: k_def flip: bit.conj_disj_distrib)
  have m: "r AND 0xFFFF = r" using assms(1) less_mask_eq [of r 16] by (simp add: mask_eq_exp_minus_1)
  have "k = (r AND 0xFFFF) AND NOT 0xC000" unfolding m by (rule k_def)
  then have "k = r AND 0x3FFF" by (simp add: and.assoc)
  then have k: "k < 0x4000" using and_mask_less' [of 14 r] by (simp add: mask_eq_exp_minus_1)
  have "k = 0 \<Longrightarrow> bit r 15 \<Longrightarrow> bit r 14" using r assms(2) by (cases "bit r 14") (auto simp: calib_bits)
  moreover have "0 < k \<or> k = 0" by (simp add: word_gt_0)
  ultimately have pos: "bit r 15 \<Longrightarrow> \<not> bit r 14 \<Longrightarrow> 61 \<le> uint (coeff_fraction k)"
    using coeff_fraction_bounds(2) [OF _ k] unfolding uint_nat by (metis of_nat_mono of_nat_numeral)
  have small: "uint (coeff_fraction k) < 1000000" using coeff_fraction_bounds(1) [OF k] unfolding uint_nat by linarith
  note simps = calib_value_eq [of r, folded k_def] Let_def
  show ?thesis
  proof (cases "bit r 14")
    case True
    then show ?thesis using r small coeff_word_fraction [OF k] unfolding simps calib_bits by (cases "bit r 15") (simp_all add: calib_fract_eq)
  next
    case False
    then show ?thesis using r small pos coeff_word_fraction [OF k] unfolding simps calib_bits by (cases "bit r 15") (simp_all add: calib_fract_eq)
  qed
qed

text \<open>The two halves of the register of a channel.\<close>

lemma iqcor_halves:
  assumes "f < 0x10000"
  shows "AXI_ADC_TO_IQCOR_COEFF_1 ((t AND NOT (AXI_ADC_IQCOR_COEFF_1 (NOT 0))) OR AXI_ADC_IQCOR_COEFF_1 f) = f"
    "AXI_ADC_TO_IQCOR_COEFF_2 ((t AND NOT (AXI_ADC_IQCOR_COEFF_1 (NOT 0))) OR AXI_ADC_IQCOR_COEFF_1 f) = AXI_ADC_TO_IQCOR_COEFF_2 t"
    "AXI_ADC_TO_IQCOR_COEFF_2 ((t AND NOT (AXI_ADC_IQCOR_COEFF_2 (NOT 0))) OR AXI_ADC_IQCOR_COEFF_2 f) = f"
    "AXI_ADC_TO_IQCOR_COEFF_1 ((t AND NOT (AXI_ADC_IQCOR_COEFF_2 (NOT 0))) OR AXI_ADC_IQCOR_COEFF_2 f) = AXI_ADC_TO_IQCOR_COEFF_1 t"
proof -
  have f: "f = f AND mask 16" using assms less_mask_eq [of f 16] by simp
  have m: "(0xFFFF :: u32) = mask 16" by (simp add: mask_eq_exp_minus_1)
  show "AXI_ADC_TO_IQCOR_COEFF_1 ((t AND NOT (AXI_ADC_IQCOR_COEFF_1 (NOT 0))) OR AXI_ADC_IQCOR_COEFF_1 f) = f"
    by (subst (2) f, rule bit_eqI) (auto simp: AXI_ADC_IQCOR_COEFF_1_def AXI_ADC_TO_IQCOR_COEFF_1_def m bit_simps)
  show "AXI_ADC_TO_IQCOR_COEFF_2 ((t AND NOT (AXI_ADC_IQCOR_COEFF_1 (NOT 0))) OR AXI_ADC_IQCOR_COEFF_1 f) = AXI_ADC_TO_IQCOR_COEFF_2 t"
    by (rule bit_eqI) (auto simp: AXI_ADC_IQCOR_COEFF_1_def AXI_ADC_TO_IQCOR_COEFF_2_def m bit_simps)
  show "AXI_ADC_TO_IQCOR_COEFF_2 ((t AND NOT (AXI_ADC_IQCOR_COEFF_2 (NOT 0))) OR AXI_ADC_IQCOR_COEFF_2 f) = f"
    by (subst (2) f, rule bit_eqI) (auto simp: AXI_ADC_IQCOR_COEFF_2_def AXI_ADC_TO_IQCOR_COEFF_2_def m bit_simps)
  show "AXI_ADC_TO_IQCOR_COEFF_1 ((t AND NOT (AXI_ADC_IQCOR_COEFF_2 (NOT 0))) OR AXI_ADC_IQCOR_COEFF_2 f) = AXI_ADC_TO_IQCOR_COEFF_1 t"
    by (rule bit_eqI) (auto simp: AXI_ADC_IQCOR_COEFF_2_def AXI_ADC_TO_IQCOR_COEFF_1_def m bit_simps)
qed

lemma iqcor_write_back:
  "(t AND NOT (AXI_ADC_IQCOR_COEFF_1 (NOT 0))) OR AXI_ADC_IQCOR_COEFF_1 (AXI_ADC_TO_IQCOR_COEFF_1 t) = t"
  "(t AND NOT (AXI_ADC_IQCOR_COEFF_2 (NOT 0))) OR AXI_ADC_IQCOR_COEFF_2 (AXI_ADC_TO_IQCOR_COEFF_2 t) = t"
proof -
  have m: "(0xFFFF :: u32) = mask 16" by (simp add: mask_eq_exp_minus_1)
  show "(t AND NOT (AXI_ADC_IQCOR_COEFF_1 (NOT 0))) OR AXI_ADC_IQCOR_COEFF_1 (AXI_ADC_TO_IQCOR_COEFF_1 t) = t"
    by (rule bit_eqI) (auto simp: AXI_ADC_IQCOR_COEFF_1_def AXI_ADC_TO_IQCOR_COEFF_1_def m bit_simps)
  show "(t AND NOT (AXI_ADC_IQCOR_COEFF_2 (NOT 0))) OR AXI_ADC_IQCOR_COEFF_2 (AXI_ADC_TO_IQCOR_COEFF_2 t) = t"
    by (rule bit_eqI) (auto simp: AXI_ADC_IQCOR_COEFF_2_def AXI_ADC_TO_IQCOR_COEFF_2_def m bit_simps)
qed

lemma millionths_accurate:
  fixes v :: nat
  defines "k \<equiv> (v * 0x4000 + 500000) div 1000000"
  shows "(k * 1000000 + 0x2000) div 0x4000 \<le> v + 31" "v \<le> (k * 1000000 + 0x2000) div 0x4000 + 31"
proof -
  define f where "f = (k * 1000000 + 0x2000) div 0x4000"
  have "k * 1000000 \<le> v * 0x4000 + 500000" "v * 0x4000 + 500000 < k * 1000000 + 1000000"
    unfolding k_def by (simp_all add: div_times_less_eq_dividend dividend_less_div_times)
  moreover have "f * 0x4000 \<le> k * 1000000 + 0x2000" "k * 1000000 + 0x2000 < f * 0x4000 + 0x4000"
    unfolding f_def by (simp_all add: div_times_less_eq_dividend dividend_less_div_times)
  ultimately have "f \<le> v + 31" "v \<le> f + 31" by linarith+
  then show "(k * 1000000 + 0x2000) div 0x4000 \<le> v + 31" "v \<le> (k * 1000000 + 0x2000) div 0x4000 + 31"
    by (simp_all add: f_def)
qed

lemma coeff_word_accurate:
  assumes "unat v \<le> 999969"
  shows "coeff_word v < 0x4000 \<and> \<bar>uint (coeff_fraction (coeff_word v)) - uint v\<bar> \<le> 31"
proof -
  have "unat ((v * 0x4000 + 500000) div 1000000) = (unat v * 0x4000 + 500000) div 1000000"
    using assms by (simp add: unat_div unat_word_ariths)
  moreover have le: "(unat v * 0x4000 + 500000) div 1000000 < 0x4000" using assms by (simp add: less_mult_imp_div_less)
  ultimately have u: "unat (coeff_word v) = (unat v * 0x4000 + 500000) div 1000000"
    by (simp add: coeff_word_def unsigned_ucast_eq take_bit_nat_eq_self)
  then have lt: "coeff_word v < 0x4000" using le by (simp add: word_less_nat_alt)
  moreover have "unat (coeff_fraction (coeff_word v)) \<le> unat v + 31" "unat v \<le> unat (coeff_fraction (coeff_word v)) + 31"
    using millionths_accurate [of "unat v"] unfolding unat_coeff_fraction [OF lt] u by blast+
  ultimately show ?thesis unfolding uint_nat by linarith
qed

lemma calib_value_parts:
  assumes "k < 0x4000"
  shows "calib_value k = (0, uint (coeff_fraction k))" "calib_value (0x4000 OR k) = (1, uint (coeff_fraction k))"
    "calib_value (0x8000 OR k) = (0, - uint (coeff_fraction k))" "calib_value (0xC000 OR k) = (-1, uint (coeff_fraction k))"
proof -
  have k: "k AND 0x3FFF = k" using assms less_mask_eq [of k 14] by (simp add: mask_eq_exp_minus_1)
  have b: "\<not> bit k 14" "\<not> bit k 15" by (subst k [symmetric], simp add: bit_simps)+
  have "k AND NOT 0xC000 = k" "(0x4000 OR k) AND NOT 0xC000 = k" "(0x8000 OR k) AND NOT 0xC000 = k" "(0xC000 OR k) AND NOT 0xC000 = k"
    by (subst (1 2) k [symmetric], simp add: bit.conj_disj_distrib2 and.assoc)+
  then show "calib_value k = (0, uint (coeff_fraction k))" "calib_value (0x4000 OR k) = (1, uint (coeff_fraction k))"
    "calib_value (0x8000 OR k) = (0, - uint (coeff_fraction k))" "calib_value (0xC000 OR k) = (-1, uint (coeff_fraction k))"
    unfolding calib_value_eq Let_def using b by (simp_all add: bit_simps)
qed

lemma coeff_sizes:
  fixes k c :: u32
  assumes "k < 0x4000" "c AND 0xFFFF = c"
  shows "c OR k < 0x10000"
proof -
  have "k AND 0xFFFF = k" using assms(1) less_mask_eq [of k 16] by (simp add: mask_eq_exp_minus_1 word_less_nat_alt)
  then have "c OR k = (c OR k) AND 0xFFFF" using assms(2) by (simp add: bit.conj_disj_distrib2)
  then show ?thesis using and_mask_less' [of 16 "c OR k"] by (simp add: mask_eq_exp_minus_1)
qed

text \<open>What is set is read back with an error of at most 31 millionths, below the last two steps.\<close>

definition coeff_range :: "int \<Rightarrow> int \<Rightarrow> bool" where
  "coeff_range val val2 \<longleftrightarrow> \<bar>val2\<bar> \<le> 999969 \<and> (val = 0 \<or> \<bar>val\<bar> = 1 \<and> 0 \<le> val2)"

lemma calib_fract_accurate:
  assumes "coeff_range val val2"
  shows "\<exists>r w. calib_fract val val2 = Some (Some r) \<and> r < 0x10000 \<and> calib_value r = (val, w) \<and> \<bar>w - val2\<bar> \<le> 31"
proof -
  define v :: u64 where "v = of_int \<bar>val2\<bar>"
  have v: "uint v = \<bar>val2\<bar>" using assms by (simp add: v_def coeff_range_def uint_word_of_int)
  then have "unat v \<le> 999969" using assms unfolding coeff_range_def unat_eq_nat_uint by auto
  from coeff_word_accurate [OF this] have k: "coeff_word v < 0x4000"
      "\<bar>uint (coeff_fraction (coeff_word v)) - \<bar>val2\<bar>\<bar> \<le> 31" by (simp_all add: v)
  have small: "uint v < 1000000" using v assms by (simp add: coeff_range_def)
  note parts = calib_value_parts [OF k(1)]
  consider "val = 1" "val2 = uint v" | "val = -1" "val2 = uint v" | "val = 0" "val2 = uint v" | "val = 0" "val2 = - uint v" "0 < uint v"
    using assms v unfolding coeff_range_def by linarith
  then show ?thesis
  proof cases
    case 1
    then show ?thesis using calib_fract_eq(1) [OF small] parts(2) k coeff_sizes [OF k(1), where c = "0x4000"] by auto
  next
    case 2
    then show ?thesis using calib_fract_eq(2) [OF small] parts(4) k coeff_sizes [OF k(1), where c = "0xC000"] by auto
  next
    case 3
    then show ?thesis using calib_fract_eq(3) [OF small] parts(1) k coeff_sizes [OF k(1), where c = "0"] by auto
  next
    case 4
    then have "calib_fract val val2 = Some (Some (0x8000 OR coeff_word v))" using calib_fract_eq(4) [OF 4(3)] small by auto
    then show ?thesis using 4 parts(3) k coeff_sizes [OF k(1), where c = "0x8000"] by auto
  qed
qed

text \<open>
  The last 30 fractions round up to one, which is the bit of the integer part: it is set, and
  lost when it is set already.
\<close>

lemma coeff_word_top:
  assumes "999969 < unat v" "unat v \<le> 999999"
  shows "coeff_word v = 0x4000"
proof -
  have "unat ((v * 0x4000 + 500000) div 1000000) = (unat v * 0x4000 + 500000) div 1000000"
    using assms by (simp add: unat_div unat_word_ariths)
  moreover have "(unat v * 0x4000 + 500000) div 1000000 = 0x4000"
    using assms by (intro div_nat_eqI) simp_all
  ultimately have "unat (coeff_word v) = 0x4000"
    by (simp add: coeff_word_def unsigned_ucast_eq take_bit_nat_eq_self)
  then show ?thesis by (simp add: word_unat_eq_iff)
qed

lemma calib_fract_top:
  assumes "999969 < \<bar>val2\<bar>" "\<bar>val2\<bar> \<le> 999999" "val = 0 \<or> \<bar>val\<bar> = 1 \<and> 0 \<le> val2"
  shows "\<exists>r. calib_fract val val2 = Some (Some r) \<and> r < 0x10000
    \<and> calib_value r = (if val = 0 then sgn val2 else val, 0)"
proof -
  define v :: u64 where "v = of_int \<bar>val2\<bar>"
  have v: "uint v = \<bar>val2\<bar>" using assms by (simp add: v_def uint_word_of_int)
  then have top: "coeff_word v = 0x4000" using assms(1,2) by (intro coeff_word_top) (auto simp: unat_eq_nat_uint)
  have small: "uint v < 1000000" using v assms by simp
  have units: "calib_value 0x4000 = (1, 0)" "calib_value 0xC000 = (-1, 0)" by (simp_all add: calib_value_def)
  consider "val = 1" "val2 = uint v" | "val = -1" "val2 = uint v" | "val = 0" "val2 = uint v" | "val = 0" "val2 = - uint v" "0 < uint v"
    using assms v by linarith
  then show ?thesis
    by cases (use assms(1) small in \<open>simp_all add: calib_fract_eq top units flip: uint_0_iff\<close>)
qed

section \<open>Coefficients of a channel\<close>

text \<open>
  C25. A phase or scale correction that is set on a core whose registers keep what is written to
  them: for every fraction of at most 999969 millionths, and an integer part of 0 or plus or
  minus 1, it is read back with the same integer part and an error of at most 31 millionths. A
  fraction from 999970 to 999999 is rounded up to one: without an integer part plus or minus
  1.0 is read back, and with one the whole fraction is lost, although the call returns
  SUCCESS. In every case the other coefficient of the channel, in the other half of the
  register, stays what it was.
\<close>

theorem axi_adc_calib_set_get:
  assumes "\<bar>val2\<bar> < 1000000" "val = 0 \<or> \<bar>val\<bar> = 1 \<and> 0 \<le> val2"
  shows "\<exists>s' v w. axi_adc_set_calib_phase_scale reg_file_bus adc phase chan val val2 s = Some (SUCCESS, s')
    \<and> axi_adc_get_calib_phase_scale reg_file_bus adc phase chan s' = ((SUCCESS, v, w), s')
    \<and> (if \<bar>val2\<bar> \<le> 999969 then v = val \<and> \<bar>w - val2\<bar> \<le> 31 else v = (if val = 0 then sgn val2 else val) \<and> w = 0)
    \<and> fst (axi_adc_get_calib_phase_scale reg_file_bus adc (phase + 1) chan s')
        = fst (axi_adc_get_calib_phase_scale reg_file_bus adc (phase + 1) chan s)"
proof -
  obtain r v w where r: "calib_fract val val2 = Some (Some r)" "r < 0x10000" "calib_value r = (v, w)"
      "if \<bar>val2\<bar> \<le> 999969 then v = val \<and> \<bar>w - val2\<bar> \<le> 31 else v = (if val = 0 then sgn val2 else val) \<and> w = 0"
  proof (cases "\<bar>val2\<bar> \<le> 999969")
    case True
    then show ?thesis using calib_fract_accurate [of val val2] assms(2) that by (auto simp: coeff_range_def)
  next
    case False
    then show ?thesis using calib_fract_top [of val2 val] assms that by auto
  qed
  have "(chan + phase) mod 2 = 0 \<longleftrightarrow> even (phase + chan)" "(phase + chan) mod 2 = 0 \<longleftrightarrow> even (phase + chan)"
      "(phase + 1 + chan) mod 2 = 0 \<longleftrightarrow> odd (phase + chan)"
    by (simp_all add: add.commute flip: even_iff_mod_2_eq_zero)
  note flags = this
  have "\<exists>s'. axi_adc_set_calib_phase_scale reg_file_bus adc phase chan val val2 s = Some (SUCCESS, s')
    \<and> axi_adc_get_calib_phase_scale reg_file_bus adc phase chan s' = ((SUCCESS, v, w), s')
    \<and> fst (axi_adc_get_calib_phase_scale reg_file_bus adc (phase + 1) chan s')
        = fst (axi_adc_get_calib_phase_scale reg_file_bus adc (phase + 1) chan s)"
    by (cases "even (phase + chan)")
      (simp_all add: axi_adc_set_calib_phase_scale_def axi_adc_get_calib_phase_scale_def axi_adc_read_def axi_adc_write_def
        flags r(1,3) iqcor_halves [OF r(2), simplified] Let_def)
  then show ?thesis using r(4) by blast
qed

text \<open>
  Setting the value that was read from a coefficient writes the register back as it was,
  unless the coefficient is the encoding of minus zero.
\<close>

theorem axi_adc_calib_write_back:
  assumes "Xil_In32 bus (adc_base adc + AXI_ADC_REG_CHAN_CNTRL_2 chan) s = (t, s)"
    "(if even (phase + chan) then AXI_ADC_TO_IQCOR_COEFF_1 t else AXI_ADC_TO_IQCOR_COEFF_2 t) \<noteq> 0x8000"
    "axi_adc_get_calib_phase_scale bus adc phase chan s = ((SUCCESS, val, val2), s')"
  shows "axi_adc_set_calib_phase_scale bus adc phase chan val val2 s'
    = Some (SUCCESS, Xil_Out32 bus (adc_base adc + AXI_ADC_REG_CHAN_CNTRL_2 chan) t s)"
proof -
  define r where "r = (if even (phase + chan) then AXI_ADC_TO_IQCOR_COEFF_1 t else AXI_ADC_TO_IQCOR_COEFF_2 t)"
  have flags: "(chan + phase) mod 2 = 0 \<longleftrightarrow> even (phase + chan)" "(phase + chan) mod 2 = 0 \<longleftrightarrow> even (phase + chan)"
    by (simp_all add: add.commute flip: even_iff_mod_2_eq_zero)
  have get: "calib_value r = (val, val2)" "s' = s"
    using assms(1,3) by (auto simp: axi_adc_get_calib_phase_scale_def axi_adc_read_def flags r_def)
  have "r < 0x10000" using and_mask_less' [of 16 "drop_bit 16 t"] and_mask_less' [of 16 t]
    by (simp add: r_def AXI_ADC_TO_IQCOR_COEFF_1_def AXI_ADC_TO_IQCOR_COEFF_2_def mask_eq_exp_minus_1)
  then have "calib_fract val val2 = Some (Some r)" using calib_value_round_trip [of r] assms(2) get(1) by (simp add: r_def)
  then show ?thesis using assms(1)
    by (simp add: axi_adc_set_calib_phase_scale_def axi_adc_read_def axi_adc_write_def get(2) flags r_def iqcor_write_back [simplified] Let_def)
qed

theorem axi_adc_calib_set_get_witness:
  "(\<exists>s' w. axi_adc_set_calib_phase_scale reg_file_bus lane_adc 0 0 (-1) 250000 \<lparr>regs = \<lambda>_. 0, log = []\<rparr> = Some (SUCCESS, s')
      \<and> axi_adc_get_calib_phase_scale reg_file_bus lane_adc 0 0 s' = ((SUCCESS, -1, w), s') \<and> \<bar>w - 250000\<bar> \<le> 31)
   \<and> (\<exists>s'. axi_adc_set_calib_phase_scale reg_file_bus lane_adc 0 0 1 999980 \<lparr>regs = \<lambda>_. 0, log = []\<rparr> = Some (SUCCESS, s')
      \<and> axi_adc_get_calib_phase_scale reg_file_bus lane_adc 0 0 s' = ((SUCCESS, 1, 0), s'))"
  using axi_adc_calib_set_get [of 250000 "-1" lane_adc 0 0 "\<lparr>regs = \<lambda>_. 0, log = []\<rparr>"]
    axi_adc_calib_set_get [of 999980 1 lane_adc 0 0 "\<lparr>regs = \<lambda>_. 0, log = []\<rparr>"] by auto

theorem axi_adc_calib_write_back_witness:
  "\<exists>val val2 s'. axi_adc_get_calib_phase_scale reg_file_bus lane_adc 1 0 \<lparr>regs = \<lambda>_. 0x4000C001, log = []\<rparr> = ((SUCCESS, val, val2), s')
    \<and> axi_adc_set_calib_phase_scale reg_file_bus lane_adc 1 0 val val2 s'
      = Some (SUCCESS, Xil_Out32 reg_file_bus 0x414 0x4000C001 \<lparr>regs = \<lambda>_. 0x4000C001, log = []\<rparr>)"
proof -
  let ?s = "\<lparr>regs = \<lambda>_. 0x4000C001, log = []\<rparr>"
  obtain val val2 s' where g: "axi_adc_get_calib_phase_scale reg_file_bus lane_adc 1 0 ?s = ((SUCCESS, val, val2), s')"
    by (cases "calib_value (AXI_ADC_TO_IQCOR_COEFF_2 0x4000C001)") (simp add: axi_adc_get_calib_phase_scale_def axi_adc_read_def Let_def)
  then show ?thesis
    using axi_adc_calib_write_back [of reg_file_bus lane_adc 0 ?s "0x4000C001" 1 val val2 s']
    by (simp add: AXI_ADC_TO_IQCOR_COEFF_2_def lane_adc_def AXI_ADC_REG_CHAN_CNTRL_2_def)
qed

end
