(* ===== verification/Axi_Dac.thy ===== *)
theory Axi_Dac
  imports Axi_Adc
begin

text \<open>
  The driver of the AXI DAC core, drivers/axi_core/axi_dac_core: the tones of the direct digital
  synthesis, the correction coefficients, the tables of samples, the setup of the channels, and
  creation and removal. As in \<open>Axi_Adc\<close> the core is the bus parameter and \<open>mdelay\<close> what happens
  in it while the program waits. A division by zero, a read beyond an array and an overflow of a
  signed number are None.
\<close>

section \<open>Registers and data\<close>

definition AXI_DAC_REG_RSTN :: u32 where [simp]: "AXI_DAC_REG_RSTN = 0x40"
definition AXI_DAC_MMCM_RSTN :: u32 where [simp]: "AXI_DAC_MMCM_RSTN = 2"
definition AXI_DAC_RSTN :: u32 where [simp]: "AXI_DAC_RSTN = 1"
definition AXI_DAC_REG_SYNC_CONTROL :: u32 where [simp]: "AXI_DAC_REG_SYNC_CONTROL = 0x44"
definition AXI_DAC_SYNC :: u32 where [simp]: "AXI_DAC_SYNC = 1"
definition AXI_DAC_REG_RATECNTRL :: u32 where [simp]: "AXI_DAC_REG_RATECNTRL = 0x4C"
definition AXI_DAC_RATE :: "u32 \<Rightarrow> u32" where [simp]: "AXI_DAC_RATE x = x AND 0xFF"
definition AXI_DAC_REG_CLK_FREQ :: u32 where [simp]: "AXI_DAC_REG_CLK_FREQ = 0x54"
definition AXI_DAC_REG_CLK_RATIO :: u32 where [simp]: "AXI_DAC_REG_CLK_RATIO = 0x58"
definition AXI_DAC_REG_STATUS :: u32 where [simp]: "AXI_DAC_REG_STATUS = 0x5C"
definition AXI_DAC_REG_DDS_SCALE :: "u32 \<Rightarrow> u32" where
  "AXI_DAC_REG_DDS_SCALE x = 0x400 + drop_bit 1 x * 0x40 + (x AND 1) * 0x8"
definition AXI_DAC_DDS_SCALE :: "u32 \<Rightarrow> u32" where "AXI_DAC_DDS_SCALE x = x AND 0xFFFF"
definition AXI_DAC_TO_DDS_SCALE :: "u32 \<Rightarrow> u32" where "AXI_DAC_TO_DDS_SCALE x = x AND 0xFFFF"
definition AXI_DAC_REG_DDS_INIT_INCR :: "u32 \<Rightarrow> u32" where
  "AXI_DAC_REG_DDS_INIT_INCR x = 0x404 + drop_bit 1 x * 0x40 + (x AND 1) * 0x8"
definition AXI_DAC_DDS_INIT :: "u32 \<Rightarrow> u32" where "AXI_DAC_DDS_INIT x = push_bit 16 (x AND 0xFFFF)"
definition AXI_DAC_TO_DDS_INIT :: "u32 \<Rightarrow> u32" where "AXI_DAC_TO_DDS_INIT x = drop_bit 16 x AND 0xFFFF"
definition AXI_DAC_DDS_INCR :: "u32 \<Rightarrow> u32" where "AXI_DAC_DDS_INCR x = x AND 0xFFFF"
definition DAC_REG_DATA_PATTERN :: "u32 \<Rightarrow> u32" where "DAC_REG_DATA_PATTERN c = 0x0410 + c * 0x40"
definition AXI_DAC_REG_DATA_SELECT :: "u32 \<Rightarrow> u32" where "AXI_DAC_REG_DATA_SELECT c = 0x0418 + c * 0x40"
definition AXI_DAC_REG_CHAN_CNTRL_6 :: "u32 \<Rightarrow> u32" where "AXI_DAC_REG_CHAN_CNTRL_6 c = 0x0414 + c * 0x40"
definition AXI_DAC_IQCOR_ENB :: u32 where [simp]: "AXI_DAC_IQCOR_ENB = 4"
definition AXI_DAC_REG_CHAN_CNTRL_7 :: "u32 \<Rightarrow> u32" where "AXI_DAC_REG_CHAN_CNTRL_7 c = 0x0418 + c * 0x40"
definition AXI_DAC_REG_CHAN_CNTRL_8 :: "u32 \<Rightarrow> u32" where "AXI_DAC_REG_CHAN_CNTRL_8 c = 0x041C + c * 0x40"
definition AXI_DAC_IQCOR_COEFF_1 :: "u32 \<Rightarrow> u32" where "AXI_DAC_IQCOR_COEFF_1 x = push_bit 16 (x AND 0xFFFF)"
definition AXI_DAC_TO_IQCOR_COEFF_1 :: "u32 \<Rightarrow> u32" where "AXI_DAC_TO_IQCOR_COEFF_1 x = drop_bit 16 x AND 0xFFFF"
definition AXI_DAC_IQCOR_COEFF_2 :: "u32 \<Rightarrow> u32" where "AXI_DAC_IQCOR_COEFF_2 x = x AND 0xFFFF"
definition AXI_DAC_TO_IQCOR_COEFF_2 :: "u32 \<Rightarrow> u32" where "AXI_DAC_TO_IQCOR_COEFF_2 x = x AND 0xFFFF"

definition sine_lut :: "u16 list" where
  "sine_lut = [
    0x0, 0x64, 0xC8, 0x12C, 0x18F, 0x1F1, 0x252, 0x2B1, 0x30F, 0x36B, 0x3C5, 0x41C, 0x471, 0x4C3, 0x512, 0x55F,
    0x5A7, 0x5ED, 0x62E, 0x66C, 0x6A6, 0x6DC, 0x70D, 0x73A, 0x763, 0x787, 0x7A7, 0x7C2, 0x7D8, 0x7E9, 0x7F5, 0x7FD,
    0x7FF, 0x7FD, 0x7F5, 0x7E9, 0x7D8, 0x7C2, 0x7A7, 0x787, 0x763, 0x73A, 0x70D, 0x6DC, 0x6A6, 0x66C, 0x62E, 0x5ED,
    0x5A7, 0x55F, 0x512, 0x4C3, 0x471, 0x41C, 0x3C5, 0x36B, 0x30F, 0x2B1, 0x252, 0x1F1, 0x18F, 0x12C, 0xC8, 0x64,
    0x0, 0xF9B, 0xF37, 0xED3, 0xE70, 0xE0E, 0xDAD, 0xD4E, 0xCF0, 0xC94, 0xC3A, 0xBE3, 0xB8E, 0xB3C, 0xAED, 0xAA0,
    0xA58, 0xA12, 0x9D1, 0x993, 0x959, 0x923, 0x8F2, 0x8C5, 0x89C, 0x878, 0x858, 0x83D, 0x827, 0x816, 0x80A, 0x802,
    0x800, 0x802, 0x80A, 0x816, 0x827, 0x83D, 0x858, 0x878, 0x89C, 0x8C5, 0x8F2, 0x923, 0x959, 0x993, 0x9D1, 0xA12,
    0xA58, 0xAA0, 0xAED, 0xB3C, 0xB8E, 0xBE3, 0xC3A, 0xC94, 0xCF0, 0xD4E, 0xDAD, 0xE0E, 0xE70, 0xED3, 0xF37, 0xF9B]"

text \<open>The table of pairs of samples repeats one period of 128 pairs eight times.\<close>

definition sine_lut_iq :: "u32 list" where
  "sine_lut_iq = concat (replicate 8 [
    0x00002666, 0x01E2265A, 0x03C32636, 0x05A225FB, 0x077D25A9, 0x0954253F, 0x0B2524BE, 0x0CEF2427,
    0x0EB12379, 0x106A22B6, 0x121921DD, 0x13BD20EF, 0x15551FED, 0x16DF1ED7, 0x185C1DAE, 0x19C91C73,
    0x1B261B26, 0x1C7319C9, 0x1DAE185C, 0x1ED716DF, 0x1FED1555, 0x20EF13BD, 0x21DD1219, 0x22B6106A,
    0x23790EB1, 0x24270CEF, 0x24BE0B25, 0x253F0954, 0x25A9077D, 0x25FB05A2, 0x263603C3, 0x265A01E2,
    0x26660000, 0x265AFE1E, 0x2636FC3D, 0x25FBFA5E, 0x25A9F883, 0x253FF6AC, 0x24BEF4DB, 0x2427F311,
    0x2379F14F, 0x22B6EF96, 0x21DDEDE7, 0x20EFEC43, 0x1FEDEAAB, 0x1ED7E921, 0x1DAEE7A4, 0x1C73E637,
    0x1B26E4DA, 0x19C9E38D, 0x185CE252, 0x16DFE129, 0x1555E013, 0x13BDDF11, 0x1219DE23, 0x106ADD4A,
    0x0EB1DC87, 0x0CEFDBD9, 0x0B25DB42, 0x0954DAC1, 0x077DDA57, 0x05A2DA05, 0x03C3D9CA, 0x01E2D9A6,
    0x0000D99A, 0xFE1ED9A6, 0xFC3DD9CA, 0xFA5EDA05, 0xF883DA57, 0xF6ACDAC1, 0xF4DBDB42, 0xF311DBD9,
    0xF14FDC87, 0xEF96DD4A, 0xEDE7DE23, 0xEC43DF11, 0xEAABE013, 0xE921E129, 0xE7A4E252, 0xE637E38D,
    0xE4DAE4DA, 0xE38DE637, 0xE252E7A4, 0xE129E921, 0xE013EAAB, 0xDF11EC43, 0xDE23EDE7, 0xDD4AEF96,
    0xDC87F14F, 0xDBD9F311, 0xDB42F4DB, 0xDAC1F6AC, 0xDA57F883, 0xDA05FA5E, 0xD9CAFC3D, 0xD9A6FE1E,
    0xD99A0000, 0xD9A601E2, 0xD9CA03C3, 0xDA0505A2, 0xDA57077D, 0xDAC10954, 0xDB420B25, 0xDBD90CEF,
    0xDC870EB1, 0xDD4A106A, 0xDE231219, 0xDF1113BD, 0xE0131555, 0xE12916DF, 0xE252185C, 0xE38D19C9,
    0xE4DA1B26, 0xE6371C73, 0xE7A41DAE, 0xE9211ED7, 0xEAAB1FED, 0xEC4320EF, 0xEDE721DD, 0xEF9622B6,
    0xF14F2379, 0xF3112427, 0xF4DB24BE, 0xF6AC253F, 0xF88325A9, 0xFA5E25FB, 0xFC3D2636, 0xFE1E265A])"

datatype axi_dac_data_sel = AXI_DAC_DATA_SEL_DDS | AXI_DAC_DATA_SEL_SED | AXI_DAC_DATA_SEL_DMA | AXI_DAC_DATA_SEL_ZERO
  | AXI_DAC_DATA_SEL_PN7 | AXI_DAC_DATA_SEL_PN15 | AXI_DAC_DATA_SEL_PN23 | AXI_DAC_DATA_SEL_PN31
  | AXI_DAC_DATA_SEL_LB | AXI_DAC_DATA_SEL_PNXX

fun data_sel_value :: "axi_dac_data_sel \<Rightarrow> u32" where
  "data_sel_value AXI_DAC_DATA_SEL_DDS = 0" | "data_sel_value AXI_DAC_DATA_SEL_SED = 1"
| "data_sel_value AXI_DAC_DATA_SEL_DMA = 2" | "data_sel_value AXI_DAC_DATA_SEL_ZERO = 3"
| "data_sel_value AXI_DAC_DATA_SEL_PN7 = 4" | "data_sel_value AXI_DAC_DATA_SEL_PN15 = 5"
| "data_sel_value AXI_DAC_DATA_SEL_PN23 = 6" | "data_sel_value AXI_DAC_DATA_SEL_PN31 = 7"
| "data_sel_value AXI_DAC_DATA_SEL_LB = 8" | "data_sel_value AXI_DAC_DATA_SEL_PNXX = 9"

record axi_dac_channel =
  dds_frequency_0 :: u32
  dds_phase_0 :: u32
  dds_scale_0 :: int
  dds_frequency_1 :: u32
  dds_phase_1 :: u32
  dds_scale_1 :: int
  dds_dual_tone :: u32
  pat_data :: u32
  data_sel :: axi_dac_data_sel

text \<open>The pointer to the channels is NULL or an array of the length the caller gave it.\<close>

record axi_dac =
  dac_name :: string
  dac_base :: u32
  dac_num_channels :: u8
  dac_clock_hz :: u64
  dac_channels :: "axi_dac_channel list option"

record axi_dac_init_param =
  dini_name :: string
  dini_base :: u32
  dini_num_channels :: u8
  dini_channels :: "axi_dac_channel list option"

section \<open>Register access\<close>

definition axi_dac_read :: "'s axi_bus \<Rightarrow> axi_dac \<Rightarrow> u32 \<Rightarrow> 's \<Rightarrow> (int \<times> u32) \<times> 's" where
  "axi_dac_read bus dac reg_addr s =
     (case run_state (axi_io_read bus (dac_base dac) reg_addr) s of ((_, reg_data), s) \<Rightarrow> ((SUCCESS, reg_data), s))"

definition axi_dac_write :: "'s axi_bus \<Rightarrow> axi_dac \<Rightarrow> u32 \<Rightarrow> u32 \<Rightarrow> 's \<Rightarrow> int \<times> 's" where
  "axi_dac_write bus dac reg_addr reg_data s =
     (case run_state (axi_io_write bus (dac_base dac) reg_addr reg_data) s of (_, s) \<Rightarrow> (SUCCESS, s))"

text \<open>The numbers below the number of channels.\<close>

definition dac_chans :: "axi_dac \<Rightarrow> u32 list" where
  "dac_chans dac = map of_nat [0..<unat (dac_num_channels dac)]"

definition axi_dac_set_datasel :: "'s axi_bus \<Rightarrow> axi_dac \<Rightarrow> int \<Rightarrow> axi_dac_data_sel \<Rightarrow> 's \<Rightarrow> int \<times> 's" where
  "axi_dac_set_datasel bus dac chan sel s =
     (let s = (if chan < 0
               then fold (\<lambda>i s. snd (axi_dac_write bus dac (AXI_DAC_REG_CHAN_CNTRL_7 i) (data_sel_value sel) s)) (dac_chans dac) s
               else snd (axi_dac_write bus dac (AXI_DAC_REG_CHAN_CNTRL_7 (of_int chan)) (data_sel_value sel) s));
          (_, s) = axi_dac_write bus dac AXI_DAC_REG_SYNC_CONTROL AXI_DAC_SYNC s
      in (SUCCESS, s))"

section \<open>Direct digital synthesis\<close>

definition axi_dac_dds_set_frequency :: "'s axi_bus \<Rightarrow> axi_dac \<Rightarrow> u32 \<Rightarrow> u32 \<Rightarrow> 's \<Rightarrow> (int \<times> 's) option" where
  "axi_dac_dds_set_frequency bus dac chan freq_hz s = do {
     let (_, s) = axi_dac_write bus dac AXI_DAC_REG_SYNC_CONTROL 0 s;
     let ((_, reg), s) = axi_dac_read bus dac (AXI_DAC_REG_DDS_INIT_INCR chan) s;
     guard (dac_clock_hz dac \<noteq> 0);
     let val64 = (ucast freq_hz * 0xFFFF) div dac_clock_hz dac;
     let reg = (reg AND NOT (AXI_DAC_DDS_INCR (NOT 0))) OR AXI_DAC_DDS_INCR (ucast val64) OR 1;
     let (_, s) = axi_dac_write bus dac (AXI_DAC_REG_DDS_INIT_INCR chan) reg s;
     let (_, s) = axi_dac_write bus dac AXI_DAC_REG_SYNC_CONTROL AXI_DAC_SYNC s;
     Some (SUCCESS, s)}"

definition axi_dac_dds_get_frequency :: "'s axi_bus \<Rightarrow> axi_dac \<Rightarrow> u32 \<Rightarrow> 's \<Rightarrow> (int \<times> u32) \<times> 's" where
  "axi_dac_dds_get_frequency bus dac chan s =
     (let (_, s) = axi_dac_write bus dac AXI_DAC_REG_SYNC_CONTROL 0 s;
          ((_, reg), s) = axi_dac_read bus dac (AXI_DAC_REG_DDS_INIT_INCR chan) s;
          (_, s) = axi_dac_write bus dac AXI_DAC_REG_SYNC_CONTROL AXI_DAC_SYNC s;
          reg = reg AND AXI_DAC_DDS_INCR (NOT 0);
          val64 = (ucast reg * dac_clock_hz dac :: u64) div 0xFFFF
      in ((SUCCESS, ucast val64), s))"

definition axi_dac_dds_set_phase :: "'s axi_bus \<Rightarrow> axi_dac \<Rightarrow> u32 \<Rightarrow> u32 \<Rightarrow> 's \<Rightarrow> int \<times> 's" where
  "axi_dac_dds_set_phase bus dac chan phase s =
     (let (_, s) = axi_dac_write bus dac AXI_DAC_REG_SYNC_CONTROL 0 s;
          ((_, reg), s) = axi_dac_read bus dac (AXI_DAC_REG_DDS_INIT_INCR chan) s;
          val64 = (ucast phase * 0x10000 + 360000 div 2 :: u64) div 360000;
          reg = (reg AND NOT (AXI_DAC_DDS_INIT (NOT 0))) OR AXI_DAC_DDS_INIT (ucast val64);
          (_, s) = axi_dac_write bus dac (AXI_DAC_REG_DDS_INIT_INCR chan) reg s;
          (_, s) = axi_dac_write bus dac AXI_DAC_REG_SYNC_CONTROL AXI_DAC_SYNC s
      in (SUCCESS, s))"

definition axi_dac_dds_get_phase :: "'s axi_bus \<Rightarrow> axi_dac \<Rightarrow> u32 \<Rightarrow> 's \<Rightarrow> (int \<times> u32) \<times> 's" where
  "axi_dac_dds_get_phase bus dac chan s =
     (let (_, s) = axi_dac_write bus dac AXI_DAC_REG_SYNC_CONTROL 0 s;
          ((_, reg), s) = axi_dac_read bus dac (AXI_DAC_REG_DDS_INIT_INCR chan) s;
          (_, s) = axi_dac_write bus dac AXI_DAC_REG_SYNC_CONTROL AXI_DAC_SYNC s;
          reg = reg AND AXI_DAC_DDS_INIT (NOT 0);
          reg = AXI_DAC_TO_DDS_INIT reg;
          val64 = (ucast reg * 360000 + 0x10000 div 2 :: u64) div 0x10000
      in ((SUCCESS, ucast val64), s))"

text \<open>Sign and magnitude of a scale, in steps of one 0x4000th.\<close>

definition scale_field :: "int \<Rightarrow> u32" where
  "scale_field scale_micro_units =
     (let scale_reg = of_int \<bar>scale_micro_units\<bar> :: u32;
          scale_reg = (if scale_reg \<ge> 1999000 then 1999000 else scale_reg);
          scale_reg = ucast ((ucast scale_reg * 0x4000 :: u64) div 1000000)
      in if scale_micro_units < 0 then scale_reg OR 0x8000 else scale_reg)"

definition axi_dac_dds_set_scale :: "'s axi_bus \<Rightarrow> axi_dac \<Rightarrow> u32 \<Rightarrow> int \<Rightarrow> 's \<Rightarrow> (int \<times> 's) option" where
  "axi_dac_dds_set_scale bus dac chan scale_micro_units s = do {
     guard (scale_micro_units \<noteq> - (2 ^ 31));
     let scale_reg = scale_field scale_micro_units;
     let (_, s) = axi_dac_write bus dac AXI_DAC_REG_SYNC_CONTROL 0 s;
     let (_, s) = axi_dac_write bus dac (AXI_DAC_REG_DDS_SCALE chan) (AXI_DAC_DDS_SCALE scale_reg) s;
     let (_, s) = axi_dac_write bus dac AXI_DAC_REG_SYNC_CONTROL AXI_DAC_SYNC s;
     Some (SUCCESS, s)}"

definition scale_value :: "u32 \<Rightarrow> int" where
  "scale_value scale_reg =
     (let sgn = (if scale_reg AND 0x8000 \<noteq> 0 then -1 else 1);
          scale_reg = scale_reg AND NOT 0x8000;
          scale_reg = ucast ((ucast scale_reg * 1000000 :: u64) div 0x4000) :: u32
      in sint scale_reg * sgn)"

definition axi_dac_dds_get_scale :: "'s axi_bus \<Rightarrow> axi_dac \<Rightarrow> u32 \<Rightarrow> 's \<Rightarrow> (int \<times> int) \<times> 's" where
  "axi_dac_dds_get_scale bus dac chan s =
     (let (_, s) = axi_dac_write bus dac AXI_DAC_REG_SYNC_CONTROL 0 s;
          ((_, scale_reg), s) = axi_dac_read bus dac (AXI_DAC_REG_DDS_SCALE chan) s;
          (_, s) = axi_dac_write bus dac AXI_DAC_REG_SYNC_CONTROL AXI_DAC_SYNC s
      in ((SUCCESS, scale_value (AXI_DAC_TO_DDS_SCALE scale_reg)), s))"

section \<open>Correction coefficients\<close>

text \<open>As in axi_adc_core, but a number that cannot be encoded counts as zero.\<close>

definition axi_dac_dds_to_signed_mag_fmt :: "int \<Rightarrow> int \<Rightarrow> u32 option" where
  "axi_dac_dds_to_signed_mag_fmt val val2 = do {
     guard (val \<noteq> 0 \<or> val2 \<noteq> - (2 ^ 31));
     let (i, val2) = (if val = 1 then (0x4000, val2)
                      else if val = -1 then (0xC000, val2)
                      else if val = 0 then (if val2 < 0 then (0x8000, - val2) else (0, val2))
                      else (0, val2));
     let val64 = (of_int val2 * 0x4000 + 1000000 div 2 :: u64) div 1000000;
     Some (ucast (ucast (i :: u32) OR val64))}"

definition axi_dac_dds_from_signed_mag_fmt :: "u32 \<Rightarrow> int \<times> int" where
  "axi_dac_dds_from_signed_mag_fmt val =
     (let sgn = (if val AND 0x8000 \<noteq> 0 then -1 else 1);
          r_val = (if val AND 0x4000 \<noteq> 0 then 1 * sgn else 0);
          val = val AND NOT 0xC000;
          val64 = (ucast val * 1000000 + 0x4000 div 2 :: u64) div 0x4000
      in (r_val, if r_val = 0 then uint val64 * sgn else uint val64))"

definition axi_dac_dds_set_calib_phase_scale :: "'s axi_bus \<Rightarrow> axi_dac \<Rightarrow> u32 \<Rightarrow> u32 \<Rightarrow> int \<Rightarrow> int \<Rightarrow> 's \<Rightarrow> (int \<times> 's) option" where
  "axi_dac_dds_set_calib_phase_scale bus dac phase chan val val2 s = do {
     i \<leftarrow> axi_dac_dds_to_signed_mag_fmt val val2;
     let ((_, reg), s) = axi_dac_read bus dac (AXI_DAC_REG_CHAN_CNTRL_8 chan) s;
     let reg = (if (chan + phase) mod 2 = 0
                then (reg AND NOT (AXI_DAC_IQCOR_COEFF_1 (NOT 0))) OR AXI_DAC_IQCOR_COEFF_1 i
                else (reg AND NOT (AXI_DAC_IQCOR_COEFF_2 (NOT 0))) OR AXI_DAC_IQCOR_COEFF_2 i);
     let (_, s) = axi_dac_write bus dac (AXI_DAC_REG_CHAN_CNTRL_8 chan) reg s;
     let (_, s) = axi_dac_write bus dac (AXI_DAC_REG_CHAN_CNTRL_6 chan) AXI_DAC_IQCOR_ENB s;
     Some (SUCCESS, s)}"

definition axi_dac_dds_get_calib_phase_scale :: "'s axi_bus \<Rightarrow> axi_dac \<Rightarrow> u32 \<Rightarrow> u32 \<Rightarrow> 's \<Rightarrow> (int \<times> int \<times> int) \<times> 's" where
  "axi_dac_dds_get_calib_phase_scale bus dac phase chan s =
     (let ((_, reg), s) = axi_dac_read bus dac (AXI_DAC_REG_CHAN_CNTRL_8 chan) s;
          reg = (if (phase + chan) mod 2 = 0 then AXI_DAC_TO_IQCOR_COEFF_1 reg else AXI_DAC_TO_IQCOR_COEFF_2 reg)
      in ((SUCCESS, axi_dac_dds_from_signed_mag_fmt reg), s))"

definition axi_dac_dds_set_calib_scale :: "'s axi_bus \<Rightarrow> axi_dac \<Rightarrow> u32 \<Rightarrow> int \<Rightarrow> int \<Rightarrow> 's \<Rightarrow> (int \<times> 's) option" where
  "axi_dac_dds_set_calib_scale bus dac chan val val2 s = axi_dac_dds_set_calib_phase_scale bus dac 0 chan val val2 s"
definition axi_dac_dds_get_calib_scale :: "'s axi_bus \<Rightarrow> axi_dac \<Rightarrow> u32 \<Rightarrow> 's \<Rightarrow> (int \<times> int \<times> int) \<times> 's" where
  "axi_dac_dds_get_calib_scale bus dac chan s = axi_dac_dds_get_calib_phase_scale bus dac 0 chan s"
definition axi_dac_dds_set_calib_phase :: "'s axi_bus \<Rightarrow> axi_dac \<Rightarrow> u32 \<Rightarrow> int \<Rightarrow> int \<Rightarrow> 's \<Rightarrow> (int \<times> 's) option" where
  "axi_dac_dds_set_calib_phase bus dac chan val val2 s = axi_dac_dds_set_calib_phase_scale bus dac 1 chan val val2 s"
definition axi_dac_dds_get_calib_phase :: "'s axi_bus \<Rightarrow> axi_dac \<Rightarrow> u32 \<Rightarrow> 's \<Rightarrow> (int \<times> int \<times> int) \<times> 's" where
  "axi_dac_dds_get_calib_phase bus dac chan s = axi_dac_dds_get_calib_phase_scale bus dac 1 chan s"

section \<open>Tables of samples\<close>

text \<open>A loop whose body may be undefined, over the values of its variable.\<close>

fun each :: "('a \<Rightarrow> 's \<Rightarrow> 's option) \<Rightarrow> 'a list \<Rightarrow> 's \<Rightarrow> 's option" where
  "each f [] s = Some s"
| "each f (x # xs) s = do {s \<leftarrow> f x s; each f xs s}"

definition lut_at :: "nat \<Rightarrow> u32 option" where
  "lut_at i = do {guard (i < length sine_lut); Some (ucast (sine_lut ! i))}"

text \<open>
  A pair of samples. The shift of a sample of 0x800 and more by 20 leaves the range of the signed
  int it is promoted to; the model takes the bits, as the supported compilers do.
\<close>

definition lut_pair :: "nat \<Rightarrow> nat \<Rightarrow> u32 option" where
  "lut_pair i q = do {data_i \<leftarrow> lut_at i; data_q \<leftarrow> lut_at q; Some (push_bit 20 data_i OR push_bit 4 data_q)}"

definition tx_count :: nat where
  "tx_count = length sine_lut"

definition sine_body_4 :: "'s axi_bus \<Rightarrow> u32 \<Rightarrow> nat \<Rightarrow> 's \<Rightarrow> 's option" where
  "sine_body_4 bus address n s = do {
     let index_i1 = 2 * n;
     let index_q1 = 2 * n + tx_count div 2;
     let index_q1 = (if index_q1 \<ge> tx_count * 2 then index_q1 - tx_count * 2 else index_q1);
     d1 \<leftarrow> lut_pair (index_i1 div 2) (index_q1 div 2);
     let s = snd (run_state (axi_io_write bus address (of_nat (2 * n * 4)) d1) s);
     let index_i2 = (if index_i1 \<ge> tx_count * 2 then index_i1 - tx_count * 2 else index_i1);
     let index_q2 = (if index_q1 \<ge> tx_count * 2 then index_q1 - tx_count * 2 else index_q1);
     d2 \<leftarrow> lut_pair (index_i2 div 2) (index_q2 div 2);
     Some (snd (run_state (axi_io_write bus address (of_nat ((2 * n + 1) * 4)) d2) s))}"

definition sine_body :: "'s axi_bus \<Rightarrow> u32 \<Rightarrow> nat \<Rightarrow> 's \<Rightarrow> 's option" where
  "sine_body bus address index s = do {
     let index_q1 = index + tx_count div 4;
     let index_q1 = (if index_q1 \<ge> tx_count then index_q1 - tx_count else index_q1);
     d \<leftarrow> lut_pair index index_q1;
     Some (snd (run_state (axi_io_write bus address (of_nat (index * 4)) d) s))}"

text \<open>The index of the first loop, which advances by two, is twice the \<open>n\<close> of its body.\<close>

definition axi_dac_set_sine_lut :: "'s axi_bus \<Rightarrow> axi_dac \<Rightarrow> u32 \<Rightarrow> 's \<Rightarrow> (u32 \<times> 's) option" where
  "axi_dac_set_sine_lut bus dac address s = do {
     s \<leftarrow> (if dac_num_channels dac = 4 then each (sine_body_4 bus address) [0..<tx_count] s
           else each (sine_body bus address) [0..<tx_count] s);
     Some (of_nat tx_count * ucast (dac_num_channels dac) * 2, s)}"

text \<open>
  The words of axi_dac_set_buff are at twice the index, from every second element on; an odd
  number of samples is read beyond its end. The buffer is shorter than the address space.
\<close>

definition buff_body :: "'s axi_bus \<Rightarrow> u32 \<Rightarrow> u16 list \<Rightarrow> nat \<Rightarrow> 's \<Rightarrow> 's option" where
  "buff_body bus address buff n s = do {
     guard (Suc (2 * n) < length buff);
     let data_i = (ucast (buff ! (2 * n)) :: u32);
     let data_q = (push_bit 16 (ucast (buff ! Suc (2 * n))) :: u32);
     Some (snd (run_state (axi_io_write bus address (of_nat (2 * n * 2)) (data_i OR data_q)) s))}"

definition axi_dac_set_buff :: "'s axi_bus \<Rightarrow> u32 \<Rightarrow> u16 list \<Rightarrow> u32 \<Rightarrow> 's \<Rightarrow> (int \<times> 's) option" where
  "axi_dac_set_buff bus address buff buff_size s = do {
     s \<leftarrow> each (buff_body bus address buff) [0..<(unat buff_size + 1) div 2] s;
     Some (SUCCESS, s)}"

text \<open>Each sample is written once per pair of channels; then the data source of the channels is set.\<close>

definition custom_body :: "'s axi_bus \<Rightarrow> u32 \<Rightarrow> u32 list \<Rightarrow> nat \<Rightarrow> nat \<Rightarrow> 's \<Rightarrow> 's option" where
  "custom_body bus address custom_data_iq num_tx_channels index s =
     each (\<lambda>chan s. do {
       guard (index < length custom_data_iq);
       Some (snd (run_state (axi_io_write bus address (of_nat ((index * num_tx_channels + chan) * 4)) (custom_data_iq ! index)) s))})
       [0..<num_tx_channels] s"

definition select_dma :: "'s axi_bus \<Rightarrow> axi_dac \<Rightarrow> u32 \<Rightarrow> 's \<Rightarrow> 's" where
  "select_dma bus dac chan s =
     (let (_, s) = axi_dac_write bus dac (AXI_DAC_REG_DATA_SELECT (chan * 2 + 0)) 2 s;
          (_, s) = axi_dac_write bus dac (AXI_DAC_REG_DATA_SELECT (chan * 2 + 1)) 2 s
      in s)"

definition axi_dac_load_custom_data :: "'s axi_bus \<Rightarrow> axi_dac \<Rightarrow> u32 list \<Rightarrow> u32 \<Rightarrow> u32 \<Rightarrow> 's \<Rightarrow> (int \<times> 's) option" where
  "axi_dac_load_custom_data bus dac custom_data_iq custom_tx_count address s = do {
     let num_tx_channels = unat (dac_num_channels dac) div 2;
     s \<leftarrow> each (custom_body bus address custom_data_iq num_tx_channels) [0..<unat custom_tx_count] s;
     let s = fold (select_dma bus dac) (dac_chans dac) s;
     let (_, s) = axi_dac_write bus dac AXI_DAC_REG_SYNC_CONTROL AXI_DAC_SYNC s;
     Some (SUCCESS, s)}"

section \<open>Setup, creation and removal\<close>

definition setup_tone :: "'s axi_bus \<Rightarrow> axi_dac \<Rightarrow> u32 \<Rightarrow> u32 \<Rightarrow> u32 \<Rightarrow> int \<Rightarrow> 's \<Rightarrow> 's option" where
  "setup_tone bus dac tone freq phase scale s = do {
     (_, s) \<leftarrow> axi_dac_dds_set_frequency bus dac tone freq s;
     let (_, s) = axi_dac_dds_set_phase bus dac tone phase s;
     (_, s) \<leftarrow> axi_dac_dds_set_scale bus dac tone scale s;
     Some s}"

definition setup_channel :: "'s axi_bus \<Rightarrow> axi_dac \<Rightarrow> axi_dac_channel list \<Rightarrow> u32 \<Rightarrow> 's \<Rightarrow> 's option" where
  "setup_channel bus dac cs i s = do {
     guard (unat i < length cs);
     let chan = cs ! unat i;
     s \<leftarrow> (if data_sel chan = AXI_DAC_DATA_SEL_DDS then do {
             s \<leftarrow> setup_tone bus dac (i * 2 + 0) (dds_frequency_0 chan) (dds_phase_0 chan) (dds_scale_0 chan) s;
             if dds_dual_tone chan = 0
             then setup_tone bus dac (i * 2 + 1) (dds_frequency_0 chan) (dds_phase_0 chan) (dds_scale_0 chan) s
             else setup_tone bus dac (i * 2 + 1) (dds_frequency_1 chan) (dds_phase_1 chan) (dds_scale_1 chan) s}
           else Some s);
     let (_, s) = axi_dac_write bus dac (DAC_REG_DATA_PATTERN i) (pat_data chan) s;
     let (_, s) = axi_dac_set_datasel bus dac (uint i) (data_sel chan) s;
     Some s}"

definition setup_default :: "'s axi_bus \<Rightarrow> axi_dac \<Rightarrow> u32 \<Rightarrow> 's \<Rightarrow> 's option" where
  "setup_default bus dac i s = do {
     let phase = (if i mod 2 \<noteq> 0 then 0 else 90000);
     (_, s) \<leftarrow> axi_dac_dds_set_frequency bus dac (i * 2 + 0) (3 * 1000 * 1000) s;
     (_, s) \<leftarrow> axi_dac_dds_set_frequency bus dac (i * 2 + 1) (3 * 1000 * 1000) s;
     let (_, s) = axi_dac_dds_set_phase bus dac (i * 2 + 0) phase s;
     let (_, s) = axi_dac_dds_set_phase bus dac (i * 2 + 1) phase s;
     (_, s) \<leftarrow> axi_dac_dds_set_scale bus dac (i * 2 + 0) (50 * 1000) s;
     (_, s) \<leftarrow> axi_dac_dds_set_scale bus dac (i * 2 + 1) (50 * 1000) s;
     let (_, s) = axi_dac_write bus dac (AXI_DAC_REG_DATA_SELECT (i * 2 + 0)) 0 s;
     let (_, s) = axi_dac_write bus dac (AXI_DAC_REG_DATA_SELECT (i * 2 + 1)) 0 s;
     Some s}"

definition axi_dac_data_setup :: "'s axi_bus \<Rightarrow> axi_dac \<Rightarrow> 's \<Rightarrow> (int \<times> 's) option" where
  "axi_dac_data_setup bus dac s = do {
     s \<leftarrow> (case dac_channels dac of
             Some cs \<Rightarrow> each (setup_channel bus dac cs) (dac_chans dac) s
           | None \<Rightarrow> each (setup_default bus dac) (dac_chans dac) s);
     Some (SUCCESS, s)}"

text \<open>\<open>al\<close> is the outcome of malloc. The clock is computed from the registers as for the ADC core.\<close>

definition axi_dac_init :: "'s axi_bus \<Rightarrow> (u32 \<Rightarrow> 's \<Rightarrow> 's) \<Rightarrow> bool \<Rightarrow> axi_dac_init_param \<Rightarrow> 's \<Rightarrow> (int \<times> axi_dac option \<times> 's) option" where
  "axi_dac_init bus mdelay al init s =
     (if \<not> al then Some (FAILURE, None, s)
      else do {
        let dac = \<lparr>dac_name = dini_name init, dac_base = dini_base init, dac_num_channels = dini_num_channels init,
                   dac_clock_hz = 0, dac_channels = dini_channels init\<rparr>;
        let (_, s) = axi_dac_write bus dac AXI_DAC_REG_RSTN 0 s;
        let (_, s) = axi_dac_write bus dac AXI_DAC_REG_RSTN (AXI_DAC_MMCM_RSTN OR AXI_DAC_RSTN) s;
        let s = mdelay 100 s;
        let ((_, reg_data), s) = axi_dac_read bus dac AXI_DAC_REG_STATUS s;
        if reg_data = 0 then Some (FAILURE, None, s)
        else do {
          let (_, s) = axi_dac_write bus dac AXI_DAC_REG_RATECNTRL (AXI_DAC_RATE 3) s;
          let ((_, freq), s) = axi_dac_read bus dac AXI_DAC_REG_CLK_FREQ s;
          let ((_, ratio), s) = axi_dac_read bus dac AXI_DAC_REG_CLK_RATIO s;
          let dac = dac\<lparr>dac_clock_hz := clock_rate freq ratio\<rparr>;
          (_, s) \<leftarrow> axi_dac_data_setup bus dac s;
          let (_, s) = axi_dac_write bus dac AXI_DAC_REG_SYNC_CONTROL AXI_DAC_SYNC s;
          Some (SUCCESS, Some dac, s)}})"

definition axi_dac_remove :: "axi_dac \<Rightarrow> int" where
  "axi_dac_remove dac = SUCCESS"

section \<open>The tables\<close>

text \<open>A loop that only writes to one memory.\<close>

lemma each_writes:
  assumes "\<And>x s. x \<in> set xs \<Longrightarrow> f x s = Some (writes bus a (g x) s)"
  shows "each f xs s = Some (writes bus a (concat (map g xs)) s)"
  using assms by (induction xs arbitrary: s) (simp_all add: writes_append)

lemma length_sine_lut [simp]: "length sine_lut = 128"
  by (simp add: sine_lut_def)

lemma tx_count [simp]: "tx_count = 128"
  by (simp add: tx_count_def)

text \<open>The second half of the period is the complement of the first, but for its first sample.\<close>

lemma sine_lut_odd: "drop 65 sine_lut = map (\<lambda>x. NOT x AND 0xFFF) (drop 1 (take 64 sine_lut))"
  by (simp add: sine_lut_def)

definition sine_pair :: "nat \<Rightarrow> u32" where
  "sine_pair n = push_bit 20 (ucast (sine_lut ! n)) OR push_bit 4 (ucast (sine_lut ! ((n + 32) mod 128)))"

lemma lut_pair_sine:
  "n < 96 \<Longrightarrow> lut_pair n (n + 32) = Some (sine_pair n)"
  "96 \<le> n \<Longrightarrow> n < 128 \<Longrightarrow> lut_pair n (n - 96) = Some (sine_pair n)"
proof -
  show "n < 96 \<Longrightarrow> lut_pair n (n + 32) = Some (sine_pair n)" by (simp add: lut_pair_def lut_at_def sine_pair_def)
  assume "96 \<le> n" "n < 128"
  moreover then have "(n + 32) mod 128 = n - 96" by (simp add: mod_if)
  ultimately show "lut_pair n (n - 96) = Some (sine_pair n)" by (simp add: lut_pair_def lut_at_def sine_pair_def)
qed

lemma sine_body_writes: "n < 128 \<Longrightarrow> sine_body bus address n s = Some (writes bus address [(of_nat (4 * n), sine_pair n)] s)"
  using lut_pair_sine [of n] by (cases "n < 96") (simp_all add: sine_body_def Let_def mult.commute)

lemma sine_body_4_writes:
  "n < 128 \<Longrightarrow> sine_body_4 bus address n s = Some (writes bus address [(of_nat (8 * n), sine_pair n), (of_nat (8 * n + 4), sine_pair n)] s)"
proof -
  assume n: "n < 128"
  have "(2 * n - 192) div 2 = n - 96" "(2 * n + 64) div 2 = n + 32" "\<not> 256 \<le> 2 * n - 192" using n by simp_all
  then show ?thesis using n lut_pair_sine [of n]
    by (cases "n < 96") (simp_all add: sine_body_4_def Let_def distrib_left mult.commute add.commute)
qed

text \<open>
  C27. The sine table is read within its bounds. To each pair of samples, the cosine a quarter of
  the period ahead of the sine, goes the next word of the memory, or the next two words with
  four channels; the length that is returned is the length of the words for two and for four
  channels.
\<close>

theorem axi_dac_set_sine_lut_words:
  "axi_dac_set_sine_lut bus dac address s =
     Some (256 * ucast (dac_num_channels dac), writes bus address
       (if dac_num_channels dac = 4
        then concat (map (\<lambda>n. [(of_nat (8 * n), sine_pair n), (of_nat (8 * n + 4), sine_pair n)]) [0..<128])
        else map (\<lambda>n. (of_nat (4 * n), sine_pair n)) [0..<128]) s)"
proof -
  have "each (sine_body_4 bus address) [0..<128] s = Some (writes bus address
      (concat (map (\<lambda>n. [(of_nat (8 * n), sine_pair n), (of_nat (8 * n + 4), sine_pair n)]) [0..<128])) s)"
    by (rule each_writes) (simp add: sine_body_4_writes)
  moreover have "each (sine_body bus address) [0..<128] s = Some (writes bus address
      (concat (map (\<lambda>n. [(of_nat (4 * n), sine_pair n)]) [0..<128])) s)"
    by (rule each_writes) (simp add: sine_body_writes)
  ultimately show ?thesis by (simp add: axi_dac_set_sine_lut_def mult.commute del: upt_rec_numeral)
qed

text \<open>An even number of samples is packed in pairs; an odd one is read beyond its end.\<close>

lemma axi_dac_set_buff_even:
  assumes "unat buff_size \<le> length buff" "even (unat buff_size)"
  shows "axi_dac_set_buff bus address buff buff_size s = Some (SUCCESS, writes bus address
    (map (\<lambda>n. (of_nat (4 * n), ucast (buff ! (2 * n)) OR push_bit 16 (ucast (buff ! Suc (2 * n))))) [0..<unat buff_size div 2]) s)"
proof -
  let ?g = "\<lambda>n. [(of_nat (4 * n), ucast (buff ! (2 * n)) OR push_bit 16 (ucast (buff ! Suc (2 * n))))]"
  have "each (buff_body bus address buff) [0..<unat buff_size div 2] s = Some (writes bus address (concat (map ?g [0..<unat buff_size div 2])) s)"
  proof (rule each_writes)
    fix n and s assume "n \<in> set [0..<unat buff_size div 2]"
    then have "Suc (2 * n) < length buff" using assms(1) by simp
    then show "buff_body bus address buff n s = Some (writes bus address (?g n) s)"
      by (simp add: buff_body_def algebra_simps)
  qed
  moreover have "(unat buff_size + 1) div 2 = unat buff_size div 2" using assms(2) by simp
  ultimately show ?thesis by (simp add: axi_dac_set_buff_def)
qed

lemma each_append: "each f (xs @ ys) s = (case each f xs s of None \<Rightarrow> None | Some s \<Rightarrow> each f ys s)"
  by (induction xs arbitrary: s) (simp_all add: bind_eq_None_conv split: option.splits Option.bind_splits)

lemma axi_dac_set_buff_odd:
  assumes "unat buff_size = length buff" "odd (length buff)"
  shows "axi_dac_set_buff bus address buff buff_size s = None"
proof -
  obtain m where m: "length buff = Suc (2 * m)" using assms(2) by (auto elim: oddE)
  then have "(unat buff_size + 1) div 2 = Suc m" using assms(1) by simp
  then show ?thesis using m by (simp add: axi_dac_set_buff_def each_append buff_body_def split: option.splits)
qed

section \<open>What is set is read back\<close>

text \<open>The registers of the tones are apart from each other and from the control registers.\<close>

lemma tone_register:
  assumes "t < 512"
  shows "unat (AXI_DAC_REG_DDS_SCALE t) = 0x400 + 64 * (unat t div 2) + 8 * (unat t mod 2)"
    "unat (AXI_DAC_REG_DDS_INIT_INCR t) = 0x404 + 64 * (unat t div 2) + 8 * (unat t mod 2)"
proof -
  have t: "unat t < 512" using assms by (simp add: word_less_nat_alt)
  have "unat t mod 2 < 2 ^ 32" by (rule less_trans [of _ 2]) simp_all
  then have "t AND 1 = of_nat (unat t mod 2)"
    by (simp only: and_one_eq word_unat_eq_iff unat_mod unsigned_of_nat) (simp add: take_bit_nat_eq_self)
  moreover have "unat t div 2 < 2 ^ 32" using t by simp
  then have "drop_bit 1 t = of_nat (unat t div 2)"
    by (simp only: drop_bit_eq_div word_unat_eq_iff unat_div unsigned_of_nat) (simp add: take_bit_nat_eq_self)
  ultimately have "AXI_DAC_REG_DDS_SCALE t = of_nat (0x400 + 64 * (unat t div 2) + 8 * (unat t mod 2))"
    "AXI_DAC_REG_DDS_INIT_INCR t = of_nat (0x404 + 64 * (unat t div 2) + 8 * (unat t mod 2))"
    by (simp_all add: AXI_DAC_REG_DDS_SCALE_def AXI_DAC_REG_DDS_INIT_INCR_def)
  then show "unat (AXI_DAC_REG_DDS_SCALE t) = 0x400 + 64 * (unat t div 2) + 8 * (unat t mod 2)"
    "unat (AXI_DAC_REG_DDS_INIT_INCR t) = 0x404 + 64 * (unat t div 2) + 8 * (unat t mod 2)"
    using t by (simp_all only: unat_of_nat, simp_all)
qed

text \<open>Rounding twice loses at most a step.\<close>

lemma nat_increment_accurate:
  fixes f clk k :: nat
  assumes "(f * 65535) div clk \<le> k" "k \<le> (f * 65535) div clk + 1" "0 < clk"
  shows "(k * clk) div 65535 * 65535 \<le> f * 65535 + clk" "f * 65535 < (k * clk) div 65535 * 65535 + clk + 65535"
proof -
  define k0 where "k0 = (f * 65535) div clk"
  define g where "g = (k * clk) div 65535"
  have k0: "k0 * clk \<le> f * 65535" "f * 65535 < k0 * clk + clk"
    unfolding k0_def using dividend_less_div_times [OF assms(3)] by (simp_all add: add.commute)
  have g: "g * 65535 \<le> k * clk" "k * clk < g * 65535 + 65535"
    unfolding g_def by (simp_all add: dividend_less_div_times)
  have "k * clk \<le> k0 * clk + clk" using mult_le_mono1 [OF assms(2), of clk] by (simp add: k0_def)
  moreover have "k0 * clk \<le> k * clk" using mult_le_mono1 [OF assms(1), of clk] by (simp add: k0_def)
  ultimately show "(k * clk) div 65535 * 65535 \<le> f * 65535 + clk" "f * 65535 < (k * clk) div 65535 * 65535 + clk + 65535"
    using k0 g unfolding g_def by linarith+
qed

lemma nat_phase_accurate:
  fixes p :: nat
  defines "k \<equiv> (p * 65536 + 180000) div 360000"
  shows "(k * 360000 + 32768) div 65536 \<le> p + 3" "p \<le> (k * 360000 + 32768) div 65536 + 3"
proof -
  define g where "g = (k * 360000 + 32768) div 65536"
  have "k * 360000 \<le> p * 65536 + 180000" "p * 65536 + 180000 < k * 360000 + 360000"
    unfolding k_def by (simp_all add: dividend_less_div_times)
  moreover have "g * 65536 \<le> k * 360000 + 32768" "k * 360000 + 32768 < g * 65536 + 65536"
    unfolding g_def by (simp_all add: dividend_less_div_times)
  ultimately have "g \<le> p + 3" "p \<le> g + 3" by linarith+
  then show "(k * 360000 + 32768) div 65536 \<le> p + 3" "p \<le> (k * 360000 + 32768) div 65536 + 3" by (simp_all add: g_def)
qed

lemma nat_scale_accurate:
  fixes x :: nat
  defines "k \<equiv> (x * 0x4000) div 1000000"
  shows "(k * 1000000) div 0x4000 \<le> x" "x \<le> (k * 1000000) div 0x4000 + 62"
proof -
  define g where "g = (k * 1000000) div 0x4000"
  have "k * 1000000 \<le> x * 0x4000" "x * 0x4000 < k * 1000000 + 1000000"
    unfolding k_def by (simp_all add: dividend_less_div_times)
  moreover have "g * 0x4000 \<le> k * 1000000" "k * 1000000 < g * 0x4000 + 0x4000"
    unfolding g_def by (simp_all add: dividend_less_div_times)
  ultimately have "g \<le> x" "x \<le> g + 62" by linarith+
  then show "(k * 1000000) div 0x4000 \<le> x" "x \<le> (k * 1000000) div 0x4000 + 62" by (simp_all add: g_def)
qed

lemma unat_ucast_u64: "unat (ucast (x :: u32) :: u64) = unat x"
proof -
  have "unat x < 2 ^ 64" by (rule less_le_trans [OF unsigned_less]) simp
  then show ?thesis by (simp add: unsigned_ucast_eq take_bit_nat_eq_self)
qed

text \<open>The fields of the registers.\<close>

definition incr_field :: "u64 \<Rightarrow> u32 \<Rightarrow> u32" where
  "incr_field clk f = AXI_DAC_DDS_INCR (ucast ((ucast f * 0xFFFF) div clk)) OR 1"

definition incr_value :: "u64 \<Rightarrow> u32 \<Rightarrow> u32" where
  "incr_value clk k = ucast ((ucast k * clk :: u64) div 0xFFFF)"

definition phase_field :: "u32 \<Rightarrow> u32" where
  "phase_field p = ucast ((ucast p * 0x10000 + 360000 div 2 :: u64) div 360000)"

definition phase_value :: "u32 \<Rightarrow> u32" where
  "phase_value k = ucast ((ucast k * 360000 + 0x10000 div 2 :: u64) div 0x10000)"

lemma incr_field_unat:
  assumes "unat f < unat clk"
  shows "unat (incr_field clk f) < 65536" "unat f * 65535 div unat clk \<le> unat (incr_field clk f)"
    "unat (incr_field clk f) \<le> unat f * 65535 div unat clk + 1"
proof -
  define k0 where "k0 = unat f * 65535 div unat clk"
  have "unat f * 65535 < 65535 * unat clk" using assms by simp
  then have k0: "k0 < 65535" unfolding k0_def by (simp add: less_mult_imp_div_less)
  have "unat f * 65535 < 2 ^ 64" by (rule less_le_trans [OF mult_strict_right_mono [OF unsigned_less]]) simp_all
  then have "unat ((ucast f * 0xFFFF :: u64) div clk) = k0"
    by (simp add: k0_def unat_div unat_word_ariths unat_ucast_u64)
  moreover have "k0 AND 65535 = k0" using k0 take_bit_eq_mask [of 16 k0] by (simp add: mask_eq_exp_minus_1 take_bit_nat_eq_self)
  ultimately have w: "unat (ucast ((ucast f * 0xFFFF :: u64) div clk) AND 0xFFFF :: u32) = k0"
    using k0 by (simp add: unsigned_ucast_eq take_bit_nat_eq_self unsigned_and_eq)
  show "unat (incr_field clk f) < 65536" "k0 \<le> unat (incr_field clk f)" "unat (incr_field clk f) \<le> k0 + 1"
    using w k0 by (simp_all add: incr_field_def AXI_DAC_DDS_INCR_def or_one_eq unat_word_ariths)
qed

lemma incr_accurate:
  assumes "unat f < unat clk" "clk < 2 ^ 32"
  shows "unat (incr_value clk (incr_field clk f)) * 65535 \<le> unat f * 65535 + unat clk"
    "unat f * 65535 < unat (incr_value clk (incr_field clk f)) * 65535 + unat clk + 65535"
proof -
  define k where "k = unat (incr_field clk f)"
  have clk: "unat clk < 2 ^ 32" "0 < unat clk" using assms by (simp_all add: word_less_nat_alt)
  have k: "k < 65536" using incr_field_unat(1) [OF assms(1)] by (simp add: k_def)
  have "k * unat clk < 2 ^ 48" using mult_strict_mono [of k 65536 "unat clk" "2 ^ 32"] k clk by simp
  then have "unat ((ucast (incr_field clk f) * clk :: u64) div 0xFFFF) = k * unat clk div 65535"
    by (simp add: unat_div unat_word_ariths unat_ucast_u64 k_def)
  moreover have "k * unat clk div 65535 < 2 ^ 32"
  proof -
    have "k * unat clk \<le> 65535 * unat clk" using k by simp
    then have "k * unat clk div 65535 \<le> unat clk" using div_le_mono [of "k * unat clk" "65535 * unat clk" 65535] by simp
    then show ?thesis using clk(1) by simp
  qed
  ultimately have "unat (incr_value clk (incr_field clk f)) = k * unat clk div 65535"
    by (simp add: incr_value_def unsigned_ucast_eq take_bit_nat_eq_self)
  then show "unat (incr_value clk (incr_field clk f)) * 65535 \<le> unat f * 65535 + unat clk"
    "unat f * 65535 < unat (incr_value clk (incr_field clk f)) * 65535 + unat clk + 65535"
    using nat_increment_accurate [of "unat f" "unat clk" k] incr_field_unat(2,3) [OF assms(1)] clk(2) by (simp_all add: k_def)
qed

lemma phase_accurate:
  assumes "p \<le> 359997"
  shows "phase_field p < 0x10000" "unat (phase_value (phase_field p)) \<le> unat p + 3" "unat p \<le> unat (phase_value (phase_field p)) + 3"
proof -
  have p: "unat p \<le> 359997" using assms by (simp add: word_le_nat_alt)
  define k where "k = (unat p * 65536 + 180000) div 360000"
  have k: "k < 65536" unfolding k_def using p by (simp add: less_mult_imp_div_less)
  have "unat ((ucast p * 0x10000 + 360000 div 2 :: u64) div 360000) = k"
    using p by (simp add: unat_div unat_word_ariths unat_ucast_u64 k_def)
  then have field: "unat (phase_field p) = k" using k by (simp add: phase_field_def unsigned_ucast_eq take_bit_nat_eq_self)
  then show "phase_field p < 0x10000" using k by (simp add: word_less_nat_alt)
  have "unat ((ucast (phase_field p) * 360000 + 0x10000 div 2 :: u64) div 0x10000) = (k * 360000 + 32768) div 65536"
    using k by (simp add: unat_div unat_word_ariths unat_ucast_u64 field)
  moreover have "(k * 360000 + 32768) div 65536 < 2 ^ 32" using k by (simp add: less_mult_imp_div_less)
  ultimately have "unat (phase_value (phase_field p)) = (k * 360000 + 32768) div 65536"
    by (simp add: phase_value_def unsigned_ucast_eq take_bit_nat_eq_self)
  then show "unat (phase_value (phase_field p)) \<le> unat p + 3" "unat p \<le> unat (phase_value (phase_field p)) + 3"
    using nat_phase_accurate [of "unat p"] by (simp_all add: k_def)
qed

lemma scale_accurate:
  assumes "\<bar>x\<bar> < 1999000"
  shows "scale_field x < 0x10000" "\<bar>scale_value (scale_field x)\<bar> \<le> \<bar>x\<bar>" "\<bar>x\<bar> \<le> \<bar>scale_value (scale_field x)\<bar> + 62"
    "0 \<le> x \<Longrightarrow> 0 \<le> scale_value (scale_field x)" "x < 0 \<Longrightarrow> scale_value (scale_field x) \<le> 0"
proof -
  define m where "m = nat \<bar>x\<bar>"
  have m: "m < 1999000" "\<bar>x\<bar> = int m" using assms by (simp_all add: m_def)
  define k where "k = m * 0x4000 div 1000000"
  have k: "k < 0x8000" unfolding k_def using m by (simp add: less_mult_imp_div_less)
  define w :: u32 where "w = of_nat k"
  have w: "unat w = k" using k by (simp add: w_def unsigned_of_nat take_bit_nat_eq_self)
  have um: "unat (of_nat m :: u32) = m" using m by (simp add: unsigned_of_nat take_bit_nat_eq_self)
  then have "\<not> (of_nat m :: u32) \<ge> 1999000" using m by (simp add: word_le_nat_alt)
  moreover have "(ucast ((ucast (of_nat m :: u32) * 0x4000 :: u64) div 1000000) :: u32) = w"
    using m k by (simp add: word_unat_eq_iff unsigned_ucast_eq unat_div unat_word_ariths unat_ucast_u64 um w k_def take_bit_nat_eq_self)
  ultimately have field: "scale_field x = (if x < 0 then w OR 0x8000 else w)"
    by (simp add: scale_field_def Let_def m)
  have wm: "w AND 0x7FFF = w" using k less_mask_eq [of w 15] w by (simp add: mask_eq_exp_minus_1 word_less_nat_alt)
  have bits: "\<not> bit w 15" by (subst wm [symmetric]) (simp add: bit_simps)
  have "w AND 0xFFFF = w" by (subst (1 2) wm [symmetric], simp add: and.assoc)
  then have "scale_field x AND 0xFFFF = scale_field x" by (simp add: field bit.conj_disj_distrib2)
  then show "scale_field x < 0x10000" using and_mask_less' [of 16 "scale_field x"] by (simp add: mask_eq_exp_minus_1)
  define v where "v = k * 1000000 div 0x4000"
  have v: "v < 2 ^ 31" unfolding v_def using k by (simp add: less_mult_imp_div_less)
  have "unat (ucast ((ucast w * 1000000 :: u64) div 0x4000) :: u32) = v"
    using k v by (simp add: unsigned_ucast_eq unat_div unat_word_ariths unat_ucast_u64 w v_def take_bit_nat_eq_self)
  then have sv: "sint (ucast ((ucast w * 1000000 :: u64) div 0x4000) :: u32) = int v" using v by (subst sint_u32_small) simp_all
  have "(w OR 0x8000) AND NOT 0x8000 = w" "w AND NOT 0x8000 = w"
    by (subst (1 2) wm [symmetric], simp add: bit.conj_disj_distrib2 and.assoc)+
  then have "scale_value (scale_field x) = (if x < 0 then - int v else int v)"
    using bits sv by (simp add: field scale_value_def calib_bits Let_def bit_simps)
  then show "\<bar>scale_value (scale_field x)\<bar> \<le> \<bar>x\<bar>" "\<bar>x\<bar> \<le> \<bar>scale_value (scale_field x)\<bar> + 62"
    "0 \<le> x \<Longrightarrow> 0 \<le> scale_value (scale_field x)" "x < 0 \<Longrightarrow> scale_value (scale_field x) \<le> 0"
    using nat_scale_accurate [of m] by (simp_all add: m v_def k_def)
qed

text \<open>A tone in the registers of the core.\<close>

definition tone_set :: "axi_dac \<Rightarrow> u32 \<Rightarrow> u32 \<Rightarrow> u32 \<Rightarrow> int \<Rightarrow> reg_file \<Rightarrow> bool" where
  "tone_set dac t f p x s \<longleftrightarrow>
     regs s (dac_base dac + AXI_DAC_REG_DDS_INIT_INCR t) = incr_field (dac_clock_hz dac) f OR AXI_DAC_DDS_INIT (phase_field p)
   \<and> regs s (dac_base dac + AXI_DAC_REG_DDS_SCALE t) = AXI_DAC_DDS_SCALE (scale_field x)"

lemma tone_registers_apart:
  assumes "t < 512"
  shows "AXI_DAC_REG_DDS_INIT_INCR t \<noteq> 0x44" "AXI_DAC_REG_DDS_SCALE t \<noteq> 0x44" "AXI_DAC_REG_DDS_INIT_INCR t \<noteq> AXI_DAC_REG_DDS_SCALE t"
  using tone_register [OF assms] by (auto simp: word_unat_eq_iff)

lemma init_incr_fields:
  "(((r AND NOT (AXI_DAC_DDS_INCR (NOT 0))) OR (AXI_DAC_DDS_INCR k OR 1)) AND NOT (AXI_DAC_DDS_INIT (NOT 0))) OR AXI_DAC_DDS_INIT p
    = (AXI_DAC_DDS_INCR k OR 1) OR AXI_DAC_DDS_INIT p"
proof -
  have m: "(0xFFFF :: u32) = mask 16" by (simp add: mask_eq_exp_minus_1)
  show ?thesis by (rule bit_eqI) (auto simp: AXI_DAC_DDS_INCR_def AXI_DAC_DDS_INIT_def m bit_simps)
qed

lemma setup_tone_sets:
  assumes "t < 512" "dac_clock_hz dac \<noteq> 0" "x \<noteq> - (2 ^ 31)"
  shows "\<exists>s'. setup_tone reg_file_bus dac t f p x s = Some s' \<and> tone_set dac t f p x s'
    \<and> (\<forall>a. a \<noteq> 0x44 \<longrightarrow> a \<noteq> AXI_DAC_REG_DDS_INIT_INCR t \<longrightarrow> a \<noteq> AXI_DAC_REG_DDS_SCALE t \<longrightarrow>
        regs s' (dac_base dac + a) = regs s (dac_base dac + a))"
  using assms tone_registers_apart [OF assms(1)]
  by (simp add: setup_tone_def axi_dac_dds_set_frequency_def axi_dac_dds_set_phase_def axi_dac_dds_set_scale_def
      axi_dac_read_def axi_dac_write_def tone_set_def Let_def incr_field_def phase_field_def init_incr_fields [simplified] or.assoc)

text \<open>The readings of a tone.\<close>

lemma init_incr_read:
  assumes "k < 0x10000" "p < 0x10000"
  shows "(k OR AXI_DAC_DDS_INIT p) AND AXI_DAC_DDS_INCR (NOT 0) = k"
    "AXI_DAC_TO_DDS_INIT ((k OR AXI_DAC_DDS_INIT p) AND AXI_DAC_DDS_INIT (NOT 0)) = p"
proof -
  have m: "(0xFFFF :: u32) = mask 16" by (simp add: mask_eq_exp_minus_1)
  have k: "k = k AND mask 16" and p: "p = p AND mask 16" using assms less_mask_eq [of k 16] less_mask_eq [of p 16] by simp_all
  show "(k OR AXI_DAC_DDS_INIT p) AND AXI_DAC_DDS_INCR (NOT 0) = k"
    by (subst (1 2) k, rule bit_eqI) (auto simp: AXI_DAC_DDS_INCR_def AXI_DAC_DDS_INIT_def m bit_simps)
  show "AXI_DAC_TO_DDS_INIT ((k OR AXI_DAC_DDS_INIT p) AND AXI_DAC_DDS_INIT (NOT 0)) = p"
    by (subst k, subst (1 2) p, rule bit_eqI) (auto simp: AXI_DAC_TO_DDS_INIT_def AXI_DAC_DDS_INIT_def m bit_simps)
qed

text \<open>What the driver reads back of a tone, and how far it may be from what was asked for.\<close>

definition tone_reads :: "axi_dac \<Rightarrow> u32 \<Rightarrow> u32 \<Rightarrow> u32 \<Rightarrow> int \<Rightarrow> reg_file \<Rightarrow> bool" where
  "tone_reads dac t f p x s \<longleftrightarrow> (\<exists>f' p' x'.
     fst (axi_dac_dds_get_frequency reg_file_bus dac t s) = (SUCCESS, f')
   \<and> fst (axi_dac_dds_get_phase reg_file_bus dac t s) = (SUCCESS, p')
   \<and> fst (axi_dac_dds_get_scale reg_file_bus dac t s) = (SUCCESS, x')
   \<and> \<bar>int (unat f') - int (unat f)\<bar> * 65535 \<le> int (unat (dac_clock_hz dac)) + 65535
   \<and> \<bar>int (unat p') - int (unat p)\<bar> \<le> 3
   \<and> \<bar>x' - x\<bar> \<le> 62)"

definition tone_range :: "axi_dac \<Rightarrow> u32 \<Rightarrow> u32 \<Rightarrow> int \<Rightarrow> bool" where
  "tone_range dac f p x \<longleftrightarrow> dac_clock_hz dac < 2 ^ 32 \<and> unat f < unat (dac_clock_hz dac) \<and> p \<le> 359997 \<and> \<bar>x\<bar> < 1999000"

lemma increment_distance:
  fixes f g c :: nat
  shows "g * 65535 \<le> f * 65535 + c \<Longrightarrow> f * 65535 < g * 65535 + c + 65535 \<Longrightarrow> \<bar>int g - int f\<bar> * 65535 \<le> int c + 65535"
  by (cases "f \<le> g") simp_all

lemma tone_set_reads:
  assumes "t < 512" "tone_set dac t f p x s" "tone_range dac f p x"
  shows "tone_reads dac t f p x s"
proof -
  note r = assms(3) [unfolded tone_range_def]
  let ?k = "incr_field (dac_clock_hz dac) f"
  have k: "?k < 0x10000" using incr_field_unat(1) r by (simp add: word_less_nat_alt)
  have p: "phase_field p < 0x10000" using phase_accurate(1) r by blast
  have x: "AXI_DAC_TO_DDS_SCALE (AXI_DAC_DDS_SCALE (scale_field x)) = scale_field x"
    using scale_accurate(1) r less_mask_eq [of "scale_field x" 16]
    by (simp add: AXI_DAC_TO_DDS_SCALE_def AXI_DAC_DDS_SCALE_def mask_eq_exp_minus_1)
  note a = tone_registers_apart [OF assms(1)]
  have "fst (axi_dac_dds_get_frequency reg_file_bus dac t s) = (SUCCESS, incr_value (dac_clock_hz dac) ?k)"
    "fst (axi_dac_dds_get_phase reg_file_bus dac t s) = (SUCCESS, phase_value (phase_field p))"
    "fst (axi_dac_dds_get_scale reg_file_bus dac t s) = (SUCCESS, scale_value (scale_field x))"
    using assms(2) a init_incr_read [OF k p, simplified] x
    by (simp_all add: axi_dac_dds_get_frequency_def axi_dac_dds_get_phase_def axi_dac_dds_get_scale_def
        axi_dac_read_def axi_dac_write_def tone_set_def Let_def incr_value_def phase_value_def)
  moreover have "\<bar>int (unat (incr_value (dac_clock_hz dac) ?k)) - int (unat f)\<bar> * 65535 \<le> int (unat (dac_clock_hz dac)) + 65535"
    using incr_accurate [of f "dac_clock_hz dac"] r by (intro increment_distance) blast+
  moreover have "\<bar>int (unat (phase_value (phase_field p))) - int (unat p)\<bar> \<le> 3" using phase_accurate(2,3) [of p] r by linarith
  moreover have "\<bar>scale_value (scale_field x) - x\<bar> \<le> 62" using scale_accurate(2-5) [of x] r by linarith
  ultimately show ?thesis unfolding tone_reads_def by blast
qed

section \<open>The setup of the channels\<close>

lemma each_preserves:
  assumes "\<And>x s. x \<in> set xs \<Longrightarrow> P s \<Longrightarrow> \<exists>s'. f x s = Some s' \<and> P s'" "P s"
  shows "\<exists>s'. each f xs s = Some s' \<and> P s'"
  using assms by (induction xs arbitrary: s) (simp, fastforce)

lemma each_establishes:
  assumes "distinct xs" "\<And>x s. x \<in> set xs \<Longrightarrow> \<exists>s'. f x s = Some s' \<and> P x s' \<and> (\<forall>y \<in> ys. y \<noteq> x \<longrightarrow> P y s \<longrightarrow> P y s')"
    "set xs \<subseteq> ys"
  shows "\<exists>s'. each f xs s = Some s' \<and> (\<forall>x \<in> set xs. P x s') \<and> (\<forall>y \<in> ys - set xs. P y s \<longrightarrow> P y s')"
  using assms
proof (induction xs arbitrary: s)
  case (Cons x xs)
  obtain s1 where s1: "f x s = Some s1" "P x s1" "\<forall>y \<in> ys. y \<noteq> x \<longrightarrow> P y s \<longrightarrow> P y s1"
    using Cons.prems(2) [of x s] by auto
  obtain s2 where s2: "each f xs s1 = Some s2" "\<forall>x \<in> set xs. P x s2" "\<forall>y \<in> ys - set xs. P y s1 \<longrightarrow> P y s2"
    using Cons.IH [of s1] Cons.prems by auto
  have "P x s2" using s1(2) s2(3) Cons.prems(1,3) by auto
  then show ?case using s1 s2 Cons.prems(3) by auto
qed simp

text \<open>The registers of channel \<open>i\<close>: setting it up changes no others but the control register.\<close>

definition chan_reg :: "nat \<Rightarrow> u32 \<Rightarrow> bool" where
  "chan_reg i a \<longleftrightarrow> unat a \<in> {0x400 + 64 * i ..< 0x400 + 64 * Suc i}"

lemma tone_in_channel: "t < 512 \<Longrightarrow> chan_reg (unat t div 2) (AXI_DAC_REG_DDS_INIT_INCR t) \<and> chan_reg (unat t div 2) (AXI_DAC_REG_DDS_SCALE t)"
  by (cases "even (unat t)") (simp_all add: chan_reg_def tone_register even_iff_mod_2_eq_zero odd_iff_mod_2_eq_one)

lemma chan_reg_apart: "chan_reg i a \<Longrightarrow> chan_reg j a \<Longrightarrow> i = j" "chan_reg i a \<Longrightarrow> a \<noteq> 0x44"
  by (auto simp: chan_reg_def)

lemma tone_set_frame:
  assumes "t < 512" "tone_set dac t f p x s"
    "\<And>a. chan_reg (unat t div 2) a \<Longrightarrow> regs s' (dac_base dac + a) = regs s (dac_base dac + a)"
  shows "tone_set dac t f p x s'"
  using assms tone_in_channel [OF assms(1)] by (simp add: tone_set_def)

text \<open>The two tones a configuration asks for.\<close>

definition chan_tones :: "axi_dac \<Rightarrow> axi_dac_channel list \<Rightarrow> (u32 \<Rightarrow> u32 \<Rightarrow> u32 \<Rightarrow> int \<Rightarrow> bool) \<Rightarrow> nat \<Rightarrow> bool" where
  "chan_tones dac cs T i \<longleftrightarrow> data_sel (cs ! i) = AXI_DAC_DATA_SEL_DDS \<longrightarrow>
     T (of_nat (2 * i)) (dds_frequency_0 (cs ! i)) (dds_phase_0 (cs ! i)) (dds_scale_0 (cs ! i))
   \<and> (if dds_dual_tone (cs ! i) = 0
      then T (of_nat (2 * i + 1)) (dds_frequency_0 (cs ! i)) (dds_phase_0 (cs ! i)) (dds_scale_0 (cs ! i))
      else T (of_nat (2 * i + 1)) (dds_frequency_1 (cs ! i)) (dds_phase_1 (cs ! i)) (dds_scale_1 (cs ! i)))"

lemma tone_numbers:
  assumes "i < 256"
  shows "unat (of_nat (2 * i) :: u32) = 2 * i" "unat (of_nat (2 * i + 1) :: u32) = 2 * i + 1"
    "(of_nat (2 * i) :: u32) < 512" "(of_nat (2 * i + 1) :: u32) < 512"
proof -
  show u: "unat (of_nat (2 * i) :: u32) = 2 * i" "unat (of_nat (2 * i + 1) :: u32) = 2 * i + 1"
    using assms by (simp_all only: unsigned_of_nat) (simp_all add: take_bit_nat_eq_self)
  show "(of_nat (2 * i) :: u32) < 512" "(of_nat (2 * i + 1) :: u32) < 512"
    unfolding word_less_nat_alt u using assms by simp_all
qed

lemma setup_pair:
  assumes "i < 256" "dac_clock_hz dac \<noteq> 0" "x \<noteq> - (2 ^ 31)" "x' \<noteq> - (2 ^ 31)"
  shows "\<exists>s1 s2. setup_tone reg_file_bus dac (of_nat (2 * i)) f p x s = Some s1
    \<and> setup_tone reg_file_bus dac (of_nat (2 * i + 1)) f' p' x' s1 = Some s2
    \<and> tone_set dac (of_nat (2 * i)) f p x s2 \<and> tone_set dac (of_nat (2 * i + 1)) f' p' x' s2
    \<and> (\<forall>a. \<not> chan_reg i a \<longrightarrow> a \<noteq> 0x44 \<longrightarrow> regs s2 (dac_base dac + a) = regs s (dac_base dac + a))"
proof -
  note n = tone_numbers [OF assms(1)]
  have c: "chan_reg i (AXI_DAC_REG_DDS_INIT_INCR (of_nat (2 * i)))" "chan_reg i (AXI_DAC_REG_DDS_SCALE (of_nat (2 * i)))"
    "chan_reg i (AXI_DAC_REG_DDS_INIT_INCR (of_nat (2 * i + 1)))" "chan_reg i (AXI_DAC_REG_DDS_SCALE (of_nat (2 * i + 1)))"
    using tone_in_channel [OF n(3)] tone_in_channel [OF n(4)] unfolding n(1,2) by simp_all
  obtain s1 where s1: "setup_tone reg_file_bus dac (of_nat (2 * i)) f p x s = Some s1" "tone_set dac (of_nat (2 * i)) f p x s1"
      "\<forall>a. a \<noteq> 0x44 \<longrightarrow> a \<noteq> AXI_DAC_REG_DDS_INIT_INCR (of_nat (2 * i)) \<longrightarrow> a \<noteq> AXI_DAC_REG_DDS_SCALE (of_nat (2 * i)) \<longrightarrow>
        regs s1 (dac_base dac + a) = regs s (dac_base dac + a)"
    using setup_tone_sets [OF n(3) assms(2,3)] by blast
  obtain s2 where s2: "setup_tone reg_file_bus dac (of_nat (2 * i + 1)) f' p' x' s1 = Some s2" "tone_set dac (of_nat (2 * i + 1)) f' p' x' s2"
      "\<forall>a. a \<noteq> 0x44 \<longrightarrow> a \<noteq> AXI_DAC_REG_DDS_INIT_INCR (of_nat (2 * i + 1)) \<longrightarrow> a \<noteq> AXI_DAC_REG_DDS_SCALE (of_nat (2 * i + 1)) \<longrightarrow>
        regs s2 (dac_base dac + a) = regs s1 (dac_base dac + a)"
    using setup_tone_sets [OF n(4) assms(2,4)] by blast
  have ne: "AXI_DAC_REG_DDS_INIT_INCR (of_nat (2 * i)) \<noteq> AXI_DAC_REG_DDS_INIT_INCR (of_nat (2 * i + 1))"
    "AXI_DAC_REG_DDS_INIT_INCR (of_nat (2 * i)) \<noteq> AXI_DAC_REG_DDS_SCALE (of_nat (2 * i + 1))"
    "AXI_DAC_REG_DDS_SCALE (of_nat (2 * i)) \<noteq> AXI_DAC_REG_DDS_INIT_INCR (of_nat (2 * i + 1))"
    "AXI_DAC_REG_DDS_SCALE (of_nat (2 * i)) \<noteq> AXI_DAC_REG_DDS_SCALE (of_nat (2 * i + 1))"
    unfolding word_unat_eq_iff tone_register [OF n(3)] tone_register [OF n(4)] n(1,2) by simp_all
  have "tone_set dac (of_nat (2 * i)) f p x s2"
    using s1(2) s2(3) ne tone_registers_apart [OF n(3)] unfolding tone_set_def by metis
  moreover have "regs s2 (dac_base dac + a) = regs s (dac_base dac + a)" if "\<not> chan_reg i a" "a \<noteq> 0x44" for a
    using s1(3) s2(3) that c by metis
  ultimately show ?thesis using s1(1) s2(1,2) by blast
qed

lemma select_registers:
  assumes "n < 256"
  shows "unat (DAC_REG_DATA_PATTERN (of_nat n)) = 0x410 + 64 * n" "unat (AXI_DAC_REG_CHAN_CNTRL_7 (of_nat n)) = 0x418 + 64 * n"
proof -
  have "DAC_REG_DATA_PATTERN (of_nat n) = of_nat (0x410 + 64 * n)" "AXI_DAC_REG_CHAN_CNTRL_7 (of_nat n) = of_nat (0x418 + 64 * n)"
    by (simp_all add: DAC_REG_DATA_PATTERN_def AXI_DAC_REG_CHAN_CNTRL_7_def)
  then show "unat (DAC_REG_DATA_PATTERN (of_nat n)) = 0x410 + 64 * n" "unat (AXI_DAC_REG_CHAN_CNTRL_7 (of_nat n)) = 0x418 + 64 * n"
    using assms by (simp_all only: unsigned_of_nat) (simp_all add: take_bit_nat_eq_self)
qed

lemma tone_offsets:
  fixes r q n :: nat
  shows "r < 2 \<Longrightarrow> 0x404 + 64 * q + 8 * r \<noteq> 0x410 + 64 * n \<and> 0x404 + 64 * q + 8 * r \<noteq> 0x418 + 64 * n
    \<and> 0x400 + 64 * q + 8 * r \<noteq> 0x410 + 64 * n \<and> 0x400 + 64 * q + 8 * r \<noteq> 0x418 + 64 * n"
  by presburger

text \<open>What follows the tones of a channel: the pattern and the source of the data.\<close>

lemma setup_channel_tail:
  fixes n :: nat and dac :: axi_dac and sel :: axi_dac_data_sel and pat :: u32 and s :: reg_file
  assumes "n < 256"
  defines "s' \<equiv> snd (axi_dac_set_datasel reg_file_bus dac (uint (of_nat n :: u32)) sel (snd (axi_dac_write reg_file_bus dac (DAC_REG_DATA_PATTERN (of_nat n)) pat s)))"
  shows "t < 512 \<Longrightarrow> tone_set dac t f p x s \<Longrightarrow> tone_set dac t f p x s'"
    "\<not> chan_reg n a \<Longrightarrow> a \<noteq> 0x44 \<Longrightarrow> regs s' (dac_base dac + a) = regs s (dac_base dac + a)"
proof -
  have regs: "regs s' (dac_base dac + a) = regs s (dac_base dac + a)"
    if "a \<noteq> 0x44" "a \<noteq> DAC_REG_DATA_PATTERN (of_nat n)" "a \<noteq> AXI_DAC_REG_CHAN_CNTRL_7 (of_nat n)" for a
    using that by (simp add: s'_def axi_dac_set_datasel_def axi_dac_write_def Let_def)
  have c: "chan_reg n (DAC_REG_DATA_PATTERN (of_nat n))" "chan_reg n (AXI_DAC_REG_CHAN_CNTRL_7 (of_nat n))"
    by (simp_all add: chan_reg_def select_registers [OF assms(1)])
  then show "\<not> chan_reg n a \<Longrightarrow> a \<noteq> 0x44 \<Longrightarrow> regs s' (dac_base dac + a) = regs s (dac_base dac + a)" using regs by metis
  assume t: "t < 512" "tone_set dac t f p x s"
  have "AXI_DAC_REG_DDS_INIT_INCR t \<noteq> DAC_REG_DATA_PATTERN (of_nat n)" "AXI_DAC_REG_DDS_INIT_INCR t \<noteq> AXI_DAC_REG_CHAN_CNTRL_7 (of_nat n)"
    "AXI_DAC_REG_DDS_SCALE t \<noteq> DAC_REG_DATA_PATTERN (of_nat n)" "AXI_DAC_REG_DDS_SCALE t \<noteq> AXI_DAC_REG_CHAN_CNTRL_7 (of_nat n)"
    unfolding word_unat_eq_iff tone_register [OF t(1)] select_registers [OF assms(1)]
    using tone_offsets [of "unat t mod 2" "unat t div 2" n] by simp_all
  then show "tone_set dac t f p x s'" using t tone_registers_apart [OF t(1)] regs by (simp add: tone_set_def)
qed

text \<open>The scales of a configuration that can be negated.\<close>

definition chan_scales :: "axi_dac_channel \<Rightarrow> bool" where
  "chan_scales c \<longleftrightarrow> dds_scale_0 c \<noteq> - (2 ^ 31) \<and> dds_scale_1 c \<noteq> - (2 ^ 31)"

lemma setup_channel_sets:
  assumes "n < 256" "n < length cs" "dac_clock_hz dac \<noteq> 0" "chan_scales (cs ! n)"
  shows "\<exists>s'. setup_channel reg_file_bus dac cs (of_nat n) s = Some s'
    \<and> chan_tones dac cs (\<lambda>t f p x. tone_set dac t f p x s') n
    \<and> (\<forall>a. \<not> chan_reg n a \<longrightarrow> a \<noteq> 0x44 \<longrightarrow> regs s' (dac_base dac + a) = regs s (dac_base dac + a))"
proof -
  let ?c = "cs ! n"
  let ?tail = "\<lambda>s. snd (axi_dac_set_datasel reg_file_bus dac (uint (of_nat n :: u32)) (data_sel ?c)
    (snd (axi_dac_write reg_file_bus dac (DAC_REG_DATA_PATTERN (of_nat n)) (pat_data ?c) s)))"
  have u: "unat (of_nat n :: u32) = n" using assms(1) by (simp add: unsigned_of_nat take_bit_nat_eq_self)
  note tail = setup_channel_tail [OF assms(1), where dac = dac and sel = "data_sel ?c" and pat = "pat_data ?c"]
  show ?thesis
  proof (cases "data_sel ?c = AXI_DAC_DATA_SEL_DDS")
    case False
    then have "setup_channel reg_file_bus dac cs (of_nat n) s = Some (?tail s)"
      using assms(2) by (simp add: setup_channel_def u split_beta Let_def)
    then show ?thesis using False tail(2) by (simp add: chan_tones_def)
  next
    case True
    define f' p' x' where "f' = (if dds_dual_tone ?c = 0 then dds_frequency_0 ?c else dds_frequency_1 ?c)"
      and "p' = (if dds_dual_tone ?c = 0 then dds_phase_0 ?c else dds_phase_1 ?c)"
      and "x' = (if dds_dual_tone ?c = 0 then dds_scale_0 ?c else dds_scale_1 ?c)"
    have "x' \<noteq> - (2 ^ 31)" using assms(4) by (simp add: x'_def chan_scales_def)
    then obtain s1 s2 where p: "setup_tone reg_file_bus dac (of_nat (2 * n)) (dds_frequency_0 ?c) (dds_phase_0 ?c) (dds_scale_0 ?c) s = Some s1"
        "setup_tone reg_file_bus dac (of_nat (2 * n + 1)) f' p' x' s1 = Some s2"
        "tone_set dac (of_nat (2 * n)) (dds_frequency_0 ?c) (dds_phase_0 ?c) (dds_scale_0 ?c) s2"
        "tone_set dac (of_nat (2 * n + 1)) f' p' x' s2"
        "\<forall>a. \<not> chan_reg n a \<longrightarrow> a \<noteq> 0x44 \<longrightarrow> regs s2 (dac_base dac + a) = regs s (dac_base dac + a)"
      using setup_pair [OF assms(1,3)] assms(4) unfolding chan_scales_def by blast
    have "(of_nat n :: u32) * 2 = of_nat (2 * n)" "(of_nat n :: u32) * 2 + 1 = of_nat (2 * n + 1)" by simp_all
    then have "setup_channel reg_file_bus dac cs (of_nat n) s = Some (?tail s2)"
      using assms(2) True p(1,2)
      by (cases "dds_dual_tone ?c = 0") (simp_all only: setup_channel_def u split_beta Let_def f'_def p'_def x'_def if_True if_False, simp_all)
    moreover have "chan_tones dac cs (\<lambda>t f p x. tone_set dac t f p x (?tail s2)) n"
      using tail(1) [OF tone_numbers(3) [OF assms(1)] p(3)] tail(1) [OF tone_numbers(4) [OF assms(1)] p(4)]
      True unfolding chan_tones_def f'_def p'_def x'_def by (cases "dds_dual_tone ?c = 0") simp_all
    ultimately show ?thesis using tail(2) p(5) by simp
  qed
qed

text \<open>All channels.\<close>

lemma chan_less: "n < unat (dac_num_channels dac) \<Longrightarrow> n < 256"
  by (rule less_trans [OF _ unat_u8_less])

lemma dac_chans_bound: "i \<in> set (dac_chans dac) \<Longrightarrow> \<exists>n < unat (dac_num_channels dac). i = of_nat n \<and> n < 256"
  using chan_less [of _ dac] by (auto simp: dac_chans_def)

lemma distinct_dac_chans: "distinct (dac_chans dac)"
proof -
  have "inj_on (of_nat :: nat \<Rightarrow> u32) {0..<unat (dac_num_channels dac)}"
  proof (rule inj_onI)
    fix x y assume "x \<in> {0..<unat (dac_num_channels dac)}" "y \<in> {0..<unat (dac_num_channels dac)}" "(of_nat x :: u32) = of_nat y"
    moreover then have "x < 256" "y < 256" using chan_less [of _ dac] by auto
    ultimately show "x = y" by (simp add: of_nat_inverse word_of_nat_eq_iff take_bit_nat_eq_self)
  qed
  then show ?thesis by (simp add: dac_chans_def distinct_map)
qed

definition all_in_range :: "axi_dac \<Rightarrow> axi_dac_channel list \<Rightarrow> bool" where
  "all_in_range dac cs \<longleftrightarrow> (\<forall>c \<in> set cs. tone_range dac (dds_frequency_0 c) (dds_phase_0 c) (dds_scale_0 c)
     \<and> tone_range dac (dds_frequency_1 c) (dds_phase_1 c) (dds_scale_1 c))"

lemma chan_tones_mono:
  "chan_tones dac cs T i \<Longrightarrow> i < 256 \<Longrightarrow> (\<And>t f p x. t < 512 \<Longrightarrow> unat t div 2 = i \<Longrightarrow> T t f p x \<Longrightarrow> T' t f p x) \<Longrightarrow> chan_tones dac cs T' i"
  using tone_numbers [of i] unfolding chan_tones_def by (auto split: if_splits)

lemma setup_all_channels:
  assumes "dac_channels dac = Some cs" "unat (dac_num_channels dac) \<le> length cs" "dac_clock_hz dac \<noteq> 0" "\<forall>c \<in> set cs. chan_scales c"
  shows "\<exists>s'. axi_dac_data_setup reg_file_bus dac s = Some (SUCCESS, s')
    \<and> (\<forall>n < unat (dac_num_channels dac). chan_tones dac cs (\<lambda>t f p x. tone_set dac t f p x s') n)"
proof -
  let ?P = "\<lambda>i s'. chan_tones dac cs (\<lambda>t f p x. tone_set dac t f p x s') (unat i)"
  let ?ys = "set (dac_chans dac)"
  have num: "unat (of_nat n :: u32) = n" if "n < 256" for n using that by (simp add: unsigned_of_nat take_bit_nat_eq_self)
  have "\<exists>s'. setup_channel reg_file_bus dac cs x s = Some s' \<and> ?P x s' \<and> (\<forall>y \<in> ?ys. y \<noteq> x \<longrightarrow> ?P y s \<longrightarrow> ?P y s')"
    if x: "x \<in> ?ys" for x s
  proof -
    obtain n where n: "n < unat (dac_num_channels dac)" "x = of_nat n" "n < 256" using dac_chans_bound [OF x] by blast
    then have "n < length cs" using assms(2) by simp
    then obtain s' where s': "setup_channel reg_file_bus dac cs x s = Some s'" "?P x s'"
        "\<forall>a. \<not> chan_reg n a \<longrightarrow> a \<noteq> 0x44 \<longrightarrow> regs s' (dac_base dac + a) = regs s (dac_base dac + a)"
      using setup_channel_sets [OF n(3) _ assms(3), of cs s] assms(4) n(2) num [OF n(3)] by auto
    have "?P y s'" if y: "y \<in> ?ys" "y \<noteq> x" "?P y s" for y
    proof -
      obtain m where m: "y = of_nat m" "m < 256" using dac_chans_bound [OF y(1)] by blast
      then have "m \<noteq> n" using y(2) n(2) by auto
      from y(3) show ?thesis
      proof (rule chan_tones_mono)
        show "unat y < 256" using m num by simp
        fix t f p x assume t: "t < 512" "unat t div 2 = unat y" "tone_set dac t f p x s"
        show "tone_set dac t f p x s'"
        proof (rule tone_set_frame [OF t(1,3)])
          fix a assume "chan_reg (unat t div 2) a"
          then have "chan_reg m a" using t(2) m num by simp
          then show "regs s' (dac_base dac + a) = regs s (dac_base dac + a)"
            using chan_reg_apart [of m a] \<open>m \<noteq> n\<close> s'(3) by blast
        qed
      qed
    qed
    then show ?thesis using s'(1,2) by blast
  qed
  from each_establishes [OF distinct_dac_chans this subset_refl] obtain s' where
    s': "each (setup_channel reg_file_bus dac cs) (dac_chans dac) s = Some s'" "\<forall>x \<in> ?ys. ?P x s'" by blast
  have "chan_tones dac cs (\<lambda>t f p x. tone_set dac t f p x s') n" if "n < unat (dac_num_channels dac)" for n
  proof -
    have "of_nat n \<in> ?ys" using that by (simp add: dac_chans_def)
    moreover have "n < 256" using that by (rule chan_less)
    ultimately show ?thesis using s'(2) num by metis
  qed
  then show ?thesis using s'(1) assms(1) by (simp add: axi_dac_data_setup_def)
qed

text \<open>
  C26. When the channels of a core are set up from a configuration whose frequencies are below the
  sample clock, whose phases are below a full turn and whose scales are within what the core
  has bits for, every tone of every channel that uses the synthesis reads back as it was
  configured: its frequency to one step of the clock divided by 65535, its phase to three
  thousandths of a degree and its scale to 62 millionths; no channel disturbs another.
\<close>

theorem axi_dac_data_setup_reads_back:
  assumes "dac_channels dac = Some cs" "unat (dac_num_channels dac) \<le> length cs" "all_in_range dac cs" "n < unat (dac_num_channels dac)"
  shows "\<exists>s'. axi_dac_data_setup reg_file_bus dac s = Some (SUCCESS, s') \<and> chan_tones dac cs (\<lambda>t f p x. tone_reads dac t f p x s') n"
proof -
  have n: "n < 256" using assms(4) by (rule chan_less)
  have c: "cs ! n \<in> set cs" using assms(2,4) by simp
  then have range: "tone_range dac (dds_frequency_0 (cs ! n)) (dds_phase_0 (cs ! n)) (dds_scale_0 (cs ! n))"
    "tone_range dac (dds_frequency_1 (cs ! n)) (dds_phase_1 (cs ! n)) (dds_scale_1 (cs ! n))"
    using assms(3) by (simp_all add: all_in_range_def)
  then have "dac_clock_hz dac \<noteq> 0" by (auto simp: tone_range_def)
  moreover have "\<forall>c \<in> set cs. chan_scales c" using assms(3) by (fastforce simp: all_in_range_def tone_range_def chan_scales_def)
  ultimately obtain s' where "axi_dac_data_setup reg_file_bus dac s = Some (SUCCESS, s')"
      "chan_tones dac cs (\<lambda>t f p x. tone_set dac t f p x s') n"
    using setup_all_channels [OF assms(1,2), of s] assms(4) by blast
  moreover from this(2) have "chan_tones dac cs (\<lambda>t f p x. tone_reads dac t f p x s') n"
    using range tone_set_reads tone_numbers [OF n] unfolding chan_tones_def by presburger
  ultimately show ?thesis by blast
qed

definition example_channel :: axi_dac_channel where
  "example_channel = \<lparr>dds_frequency_0 = 3000000, dds_phase_0 = 90000, dds_scale_0 = 50000, dds_frequency_1 = 7000000,
     dds_phase_1 = 0, dds_scale_1 = - 250000, dds_dual_tone = 1, pat_data = 0, data_sel = AXI_DAC_DATA_SEL_DDS\<rparr>"

definition example_dac :: axi_dac where
  "example_dac = \<lparr>dac_name = '''', dac_base = 0x44A04000, dac_num_channels = 2, dac_clock_hz = 122880000,
     dac_channels = Some [example_channel, example_channel]\<rparr>"

theorem axi_dac_data_setup_reads_back_witness:
  "\<exists>s'. axi_dac_data_setup reg_file_bus example_dac \<lparr>regs = \<lambda>_. 0, log = []\<rparr> = Some (SUCCESS, s')
     \<and> tone_reads example_dac 2 3000000 90000 50000 s' \<and> tone_reads example_dac 3 7000000 0 (- 250000) s'"
proof -
  have "all_in_range example_dac [example_channel, example_channel]"
    by (simp add: all_in_range_def tone_range_def example_dac_def example_channel_def word_less_nat_alt)
  then obtain s' where "axi_dac_data_setup reg_file_bus example_dac \<lparr>regs = \<lambda>_. 0, log = []\<rparr> = Some (SUCCESS, s')"
      "chan_tones example_dac [example_channel, example_channel] (\<lambda>t f p x. tone_reads example_dac t f p x s') 1"
    using axi_dac_data_setup_reads_back [of example_dac "[example_channel, example_channel]" 1] by (auto simp: example_dac_def)
  then show ?thesis by (auto simp: chan_tones_def example_channel_def)
qed

section \<open>Coefficients, custom samples and the clock\<close>

text \<open>The coefficients are those of the ADC core, but for numbers that have no encoding.\<close>

lemma ucast_or_u64: "(ucast ((ucast (i :: u32) :: u64) OR v) :: u32) = i OR ucast v"
  by (rule bit_eqI) (auto simp: bit_simps)

lemma signed_mag_calib_fract:
  "axi_dac_dds_to_signed_mag_fmt val val2 =
     (case calib_fract val val2 of None \<Rightarrow> None | Some (Some r) \<Rightarrow> Some r
      | Some None \<Rightarrow> Some (ucast ((of_int val2 * 0x4000 + 1000000 div 2 :: u64) div 1000000)))"
  by (cases "val2 = - (2 ^ 31)") (simp_all add: axi_dac_dds_to_signed_mag_fmt_def calib_fract_def Let_def ucast_or_u64)

lemma from_signed_mag_calib_value: "axi_dac_dds_from_signed_mag_fmt r = calib_value r"
  by (simp add: axi_dac_dds_from_signed_mag_fmt_def calib_value_def Let_def)

lemma dac_coefficients: "AXI_DAC_IQCOR_COEFF_1 = AXI_ADC_IQCOR_COEFF_1" "AXI_DAC_IQCOR_COEFF_2 = AXI_ADC_IQCOR_COEFF_2"
  "AXI_DAC_TO_IQCOR_COEFF_1 = AXI_ADC_TO_IQCOR_COEFF_1" "AXI_DAC_TO_IQCOR_COEFF_2 = AXI_ADC_TO_IQCOR_COEFF_2"
  by (simp_all add: fun_eq_iff AXI_DAC_IQCOR_COEFF_1_def AXI_ADC_IQCOR_COEFF_1_def AXI_DAC_IQCOR_COEFF_2_def AXI_ADC_IQCOR_COEFF_2_def
      AXI_DAC_TO_IQCOR_COEFF_1_def AXI_ADC_TO_IQCOR_COEFF_1_def AXI_DAC_TO_IQCOR_COEFF_2_def AXI_ADC_TO_IQCOR_COEFF_2_def)

text \<open>A correction is read back with an error of at most 31 millionths, and the other one is kept.\<close>

lemma axi_dac_calib_set_get:
  assumes "coeff_range val val2"
  shows "\<exists>s' w. axi_dac_dds_set_calib_phase_scale reg_file_bus dac phase chan val val2 s = Some (SUCCESS, s')
    \<and> fst (axi_dac_dds_get_calib_phase_scale reg_file_bus dac phase chan s') = (SUCCESS, val, w) \<and> \<bar>w - val2\<bar> \<le> 31
    \<and> fst (axi_dac_dds_get_calib_phase_scale reg_file_bus dac (phase + 1) chan s')
        = fst (axi_dac_dds_get_calib_phase_scale reg_file_bus dac (phase + 1) chan s)"
proof -
  obtain r w where r: "calib_fract val val2 = Some (Some r)" "r < 0x10000" "calib_value r = (val, w)" "\<bar>w - val2\<bar> \<le> 31"
    using calib_fract_accurate [OF assms] by blast
  have apart: "dac_base dac + AXI_DAC_REG_CHAN_CNTRL_6 chan \<noteq> dac_base dac + AXI_DAC_REG_CHAN_CNTRL_8 chan"
    by (simp add: AXI_DAC_REG_CHAN_CNTRL_6_def AXI_DAC_REG_CHAN_CNTRL_8_def)
  have flags: "(chan + phase) mod 2 = 0 \<longleftrightarrow> even (phase + chan)" "(phase + chan) mod 2 = 0 \<longleftrightarrow> even (phase + chan)"
      "(phase + 1 + chan) mod 2 = 0 \<longleftrightarrow> odd (phase + chan)"
    by (simp_all add: add.commute flip: even_iff_mod_2_eq_zero)
  show ?thesis using apart
    by (cases "even (phase + chan)")
      (simp_all add: axi_dac_dds_set_calib_phase_scale_def axi_dac_dds_get_calib_phase_scale_def axi_dac_read_def axi_dac_write_def
        signed_mag_calib_fract from_signed_mag_calib_value flags r dac_coefficients iqcor_halves [OF r(2), simplified] Let_def)
qed

text \<open>The samples of axi_dac_load_custom_data, each repeated for the pairs of channels.\<close>

lemma axi_dac_load_custom_data_words:
  fixes dac :: axi_dac
  assumes "unat custom_tx_count \<le> length custom_data_iq"
  defines "m \<equiv> unat (dac_num_channels dac) div 2"
  shows "\<exists>s'. axi_dac_load_custom_data bus dac custom_data_iq custom_tx_count address s = Some (SUCCESS, s')
    \<and> s' = Xil_Out32 bus (dac_base dac + AXI_DAC_REG_SYNC_CONTROL) AXI_DAC_SYNC (fold (select_dma bus dac) (dac_chans dac)
        (writes bus address (concat (map (\<lambda>i. map (\<lambda>c. (of_nat ((i * m + c) * 4), custom_data_iq ! i)) [0..<m]) [0..<unat custom_tx_count])) s))"
proof -
  have "each (custom_body bus address custom_data_iq m) [0..<unat custom_tx_count] s = Some (writes bus address
      (concat (map (\<lambda>i. map (\<lambda>c. (of_nat ((i * m + c) * 4), custom_data_iq ! i)) [0..<m]) [0..<unat custom_tx_count])) s)"
  proof (rule each_writes)
    fix i s assume "i \<in> set [0..<unat custom_tx_count]"
    then have i: "i < length custom_data_iq" using assms(1) by simp
    let ?g = "\<lambda>c. [(of_nat ((i * m + c) * 4), custom_data_iq ! i)]"
    have "custom_body bus address custom_data_iq m i s = Some (writes bus address (concat (map ?g [0..<m])) s)"
      unfolding custom_body_def by (rule each_writes) (simp add: i)
    then show "custom_body bus address custom_data_iq m i s
        = Some (writes bus address (map (\<lambda>c. (of_nat ((i * m + c) * 4), custom_data_iq ! i)) [0..<m]) s)"
      by (simp add: concat_map_singleton)
  qed
  then show ?thesis by (simp add: axi_dac_load_custom_data_def axi_dac_write_def m_def)
qed

text \<open>A core that reports no clock makes axi_dac_init divide by zero.\<close>

lemma axi_dac_init_no_clock:
  assumes "regs s (dini_base init + 0x5C) \<noteq> 0" "regs s (dini_base init + 0x54) = 0" "dini_channels init = None" "dini_num_channels init \<noteq> 0"
  shows "axi_dac_init reg_file_bus (\<lambda>_ s. s) True init s = None"
proof -
  have "0 < unat (dini_num_channels init)" using assms(4) by (simp add: unat_gt_0)
  then have "[0..<unat (dini_num_channels init)] = 0 # [1..<unat (dini_num_channels init)]" by (simp add: upt_conv_Cons)
  then show ?thesis using assms
    by (simp add: axi_dac_init_def axi_dac_data_setup_def axi_dac_read_def axi_dac_write_def dac_chans_def setup_default_def
        axi_dac_dds_set_frequency_def clock_rate_def Let_def)
qed

end
