(* ===== verification/At_Parser.thy ===== *)
theory At_Parser
  imports Circular_Buffer CStdlib "HOL-Library.Sublist"
begin

text \<open>
  network/wifi/at_parser.c, the receiving half: the UART interrupt callback that reads the
  answers of the ESP8266 module byte by byte, recognises messages in the stream, and moves
  the payload of connections into their circular buffers by asynchronous reads.

  The application (wifi.c) is reached through the connection callback, a parameter on the
  application's state. The circular buffers live in a heap the parser and the application
  share; a connection holds an address. The UART driver is modelled by the read request it
  has been given: a character into read_ch, or a range of a ring. A byte that arrives is
  stored where the request says, and at_callback runs when the request is complete.
\<close>

section \<open>Data\<close>

definition MAX_CONNECTIONS :: nat where [simp]: "MAX_CONNECTIONS = 4"
definition RESULT_BUFF_LEN :: nat where [simp]: "RESULT_BUFF_LEN = 500"
definition CMD_BUFF_LEN :: nat where [simp]: "CMD_BUFF_LEN = 120"
definition AT_ERROR_UART :: u32 where [simp]: "AT_ERROR_UART = 0x4"
definition AT_ERROR_INTERNAL_BUFFER_OVERFLOW :: u32 where [simp]: "AT_ERROR_INTERNAL_BUFFER_OVERFLOW = 0x10"

datatype socket_type = SOCKET_TCP | SOCKET_UDP
datatype at_event = AT_NEW_CONNECTION | AT_CLOSED_CONNECTION
datatype callback_op = READING_RESPONSES | READING_PAYLOAD | RESETTING_MODULE | WAITING_SEND
datatype ipd_status = NOT_MATCH | RAEDING_CONN | WAITING_COMMA | READING_LEN

record connection_desc =
  cbuff :: "nat option"
  to_read :: u32
  active :: bool
  conn_type :: socket_type

record at_desc =
  conn :: "connection_desc list"
  current_conn :: int
  multiple_conections :: bool
  result_buff :: "u8 list"
  result_len :: u32
  app_result_buff :: "u8 list"
  cmd_buff :: "u8 list"
  cmd_len :: u32
  read_ch :: u8
  errors :: u32
  is_wifi_connected :: bool
  callback_operation :: callback_op
  ready_idx :: u8
  async_idx :: "u8 list"
  resp_idx :: "u8 list"
  ipd_idx :: u8
  ipd_stat :: ipd_status
  ipd_len :: u32

text \<open>What uart_read_nonblocking was last asked for: a character, or \<open>n\<close> bytes of a ring.\<close>

datatype uart_request = Req_ch | Req_ring nat nat nat

text \<open>The parser, the application behind the callback, the ring buffers and the UART.\<close>

record 'w at_sys =
  at :: at_desc
  app :: 'w
  bufs :: "circular_buffer heap"
  uart :: uart_request

type_synonym 'w conn_callback = "at_event \<Rightarrow> u32 \<Rightarrow> 'w \<Rightarrow> nat option \<times> 'w"

definition bytes_of :: "string \<Rightarrow> u8 list" where
  "bytes_of s = map of_char s"

definition crlf :: string where "crlf = [CHR 0x0D, CHR 0x0A]"

section \<open>Recognising messages\<close>

text \<open>
  The messages are C strings: the byte after the last is the terminating zero, and reading
  further is undefined.
\<close>

definition match_message :: "u8 list \<Rightarrow> u8 \<Rightarrow> u8 \<Rightarrow> (bool \<times> u8) option" where
  "match_message msg i ch = do {
     guard (unat i \<le> length msg);
     if ch = (msg @ [0]) ! unat i then Some (unat (i + 1) = length msg, i + 1)
     else if ch = (msg @ [0]) ! 0 then Some (False, 1)
     else Some (False, 0)}"

definition at_ipd :: "u8 list" where "at_ipd = bytes_of (crlf @ ''+IPD,'')"
definition ready_msg :: "u8 list" where "ready_msg = bytes_of (''ready'' @ crlf)"
definition async_msgs :: "u8 list list" where
  "async_msgs = [bytes_of (''CLOSED'' @ crlf), bytes_of (''WIFI DISCONNECT'' @ crlf),
     bytes_of (''WIFI GOT IP'' @ crlf)]"

text \<open>The answers to commands, for which at_parser.c's wait_for_response looks.\<close>

definition responses :: "u8 list list" where
  "responses = [bytes_of (crlf @ ''ERROR'' @ crlf), bytes_of (crlf @ ''FAIL'' @ crlf),
     bytes_of (crlf @ ''OK'' @ crlf), bytes_of (crlf @ ''SEND OK'' @ crlf)]"

definition get_conn :: "at_desc \<Rightarrow> connection_desc option" where
  "get_conn desc = do {
     guard (0 \<le> current_conn desc \<and> nat (current_conn desc) < length (conn desc));
     Some (conn desc ! nat (current_conn desc))}"

definition put_conn :: "(connection_desc \<Rightarrow> connection_desc) \<Rightarrow> at_desc \<Rightarrow> at_desc" where
  "put_conn f desc =
     desc\<lparr>conn := (conn desc)[nat (current_conn desc) := f (conn desc ! nat (current_conn desc))]\<rparr>"

definition ipd_reset :: "at_desc \<Rightarrow> at_desc" where
  "ipd_reset desc = desc\<lparr>ipd_idx := 0, ipd_len := 0, ipd_stat := NOT_MATCH\<rparr>"

definition is_payload_message :: "at_desc \<Rightarrow> u8 \<Rightarrow> (bool \<times> at_desc) option" where
  "is_payload_message desc ch =
     (if unat (ipd_idx desc) < length at_ipd then do {
        (matched, i) \<leftarrow> match_message at_ipd (ipd_idx desc) ch;
        let desc = desc\<lparr>ipd_idx := i\<rparr>;
        Some (False, if matched
          then desc\<lparr>ipd_stat := (if multiple_conections desc then RAEDING_CONN else READING_LEN)\<rparr>
          else desc)}
      else (case ipd_stat desc of
        RAEDING_CONN \<Rightarrow>
          if ch < of_char CHR ''0'' \<or> ch > of_char CHR ''4'' then Some (False, ipd_reset desc)
          else Some (False, desc\<lparr>current_conn := uint ch - 48, ipd_stat := WAITING_COMMA,
                              ipd_idx := ipd_idx desc + 1\<rparr>)
      | WAITING_COMMA \<Rightarrow>
          if ch \<noteq> of_char CHR '','' then Some (False, ipd_reset desc)
          else Some (False, desc\<lparr>ipd_stat := READING_LEN, ipd_idx := ipd_idx desc + 1\<rparr>)
      | READING_LEN \<Rightarrow>
          if ch < of_char CHR ''0'' \<or> ch > of_char CHR ''9'' then
            if ch = of_char CHR '':'' \<and> ipd_len desc > 0 then do {
              _ \<leftarrow> get_conn desc;
              let desc = put_conn (\<lambda>c. c\<lparr>to_read := ipd_len desc\<rparr>) desc;
              let desc = desc\<lparr>result_len := result_len desc - ucast (ipd_idx desc)\<rparr>;
              Some (True, ipd_reset desc)}
            else Some (False, ipd_reset desc)
          else Some (False, desc\<lparr>ipd_len := ipd_len desc * 10 + (ucast ch - 48),
                              ipd_idx := ipd_idx desc + 1\<rparr>)
      | NOT_MATCH \<Rightarrow> Some (False, ipd_reset desc)))"

definition check_conn_id ::
  "'w conn_callback \<Rightarrow> u8 list \<Rightarrow> nat \<Rightarrow> 'w at_sys \<Rightarrow> (bool \<times> 'w at_sys) option" where
  "check_conn_id callback msg msg_idx st = do {
     let desc = at st;
     let desc = desc\<lparr>result_len := result_len desc - (of_nat (length msg) - 1)\<rparr>;
     (ident, desc) \<leftarrow>
       (if \<not> multiple_conections desc then Some (0, desc)
        else let j = sint (result_len desc - 2) in
        if j < 0 then Some (-1, desc)
        else do {
          guard (nat j < length (result_buff desc));
          let c = result_buff desc ! nat j;
          if of_char CHR ''0'' \<le> c \<and> c \<le> of_char CHR ''3''
          then Some (uint c - 48, desc\<lparr>result_len := result_len desc - 2\<rparr>)
          else Some (-1, desc)});
     if 0 \<le> ident \<and> ident < 4 then
       let desc = put_conn (\<lambda>c. c\<lparr>active := False, cbuff := None\<rparr>) (desc\<lparr>current_conn := ident\<rparr>);
           (_, w) = callback AT_CLOSED_CONNECTION (of_int ident) (app st)
       in Some (True, st\<lparr>at := desc, app := w\<rparr>)
     else Some (False, st\<lparr>at := desc\<lparr>async_idx := (async_idx desc)[msg_idx := 0]\<rparr>\<rparr>)}"

text \<open>The loop over messages stops at the first that is complete; their number is none.\<close>

fun match_loop :: "u8 list list \<Rightarrow> nat list \<Rightarrow> u8 \<Rightarrow> u8 list \<Rightarrow> (nat \<times> u8 list) option" where
  "match_loop msgs [] ch ixs = Some (length msgs, ixs)"
| "match_loop msgs (i # is) ch ixs = do {
     (matched, k) \<leftarrow> match_message (msgs ! i) (ixs ! i) ch;
     if matched then Some (i, ixs[i := k]) else match_loop msgs is ch (ixs[i := k])}"

definition is_async_messages ::
  "'w conn_callback \<Rightarrow> u8 \<Rightarrow> 'w at_sys \<Rightarrow> (bool \<times> 'w at_sys) option" where
  "is_async_messages callback ch st = do {
     (i, ixs) \<leftarrow> match_loop async_msgs [0..<length async_msgs] ch (async_idx (at st));
     let st = st\<lparr>at := (at st)\<lparr>async_idx := ixs\<rparr>\<rparr>;
     let clear = (\<lambda>st :: 'w at_sys. st\<lparr>at := (at st)\<lparr>async_idx := replicate (length async_msgs) 0\<rparr>\<rparr>);
     if i = 0 then do {
       (closed, st) \<leftarrow> check_conn_id callback (async_msgs ! 0) 0 st;
       if closed then Some (False, st) else Some (True, clear st)}
     else if i = 1 then Some (True, clear (st\<lparr>at := (at st)\<lparr>is_wifi_connected := False\<rparr>\<rparr>))
     else if i = 2 then Some (True, clear (st\<lparr>at := (at st)\<lparr>is_wifi_connected := True\<rparr>\<rparr>))
     else Some (False, st)}"

section \<open>Payload of connections\<close>

text \<open>A NULL circular buffer is an error the caller ignores; a freed one is undefined.\<close>

definition end_conn_read :: "'w at_sys \<Rightarrow> 'w at_sys option" where
  "end_conn_read st = do {
     c \<leftarrow> get_conn (at st);
     (case cbuff c of
        None \<Rightarrow> Some st
      | Some a \<Rightarrow> do {
          cb \<leftarrow> cells (bufs st) a;
          Some (st\<lparr>bufs := (bufs st)\<lparr>cells := (cells (bufs st))(a \<mapsto> snd (cb_end_async_write cb))\<rparr>\<rparr>)})}"

text \<open>
  The error test after cb_prepare_async_write is on an unsigned variable and never holds, so
  when the write cannot be started the uninitialised buffer and length are used: \<open>None\<close>.
\<close>

definition start_conn_read :: "'w conn_callback \<Rightarrow> bool \<Rightarrow> 'w at_sys \<Rightarrow> 'w at_sys option" where
  "start_conn_read callback is_new_message st = do {
     c \<leftarrow> get_conn (at st);
     let st = (if is_new_message \<and> \<not> active c
               then (case callback AT_NEW_CONNECTION (of_int (current_conn (at st))) (app st) of
                       (p, w) \<Rightarrow> st\<lparr>app := w,
                         at := put_conn (\<lambda>c. c\<lparr>cbuff := p, active := (p \<noteq> None \<or> active c)\<rparr>) (at st)\<rparr>)
               else st);
     c \<leftarrow> get_conn (at st);
     (case cbuff c of
        None \<Rightarrow> Some (st\<lparr>uart := Req_ch, at := put_conn (\<lambda>c. c\<lparr>to_read := to_read c - 1\<rparr>) (at st)\<rparr>)
      | Some a \<Rightarrow> do {
          cb \<leftarrow> cells (bufs st) a;
          (case cb_prepare_async_write cb (to_read c) of
             (_, _, None) \<Rightarrow> None
           | (_, cb', Some (start, available_len)) \<Rightarrow>
               Some (st\<lparr>bufs := (bufs st)\<lparr>cells := (cells (bufs st))(a \<mapsto> cb')\<rparr>,
                  uart := Req_ring a (unat start) (unat available_len),
                  at := put_conn (\<lambda>c. c\<lparr>to_read := to_read c - available_len\<rparr>) (at st)\<rparr>))})}"

section \<open>The interrupt callback\<close>

definition store_result :: "u8 \<Rightarrow> at_desc \<Rightarrow> at_desc option" where
  "store_result ch desc = do {
     guard (unat (result_len desc) < length (result_buff desc));
     Some (desc\<lparr>result_buff := (result_buff desc)[unat (result_len desc) := ch],
                result_len := result_len desc + 1\<rparr>)}"

datatype uart_event = IRQ_READ_DONE | IRQ_ERROR

text \<open>Every path that does not start a payload read asks for the next character.\<close>

definition at_callback :: "'w conn_callback \<Rightarrow> uart_event \<Rightarrow> 'w at_sys \<Rightarrow> 'w at_sys option" where
  "at_callback callback event st =
     (case event of
        IRQ_ERROR \<Rightarrow>
          let desc = at st in
          Some (st\<lparr>uart := Req_ch, at := (if callback_operation desc \<noteq> RESETTING_MODULE
            then desc\<lparr>errors := errors desc OR AT_ERROR_UART\<rparr> else desc)\<rparr>)
      | IRQ_READ_DONE \<Rightarrow>
         (if callback_operation (at st) = RESETTING_MODULE then do {
            (matched, i) \<leftarrow> match_message ready_msg (ready_idx (at st)) (read_ch (at st));
            let desc = (at st)\<lparr>ready_idx := i\<rparr>;
            Some (st\<lparr>uart := Req_ch, at := (if matched
              then desc\<lparr>callback_operation := READING_RESPONSES\<rparr> else desc)\<rparr>)}
          else if callback_operation (at st) = READING_PAYLOAD then do {
            st \<leftarrow> end_conn_read st;
            c \<leftarrow> get_conn (at st);
            if to_read c = 0 then
              Some (st\<lparr>uart := Req_ch, at := (at st)\<lparr>callback_operation := READING_RESPONSES, current_conn := -1\<rparr>\<rparr>)
            else start_conn_read callback False st}
          else do {
            (payload, desc) \<leftarrow> is_payload_message (at st) (read_ch (at st));
            let st = st\<lparr>at := desc\<rparr>;
            if payload then start_conn_read callback True (st\<lparr>at := desc\<lparr>callback_operation := READING_PAYLOAD\<rparr>\<rparr>)
            else if read_ch desc = of_char CHR ''>'' \<and> callback_operation desc = WAITING_SEND then
              Some (st\<lparr>uart := Req_ch, at := desc\<lparr>callback_operation := READING_RESPONSES\<rparr>\<rparr>)
            else if unat (result_len desc) \<ge> RESULT_BUFF_LEN then
              Some (st\<lparr>uart := Req_ch, at := desc\<lparr>errors := errors desc OR AT_ERROR_INTERNAL_BUFFER_OVERFLOW,
                                               result_len := 0\<rparr>\<rparr>)
            else do {
              (is_async, st) \<leftarrow> is_async_messages callback (read_ch desc) st;
              if is_async then Some (st\<lparr>uart := Req_ch\<rparr>)
              else do {
                desc \<leftarrow> store_result (read_ch (at st)) (at st);
                Some (st\<lparr>uart := Req_ch, at := desc\<rparr>)}}}))"

text \<open>A byte on the line: stored where the request says; a completed request interrupts.\<close>

definition uart_byte :: "'w conn_callback \<Rightarrow> u8 \<Rightarrow> 'w at_sys \<Rightarrow> 'w at_sys option" where
  "uart_byte callback b st =
     (case uart st of
        Req_ch \<Rightarrow> at_callback callback IRQ_READ_DONE (st\<lparr>at := (at st)\<lparr>read_ch := b\<rparr>\<rparr>)
      | Req_ring a start n \<Rightarrow> do {
          cb \<leftarrow> cells (bufs st) a;
          ring \<leftarrow> mem_write (cb_buff cb) start [b];
          let st = st\<lparr>bufs := (bufs st)\<lparr>cells := (cells (bufs st))(a \<mapsto> cb\<lparr>cb_buff := ring\<rparr>)\<rparr>,
                      uart := Req_ring a (start + 1) (n - 1)\<rparr>;
          if n \<le> 1 then at_callback callback IRQ_READ_DONE st else Some st})"

fun uart_bytes :: "'w conn_callback \<Rightarrow> u8 list \<Rightarrow> 'w at_sys \<Rightarrow> 'w at_sys option" where
  "uart_bytes callback [] st = Some st"
| "uart_bytes callback (b # bs) st = do {st \<leftarrow> uart_byte callback b st; uart_bytes callback bs st}"

section \<open>The matcher finds the first occurrence\<close>

text \<open>
  The index a matcher keeps is the length of the longest prefix of the message that ends the
  stream so far. That the simple fallback of match_message (to one character or none) gets it
  right depends on the message: wherever a prefix of it has a border, the border must go on
  with the same character.
\<close>

definition plain_msg :: "u8 list \<Rightarrow> bool" where
  "plain_msg msg = (msg \<noteq> [] \<and> length msg < 255 \<and>
     (\<forall>i \<in> set [0..<length msg]. \<forall>j \<in> set [1..<i].
        take j msg = drop (i - j) (take i msg) \<longrightarrow> msg ! j = msg ! i))"

definition represents :: "u8 list \<Rightarrow> u8 \<Rightarrow> u8 list \<Rightarrow> bool" where
  "represents msg i xs \<longleftrightarrow> unat i < length msg \<and> suffix (take (unat i) msg) xs
     \<and> (\<forall>j. unat i < j \<and> j \<le> length msg \<longrightarrow> \<not> suffix (take j msg) xs)"

declare suffix_snoc [simp del]

lemma suffix_take_snoc:
  assumes "j < length msg"
  shows "suffix (take (Suc j) msg) (xs @ [c]) \<longleftrightarrow> suffix (take j msg) xs \<and> msg ! j = c"
  using assms by (auto simp: take_Suc_conv_app_nth)

lemma border_continues:
  assumes "plain_msg msg" "i < length msg" "j < i" "j \<noteq> 0"
    "suffix (take i msg) xs" "suffix (take j msg) xs"
  shows "msg ! j = msg ! i"
proof -
  have "suffix (take j msg) (take i msg)"
    by (rule suffix_length_suffix [OF assms(6,5)]) (use assms(2,3) in simp)
  then obtain zs where zs: "take i msg = zs @ take j msg" by (auto simp: suffix_def)
  from arg_cong [OF this, of length] have "length zs = i - j" using assms(2,3) by simp
  with zs have "take j msg = drop (i - j) (take i msg)" by simp
  with assms(1-4) show ?thesis by (auto simp: plain_msg_def)
qed

lemma match_message_step:
  assumes plain: "plain_msg msg" and rep: "represents msg i xs"
  shows "\<exists>k. match_message msg i c = Some (suffix msg (xs @ [c]), k)
    \<and> (\<not> suffix msg (xs @ [c]) \<longrightarrow> represents msg k (xs @ [c]))"
proof -
  let ?i = "unat i"
  have i: "?i < length msg" "length msg < 255" "msg \<noteq> []" and suf: "suffix (take ?i msg) xs"
    and mx: "\<And>j. ?i < j \<Longrightarrow> j \<le> length msg \<Longrightarrow> \<not> suffix (take j msg) xs"
    using plain rep by (auto simp: plain_msg_def represents_def)
  have ext: "suffix (take (Suc j) msg) (xs @ [c]) \<longleftrightarrow> suffix (take j msg) xs \<and> msg ! j = c"
    if "j < length msg" for j using that by (rule suffix_take_snoc)
  have none: "\<not> suffix (take (Suc j) msg) (xs @ [c])" if "?i < j" "j < length msg" for j
    unfolding ext [OF that(2)] using mx [of j] that by simp
  have whole: "suffix msg (xs @ [c]) \<longleftrightarrow> Suc ?i = length msg \<and> msg ! ?i = c"
  proof -
    obtain l where l: "length msg = Suc l" using i(3) by (cases msg) auto
    then have "suffix msg (xs @ [c]) \<longleftrightarrow> suffix (take l msg) xs \<and> msg ! l = c"
      using ext [of l] by simp
    moreover have "suffix (take l msg) xs \<Longrightarrow> l \<le> ?i" using mx [of l] l by fastforce
    ultimately show ?thesis using suf i(1) l by (metis Suc_inject less_Suc_eq_le order_antisym)
  qed
  have nths: "(msg @ [0]) ! ?i = msg ! ?i" "(msg @ [0]) ! 0 = msg ! 0"
    using i by (simp_all add: nth_append)
  have g: "?i \<le> length msg" using i(1) by simp
  have le_j: "suffix (take j msg) (xs @ [c]) \<Longrightarrow> j \<le> length msg \<Longrightarrow> j \<le> Suc ?i" for j
    using none [of "j - 1"] by (cases j) (auto intro: leI)
  show ?thesis
  proof (cases "c = msg ! ?i")
    case True
    have u: "unat (i + 1) = Suc ?i" using i by (simp add: unat_word_ariths)
    have "suffix (take (Suc ?i) msg) (xs @ [c])" using ext [OF i(1)] suf True by blast
    then have "represents msg (i + 1) (xs @ [c])" if "Suc ?i \<noteq> length msg"
      using that i(1) le_j unfolding represents_def u by (meson Suc_lessI leD)
    moreover have "suffix msg (xs @ [c]) \<longleftrightarrow> Suc ?i = length msg" using whole True by simp
    ultimately show ?thesis using g True [symmetric] by (simp add: match_message_def nths u)
  next
    case False
    have small: "j \<le> 1 \<and> (j = 1 \<longrightarrow> c = msg ! 0)" if j: "suffix (take j msg) (xs @ [c])" "j \<le> length msg" for j
    proof (cases j)
      case (Suc l)
      then have s: "suffix (take l msg) xs" "msg ! l = c" using j ext [of l] by auto
      then have "l \<le> ?i" using mx [of l] Suc j(2) by fastforce
      then have "l = 0"
        using border_continues [OF plain i(1) _ _ suf s(1)] s(2) False by (cases "l = ?i") auto
      then show ?thesis using Suc s(2) by simp
    qed simp
    have "represents msg 1 (xs @ [c])" if "c = msg ! 0"
    proof -
      have "?i \<noteq> 0" using that False by metis
      then have "1 < length msg" using i(1) by linarith
      moreover have "suffix (take 1 msg) (xs @ [c])" using that ext [of 0] i(3) by simp
      ultimately show ?thesis using small unfolding represents_def by (auto simp: not_le [symmetric])
    qed
    moreover have "represents msg 0 (xs @ [c])" if "c \<noteq> msg ! 0"
      using that small i by (fastforce simp: represents_def)
    ultimately show ?thesis using False g by (simp add: match_message_def nths whole)
  qed
qed

text \<open>A matcher run over a stream: what is left after the first match, or the final index.\<close>

fun scan :: "u8 list \<Rightarrow> u8 \<Rightarrow> u8 list \<Rightarrow> (u8 list + u8) option" where
  "scan msg i [] = Some (Inr i)"
| "scan msg i (c # cs) = do {
     (matched, k) \<leftarrow> match_message msg i c;
     if matched then Some (Inl cs) else scan msg k cs}"

lemma scan_spec:
  assumes "plain_msg msg" "represents msg i xs"
  shows "(\<exists>pre rest. cs = pre @ rest \<and> scan msg i cs = Some (Inl rest) \<and> suffix msg (xs @ pre)
            \<and> (\<forall>q. strict_prefix q pre \<and> q \<noteq> [] \<longrightarrow> \<not> suffix msg (xs @ q)))
    \<or> (\<exists>k. scan msg i cs = Some (Inr k) \<and> represents msg k (xs @ cs)
            \<and> (\<forall>q. prefix q cs \<and> q \<noteq> [] \<longrightarrow> \<not> suffix msg (xs @ q)))"
  using assms(2)
proof (induction cs arbitrary: i xs)
  case Nil
  then show ?case by simp
next
  case (Cons c cs)
  obtain k where k: "match_message msg i c = Some (suffix msg (xs @ [c]), k)"
    "\<not> suffix msg (xs @ [c]) \<Longrightarrow> represents msg k (xs @ [c])"
    using match_message_step [OF assms(1) Cons.prems] by blast
  show ?case
  proof (cases "suffix msg (xs @ [c])")
    case True
    then have "scan msg i (c # cs) = Some (Inl cs)" by (simp add: k(1))
    moreover have "\<not> (strict_prefix q [c] \<and> q \<noteq> [])" for q
      by (auto simp: strict_prefix_def prefix_Cons)
    ultimately show ?thesis using True by (intro disjI1 exI [of _ "[c]"] exI [of _ cs]) auto
  next
    case False
    have eq: "scan msg i (c # cs) = scan msg k cs" using False by (simp add: k(1))
    have q: "\<not> suffix msg (xs @ c # q)" if "q = [] \<or> \<not> suffix msg ((xs @ [c]) @ q)" for q
      using that False by auto
    from Cons.IH [OF k(2) [OF False]] show ?thesis
    proof (elim disjE exE conjE)
      fix pre rest
      assume *: "cs = pre @ rest" "scan msg k cs = Some (Inl rest)" "suffix msg ((xs @ [c]) @ pre)"
        "\<forall>q. strict_prefix q pre \<and> q \<noteq> [] \<longrightarrow> \<not> suffix msg ((xs @ [c]) @ q)"
      have "\<not> suffix msg (xs @ q')" if "strict_prefix q' (c # pre)" "q' \<noteq> []" for q'
        using that *(4) q by (cases q') (auto simp: strict_prefix_def)
      then show ?thesis using * unfolding eq
        by (intro disjI1 exI [of _ "c # pre"] exI [of _ rest]) auto
    next
      fix k'
      assume *: "scan msg k cs = Some (Inr k')" "represents msg k' ((xs @ [c]) @ cs)"
        "\<forall>q. prefix q cs \<and> q \<noteq> [] \<longrightarrow> \<not> suffix msg ((xs @ [c]) @ q)"
      have "\<not> suffix msg (xs @ q')" if "prefix q' (c # cs)" "q' \<noteq> []" for q'
        using that *(3) q by (cases q') auto
      then show ?thesis using * unfolding eq by (intro disjI2 exI [of _ k']) auto
    qed
  qed
qed

lemma represents_start: "plain_msg msg \<Longrightarrow> represents msg 0 []"
  by (auto simp: represents_def plain_msg_def)

lemma messages_plain: "\<forall>msg \<in> set ([at_ipd, ready_msg] @ async_msgs @ responses). plain_msg msg"
  unfolding plain_msg_def at_ipd_def ready_msg_def async_msgs_def responses_def bytes_of_def crlf_def
  by code_simp

text \<open>
  C6. match_message recognises each of the nine messages of the protocol exactly: run over
  any stream from index 0, it reports a match after the first position where the message
  ends as a substring of the stream, and it reports none when the message does not occur.
\<close>

theorem match_message_first_occurrence:
  assumes "msg \<in> set ([at_ipd, ready_msg] @ async_msgs @ responses)"
  shows "(scan msg 0 cs = Some (Inl rest) \<longleftrightarrow>
            (\<exists>pre. cs = pre @ rest \<and> suffix msg pre \<and> (\<forall>q. strict_prefix q pre \<longrightarrow> \<not> suffix msg q)))
    \<and> ((\<exists>k. scan msg 0 cs = Some (Inr k)) \<longleftrightarrow> \<not> sublist msg cs)"
proof -
  have plain: "plain_msg msg" using messages_plain assms by blast
  have ne: "\<not> suffix msg []" using plain by (auto simp: plain_msg_def)
  have uniq: "pre = pre'"
    if "cs = pre @ r" "cs = pre' @ r'" "suffix msg pre" "suffix msg pre'"
      "\<forall>q. strict_prefix q pre \<longrightarrow> \<not> suffix msg q" "\<forall>q. strict_prefix q pre' \<longrightarrow> \<not> suffix msg q"
    for pre pre' r r'
    using that by (metis prefixI prefix_same_cases strict_prefix_def)
  have sub: "sublist msg cs \<longleftrightarrow> (\<exists>q. prefix q cs \<and> suffix msg q)"
    by (rule sublist_altdef)
  from scan_spec [OF plain represents_start [OF plain], of cs] show ?thesis
  proof (elim disjE exE conjE)
    fix pre r
    assume *: "cs = pre @ r" "scan msg 0 cs = Some (Inl r)" "suffix msg ([] @ pre)"
      "\<forall>q. strict_prefix q pre \<and> q \<noteq> [] \<longrightarrow> \<not> suffix msg ([] @ q)"
    then have first: "\<forall>q. strict_prefix q pre \<longrightarrow> \<not> suffix msg q" "suffix msg pre" using ne by auto
    have "sublist msg cs" using * sub by auto
    then show ?thesis using * first uniq by (metis Inl_inject append_same_eq option.inject
          same_append_eq sum.distinct(1))
  next
    fix k
    assume *: "scan msg 0 cs = Some (Inr k)" "\<forall>q. prefix q cs \<and> q \<noteq> [] \<longrightarrow> \<not> suffix msg ([] @ q)"
    then have "\<not> suffix msg q" if "prefix q cs" for q using that ne by (cases "q = []") auto
    then show ?thesis using * sub by (auto simp: prefix_def)
  qed
qed

theorem match_message_first_occurrence_witness:
  "\<exists>pre. bytes_of (''rready'' @ crlf @ ''z'') = pre @ bytes_of ''z'' \<and> suffix ready_msg pre
     \<and> (\<forall>q. strict_prefix q pre \<longrightarrow> \<not> suffix ready_msg q)"
proof -
  have "scan ready_msg 0 (bytes_of (''rready'' @ crlf @ ''z'')) = Some (Inl (bytes_of ''z''))"
    unfolding ready_msg_def bytes_of_def crlf_def by code_simp
  then show ?thesis
    using match_message_first_occurrence [of ready_msg "bytes_of (''rready'' @ crlf @ ''z'')" "bytes_of ''z''"]
    by simp
qed

section \<open>The payload of a connection reaches its buffer\<close>

lemma uart_bytes_append:
  "uart_bytes callback (xs @ ys) st = Option.bind (uart_bytes callback xs st) (uart_bytes callback ys)"
  by (induction xs arbitrary: st) (auto simp: Option.bind_assoc intro: arg_cong2 [of _ _ _ _ Option.bind])

lemma uart_bytes_Nil [simp]: "uart_bytes callback [] = Some"
  by (rule ext) simp

text \<open>Waiting for the first byte of a message, with no asynchronous message begun.\<close>

definition quiet :: "'w at_sys \<Rightarrow> bool" where
  "quiet st \<longleftrightarrow> uart st = Req_ch \<and> callback_operation (at st) = READING_RESPONSES
     \<and> async_idx (at st) = [0, 0, 0] \<and> length (result_buff (at st)) = RESULT_BUFF_LEN"

text \<open>The state after the bytes \<open>xs\<close> of a payload header, kept as an answer so far.\<close>

definition hdr :: "'w at_sys \<Rightarrow> u8 list \<Rightarrow> u8 \<Rightarrow> ipd_status \<Rightarrow> u32 \<Rightarrow> int \<Rightarrow> 'w at_sys" where
  "hdr st xs i stat l cc = st\<lparr>at := (at st)\<lparr>
     result_buff := take (unat (result_len (at st))) (result_buff (at st)) @ xs
       @ drop (unat (result_len (at st)) + length xs) (result_buff (at st)),
     result_len := result_len (at st) + of_nat (length xs),
     read_ch := (if xs = [] then read_ch (at st) else last xs),
     ipd_idx := i, ipd_stat := stat, ipd_len := l, current_conn := cc\<rparr>\<rparr>"

lemma async_first: "length async_msgs = 3" "(async_msgs ! 0 @ [0]) ! 0 = 67" "(async_msgs ! 1 @ [0]) ! 0 = 87"
  "(async_msgs ! Suc 0 @ [0]) ! 0 = 87" "(async_msgs ! 2 @ [0]) ! 0 = 87"
  unfolding async_msgs_def bytes_of_def crlf_def by code_simp+

lemma async_quiet: "c \<noteq> 67 \<Longrightarrow> c \<noteq> 87 \<Longrightarrow> match_loop async_msgs [0..<length async_msgs] c [0, 0, 0] = Some (3, [0, 0, 0])"
proof -
  have "[0..<length async_msgs] = [0, 1, 2]" by (simp add: async_first(1) upt_rec)
  moreover assume "c \<noteq> 67" "c \<noteq> 87"
  ultimately show ?thesis by (simp add: async_first match_message_def)
qed

lemma write_at_end:
  assumes "r + length xs < length buf"
  shows "(take r buf @ xs @ drop (r + length xs) buf)[r + length xs := c] =
    take r buf @ (xs @ [c]) @ drop (r + length (xs @ [c])) buf"
proof -
  have "drop (r + length xs) buf = buf ! (r + length xs) # drop (Suc (r + length xs)) buf"
    using assms by (simp add: Cons_nth_drop_Suc)
  then show ?thesis using assms by (simp add: list_update_append)
qed

lemma hdr_step:
  assumes q: "quiet st" and room: "unat (result_len (at st)) + length xs < 500"
    and c: "c \<noteq> 67" "c \<noteq> 87"
    and pm: "is_payload_message ((at (hdr st xs i stat l cc))\<lparr>read_ch := c\<rparr>) c =
      Some (False, (at (hdr st xs i stat l cc))\<lparr>read_ch := c, ipd_idx := i', ipd_stat := stat',
        ipd_len := l', current_conn := cc'\<rparr>)"
  shows "uart_byte callback c (hdr st xs i stat l cc) = Some (hdr st (xs @ [c]) i' stat' l' cc')"
proof -
  let ?r = "unat (result_len (at st))"
  have len: "unat (result_len (at st) + of_nat (length xs)) = ?r + length xs"
    using room by (simp add: unat_word_ariths unat_of_nat)
  have op: "callback_operation (at st) = READING_RESPONSES" "uart st = Req_ch"
    "async_idx (at st) = [0, 0, 0]" "length (result_buff (at st)) = 500"
    using q by (simp_all add: quiet_def)
  have upd: "(take ?r (result_buff (at st)) @ xs @ drop (?r + length xs) (result_buff (at st)))[?r + length xs := c]
      = take ?r (result_buff (at st)) @ (xs @ [c]) @ drop (?r + length (xs @ [c])) (result_buff (at st))"
    using room op(4) by (intro write_at_end) simp
  show ?thesis
    using pm op async_quiet [OF c] room upd
    by (simp add: uart_byte_def at_callback_def hdr_def is_async_messages_def store_result_def len)
qed

lemma at_ipd_list: "at_ipd = [13, 10, 43, 73, 80, 68, 44]"
  unfolding at_ipd_def bytes_of_def crlf_def by code_simp

lemma length_at_ipd [simp]: "length at_ipd = 7"
  by (simp add: at_ipd_list)

definition after_ipd :: "'w at_sys \<Rightarrow> ipd_status" where
  "after_ipd st = (if multiple_conections (at st) then RAEDING_CONN else READING_LEN)"

lemma hdr_ipd_char:
  assumes q: "quiet st" "unat (result_len (at st)) + 7 < 500" and k: "k < 7"
  shows "uart_byte callback (at_ipd ! k) (hdr st (take k at_ipd) (of_nat k) stat l cc) =
    Some (hdr st (take (Suc k) at_ipd) (of_nat (Suc k)) (if k = 6 then after_ipd st else stat) l cc)"
proof -
  have u: "unat (of_nat k :: u8) = k" "unat (of_nat k + 1 :: u8) = Suc k"
    using k by (simp_all add: unat_of_nat unat_word_ariths)
  have m: "match_message at_ipd (of_nat k) (at_ipd ! k) = Some (Suc k = 7, of_nat (Suc k))"
    using k u by (auto simp: match_message_def nth_append add.commute)
  have c: "at_ipd ! k \<noteq> 67" "at_ipd ! k \<noteq> 87"
  proof -
    have "at_ipd ! k \<in> set at_ipd" using k by (intro nth_mem) simp
    then show "at_ipd ! k \<noteq> 67" "at_ipd ! k \<noteq> 87" by (auto simp: at_ipd_list)
  qed
  have "take (Suc k) at_ipd = take k at_ipd @ [at_ipd ! k]"
    using k by (simp add: take_Suc_conv_app_nth)
  moreover have "uart_byte callback (at_ipd ! k) (hdr st (take k at_ipd) (of_nat k) stat l cc) =
    Some (hdr st (take k at_ipd @ [at_ipd ! k]) (of_nat (Suc k)) (if k = 6 then after_ipd st else stat) l cc)"
  proof (rule hdr_step [OF q(1) _ c])
    show "unat (result_len (at st)) + length (take k at_ipd) < 500" using q(2) k by simp
    show "is_payload_message ((at (hdr st (take k at_ipd) (of_nat k) stat l cc))\<lparr>read_ch := at_ipd ! k\<rparr>) (at_ipd ! k)
      = Some (False, (at (hdr st (take k at_ipd) (of_nat k) stat l cc))\<lparr>read_ch := at_ipd ! k,
          ipd_idx := of_nat (Suc k), ipd_stat := (if k = 6 then after_ipd st else stat), ipd_len := l, current_conn := cc\<rparr>)"
      using k u m by (simp add: is_payload_message_def hdr_def after_ipd_def)
  qed
  ultimately show ?thesis by simp
qed

lemma hdr_ipd:
  assumes "quiet st" "unat (result_len (at st)) + 7 < 500" "k \<le> 7"
  shows "uart_bytes callback (take k at_ipd) (hdr st [] 0 stat l cc) =
    Some (hdr st (take k at_ipd) (of_nat k) (if k = 7 then after_ipd st else stat) l cc)"
  using assms(3)
proof (induction k)
  case (Suc k)
  have "take (Suc k) at_ipd = take k at_ipd @ [at_ipd ! k]"
    using Suc.prems by (simp add: take_Suc_conv_app_nth)
  then have "uart_bytes callback (take (Suc k) at_ipd) (hdr st [] 0 stat l cc) =
      uart_byte callback (at_ipd ! k) (hdr st (take k at_ipd) (of_nat k) stat l cc)"
    using Suc by (auto simp: uart_bytes_append)
  then show ?case using hdr_ipd_char [OF assms(1,2), of k] Suc.prems by simp
qed simp

lemma of_char_u8:
  "(of_char CHR ''0'' :: u8) = 48" "(of_char CHR ''3'' :: u8) = 51" "(of_char CHR ''4'' :: u8) = 52"
  "(of_char CHR ''9'' :: u8) = 57" "(of_char CHR '','' :: u8) = 44" "(of_char CHR '':'' :: u8) = 58"
  "(of_char CHR ''>'' :: u8) = 62"
  by code_simp+

lemma hdr_conn_char:
  assumes "quiet st" "unat (result_len (at st)) + length xs < 500" "k \<le> 4" "7 \<le> unat i"
  shows "uart_byte callback (48 + of_nat k) (hdr st xs i RAEDING_CONN l cc) =
    Some (hdr st (xs @ [48 + of_nat k]) (i + 1) WAITING_COMMA l (int k))"
proof (rule hdr_step [OF assms(1,2)])
  have u: "unat (48 + of_nat k :: u8) = 48 + k" using assms(3) by (simp add: unat_word_ariths unat_of_nat)
  then show "48 + of_nat k \<noteq> (67 :: u8)" "48 + of_nat k \<noteq> (87 :: u8)" using assms(3) by auto
  have v: "uint (48 + of_nat k :: u8) = 48 + int k" using u by (metis int_plus of_nat_numeral uint_nat)
  have "48 \<le> (48 + of_nat k :: u8)" "(48 + of_nat k :: u8) \<le> 52"
    using u assms(3) by (simp_all add: word_le_nat_alt)
  then show "is_payload_message ((at (hdr st xs i RAEDING_CONN l cc))\<lparr>read_ch := 48 + of_nat k\<rparr>) (48 + of_nat k)
    = Some (False, (at (hdr st xs i RAEDING_CONN l cc))\<lparr>read_ch := 48 + of_nat k, ipd_idx := i + 1,
        ipd_stat := WAITING_COMMA, ipd_len := l, current_conn := int k\<rparr>)"
    using assms(4) v by (simp add: is_payload_message_def hdr_def of_char_u8 not_less)
qed

lemma hdr_comma:
  assumes "quiet st" "unat (result_len (at st)) + length xs < 500" "7 \<le> unat i"
  shows "uart_byte callback 44 (hdr st xs i WAITING_COMMA l cc) =
    Some (hdr st (xs @ [44]) (i + 1) READING_LEN l cc)"
  using assms(3) by (intro hdr_step [OF assms(1,2)])
    (simp_all add: is_payload_message_def hdr_def of_char_u8)

lemma digit_char_u8: "d < 10 \<Longrightarrow> (of_char (digit_char d) :: u8) = of_nat (48 + d)"
  using digit_char_eq [of d "digit_char d"] by (metis of_nat_of_char)

lemma hdr_digit:
  assumes "quiet st" "unat (result_len (at st)) + length xs < 500" "7 \<le> unat i" "d < 10"
  shows "uart_byte callback (of_char (digit_char d)) (hdr st xs i READING_LEN l cc) =
    Some (hdr st (xs @ [of_char (digit_char d)]) (i + 1) READING_LEN (l * 10 + of_nat d) cc)"
proof (rule hdr_step [OF assms(1,2)])
  let ?c = "of_char (digit_char d) :: u8"
  have u: "unat ?c = 48 + d" using assms(4) by (simp add: digit_char_u8 unat_word_ariths unat_of_nat)
  then show "?c \<noteq> 67" "?c \<noteq> 87" using assms(4) by auto
  have "ucast ?c - (48 :: u32) = of_nat d"
    using u by (metis add_diff_cancel_left' of_nat_add of_nat_numeral of_nat_unat)
  moreover have "\<not> (?c < 48 \<or> 57 < ?c)" using u assms(4) by (simp add: word_less_nat_alt)
  ultimately show "is_payload_message ((at (hdr st xs i READING_LEN l cc))\<lparr>read_ch := ?c\<rparr>) ?c
    = Some (False, (at (hdr st xs i READING_LEN l cc))\<lparr>read_ch := ?c, ipd_idx := i + 1,
        ipd_stat := READING_LEN, ipd_len := l * 10 + of_nat d, current_conn := cc\<rparr>)"
    using assms(3) by (simp add: is_payload_message_def hdr_def of_char_u8)
qed

lemma length_show_nat: "n < 10 ^ k \<Longrightarrow> 0 < k \<Longrightarrow> length (show_nat n) \<le> k"
proof (induction k arbitrary: n)
  case (Suc k)
  show ?case
  proof (cases "n < 10")
    case False
    then have "0 < k" using Suc.prems(1) by (cases k) auto
    moreover have "n div 10 < 10 ^ k" using Suc.prems(1) by (simp add: less_mult_imp_div_less mult.commute)
    ultimately show ?thesis using Suc.IH False by (simp add: show_nat.simps [of n])
  qed (simp add: show_nat.simps [of n])
qed simp

lemma hdr_digits:
  assumes "quiet st" "7 \<le> i" "i + length (show_nat n) < 256"
    "unat (result_len (at st)) + length xs + length (show_nat n) \<le> 500"
  shows "uart_bytes callback (bytes_of (show_nat n)) (hdr st xs (of_nat i) READING_LEN 0 cc) =
    Some (hdr st (xs @ bytes_of (show_nat n)) (of_nat (i + length (show_nat n))) READING_LEN (of_nat n) cc)"
  using assms(3,4)
proof (induction n rule: show_nat.induct)
  case (1 n)
  have one: "uart_byte callback (of_char (digit_char d)) (hdr st ys (of_nat j) READING_LEN l cc) =
      Some (hdr st (ys @ [of_char (digit_char d)]) (of_nat (Suc j)) READING_LEN (l * 10 + of_nat d) cc)"
    if "d < 10" "7 \<le> j" "j < 255" "unat (result_len (at st)) + length ys < 500" for d j ys l
    using hdr_digit [OF assms(1) that(4) _ that(1), of "of_nat j"] that by (simp add: unat_of_nat add.commute)
  show ?case
  proof (cases "n < 10")
    case True
    then show ?thesis using one [of n i xs 0] assms(2) 1(2,3)
      by (simp add: show_nat.simps [of n] bytes_of_def add.commute)
  next
    case False
    let ?s = "show_nat (n div 10)"
    have s: "show_nat n = ?s @ [digit_char (n mod 10)]" using False by (simp add: show_nat.simps [of n])
    have IH: "uart_bytes callback (bytes_of ?s) (hdr st xs (of_nat i) READING_LEN 0 cc) =
      Some (hdr st (xs @ bytes_of ?s) (of_nat (i + length ?s)) READING_LEN (of_nat (n div 10)) cc)"
      using 1 False by (intro 1(1)) (simp_all add: s)
    have "(of_nat (n div 10) * 10 + of_nat (n mod 10) :: u32) = of_nat (n div 10 * 10 + n mod 10)"
      by (simp only: of_nat_add of_nat_mult of_nat_numeral)
    then have v: "(of_nat (n div 10) * 10 + of_nat (n mod 10) :: u32) = of_nat n" by simp
    have "uart_byte callback (of_char (digit_char (n mod 10)))
        (hdr st (xs @ bytes_of ?s) (of_nat (i + length ?s)) READING_LEN (of_nat (n div 10)) cc) =
      Some (hdr st ((xs @ bytes_of ?s) @ [of_char (digit_char (n mod 10))]) (of_nat (Suc (i + length ?s)))
        READING_LEN (of_nat n) cc)"
      unfolding v [symmetric] using assms(2) 1(2,3) by (intro one) (simp_all add: s bytes_of_def)
    moreover have "bytes_of (show_nat n) = bytes_of ?s @ [of_char (digit_char (n mod 10))]"
      by (simp add: s bytes_of_def)
    ultimately show ?thesis using IH by (simp add: uart_bytes_append s)
  qed
qed

lemma mem_write_Cons:
  "mem_write b s (x # xs) = Option.bind (mem_write b s [x]) (\<lambda>b'. mem_write b' (Suc s) xs)"
proof (cases "s + Suc (length xs) \<le> length b")
  case True
  have "take (Suc s) (take s b @ x # drop (Suc s) b) = take s b @ [x]" using True by (simp add: take_Suc_conv_app_nth)
  with True show ?thesis by (auto simp: mem_write_def add.commute)
next
  case False
  then show ?thesis by (auto simp: mem_write_def)
qed

definition set_cb :: "nat \<Rightarrow> circular_buffer \<Rightarrow> 'w at_sys \<Rightarrow> 'w at_sys" where
  "set_cb a c st = st\<lparr>bufs := (bufs st)\<lparr>cells := (cells (bufs st))(a \<mapsto> c)\<rparr>\<rparr>"

lemma set_cb_fields [simp]:
  "at (set_cb a c st) = at st" "app (set_cb a c st) = app st" "uart (set_cb a c st) = uart st"
  "cells (bufs (set_cb a c st)) = (cells (bufs st))(a \<mapsto> c)"
  by (simp_all add: set_cb_def)

lemma set_cb_comm [simp]:
  "set_cb a c (st\<lparr>uart := u\<rparr>) = (set_cb a c st)\<lparr>uart := u\<rparr>"
  "set_cb a c (st\<lparr>at := d\<rparr>) = (set_cb a c st)\<lparr>at := d\<rparr>"
  "set_cb a c (set_cb a c' st) = set_cb a c st"
  by (simp_all add: set_cb_def)

lemma set_cb_id: "cells (bufs st) a = Some c \<Longrightarrow> set_cb a c st = st"
  by (simp add: set_cb_def fun_upd_idem)

lemma ring_bytes:
  assumes "uart st = Req_ring a s n" "cells (bufs st) a = Some c"
    "mem_write (cb_buff c) s xs = Some ring" "length xs < n"
  shows "uart_bytes callback xs st =
    Some ((set_cb a (c\<lparr>cb_buff := ring\<rparr>) st)\<lparr>uart := Req_ring a (s + length xs) (n - length xs)\<rparr>)"
  using assms
proof (induction xs arbitrary: s n c st)
  case Nil
  then have "ring = cb_buff c" by (auto simp: mem_write_def split: if_splits)
  then show ?case using Nil by (simp add: set_cb_id)
next
  case (Cons x xs)
  obtain b where b: "mem_write (cb_buff c) s [x] = Some b" "mem_write b (Suc s) xs = Some ring"
    using Cons.prems(3) by (auto simp: mem_write_Cons [of _ _ x xs] split: Option.bind_splits)
  let ?st = "(set_cb a (c\<lparr>cb_buff := b\<rparr>) st)\<lparr>uart := Req_ring a (s + 1) (n - 1)\<rparr>"
  have "uart_byte callback x st = Some ?st"
    using Cons.prems(1,2,4) b(1) by (simp add: uart_byte_def set_cb_def)
  moreover have "uart_bytes callback xs ?st =
      Some ((set_cb a (c\<lparr>cb_buff := b\<rparr>\<lparr>cb_buff := ring\<rparr>) ?st)\<lparr>uart := Req_ring a (s + 1 + length xs) (n - 1 - length xs)\<rparr>)"
    using Cons.prems(4) b(2) by (intro Cons.IH) simp_all
  ultimately show ?case by simp
qed

text \<open>The last byte of a chunk completes the request and interrupts.\<close>

lemma ring_chunk:
  assumes "uart st = Req_ring a s (length xs)" "cells (bufs st) a = Some c"
    "mem_write (cb_buff c) s xs = Some ring" "xs \<noteq> []"
  shows "uart_bytes callback xs st = at_callback callback IRQ_READ_DONE
    ((set_cb a (c\<lparr>cb_buff := ring\<rparr>) st)\<lparr>uart := Req_ring a (s + length xs) 0\<rparr>)"
proof -
  obtain ys y where xs: "xs = ys @ [y]" using assms(4) by (metis append_butlast_last_id)
  have fit: "s + length xs \<le> length (cb_buff c)" using assms(3) by (auto simp: mem_write_def split: if_splits)
  then obtain b where b: "mem_write (cb_buff c) s ys = Some b" by (auto simp: mem_write_def xs)
  have ring: "mem_write b (s + length ys) [y] = Some ring"
    using assms(3) b fit by (auto simp: mem_write_def xs split: if_splits)
  have "uart_bytes callback ys st =
      Some ((set_cb a (c\<lparr>cb_buff := b\<rparr>) st)\<lparr>uart := Req_ring a (s + length ys) 1\<rparr>)"
    using ring_bytes [OF assms(1,2) b] by (simp add: xs)
  then show ?thesis using ring by (simp add: xs uart_bytes_append uart_byte_def) (simp add: set_cb_def)
qed

lemma get_conn_put_conn: "get_conn (put_conn f d) = map_option f (get_conn d)"
  by (cases "0 \<le> current_conn d \<and> nat (current_conn d) < length (conn d)") (auto simp: get_conn_def put_conn_def)

lemma put_conn_put_conn: "get_conn d = Some cn \<Longrightarrow> put_conn f (put_conn g d) = put_conn (\<lambda>c. f (g c)) d"
  by (auto simp: get_conn_def put_conn_def)

lemma put_conn_fields [simp]:
  "callback_operation (put_conn f d) = callback_operation d" "current_conn (put_conn f d) = current_conn d"
  "length (conn (put_conn f d)) = length (conn d)"
  by (simp_all add: put_conn_def)

text \<open>In the middle of a payload: \<open>m\<close> bytes are left and the ring at \<open>a\<close> has room for them.\<close>

definition reading :: "'w at_sys \<Rightarrow> nat \<Rightarrow> circular_buffer \<Rightarrow> nat \<Rightarrow> bool" where
  "reading st a c m \<longleftrightarrow> callback_operation (at st) = READING_PAYLOAD
     \<and> (\<exists>cn. get_conn (at st) = Some cn \<and> cbuff cn = Some a \<and> to_read cn = of_nat m)
     \<and> cells (bufs st) a = Some c \<and> cb_ok c \<and> \<not> async_started (cb_write_ptr c)
     \<and> 0 < m \<and> length (cb_contents c) + m \<le> unat (cb_size_field c)"

definition left_to_read :: "nat \<Rightarrow> at_desc \<Rightarrow> at_desc" where
  "left_to_read m = put_conn (\<lambda>c. c\<lparr>to_read := of_nat m\<rparr>)"

definition payload_done :: "nat \<Rightarrow> circular_buffer \<Rightarrow> 'w at_sys \<Rightarrow> 'w at_sys" where
  "payload_done a c st = (set_cb a c st)\<lparr>uart := Req_ch,
     at := (left_to_read 0 (at st))\<lparr>callback_operation := READING_RESPONSES, current_conn := -1\<rparr>\<rparr>"

lemma reading_chunk:
  assumes rd: "reading st a c (length xs)"
    and n: "n = min (length xs) (unat (cb_size_field c) - unat (idx (cb_write_ptr c)))"
  shows "\<exists>c' u. Option.bind (start_conn_read callback False st) (uart_bytes callback (take n xs)) =
      (if n = length xs then Some (payload_done a c' st)
       else start_conn_read callback False ((set_cb a c' st)\<lparr>uart := u, at := left_to_read (length xs - n) (at st)\<rparr>))
    \<and> cb_ok c' \<and> cb_contents c' = cb_contents c @ take n xs \<and> \<not> async_started (cb_write_ptr c')
    \<and> cb_size_field c' = cb_size_field c \<and> cb_read_ptr c' = cb_read_ptr c \<and> 0 < n"
proof -
  obtain cn where cn: "get_conn (at st) = Some cn" "cbuff cn = Some a" "to_read cn = of_nat (length xs)"
    and c: "cells (bufs st) a = Some c" "cb_ok c" "\<not> async_started (cb_write_ptr c)"
    and op: "callback_operation (at st) = READING_PAYLOAD"
    and room: "length (cb_contents c) + length xs \<le> unat (cb_size_field c)" "xs \<noteq> []"
    using rd by (auto simp: reading_def)
  let ?w = "unat (idx (cb_write_ptr c))" and ?N = "min_u32 (of_nat (length xs)) (cb_size_field c - idx (cb_write_ptr c))"
  have wf: "?w < unat (cb_size_field c)" "length (cb_buff c) = unat (cb_size_field c)"
    "unat (cb_size_field c) < 2 ^ 31" "cb_wf c"
    using c(2) by (auto simp: cb_ok_def cb_wf_def cb_ptr_wf_def)
  have N: "unat ?N = n"
    using wf room(1) by (simp add: n unat_of_nat unat_sub word_le_nat_alt)
  have npos: "0 < n" "n \<le> length xs" "?w + n \<le> unat (cb_size_field c)" using wf(1) room(2) by (auto simp: n)
  obtain ring where ring: "mem_write (cb_buff c) ?w (take n xs) = Some ring" "length ring = length (cb_buff c)"
    using mem_write_ok [of ?w "take n xs" "cb_buff c"] npos wf(2) by auto
  define c' where "c' = cb_finish False n (c\<lparr>cb_buff := ring\<rparr>)"
  have c': "cb_ok c' \<and> cb_contents c' = cb_contents c @ take n xs"
    using cb_write_chunk [OF c(2) _ _ ring(1)] npos room(1) by (simp add: c'_def)
  have fin: "cb_end_async_write ((cb_started False ?N c)\<lparr>cb_buff := ring\<rparr>) = (SUCCESS, c')"
    using cb_end_started [OF wf(4) _ ring(2), of False ?N] npos(3) N
    by (simp add: cb_end_async_write_def c'_def cb_sel_def)
  have left: "to_read cn - ?N = of_nat (length xs - n)"
    using N npos(2) by (metis cn(3) of_nat_diff of_nat_unat ucast_id)
  let ?st1 = "(set_cb a (cb_started False ?N c) st)\<lparr>uart := Req_ring a ?w n, at := left_to_read (length xs - n) (at st)\<rparr>"
  let ?st2 = "(set_cb a ((cb_started False ?N c)\<lparr>cb_buff := ring\<rparr>) st)\<lparr>uart := Req_ring a (?w + n) 0,
      at := left_to_read (length xs - n) (at st)\<rparr>"
  have start: "start_conn_read callback False st = Some ?st1"
    using cn c(1) left N
    by (simp add: start_conn_read_def cb_prepare_async_write_def cb_prepare_write [OF c(3)] Let_def
        left_to_read_def put_conn_def get_conn_def set_cb_def)
  have "uart_bytes callback (take n xs) ?st1 = at_callback callback IRQ_READ_DONE
     ((set_cb a ((cb_started False ?N c)\<lparr>cb_buff := ring\<rparr>) ?st1)\<lparr>uart := Req_ring a (?w + length (take n xs)) 0\<rparr>)"
    using npos room(2) ring(1) by (intro ring_chunk) (simp_all add: cb_started_def cb_upd_def)
  also have "(set_cb a ((cb_started False ?N c)\<lparr>cb_buff := ring\<rparr>) ?st1)\<lparr>uart := Req_ring a (?w + length (take n xs)) 0\<rparr> = ?st2"
    using npos(2) by simp
  finally have "Option.bind (start_conn_read callback False st) (uart_bytes callback (take n xs)) =
     at_callback callback IRQ_READ_DONE ?st2" by (simp add: start)
  moreover have "end_conn_read ?st2 = Some ((set_cb a c' st)\<lparr>uart := Req_ring a (?w + n) 0, at := left_to_read (length xs - n) (at st)\<rparr>)"
    using cn fin by (simp add: end_conn_read_def left_to_read_def get_conn_put_conn) (simp add: set_cb_def)
  moreover have "(of_nat (length xs - n) :: u32) = 0 \<longleftrightarrow> n = length xs"
    using npos(2) room(1) wf(3) unat_of_nat_u32 [of "length xs - n"]
    by (auto simp: word_unat_eq_iff simp del: of_nat_diff)
  moreover have "\<not> async_started (cb_write_ptr c')" "cb_size_field c' = cb_size_field c" "cb_read_ptr c' = cb_read_ptr c"
    by (simp_all add: c'_def)
  ultimately show ?thesis
    using cn(1) op c' npos(1)
    by (intro exI [of _ c'] exI [of _ "Req_ring a (?w + n) 0"])
      (auto simp: at_callback_def payload_done_def left_to_read_def get_conn_put_conn simp del: of_nat_diff)
qed

lemma payload_loop:
  assumes "reading st a c (length xs)"
  shows "\<exists>c'. Option.bind (start_conn_read callback False st) (uart_bytes callback xs) = Some (payload_done a c' st)
    \<and> cb_ok c' \<and> cb_contents c' = cb_contents c @ xs \<and> \<not> async_started (cb_write_ptr c')
    \<and> cb_size_field c' = cb_size_field c \<and> cb_read_ptr c' = cb_read_ptr c"
  using assms
proof (induction xs arbitrary: st c rule: length_induct)
  case (1 xs)
  define n where "n = min (length xs) (unat (cb_size_field c) - unat (idx (cb_write_ptr c)))"
  obtain c1 u where eq: "Option.bind (start_conn_read callback False st) (uart_bytes callback (take n xs)) =
      (if n = length xs then Some (payload_done a c1 st)
       else start_conn_read callback False ((set_cb a c1 st)\<lparr>uart := u, at := left_to_read (length xs - n) (at st)\<rparr>))"
    and c1: "cb_ok c1" "cb_contents c1 = cb_contents c @ take n xs" "\<not> async_started (cb_write_ptr c1)"
      "cb_size_field c1 = cb_size_field c" "cb_read_ptr c1 = cb_read_ptr c" "0 < n"
    using reading_chunk [OF 1(2) n_def] by blast
  show ?case
  proof (cases "n = length xs")
    case True
    then show ?thesis using eq c1 by (intro exI [of _ c1]) simp
  next
    case False
    let ?st = "(set_cb a c1 st)\<lparr>uart := u, at := left_to_read (length xs - n) (at st)\<rparr>"
    have split: "uart_bytes callback xs st' =
        Option.bind (uart_bytes callback (take n xs) st') (uart_bytes callback (drop n xs))" for st'
      by (metis append_take_drop_id uart_bytes_append)
    have "reading ?st a c1 (length (drop n xs))"
      using 1(2) c1 False n_def
      by (auto simp: reading_def left_to_read_def get_conn_put_conn simp del: of_nat_diff)
    moreover have "length (drop n xs) < length xs" using c1(6) False n_def by auto
    ultimately obtain c2 where c2: "Option.bind (start_conn_read callback False ?st) (uart_bytes callback (drop n xs))
        = Some (payload_done a c2 ?st)" "cb_ok c2" "cb_contents c2 = cb_contents c1 @ drop n xs"
        "\<not> async_started (cb_write_ptr c2)" "cb_size_field c2 = cb_size_field c1" "cb_read_ptr c2 = cb_read_ptr c1"
      using 1(1) by blast
    obtain cn where "get_conn (at st) = Some cn" using 1(2) by (auto simp: reading_def)
    then have "payload_done a c2 ?st = payload_done a c2 st"
      by (simp add: payload_done_def left_to_read_def put_conn_put_conn)
    moreover have "Option.bind (start_conn_read callback False st) (uart_bytes callback xs) =
        Option.bind (start_conn_read callback False ?st) (uart_bytes callback (drop n xs))"
      unfolding split using eq False by (simp add: Option.bind_assoc [symmetric])
    ultimately show ?thesis using c2 c1(2,4,5) by (intro exI [of _ c2]) simp
  qed
qed

text \<open>The colon ends the header: its bytes are taken back from the answer.\<close>

lemma hdr_colon:
  assumes q: "quiet st" and i: "7 \<le> i" "i < 256" "length xs = i" "l \<noteq> 0"
    and k: "get_conn ((at st)\<lparr>current_conn := cc\<rparr>) = Some cn"
  shows "uart_byte callback 58 (hdr st xs (of_nat i) READING_LEN l cc) =
    start_conn_read callback True (st\<lparr>at := (put_conn (\<lambda>c. c\<lparr>to_read := l\<rparr>) (at (hdr st xs 0 NOT_MATCH 0 cc)))\<lparr>
      result_len := result_len (at st), read_ch := 58, callback_operation := READING_PAYLOAD\<rparr>\<rparr>)"
proof -
  have "unat (of_nat i :: u8) = i" using i(2) by (simp add: unat_of_nat)
  moreover from this have "ucast (of_nat i :: u8) = (of_nat i :: u32)" by (metis of_nat_unat)
  moreover have "0 \<le> cc" "nat cc < length (conn (at st))" "0 < l"
    using k i(4) by (auto simp: get_conn_def word_gt_0 split: Option.bind_splits)
  ultimately show ?thesis
    using q i
    by (simp add: uart_byte_def at_callback_def is_payload_message_def hdr_def quiet_def of_char_u8
        get_conn_def put_conn_def ipd_reset_def)
      (auto intro!: arg_cong [of _ _ "start_conn_read callback True"] at_sys.equality at_desc.equality)
qed

text \<open>The first read of a message asks the application for a buffer unless there is one.\<close>

lemma start_conn_read_new:
  assumes "get_conn (at st) = Some cn"
    "(if active cn then (cbuff cn, app st)
      else callback AT_NEW_CONNECTION (of_int (current_conn (at st))) (app st)) = (Some a, w)"
  shows "start_conn_read callback True st = start_conn_read callback False
    (st\<lparr>app := w, at := put_conn (\<lambda>c. c\<lparr>cbuff := Some a, active := True\<rparr>) (at st)\<rparr>)"
proof (cases "active cn")
  case True
  then have "put_conn (\<lambda>c. c\<lparr>cbuff := Some a, active := True\<rparr>) (at st) = at st" "w = app st"
    using assms by (auto simp: put_conn_def get_conn_def split: Option.bind_splits
        intro!: at_desc.equality nth_equalityI simp: nth_list_update)
  then show ?thesis using assms(1) True by (simp add: start_conn_read_def)
next
  case False
  then show ?thesis using assms by (simp add: start_conn_read_def get_conn_put_conn)
qed

definition ipd_header :: "nat \<Rightarrow> nat \<Rightarrow> u8 list" where
  "ipd_header k n = at_ipd @ bytes_of (show_nat k @ '','' @ show_nat n @ '':'')"

lemma quiet_hdr:
  "ipd_idx (at st) = 0 \<Longrightarrow> ipd_len (at st) = 0 \<Longrightarrow> hdr st [] 0 (ipd_stat (at st)) 0 (current_conn (at st)) = st"
  by (simp add: hdr_def)

text \<open>The header up to the length, in the two connection modes.\<close>

lemma header_multiple:
  assumes q: "quiet st" "multiple_conections (at st)" "ipd_idx (at st) = 0" "ipd_len (at st) = 0"
    and k: "k \<le> 4" and n: "n < 2 ^ 32" "unat (result_len (at st)) + 19 \<le> 500"
  shows "uart_bytes callback (at_ipd @ [48 + of_nat k, 44] @ bytes_of (show_nat n)) st =
    Some (hdr st (at_ipd @ [48 + of_nat k, 44] @ bytes_of (show_nat n)) (of_nat (9 + length (show_nat n)))
      READING_LEN (of_nat n) (int k))"
proof -
  let ?s = "show_nat n" and ?xs = "at_ipd @ [48 + of_nat k, 44]"
  have len: "length ?s \<le> 10" using length_show_nat [of n 10] n(1) by simp
  have "uart_bytes callback (take 7 at_ipd) (hdr st [] 0 (ipd_stat (at st)) 0 (current_conn (at st))) =
      Some (hdr st at_ipd (of_nat 7) RAEDING_CONN 0 (current_conn (at st)))"
    using hdr_ipd [OF q(1), of 7] q(2) n(2) by (simp add: after_ipd_def)
  moreover have "uart_byte callback (48 + of_nat k) (hdr st at_ipd (of_nat 7) RAEDING_CONN 0 (current_conn (at st))) =
      Some (hdr st (at_ipd @ [48 + of_nat k]) 8 WAITING_COMMA 0 (int k))"
    using hdr_conn_char [OF q(1), of at_ipd k 7] n(2) k by simp
  moreover have "uart_byte callback 44 (hdr st (at_ipd @ [48 + of_nat k]) 8 WAITING_COMMA 0 (int k)) =
      Some (hdr st ?xs (of_nat 9) READING_LEN 0 (int k))"
    using hdr_comma [OF q(1), of "at_ipd @ [48 + of_nat k]" 8] n(2) by simp
  moreover have "uart_bytes callback (bytes_of ?s) (hdr st ?xs (of_nat 9) READING_LEN 0 (int k)) =
      Some (hdr st (?xs @ bytes_of ?s) (of_nat (9 + length ?s)) READING_LEN (of_nat n) (int k))"
    using len n(2) by (subst hdr_digits [OF q(1)]) simp_all
  ultimately show ?thesis by (simp add: uart_bytes_append quiet_hdr [OF q(3,4)])
qed

lemma header_single:
  assumes q: "quiet st" "\<not> multiple_conections (at st)" "ipd_idx (at st) = 0" "ipd_len (at st) = 0"
    and n: "n < 2 ^ 32" "unat (result_len (at st)) + 19 \<le> 500"
  shows "uart_bytes callback (at_ipd @ bytes_of (show_nat n)) st =
    Some (hdr st (at_ipd @ bytes_of (show_nat n)) (of_nat (7 + length (show_nat n)))
      READING_LEN (of_nat n) (current_conn (at st)))"
proof -
  let ?s = "show_nat n"
  have len: "length ?s \<le> 10" using length_show_nat [of n 10] n(1) by simp
  have "uart_bytes callback (take 7 at_ipd) (hdr st [] 0 (ipd_stat (at st)) 0 (current_conn (at st))) =
      Some (hdr st at_ipd (of_nat 7) READING_LEN 0 (current_conn (at st)))"
    using hdr_ipd [OF q(1), of 7] q(2) n(2) by (simp add: after_ipd_def)
  moreover have "uart_bytes callback (bytes_of ?s) (hdr st at_ipd (of_nat 7) READING_LEN 0 (current_conn (at st))) =
      Some (hdr st (at_ipd @ bytes_of ?s) (of_nat (7 + length ?s)) READING_LEN (of_nat n) (current_conn (at st)))"
    using len n(2) by (subst hdr_digits [OF q(1)]) simp_all
  ultimately show ?thesis by (simp add: uart_bytes_append quiet_hdr [OF q(3,4)])
qed

lemma ipd_header_bytes:
  "k \<le> 4 \<Longrightarrow> ipd_header k n = (at_ipd @ [48 + of_nat k, 44] @ bytes_of (show_nat n)) @ [58]"
  by (simp add: ipd_header_def bytes_of_def show_nat.simps [of k] digit_char_u8 of_char_u8)

lemma header_received:
  assumes q: "quiet st" "multiple_conections (at st)" "ipd_idx (at st) = 0" "ipd_len (at st) = 0"
    and k: "k < length (conn (at st))" "k \<le> 4"
    and n: "0 < n" "n < 2 ^ 32" "unat (result_len (at st)) + 19 \<le> 500"
  shows "\<exists>cs b. uart_bytes callback (ipd_header k n) st =
    start_conn_read callback True (st\<lparr>at := left_to_read n ((at st)\<lparr>
      result_buff := take (unat (result_len (at st))) (result_buff (at st)) @ cs,
      ipd_stat := NOT_MATCH, current_conn := int k, read_ch := b, callback_operation := READING_PAYLOAD\<rparr>)\<rparr>)
    \<and> unat (result_len (at st)) + length cs = 500"
proof -
  let ?s = "show_nat n"
  let ?hdr = "at_ipd @ [48 + of_nat k, 44] @ bytes_of ?s"
  have len: "length ?s \<le> 10" using length_show_nat [of n 10] n(2) by simp
  have "uart_byte callback 58 (hdr st ?hdr (of_nat (9 + length ?s)) READING_LEN (of_nat n) (int k)) =
      start_conn_read callback True (st\<lparr>at := (put_conn (\<lambda>c. c\<lparr>to_read := of_nat n\<rparr>)
        (at (hdr st ?hdr 0 NOT_MATCH 0 (int k))))\<lparr>
      result_len := result_len (at st), read_ch := 58, callback_operation := READING_PAYLOAD\<rparr>\<rparr>)"
    using len k(1) n(1,2) unat_of_nat_u32 [of n]
    by (intro hdr_colon [OF q(1), where cn = "conn (at st) ! k"])
      (auto simp: bytes_of_def get_conn_def word_unat_eq_iff)
  then have "uart_bytes callback (ipd_header k n) st =
      start_conn_read callback True (st\<lparr>at := (put_conn (\<lambda>c. c\<lparr>to_read := of_nat n\<rparr>)
        (at (hdr st ?hdr 0 NOT_MATCH 0 (int k))))\<lparr>
      result_len := result_len (at st), read_ch := 58, callback_operation := READING_PAYLOAD\<rparr>\<rparr>)"
    unfolding ipd_header_bytes [OF k(2)] uart_bytes_append [of _ ?hdr] header_multiple [OF q k(2) n(2,3)] by simp
  moreover have "unat (result_len (at st)) + length (?hdr @ drop (unat (result_len (at st)) + length ?hdr)
      (result_buff (at st))) = 500"
    using q(1) n(3) len by (simp add: quiet_def bytes_of_def)
  moreover have "(put_conn (\<lambda>c. c\<lparr>to_read := of_nat n\<rparr>) (at (hdr st ?hdr 0 NOT_MATCH 0 (int k))))\<lparr>
      result_len := result_len (at st), read_ch := 58, callback_operation := READING_PAYLOAD\<rparr> =
    left_to_read n ((at st)\<lparr>
      result_buff := take (unat (result_len (at st))) (result_buff (at st)) @
        (?hdr @ drop (unat (result_len (at st)) + length ?hdr) (result_buff (at st))),
      ipd_stat := NOT_MATCH, current_conn := int k, read_ch := 58, callback_operation := READING_PAYLOAD\<rparr>)"
    using q(3,4) by (intro at_desc.equality) (simp_all add: left_to_read_def put_conn_def hdr_def)
  ultimately show ?thesis
    by (intro exI [of _ "?hdr @ drop (unat (result_len (at st)) + length ?hdr) (result_buff (at st))"] exI [of _ 58]) simp
qed

text \<open>
  The payload of a connection reaches its buffer. When the module sends
  "CR LF +IPD,k,n:" and then \<open>n\<close> bytes, and the connection's buffer (the one it has, or the
  one the application gives a new connection) has room for them, the bytes are appended to
  what the buffer holds, in order and across the end of the ring, and nothing else is stored:
  the answer under way is as long as before with the same bytes, every other connection and
  buffer is unchanged, and the parser waits for the next message.
\<close>

lemma payload_delivered:
  assumes "quiet st" "multiple_conections (at st)" "ipd_idx (at st) = 0" "ipd_len (at st) = 0"
    and "length (conn (at st)) = MAX_CONNECTIONS" "k < MAX_CONNECTIONS" "unat (result_len (at st)) + 19 \<le> RESULT_BUFF_LEN"
    and "(if active (conn (at st) ! k) then (cbuff (conn (at st) ! k), app st)
      else callback AT_NEW_CONNECTION (of_nat k) (app st)) = (Some a, w)"
    and "cells (bufs st) a = Some c" "cb_ok c" "\<not> async_started (cb_write_ptr c)"
    and "payload \<noteq> []" "length (cb_contents c) + length payload \<le> unat (cb_size_field c)"
  shows "\<exists>st' c'. uart_bytes callback (ipd_header k (length payload) @ payload) st = Some st'
    \<and> cells (bufs st') = (cells (bufs st))(a \<mapsto> c') \<and> cb_ok c' \<and> cb_contents c' = cb_contents c @ payload
    \<and> cb_size_field c' = cb_size_field c \<and> cb_read_ptr c' = cb_read_ptr c
    \<and> \<not> async_started (cb_write_ptr c') \<and> app st' = w \<and> multiple_conections (at st') = multiple_conections (at st)
    \<and> conn (at st') = (conn (at st))[k := (conn (at st) ! k)\<lparr>cbuff := Some a, active := True, to_read := 0\<rparr>]
    \<and> result_len (at st') = result_len (at st)
    \<and> take (unat (result_len (at st))) (result_buff (at st')) = take (unat (result_len (at st))) (result_buff (at st))
    \<and> errors (at st') = errors (at st) \<and> quiet st' \<and> ipd_idx (at st') = 0 \<and> ipd_len (at st') = 0"
proof -
  let ?n = "length payload" and ?r = "unat (result_len (at st))"
  have n: "0 < ?n" "?n < 2 ^ 32" using assms(10,12,13) by (auto simp: cb_ok_def cb_wf_def)
  have k: "k < length (conn (at st))" "k \<le> 4" "?r + 19 \<le> 500" using assms(5,6,7) by simp_all
  obtain cs b where hd: "uart_bytes callback (ipd_header k ?n) st =
    start_conn_read callback True (st\<lparr>at := left_to_read ?n ((at st)\<lparr>
      result_buff := take ?r (result_buff (at st)) @ cs,
      ipd_stat := NOT_MATCH, current_conn := int k, read_ch := b, callback_operation := READING_PAYLOAD\<rparr>)\<rparr>)"
    and cs: "?r + length cs = 500"
    using header_received [OF assms(1-4) k(1,2) n k(3)] by blast
  define d where "d = (at st)\<lparr>result_buff := take ?r (result_buff (at st)) @ cs,
      ipd_stat := NOT_MATCH, current_conn := int k, read_ch := b, callback_operation := READING_PAYLOAD\<rparr>"
  define st1 where "st1 = st\<lparr>app := w, at := put_conn (\<lambda>c. c\<lparr>cbuff := Some a, active := True\<rparr>) (left_to_read ?n d)\<rparr>"
  have gc: "get_conn d = Some (conn (at st) ! k)" using k(1) by (simp add: d_def get_conn_def)
  have "start_conn_read callback True (st\<lparr>at := left_to_read ?n d\<rparr>) = start_conn_read callback False st1"
    using assms(8) gc
    by (subst start_conn_read_new [where cn = "(conn (at st) ! k)\<lparr>to_read := of_nat ?n\<rparr>" and a = a and w = w])
      (auto simp: st1_def left_to_read_def get_conn_put_conn d_def)
  then have "uart_bytes callback (ipd_header k ?n @ payload) st =
      Option.bind (start_conn_read callback False st1) (uart_bytes callback payload)"
    by (simp add: uart_bytes_append hd d_def)
  moreover have "reading st1 a c ?n"
    using gc assms(9-13) by (simp add: reading_def st1_def left_to_read_def get_conn_put_conn) (simp add: d_def)
  ultimately obtain c' where c': "uart_bytes callback (ipd_header k ?n @ payload) st = Some (payload_done a c' st1)"
    "cb_ok c'" "cb_contents c' = cb_contents c @ payload" "\<not> async_started (cb_write_ptr c')"
    "cb_size_field c' = cb_size_field c" "cb_read_ptr c' = cb_read_ptr c"
    using payload_loop [of st1 a c payload callback] by auto
  have at': "at (payload_done a c' st1) = (put_conn (\<lambda>c. c\<lparr>cbuff := Some a, active := True, to_read := 0\<rparr>) d)\<lparr>
      callback_operation := READING_RESPONSES, current_conn := -1\<rparr>"
    using gc by (simp add: payload_done_def st1_def left_to_read_def put_conn_put_conn get_conn_put_conn)
  have rest: "cells (bufs (payload_done a c' st1)) = (cells (bufs st))(a \<mapsto> c')"
    "app (payload_done a c' st1) = w" "uart (payload_done a c' st1) = Req_ch"
    by (simp_all add: payload_done_def st1_def)
  have len: "length (result_buff (at st)) = 500" using assms(1) by (simp add: quiet_def)
  show ?thesis
    unfolding c'(1) quiet_def using c'(2-) cs k(3) len assms(1,3,4)
    by (intro exI [of _ "payload_done a c' st1"] exI [of _ c'])
      (simp add: at' rest, simp add: d_def put_conn_def quiet_def)
qed

definition demo_ring :: circular_buffer where
  "demo_ring = \<lparr>cb_size_field = 4, cb_buff = [1, 2, 3, 4], cb_write_ptr = cb_ptr_zero\<lparr>idx := 3\<rparr>,
     cb_read_ptr = cb_ptr_zero\<lparr>idx := 2\<rparr>\<rparr>"

definition demo_conn :: connection_desc where
  "demo_conn = \<lparr>cbuff = None, to_read = 0, active = False, conn_type = SOCKET_TCP\<rparr>"

definition demo_sys :: "bool \<Rightarrow> unit at_sys" where
  "demo_sys multi = \<lparr>at = \<lparr>conn = replicate 4 demo_conn, current_conn = -1, multiple_conections = multi,
      result_buff = replicate 500 0, result_len = 3, app_result_buff = replicate 500 0,
      cmd_buff = replicate 120 0, cmd_len = 0, read_ch = 0, errors = 0, is_wifi_connected = True,
      callback_operation = READING_RESPONSES, ready_idx = 0, async_idx = [0, 0, 0], resp_idx = [0, 0, 0, 0],
      ipd_idx = 0, ipd_stat = NOT_MATCH, ipd_len = 0\<rparr>,
    app = (), bufs = \<lparr>cells = [5 \<mapsto> demo_ring], brk = 6, oom = (\<lambda>_. False)\<rparr>, uart = Req_ch\<rparr>"

lemma demo_ring_ok: "cb_ok demo_ring" "\<not> async_started (cb_write_ptr demo_ring)" "cb_contents demo_ring = [3]"
  "unat (cb_size_field demo_ring) = 4"
  by (simp_all add: demo_ring_def cb_ok_def cb_wf_def cb_ptr_wf_def cb_ptr_zero_def cb_contents_def)

text \<open>
  Every connection is active with a buffer of its own, no message is under way, and the
  buffers hold \<open>C\<close>.
\<close>

definition serving :: "(nat \<Rightarrow> nat) \<Rightarrow> (nat \<Rightarrow> circular_buffer) \<Rightarrow> 'w at_sys \<Rightarrow> bool" where
  "serving bf C st \<longleftrightarrow> quiet st \<and> multiple_conections (at st) \<and> ipd_idx (at st) = 0 \<and> ipd_len (at st) = 0
     \<and> length (conn (at st)) = MAX_CONNECTIONS \<and> unat (result_len (at st)) + 19 \<le> RESULT_BUFF_LEN
     \<and> inj_on bf {..<MAX_CONNECTIONS}
     \<and> (\<forall>k < MAX_CONNECTIONS. active (conn (at st) ! k) \<and> cbuff (conn (at st) ! k) = Some (bf k)
          \<and> cells (bufs st) (bf k) = Some (C k) \<and> cb_ok (C k) \<and> \<not> async_started (cb_write_ptr (C k)))"

lemma serving_step:
  assumes "serving bf C st" "k < MAX_CONNECTIONS" "payload \<noteq> []"
    "length (cb_contents (C k)) + length payload \<le> unat (cb_size_field (C k))"
  shows "\<exists>st' c'. uart_bytes callback (ipd_header k (length payload) @ payload) st = Some st'
    \<and> serving bf (C(k := c')) st' \<and> cb_contents c' = cb_contents (C k) @ payload
    \<and> cb_size_field c' = cb_size_field (C k) \<and> app st' = app st \<and> errors (at st') = errors (at st)
    \<and> result_len (at st') = result_len (at st)
    \<and> take (unat (result_len (at st))) (result_buff (at st')) = take (unat (result_len (at st))) (result_buff (at st))"
proof -
  have k: "active (conn (at st) ! k)" "cbuff (conn (at st) ! k) = Some (bf k)" "cells (bufs st) (bf k) = Some (C k)"
    "cb_ok (C k)" "\<not> async_started (cb_write_ptr (C k))"
    using assms(1,2) by (auto simp: serving_def)
  obtain st' c' where *: "uart_bytes callback (ipd_header k (length payload) @ payload) st = Some st'"
    "cells (bufs st') = (cells (bufs st))(bf k \<mapsto> c')" "cb_ok c'" "cb_contents c' = cb_contents (C k) @ payload"
    "cb_size_field c' = cb_size_field (C k)" "\<not> async_started (cb_write_ptr c')" "app st' = app st"
    "conn (at st') = (conn (at st))[k := (conn (at st) ! k)\<lparr>cbuff := Some (bf k), active := True, to_read := 0\<rparr>]"
    "multiple_conections (at st') = multiple_conections (at st)" "result_len (at st') = result_len (at st)"
    "take (unat (result_len (at st))) (result_buff (at st')) = take (unat (result_len (at st))) (result_buff (at st))"
    "errors (at st') = errors (at st)" "quiet st'" "ipd_idx (at st') = 0" "ipd_len (at st') = 0"
    using payload_delivered [of st k callback "bf k" "app st" "C k" payload] assms k by (auto simp: serving_def)
  have "serving bf (C(k := c')) st'"
    using assms(1,2) * unfolding serving_def
    by (auto simp: nth_list_update inj_on_def)
  then show ?thesis using * by blast
qed

definition ipd_stream :: "(nat \<times> u8 list) list \<Rightarrow> u8 list" where
  "ipd_stream msgs = concat (map (\<lambda>(k, p). ipd_header k (length p) @ p) msgs)"

definition payload_for :: "nat \<Rightarrow> (nat \<times> u8 list) list \<Rightarrow> u8 list" where
  "payload_for k msgs = concat (map snd (filter (\<lambda>m. fst m = k) msgs))"

text \<open>
  C5. The parser demultiplexes the stream of the module. When the module sends payload
  messages "CR LF +IPD,k,n:" and \<open>n\<close> bytes, in any number and order of connections, and each
  connection's buffer has room for what is addressed to it, then each buffer ends up with what
  it held followed by the payloads for its connection, in order; the answer to a command that
  is under way keeps its length and bytes, and the parser waits for the next message.
\<close>

theorem at_payloads_demultiplexed:
  assumes "serving bf C st" "\<forall>(k, p) \<in> set msgs. k < MAX_CONNECTIONS \<and> p \<noteq> []"
    and "\<forall>k < MAX_CONNECTIONS. length (cb_contents (C k)) + length (payload_for k msgs) \<le> unat (cb_size_field (C k))"
  shows "\<exists>st' C'. uart_bytes callback (ipd_stream msgs) st = Some st' \<and> serving bf C' st'
    \<and> (\<forall>k < MAX_CONNECTIONS. cb_contents (C' k) = cb_contents (C k) @ payload_for k msgs)
    \<and> app st' = app st \<and> errors (at st') = errors (at st) \<and> result_len (at st') = result_len (at st)
    \<and> take (unat (result_len (at st))) (result_buff (at st')) = take (unat (result_len (at st))) (result_buff (at st))"
  using assms
proof (induction msgs arbitrary: st C)
  case Nil
  then show ?case by (auto simp: ipd_stream_def payload_for_def)
next
  case (Cons m msgs)
  obtain k p where m: "m = (k, p)" by (cases m)
  have k: "k < MAX_CONNECTIONS" "p \<noteq> []" using Cons.prems(2) m by auto
  have "length (cb_contents (C k)) + length p \<le> unat (cb_size_field (C k))"
    using Cons.prems(3) k(1) m by (auto simp: payload_for_def)
  from serving_step [OF Cons.prems(1) k this, of callback] obtain st1 c1 where
    st1: "uart_bytes callback (ipd_header k (length p) @ p) st = Some st1" "serving bf (C(k := c1)) st1"
      "cb_contents c1 = cb_contents (C k) @ p" "cb_size_field c1 = cb_size_field (C k)" "app st1 = app st"
      "errors (at st1) = errors (at st)" "result_len (at st1) = result_len (at st)"
      "take (unat (result_len (at st))) (result_buff (at st1)) = take (unat (result_len (at st))) (result_buff (at st))"
    by blast
  have room: "\<forall>j < MAX_CONNECTIONS. length (cb_contents ((C(k := c1)) j)) + length (payload_for j msgs)
      \<le> unat (cb_size_field ((C(k := c1)) j))"
    using Cons.prems(3) st1(3,4) m by (auto simp: payload_for_def)
  obtain st' C' where IH: "uart_bytes callback (ipd_stream msgs) st1 = Some st'" "serving bf C' st'"
      "\<forall>j < MAX_CONNECTIONS. cb_contents (C' j) = cb_contents ((C(k := c1)) j) @ payload_for j msgs"
      "app st' = app st1" "errors (at st') = errors (at st1)" "result_len (at st') = result_len (at st1)"
      "take (unat (result_len (at st1))) (result_buff (at st')) = take (unat (result_len (at st1))) (result_buff (at st1))"
    using Cons.IH [OF st1(2) _ room] Cons.prems(2) by auto
  have "uart_bytes callback (ipd_stream (m # msgs)) st = Some st'"
  proof -
    have "ipd_stream (m # msgs) = (ipd_header k (length p) @ p) @ ipd_stream msgs" by (simp add: ipd_stream_def m)
    then show ?thesis using st1(1) IH(1) uart_bytes_append [of callback "ipd_header k (length p) @ p"] by simp
  qed
  moreover have "\<forall>j < MAX_CONNECTIONS. cb_contents (C' j) = cb_contents (C j) @ payload_for j (m # msgs)"
    using IH(3) st1(3) m by (auto simp: payload_for_def)
  ultimately show ?case using IH(2,4-7) st1(5-8) by (intro exI [of _ st'] exI [of _ C']) simp
qed

text \<open>Three messages for two connections, whose buffers wrap.\<close>

theorem at_payloads_demultiplexed_witness:
  "\<exists>st' C'. uart_bytes (\<lambda>ev k w. (None, w)) (ipd_stream [(1, [7, 8]), (2, [9]), (1, [5])])
      ((demo_sys True)\<lparr>at := (at (demo_sys True))\<lparr>conn := map (\<lambda>k. demo_conn\<lparr>cbuff := Some k, active := True\<rparr>) [0..<4]\<rparr>,
        bufs := \<lparr>cells = (\<lambda>a. if a < 4 then Some demo_ring else None), brk = 4, oom = (\<lambda>_. False)\<rparr>\<rparr>) = Some st'
    \<and> serving id C' st' \<and> cb_contents (C' 1) = [3, 7, 8, 5] \<and> cb_contents (C' 2) = [3, 9] \<and> cb_contents (C' 3) = [3]"
proof -
  let ?st = "(demo_sys True)\<lparr>at := (at (demo_sys True))\<lparr>conn := map (\<lambda>k. demo_conn\<lparr>cbuff := Some k, active := True\<rparr>) [0..<4]\<rparr>,
        bufs := \<lparr>cells = (\<lambda>a. if a < 4 then Some demo_ring else None), brk = 4, oom = (\<lambda>_. False)\<rparr>\<rparr>"
  let ?msgs = "[(1, [7, 8]), (2, [9]), (1, [5])] :: (nat \<times> u8 list) list"
  have serv: "serving id (\<lambda>_. demo_ring) ?st"
    using demo_ring_ok by (simp add: serving_def quiet_def demo_sys_def)
  have pay: "payload_for 1 ?msgs = [7, 8, 5]" "payload_for 2 ?msgs = [9]" "payload_for 3 ?msgs = []" "payload_for 0 ?msgs = []"
    by (simp_all add: payload_for_def)
  have four: "(\<forall>k < 4. Q k) \<longleftrightarrow> Q 0 \<and> Q 1 \<and> Q 2 \<and> Q 3" for Q :: "nat \<Rightarrow> bool"
    by (auto simp: numeral_eq_Suc less_Suc_eq)
  have room: "\<forall>k < MAX_CONNECTIONS. length (cb_contents demo_ring) + length (payload_for k ?msgs) \<le> unat (cb_size_field demo_ring)"
    using demo_ring_ok pay by (simp add: four)
  have msgs: "\<forall>(k, p) \<in> set ?msgs. k < MAX_CONNECTIONS \<and> p \<noteq> []" by simp
  show ?thesis
    using at_payloads_demultiplexed [OF serv msgs room, of "\<lambda>ev k w. (None, w)"] demo_ring_ok(3)
    by (simp add: four pay del: One_nat_def) blast
qed

text \<open>A colon for a connection that is not in the array: an access out of bounds.\<close>

lemma hdr_colon_undefined:
  assumes "quiet st" "7 \<le> i" "i < 256" "l \<noteq> 0" "get_conn ((at st)\<lparr>current_conn := cc\<rparr>) = None"
  shows "uart_byte callback 58 (hdr st xs (of_nat i) READING_LEN l cc) = None"
proof -
  have "unat (of_nat i :: u8) = i" using assms(3) by (simp add: unat_of_nat)
  moreover have "0 < l" using assms(4) by (simp add: word_gt_0)
  moreover have "get_conn d = None" if "conn d = conn (at st)" "current_conn d = cc" for d
    using assms(5) that by (simp add: get_conn_def)
  ultimately show ?thesis
    using assms(1,2)
    by (simp add: uart_byte_def at_callback_def is_payload_message_def hdr_def quiet_def of_char_u8)
qed

text \<open>
  A payload header can make the parser write outside its array of connections: with
  several connections the id 4 is accepted although there are MAX_CONNECTIONS = 4 of them,
  and with a single connection the id left by the previous payload, -1, is used.
\<close>

theorem at_payload_bad_connection:
  assumes "quiet st" "ipd_idx (at st) = 0" "ipd_len (at st) = 0" "length (conn (at st)) = MAX_CONNECTIONS"
    and "unat (result_len (at st)) + 19 \<le> RESULT_BUFF_LEN" "0 < n" "n < 2 ^ 32"
  shows "(multiple_conections (at st) \<longrightarrow> uart_bytes callback (ipd_header 4 n) st = None)
    \<and> (\<not> multiple_conections (at st) \<and> current_conn (at st) = -1 \<longrightarrow>
         uart_bytes callback (at_ipd @ bytes_of (show_nat n @ '':'')) st = None)"
proof -
  let ?s = "show_nat n"
  have len: "length ?s \<le> 10" using length_show_nat [of n 10] assms(7) by simp
  have n: "(of_nat n :: u32) \<noteq> 0" "unat (result_len (at st)) + 19 \<le> 500"
    using assms(5-7) unat_of_nat_u32 [of n] by auto
  have out: "get_conn ((at st)\<lparr>current_conn := int 4\<rparr>) = None" "get_conn ((at st)\<lparr>current_conn := -1\<rparr>) = None"
    using assms(4) by (simp_all add: get_conn_def)
  have colon: "bytes_of (?s @ '':'') = bytes_of ?s @ [58]" by (simp add: bytes_of_def of_char_u8)
  show ?thesis
    using header_multiple [OF assms(1) _ assms(2,3) _ assms(7) n(2), of 4 callback]
      header_single [OF assms(1) _ assms(2,3) assms(7) n(2), of callback]
      hdr_colon_undefined [OF assms(1) _ _ n(1) out(1), of "9 + length ?s"]
      hdr_colon_undefined [OF assms(1) _ _ n(1) out(2), of "7 + length ?s"] len
    unfolding ipd_header_bytes [OF order_refl] colon append_assoc [symmetric] uart_bytes_append [of _ _ "[58]"]
    by (auto simp del: of_nat_add)
qed

theorem at_payload_bad_connection_witness:
  "uart_bytes (\<lambda>ev k w. (None, w)) (ipd_header 4 2) (demo_sys True) = None
   \<and> uart_bytes (\<lambda>ev k w. (None, w)) (at_ipd @ bytes_of (show_nat 2 @ '':'')) (demo_sys False) = None"
  using at_payload_bad_connection [of "demo_sys True" 2 "\<lambda>ev k w. (None, w)"] at_payload_bad_connection [of "demo_sys False" 2 "\<lambda>ev k w. (None, w)"]
  by (simp add: demo_sys_def quiet_def)

section \<open>Closed connections\<close>

lemma closed_matched: "match_loop async_msgs [0..<length async_msgs] 10 [7, 0, 0] = Some (0, [8, 0, 0])"
  unfolding async_msgs_def bytes_of_def crlf_def by code_simp

lemma length_closed_msg: "length (async_msgs ! 0) = 8"
  unfolding async_msgs_def bytes_of_def crlf_def by code_simp

lemma unat_sub_u32: "n \<le> unat r \<Longrightarrow> unat (r - of_nat n :: u32) = unat r - n"
  by (metis le_unat_uoi unat_sub word_le_nat_alt)

lemma check_conn_id_closed:
  assumes "multiple_conections (at st)" "9 \<le> unat (result_len (at st))" "unat (result_len (at st)) < 500"
    "length (result_buff (at st)) = 500"
    "result_buff (at st) ! (unat (result_len (at st)) - 9) = 48 + of_nat k" "k < 4"
  shows "check_conn_id callback (async_msgs ! 0) 0 st = Some (True, st\<lparr>
    at := put_conn (\<lambda>c. c\<lparr>active := False, cbuff := None\<rparr>)
      ((at st)\<lparr>result_len := result_len (at st) - 9, current_conn := int k\<rparr>),
    app := snd (callback AT_CLOSED_CONNECTION (of_nat k) (app st))\<rparr>)"
proof -
  let ?r = "result_len (at st)" and ?c = "48 + of_nat k :: u8"
  have u: "unat ?c = 48 + k" using assms(6) by (simp add: unat_word_ariths unat_of_nat)
  then have c: "48 \<le> ?c" "?c \<le> 51" using assms(6) by (simp_all add: word_le_nat_alt)
  have v: "uint ?c - 48 = int k" using u by (metis add_diff_cancel_left' int_plus of_nat_numeral uint_nat)
  define m where "m = unat ?r - 9"
  then have "unat (?r - 9) = m" using assms(2) unat_sub_u32 [of 9 ?r] by simp
  moreover have "m < 2 ^ 31" using assms(3) by (simp add: m_def)
  ultimately have j: "sint (?r - 9) = int m" using sint_u32_small [of "?r - 9"] by metis
  have m: "m < 500" "result_buff (at st) ! m = ?c" using assms(3,5) by (simp_all add: m_def)
  have len: "?r - (of_nat (length (async_msgs ! 0)) - 1) = ?r - 7" by (simp add: length_closed_msg)
  show ?thesis
    unfolding check_conn_id_def len Let_def using assms(1,4,6) j c v m
    by (simp add: of_char_u8 Let_def len length_closed_msg put_conn_def split: prod.splits)
qed

text \<open>
  When the module reports that a connection was closed, the connection is made inactive,
  loses its buffer and the application is told; but the message is not removed from the
  answer: a line feed stays where the connection id was, and the matcher is left past the end
  of its message (its index is cleared only when the id is not valid).
\<close>

theorem at_closed_leaves_newline:
  assumes "uart st = Req_ch" "callback_operation (at st) = READING_RESPONSES" "multiple_conections (at st)"
    and "async_idx (at st) = [7, 0, 0]" "unat (ipd_idx (at st)) < 6"
    and "9 \<le> unat (result_len (at st))" "unat (result_len (at st)) < RESULT_BUFF_LEN"
      "length (result_buff (at st)) = RESULT_BUFF_LEN"
    and "result_buff (at st) ! (unat (result_len (at st)) - 9) = 48 + of_nat k" "k < MAX_CONNECTIONS"
      "length (conn (at st)) = MAX_CONNECTIONS"
  shows "\<exists>st'. uart_byte callback 10 st = Some st'
    \<and> app st' = snd (callback AT_CLOSED_CONNECTION (of_nat k) (app st))
    \<and> conn (at st') = (conn (at st))[k := (conn (at st) ! k)\<lparr>active := False, cbuff := None\<rparr>]
    \<and> unat (result_len (at st')) = unat (result_len (at st)) - 8
    \<and> result_buff (at st') ! (unat (result_len (at st)) - 9) = 10
    \<and> async_idx (at st') = [8, 0, 0]"
proof -
  let ?r = "result_len (at st)"
  have r: "unat (?r - 9) = unat ?r - 9" "unat (?r - 8) = unat ?r - 8"
    using assms(6) unat_sub_u32 [of 9 ?r] unat_sub_u32 [of 8 ?r] by simp_all
  have "unat (ipd_idx (at st) + 1) \<noteq> 7" using assms(5) by (auto simp: unat_word_ariths)
  then have "\<exists>i. match_message at_ipd (ipd_idx (at st)) 10 = Some (False, i)"
    using assms(5) by (simp add: match_message_def)
  then obtain i where i: "match_message at_ipd (ipd_idx (at st)) 10 = Some (False, i)" by blast
  let ?st = "st\<lparr>at := (at st)\<lparr>read_ch := 10, ipd_idx := i\<rparr>\<rparr>"
  let ?d = "put_conn (\<lambda>c. c\<lparr>active := False, cbuff := None\<rparr>)
      ((at ?st)\<lparr>async_idx := [8, 0, 0], result_len := ?r - 9, current_conn := int k\<rparr>)"
  have "is_async_messages callback 10 ?st = Some (False, ?st\<lparr>
      at := ?d, app := snd (callback AT_CLOSED_CONNECTION (of_nat k) (app st))\<rparr>)"
    using assms(3,4,6-10)
    by (simp add: is_async_messages_def closed_matched check_conn_id_closed [where k = k])
  moreover have "is_payload_message ((at st)\<lparr>read_ch := 10\<rparr>) 10 = Some (False, at ?st)"
    using assms(5) i by (simp add: is_payload_message_def)
  ultimately have "uart_byte callback 10 st = Some (?st\<lparr>uart := Req_ch,
      at := ?d\<lparr>result_buff := (result_buff (at st))[unat ?r - 9 := 10], result_len := ?r - 8\<rparr>,
      app := snd (callback AT_CLOSED_CONNECTION (of_nat k) (app st))\<rparr>)"
    using assms(1,2,6-8) r
    by (simp add: uart_byte_def at_callback_def of_char_u8 store_result_def put_conn_def)
  then show ?thesis using assms(6-8) r(2) by (simp add: put_conn_def)
qed

theorem at_closed_leaves_newline_witness:
  "\<exists>st'. uart_byte (\<lambda>ev k w. (None, w)) 10 ((demo_sys True)\<lparr>at := (at (demo_sys True))\<lparr>result_len := 9,
      result_buff := bytes_of (''1,CLOSED'' @ [CHR 0x0D]) @ replicate 491 0, async_idx := [7, 0, 0], ipd_idx := 1\<rparr>\<rparr>) = Some st'
    \<and> conn (at st') ! 1 = demo_conn \<and> unat (result_len (at st')) = 1 \<and> result_buff (at st') ! 0 = 10"
proof -
  have "bytes_of (''1,CLOSED'' @ [CHR 0x0D]) = [49, 44, 67, 76, 79, 83, 69, 68, 13]"
    unfolding bytes_of_def by code_simp
  then show ?thesis
    using at_closed_leaves_newline [of "(demo_sys True)\<lparr>at := (at (demo_sys True))\<lparr>result_len := 9,
      result_buff := bytes_of (''1,CLOSED'' @ [CHR 0x0D]) @ replicate 491 0, async_idx := [7, 0, 0], ipd_idx := 1\<rparr>\<rparr>"
      1 "\<lambda>ev k w. (None, w)"]
    by (auto simp: demo_sys_def demo_conn_def)
qed

end
