(* ===== verification/At_Commands.thy ===== *)
theory At_Commands
  imports At_Parser
begin

text \<open>
  network/wifi/at_parser.c, the commanding half: a command is written into the command
  buffer, sent over the UART, and the answer the interrupt callback has stored is searched
  for the response that ends it.

  The module at the other end of the line is a parameter: what it does with the bytes written
  to it, and which bytes arrive during a millisecond of waiting. Bytes are taken to arrive
  while the code waits in mdelay. \<open>None\<close> is an access out of bounds.
\<close>

section \<open>Data\<close>

datatype at_cmd = AT_ATTENTION | AT_RESET | AT_DEEP_SLEEP | AT_GET_VERSION | AT_SET_OPERATION_MODE
  | AT_CONNECT_NETWORK | AT_GET_AVAILABLE_NETWORKS | AT_DISCONNECT_NETWORK | AT_SET_ACCESS_POINT
  | AT_GET_CONNECTED_IPS | AT_GET_STATUS | AT_START_CONNECTION | AT_SEND | AT_STOP_CONNECTION
  | AT_GET_IP | AT_SET_CONNECTION_TYPE | AT_SET_SERVER | AT_SET_TRANSPORT_MODE
  | AT_SET_CLIENT_TIMEOUT | AT_PING

datatype cmd_operation = AT_TEST_OP | AT_QUERY_OP | AT_SET_OP | AT_EXECUTE_OP

type_synonym at_buff = "u8 list"

datatype encryption_type = OPEN | WEP | WPA_PSK | WPA2_PSK | WPA_WPA2_PSK
datatype cwmod_param = CLIENT | ACCESS_POINT | CLIENT_AND_ACCESS_POINT
datatype udp_mode_t = UDP_ENTITY_NO_CHANGE | UDP_ENTITY_CHANGE_ONE | UDP_ENTITY_CHANGE_ALLOWED
datatype connection_type = SINGLE_CONNECTION | MULTIPLE_CONNECTION
datatype server_action = DELETE_SERVER | CREATE_SERVER
datatype cipmode_param = NORMAL_MODE | UNVARNISHED_MODE

fun encryption_val :: "encryption_type \<Rightarrow> int" where
  "encryption_val OPEN = 0"
| "encryption_val WEP = 1"
| "encryption_val WPA_PSK = 2"
| "encryption_val WPA2_PSK = 3"
| "encryption_val WPA_WPA2_PSK = 4"

fun cwmod_val :: "cwmod_param \<Rightarrow> int" where
  "cwmod_val CLIENT = 1"
| "cwmod_val ACCESS_POINT = 2"
| "cwmod_val CLIENT_AND_ACCESS_POINT = 3"

fun udp_mode_val :: "udp_mode_t \<Rightarrow> int" where
  "udp_mode_val UDP_ENTITY_NO_CHANGE = 0"
| "udp_mode_val UDP_ENTITY_CHANGE_ONE = 1"
| "udp_mode_val UDP_ENTITY_CHANGE_ALLOWED = 2"

record cwjap_param =
  jap_ssid :: at_buff
  jap_pwd :: at_buff

record cwsap_param =
  sap_ssid :: at_buff
  sap_pwd :: at_buff
  ch_id :: u32
  encription :: encryption_type

record cipstart_param =
  start_id :: u32
  soket_type :: socket_type
  addr :: at_buff
  port :: u16
  local_port :: u16
  udp_mode :: udp_mode_t

record cipsend_param =
  send_id :: u32
  send_buf :: at_buff
  remote_ip :: at_buff
  remote_port :: u16

record cipserver_param =
  server_act :: server_action
  server_port :: u16

text \<open>The union of parameters; the member that was set is the constructor.\<close>

datatype in_param =
    In_deep_sleep_time_ms u32
  | In_wifi_mode cwmod_param
  | In_network cwjap_param
  | In_ap cwsap_param
  | In_connection cipstart_param
  | In_send_data cipsend_param
  | In_conn_id u32
  | In_conn_type connection_type
  | In_server cipserver_param
  | In_transport_mode cipmode_param
  | In_timeout u32
  | In_ping_ip at_buff

fun g_map :: "at_cmd \<Rightarrow> string \<times> cmd_operation list" where
  "g_map AT_ATTENTION = ('''', [AT_EXECUTE_OP])"
| "g_map AT_RESET = (''+RST'', [AT_EXECUTE_OP])"
| "g_map AT_DEEP_SLEEP = (''+GSLP'', [AT_SET_OP])"
| "g_map AT_GET_VERSION = (''+GMR'', [AT_EXECUTE_OP])"
| "g_map AT_SET_OPERATION_MODE = (''+CWMODE'', [AT_QUERY_OP, AT_SET_OP, AT_TEST_OP])"
| "g_map AT_CONNECT_NETWORK = (''+CWJAP'', [AT_QUERY_OP, AT_SET_OP])"
| "g_map AT_GET_AVAILABLE_NETWORKS = (''+CWLAP'', [AT_EXECUTE_OP])"
| "g_map AT_DISCONNECT_NETWORK = (''+CWQAP'', [AT_EXECUTE_OP])"
| "g_map AT_SET_ACCESS_POINT = (''+CWSAP'', [AT_QUERY_OP, AT_SET_OP])"
| "g_map AT_GET_CONNECTED_IPS = (''+CWLIF'', [AT_EXECUTE_OP])"
| "g_map AT_GET_STATUS = (''+CIPSTATUS'', [AT_EXECUTE_OP])"
| "g_map AT_START_CONNECTION = (''+CIPSTART'', [AT_TEST_OP, AT_SET_OP])"
| "g_map AT_SEND = (''+CIPSEND'', [AT_SET_OP])"
| "g_map AT_STOP_CONNECTION = (''+CIPCLOSE'', [AT_EXECUTE_OP, AT_SET_OP])"
| "g_map AT_GET_IP = (''+CIFSR'', [AT_EXECUTE_OP])"
| "g_map AT_SET_CONNECTION_TYPE = (''+CIPMUX'', [AT_QUERY_OP, AT_SET_OP])"
| "g_map AT_SET_SERVER = (''+CIPSERVER'', [AT_SET_OP])"
| "g_map AT_SET_TRANSPORT_MODE = (''+CIPMODE'', [AT_QUERY_OP, AT_SET_OP])"
| "g_map AT_SET_CLIENT_TIMEOUT = (''+CIPSTO'', [AT_QUERY_OP, AT_SET_OP])"
| "g_map AT_PING = (''+PING'', [AT_SET_OP])"

section \<open>Writing the command\<close>

text \<open>A byte at the end of desc->cmd.\<close>

definition put_ch :: "u8 \<Rightarrow> at_desc \<Rightarrow> at_desc option" where
  "put_ch b desc = do {
     guard (unat (cmd_len desc) < length (cmd_buff desc));
     Some (desc\<lparr>cmd_buff := (cmd_buff desc)[unat (cmd_len desc) := b], cmd_len := cmd_len desc + 1\<rparr>)}"

fun put_bytes :: "u8 list \<Rightarrow> at_desc \<Rightarrow> at_desc option" where
  "put_bytes [] desc = Some desc"
| "put_bytes (b # bs) desc = do {desc \<leftarrow> put_ch b desc; put_bytes bs desc}"

text \<open>An argument of set_params; the letter of the format is the constructor.\<close>

datatype at_arg = Arg_d int | Arg_s at_buff

definition quote :: u8 where [simp]: "quote = 0x22"
definition comma :: u8 where [simp]: "comma = 0x2C"
definition backslash :: u8 where [simp]: "backslash = 0x5C"

fun put_escaped :: "u8 list \<Rightarrow> at_desc \<Rightarrow> at_desc option" where
  "put_escaped [] desc = Some desc"
| "put_escaped (ch # s) desc = do {
     desc \<leftarrow> (if ch = quote \<or> ch = comma \<or> ch = backslash then put_ch backslash desc else Some desc);
     desc \<leftarrow> put_ch ch desc;
     put_escaped s desc}"

fun put_arg :: "at_arg \<Rightarrow> at_desc \<Rightarrow> at_desc option" where
  "put_arg (Arg_d nb) desc = put_bytes (bytes_of (show_int nb)) desc"
| "put_arg (Arg_s str) desc = do {
     desc \<leftarrow> put_ch quote desc;
     desc \<leftarrow> put_escaped str desc;
     put_ch quote desc}"

fun set_params :: "at_arg list \<Rightarrow> at_desc \<Rightarrow> at_desc option" where
  "set_params [] desc = Some desc"
| "set_params (a # args) desc = do {
     desc \<leftarrow> put_arg a desc;
     desc \<leftarrow> (if args \<noteq> [] then put_ch comma desc else Some desc);
     set_params args desc}"

definition u16_arg :: "u16 \<Rightarrow> at_arg" where "u16_arg p = Arg_d (uint p)"
definition u32_arg :: "u32 \<Rightarrow> at_arg" where "u32_arg v = Arg_d (sint v)"

text \<open>
  The arguments concat_cmd_param passes to set_params. A member other than the one the command
  documents is not modelled (\<open>None\<close>); AT_SEND reads the connection id through the member of
  AT_START_CONNECTION, which lies at the same place.
\<close>

definition cmd_args :: "at_desc \<Rightarrow> at_cmd \<Rightarrow> in_param \<Rightarrow> at_arg list option" where
  "cmd_args desc cmd param = (case cmd of
     AT_DEEP_SLEEP \<Rightarrow> (case param of In_deep_sleep_time_ms t \<Rightarrow> Some [u32_arg t] | _ \<Rightarrow> None)
   | AT_SET_OPERATION_MODE \<Rightarrow> (case param of In_wifi_mode m \<Rightarrow> Some [Arg_d (cwmod_val m)] | _ \<Rightarrow> None)
   | AT_CONNECT_NETWORK \<Rightarrow> (case param of
       In_network p \<Rightarrow> Some [Arg_s (jap_ssid p), Arg_s (jap_pwd p)] | _ \<Rightarrow> None)
   | AT_SET_ACCESS_POINT \<Rightarrow> (case param of
       In_ap p \<Rightarrow> Some [Arg_s (sap_ssid p), Arg_s (sap_pwd p), u32_arg (ch_id p),
                        Arg_d (encryption_val (encription p))] | _ \<Rightarrow> None)
   | AT_START_CONNECTION \<Rightarrow> (case param of
       In_connection p \<Rightarrow>
         if soket_type p = SOCKET_TCP then
           if multiple_conections desc
           then Some [u32_arg (start_id p), Arg_s (bytes_of ''TCP''), Arg_s (addr p), u16_arg (port p)]
           else Some [Arg_s (bytes_of ''TCP''), Arg_s (addr p), u16_arg (port p)]
         else
           if multiple_conections desc
           then Some [u32_arg (start_id p), Arg_s (bytes_of ''UDP''), Arg_s (addr p), u16_arg (port p),
                      u16_arg (local_port p), Arg_d (udp_mode_val (udp_mode p))]
           else Some [Arg_s (bytes_of ''UDP''), Arg_s (addr p), u16_arg (port p), u16_arg (local_port p),
                      Arg_d (udp_mode_val (udp_mode p))]
     | _ \<Rightarrow> None)
   | AT_SEND \<Rightarrow> (case param of
       In_send_data p \<Rightarrow> do {
         let conn_id = (if multiple_conections desc then send_id p else 0);
         let len = u32_arg (of_nat (length (send_buf p)));
         guard (unat conn_id < length (conn desc));
         if conn_type (conn desc ! unat conn_id) = SOCKET_TCP then
           if multiple_conections desc then Some [u32_arg (send_id p), len] else Some [len]
         else
           if multiple_conections desc
           then Some [u32_arg (send_id p), len, Arg_s (remote_ip p), u16_arg (remote_port p)]
           else Some [len, Arg_s (remote_ip p), u16_arg (remote_port p)]}
     | _ \<Rightarrow> None)
   | AT_STOP_CONNECTION \<Rightarrow> (case param of In_conn_id i \<Rightarrow> Some [u32_arg i] | _ \<Rightarrow> None)
   | AT_SET_CONNECTION_TYPE \<Rightarrow> (case param of
       In_conn_type t \<Rightarrow> Some [Arg_d (of_bool (t = MULTIPLE_CONNECTION))] | _ \<Rightarrow> None)
   | AT_SET_SERVER \<Rightarrow> (case param of
       In_server p \<Rightarrow> if server_act p = CREATE_SERVER then Some [Arg_d 1, u16_arg (server_port p)]
                       else Some [Arg_d 0]
     | _ \<Rightarrow> None)
   | AT_SET_TRANSPORT_MODE \<Rightarrow> (case param of
       In_transport_mode m \<Rightarrow> Some [Arg_d (of_bool (m = UNVARNISHED_MODE))] | _ \<Rightarrow> None)
   | AT_SET_CLIENT_TIMEOUT \<Rightarrow> (case param of In_timeout t \<Rightarrow> Some [u32_arg t] | _ \<Rightarrow> None)
   | AT_PING \<Rightarrow> (case param of In_ping_ip ip \<Rightarrow> Some [Arg_s ip] | _ \<Rightarrow> None)
   | _ \<Rightarrow> Some [])"

definition concat_cmd_param :: "at_cmd \<Rightarrow> in_param \<Rightarrow> at_desc \<Rightarrow> at_desc option" where
  "concat_cmd_param cmd param desc = do {args \<leftarrow> cmd_args desc cmd param; set_params args desc}"

definition build_cmd :: "at_cmd \<Rightarrow> cmd_operation \<Rightarrow> in_param option \<Rightarrow> at_desc \<Rightarrow> at_desc option" where
  "build_cmd cmd op param desc = do {
     let desc = desc\<lparr>cmd_len := 0\<rparr>;
     desc \<leftarrow> put_bytes (bytes_of ''AT'') desc;
     desc \<leftarrow> put_bytes (bytes_of (fst (g_map cmd))) desc;
     desc \<leftarrow> (if op = AT_QUERY_OP then put_bytes (bytes_of ''?'') desc else Some desc);
     desc \<leftarrow> (if op = AT_TEST_OP then put_bytes (bytes_of ''=?'') desc else Some desc);
     desc \<leftarrow> (case param of
        Some p \<Rightarrow> if op = AT_SET_OP then do {
            desc \<leftarrow> put_bytes (bytes_of ''='') desc;
            concat_cmd_param cmd p desc}
          else Some desc
      | None \<Rightarrow> Some desc);
     put_bytes (bytes_of crlf) desc}"

section \<open>Waiting for the answer\<close>

text \<open>The module on the line: the effect of writing to it, and the bytes of a millisecond.\<close>

record 'e uart_env =
  tx :: "u8 list \<Rightarrow> 'e \<Rightarrow> 'e"
  ms :: "'e \<Rightarrow> u8 list \<times> 'e"

type_synonym ('w, 'e) board = "'w at_sys \<times> 'e"

definition MODULE_TIMEOUT :: nat where [simp]: "MODULE_TIMEOUT = 20000"

definition uart_write :: "'e uart_env \<Rightarrow> u8 list \<Rightarrow> ('w, 'e) board \<Rightarrow> ('w, 'e) board" where
  "uart_write env bs b = (fst b, tx env bs (snd b))"

definition mdelay1 :: "'w conn_callback \<Rightarrow> 'e uart_env \<Rightarrow> ('w, 'e) board \<Rightarrow> ('w, 'e) board option" where
  "mdelay1 callback env b = (case ms env (snd b) of
     (bs, e) \<Rightarrow> map_option (\<lambda>st. (st, e)) (uart_bytes callback bs (fst b)))"

text \<open>
  The loop of wait_for_response: the character looked at next and the turns left. The result
  is the response that was found, none when the time is over.
\<close>

fun wait_loop :: "'w conn_callback \<Rightarrow> 'e uart_env \<Rightarrow> nat \<Rightarrow> nat \<Rightarrow> ('w, 'e) board \<Rightarrow>
    (nat option \<times> ('w, 'e) board) option" where
  "wait_loop callback env 0 i b = Some (None, b)"
| "wait_loop callback env (Suc timeout) i (st, e) = do {
     (j, i, st) \<leftarrow>
       (if i < unat (result_len (at st)) then do {
          guard (i < length (result_buff (at st)));
          (j, ixs) \<leftarrow> match_loop responses [0..<length responses] (result_buff (at st) ! i) (resp_idx (at st));
          Some (j, Suc i, st\<lparr>at := (at st)\<lparr>resp_idx := ixs\<rparr>\<rparr>)}
        else Some (length responses, i, st));
     if j < length responses then Some (Some j, (st, e))
     else do {
       b \<leftarrow> mdelay1 callback env (st, e);
       wait_loop callback env timeout i b}}"

definition wait_for_response ::
  "'w conn_callback \<Rightarrow> 'e uart_env \<Rightarrow> ('w, 'e) board \<Rightarrow> (int \<times> ('w, 'e) board) option" where
  "wait_for_response callback env b = do {
     (found, (st, e)) \<leftarrow> wait_loop callback env MODULE_TIMEOUT 0 b;
     let desc = at st;
     let desc = (case found of
        Some j \<Rightarrow> desc\<lparr>result_len := result_len desc - ucast (resp_idx desc ! j)\<rparr>
      | None \<Rightarrow> desc);
     let ret = (case found of Some j \<Rightarrow> if j < 2 then FAILURE else SUCCESS | None \<Rightarrow> FAILURE);
     Some (ret, (st\<lparr>at := desc\<lparr>resp_idx := replicate (length responses) 0\<rparr>\<rparr>, e))}"

text \<open>
  The waits of send_cmd and handle_special count down an unsigned variable; the result is its
  value when the loop is left. After \<open>while (timeout--)\<close> and \<open>do ... while (timeout--)\<close> run out
  it has wrapped round to UINT32_MAX.
\<close>

fun while_timeout :: "'w conn_callback \<Rightarrow> 'e uart_env \<Rightarrow> ('w at_sys \<Rightarrow> bool) \<Rightarrow> nat \<Rightarrow> ('w, 'e) board \<Rightarrow>
    (u32 \<times> ('w, 'e) board) option" where
  "while_timeout callback env ready 0 b = Some (0xFFFFFFFF, b)"
| "while_timeout callback env ready (Suc timeout) b =
     (if ready (fst b) then Some (of_nat timeout, b)
      else do {
        b \<leftarrow> mdelay1 callback env b;
        while_timeout callback env ready timeout b})"

fun do_while_timeout :: "'w conn_callback \<Rightarrow> 'e uart_env \<Rightarrow> ('w at_sys \<Rightarrow> bool) \<Rightarrow> nat \<Rightarrow> ('w, 'e) board \<Rightarrow>
    (u32 \<times> ('w, 'e) board) option" where
  "do_while_timeout callback env ready timeout b =
     (if ready (fst b) then Some (of_nat timeout, b)
      else do {
        b \<leftarrow> mdelay1 callback env b;
        (case timeout of
           0 \<Rightarrow> Some (0xFFFFFFFF, b)
         | Suc timeout \<Rightarrow> do_while_timeout callback env ready timeout b)})"

definition set_op :: "callback_op \<Rightarrow> ('w, 'e) board \<Rightarrow> ('w, 'e) board" where
  "set_op c b = ((fst b)\<lparr>at := (at (fst b))\<lparr>callback_operation := c\<rparr>\<rparr>, snd b)"

definition cmd_bytes :: "('w, 'e) board \<Rightarrow> u8 list" where
  "cmd_bytes b = take (unat (cmd_len (at (fst b)))) (cmd_buff (at (fst b)))"

definition send_cmd :: "'w conn_callback \<Rightarrow> 'e uart_env \<Rightarrow> at_cmd \<Rightarrow> in_param option \<Rightarrow> ('w, 'e) board \<Rightarrow>
    (int \<times> ('w, 'e) board) option" where
  "send_cmd callback env cmd param b = do {
     let b = uart_write env (cmd_bytes b) b;
     if cmd = AT_SEND then do {
       let b = set_op WAITING_SEND b;
       (ret, b) \<leftarrow> wait_for_response callback env b;
       if ret \<noteq> SUCCESS then Some (FAILURE, b)
       else do {
         (timeout, b) \<leftarrow> while_timeout callback env (\<lambda>st. callback_operation (at st) \<noteq> WAITING_SEND) MODULE_TIMEOUT b;
         if timeout = 0 then Some (FAILURE, b)
         else (case param of
           Some (In_send_data p) \<Rightarrow> wait_for_response callback env (uart_write env (send_buf p) b)
         | _ \<Rightarrow> None)}}
     else if cmd = AT_DISCONNECT_NETWORK \<and> is_wifi_connected (at (fst b)) then do {
       (timeout, b) \<leftarrow> do_while_timeout callback env (\<lambda>st. \<not> is_wifi_connected (at st)) MODULE_TIMEOUT b;
       if timeout = 0 then Some (FAILURE, b) else Some (SUCCESS, b)}
     else wait_for_response callback env b}"

definition clear_result :: "('w, 'e) board \<Rightarrow> ('w, 'e) board" where
  "clear_result b = ((fst b)\<lparr>at := (at (fst b))\<lparr>result_len := 0\<rparr>\<rparr>, snd b)"

definition stop_echo :: "'w conn_callback \<Rightarrow> 'e uart_env \<Rightarrow> ('w, 'e) board \<Rightarrow> (int \<times> ('w, 'e) board) option" where
  "stop_echo callback env b = do {
     (ret, b) \<leftarrow> wait_for_response callback env (uart_write env (bytes_of (''ATE0'' @ crlf)) b);
     if ret \<noteq> SUCCESS then Some (FAILURE, b) else Some (SUCCESS, clear_result b)}"

definition parse_result :: "at_desc \<Rightarrow> (u8 list \<times> at_desc) option" where
  "parse_result desc = do {
     result \<leftarrow> mem_read (result_buff desc) 0 (unat (result_len desc));
     buff \<leftarrow> mem_write (app_result_buff desc) 0 result;
     Some (result, desc\<lparr>app_result_buff := buff, result_len := 0\<rparr>)}"

section \<open>Running a command\<close>

text \<open>
  What at_run_cmd does after the command was answered: the status of the driver follows the
  command, the answer is handed out, and recorded errors are reported.
\<close>

definition update_status :: "at_cmd \<Rightarrow> cmd_operation \<Rightarrow> in_param option \<Rightarrow> at_desc \<Rightarrow> at_desc option" where
  "update_status cmd op param desc = do {
     desc \<leftarrow> (if cmd = AT_SET_CONNECTION_TYPE
       then (case param of
           Some (In_conn_type t) \<Rightarrow> Some (desc\<lparr>multiple_conections := (t \<noteq> SINGLE_CONNECTION)\<rparr>)
         | _ \<Rightarrow> None)
       else Some desc);
     if cmd = AT_START_CONNECTION \<and> op = AT_SET_OP
     then (case param of
         Some (In_connection p) \<Rightarrow> do {
           let ident = (if multiple_conections desc then unat (start_id p) else 0);
           guard (ident < length (conn desc));
           Some (desc\<lparr>conn := (conn desc)[ident := (conn desc ! ident)\<lparr>conn_type := soket_type p\<rparr>]\<rparr>)}
       | _ \<Rightarrow> None)
     else Some desc}"

definition finish_cmd ::
  "at_cmd \<Rightarrow> cmd_operation \<Rightarrow> in_param option \<Rightarrow> at_desc \<Rightarrow> (int \<times> u8 list option \<times> at_desc) option" where
  "finish_cmd cmd op param desc = do {
     desc \<leftarrow> update_status cmd op param desc;
     (out, desc) \<leftarrow> (case param of
         Some _ \<Rightarrow> map_option (\<lambda>(r, d). (Some r, d)) (parse_result desc)
       | None \<Rightarrow> Some (None, desc\<lparr>result_len := 0\<rparr>));
     if errors desc \<noteq> 0 then Some (- sint (errors desc), out, desc\<lparr>errors := 0\<rparr>)
     else Some (SUCCESS, out, desc)}"

text \<open>
  at_run_cmd after its check of the arguments, with the handler of the special commands as a
  parameter: handle_special itself runs AT_DISCONNECT_NETWORK, which is not one of them. The
  bytes returned are the answer in the output parameter.
\<close>

definition run_cmd ::
  "(at_cmd \<Rightarrow> ('w, 'e) board \<Rightarrow> (int \<times> ('w, 'e) board) option) \<Rightarrow> 'w conn_callback \<Rightarrow> 'e uart_env \<Rightarrow>
   at_cmd \<Rightarrow> cmd_operation \<Rightarrow> in_param option \<Rightarrow> ('w, 'e) board \<Rightarrow> (int \<times> u8 list option \<times> ('w, 'e) board) option" where
  "run_cmd special callback env cmd op param b =
     (if op \<notin> set (snd (g_map cmd)) then Some (FAILURE, None, b)
      else do {
        desc \<leftarrow> build_cmd cmd op param (at (fst b));
        let b = ((fst b)\<lparr>at := desc\<rparr>, snd b);
        if cmd = AT_DEEP_SLEEP \<or> cmd = AT_RESET then do {
          (ret, b) \<leftarrow> special cmd b;
          Some (ret, None, b)}
        else do {
          (ret, b) \<leftarrow> send_cmd callback env cmd param b;
          if IS_ERR_VALUE ret then Some (ret, None, b)
          else do {
            (ret, out, desc) \<leftarrow> finish_cmd cmd op param (at (fst b));
            Some (ret, out, ((fst b)\<lparr>at := desc\<rparr>, snd b))}}})"

definition handle_special :: "'w conn_callback \<Rightarrow> 'e uart_env \<Rightarrow> at_cmd \<Rightarrow> ('w, 'e) board \<Rightarrow>
    (int \<times> ('w, 'e) board) option" where
  "handle_special callback env cmd b =
     (if cmd = AT_RESET then do {
        let b = set_op RESETTING_MODULE b;
        let b = uart_write env (cmd_bytes b) b;
        (timeout, b) \<leftarrow> do_while_timeout callback env (\<lambda>st. callback_operation (at st) \<noteq> RESETTING_MODULE) MODULE_TIMEOUT b;
        if timeout = 0 then Some (FAILURE, b)
        else do {
          let b = clear_result (set_op READING_PAYLOAD b);
          (ret, b) \<leftarrow> stop_echo callback env b;
          if ret \<noteq> SUCCESS then Some (FAILURE, b)
          else do {
            (_, _, b) \<leftarrow> run_cmd (\<lambda>_ _. None) callback env AT_DISCONNECT_NETWORK AT_EXECUTE_OP None b;
            Some (SUCCESS, b)}}}
      else Some (FAILURE, b))"

text \<open>The descriptor is absent where the pointer is NULL.\<close>

definition at_run_cmd :: "'w conn_callback \<Rightarrow> 'e uart_env \<Rightarrow> at_cmd \<Rightarrow> cmd_operation \<Rightarrow> in_param option \<Rightarrow>
    ('w, 'e) board option \<Rightarrow> (int \<times> u8 list option \<times> ('w, 'e) board option) option" where
  "at_run_cmd callback env cmd op param desc = (case desc of
     None \<Rightarrow> Some (FAILURE, None, None)
   | Some b \<Rightarrow>
      if cmd = AT_SET_TRANSPORT_MODE then Some (FAILURE, None, Some b)
      else map_option (\<lambda>(ret, out, b). (ret, out, Some b))
             (run_cmd (handle_special callback env) callback env cmd op param b))"

definition at_remove :: "('w, 'e) board option \<Rightarrow> int \<times> ('w, 'e) board option" where
  "at_remove desc = (case desc of None \<Rightarrow> (FAILURE, None) | Some b \<Rightarrow> (SUCCESS, None))"

text \<open>at_buff values are byte lists here; a C string ends before its first zero.\<close>

definition str_to_at :: "at_buff option \<Rightarrow> string option \<Rightarrow> int \<times> at_buff option" where
  "str_to_at dest src = (case (dest, src) of
     (Some _, Some s) \<Rightarrow> (SUCCESS, Some (bytes_of s))
   | _ \<Rightarrow> (FAILURE, dest))"

text \<open>
  at_to_str on a buffer and the number of bytes written in it: the buffer with the terminator
  and the string it then holds. A NULL source, or no place for the result, is a failure.
\<close>

definition at_to_str :: "bool \<Rightarrow> (u8 list \<times> u32) option \<Rightarrow> (int \<times> (u8 list \<times> string) option) option" where
  "at_to_str has_dest src = (case src of
     None \<Rightarrow> Some (FAILURE, None)
   | Some (buff, len) \<Rightarrow>
       if \<not> has_dest then Some (FAILURE, None)
       else do {
         guard (unat len < length buff);
         let buff = buff[unat len := 0];
         Some (SUCCESS, Some (buff, map (\<lambda>b. char_of (unat b)) (takeWhile (\<lambda>b. b \<noteq> 0) buff)))})"

text \<open>The descriptor calloc returns, with the fields at_init sets before it talks to the module.\<close>

definition at_zero :: at_desc where
  "at_zero = \<lparr>conn = replicate MAX_CONNECTIONS \<lparr>cbuff = None, to_read = 0, active = False, conn_type = SOCKET_TCP\<rparr>,
     current_conn = 0, multiple_conections = False,
     result_buff = replicate RESULT_BUFF_LEN 0, result_len = 0, app_result_buff = replicate RESULT_BUFF_LEN 0,
     cmd_buff = replicate CMD_BUFF_LEN 0, cmd_len = of_nat CMD_BUFF_LEN, read_ch = 0, errors = 0,
     is_wifi_connected = False, callback_operation = READING_RESPONSES, ready_idx = 0,
     async_idx = replicate (length async_msgs) 0, resp_idx = replicate (length responses) 0,
     ipd_idx = 0, ipd_stat = NOT_MATCH, ipd_len = 0\<rparr>"

text \<open>The value sscanf stores for "+CIPMUX:%u", none when the text does not match.\<close>

definition scan_cipmux :: "string \<Rightarrow> u32 option" where
  "scan_cipmux s = (if take 8 s = ''+CIPMUX:'' then map_option fst (scan_base 10 (drop 8 s)) else None)"

text \<open>
  \<open>args_ok\<close> says that no argument is NULL; \<open>alloc_ok\<close>, \<open>reg_ok\<close> and \<open>en_ok\<close> are the outcomes of
  calloc, irq_register_callback and irq_enable; \<open>res0\<close> and \<open>conn0\<close> are what the local variables
  result and conn hold before they are written.
\<close>

definition at_init :: "'w conn_callback \<Rightarrow> 'e uart_env \<Rightarrow> bool \<Rightarrow> bool \<Rightarrow> bool \<Rightarrow> bool \<Rightarrow> connection_type \<Rightarrow> u32 \<Rightarrow>
    'w \<Rightarrow> circular_buffer heap \<Rightarrow> 'e \<Rightarrow> (int \<times> ('w, 'e) board option) option" where
  "at_init callback env args_ok alloc_ok reg_ok en_ok res0 conn0 w hp e =
     (if \<not> args_ok \<or> \<not> alloc_ok \<or> \<not> reg_ok \<or> \<not> en_ok then Some (FAILURE, None)
      else do {
        let b = (\<lparr>at = at_zero, app = w, bufs = hp, uart = Req_ch\<rparr>, e);
        (ret, b) \<leftarrow> stop_echo callback env b;
        if ret \<noteq> SUCCESS then Some (FAILURE, None)
        else do {
          (ret, _, b) \<leftarrow> run_cmd (handle_special callback env) callback env AT_ATTENTION AT_EXECUTE_OP None b;
          if ret \<noteq> SUCCESS then Some (FAILURE, None)
          else do {
            (ret, out, b) \<leftarrow> run_cmd (handle_special callback env) callback env AT_SET_CONNECTION_TYPE AT_QUERY_OP
                             (Some (In_conn_type res0)) b;
            if ret \<noteq> SUCCESS then Some (FAILURE, None)
            else (case out of
               Some r \<Rightarrow> do {
                 (_, res) \<leftarrow> at_to_str True (Some (app_result_buff (at (fst b)), of_nat (length r)));
                 (buff, str) \<leftarrow> res;
                 let c = (case scan_cipmux str of Some v \<Rightarrow> v | None \<Rightarrow> conn0);
                 let desc = (at (fst b))\<lparr>app_result_buff := buff, cmd_len := 0, multiple_conections := (c \<noteq> 0)\<rparr>;
                 Some (SUCCESS, Some ((fst b)\<lparr>at := desc\<rparr>, snd b))}
             | None \<Rightarrow> None)}}})"

declare do_while_timeout.simps [simp del]

section \<open>The command sent is the one asked for\<close>

text \<open>What the code means to write: the command as a list of bytes.\<close>

definition escape :: "u8 list \<Rightarrow> u8 list" where
  "escape s = concat (map (\<lambda>ch. if ch = quote \<or> ch = comma \<or> ch = backslash then [backslash, ch] else [ch]) s)"

fun arg_text :: "at_arg \<Rightarrow> u8 list" where
  "arg_text (Arg_d i) = bytes_of (show_int i)"
| "arg_text (Arg_s s) = quote # escape s @ [quote]"

fun args_text :: "at_arg list \<Rightarrow> u8 list" where
  "args_text [] = []"
| "args_text [a] = arg_text a"
| "args_text (a # b # as) = arg_text a @ comma # args_text (b # as)"

definition op_text :: "at_desc \<Rightarrow> at_cmd \<Rightarrow> cmd_operation \<Rightarrow> in_param option \<Rightarrow> u8 list option" where
  "op_text desc cmd op param =
     (if op = AT_QUERY_OP then Some (bytes_of ''?'')
      else if op = AT_TEST_OP then Some (bytes_of ''=?'')
      else if op = AT_EXECUTE_OP then Some []
      else (case param of None \<Rightarrow> Some []
            | Some p \<Rightarrow> map_option (\<lambda>as. bytes_of ''='' @ args_text as) (cmd_args desc cmd p)))"

definition cmd_text :: "at_desc \<Rightarrow> at_cmd \<Rightarrow> cmd_operation \<Rightarrow> in_param option \<Rightarrow> u8 list option" where
  "cmd_text desc cmd op param = map_option
     (\<lambda>t. bytes_of (''AT'' @ fst (g_map cmd)) @ t @ bytes_of crlf) (op_text desc cmd op param)"

text \<open>The command buffer after \<open>bs\<close> has been written at its end, if it fits.\<close>

definition put_all :: "u8 list \<Rightarrow> at_desc \<Rightarrow> at_desc option" where
  "put_all bs desc = map_option (\<lambda>buf. desc\<lparr>cmd_buff := buf, cmd_len := cmd_len desc + of_nat (length bs)\<rparr>)
     (mem_write (cmd_buff desc) (unat (cmd_len desc)) bs)"

definition cmd_ok :: "at_desc \<Rightarrow> bool" where
  "cmd_ok desc \<longleftrightarrow> unat (cmd_len desc) \<le> length (cmd_buff desc) \<and> length (cmd_buff desc) = CMD_BUFF_LEN"

lemma put_ch_all: "put_ch b desc = put_all [b] desc"
  by (auto simp: put_ch_def put_all_def mem_write_def guard_def upd_conv_take_nth_drop)

lemma put_all_ok: "put_all bs desc = Some d \<Longrightarrow> cmd_ok desc \<Longrightarrow>
  cmd_ok d \<and> unat (cmd_len d) = unat (cmd_len desc) + length bs"
  by (auto simp: put_all_def mem_write_def cmd_ok_def unat_word_ariths unat_of_nat split: if_splits)

lemma put_all_Nil: "cmd_ok desc \<Longrightarrow> put_all [] desc = Some desc"
  by (simp add: put_all_def mem_write_def cmd_ok_def)

lemma put_all_append:
  assumes "cmd_ok desc"
  shows "put_all (xs @ ys) desc = Option.bind (put_all xs desc) (put_all ys)"
proof -
  have len: "unat (cmd_len desc + of_nat (length xs)) = unat (cmd_len desc) + length xs"
    if "unat (cmd_len desc) + length xs \<le> length (cmd_buff desc)"
    using assms that by (simp add: cmd_ok_def unat_word_ariths unat_of_nat)
  show ?thesis
    by (auto simp: put_all_def mem_write_def len add.assoc ac_simps)
qed

lemma put_all_then:
  assumes "cmd_ok desc" "\<And>d. cmd_ok d \<Longrightarrow> conn d = conn desc \<Longrightarrow> multiple_conections d = multiple_conections desc \<Longrightarrow> f d = put_all ys d"
  shows "Option.bind (put_all xs desc) f = put_all (xs @ ys) desc"
proof (cases "put_all xs desc")
  case (Some d)
  then have "conn d = conn desc" "multiple_conections d = multiple_conections desc"
    by (auto simp: put_all_def)
  then show ?thesis using put_all_ok [OF Some assms(1)] assms Some by (simp add: put_all_append)
qed (simp add: put_all_append assms(1))

lemma put_bytes_all: "cmd_ok desc \<Longrightarrow> put_bytes bs desc = put_all bs desc"
proof (induction bs arbitrary: desc)
  case (Cons b bs)
  then show ?case using put_all_then [of desc "put_bytes bs" bs "[b]"] by (simp add: put_ch_all)
qed (simp add: put_all_Nil)

lemma put_escaped_all: "cmd_ok desc \<Longrightarrow> put_escaped s desc = put_all (escape s) desc"
proof (induction s arbitrary: desc)
  case (Cons ch s)
  let ?e = "if ch = quote \<or> ch = comma \<or> ch = backslash then [backslash] else []"
  have tail: "Option.bind (put_all [ch] d) (put_escaped s) = put_all ([ch] @ escape s) d" if "cmd_ok d" for d
    using put_all_then [OF that, of "put_escaped s" "escape s"] Cons.IH by blast
  have "put_escaped (ch # s) desc = Option.bind (put_all ?e desc) (\<lambda>d. Option.bind (put_all [ch] d) (put_escaped s))"
    using Cons.prems by (simp add: put_ch_all put_all_Nil)
  also have "\<dots> = put_all (?e @ [ch] @ escape s) desc" by (rule put_all_then [OF Cons.prems]) (rule tail)
  also have "?e @ [ch] @ escape s = escape (ch # s)" by (simp add: escape_def)
  finally show ?case .
qed (simp add: put_all_Nil escape_def)

lemma put_arg_all: "cmd_ok desc \<Longrightarrow> put_arg a desc = put_all (arg_text a) desc"
proof (cases a)
  case (Arg_s s)
  assume ok: "cmd_ok desc"
  have "Option.bind (put_escaped s d) (put_ch quote) = put_all (escape s @ [quote]) d" if "cmd_ok d" for d
    unfolding put_escaped_all [OF that] by (intro put_all_then that) (rule put_ch_all)
  then have "Option.bind (put_all [quote] desc) (\<lambda>d. Option.bind (put_escaped s d) (put_ch quote)) =
      put_all ([quote] @ escape s @ [quote]) desc" by (intro put_all_then ok)
  then show ?thesis by (simp add: Arg_s put_ch_all)
qed (simp add: put_bytes_all)

lemma set_params_all: "cmd_ok desc \<Longrightarrow> set_params args desc = put_all (args_text args) desc"
proof (induction args arbitrary: desc rule: args_text.induct)
  case (2 a)
  then show ?case by (simp add: put_arg_all bind_eq_Some_conv Option.bind_rzero)
next
  case (3 a b as)
  have "Option.bind (put_all [comma] d) (set_params (b # as)) = put_all ([comma] @ args_text (b # as)) d"
    if "cmd_ok d" for d using 3(1) by (intro put_all_then that)
  then have "Option.bind (put_all (arg_text a) desc) (\<lambda>d. Option.bind (put_all [comma] d) (set_params (b # as))) =
      put_all (arg_text a @ [comma] @ args_text (b # as)) desc" by (rule put_all_then [OF 3(2)])
  then show ?case using 3(2) by (simp add: put_arg_all put_ch_all)
qed (simp add: put_all_Nil)

lemma cmd_args_cong: "conn d = conn desc \<Longrightarrow> multiple_conections d = multiple_conections desc \<Longrightarrow>
  cmd_args d cmd p = cmd_args desc cmd p"
  by (cases cmd; cases p) (simp_all add: cmd_args_def Let_def)

lemma op_bytes_all:
  assumes "cmd_ok desc"
  shows "Option.bind (if op = AT_QUERY_OP then put_bytes (bytes_of ''?'') desc else Some desc) (\<lambda>desc.
     Option.bind (if op = AT_TEST_OP then put_bytes (bytes_of ''=?'') desc else Some desc) (\<lambda>desc.
     Option.bind (case param of
        Some p \<Rightarrow> if op = AT_SET_OP
          then Option.bind (put_bytes (bytes_of ''='') desc) (concat_cmd_param cmd p) else Some desc
      | None \<Rightarrow> Some desc) (put_bytes (bytes_of crlf)))) =
    Option.bind (op_text desc cmd op param) (\<lambda>t. put_all (t @ bytes_of crlf) desc)"
proof -
  have crlf: "Option.bind (put_all t desc) (put_bytes (bytes_of crlf)) = put_all (t @ bytes_of crlf) desc" for t
    using put_bytes_all by (intro put_all_then assms)
  have args: "Option.bind (put_all (bytes_of ''='') desc) (concat_cmd_param cmd p) =
      Option.bind (cmd_args desc cmd p) (\<lambda>as. put_all (bytes_of ''='' @ args_text as) desc)" for p
  proof (cases "cmd_args desc cmd p")
    case None
    have "concat_cmd_param cmd p d = None" if "put_all (bytes_of ''='') desc = Some d" for d
      using None that cmd_args_cong [of d desc cmd p] by (auto simp: concat_cmd_param_def put_all_def)
    then show ?thesis using None by (cases "put_all (bytes_of ''='') desc") auto
  next
    case (Some as)
    have "Option.bind (put_all (bytes_of ''='') desc) (concat_cmd_param cmd p) =
        put_all (bytes_of ''='' @ args_text as) desc"
      by (intro put_all_then assms) (simp add: concat_cmd_param_def cmd_args_cong Some set_params_all)
    then show ?thesis by (simp add: Some)
  qed
  show ?thesis
  proof (cases op)
    case AT_SET_OP
    show ?thesis
    proof (cases param)
      case None
      then show ?thesis using AT_SET_OP assms by (simp add: op_text_def put_bytes_all)
    next
      case (Some p)
      then show ?thesis
        using AT_SET_OP assms arg_cong [OF args [of p], of "\<lambda>x. Option.bind x (put_bytes (bytes_of crlf))"]
        by (cases "cmd_args desc cmd p") (simp_all add: op_text_def put_bytes_all crlf)
    qed
  qed (cases param; use assms crlf in \<open>simp add: op_text_def put_bytes_all\<close>)+
qed

lemma build_cmd_all:
  assumes "length (cmd_buff desc) = CMD_BUFF_LEN"
  shows "build_cmd cmd op param desc =
    Option.bind (cmd_text desc cmd op param) (\<lambda>t. put_all t (desc\<lparr>cmd_len := 0\<rparr>))"
proof -
  let ?d = "desc\<lparr>cmd_len := 0\<rparr>" and ?name = "bytes_of (fst (g_map cmd))"
  have ok: "cmd_ok ?d" using assms by (simp add: cmd_ok_def)
  define rest where "rest d =
     Option.bind (if op = AT_QUERY_OP then put_bytes (bytes_of ''?'') d else Some d) (\<lambda>desc.
     Option.bind (if op = AT_TEST_OP then put_bytes (bytes_of ''=?'') desc else Some desc) (\<lambda>desc.
     Option.bind (case param of
        Some p \<Rightarrow> if op = AT_SET_OP
          then Option.bind (put_bytes (bytes_of ''='') desc) (concat_cmd_param cmd p) else Some desc
      | None \<Rightarrow> Some desc) (put_bytes (bytes_of crlf))))" for d
  have rest: "rest d = Option.bind (op_text desc cmd op param) (\<lambda>t. put_all (t @ bytes_of crlf) d)"
    if "cmd_ok d" "conn d = conn desc" "multiple_conections d = multiple_conections desc" for d
    unfolding rest_def op_bytes_all [OF that(1)] op_text_def cmd_args_cong [OF that(2,3)] by simp
  have build: "build_cmd cmd op param desc = Option.bind (put_all (bytes_of ''AT'') ?d) (\<lambda>d. Option.bind (put_bytes ?name d) rest)"
    unfolding build_cmd_def rest_def using ok by (simp add: put_bytes_all)
  show ?thesis
  proof (cases "op_text desc cmd op param")
    case None
    have none: "rest d = None" if "put_all (bytes_of ''AT'') ?d = Some d'" "put_bytes ?name d' = Some d" for d' d
    proof -
      have 1: "cmd_ok d'" using put_all_ok [OF that(1) ok] by simp
      then have "put_all ?name d' = Some d" using that(2) by (simp add: put_bytes_all)
      with 1 have "cmd_ok d" "conn d = conn d'" "multiple_conections d = multiple_conections d'"
        using put_all_ok [of ?name d' d] by (auto simp: put_all_def)
      moreover have "conn d' = conn desc" "multiple_conections d' = multiple_conections desc"
        using that(1) by (auto simp: put_all_def)
      ultimately show ?thesis using rest None by simp
    qed
    have "Option.bind (put_bytes ?name d') rest = None" if "put_all (bytes_of ''AT'') ?d = Some d'" for d'
      using none [OF that] by (cases "put_bytes ?name d'") simp_all
    then show ?thesis using None unfolding build
      by (cases "put_all (bytes_of ''AT'') ?d") (simp_all add: cmd_text_def)
  next
    case (Some t)
    have "Option.bind (put_bytes ?name d) rest = put_all (?name @ t @ bytes_of crlf) d"
      if "cmd_ok d" "conn d = conn ?d" "multiple_conections d = multiple_conections ?d" for d
      unfolding put_bytes_all [OF that(1)] using that(2,3) rest Some by (intro put_all_then that(1)) simp
    then have "build_cmd cmd op param desc = put_all (bytes_of ''AT'' @ ?name @ t @ bytes_of crlf) ?d"
      unfolding build by (intro put_all_then ok)
    then show ?thesis using Some by (simp add: cmd_text_def bytes_of_def)
  qed
qed

text \<open>Reading the arguments back: fields end at commas that no backslash precedes.\<close>

fun split_args :: "u8 list \<Rightarrow> u8 list \<Rightarrow> u8 list list" where
  "split_args cur [] = [rev cur]"
| "split_args cur (c # cs) =
     (if c = comma then rev cur # split_args [] cs
      else if c = backslash then
        (case cs of [] \<Rightarrow> [rev (c # cur)] | d # ds \<Rightarrow> split_args (d # c # cur) ds)
      else split_args (c # cur) cs)"

fun unescape :: "u8 list \<Rightarrow> u8 list" where
  "unescape [] = []"
| "unescape (c # cs) =
     (if c = backslash then (case cs of [] \<Rightarrow> [c] | d # ds \<Rightarrow> d # unescape ds) else c # unescape cs)"

definition decode_arg :: "u8 list \<Rightarrow> at_arg" where
  "decode_arg t = (if t \<noteq> [] \<and> hd t = quote then Arg_s (unescape (butlast (tl t)))
     else Arg_d (strtol (map (\<lambda>b. char_of (unat b)) t)))"

definition decode_args :: "u8 list \<Rightarrow> at_arg list" where
  "decode_args bs = map decode_arg (split_args [] bs)"

lemma unescape_escape: "unescape (escape s) = s"
  by (induction s) (auto simp: escape_def)

lemma split_escape: "split_args cur (escape s @ rest) = split_args (rev (escape s) @ cur) rest"
  by (induction s arbitrary: cur) (auto simp: escape_def)

lemma split_plain: "comma \<notin> set t \<Longrightarrow> backslash \<notin> set t \<Longrightarrow> split_args cur (t @ rest) = split_args (rev t @ cur) rest"
  by (induction t arbitrary: cur) auto

lemma unat_of_char [simp]: "unat (of_char c :: u8) = of_char c"
proof -
  have "(of_char c :: nat) < 256" by simp
  moreover have "(of_char c :: u8) = of_nat (of_char c)" by (rule of_nat_of_char [symmetric])
  ultimately show ?thesis by (simp add: unat_of_nat del: of_nat_of_char)
qed

lemma chars_of_bytes [simp]: "map (\<lambda>b. char_of (unat b)) (bytes_of s) = s"
  by (simp add: bytes_of_def o_def)

lemma show_int_chars: "c \<in> set (show_int i) \<Longrightarrow> c = CHR ''-'' \<or> (\<exists>d < 10. c = digit_char d)"
  using show_nat_digits by (auto simp: show_int_def split: if_splits)

lemma bytes_show_int:
  "b \<in> set (bytes_of (show_int i)) \<Longrightarrow> b \<noteq> comma \<and> b \<noteq> backslash \<and> b \<noteq> quote"
proof -
  assume "b \<in> set (bytes_of (show_int i))"
  then obtain c where c: "c \<in> set (show_int i)" "b = of_char c" by (auto simp: bytes_of_def)
  have "unat b \<in> {45} \<union> {48..<58}"
    using show_int_chars [OF c(1)] c(2) by (auto simp: digit_char_def)
  then show ?thesis by auto
qed

lemma split_arg: "split_args [] (arg_text a @ rest) = split_args (rev (arg_text a)) rest"
proof (cases a)
  case (Arg_d i)
  then show ?thesis using bytes_show_int [of _ i] split_plain [of "arg_text a" "[]" rest] by fastforce
next
  case (Arg_s s)
  then show ?thesis by (simp add: split_escape)
qed

definition int32 :: "at_arg \<Rightarrow> bool" where
  "int32 a = (case a of Arg_d i \<Rightarrow> in_s32 i | Arg_s _ \<Rightarrow> True)"

lemma decode_arg_text: "int32 a \<Longrightarrow> decode_arg (arg_text a) = a"
proof (cases a)
  case (Arg_d i)
  assume "int32 a"
  moreover have ne: "show_int i \<noteq> []" by (simp add: show_int_def)
  moreover have "hd (bytes_of (show_int i)) \<noteq> quote"
    using bytes_show_int [of "hd (bytes_of (show_int i))" i] ne hd_in_set [of "bytes_of (show_int i)"]
    by (auto simp: bytes_of_def)
  ultimately show ?thesis
    using Arg_d by (auto simp: decode_arg_def int32_def strtol_show_int)
next
  case (Arg_s s)
  then show ?thesis by (simp add: decode_arg_def unescape_escape butlast_append)
qed

lemma decode_args_text: "as \<noteq> [] \<Longrightarrow> \<forall>a \<in> set as. int32 a \<Longrightarrow> decode_args (args_text as) = as"
proof (induction as rule: args_text.induct)
  case (2 a)
  then show ?case using split_arg [of a "[]"] by (simp add: decode_args_def decode_arg_text)
next
  case (3 a b as)
  then show ?case by (simp add: decode_args_def split_arg decode_arg_text)
qed simp

lemma int32_args:
  "int32 (Arg_s s)" "int32 (u32_arg v)" "int32 (u16_arg w)" "int32 (Arg_d (cwmod_val m))"
  "int32 (Arg_d (encryption_val e))" "int32 (Arg_d (udp_mode_val u))" "int32 (Arg_d (of_bool b))"
proof -
  show "int32 (u32_arg v)" using sint_ge [of v] sint_lt [of v] by (simp add: int32_def u32_arg_def in_s32_def)
  have "- (2 ^ 31) \<le> uint w" by (rule order_trans [OF _ uint_ge_0]) simp
  moreover have "uint w < 2 ^ 16" using uint_lt2p [of w] by simp
  ultimately show "int32 (u16_arg w)" by (simp add: int32_def u16_arg_def in_s32_def)
  show "int32 (Arg_d (cwmod_val m))" by (cases m) (simp_all add: int32_def in_s32_def)
  show "int32 (Arg_d (encryption_val e))" by (cases e) (simp_all add: int32_def in_s32_def)
  show "int32 (Arg_d (udp_mode_val u))" by (cases u) (simp_all add: int32_def in_s32_def)
qed (simp_all add: int32_def in_s32_def)

lemma cmd_args_int32: "cmd_args desc cmd p = Some as \<Longrightarrow> a \<in> set as \<Longrightarrow> int32 a"
  by (cases cmd; cases p)
    (auto simp: cmd_args_def int32_args Let_def int32_args(7) [of True, simplified] int32_args(7) [of False, simplified]
      split: if_splits Option.bind_splits)

lemma put_all_taken:
  assumes "put_all t (desc\<lparr>cmd_len := 0\<rparr>) = Some d" "length (cmd_buff desc) = 120"
  shows "take (unat (cmd_len d)) (cmd_buff d) = t"
proof -
  have "length t \<le> 120" "d = desc\<lparr>cmd_buff := t @ drop (length t) (cmd_buff desc), cmd_len := of_nat (length t)\<rparr>"
    using assms by (auto simp: put_all_def mem_write_def split: if_splits)
  then show ?thesis by (simp add: unat_of_nat)
qed

text \<open>
  C7. The bytes of a set command hand the module exactly the arguments the application gave.
  They read "AT", the name of the command, "=", the arguments and CR LF, and splitting the
  arguments at the commas that are not escaped gives back every number and every string, so
  that no quote, comma or backslash in a network name, password or address can end an
  argument or add one.
\<close>

theorem at_command_roundtrip:
  assumes "length (cmd_buff desc) = CMD_BUFF_LEN" "cmd_args desc cmd p = Some as" "as \<noteq> []"
    and "build_cmd cmd AT_SET_OP (Some p) desc = Some d"
  shows "\<exists>ps. take (unat (cmd_len d)) (cmd_buff d) = bytes_of (''AT'' @ fst (g_map cmd) @ ''='') @ ps @ bytes_of crlf
    \<and> decode_args ps = as"
proof -
  have "put_all (bytes_of (''AT'' @ fst (g_map cmd) @ ''='') @ args_text as @ bytes_of crlf) (desc\<lparr>cmd_len := 0\<rparr>) = Some d"
    using assms(2,4) build_cmd_all [OF assms(1)] by (simp add: cmd_text_def op_text_def bytes_of_def)
  then have "take (unat (cmd_len d)) (cmd_buff d) =
      bytes_of (''AT'' @ fst (g_map cmd) @ ''='') @ args_text as @ bytes_of crlf"
    by (rule put_all_taken) (simp add: assms(1))
  moreover have "decode_args (args_text as) = as"
    using cmd_args_int32 [OF assms(2)] by (intro decode_args_text assms(3)) blast
  ultimately show ?thesis by blast
qed

definition demo_network :: in_param where
  "demo_network = In_network \<lparr>jap_ssid = bytes_of ''a,\"b'', jap_pwd = bytes_of ''x''\<rparr>"

theorem at_command_roundtrip_witness:
  "\<exists>d ps. build_cmd AT_CONNECT_NETWORK AT_SET_OP (Some demo_network) (at (demo_sys True)) = Some d
     \<and> take (unat (cmd_len d)) (cmd_buff d) = bytes_of ''AT+CWJAP='' @ ps @ bytes_of crlf
     \<and> decode_args ps = [Arg_s (bytes_of ''a,\"b''), Arg_s (bytes_of ''x'')]"
proof -
  let ?d = "at (demo_sys True)"
  have len: "length (cmd_buff ?d) = CMD_BUFF_LEN" by (simp add: demo_sys_def)
  have args: "cmd_args ?d AT_CONNECT_NETWORK demo_network = Some [Arg_s (bytes_of ''a,\"b''), Arg_s (bytes_of ''x'')]"
    by (simp add: cmd_args_def demo_network_def)
  have "\<exists>d. build_cmd AT_CONNECT_NETWORK AT_SET_OP (Some demo_network) ?d = Some d"
    unfolding build_cmd_all [OF len] using len args
    by (simp add: cmd_text_def op_text_def put_all_def mem_write_def escape_def bytes_of_def crlf_def)
  then obtain d where d: "build_cmd AT_CONNECT_NETWORK AT_SET_OP (Some demo_network) ?d = Some d" by blast
  show ?thesis using at_command_roundtrip [OF len args _ d] d by simp
qed

text \<open>
  C36. Building a command is memory safe exactly when the command fits: build_cmd writes the
  bytes of the command and their number if there are at most CMD_BUFF_LEN = 120 of them, and
  writes past the end of the buffer otherwise; nothing in the code checks the length.
\<close>

theorem build_cmd_fits:
  assumes "length (cmd_buff desc) = CMD_BUFF_LEN" "cmd_text desc cmd op param = Some t"
  shows "build_cmd cmd op param desc =
    (if length t \<le> CMD_BUFF_LEN
     then Some (desc\<lparr>cmd_buff := t @ drop (length t) (cmd_buff desc), cmd_len := of_nat (length t)\<rparr>)
     else None)"
  using assms by (simp add: build_cmd_all put_all_def mem_write_def)

text \<open>A network name and a password of the lengths the standard allows, full of commas.\<close>

theorem build_cmd_fits_witness:
  "build_cmd AT_CONNECT_NETWORK AT_SET_OP
     (Some (In_network \<lparr>jap_ssid = replicate 32 comma, jap_pwd = replicate 64 comma\<rparr>)) (at (demo_sys True)) = None"
proof -
  let ?p = "In_network \<lparr>jap_ssid = replicate 32 comma, jap_pwd = replicate 64 comma\<rparr>"
  let ?as = "[Arg_s (replicate 32 comma), Arg_s (replicate 64 comma)]"
  have ct: "cmd_text (at (demo_sys True)) AT_CONNECT_NETWORK AT_SET_OP (Some ?p) =
      Some (bytes_of ''AT+CWJAP'' @ (bytes_of ''='' @ args_text ?as) @ bytes_of crlf)"
    by (simp add: cmd_text_def op_text_def cmd_args_def)
  have "length (escape (replicate n comma)) = 2 * n" for n by (induction n) (simp_all add: escape_def)
  then have "\<not> length (bytes_of ''AT+CWJAP'' @ (bytes_of ''='' @ args_text ?as) @ bytes_of crlf) \<le> CMD_BUFF_LEN"
    by (simp add: bytes_of_def)
  then show ?thesis using build_cmd_fits [OF _ ct] by (simp add: demo_sys_def)
qed

section \<open>Waiting finds the first response\<close>

lemma match_message_matched: "match_message msg i c = Some (True, k) \<Longrightarrow> unat k = length msg"
  by (auto simp: match_message_def split: if_splits Option.bind_splits)

lemma match_loop_spec:
  assumes "\<forall>msg \<in> set msgs. plain_msg msg" "length ixs = length msgs"
    "distinct is" "set is \<subseteq> {..<length msgs}" "\<forall>j \<in> set is. represents (msgs ! j) (ixs ! j) xs"
  shows "\<exists>ixs'. length ixs' = length msgs \<and> (\<forall>j. j \<notin> set is \<longrightarrow> ixs' ! j = ixs ! j)
    \<and> ((\<exists>j \<in> set is. match_loop msgs is c ixs = Some (j, ixs') \<and> suffix (msgs ! j) (xs @ [c])
          \<and> unat (ixs' ! j) = length (msgs ! j))
      \<or> (match_loop msgs is c ixs = Some (length msgs, ixs')
          \<and> (\<forall>j \<in> set is. \<not> suffix (msgs ! j) (xs @ [c]) \<and> represents (msgs ! j) (ixs' ! j) (xs @ [c]))))"
  using assms(2-)
proof (induction "is" arbitrary: ixs)
  case (Cons i "is")
  then have i: "i < length msgs" "represents (msgs ! i) (ixs ! i) xs" by auto
  then have "plain_msg (msgs ! i)" using assms(1) by simp
  from match_message_step [OF this i(2), of c] obtain k where
    k: "match_message (msgs ! i) (ixs ! i) c = Some (suffix (msgs ! i) (xs @ [c]), k)"
      "\<not> suffix (msgs ! i) (xs @ [c]) \<Longrightarrow> represents (msgs ! i) k (xs @ [c])" by blast
  show ?case
  proof (cases "suffix (msgs ! i) (xs @ [c])")
    case True
    with k(1) have "unat k = length (msgs ! i)" using match_message_matched by simp
    then show ?thesis using True k(1) i(1) Cons.prems(1)
      by (intro exI [of _ "ixs[i := k]"]) simp
  next
    case False
    have "\<forall>j \<in> set is. represents (msgs ! j) (ixs[i := k] ! j) xs"
      using Cons.prems by (metis distinct.simps(2) list.set_intros(2) nth_list_update_neq)
    then obtain ixs' where *: "length ixs' = length msgs" "\<forall>j. j \<notin> set is \<longrightarrow> ixs' ! j = ixs[i := k] ! j"
      "(\<exists>j \<in> set is. match_loop msgs is c (ixs[i := k]) = Some (j, ixs') \<and> suffix (msgs ! j) (xs @ [c])
          \<and> unat (ixs' ! j) = length (msgs ! j))
      \<or> (match_loop msgs is c (ixs[i := k]) = Some (length msgs, ixs')
          \<and> (\<forall>j \<in> set is. \<not> suffix (msgs ! j) (xs @ [c]) \<and> represents (msgs ! j) (ixs' ! j) (xs @ [c])))"
      using Cons.IH [of "ixs[i := k]"] Cons.prems by auto
    moreover have "ixs' ! i = k" using *(2) Cons.prems(1,2) i(1) by simp
    ultimately show ?thesis
      using False k Cons.prems(1,2) i(1) by (intro exI [of _ ixs']) auto
  qed
qed auto

text \<open>A module that sends nothing more.\<close>

definition silent :: "'e uart_env \<Rightarrow> bool" where
  "silent env \<longleftrightarrow> (\<forall>e. fst (ms env e) = [])"

lemma mdelay_silent: "silent env \<Longrightarrow> mdelay1 callback env (st, e) = Some (st, snd (ms env e))"
  by (simp add: mdelay1_def silent_def case_prod_unfold)

lemma responses_plain: "\<forall>msg \<in> set responses. plain_msg msg"
  using messages_plain by simp

lemma length_responses: "length responses = 4"
  by (simp add: responses_def)

text \<open>What the module sends in the first \<open>k\<close> milliseconds, and its state after them.\<close>

fun later :: "'e uart_env \<Rightarrow> nat \<Rightarrow> 'e \<Rightarrow> 'e" where
  "later env 0 e = e"
| "later env (Suc k) e = later env k (snd (ms env e))"

fun arrived :: "'e uart_env \<Rightarrow> nat \<Rightarrow> 'e \<Rightarrow> u8 list" where
  "arrived env 0 e = []"
| "arrived env (Suc k) e = fst (ms env e) @ arrived env k (snd (ms env e))"

lemma arrived_mono: "k \<le> n \<Longrightarrow> prefix (arrived env k e) (arrived env n e)"
proof (induction k arbitrary: n e)
  case (Suc k)
  then obtain m where "n = Suc m" "k \<le> m" by (cases n) auto
  then show ?case using Suc.IH by simp
qed simp

text \<open>
  The parser collects an answer: characters are asked for one by one, and the matchers of the
  messages that are not answers stand where the stream \<open>h\<close> has brought them.
\<close>

definition answer :: "at_desc \<Rightarrow> u8 list" where
  "answer d = take (unat (result_len d)) (result_buff d)"

definition plain_answer :: "u8 list \<Rightarrow> bool" where
  "plain_answer xs \<longleftrightarrow> (\<forall>m \<in> set (at_ipd # async_msgs). \<not> sublist m xs)"

definition answering :: "u8 list \<Rightarrow> 'w at_sys \<Rightarrow> bool" where
  "answering h st \<longleftrightarrow> uart st = Req_ch \<and> callback_operation (at st) = READING_RESPONSES
     \<and> represents at_ipd (ipd_idx (at st)) h \<and> length (async_idx (at st)) = 3
     \<and> (\<forall>j < 3. represents (async_msgs ! j) (async_idx (at st) ! j) h)
     \<and> length (result_buff (at st)) = RESULT_BUFF_LEN \<and> unat (result_len (at st)) \<le> RESULT_BUFF_LEN"

definition same_rest :: "'w at_sys \<Rightarrow> 'w at_sys \<Rightarrow> bool" where
  "same_rest st st' \<longleftrightarrow> app st' = app st \<and> bufs st' = bufs st \<and> conn (at st') = conn (at st)
     \<and> errors (at st') = errors (at st)"

lemma plain_answer_suffix: "plain_answer xs \<Longrightarrow> prefix ys xs \<Longrightarrow> m \<in> set (at_ipd # async_msgs) \<Longrightarrow> \<not> suffix m ys"
  unfolding plain_answer_def sublist_altdef by blast

lemma length_answer: "answering h st \<Longrightarrow> length (answer (at st)) = unat (result_len (at st))"
  by (simp add: answering_def answer_def)

lemma answering_step:
  assumes a: "answering h st" and plain: "plain_answer (h @ [b])" and room: "length (answer (at st)) < RESULT_BUFF_LEN"
  shows "\<exists>st'. uart_byte callback b st = Some st' \<and> answering (h @ [b]) st' \<and> answer (at st') = answer (at st) @ [b]
    \<and> resp_idx (at st') = resp_idx (at st) \<and> same_rest st st'"
proof -
  let ?d = "at st"
  have room': "unat (result_len ?d) < 500" using room length_answer [OF a] by simp
  have no: "\<not> suffix m (h @ [b])" if "m \<in> set (at_ipd # async_msgs)" for m
    using plain_answer_suffix [OF plain _ that] by simp
  have msgs: "plain_msg at_ipd" "\<forall>msg \<in> set async_msgs. plain_msg msg" using messages_plain by simp_all
  obtain k where k: "match_message at_ipd (ipd_idx ?d) b = Some (False, k)" "represents at_ipd k (h @ [b])"
    using match_message_step [OF msgs(1), of "ipd_idx ?d" h b] a no [of at_ipd] by (auto simp: answering_def)
  have ipd: "unat (ipd_idx ?d) < 7" using a by (auto simp: answering_def represents_def)
  have "\<forall>j \<in> set [0..<3]. represents (async_msgs ! j) (async_idx ?d ! j) h" "length (async_idx ?d) = length async_msgs"
    using a by (simp_all add: answering_def async_first)
  from match_loop_spec [OF msgs(2) this(2) _ _ this(1), of b] obtain ixs where
    ixs: "length ixs = 3" "match_loop async_msgs [0..<3] b (async_idx ?d) = Some (3, ixs)"
      "\<forall>j < 3. represents (async_msgs ! j) (ixs ! j) (h @ [b])"
    using no nth_mem [of _ async_msgs] by (auto simp: async_first atLeast0LessThan)
  let ?d' = "?d\<lparr>read_ch := b, ipd_idx := k, async_idx := ixs,
      result_buff := (result_buff ?d)[unat (result_len ?d) := b], result_len := result_len ?d + 1\<rparr>"
  have step: "uart_byte callback b st = Some (st\<lparr>at := ?d'\<rparr>)"
    using a k ixs ipd room' by (simp add: answering_def uart_byte_def at_callback_def is_payload_message_def
        is_async_messages_def store_result_def async_first)
  have len: "unat (result_len ?d + 1) = Suc (unat (result_len ?d))"
    using room' by (simp add: unat_word_ariths)
  then have "answering (h @ [b]) (st\<lparr>at := ?d'\<rparr>)" "answer ?d' = answer ?d @ [b]"
    using a k(2) ixs(1,3) room' by (simp_all add: answering_def answer_def take_Suc_conv_app_nth)
  then show ?thesis using step a by (auto simp: same_rest_def answering_def)
qed

lemma answering_bytes:
  assumes "answering h st" "plain_answer (h @ bs)" "length (answer (at st) @ bs) \<le> RESULT_BUFF_LEN"
  shows "\<exists>st'. uart_bytes callback bs st = Some st' \<and> answering (h @ bs) st' \<and> answer (at st') = answer (at st) @ bs
    \<and> resp_idx (at st') = resp_idx (at st) \<and> same_rest st st'"
  using assms
proof (induction bs arbitrary: h st)
  case (Cons b bs)
  have "plain_answer (h @ [b])"
    using Cons.prems(2) unfolding plain_answer_def by (metis append.assoc append_Cons append_Nil sublist_append_rightI sublist_order.order_trans)
  with Cons.prems obtain st1 where st1: "uart_byte callback b st = Some st1" "answering (h @ [b]) st1"
      "answer (at st1) = answer (at st) @ [b]" "resp_idx (at st1) = resp_idx (at st)" "same_rest st st1"
    using answering_step [of h st b callback] by auto
  obtain st2 where "uart_bytes callback bs st1 = Some st2" "answering ((h @ [b]) @ bs) st2"
      "answer (at st2) = answer (at st1) @ bs" "resp_idx (at st2) = resp_idx (at st1)" "same_rest st1 st2"
    using Cons.IH [OF st1(2)] Cons.prems st1(3) by auto
  then show ?case using st1 by (auto simp: same_rest_def)
qed (simp add: same_rest_def)

text \<open>
  The outcome of the loop from position \<open>i\<close> of the answer: after \<open>k\<close> of its \<open>t\<close> turns it has
  found the response that ends first after \<open>i\<close>; or its turns are over and no response ends
  before the position it has come to. It reads a character a turn, so that it has got to every
  position for which the characters were there early enough.
\<close>

definition no_response :: "u8 list \<Rightarrow> nat \<Rightarrow> bool" where
  "no_response r q \<longleftrightarrow> (\<forall>m \<in> set responses. \<not> suffix m (take q r))"

definition found_first :: "u8 list \<Rightarrow> nat \<Rightarrow> nat \<Rightarrow> nat \<Rightarrow> bool" where
  "found_first r i p j \<longleftrightarrow> j < 4 \<and> i < p \<and> p \<le> length r \<and> suffix (responses ! j) (take p r)
     \<and> (\<forall>q. i < q \<and> q < p \<longrightarrow> no_response r q)"

definition wait_outcome ::
  "'e uart_env \<Rightarrow> u8 list \<Rightarrow> nat \<Rightarrow> nat \<Rightarrow> 'e \<Rightarrow> nat \<Rightarrow> u8 list \<Rightarrow> nat option \<Rightarrow> bool" where
  "wait_outcome env r t i e k ixs found \<longleftrightarrow> (case found of
     Some j \<Rightarrow> k < t \<and> unat (ixs ! j) = length (responses ! j) \<and> (\<exists>p. found_first (r @ arrived env k e) i p j)
   | None \<Rightarrow> k = t \<and> (\<forall>s \<le> t. \<forall>q. i < q \<and> q \<le> length (r @ arrived env s e) \<and> q \<le> i + (t - s) \<longrightarrow>
        no_response (r @ arrived env s e) q))"

lemma wait_outcome_skip:
  assumes "length r \<le> i" "wait_outcome env (r @ fst (ms env e)) t i (snd (ms env e)) k ixs found"
  shows "wait_outcome env r (Suc t) i e (Suc k) ixs found"
proof (cases found)
  case None
  have "no_response (r @ arrived env s e) q"
    if "s \<le> Suc t" "i < q" "q \<le> length (r @ arrived env s e)" "q \<le> i + (Suc t - s)" for s q
  proof (cases s)
    case 0
    then show ?thesis using that assms(1) by simp
  next
    case (Suc s')
    then show ?thesis using that assms(2) None by (simp add: wait_outcome_def)
  qed
  then show ?thesis using assms(2) None by (simp add: wait_outcome_def)
qed (use assms in \<open>auto simp: wait_outcome_def\<close>)

lemma no_response_append: "q \<le> length r \<Longrightarrow> no_response (r @ xs) q \<longleftrightarrow> no_response r q"
  by (simp add: no_response_def)

lemma wait_outcome_miss:
  assumes "i < length r" "no_response r (Suc i)"
    "wait_outcome env (r @ fst (ms env e)) t (Suc i) (snd (ms env e)) k ixs found"
  shows "wait_outcome env r (Suc t) i e (Suc k) ixs found"
proof (cases found)
  case None
  have all: "\<forall>s \<le> t. \<forall>q. Suc i < q \<and> q \<le> length ((r @ fst (ms env e)) @ arrived env s (snd (ms env e))) \<and> q \<le> Suc i + (t - s)
      \<longrightarrow> no_response ((r @ fst (ms env e)) @ arrived env s (snd (ms env e))) q"
    using assms(3) None by (simp add: wait_outcome_def)
  have "no_response (r @ arrived env s e) q"
    if "s \<le> Suc t" "i < q" "q \<le> length (r @ arrived env s e)" "q \<le> i + (Suc t - s)" for s q
  proof (cases "q = Suc i")
    case True
    then show ?thesis using assms(1,2) by (simp add: no_response_append)
  next
    case False
    show ?thesis
    proof (cases s)
      case 0
      have "no_response (r @ fst (ms env e)) q"
        using all [rule_format, of 0 q] that False 0 by simp
      then show ?thesis using that 0 by (simp add: no_response_append)
    next
      case (Suc s')
      then show ?thesis using all [rule_format, of s' q] that False by simp
    qed
  qed
  then show ?thesis using assms(3) None by (simp add: wait_outcome_def)
next
  case (Some j)
  then obtain p where p: "k < t" "unat (ixs ! j) = length (responses ! j)"
      "found_first ((r @ fst (ms env e)) @ arrived env k (snd (ms env e))) (Suc i) p j"
    using assms(3) by (auto simp: wait_outcome_def)
  let ?R = "r @ arrived env (Suc k) e"
  have "no_response ?R (Suc i)" using assms(1,2) by (simp add: no_response_append)
  then have "no_response ?R q" if "i < q" "q < p" for q
    using p(3) that by (cases "q = Suc i") (auto simp: found_first_def)
  then have "found_first ?R i p j" using p(3) by (auto simp: found_first_def)
  then show ?thesis using p(1,2) Some by (auto simp: wait_outcome_def)
qed

lemma mdelay_answering:
  assumes "answering h st" "plain_answer (h @ fst (ms env e))" "length (answer (at st) @ fst (ms env e)) \<le> RESULT_BUFF_LEN"
  shows "\<exists>st'. mdelay1 callback env (st, e) = Some (st', snd (ms env e)) \<and> answering (h @ fst (ms env e)) st'
    \<and> answer (at st') = answer (at st) @ fst (ms env e) \<and> resp_idx (at st') = resp_idx (at st) \<and> same_rest st st'"
  using answering_bytes [OF assms, of callback] by (auto simp: mdelay1_def case_prod_unfold)

lemma answering_resp_idx [simp]:
  "answering h (st\<lparr>at := (at st)\<lparr>resp_idx := ixs\<rparr>\<rparr>) = answering h st"
  "answer ((at st)\<lparr>resp_idx := ixs\<rparr>) = answer (at st)"
  "same_rest (st\<lparr>at := (at st)\<lparr>resp_idx := ixs\<rparr>\<rparr>) st' = same_rest st st'"
  "same_rest st (st\<lparr>at := (at st)\<lparr>resp_idx := ixs\<rparr>\<rparr>)"
  by (simp_all add: answering_def answer_def same_rest_def)

text \<open>One turn: the next character of the answer goes through the four matchers.\<close>

lemma wait_char:
  assumes "answering h st" "i < length (answer (at st))" "length (resp_idx (at st)) = 4"
    "\<forall>j < 4. represents (responses ! j) (resp_idx (at st) ! j) (take i (answer (at st)))"
  obtains (hit) j ixs where "match_loop responses [0..<4] (result_buff (at st) ! i) (resp_idx (at st)) = Some (j, ixs)"
      "j < 4" "suffix (responses ! j) (take (Suc i) (answer (at st)))" "unat (ixs ! j) = length (responses ! j)"
  | (miss) ixs where "match_loop responses [0..<4] (result_buff (at st) ! i) (resp_idx (at st)) = Some (4, ixs)"
      "length ixs = 4" "no_response (answer (at st)) (Suc i)"
      "\<forall>j < 4. represents (responses ! j) (ixs ! j) (take (Suc i) (answer (at st)))"
proof -
  let ?r = "answer (at st)" and ?c = "result_buff (at st) ! i"
  have c: "take i ?r @ [?c] = take (Suc i) ?r"
    using assms(2) by (simp add: take_Suc_conv_app_nth) (simp add: answer_def)
  obtain ixs' where "length ixs' = 4"
    "(\<exists>j \<in> {..<4}. match_loop responses [0..<4] ?c (resp_idx (at st)) = Some (j, ixs')
        \<and> suffix (responses ! j) (take (Suc i) ?r) \<and> unat (ixs' ! j) = length (responses ! j))
    \<or> (match_loop responses [0..<4] ?c (resp_idx (at st)) = Some (4, ixs')
        \<and> (\<forall>j < 4. \<not> suffix (responses ! j) (take (Suc i) ?r) \<and> represents (responses ! j) (ixs' ! j) (take (Suc i) ?r)))"
    using match_loop_spec [OF responses_plain, of "resp_idx (at st)" "[0..<4]" "take i ?r" ?c] assms(3,4)
    by (auto simp: length_responses c atLeast0LessThan)
  then show ?thesis
  proof (elim disjE bexE conjE)
    assume "\<forall>j < 4. \<not> suffix (responses ! j) (take (Suc i) ?r) \<and> represents (responses ! j) (ixs' ! j) (take (Suc i) ?r)"
      "length ixs' = 4" "match_loop responses [0..<4] ?c (resp_idx (at st)) = Some (4, ixs')"
    then show ?thesis by (intro miss [of ixs']) (auto simp: no_response_def in_set_conv_nth length_responses)
  qed (use hit in auto)
qed

lemma plain_answer_prefix: "plain_answer (xs @ ys) \<Longrightarrow> plain_answer xs"
  unfolding plain_answer_def by (meson sublist_append_rightI sublist_order.order_trans)

lemma wait_loop_spec:
  assumes "answering h st" "plain_answer (h @ arrived env t e)" "length (answer (at st) @ arrived env t e) \<le> RESULT_BUFF_LEN"
    "length (resp_idx (at st)) = 4" "\<forall>j < 4. represents (responses ! j) (resp_idx (at st) ! j) (take i (answer (at st)))"
    "i \<le> length (answer (at st))"
  shows "\<exists>found k st'. wait_loop callback env t i (st, e) = Some (found, (st', later env k e))
    \<and> k \<le> t \<and> answering (h @ arrived env k e) st' \<and> answer (at st') = answer (at st) @ arrived env k e
    \<and> same_rest st st' \<and> wait_outcome env (answer (at st)) t i e k (resp_idx (at st')) found"
  using assms
proof (induction t arbitrary: i h st e)
  case 0
  then show ?case by (auto simp: wait_outcome_def same_rest_def)
next
  case (Suc t)
  let ?r = "answer (at st)" and ?bs = "fst (ms env e)" and ?e = "snd (ms env e)"
  have L: "length ?r = unat (result_len (at st))" using Suc.prems(1) by (rule length_answer)
  have buf: "length (result_buff (at st)) = 500" "unat (result_len (at st)) \<le> 500"
    using Suc.prems(1) by (simp_all add: answering_def)
  have bs: "plain_answer (h @ ?bs)" "length (?r @ ?bs) \<le> RESULT_BUFF_LEN"
    using Suc.prems(2,3) plain_answer_prefix [of "h @ ?bs"] by simp_all
  have rest: "\<exists>found k st'. wait_loop callback env t i' b = Some (found, (st', later env k e))
      \<and> k \<le> Suc t \<and> answering (h @ arrived env k e) st' \<and> answer (at st') = ?r @ arrived env k e
      \<and> same_rest st st' \<and> wait_outcome env ?r (Suc t) i e k (resp_idx (at st')) found"
    if b: "mdelay1 callback env (st\<lparr>at := (at st)\<lparr>resp_idx := ixs\<rparr>\<rparr>, e) = Some b" "length ixs = 4"
      "i' \<le> length (?r @ ?bs)"
      "\<forall>j < 4. represents (responses ! j) (ixs ! j) (take i' (?r @ ?bs))"
      "\<And>k ixs found. wait_outcome env (?r @ ?bs) t i' ?e k ixs found \<Longrightarrow> wait_outcome env ?r (Suc t) i e (Suc k) ixs found"
    for i' b ixs
  proof -
    obtain st1 where st1: "b = (st1, ?e)" "answering (h @ ?bs) st1" "answer (at st1) = ?r @ ?bs"
        "resp_idx (at st1) = ixs" "same_rest st st1"
      using mdelay_answering [of h "st\<lparr>at := (at st)\<lparr>resp_idx := ixs\<rparr>\<rparr>" env e callback] Suc.prems(1) bs b(1) by auto
    obtain found k st' where "wait_loop callback env t i' (st1, ?e) = Some (found, (st', later env k ?e))" "k \<le> t"
        "answering ((h @ ?bs) @ arrived env k ?e) st'" "answer (at st') = answer (at st1) @ arrived env k ?e"
        "same_rest st1 st'" "wait_outcome env (answer (at st1)) t i' ?e k (resp_idx (at st')) found"
      using Suc.IH [OF st1(2), of ?e i'] Suc.prems(2,3) st1 b(2,3,4) by auto
    then show ?thesis using st1 b(5) by (intro exI [of _ found] exI [of _ "Suc k"] exI [of _ st'])
        (auto simp: same_rest_def)
  qed
  have step: "\<exists>b. mdelay1 callback env (st\<lparr>at := (at st)\<lparr>resp_idx := ixs\<rparr>\<rparr>, e) = Some b" for ixs
    using mdelay_answering [of h "st\<lparr>at := (at st)\<lparr>resp_idx := ixs\<rparr>\<rparr>" env e callback] Suc.prems(1) bs by auto
  show ?case
  proof (cases "i < length ?r")
    case False
    obtain b where b: "mdelay1 callback env (st, e) = Some b" using step [of "resp_idx (at st)"] by auto
    have "wait_loop callback env (Suc t) i (st, e) = wait_loop callback env t i b"
      using False L b by (simp add: length_responses)
    moreover have "i = length ?r" using False Suc.prems(6) by simp
    ultimately show ?thesis
      using rest [of "resp_idx (at st)" b i] b Suc.prems(4,5) wait_outcome_skip [of ?r i env e t] by simp
  next
    case True
    then have g: "i < unat (result_len (at st))" "i < length (result_buff (at st))" using L buf by simp_all
    from Suc.prems(1) True Suc.prems(4,5) show ?thesis
    proof (cases rule: wait_char)
      case (hit j ixs)
      let ?st = "st\<lparr>at := (at st)\<lparr>resp_idx := ixs\<rparr>\<rparr>"
      have "wait_loop callback env (Suc t) i (st, e) = Some (Some j, (?st, later env 0 e))"
        using hit g by (simp add: length_responses)
      moreover have "found_first ?r i (Suc i) j" using hit True by (auto simp: found_first_def)
      ultimately show ?thesis using hit Suc.prems(1)
        by (intro exI [of _ "Some j"] exI [of _ 0] exI [of _ ?st]) (auto simp: wait_outcome_def)
    next
      case (miss ixs)
      obtain b where b: "mdelay1 callback env (st\<lparr>at := (at st)\<lparr>resp_idx := ixs\<rparr>\<rparr>, e) = Some b"
        using step by blast
      have "wait_loop callback env (Suc t) i (st, e) = wait_loop callback env t (Suc i) b"
        using miss(1) g b by (simp add: length_responses)
      then show ?thesis
        using rest [OF b miss(2) _ _ wait_outcome_miss [OF True miss(3)]] miss(4) True
        by (simp del: wait_loop.simps)
    qed
  qed
qed

lemma ucast_u8_u32: "unat (b :: u8) = n \<Longrightarrow> (ucast b :: u32) = of_nat n"
  by (metis of_nat_unat)

lemma responses_start: "j < 4 \<Longrightarrow> represents (responses ! j) (replicate 4 0 ! j) []"
  using responses_plain represents_start [of "responses ! j"] by (simp add: length_responses)

lemma no_response_0: "no_response r 0"
  using responses_plain by (auto simp: no_response_def plain_msg_def)

lemma answer_cut:
  assumes "answering h st" "n \<le> length (answer (at st))"
  shows "answering h (st\<lparr>at := (at st)\<lparr>result_len := result_len (at st) - of_nat n, resp_idx := ixs\<rparr>\<rparr>)"
    "answer ((at st)\<lparr>result_len := result_len (at st) - of_nat n, resp_idx := ixs\<rparr>) =
      take (length (answer (at st)) - n) (answer (at st))"
proof -
  have "unat (result_len (at st) - of_nat n) = unat (result_len (at st)) - n"
    using assms by (intro unat_sub_u32) (simp add: length_answer)
  then show "answering h (st\<lparr>at := (at st)\<lparr>result_len := result_len (at st) - of_nat n, resp_idx := ixs\<rparr>\<rparr>)"
    "answer ((at st)\<lparr>result_len := result_len (at st) - of_nat n, resp_idx := ixs\<rparr>) =
      take (length (answer (at st)) - n) (answer (at st))"
    using assms length_answer [OF assms(1)] by (auto simp: answering_def answer_def min_def)
qed

text \<open>
  C8. wait_for_response waits for the response that ends first in the answer, whatever part of
  it was there before the wait and whatever the module sends in which millisecond: after k
  milliseconds it returns FAILURE for ERROR and FAIL, SUCCESS for OK and SEND OK, with the
  length of the response taken off the end of the answer (when more bytes have followed the
  response, it is not the response that is cut). It returns FAILURE with the answer complete
  when its 20000 turns are over, and only when no response ended in the answer at a position
  q while q turns were left. In both cases the parser goes on collecting. The parser is
  collecting an answer before the wait, with the indices of the responses 0, as every wait
  leaves them; the answer fits in the buffer and holds none of the messages that are not
  answers (+IPD and the three notifications).
\<close>

theorem wait_for_response_first:
  assumes "answering h st" "resp_idx (at st) = replicate 4 0"
    and "plain_answer (h @ arrived env MODULE_TIMEOUT e)"
    and "length (answer (at st) @ arrived env MODULE_TIMEOUT e) \<le> RESULT_BUFF_LEN"
  shows "\<exists>ret k st'. wait_for_response callback env (st, e) = Some (ret, (st', later env k e))
    \<and> answering (h @ arrived env k e) st' \<and> resp_idx (at st') = replicate 4 0 \<and> same_rest st st'
    \<and> ((\<exists>j < 4. \<exists>p \<le> length (answer (at st) @ arrived env k e). k < MODULE_TIMEOUT
          \<and> suffix (responses ! j) (take p (answer (at st) @ arrived env k e))
          \<and> (\<forall>q < p. \<forall>m \<in> set responses. \<not> suffix m (take q (answer (at st) @ arrived env k e)))
          \<and> ret = (if j < 2 then FAILURE else SUCCESS)
          \<and> answer (at st') = take (length (answer (at st) @ arrived env k e) - length (responses ! j))
              (answer (at st) @ arrived env k e))
      \<or> (k = MODULE_TIMEOUT \<and> ret = FAILURE \<and> answer (at st') = answer (at st) @ arrived env k e
          \<and> (\<forall>s \<le> MODULE_TIMEOUT. \<forall>q \<le> length (answer (at st) @ arrived env s e). q \<le> MODULE_TIMEOUT - s \<longrightarrow>
              (\<forall>m \<in> set responses. \<not> suffix m (take q (answer (at st) @ arrived env s e))))))"
proof -
  have start: "length (resp_idx (at st)) = 4"
    "\<forall>j < 4. represents (responses ! j) (resp_idx (at st) ! j) (take 0 (answer (at st)))"
    using assms(2) responses_start by simp_all
  obtain found k st' where w: "wait_loop callback env MODULE_TIMEOUT 0 (st, e) = Some (found, (st', later env k e))"
      "answering (h @ arrived env k e) st'" "answer (at st') = answer (at st) @ arrived env k e" "same_rest st st'"
      "wait_outcome env (answer (at st)) MODULE_TIMEOUT 0 e k (resp_idx (at st')) found"
    using wait_loop_spec [OF assms(1,3,4) start, of callback] by auto
  let ?R = "answer (at st) @ arrived env k e"
  show ?thesis
  proof (cases found)
    case None
    let ?st = "st'\<lparr>at := (at st')\<lparr>resp_idx := replicate 4 0\<rparr>\<rparr>"
    have ret: "wait_for_response callback env (st, e) = Some (FAILURE, (?st, later env k e))"
      unfolding wait_for_response_def w(1) using None by (simp add: length_responses)
    have k: "k = MODULE_TIMEOUT" using w(5) None by (simp add: wait_outcome_def)
    have "no_response (answer (at st) @ arrived env s e) q"
      if "s \<le> MODULE_TIMEOUT" "q \<le> length (answer (at st) @ arrived env s e)" "q \<le> MODULE_TIMEOUT - s" for s q
      using that w(5) None no_response_0 by (cases "q = 0") (auto simp: wait_outcome_def)
    then have out: "\<forall>s \<le> MODULE_TIMEOUT. \<forall>q \<le> length (answer (at st) @ arrived env s e). q \<le> MODULE_TIMEOUT - s \<longrightarrow>
        (\<forall>m \<in> set responses. \<not> suffix m (take q (answer (at st) @ arrived env s e)))"
      unfolding no_response_def by blast
    have st: "answering (h @ arrived env k e) ?st" "resp_idx (at ?st) = replicate 4 0" "same_rest st ?st" "answer (at ?st) = ?R"
      using w(2-4) by (simp_all add: same_rest_def)
    show ?thesis
      by (rule exI [of _ FAILURE], rule exI [of _ k], rule exI [of _ ?st]) (use ret k st out in blast)
  next
    case (Some j)
    let ?n = "length (responses ! j)" and ?ret = "if j < 2 then FAILURE else SUCCESS"
    let ?st = "st'\<lparr>at := (at st')\<lparr>result_len := result_len (at st') - of_nat ?n, resp_idx := replicate 4 0\<rparr>\<rparr>"
    obtain p where p: "k < MODULE_TIMEOUT" "unat (resp_idx (at st') ! j) = ?n" "found_first ?R 0 p j"
      using w(5) Some by (auto simp: wait_outcome_def)
    have ret: "wait_for_response callback env (st, e) = Some (?ret, (?st, later env k e))"
      unfolding wait_for_response_def w(1) using Some ucast_u8_u32 [OF p(2)] by (simp add: length_responses Let_def)
    have n: "?n \<le> length (answer (at st'))"
      using p(3) suffix_length_le [of "responses ! j" "take p ?R"] by (simp add: found_first_def w(3))
    have st: "answering (h @ arrived env k e) ?st" "answer (at ?st) = take (length ?R - ?n) ?R"
      using answer_cut [OF w(2) n] w(3) by simp_all
    have first: "\<forall>q < p. \<forall>m \<in> set responses. \<not> suffix m (take q ?R)"
      using p(3) no_response_0 [of ?R] unfolding found_first_def no_response_def by (metis gr0I)
    have "resp_idx (at ?st) = replicate 4 0" "same_rest st ?st" using w(4) by (simp_all add: same_rest_def)
    moreover have "j < 4" "p \<le> length ?R" "suffix (responses ! j) (take p ?R)" using p(3) by (simp_all add: found_first_def)
    ultimately show ?thesis
      by (intro exI [of _ ?ret] exI [of _ k] exI [of _ ?st] conjI disjI1 ret st(1) exI [of _ j] exI [of _ p])
        (use st(2) first p(1) in simp_all)
  qed
qed

definition mute :: "unit uart_env" where
  "mute = \<lparr>tx = (\<lambda>_ e. e), ms = (\<lambda>e. ([], e))\<rparr>"

lemma silent_mute: "silent mute"
  by (simp add: silent_def mute_def)

text \<open>A module that follows a script, the bytes of each millisecond, and is silent after it.\<close>

definition scripted :: "u8 list list uart_env" where
  "scripted = \<lparr>tx = (\<lambda>_ e. e), ms = (\<lambda>e. case e of [] \<Rightarrow> ([], []) | bs # e \<Rightarrow> (bs, e))\<rparr>"

lemma arrived_scripted: "arrived scripted k e = concat (take k e)"
proof (induction k arbitrary: e)
  case (Suc k)
  then show ?case by (cases e) (simp_all add: scripted_def)
qed simp

text \<open>The character X and, two milliseconds later, OK in two parts.\<close>

definition late_ok :: "u8 list list" where
  "late_ok = [[], [88], [], [13, 10, 79], [75, 13, 10]]"

theorem wait_for_response_first_witness:
  "\<exists>k st'. wait_for_response (\<lambda>ev k w. (None, w)) scripted
      ((demo_sys True)\<lparr>at := (at (demo_sys True))\<lparr>result_len := 0\<rparr>\<rparr>, late_ok) =
      Some (SUCCESS, (st', later scripted k late_ok)) \<and> answer (at st') = [88]"
proof -
  let ?st = "(demo_sys True)\<lparr>at := (at (demo_sys True))\<lparr>result_len := 0\<rparr>\<rparr>"
  have resp: "responses ! 2 = [13, 10, 79, 75, 13, 10]" "length (responses ! 0) = 9" "length (responses ! 1) = 8"
      "length (responses ! 3) = 11"
    unfolding responses_def bytes_of_def crlf_def by code_simp+
  have all: "concat (take (5 + n) late_ok) = [88, 13, 10, 79, 75, 13, 10]" for n by (simp add: late_ok_def)
  have arr: "arrived scripted MODULE_TIMEOUT late_ok = [88, 13, 10, 79, 75, 13, 10]"
    using all [of 19995] unfolding arrived_scripted by simp
  have empty: "answer (at ?st) = []" by (simp add: answer_def)
  have rep: "\<forall>j < 3. represents (async_msgs ! j) 0 []" "represents at_ipd 0 []"
    using messages_plain represents_start async_first(1) by simp_all
  have zero: "j < 3 \<Longrightarrow> [0, 0, 0 :: u8] ! j = 0" for j :: nat
    by (auto simp: less_Suc_eq numeral_3_eq_3)
  have no: "plain_answer [88, 13, 10, 79, 75, 13, 10]"
    unfolding plain_answer_def at_ipd_def async_msgs_def bytes_of_def crlf_def by code_simp
  have pre: "answering [] ?st" "resp_idx (at ?st) = replicate 4 0"
    using rep zero by (simp_all add: answering_def demo_sys_def numeral_eq_Suc)
  have pre': "plain_answer ([] @ arrived scripted MODULE_TIMEOUT late_ok)"
      "length (answer (at ?st) @ arrived scripted MODULE_TIMEOUT late_ok) \<le> RESULT_BUFF_LEN"
    unfolding arr empty using no by simp_all
  obtain ret k st' where w: "wait_for_response (\<lambda>ev k w. (None, w)) scripted (?st, late_ok) =
        Some (ret, (st', later scripted k late_ok))"
    and or: "(\<exists>j < 4. \<exists>p \<le> length (answer (at ?st) @ arrived scripted k late_ok). k < MODULE_TIMEOUT
          \<and> suffix (responses ! j) (take p (answer (at ?st) @ arrived scripted k late_ok))
          \<and> (\<forall>q < p. \<forall>m \<in> set responses. \<not> suffix m (take q (answer (at ?st) @ arrived scripted k late_ok)))
          \<and> ret = (if j < 2 then FAILURE else SUCCESS)
          \<and> answer (at st') = take (length (answer (at ?st) @ arrived scripted k late_ok) - length (responses ! j))
              (answer (at ?st) @ arrived scripted k late_ok))
      \<or> (k = MODULE_TIMEOUT \<and> ret = FAILURE \<and> answer (at st') = answer (at ?st) @ arrived scripted k late_ok
          \<and> (\<forall>s \<le> MODULE_TIMEOUT. \<forall>q \<le> length (answer (at ?st) @ arrived scripted s late_ok). q \<le> MODULE_TIMEOUT - s \<longrightarrow>
              (\<forall>m \<in> set responses. \<not> suffix m (take q (answer (at ?st) @ arrived scripted s late_ok)))))"
    using wait_for_response_first [OF pre pre', of "\<lambda>ev k w. (None, w)"] by blast
  from or show ?thesis
  proof (elim disjE exE conjE)
    fix j p
    assume j: "j < 4" "p \<le> length (answer (at ?st) @ arrived scripted k late_ok)"
      "suffix (responses ! j) (take p (answer (at ?st) @ arrived scripted k late_ok))"
      "ret = (if j < 2 then FAILURE else SUCCESS)"
      "answer (at st') = take (length (answer (at ?st) @ arrived scripted k late_ok) - length (responses ! j))
              (answer (at ?st) @ arrived scripted k late_ok)"
    let ?R = "concat (take k late_ok)"
    have R: "length (responses ! j) \<le> length ?R"
      using suffix_length_le [OF j(3)] unfolding empty arrived_scripted by simp
    have "prefix ?R [88, 13, 10, 79, 75, 13, 10]"
      using arrived_mono [of k "5 + k" scripted late_ok] all [of k] by (simp add: arrived_scripted)
    then have "length ?R \<le> 7" by (auto dest: prefix_length_le)
    moreover have "j = 0 \<or> j = 1 \<or> j = 2 \<or> j = 3" using j(1) by linarith
    ultimately have two: "j = 2" "6 \<le> length ?R" using R resp by auto
    have "5 \<le> k"
    proof (rule ccontr)
      assume "\<not> 5 \<le> k"
      then have "k = 0 \<or> k = 1 \<or> k = 2 \<or> k = 3 \<or> k = 4" by linarith
      then show False using two(2) by (auto simp: late_ok_def)
    qed
    then have "?R = [88, 13, 10, 79, 75, 13, 10]" using all [of "k - 5"] by simp
    then have "answer (at st') = [88]"
      using j(5) two(1) resp(1) unfolding empty arrived_scripted by simp
    moreover have "ret = SUCCESS" using j(4) two(1) by simp
    ultimately show ?thesis using w by blast
  next
    assume "\<forall>s \<le> MODULE_TIMEOUT. \<forall>q \<le> length (answer (at ?st) @ arrived scripted s late_ok). q \<le> MODULE_TIMEOUT - s \<longrightarrow>
              (\<forall>m \<in> set responses. \<not> suffix m (take q (answer (at ?st) @ arrived scripted s late_ok)))"
    then have "\<not> suffix m (take q (answer (at ?st) @ arrived scripted s late_ok))"
      if "s \<le> MODULE_TIMEOUT" "q \<le> length (answer (at ?st) @ arrived scripted s late_ok)" "q \<le> MODULE_TIMEOUT - s"
        "m \<in> set responses" for s q m using that by blast
    from this [of 5 7 "responses ! 2"] have "\<not> suffix (responses ! 2) (take 7 (answer (at ?st) @ arrived scripted 5 late_ok))"
      using all [of 0] length_responses unfolding empty arrived_scripted by simp
    then show ?thesis using all [of 0] resp(1) unfolding empty arrived_scripted by (simp add: suffix_def)
  qed
qed

section \<open>Timeouts\<close>

lemma do_while_never:
  assumes "silent env" "\<not> ready st"
  shows "\<exists>e'. do_while_timeout callback env ready t (st, e) = Some (0xFFFFFFFF, (st, e'))"
  using assms by (induction t arbitrary: e) (simp_all add: do_while_timeout.simps mdelay_silent)

lemma while_never:
  assumes "silent env" "\<not> ready st"
  shows "\<exists>e'. while_timeout callback env ready t (st, e) = Some (0xFFFFFFFF, (st, e'))"
  using assms by (induction t arbitrary: e) (simp_all add: mdelay_silent)

lemma build_cmd_plain:
  assumes "length (cmd_buff desc) = CMD_BUFF_LEN"
  shows "\<exists>buf n. build_cmd cmd AT_EXECUTE_OP None desc = Some (desc\<lparr>cmd_buff := buf, cmd_len := n\<rparr>) \<and> length buf = CMD_BUFF_LEN"
proof -
  have "length (fst (g_map cmd)) \<le> 10" by (cases cmd) simp_all
  then show ?thesis
    using assms by (auto simp: build_cmd_all cmd_text_def op_text_def put_all_def mem_write_def bytes_of_def crlf_def)
qed

text \<open>
  A module that does not answer a disconnect is taken to have disconnected: when nothing
  arrives, the wait ends with its counter wrapped round, the test for zero does not see it,
  and at_run_cmd reports success with the network still connected.
\<close>

theorem at_disconnect_timeout_succeeds:
  assumes "silent env" "is_wifi_connected (at st)" "errors (at st) = 0" "length (cmd_buff (at st)) = CMD_BUFF_LEN"
  shows "\<exists>st' e'. at_run_cmd callback env AT_DISCONNECT_NETWORK AT_EXECUTE_OP None (Some (st, e)) =
      Some (SUCCESS, None, Some (st', e')) \<and> is_wifi_connected (at st')"
proof -
  obtain buf n where b: "build_cmd AT_DISCONNECT_NETWORK AT_EXECUTE_OP None (at st) = Some ((at st)\<lparr>cmd_buff := buf, cmd_len := n\<rparr>)"
    using build_cmd_plain [OF assms(4)] by blast
  let ?st = "st\<lparr>at := (at st)\<lparr>cmd_buff := buf, cmd_len := n\<rparr>\<rparr>"
  obtain e' where "do_while_timeout callback env (\<lambda>st. \<not> is_wifi_connected (at st)) MODULE_TIMEOUT
      (uart_write env (cmd_bytes (?st, e)) (?st, e)) = Some (0xFFFFFFFF, (?st, e'))"
    using do_while_never [OF assms(1), of "\<lambda>st. \<not> is_wifi_connected (at st)" ?st callback MODULE_TIMEOUT] assms(2)
    by (auto simp: uart_write_def)
  then have "send_cmd callback env AT_DISCONNECT_NETWORK None (?st, e) = Some (SUCCESS, (?st, e'))"
    using assms(2) by (simp add: send_cmd_def uart_write_def)
  then show ?thesis
    using b assms(2,3) by (simp add: at_run_cmd_def run_cmd_def finish_cmd_def update_status_def IS_ERR_VALUE_def)
qed

theorem at_disconnect_timeout_succeeds_witness:
  "\<exists>st' e'. at_run_cmd (\<lambda>ev k w. (None, w)) mute AT_DISCONNECT_NETWORK AT_EXECUTE_OP None (Some (demo_sys True, ())) =
      Some (SUCCESS, None, Some (st', e')) \<and> is_wifi_connected (at st')"
  using at_disconnect_timeout_succeeds [OF silent_mute, of "demo_sys True"] by (simp add: demo_sys_def)

lemma wait_loop_silent:
  "silent env \<Longrightarrow> result_len (at st) = 0 \<Longrightarrow> \<exists>e'. wait_loop callback env t 0 (st, e) = Some (None, (st, e'))"
  by (induction t arbitrary: e) (simp_all add: mdelay_silent)

lemma wait_no_answer:
  assumes "silent env" "resp_idx (at st) = replicate 4 0" "result_len (at st) = 0"
  shows "\<exists>e'. wait_for_response callback env (st, e) = Some (FAILURE, (st, e'))"
proof -
  obtain e' where w: "wait_loop callback env MODULE_TIMEOUT 0 (st, e) = Some (None, (st, e'))"
    using wait_loop_silent [OF assms(1,3)] by blast
  have "(at st)\<lparr>resp_idx := replicate 4 0\<rparr> = at st" using assms(2) by (intro at_desc.equality) simp_all
  then show ?thesis unfolding wait_for_response_def w by (simp add: length_responses)
qed

text \<open>
  A reset leaves the parser reading a payload: handle_special sets READING_PAYLOAD where
  READING_RESPONSES is meant. When no connection is selected (as after every payload), the
  next byte the module sends makes the interrupt callback read the array of connections at
  index -1. (That the module never announced it was ready also goes unnoticed.)
\<close>

theorem at_reset_breaks_receiver:
  assumes "silent env" "length (cmd_buff (at st)) = CMD_BUFF_LEN" "resp_idx (at st) = replicate 4 0"
    "uart st = Req_ch" "current_conn (at st) = -1"
  shows "\<exists>st' e'. at_run_cmd callback env AT_RESET AT_EXECUTE_OP None (Some (st, e)) =
      Some (FAILURE, None, Some (st', e')) \<and> callback_operation (at st') = READING_PAYLOAD
    \<and> (\<forall>byte. uart_byte callback byte st' = None)"
proof -
  obtain buf n where b: "build_cmd AT_RESET AT_EXECUTE_OP None (at st) = Some ((at st)\<lparr>cmd_buff := buf, cmd_len := n\<rparr>)"
    using build_cmd_plain [OF assms(2)] by blast
  let ?st = "st\<lparr>at := (at st)\<lparr>cmd_buff := buf, cmd_len := n, callback_operation := RESETTING_MODULE\<rparr>\<rparr>"
  let ?st' = "?st\<lparr>at := (at ?st)\<lparr>callback_operation := READING_PAYLOAD, result_len := 0\<rparr>\<rparr>"
  have loop: "\<exists>e'. do_while_timeout callback env (\<lambda>st. callback_operation (at st) \<noteq> RESETTING_MODULE) MODULE_TIMEOUT
      (?st, e) = Some (0xFFFFFFFF, (?st, e'))" for e
    using do_while_never [OF assms(1), of "\<lambda>st. callback_operation (at st) \<noteq> RESETTING_MODULE" ?st] by simp
  have echo: "\<exists>e'. stop_echo callback env (?st', e) = Some (FAILURE, (?st', e'))" for e
  proof -
    obtain e' where "wait_for_response callback env (?st', tx env (bytes_of (''ATE0'' @ crlf)) e) = Some (FAILURE, (?st', e'))"
      using wait_no_answer [OF assms(1), of ?st' callback "tx env (bytes_of (''ATE0'' @ crlf)) e"] assms(3) by auto
    then show ?thesis by (simp add: stop_echo_def uart_write_def)
  qed
  let ?b = "(st\<lparr>at := (at st)\<lparr>cmd_buff := buf, cmd_len := n\<rparr>\<rparr>, e)"
  obtain e1 where e1: "do_while_timeout callback env (\<lambda>st. callback_operation (at st) \<noteq> RESETTING_MODULE) MODULE_TIMEOUT
      (uart_write env (cmd_bytes (set_op RESETTING_MODULE ?b)) (set_op RESETTING_MODULE ?b)) = Some (0xFFFFFFFF, (?st, e1))"
    using loop by (auto simp: uart_write_def set_op_def)
  obtain e2 where e2: "stop_echo callback env (?st', e1) = Some (FAILURE, (?st', e2))" using echo by blast
  have "clear_result (set_op READING_PAYLOAD (?st, e1)) = (?st', e1)" by (simp add: clear_result_def set_op_def)
  then have "handle_special callback env AT_RESET ?b = Some (FAILURE, (?st', e2))"
    using e1 e2 by (simp add: handle_special_def)
  then have "at_run_cmd callback env AT_RESET AT_EXECUTE_OP None (Some (st, e)) = Some (FAILURE, None, Some (?st', e2))"
    using b by (simp add: at_run_cmd_def run_cmd_def)
  moreover have "uart_byte callback byte ?st' = None" for byte
    using assms(4,5) by (simp add: uart_byte_def at_callback_def end_conn_read_def get_conn_def)
  moreover have "callback_operation (at ?st') = READING_PAYLOAD" by simp
  ultimately show ?thesis by blast
qed

theorem at_reset_breaks_receiver_witness:
  "\<exists>st' e'. at_run_cmd (\<lambda>ev k w. (None, w)) mute AT_RESET AT_EXECUTE_OP None (Some (demo_sys True, ())) =
      Some (FAILURE, None, Some (st', e')) \<and> (\<forall>byte. uart_byte (\<lambda>ev k w. (None, w)) byte st' = None)"
proof -
  have "replicate 4 0 = [0, 0, 0, 0 :: u8]" by code_simp
  then show ?thesis
    using at_reset_breaks_receiver [OF silent_mute, of "demo_sys True" "\<lambda>ev k w. (None, w)" "()"]
    by (auto simp: demo_sys_def)
qed

end
