(* ===== verification/At_Client.thy ===== *)
theory At_Client
  imports At_Commands
begin

text \<open>
  The interface between the AT parser and the application behind it. The parser changes the
  state of the application only by calling the connection callback, from interrupts that are
  taken while a command waits. The locale \<open>conn_client\<close> states what the application promises
  (its callback keeps an invariant for the ids of connections that exist); the lemmas show
  that every byte received, every wait and every command then keeps it.
\<close>

section \<open>Postconditions of operations that may be undefined\<close>

text \<open>\<open>post Q m\<close>: if \<open>m\<close> returns, its result satisfies \<open>Q\<close>.\<close>

definition post :: "('a \<Rightarrow> bool) \<Rightarrow> 'a option \<Rightarrow> bool" where
  "post Q m \<longleftrightarrow> (\<forall>x. m = Some x \<longrightarrow> Q x)"

named_theorems post_intro

lemma post_Some [post_intro]: "Q x \<Longrightarrow> post Q (Some x)"
  by (simp add: post_def)

lemma post_None [post_intro, simp]: "post Q None"
  by (simp add: post_def)

lemma post_bind: "post R m \<Longrightarrow> (\<And>x. R x \<Longrightarrow> post Q (f x)) \<Longrightarrow> post Q (Option.bind m f)"
  by (auto simp: post_def split: Option.bind_splits)

lemma post_bind_any: "(\<And>x. m = Some x \<Longrightarrow> post Q (f x)) \<Longrightarrow> post Q (Option.bind m f)"
  by (auto simp: post_def split: Option.bind_splits)

lemma post_guard [post_intro]: "(b \<Longrightarrow> post Q (f ())) \<Longrightarrow> post Q (Option.bind (guard b) f)"
  by (cases b) (simp_all add: post_def)

lemma post_if [post_intro]: "(b \<Longrightarrow> post Q m) \<Longrightarrow> (\<not> b \<Longrightarrow> post Q n) \<Longrightarrow> post Q (if b then m else n)"
  by simp

lemma post_option [post_intro]:
  "(x = None \<Longrightarrow> post Q n) \<Longrightarrow> (\<And>y. x = Some y \<Longrightarrow> post Q (f y)) \<Longrightarrow> post Q (case x of None \<Rightarrow> n | Some y \<Rightarrow> f y)"
  by (cases x) auto

lemma post_map: "post (\<lambda>x. Q (f x)) m \<Longrightarrow> post Q (map_option f m)"
  by (auto simp: post_def)

lemma post_any: "post (\<lambda>x. m = Some x) m"
  by (simp add: post_def)

lemma post_mono: "post R m \<Longrightarrow> (\<And>x. R x \<Longrightarrow> Q x) \<Longrightarrow> post Q m"
  by (auto simp: post_def)

lemma postD: "post Q m \<Longrightarrow> m = Some x \<Longrightarrow> Q x"
  by (simp add: post_def)

section \<open>The interface\<close>

text \<open>The application's invariant, and the array of connections with its size.\<close>

definition app_ok :: "('w \<Rightarrow> bool) \<Rightarrow> 'w at_sys \<Rightarrow> bool" where
  "app_ok P st \<longleftrightarrow> P (app st) \<and> length (conn (at st)) = MAX_CONNECTIONS"

lemma app_okI: "P (app st) \<Longrightarrow> length (conn (at st)) = 4 \<Longrightarrow> app_ok P st"
  by (simp add: app_ok_def)

lemma app_ok_at: "app_ok P st \<Longrightarrow> length (conn d) = length (conn (at st)) \<Longrightarrow> app_ok P (st\<lparr>at := d\<rparr>)"
  by (simp add: app_ok_def)

lemma app_ok_fields [simp]:
  "app_ok P (st\<lparr>uart := u\<rparr>) = app_ok P st" "app_ok P (st\<lparr>bufs := h\<rparr>) = app_ok P st"
  by (simp_all add: app_ok_def)

lemma is_payload_message_conn: "post (\<lambda>(r, d'). length (conn d') = length (conn d)) (is_payload_message d ch)"
  unfolding is_payload_message_def
  by (auto simp: post_def ipd_reset_def Let_def split: if_splits ipd_status.splits Option.bind_splits prod.splits)

lemma store_result_conn: "post (\<lambda>d'. length (conn d') = length (conn d)) (store_result ch d)"
  by (auto simp: store_result_def post_def split: Option.bind_splits)

lemma get_conn_range: "get_conn d = Some c \<Longrightarrow> 0 \<le> current_conn d \<and> nat (current_conn d) < length (conn d)"
  by (auto simp: get_conn_def split: Option.bind_splits)

lemma end_conn_read_app: "app_ok P st \<Longrightarrow> post (app_ok P) (end_conn_read st)"
  by (auto simp: end_conn_read_def post_def split: Option.bind_splits option.splits)

lemma conn_digit: "48 \<le> uint c \<Longrightarrow> uint c < 52 \<Longrightarrow> unat (ucast (c :: u8) - 48 :: u32) < 4"
proof -
  assume "48 \<le> uint c" "uint c < 52"
  then have c: "48 \<le> unat c" "unat c < 52" using uint_nat [of c] by linarith+
  have "(ucast c :: u32) - 48 = of_nat (unat c) - of_nat 48" by simp
  also have "\<dots> = of_nat (unat c - 48)" using c(1) by (simp only: of_nat_diff)
  finally show ?thesis using c by (simp add: unat_of_nat_u32 del: of_nat_diff)
qed

text \<open>Writing the command touches no connection.\<close>

lemma put_ch_conn: "conn d = c \<Longrightarrow> post (\<lambda>d'. conn d' = c) (put_ch b d)"
  by (auto simp: put_ch_def intro!: post_intro)

lemma put_bytes_conn: "conn d = c \<Longrightarrow> post (\<lambda>d'. conn d' = c) (put_bytes bs d)"
  by (induction bs arbitrary: d) (auto intro!: post_intro post_bind [OF put_ch_conn])

lemma put_escaped_conn: "conn d = c \<Longrightarrow> post (\<lambda>d'. conn d' = c) (put_escaped s d)"
  by (induction s arbitrary: d) (auto intro!: post_intro post_bind [OF put_ch_conn])

lemma put_arg_conn: "conn d = c \<Longrightarrow> post (\<lambda>d'. conn d' = c) (put_arg a d)"
  by (cases a) (auto intro!: put_bytes_conn put_ch_conn post_bind [OF put_ch_conn] post_bind [OF put_escaped_conn])

lemma set_params_conn: "conn d = c \<Longrightarrow> post (\<lambda>d'. conn d' = c) (set_params as d)"
  by (induction "as" arbitrary: d) (auto intro!: post_intro post_bind [OF put_ch_conn] post_bind [OF put_arg_conn])

lemma concat_cmd_param_conn: "conn d = c \<Longrightarrow> post (\<lambda>d'. conn d' = c) (concat_cmd_param cmd p d)"
  by (auto simp: concat_cmd_param_def intro!: post_bind_any set_params_conn)

lemma build_cmd_conn: "conn d = c \<Longrightarrow> post (\<lambda>d'. conn d' = c) (build_cmd cmd op param d)"
  unfolding build_cmd_def Let_def
  by (cases op; cases param)
    (auto intro!: post_bind [OF put_bytes_conn] post_bind [OF concat_cmd_param_conn] put_bytes_conn)

lemma parse_result_conn: "post (\<lambda>(r, d'). conn d' = conn d) (parse_result d)"
  by (auto simp: parse_result_def intro!: post_intro post_bind_any)

lemma update_status_conn: "post (\<lambda>d'. length (conn d') = length (conn d)) (update_status cmd op param d)"
proof -
  have "post (\<lambda>d'. conn d' = conn d)
      (if cmd = AT_SET_CONNECTION_TYPE
       then (case param of Some (In_conn_type t) \<Rightarrow> Some (d\<lparr>multiple_conections := (t \<noteq> SINGLE_CONNECTION)\<rparr>) | _ \<Rightarrow> None)
       else Some d)"
    by (auto intro!: post_intro split: option.split in_param.split)
  then show ?thesis
    unfolding update_status_def
    by (rule post_bind) (auto simp: Let_def intro!: post_intro split: option.split in_param.split)
qed

lemma finish_cmd_conn: "post (\<lambda>(r, out, d'). length (conn d') = length (conn d)) (finish_cmd cmd op param d)"
proof -
  have parse: "post (\<lambda>(out, d'). conn d' = conn d)
      (case param of Some _ \<Rightarrow> map_option (\<lambda>(r, d). (Some r, d)) (parse_result d) | None \<Rightarrow> Some (None, d\<lparr>result_len := 0\<rparr>))" for d
    by (auto intro!: post_intro post_map post_mono [OF parse_result_conn] split: option.split)
  show ?thesis
    unfolding finish_cmd_def
    by (intro post_bind [OF update_status_conn] post_bind [OF parse]) (auto intro!: post_intro)
qed

locale conn_client =
  fixes callback :: "'w conn_callback" and P :: "'w \<Rightarrow> bool"
  assumes keeps: "P w \<Longrightarrow> unat k < MAX_CONNECTIONS \<Longrightarrow> P (snd (callback ev k w))"
begin

lemma keeps_int: "P w \<Longrightarrow> 0 \<le> i \<Longrightarrow> i < 4 \<Longrightarrow> P (snd (callback ev (of_int i) w))"
proof -
  assume "P w" "0 \<le> i" "i < 4"
  moreover from this have "i = 0 \<or> i = 1 \<or> i = 2 \<or> i = 3" by auto
  then have "unat (of_int i :: u32) < MAX_CONNECTIONS" by auto
  ultimately show ?thesis using keeps by blast
qed

lemma check_conn_id_keeps: "app_ok P st \<Longrightarrow> post (\<lambda>(r, st'). app_ok P st') (check_conn_id callback msg i st)"
  by (auto simp: check_conn_id_def app_ok_def post_def Let_def case_prod_unfold conn_digit intro!: keeps
      split: Option.bind_splits if_splits)

lemma is_async_messages_keeps: "app_ok P st \<Longrightarrow> post (\<lambda>(r, st'). app_ok P st') (is_async_messages callback ch st)"
  unfolding is_async_messages_def Let_def
  by (rule post_bind_any)
    (auto intro!: post_bind [OF check_conn_id_keeps] post_intro simp: app_ok_at split: prod.split)

lemma start_conn_read_keeps: "app_ok P st \<Longrightarrow> post (app_ok P) (start_conn_read callback new st)"
  using keeps_int [of "app st" "current_conn (at st)" AT_NEW_CONNECTION] get_conn_range [of "at st"]
  by (auto simp: start_conn_read_def app_ok_def post_def Let_def case_prod_unfold
      split: Option.bind_splits if_splits option.splits)

lemma at_callback_keeps: "app_ok P st \<Longrightarrow> post (app_ok P) (at_callback callback ev st)"
  unfolding at_callback_def Let_def
  by (auto intro!: post_intro post_bind [OF end_conn_read_app] post_bind [OF post_any [of "get_conn d" for d]]
      post_bind [OF post_any [of "match_message msg i c" for msg i c]] start_conn_read_keeps app_ok_at
      post_bind [OF is_async_messages_keeps] post_bind [OF is_payload_message_conn] post_bind [OF store_result_conn]
      split: uart_event.split prod.split)

lemma uart_byte_keeps: "app_ok P st \<Longrightarrow> post (app_ok P) (uart_byte callback b st)"
  unfolding uart_byte_def Let_def
  by (auto intro!: post_intro post_bind [OF post_any [of "cells h a" for h a]]
      post_bind [OF post_any [of "mem_write x y z" for x y z]] at_callback_keeps app_ok_at split: uart_request.split)

lemma uart_bytes_keeps: "app_ok P st \<Longrightarrow> post (app_ok P) (uart_bytes callback bs st)"
  by (induction bs arbitrary: st) (auto intro: post_intro post_bind [OF uart_byte_keeps])

abbreviation board_ok :: "'w at_sys \<times> 'e \<Rightarrow> bool" where
  "board_ok b \<equiv> app_ok P (fst b)"

lemma mdelay_keeps: "board_ok b \<Longrightarrow> post board_ok (mdelay1 callback env b)"
  unfolding mdelay1_def by (auto intro!: post_map uart_bytes_keeps split: prod.split)

lemma wait_loop_keeps: "board_ok b \<Longrightarrow> post (\<lambda>(r, b'). board_ok b') (wait_loop callback env t i b)"
proof (induction t arbitrary: i b)
  case (Suc t)
  show ?case
  proof (cases b)
    case (Pair st e)
    have "post (\<lambda>(j, i, st'). app_ok P st')
       (if i < unat (result_len (at st)) then do {
          guard (i < length (result_buff (at st)));
          (j, ixs) \<leftarrow> match_loop responses [0..<length responses] (result_buff (at st) ! i) (resp_idx (at st));
          Some (j, Suc i, st\<lparr>at := (at st)\<lparr>resp_idx := ixs\<rparr>\<rparr>)}
        else Some (length responses, i, st))"
      using Suc.prems Pair
      by (auto intro!: post_intro post_bind [OF post_any [of "match_loop a b c d" for a b c d]] app_ok_at)
    then show ?thesis
      unfolding Pair wait_loop.simps
      by (rule post_bind) (auto intro!: post_intro post_bind [OF mdelay_keeps] Suc.IH)
  qed
qed (auto intro: post_intro)

lemma wait_for_response_keeps: "board_ok b \<Longrightarrow> post (\<lambda>(r, b'). board_ok b') (wait_for_response callback env b)"
  unfolding wait_for_response_def Let_def
  by (rule post_bind [OF wait_loop_keeps]) (auto intro!: post_intro app_ok_at split: option.split)

lemma while_timeout_keeps: "board_ok b \<Longrightarrow> post (\<lambda>(r, b'). board_ok b') (while_timeout callback env ready t b)"
  by (induction t arbitrary: b) (auto intro!: post_intro post_bind [OF mdelay_keeps])

lemma do_while_timeout_keeps: "board_ok b \<Longrightarrow> post (\<lambda>(r, b'). board_ok b') (do_while_timeout callback env ready t b)"
proof (induction t arbitrary: b)
  case 0
  then show ?case by (subst do_while_timeout.simps) (auto intro!: post_intro post_bind [OF mdelay_keeps])
next
  case (Suc t)
  then show ?case by (subst do_while_timeout.simps) (auto intro!: post_intro post_bind [OF mdelay_keeps])
qed

lemma board_ok_ops [simp]:
  "board_ok (uart_write env bs b) = board_ok b" "board_ok (set_op c b) = board_ok b"
  "board_ok (clear_result b) = board_ok b"
  by (simp_all add: uart_write_def set_op_def clear_result_def app_ok_def)

lemma send_cmd_keeps: "board_ok b \<Longrightarrow> post (\<lambda>(r, b'). board_ok b') (send_cmd callback env cmd param b)"
  unfolding send_cmd_def Let_def
  by (auto intro!: post_intro post_bind [OF wait_for_response_keeps] post_bind [OF while_timeout_keeps]
      post_bind [OF do_while_timeout_keeps] wait_for_response_keeps split: option.split in_param.split)

lemma stop_echo_keeps: "board_ok b \<Longrightarrow> post (\<lambda>(r, b'). board_ok b') (stop_echo callback env b)"
  unfolding stop_echo_def by (auto intro!: post_intro post_bind [OF wait_for_response_keeps])

lemma run_cmd_keeps:
  assumes "board_ok b" "\<And>cmd b. board_ok b \<Longrightarrow> post (\<lambda>(r, b'). board_ok b') (special cmd b)"
  shows "post (\<lambda>(r, out, b'). board_ok b') (run_cmd special callback env cmd op param b)"
proof -
  have build: "board_ok ((fst b)\<lparr>at := d\<rparr>, snd b)" if "conn d = conn (at (fst b))" for d
    using assms(1) that by (simp add: app_ok_at)
  show ?thesis
    unfolding run_cmd_def Let_def
    by (auto intro!: post_intro assms post_bind [OF build_cmd_conn [OF refl]] build
        post_bind [OF send_cmd_keeps] post_bind [OF assms(2)] post_bind [OF finish_cmd_conn] app_ok_at)
qed

lemma handle_special_keeps: "board_ok b \<Longrightarrow> post (\<lambda>(r, b'). board_ok b') (handle_special callback env cmd b)"
  unfolding handle_special_def Let_def
  by (auto intro!: post_intro post_bind [OF do_while_timeout_keeps] post_bind [OF stop_echo_keeps]
      post_bind [OF run_cmd_keeps])

lemma at_run_cmd_keeps:
  "board_ok b \<Longrightarrow> post (\<lambda>(r, out, b'). \<exists>c. b' = Some c \<and> board_ok c) (at_run_cmd callback env cmd op param (Some b))"
  unfolding at_run_cmd_def
  by (auto simp del: split_paired_Ex intro!: post_intro post_map post_mono [OF run_cmd_keeps] handle_special_keeps)

lemma at_init_keeps:
  assumes "P w"
  shows "post (\<lambda>(r, d). \<forall>b. d = Some b \<longrightarrow> board_ok b)
    (at_init callback env args_ok alloc_ok reg_ok en_ok res0 conn0 w hp e)"
proof -
  have zero: "board_ok (\<lparr>at = at_zero, app = w, bufs = hp, uart = Req_ch\<rparr>, e)"
    using assms by (simp add: app_ok_def at_zero_def)
  show ?thesis
    unfolding at_init_def Let_def
    by (auto intro!: post_intro post_bind [OF stop_echo_keeps] zero post_bind [OF run_cmd_keeps] handle_special_keeps
        post_bind [OF post_any [of "at_to_str t x" for t x]]
        post_bind [OF post_any [of "r :: (u8 list \<times> string) option" for r]] app_ok_at)
qed

end

end
