(* ===== verification/Wifi.thy ===== *)
theory Wifi
  imports At_Client
begin

text \<open>
  network/wifi/wifi.c: sockets over the connections of the WiFi module. Five socket
  structures share the four connections of the module; one of them can be a server, whose
  clients are sockets opened in advance. The descriptor is the context of the connection
  callback, so it is the application state of the AT parser: the callback changes it from
  interrupts taken inside every command.

  Descriptors and output pointers are not NULL (the network interface passes its own).
  Circular buffers are addresses of the heap the parser writes to. The error tests of
  wifi_socket_connect, wifi_socket_disconnect and wifi_socket_send are on unsigned variables
  and never hold, so these functions go on whatever at_run_cmd returned.
\<close>

section \<open>Data\<close>

definition INVALID_ID :: u32 where [simp]: "INVALID_ID = 0xffffffff"
definition NB_SOCKETS :: nat where [simp]: "NB_SOCKETS = MAX_CONNECTIONS + 1"
definition NB_CLI_SOCKETS :: nat where [simp]: "NB_CLI_SOCKETS = MAX_CONNECTIONS"
definition MAX_CIPSEND_DATA :: nat where [simp]: "MAX_CIPSEND_DATA = 2048"

datatype socket_protocol = PROTOCOL_TCP | PROTOCOL_UDP

datatype socket_state = SOCKET_UNUSED | SOCKET_WAITING_ACCEPT | SOCKET_DISCONNECTED
  | SOCKET_CONNECTED | SOCKET_LISTENING

record socket_address =
  sa_addr :: string
  sa_port :: u16

record socket_desc =
  cb :: "nat option"
  sock_cb_size :: u32
  sock_type :: socket_protocol
  conn_id :: u32
  sock_state :: socket_state

record server_desc =
  server_id :: u32
  srv_port :: u16
  client_ids :: "u32 list"
  back_log_clients :: u32

record wifi_desc =
  sockets :: "socket_desc list"
  server :: server_desc
  conn_id_to_sock_id :: "u32 list"

type_synonym 'e wifi_board = "(wifi_desc, 'e) board"

definition wifi_of :: "'e wifi_board \<Rightarrow> wifi_desc" where "wifi_of b = app (fst b)"

definition set_wifi :: "wifi_desc \<Rightarrow> 'e wifi_board \<Rightarrow> 'e wifi_board" where
  "set_wifi w b = ((fst b)\<lparr>app := w\<rparr>, snd b)"

definition set_heap :: "circular_buffer heap \<Rightarrow> 'e wifi_board \<Rightarrow> 'e wifi_board" where
  "set_heap h b = ((fst b)\<lparr>bufs := h\<rparr>, snd b)"

definition sock :: "u32 \<Rightarrow> wifi_desc \<Rightarrow> socket_desc" where
  "sock i w = sockets w ! unat i"

definition put_sock :: "u32 \<Rightarrow> (socket_desc \<Rightarrow> socket_desc) \<Rightarrow> wifi_desc \<Rightarrow> wifi_desc" where
  "put_sock i f w = w\<lparr>sockets := (sockets w)[unat i := f (sock i w)]\<rparr>"

definition put_server :: "(server_desc \<Rightarrow> server_desc) \<Rightarrow> wifi_desc \<Rightarrow> wifi_desc" where
  "put_server f w = w\<lparr>server := f (server w)\<rparr>"

section \<open>Circular buffers by address\<close>

text \<open>cb_init through the pointer variable \<open>slot\<close>: descriptor first, then its bytes.\<close>

definition cb_new :: "u32 \<Rightarrow> nat option \<Rightarrow> circular_buffer heap \<Rightarrow> int \<times> nat option \<times> circular_buffer heap" where
  "cb_new sz slot h =
     (if sz = 0 then (- EINVAL, slot, h)
      else (case calloc \<lparr>cb_size_field = sz, cb_buff = replicate (unat sz) 0,
                         cb_write_ptr = cb_ptr_zero, cb_read_ptr = cb_ptr_zero\<rparr> h of
          (None, h) \<Rightarrow> (- ENOMEM, slot, h)
        | (Some a, h) \<Rightarrow>
            if oom h (brk h)
            then (- ENOMEM, Some a, h\<lparr>cells := (cells h)(a := None), brk := Suc (brk h)\<rparr>)
            else (SUCCESS, Some a, h\<lparr>brk := Suc (brk h)\<rparr>)))"

definition cb_free :: "nat option \<Rightarrow> circular_buffer heap \<Rightarrow> (int \<times> circular_buffer heap) option" where
  "cb_free p h = (case p of
     None \<Rightarrow> Some (FAILURE, h)
   | Some a \<Rightarrow> map_option (\<lambda>h. (SUCCESS, h)) (cfree a h))"

section \<open>Sockets and connections\<close>

definition wifi_get_unused_socket :: "wifi_desc \<Rightarrow> int \<times> u32 \<times> wifi_desc" where
  "wifi_get_unused_socket w =
     (case find (\<lambda>i. sock_state (sockets w ! i) = SOCKET_UNUSED) [0..<NB_SOCKETS] of
        Some i \<Rightarrow> (SUCCESS, of_nat i, put_sock (of_nat i) (\<lambda>s. s\<lparr>sock_state := SOCKET_DISCONNECTED\<rparr>) w)
      | None \<Rightarrow> (- EMLINK, 0, w))"

definition wifi_release_socket :: "u32 \<Rightarrow> wifi_desc \<Rightarrow> wifi_desc" where
  "wifi_release_socket i w = put_sock i (\<lambda>s. s\<lparr>sock_state := SOCKET_UNUSED\<rparr>) w"

definition wifi_get_unused_conn :: "u32 \<Rightarrow> wifi_desc \<Rightarrow> int \<times> wifi_desc" where
  "wifi_get_unused_conn sock_id w =
     (case find (\<lambda>i. conn_id_to_sock_id w ! i = INVALID_ID) [0..<NB_CLI_SOCKETS] of
        Some i \<Rightarrow> (SUCCESS, put_sock sock_id (\<lambda>s. s\<lparr>conn_id := of_nat i\<rparr>)
                    (w\<lparr>conn_id_to_sock_id := (conn_id_to_sock_id w)[i := sock_id]\<rparr>))
      | None \<Rightarrow> (- EMLINK, w))"

definition wifi_release_conn :: "u32 \<Rightarrow> wifi_desc \<Rightarrow> wifi_desc" where
  "wifi_release_conn sock_id w =
     (let c = conn_id (sock sock_id w) in
      if c \<noteq> INVALID_ID
      then (put_sock sock_id (\<lambda>s. s\<lparr>conn_id := INVALID_ID\<rparr>) w)
             \<lparr>conn_id_to_sock_id := (conn_id_to_sock_id w)[unat c := INVALID_ID]\<rparr>
      else w)"

definition get_initialized_client_id :: "wifi_desc \<Rightarrow> u32 \<times> wifi_desc" where
  "get_initialized_client_id w =
     (case find (\<lambda>i. sock_state (sock i w) = SOCKET_DISCONNECTED)
             (take (unat (back_log_clients (server w))) (client_ids (server w))) of
        Some i \<Rightarrow> (i, put_sock i (\<lambda>s. s\<lparr>sock_state := SOCKET_WAITING_ACCEPT\<rparr>) w)
      | None \<Rightarrow> (INVALID_ID, w))"

definition wifi_connection_callback :: "wifi_desc conn_callback" where
  "wifi_connection_callback event k w =
     (let sock_id = conn_id_to_sock_id w ! unat k in
      case event of
        AT_NEW_CONNECTION \<Rightarrow>
          if sock_id \<noteq> INVALID_ID then (cb (sock sock_id w), w)
          else (case get_initialized_client_id w of
            (i, w) \<Rightarrow>
              if i = INVALID_ID then (None, w)
              else let w = put_sock i (\<lambda>s. s\<lparr>conn_id := k, sock_state := SOCKET_WAITING_ACCEPT\<rparr>)
                           (w\<lparr>conn_id_to_sock_id := (conn_id_to_sock_id w)[unat k := i]\<rparr>)
                   in (cb (sock i w), w))
      | AT_CLOSED_CONNECTION \<Rightarrow>
          if sock_id \<noteq> INVALID_ID
          then (None, wifi_release_conn sock_id (put_sock sock_id (\<lambda>s. s\<lparr>sock_state := SOCKET_DISCONNECTED\<rparr>) w))
          else (None, w))"

text \<open>A command through the parser, with the callback of this module.\<close>

definition wifi_cmd :: "'e uart_env \<Rightarrow> at_cmd \<Rightarrow> cmd_operation \<Rightarrow> in_param option \<Rightarrow> 'e wifi_board \<Rightarrow>
    (int \<times> u8 list option \<times> 'e wifi_board) option" where
  "wifi_cmd env cmd op param b = do {
     (ret, out, b) \<leftarrow> at_run_cmd wifi_connection_callback env cmd op param (Some b);
     b \<leftarrow> b;
     Some (ret, out, b)}"

section \<open>The network interface\<close>

definition wifi_socket_open :: "socket_protocol \<Rightarrow> u32 \<Rightarrow> 'e wifi_board \<Rightarrow> int \<times> u32 \<times> 'e wifi_board" where
  "wifi_socket_open proto buff_size b =
     (case wifi_get_unused_socket (wifi_of b) of
        (ret, i, w) \<Rightarrow>
          if IS_ERR_VALUE ret then (ret, 0, b)
          else (case cb_new buff_size (cb (sock i w)) (bufs (fst b)) of
            (ret, p, h) \<Rightarrow>
              let w = put_sock i (\<lambda>s. s\<lparr>cb := p\<rparr>) w in
              if IS_ERR_VALUE ret then (ret, 0, set_wifi (wifi_release_socket i w) (set_heap h b))
              else (SUCCESS, i, set_wifi
                     (put_sock i (\<lambda>s. s\<lparr>sock_type := proto, sock_cb_size := buff_size\<rparr>) w) (set_heap h b))))"

definition is_server_socket :: "wifi_desc \<Rightarrow> u32 \<Rightarrow> bool" where
  "is_server_socket w sock_id \<longleftrightarrow> sock_id \<in> set (take (unat (back_log_clients (server w))) (client_ids (server w)))"

text \<open>
  Disconnecting and closing call each other: closing disconnects, disconnecting the server
  closes its clients. The removal of the clients is a parameter here; for a client it is never
  reached (were the server its own client, the recursion would not end: \<open>None\<close>).
\<close>

definition socket_disconnect_with :: "('e wifi_board \<Rightarrow> 'e wifi_board option) \<Rightarrow> 'e uart_env \<Rightarrow> u32 \<Rightarrow>
    'e wifi_board \<Rightarrow> (int \<times> 'e wifi_board) option" where
  "socket_disconnect_with back_log env sock_id b =
     (if unat sock_id \<ge> NB_SOCKETS then Some (FAILURE, b)
      else if sock_state (sock sock_id (wifi_of b)) = SOCKET_UNUSED then Some (- ENOENT, b)
      else if sock_state (sock sock_id (wifi_of b)) = SOCKET_DISCONNECTED then Some (SUCCESS, b)
      else do {
        b \<leftarrow> (if sock_id = server_id (server (wifi_of b)) then do {
            (_, _, b) \<leftarrow> wifi_cmd env AT_SET_SERVER AT_SET_OP
              (Some (In_server \<lparr>server_act = DELETE_SERVER, server_port = 0\<rparr>)) b;
            b \<leftarrow> back_log b;
            Some (set_wifi (put_server (\<lambda>s. s\<lparr>server_id := INVALID_ID\<rparr>) (wifi_of b)) b)}
          else do {
            (_, _, b) \<leftarrow> wifi_cmd env AT_STOP_CONNECTION AT_SET_OP
              (Some (In_conn_id (conn_id (sock sock_id (wifi_of b))))) b;
            Some (set_wifi (wifi_release_conn sock_id (wifi_of b)) b)});
        Some (SUCCESS, set_wifi (put_sock sock_id (\<lambda>s. s\<lparr>sock_state := SOCKET_DISCONNECTED\<rparr>) (wifi_of b)) b)})"

text \<open>The buffers of the clients, freed when a closed socket is both a client and the server.\<close>

fun free_clients :: "u32 list \<Rightarrow> 'e wifi_board \<Rightarrow> 'e wifi_board option" where
  "free_clients [] b = Some b"
| "free_clients (i # is) b = do {
     (_, h) \<leftarrow> cb_free (cb (sock i (wifi_of b))) (bufs (fst b));
     free_clients is (set_wifi (wifi_release_socket i (wifi_of b)) (set_heap h b))}"

definition clients :: "wifi_desc \<Rightarrow> u32 list" where
  "clients w = take (unat (back_log_clients (server w))) (client_ids (server w))"

definition socket_close_with :: "('e wifi_board \<Rightarrow> 'e wifi_board option) \<Rightarrow> 'e uart_env \<Rightarrow> u32 \<Rightarrow>
    'e wifi_board \<Rightarrow> (int \<times> 'e wifi_board) option" where
  "socket_close_with back_log env sock_id b =
     (if unat sock_id \<ge> NB_SOCKETS then Some (FAILURE, b)
      else if sock_state (sock sock_id (wifi_of b)) = SOCKET_UNUSED then Some (SUCCESS, b)
      else do {
        (ret, b) \<leftarrow> socket_disconnect_with back_log env sock_id b;
        if IS_ERR_VALUE ret then Some (ret, b)
        else do {
          b \<leftarrow> (if \<not> is_server_socket (wifi_of b) sock_id then do {
              (_, h) \<leftarrow> cb_free (cb (sock sock_id (wifi_of b))) (bufs (fst b));
              Some (set_wifi (put_sock sock_id (\<lambda>s. s\<lparr>cb := None\<rparr>) (wifi_of b)) (set_heap h b))}
            else if sock_id = server_id (server (wifi_of b)) then free_clients (clients (wifi_of b)) b
            else Some b);
          Some (SUCCESS, set_wifi (wifi_release_socket sock_id (wifi_of b)) b)}})"

fun back_log_loop :: "'e uart_env \<Rightarrow> nat list \<Rightarrow> 'e wifi_board \<Rightarrow> 'e wifi_board option" where
  "back_log_loop env [] b = Some b"
| "back_log_loop env (i # is) b =
     (if i < unat (back_log_clients (server (wifi_of b))) then do {
        let ident = client_ids (server (wifi_of b)) ! i;
        (_, h) \<leftarrow> cb_free (cb (sock ident (wifi_of b))) (bufs (fst b));
        (_, b) \<leftarrow> socket_close_with (\<lambda>_. None) env ident (set_heap h b);
        back_log_loop env is b}
      else Some b)"

definition remove_server_back_log :: "'e uart_env \<Rightarrow> 'e wifi_board \<Rightarrow> 'e wifi_board option" where
  "remove_server_back_log env b = back_log_loop env [0..<NB_CLI_SOCKETS] b"

definition wifi_socket_disconnect :: "'e uart_env \<Rightarrow> u32 \<Rightarrow> 'e wifi_board \<Rightarrow> (int \<times> 'e wifi_board) option" where
  "wifi_socket_disconnect env = socket_disconnect_with (remove_server_back_log env) env"

definition wifi_socket_close :: "'e uart_env \<Rightarrow> u32 \<Rightarrow> 'e wifi_board \<Rightarrow> (int \<times> 'e wifi_board) option" where
  "wifi_socket_close env = socket_close_with (remove_server_back_log env) env"

text \<open>
  \<open>junk\<close> holds the fields of the parameter the function does not set, which are used for UDP
  sockets only.
\<close>

definition wifi_socket_connect :: "'e uart_env \<Rightarrow> u16 \<times> udp_mode_t \<Rightarrow> u32 \<Rightarrow> socket_address \<Rightarrow>
    'e wifi_board \<Rightarrow> (int \<times> 'e wifi_board) option" where
  "wifi_socket_connect env junk sock_id ad b =
     (if unat sock_id \<ge> NB_SOCKETS \<or> sock_id = server_id (server (wifi_of b)) then Some (FAILURE, b)
      else if sock_state (sock sock_id (wifi_of b)) = SOCKET_UNUSED then Some (- ENOENT, b)
      else if sock_state (sock sock_id (wifi_of b)) = SOCKET_CONNECTED then Some (- EISCONN, b)
      else do {
        let w = snd (wifi_get_unused_conn sock_id (wifi_of b));
        let s = sock sock_id w;
        let param = \<lparr>start_id = conn_id s,
          soket_type = (case sock_type s of PROTOCOL_TCP \<Rightarrow> SOCKET_TCP | PROTOCOL_UDP \<Rightarrow> SOCKET_UDP),
          addr = bytes_of (sa_addr ad), port = sa_port ad, local_port = fst junk, udp_mode = snd junk\<rparr>;
        (_, _, b) \<leftarrow> wifi_cmd env AT_START_CONNECTION AT_SET_OP (Some (In_connection param)) (set_wifi w b);
        Some (SUCCESS, set_wifi (put_sock sock_id (\<lambda>s. s\<lparr>sock_state := SOCKET_CONNECTED\<rparr>) (wifi_of b)) b)})"

text \<open>
  wifi_socket_send does not set the remote address of its parameter, which the command of a
  UDP connection contains: on such a connection it reads an uninitialised pointer.
\<close>

definition send_defined :: "u32 \<Rightarrow> at_desc \<Rightarrow> bool" where
  "send_defined i d = (let j = (if multiple_conections d then unat i else 0) in
     j < length (conn d) \<longrightarrow> conn_type (conn d ! j) = SOCKET_TCP)"

text \<open>The loop of wifi_socket_send from offset \<open>i\<close>; the data must hold the bytes sent.\<close>

function send_loop :: "'e uart_env \<Rightarrow> u32 \<Rightarrow> u8 list \<Rightarrow> nat \<Rightarrow> nat \<Rightarrow> 'e wifi_board \<Rightarrow> 'e wifi_board option" where
  "send_loop env sock_id data sz i b = do {
     let to_send = min (sz - i) MAX_CIPSEND_DATA;
     chunk \<leftarrow> mem_read data i to_send;
     guard (send_defined (conn_id (sock sock_id (wifi_of b))) (at (fst b)));
     (_, _, b) \<leftarrow> wifi_cmd env AT_SEND AT_SET_OP (Some (In_send_data \<lparr>send_id = conn_id (sock sock_id (wifi_of b)),
       send_buf = chunk, remote_ip = [], remote_port = 0\<rparr>)) b;
     if i + to_send < sz then send_loop env sock_id data sz (i + to_send) b else Some b}"
  by pat_completeness auto
termination
  by (relation "measure (\<lambda>(env, sock_id, data, sz, i, b). sz - i)") auto

declare send_loop.simps [simp del]

definition wifi_socket_send :: "'e uart_env \<Rightarrow> u32 \<Rightarrow> u8 list \<Rightarrow> u32 \<Rightarrow> 'e wifi_board \<Rightarrow> (int \<times> 'e wifi_board) option" where
  "wifi_socket_send env sock_id data sz b =
     (if unat sock_id \<ge> NB_SOCKETS \<or> server_id (server (wifi_of b)) = sock_id then Some (- EINVAL, b)
      else if sock_state (sock sock_id (wifi_of b)) \<noteq> SOCKET_CONNECTED then Some (- ENOTCONN, b)
      else do {
        b \<leftarrow> send_loop env sock_id data (unat sz) 0 b;
        Some (sint sz, b)})"

text \<open>\<open>data\<close> is the caller's buffer; a NULL or freed circular buffer is undefined.\<close>

definition wifi_socket_recv :: "u32 \<Rightarrow> u8 list \<Rightarrow> u32 \<Rightarrow> 'e wifi_board \<Rightarrow>
    (int \<times> u8 list \<times> 'e wifi_board) option" where
  "wifi_socket_recv sock_id data sz b =
     (if unat sock_id \<ge> NB_SOCKETS \<or> sz = 0 \<or> server_id (server (wifi_of b)) = sock_id then Some (- EINVAL, data, b)
      else if sock_state (sock sock_id (wifi_of b)) \<noteq> SOCKET_CONNECTED then Some (- ENOTCONN, data, b)
      else do {
        a \<leftarrow> cb (sock sock_id (wifi_of b));
        c \<leftarrow> cells (bufs (fst b)) a;
        let available = snd (cb_size c);
        if available = 0 then Some (- EAGAIN, data, b)
        else do {
          let sz = min_u32 available sz;
          (ret, c, d) \<leftarrow> cb_read c (Some data) sz;
          data \<leftarrow> d;
          let b = (set_cb a c (fst b), snd b);
          if IS_ERR_VALUE ret then Some (ret, data, b) else Some (sint sz, data, b)}})"

definition wifi_socket_sendto :: "u32 \<Rightarrow> u8 list \<Rightarrow> u32 \<Rightarrow> socket_address \<Rightarrow> 'e wifi_board \<Rightarrow> int \<times> 'e wifi_board" where
  "wifi_socket_sendto sock_id data sz t b = (FAILURE, b)"

definition wifi_socket_recvfrom :: "u32 \<Rightarrow> u8 list \<Rightarrow> u32 \<Rightarrow> 'e wifi_board \<Rightarrow> int \<times> 'e wifi_board" where
  "wifi_socket_recvfrom sock_id data sz b = (FAILURE, b)"

definition wifi_socket_bind :: "u32 \<Rightarrow> u16 \<Rightarrow> 'e wifi_board \<Rightarrow> int \<times> 'e wifi_board" where
  "wifi_socket_bind sock_id p b =
     (if unat sock_id \<ge> NB_SOCKETS then (- EINVAL, b)
      else if server_id (server (wifi_of b)) \<noteq> INVALID_ID then (- EMLINK, b)
      else if sock_state (sock sock_id (wifi_of b)) = SOCKET_UNUSED then (- ENODEV, b)
      else (SUCCESS, set_wifi (put_server (\<lambda>s. s\<lparr>server_id := sock_id, srv_port := p\<rparr>) (wifi_of b)) b))"

text \<open>The loop counter of wifi_socket_listen is the field back_log_clients itself.\<close>

fun listen_loop :: "'e uart_env \<Rightarrow> u32 \<Rightarrow> nat \<Rightarrow> int \<Rightarrow> 'e wifi_board \<Rightarrow> (int \<times> 'e wifi_board) option" where
  "listen_loop env sid 0 ret b = Some (ret, b)"
| "listen_loop env sid (Suc n) ret b =
     (let srv = sock sid (wifi_of b) in
      case wifi_socket_open (sock_type srv) (sock_cb_size srv) b of
        (ret, ident, b) \<Rightarrow>
          if IS_ERR_VALUE ret then Some (ret, b)
          else let w = wifi_of b; i = back_log_clients (server w); p = cb (sock sid w) in
          case (if i = 0 \<and> p \<noteq> None
                then (ret, set_wifi (put_sock sid (\<lambda>s. s\<lparr>cb := None\<rparr>) (put_sock ident (\<lambda>s. s\<lparr>cb := p\<rparr>) w)) b)
                else (case cb_new (sock_cb_size (sock sid w)) (cb (sock ident w)) (bufs (fst b)) of
                  (ret, q, h) \<Rightarrow> (ret, set_wifi (put_sock ident (\<lambda>s. s\<lparr>cb := q\<rparr>) w) (set_heap h b)))) of
            (ret, b) \<Rightarrow>
              if IS_ERR_VALUE ret then map_option (\<lambda>(_, b). (ret, b)) (wifi_socket_close env ident b)
              else listen_loop env sid n ret (set_wifi
                (put_server (\<lambda>s. s\<lparr>client_ids := (client_ids s)[unat i := ident], back_log_clients := i + 1\<rparr>)
                  (put_sock ident (\<lambda>s. s\<lparr>sock_state := SOCKET_DISCONNECTED\<rparr>) (wifi_of b))) b))"

definition wifi_socket_listen :: "'e uart_env \<Rightarrow> u32 \<Rightarrow> u32 \<Rightarrow> 'e wifi_board \<Rightarrow> (int \<times> 'e wifi_board) option" where
  "wifi_socket_listen env sock_id back_log b =
     (if server_id (server (wifi_of b)) = INVALID_ID \<or> sock_id \<noteq> server_id (server (wifi_of b)) then Some (- ENOTCONN, b)
      else do {
        let n = (if back_log = 0 then MAX_CONNECTIONS else min (unat back_log) MAX_CONNECTIONS);
        (ret, b) \<leftarrow> listen_loop env sock_id n SUCCESS
          (set_wifi (put_server (\<lambda>s. s\<lparr>back_log_clients := 0\<rparr>) (wifi_of b)) b);
        let fail = (\<lambda>ret b. map_option (\<lambda>b. (ret, b)) (remove_server_back_log env b));
        if IS_ERR_VALUE ret then fail ret b
        else do {
          (ret, _, b) \<leftarrow> wifi_cmd env AT_SET_SERVER AT_SET_OP
            (Some (In_server \<lparr>server_act = CREATE_SERVER, server_port = srv_port (server (wifi_of b))\<rparr>)) b;
          if IS_ERR_VALUE ret then fail ret b
          else Some (SUCCESS, set_wifi (put_sock sock_id (\<lambda>s. s\<lparr>sock_state := SOCKET_LISTENING\<rparr>) (wifi_of b)) b)}})"

text \<open>With no server, the id INVALID_ID passes the first test and is used as an index.\<close>

definition wifi_socket_accept :: "u32 \<Rightarrow> 'e wifi_board \<Rightarrow> (int \<times> u32 \<times> 'e wifi_board) option" where
  "wifi_socket_accept sock_id b =
     (let w = wifi_of b in
      if server_id (server w) \<noteq> sock_id then Some (- EINVAL, 0, b)
      else do {
        guard (unat (server_id (server w)) < NB_SOCKETS);
        if sock_state (sock (server_id (server w)) w) \<noteq> SOCKET_LISTENING then Some (- ENOTCONN, 0, b)
        else (case find (\<lambda>i. sock_state (sockets w ! i) = SOCKET_WAITING_ACCEPT) [0..<NB_SOCKETS] of
            Some i \<Rightarrow> Some (SUCCESS, of_nat i,
              set_wifi (put_sock (of_nat i) (\<lambda>s. s\<lparr>sock_state := SOCKET_CONNECTED\<rparr>) w) b)
          | None \<Rightarrow> Some (- EAGAIN, 0, b))})"

section \<open>The device\<close>

definition wifi_zero :: wifi_desc where
  "wifi_zero = \<lparr>sockets = replicate NB_SOCKETS \<lparr>cb = None, sock_cb_size = 0, sock_type = PROTOCOL_TCP,
       conn_id = 0, sock_state = SOCKET_UNUSED\<rparr>,
     server = \<lparr>server_id = INVALID_ID, srv_port = 0, client_ids = replicate NB_CLI_SOCKETS 0, back_log_clients = 0\<rparr>,
     conn_id_to_sock_id = replicate MAX_CONNECTIONS INVALID_ID\<rparr>"

text \<open>The outcomes of the allocations and of the interrupt controller, as for at_init.\<close>

definition wifi_init :: "'e uart_env \<Rightarrow> bool \<Rightarrow> bool \<Rightarrow> bool \<Rightarrow> bool \<Rightarrow> bool \<Rightarrow> connection_type \<Rightarrow> u32 \<Rightarrow>
    circular_buffer heap \<Rightarrow> 'e \<Rightarrow> (int \<times> 'e wifi_board option) option" where
  "wifi_init env args_ok alloc_ok at_alloc_ok reg_ok en_ok res0 conn0 hp e =
     (if \<not> args_ok \<or> \<not> alloc_ok then Some (FAILURE, None)
      else do {
        (ret, d) \<leftarrow> at_init wifi_connection_callback env True at_alloc_ok reg_ok en_ok res0 conn0 wifi_zero hp e;
        if IS_ERR_VALUE ret then Some (FAILURE, None)
        else do {
          b \<leftarrow> d;
          (ret, _, b) \<leftarrow> wifi_cmd env AT_RESET AT_EXECUTE_OP None b;
          if IS_ERR_VALUE ret then Some (FAILURE, None)
          else do {
            (ret, _, b) \<leftarrow> wifi_cmd env AT_SET_OPERATION_MODE AT_SET_OP (Some (In_wifi_mode CLIENT)) b;
            if IS_ERR_VALUE ret then Some (FAILURE, None)
            else do {
              (ret, _, b) \<leftarrow> wifi_cmd env AT_SET_CONNECTION_TYPE AT_SET_OP (Some (In_conn_type MULTIPLE_CONNECTION)) b;
              if IS_ERR_VALUE ret then Some (FAILURE, None)
              else Some (SUCCESS, Some b)}}}})"

definition wifi_connect :: "'e uart_env \<Rightarrow> string \<Rightarrow> string \<Rightarrow> 'e wifi_board \<Rightarrow> (int \<times> 'e wifi_board) option" where
  "wifi_connect env ssid pass b = do {
     (ret, _, b) \<leftarrow> wifi_cmd env AT_CONNECT_NETWORK AT_SET_OP
       (Some (In_network \<lparr>jap_ssid = bytes_of ssid, jap_pwd = bytes_of pass\<rparr>)) b;
     Some (ret, b)}"

definition wifi_disconnect :: "'e uart_env \<Rightarrow> 'e wifi_board \<Rightarrow> (int \<times> 'e wifi_board) option" where
  "wifi_disconnect env b = do {
     (ret, _, b) \<leftarrow> wifi_cmd env AT_DISCONNECT_NETWORK AT_EXECUTE_OP None b;
     Some (ret, b)}"

fun close_all :: "'e uart_env \<Rightarrow> nat list \<Rightarrow> 'e wifi_board \<Rightarrow> 'e wifi_board option" where
  "close_all env [] b = Some b"
| "close_all env (i # is) b = do {
     (_, b) \<leftarrow> wifi_socket_close env (of_nat i) b;
     close_all env is b}"

definition wifi_remove :: "'e uart_env \<Rightarrow> 'e wifi_board option \<Rightarrow> (int \<times> 'e wifi_board option) option" where
  "wifi_remove env d = (case d of
     None \<Rightarrow> Some (FAILURE, None)
   | Some b \<Rightarrow> do {
       b \<leftarrow> close_all env [0..<NB_SOCKETS] b;
       (_, b) \<leftarrow> wifi_disconnect env b;
       Some (SUCCESS, snd (at_remove (Some b)))})"

text \<open>The string is copied to \<open>ip_buff\<close>, which has \<open>buff_size\<close> bytes, with its terminator. The
  input member of the parameter is not set for this command.\<close>

definition wifi_get_ip :: "'e uart_env \<Rightarrow> in_param \<Rightarrow> u32 \<Rightarrow> 'e wifi_board \<Rightarrow> (int \<times> string option \<times> 'e wifi_board) option" where
  "wifi_get_ip env junk buff_size b = do {
     (ret, out, b) \<leftarrow> wifi_cmd env AT_GET_IP AT_EXECUTE_OP (Some junk) b;
     if IS_ERR_VALUE ret then Some (ret, None, b)
     else do {
       r \<leftarrow> out;
       (_, res) \<leftarrow> at_to_str True (Some (app_result_buff (at (fst b)), of_nat (length r)));
       (buff, str) \<leftarrow> res;
       let b = ((fst b)\<lparr>at := (at (fst b))\<lparr>app_result_buff := buff\<rparr>\<rparr>, snd b);
       if length str + 1 > unat buff_size then Some (- ENOMEM, None, b)
       else Some (SUCCESS, Some str, b)}}"

section \<open>The tables stay within their ranges\<close>

text \<open>
  The type invariant of the descriptor: the arrays have their sizes, and every index kept in
  a table is the mark for none or inside the array it is used on.
\<close>

definition wifi_ok :: "wifi_desc \<Rightarrow> bool" where
  "wifi_ok w \<longleftrightarrow> length (sockets w) = NB_SOCKETS \<and> length (conn_id_to_sock_id w) = MAX_CONNECTIONS
     \<and> length (client_ids (server w)) = NB_CLI_SOCKETS \<and> unat (back_log_clients (server w)) \<le> NB_CLI_SOCKETS
     \<and> (server_id (server w) = INVALID_ID \<or> unat (server_id (server w)) < NB_SOCKETS)
     \<and> (\<forall>x \<in> set (conn_id_to_sock_id w). x = INVALID_ID \<or> unat x < NB_SOCKETS)
     \<and> (\<forall>x \<in> set (client_ids (server w)). unat x < NB_SOCKETS)
     \<and> (\<forall>s \<in> set (sockets w). conn_id s = INVALID_ID \<or> unat (conn_id s) < MAX_CONNECTIONS)"

named_theorems wifi_ok_intro

lemma set_update_P: "\<forall>x \<in> set xs. Q x \<Longrightarrow> (i < length xs \<Longrightarrow> Q y) \<Longrightarrow> \<forall>x \<in> set (xs[i := y]). Q x"
  by (cases "i < length xs") (auto dest!: set_update_subset_insert [THEN subsetD] simp: list_update_beyond)

lemma put_sock_ok [wifi_ok_intro]:
  assumes "wifi_ok w"
    "unat i < NB_SOCKETS \<Longrightarrow> conn_id (f (sock i w)) = conn_id (sock i w) \<or> conn_id (f (sock i w)) = INVALID_ID
       \<or> unat (conn_id (f (sock i w))) < MAX_CONNECTIONS"
  shows "wifi_ok (put_sock i f w)"
proof -
  have "sock i w \<in> set (sockets w)" if "unat i < 5" using that assms(1) by (simp add: wifi_ok_def sock_def)
  then have "conn_id (f (sock i w)) = INVALID_ID \<or> unat (conn_id (f (sock i w))) < MAX_CONNECTIONS"
    if "unat i < length (sockets w)" using assms that by (auto simp: wifi_ok_def)
  then have "\<forall>s \<in> set ((sockets w)[unat i := f (sock i w)]). conn_id s = INVALID_ID \<or> unat (conn_id s) < MAX_CONNECTIONS"
    using assms(1) by (intro set_update_P) (simp_all add: wifi_ok_def)
  then show ?thesis using assms(1) by (simp add: wifi_ok_def put_sock_def)
qed

lemma table_ok [wifi_ok_intro]:
  assumes "wifi_ok w" "x = INVALID_ID \<or> unat x < NB_SOCKETS"
  shows "wifi_ok (w\<lparr>conn_id_to_sock_id := (conn_id_to_sock_id w)[i := x]\<rparr>)"
proof -
  have "\<forall>y \<in> set ((conn_id_to_sock_id w)[i := x]). y = INVALID_ID \<or> unat y < NB_SOCKETS"
    using assms by (intro set_update_P) (simp_all add: wifi_ok_def)
  then show ?thesis using assms(1) by (simp add: wifi_ok_def)
qed

lemma server_ok [wifi_ok_intro]:
  "wifi_ok w \<Longrightarrow> i = INVALID_ID \<or> unat i < NB_SOCKETS \<Longrightarrow> wifi_ok (put_server (\<lambda>s. s\<lparr>server_id := i, srv_port := p\<rparr>) w)"
  "wifi_ok w \<Longrightarrow> i = INVALID_ID \<or> unat i < NB_SOCKETS \<Longrightarrow> wifi_ok (put_server (\<lambda>s. s\<lparr>server_id := i\<rparr>) w)"
  "wifi_ok w \<Longrightarrow> wifi_ok (put_server (\<lambda>s. s\<lparr>back_log_clients := 0\<rparr>) w)"
  by (simp_all add: wifi_ok_def put_server_def)

lemma wifi_ok_table: "wifi_ok w \<Longrightarrow> unat k < MAX_CONNECTIONS \<Longrightarrow>
  conn_id_to_sock_id w ! unat k = INVALID_ID \<or> unat (conn_id_to_sock_id w ! unat k) < NB_SOCKETS"
  by (simp add: wifi_ok_def)

lemma wifi_release_socket_ok [wifi_ok_intro]: "wifi_ok w \<Longrightarrow> wifi_ok (wifi_release_socket i w)"
  by (simp add: wifi_release_socket_def put_sock_ok)

lemma wifi_release_conn_ok [wifi_ok_intro]: "wifi_ok w \<Longrightarrow> wifi_ok (wifi_release_conn i w)"
proof -
  assume "wifi_ok w"
  then have "wifi_ok (put_sock i (\<lambda>s. s\<lparr>conn_id := INVALID_ID\<rparr>) w)" by (intro put_sock_ok) simp_all
  from table_ok [OF this, of INVALID_ID] \<open>wifi_ok w\<close> show ?thesis
    by (simp add: wifi_release_conn_def Let_def put_sock_def)
qed

lemma find_SomeD: "find Q xs = Some x \<Longrightarrow> x \<in> set xs \<and> Q x"
  by (auto simp: find_Some_iff)

lemma find_range: "find Q [0..<n] = Some i \<Longrightarrow> i < n \<and> Q i"
  by (auto simp: find_Some_iff)

lemma wifi_get_unused_socket_ok:
  "wifi_ok w \<Longrightarrow> wifi_get_unused_socket w = (r, i, w') \<Longrightarrow> wifi_ok w' \<and> unat i < NB_SOCKETS"
  by (auto simp: wifi_get_unused_socket_def unat_of_nat_u32 intro!: put_sock_ok split: option.splits dest!: find_range)

lemma wifi_get_unused_conn_ok: "wifi_ok w \<Longrightarrow> unat i < NB_SOCKETS \<Longrightarrow> wifi_ok (snd (wifi_get_unused_conn i w))"
  by (auto simp: wifi_get_unused_conn_def unat_of_nat_u32 intro!: wifi_ok_intro split: option.split dest!: find_range)

lemma get_initialized_client_id_ok:
  "wifi_ok w \<Longrightarrow> get_initialized_client_id w = (i, w') \<Longrightarrow> wifi_ok w' \<and> (i = INVALID_ID \<or> unat i < NB_SOCKETS)"
  by (auto simp: get_initialized_client_id_def find_Some_iff intro!: put_sock_ok split: option.splits)
    (auto simp: wifi_ok_def)

lemma wifi_connection_callback_ok:
  assumes "wifi_ok w" "unat k < MAX_CONNECTIONS"
  shows "wifi_ok (snd (wifi_connection_callback ev k w))"
proof (cases ev)
  case AT_NEW_CONNECTION
  obtain i w' where i: "get_initialized_client_id w = (i, w')" by fastforce
  with get_initialized_client_id_ok [OF assms(1)] have "wifi_ok w'" "i = INVALID_ID \<or> unat i < NB_SOCKETS" by auto
  then show ?thesis using AT_NEW_CONNECTION assms i
    by (auto simp: wifi_connection_callback_def Let_def intro!: wifi_ok_intro)
next
  case AT_CLOSED_CONNECTION
  then show ?thesis using assms by (auto simp: wifi_connection_callback_def Let_def intro!: wifi_ok_intro)
qed

interpretation wc: conn_client wifi_connection_callback wifi_ok
  by unfold_locales (rule wifi_connection_callback_ok)

definition wb_ok :: "'e wifi_board \<Rightarrow> bool" where
  "wb_ok b \<longleftrightarrow> app_ok wifi_ok (fst b)"

lemma wb_okD: "wb_ok b \<Longrightarrow> wifi_ok (wifi_of b)"
  by (simp add: wb_ok_def app_ok_def wifi_of_def)

lemma set_wifi_ok: "wb_ok b \<Longrightarrow> wifi_ok w \<Longrightarrow> wb_ok (set_wifi w b)"
  by (simp add: wb_ok_def app_ok_def set_wifi_def)

lemma board_simps [simp]:
  "wb_ok (set_heap h b) = wb_ok b" "wifi_of (set_heap h b) = wifi_of b" "wifi_of (set_wifi w b) = w"
  "bufs (fst (set_heap h b)) = h" "bufs (fst (set_wifi w b)) = bufs (fst b)" "snd (set_wifi w b) = snd b"
  "set_wifi v (set_wifi w b) = set_wifi v b"
  by (simp_all add: wb_ok_def set_heap_def wifi_of_def set_wifi_def)

lemma wifi_cmd_ok: "wb_ok b \<Longrightarrow> post (\<lambda>(r, out, b'). wb_ok b') (wifi_cmd env cmd op param b)"
  unfolding wifi_cmd_def wb_ok_def
  by (rule post_bind [OF wc.at_run_cmd_keeps]) (auto intro!: post_intro)

lemma wifi_socket_open_ok:
  assumes "wb_ok b" "wifi_socket_open proto n b = (r, i, b')"
  shows "wb_ok b' \<and> unat i < NB_SOCKETS"
proof -
  obtain q k w where g: "wifi_get_unused_socket (wifi_of b) = (q, k, w)" by (cases "wifi_get_unused_socket (wifi_of b)")
  with wifi_get_unused_socket_ok wb_okD [OF assms(1)] have k: "wifi_ok w" "unat k < NB_SOCKETS" by auto
  then show ?thesis using assms g
    by (auto simp: wifi_socket_open_def Let_def intro!: set_wifi_ok wifi_ok_intro split: prod.splits if_splits)
qed

lemma socket_disconnect_with_ok:
  assumes "wb_ok b" "\<And>b. wb_ok b \<Longrightarrow> post wb_ok (back_log b)"
  shows "post (\<lambda>(r, b'). wb_ok b') (socket_disconnect_with back_log env i b)"
proof -
  have step: "post wb_ok (if i = server_id (server (wifi_of b)) then do {
            (_, _, b) \<leftarrow> wifi_cmd env AT_SET_SERVER AT_SET_OP
              (Some (In_server \<lparr>server_act = DELETE_SERVER, server_port = 0\<rparr>)) b;
            b \<leftarrow> back_log b;
            Some (set_wifi (put_server (\<lambda>s. s\<lparr>server_id := INVALID_ID\<rparr>) (wifi_of b)) b)}
          else do {
            (_, _, b) \<leftarrow> wifi_cmd env AT_STOP_CONNECTION AT_SET_OP
              (Some (In_conn_id (conn_id (sock i (wifi_of b))))) b;
            Some (set_wifi (wifi_release_conn i (wifi_of b)) b)})"
    using assms
    by (auto intro!: post_intro post_bind [OF wifi_cmd_ok] post_bind [OF assms(2)] set_wifi_ok wifi_ok_intro wb_okD)
  show ?thesis
    unfolding socket_disconnect_with_def
    by (intro post_intro post_bind [OF step]) (auto intro!: assms(1) set_wifi_ok wifi_ok_intro wb_okD)
qed

lemma free_clients_ok: "wb_ok b \<Longrightarrow> post wb_ok (free_clients is b)"
proof (induction "is" arbitrary: b)
  case (Cons i "is")
  then show ?case by (auto intro!: post_bind [OF post_any] Cons.IH set_wifi_ok wifi_ok_intro wb_okD)
qed (auto intro: post_intro)

lemma socket_close_with_ok:
  assumes "wb_ok b" "\<And>b. wb_ok b \<Longrightarrow> post wb_ok (back_log b)"
  shows "post (\<lambda>(r, b'). wb_ok b') (socket_close_with back_log env i b)"
proof -
  have rel: "post wb_ok (if \<not> is_server_socket (wifi_of b) i then do {
              (_, h) \<leftarrow> cb_free (cb (sock i (wifi_of b))) (bufs (fst b));
              Some (set_wifi (put_sock i (\<lambda>s. s\<lparr>cb := None\<rparr>) (wifi_of b)) (set_heap h b))}
            else if i = server_id (server (wifi_of b)) then free_clients (clients (wifi_of b)) b
            else Some b)" if "wb_ok b" for b :: "'a wifi_board"
    using that by (auto intro!: post_intro free_clients_ok post_bind [OF post_any [of "cb_free p h" for p h]]
        set_wifi_ok wifi_ok_intro wb_okD)
  show ?thesis
    unfolding socket_close_with_def using assms(1)
    by (auto intro!: post_intro post_bind [OF socket_disconnect_with_ok] assms(2) post_bind [OF rel]
        set_wifi_ok wifi_ok_intro wb_okD)
qed

lemma back_log_loop_ok: "wb_ok b \<Longrightarrow> post wb_ok (back_log_loop env is b)"
proof (induction "is" arbitrary: b)
  case (Cons i "is")
  then show ?case unfolding back_log_loop.simps Let_def
    by (auto intro!: post_intro post_bind [OF post_any [of "cb_free p h" for p h]]
        post_bind [OF socket_close_with_ok] Cons.IH)
qed (auto intro: post_intro)

lemma remove_server_back_log_ok: "wb_ok b \<Longrightarrow> post wb_ok (remove_server_back_log env b)"
  by (simp add: remove_server_back_log_def back_log_loop_ok del: upt.simps)

lemmas wifi_socket_disconnect_ok = socket_disconnect_with_ok
  [of _ "remove_server_back_log env" env for env, folded wifi_socket_disconnect_def, OF _ remove_server_back_log_ok]
lemmas wifi_socket_close_ok = socket_close_with_ok
  [of _ "remove_server_back_log env" env for env, folded wifi_socket_close_def, OF _ remove_server_back_log_ok]

lemma wifi_socket_connect_ok: "wb_ok b \<Longrightarrow> post (\<lambda>(r, b'). wb_ok b') (wifi_socket_connect env junk i ad b)"
  unfolding wifi_socket_connect_def Let_def
  by (auto intro!: post_intro post_bind [OF wifi_cmd_ok] set_wifi_ok wifi_get_unused_conn_ok wifi_ok_intro wb_okD)

lemma send_loop_ok: "wb_ok b \<Longrightarrow> post wb_ok (send_loop env s data sz i b)"
proof (induction env s data sz i b rule: send_loop.induct)
  case (1 env s data sz i b)
  show ?case
    unfolding send_loop.simps [of env s data sz i b] Let_def
  proof (intro post_bind_any)
    fix chunk u r
    assume eq: "mem_read data i (min (sz - i) MAX_CIPSEND_DATA) = Some chunk"
      "guard (send_defined (conn_id (sock s (wifi_of b))) (at (fst b))) = Some u"
      "wifi_cmd env AT_SEND AT_SET_OP (Some (In_send_data \<lparr>send_id = conn_id (sock s (wifi_of b)),
         send_buf = chunk, remote_ip = [], remote_port = 0\<rparr>)) b = Some r"
    obtain x y st e where r: "r = (x, y, st, e)" by (cases r)
    have "wb_ok (st, e)" using postD [OF wifi_cmd_ok [OF 1(2)] eq(3)] r by simp
    then show "post wb_ok (case r of (_, _, b) \<Rightarrow>
        if i + min (sz - i) MAX_CIPSEND_DATA < sz then send_loop env s data sz (i + min (sz - i) MAX_CIPSEND_DATA) b else Some b)"
      using 1(1) eq r by (auto intro!: post_intro)
  qed
qed

lemma wifi_socket_send_ok: "wb_ok b \<Longrightarrow> post (\<lambda>(r, b'). wb_ok b') (wifi_socket_send env s data sz b)"
  unfolding wifi_socket_send_def by (auto intro!: post_intro post_bind [OF send_loop_ok])

lemma wifi_socket_recv_ok: "wb_ok b \<Longrightarrow> post (\<lambda>(r, d, b'). wb_ok b') (wifi_socket_recv s data sz b)"
  unfolding wifi_socket_recv_def Let_def
  by (auto intro!: post_intro post_bind_any simp: wb_ok_def app_ok_def)

lemma put_fields [simp]:
  "server (put_sock i f w) = server w" "conn_id_to_sock_id (put_sock i f w) = conn_id_to_sock_id w"
  "server (put_server g w) = g (server w)" "sockets (put_server g w) = sockets w"
  "conn_id_to_sock_id (put_server g w) = conn_id_to_sock_id w"
  by (simp_all add: put_sock_def put_server_def)

lemma wifi_socket_bind_ok: "wb_ok b \<Longrightarrow> wb_ok (snd (wifi_socket_bind s p b))"
  by (auto simp: wifi_socket_bind_def intro!: set_wifi_ok wifi_ok_intro wb_okD)

lemma add_client_ok:
  assumes "wifi_ok w" "unat (back_log_clients (server w)) < 4" "unat i < 5"
  shows "wifi_ok (put_server (\<lambda>s. s\<lparr>client_ids := (client_ids s)[unat (back_log_clients (server w)) := i],
    back_log_clients := back_log_clients (server w) + 1\<rparr>) w)"
proof -
  have "\<forall>x \<in> set ((client_ids (server w))[unat (back_log_clients (server w)) := i]). unat x < NB_SOCKETS"
    using assms by (intro set_update_P) (simp_all add: wifi_ok_def)
  moreover have "unat (back_log_clients (server w) + 1) = Suc (unat (back_log_clients (server w)))"
    using assms(2) by (simp add: unat_word_ariths)
  ultimately show ?thesis using assms by (simp add: wifi_ok_def put_server_def)
qed

text \<open>Opening a socket leaves the server alone.\<close>

lemma wifi_socket_open_server: "wifi_socket_open proto n b = (r, i, b') \<Longrightarrow> server (wifi_of b') = server (wifi_of b)"
  by (auto simp: wifi_socket_open_def wifi_get_unused_socket_def put_sock_def wifi_release_socket_def Let_def
      split: option.splits prod.splits if_splits)

lemma listen_loop_ok:
  "wb_ok b \<Longrightarrow> unat (back_log_clients (server (wifi_of b))) + n \<le> 4 \<Longrightarrow>
   post (\<lambda>(r, b'). wb_ok b') (listen_loop env sid n ret b)"
proof (induction n arbitrary: ret b)
  case (Suc n)
  let ?srv = "sock sid (wifi_of b)"
  obtain r1 i b1 where o: "wifi_socket_open (sock_type ?srv) (sock_cb_size ?srv) b = (r1, i, b1)"
    by (cases "wifi_socket_open (sock_type ?srv) (sock_cb_size ?srv) b")
  have b1: "wb_ok b1" "unat i < NB_SOCKETS" "server (wifi_of b1) = server (wifi_of b)"
    using wifi_socket_open_ok [OF Suc.prems(1) o] wifi_socket_open_server [OF o] by auto
  let ?w = "wifi_of b1"
  let ?next = "if back_log_clients (server ?w) = 0 \<and> cb (sock sid ?w) \<noteq> None
      then (r1, set_wifi (put_sock sid (\<lambda>s. s\<lparr>cb := None\<rparr>) (put_sock i (\<lambda>s. s\<lparr>cb := cb (sock sid ?w)\<rparr>) ?w)) b1)
      else (case cb_new (sock_cb_size (sock sid ?w)) (cb (sock i ?w)) (bufs (fst b1)) of
        (ret, q, h) \<Rightarrow> (ret, set_wifi (put_sock i (\<lambda>s. s\<lparr>cb := q\<rparr>) ?w) (set_heap h b1)))"
  obtain r2 b2 where n: "?next = (r2, b2)" by (cases ?next)
  have b2: "wb_ok b2" "server (wifi_of b2) = server ?w"
    using n b1(1) by (auto intro!: set_wifi_ok wifi_ok_intro wb_okD split: if_splits prod.splits)
  let ?c = "back_log_clients (server ?w)"
  let ?b3 = "set_wifi (put_server (\<lambda>s. s\<lparr>client_ids := (client_ids s)[unat ?c := i], back_log_clients := ?c + 1\<rparr>)
      (put_sock i (\<lambda>s. s\<lparr>sock_state := SOCKET_DISCONNECTED\<rparr>) (wifi_of b2))) b2"
  have c: "unat ?c < 4" "unat (?c + 1) = Suc (unat ?c)"
    using Suc.prems(2) b1(3) by (simp_all add: unat_word_ariths)
  have "wifi_ok (put_sock i (\<lambda>s. s\<lparr>sock_state := SOCKET_DISCONNECTED\<rparr>) (wifi_of b2))"
    using b2(1) by (intro wifi_ok_intro wb_okD) simp_all
  from add_client_ok [OF this, of i] have "wb_ok ?b3"
    using b1(2) b2 c(1) by (intro set_wifi_ok) (simp_all add: put_sock_def)
  moreover have "back_log_clients (server (wifi_of ?b3)) = ?c + 1" by (simp add: put_server_def)
  ultimately have "post (\<lambda>(r, b'). wb_ok b') (listen_loop env sid n r2 ?b3)"
    using Suc.IH [of ?b3 r2] Suc.prems(2) c(2) b1(3) by simp
  then show ?case
    unfolding listen_loop.simps Let_def o prod.case n
    using b1(1) b2(1) by (auto intro!: post_intro post_map post_mono [OF wifi_socket_close_ok])
qed (auto intro: post_intro)

lemma wifi_socket_listen_ok: "wb_ok b \<Longrightarrow> post (\<lambda>(r, b'). wb_ok b') (wifi_socket_listen env s n b)"
  unfolding wifi_socket_listen_def Let_def
  by (auto intro!: post_intro post_bind [OF listen_loop_ok] set_wifi_ok wifi_ok_intro wb_okD post_map
      remove_server_back_log_ok post_bind [OF wifi_cmd_ok])

lemma wifi_socket_accept_ok: "wb_ok b \<Longrightarrow> post (\<lambda>(r, i, b'). wb_ok b') (wifi_socket_accept s b)"
  unfolding wifi_socket_accept_def Let_def
  by (auto intro!: post_intro set_wifi_ok wifi_ok_intro wb_okD)

lemma wifi_get_ip_ok: "wb_ok b \<Longrightarrow> post (\<lambda>(r, d, b'). wb_ok b') (wifi_get_ip env junk n b)"
  unfolding wifi_get_ip_def Let_def
  by (rule post_bind [OF wifi_cmd_ok], assumption)
    (auto intro!: post_intro post_bind_any simp: wb_ok_def app_ok_def)

lemma wifi_zero_ok: "wifi_ok wifi_zero"
  by (auto simp: wifi_ok_def wifi_zero_def simp del: replicate.simps)

lemma wifi_init_ok:
  "post (\<lambda>(r, d). \<forall>b. d = Some b \<longrightarrow> wb_ok b) (wifi_init env args alloc al reg en res0 conn0 hp e)"
  unfolding wifi_init_def
  by (intro post_intro post_bind [OF wc.at_init_keeps [OF wifi_zero_ok, folded wb_ok_def]])
    (auto intro!: post_intro post_bind [OF wifi_cmd_ok] post_bind [OF post_any [of "d :: 'a wifi_board option" for d]])

text \<open>
  The histories of the device, from the descriptor wifi_init allocates and from what it
  returns: the calls of the interface in any order and with any arguments, with bytes from the
  module arriving during and between them.
\<close>

datatype wifi_op = Op_open socket_protocol u32 | Op_close u32 | Op_connect "u16 \<times> udp_mode_t" u32 socket_address
  | Op_disconnect u32 | Op_send u32 "u8 list" u32 | Op_recv u32 "u8 list" u32 | Op_bind u32 u16
  | Op_listen u32 u32 | Op_accept u32 | Op_join string string | Op_leave | Op_ip in_param u32 | Op_rx "u8 list"

fun wifi_exec :: "'e uart_env \<Rightarrow> wifi_op \<Rightarrow> 'e wifi_board \<Rightarrow> 'e wifi_board option" where
  "wifi_exec env (Op_open proto n) b = Some (snd (snd (wifi_socket_open proto n b)))"
| "wifi_exec env (Op_close s) b = map_option snd (wifi_socket_close env s b)"
| "wifi_exec env (Op_connect junk s ad) b = map_option snd (wifi_socket_connect env junk s ad b)"
| "wifi_exec env (Op_disconnect s) b = map_option snd (wifi_socket_disconnect env s b)"
| "wifi_exec env (Op_send s data n) b = map_option snd (wifi_socket_send env s data n b)"
| "wifi_exec env (Op_recv s data n) b = map_option (snd \<circ> snd) (wifi_socket_recv s data n b)"
| "wifi_exec env (Op_bind s p) b = Some (snd (wifi_socket_bind s p b))"
| "wifi_exec env (Op_listen s n) b = map_option snd (wifi_socket_listen env s n b)"
| "wifi_exec env (Op_accept s) b = map_option (snd \<circ> snd) (wifi_socket_accept s b)"
| "wifi_exec env (Op_join ssid pass) b = map_option snd (wifi_connect env ssid pass b)"
| "wifi_exec env Op_leave b = map_option snd (wifi_disconnect env b)"
| "wifi_exec env (Op_ip junk n) b = map_option (snd \<circ> snd) (wifi_get_ip env junk n b)"
| "wifi_exec env (Op_rx bs) b = map_option (\<lambda>st. (st, snd b)) (uart_bytes wifi_connection_callback bs (fst b))"

inductive wifi_reachable :: "'e uart_env \<Rightarrow> 'e wifi_board \<Rightarrow> bool" for env :: "'e uart_env" where
  zero: "wifi_reachable env (\<lparr>at = at_zero, app = wifi_zero, bufs = hp, uart = Req_ch\<rparr>, e)"
| start: "wifi_init env args alloc al reg en res0 conn0 hp e = Some (SUCCESS, Some b) \<Longrightarrow> wifi_reachable env b"
| step: "wifi_reachable env b \<Longrightarrow> wifi_exec env op b = Some b' \<Longrightarrow> wifi_reachable env b'"

lemma wifi_exec_ok: "wb_ok b \<Longrightarrow> post wb_ok (wifi_exec env op b)"
proof (cases op)
  case (Op_open proto n)
  moreover assume "wb_ok b"
  ultimately show ?thesis
    using wifi_socket_open_ok [of b proto n] by (cases "wifi_socket_open proto n b") (auto intro: post_intro)
qed (auto simp: wifi_connect_def wifi_disconnect_def wb_ok_def [of "(st, snd b)" for st] o_def case_prod_unfold
    intro!: post_intro post_map wifi_socket_bind_ok wifi_socket_accept_ok [THEN post_mono] wc.uart_bytes_keeps [THEN post_mono]
      post_bind [OF wifi_cmd_ok] wifi_socket_close_ok [THEN post_mono] wifi_socket_connect_ok [THEN post_mono]
      wifi_socket_disconnect_ok [THEN post_mono] wifi_socket_send_ok [THEN post_mono] wifi_socket_recv_ok [THEN post_mono]
      wifi_socket_listen_ok [THEN post_mono] wifi_get_ip_ok [THEN post_mono] simp: wb_ok_def)

lemma wifi_reachable_ok: "wifi_reachable env b \<Longrightarrow> wb_ok b"
proof (induction rule: wifi_reachable.induct)
  case (zero hp e)
  then show ?case using wifi_zero_ok by (simp add: wb_ok_def app_ok_def at_zero_def)
next
  case (start args alloc al reg en res0 conn0 hp e b)
  then show ?case using postD [OF wifi_init_ok] by fastforce
next
  case (step b op b')
  then show ?case using postD [OF wifi_exec_ok] by blast
qed

text \<open>
  C9. In every history of the device the tables stay within their ranges: the arrays have
  their sizes, every socket id kept for a connection, the server or its clients is below
  NB_SOCKETS, every connection id kept in a socket is below MAX_CONNECTIONS (or each is the
  mark for none), so that no access by such an id is out of bounds. The connection callback
  runs from interrupts inside every command, so it is part of every step.
\<close>

theorem wifi_tables_in_range:
  assumes "wifi_reachable env b"
  shows "wifi_ok (wifi_of b)"
  using wifi_reachable_ok [OF assms] by (rule wb_okD)

text \<open>A module that has only been allocated, and a socket opened on it.\<close>

definition wifi_board0 :: "unit wifi_board" where
  "wifi_board0 = (\<lparr>at = at_zero, app = wifi_zero, bufs = \<lparr>cells = Map.empty, brk = 0, oom = (\<lambda>_. False)\<rparr>, uart = Req_ch\<rparr>, ())"

theorem wifi_tables_in_range_witness:
  "\<exists>b. wifi_exec mute (Op_open PROTOCOL_TCP 8) wifi_board0 = Some b \<and> wifi_ok (wifi_of b)"
proof -
  have "wifi_reachable mute wifi_board0" unfolding wifi_board0_def by (rule wifi_reachable.zero)
  then have "wifi_reachable mute (snd (snd (wifi_socket_open PROTOCOL_TCP 8 wifi_board0)))"
    by (rule wifi_reachable.step [where op = "Op_open PROTOCOL_TCP 8"]) simp
  from wifi_tables_in_range [OF this] show ?thesis by simp
qed


section \<open>Receiving\<close>

text \<open>Receiving takes what there is, at most what was asked for, from the front of the buffer.\<close>

lemma wifi_socket_recv_takes:
  assumes "unat i < NB_SOCKETS" "server_id (server (wifi_of b)) \<noteq> i" "sock_state (sock i (wifi_of b)) = SOCKET_CONNECTED"
    and "cb (sock i (wifi_of b)) = Some a" "cells (bufs (fst b)) a = Some c" "cb_ok c" "\<not> async_started (cb_read_ptr c)"
    and "cb_contents c \<noteq> []" "sz \<noteq> 0" "unat sz \<le> length data" "n = min (length (cb_contents c)) (unat sz)"
  shows "\<exists>c'. wifi_socket_recv i data sz b =
      Some (int n, take n (cb_contents c) @ drop n data, (set_cb a c' (fst b), snd b))
    \<and> cb_ok c' \<and> cb_contents c' = drop n (cb_contents c)"
proof -
  have len: "length (cb_contents c) < 2 ^ 31"
    using length_cb_contents_le [OF assms(6)] assms(6) by (auto simp: cb_ok_def cb_wf_def)
  then have av: "snd (cb_size c) = of_nat (length (cb_contents c))" "unat (of_nat (length (cb_contents c)) :: u32) = length (cb_contents c)"
    using cb_size_ok [OF assms(6)] unat_of_nat_u32 [of "length (cb_contents c)"] by simp_all
  let ?m = "min_u32 (of_nat (length (cb_contents c))) sz"
  have m: "unat ?m = n" using av(2) assms(11) by simp
  have n: "0 < n" "n \<le> length data" "n \<le> length (cb_contents c)" "n < 2 ^ 31"
    using assms(8-11) len by (auto simp: unat_gt_0)
  have "?m \<noteq> 0" using m n(1) by (metis less_irrefl unsigned_0)
  moreover have "(of_nat (length (cb_contents c)) :: u32) \<noteq> 0" using av(2) assms(8) by auto
  ultimately have nz: "(of_nat (length (cb_contents c)) :: u32) \<noteq> 0" "?m \<noteq> 0" by blast+
  have val: "sint ?m = int n" using sint_u32_small [of ?m] m n(4) by simp
  obtain c' where c': "cb_read c (Some data) ?m = Some (SUCCESS, c', Some (take n (cb_contents c) @ drop n data))"
    "cb_ok c'" "cb_contents c' = drop n (cb_contents c)"
    using cb_read_fits [OF assms(6,7) nz(2), of data] m n(2,3) by auto
  then show ?thesis using assms(1-5,9) av(1) nz(1) val
    by (intro exI [of _ c']) (simp add: wifi_socket_recv_def Let_def)
qed


text \<open>The callback gives a connection nobody knows to a client of the server.\<close>

lemma wifi_new_client:
  assumes "wifi_ok w" "unat k < MAX_CONNECTIONS" "conn_id_to_sock_id w ! unat k = INVALID_ID"
    and "get_initialized_client_id w = (i, w1)" "i \<noteq> INVALID_ID"
  shows "wifi_connection_callback AT_NEW_CONNECTION k w =
      (cb (sock i w), w\<lparr>sockets := (sockets w)[unat i := (sock i w)\<lparr>conn_id := k, sock_state := SOCKET_WAITING_ACCEPT\<rparr>],
        conn_id_to_sock_id := (conn_id_to_sock_id w)[unat k := i]\<rparr>)"
    and "unat i < NB_SOCKETS" "sock_state (sock i w) = SOCKET_DISCONNECTED" "is_server_socket w i"
proof -
  have i: "i \<in> set (clients w)" "sock_state (sock i w) = SOCKET_DISCONNECTED"
    and w1: "w1 = put_sock i (\<lambda>s. s\<lparr>sock_state := SOCKET_WAITING_ACCEPT\<rparr>) w"
    using assms(4,5) by (auto simp: get_initialized_client_id_def clients_def split: option.splits dest!: find_SomeD)
  have "unat i < NB_SOCKETS"
    using i(1) assms(1) by (auto simp: wifi_ok_def clients_def dest!: in_set_takeD)
  then show "unat i < NB_SOCKETS" .
  then have "unat i < length (sockets w)" using assms(1) by (simp add: wifi_ok_def)
  then show "wifi_connection_callback AT_NEW_CONNECTION k w =
      (cb (sock i w), w\<lparr>sockets := (sockets w)[unat i := (sock i w)\<lparr>conn_id := k, sock_state := SOCKET_WAITING_ACCEPT\<rparr>],
        conn_id_to_sock_id := (conn_id_to_sock_id w)[unat k := i]\<rparr>)"
    using assms(3-5) w1 by (simp add: wifi_connection_callback_def Let_def put_sock_def sock_def)
  show "sock_state (sock i w) = SOCKET_DISCONNECTED" "is_server_socket w i"
    using i by (simp_all add: is_server_socket_def clients_def)
qed

lemma find_first_waiting:
  assumes "unat i < NB_SOCKETS" "length ss = NB_SOCKETS"
    "\<forall>j < NB_SOCKETS. sock_state (ss ! j) \<noteq> SOCKET_WAITING_ACCEPT" "sock_state s = SOCKET_WAITING_ACCEPT"
  shows "find (\<lambda>j. sock_state (ss[unat i := s] ! j) = SOCKET_WAITING_ACCEPT) [0..<NB_SOCKETS] = Some (unat i)"
  using assms by (subst find_Some_iff) (auto intro!: exI [of _ "unat i"] simp: nth_list_update)

text \<open>
  The parser is between messages, the module has not used connection \<open>k\<close>, the server \<open>srv\<close>
  listens and nobody waits to be accepted, and the first client that is free is \<open>i\<close>, with
  ring \<open>c\<close> at address \<open>a\<close>.
\<close>

definition server_ready :: "u32 \<Rightarrow> nat \<Rightarrow> u32 \<Rightarrow> nat \<Rightarrow> circular_buffer \<Rightarrow> 'e wifi_board \<Rightarrow> bool" where
  "server_ready srv k i a c b \<longleftrightarrow>
     wifi_ok (wifi_of b) \<and> length (conn (at (fst b))) = MAX_CONNECTIONS
     \<and> quiet (fst b) \<and> multiple_conections (at (fst b)) \<and> ipd_idx (at (fst b)) = 0 \<and> ipd_len (at (fst b)) = 0
     \<and> unat (result_len (at (fst b))) + 19 \<le> RESULT_BUFF_LEN
     \<and> k < MAX_CONNECTIONS \<and> \<not> active (conn (at (fst b)) ! k) \<and> conn_id_to_sock_id (wifi_of b) ! k = INVALID_ID
     \<and> server_id (server (wifi_of b)) = srv \<and> srv \<noteq> INVALID_ID \<and> sock_state (sock srv (wifi_of b)) = SOCKET_LISTENING
     \<and> (\<forall>j < NB_SOCKETS. sock_state (sockets (wifi_of b) ! j) \<noteq> SOCKET_WAITING_ACCEPT)
     \<and> fst (get_initialized_client_id (wifi_of b)) = i \<and> i \<noteq> INVALID_ID \<and> cb (sock i (wifi_of b)) = Some a
     \<and> cells (bufs (fst b)) a = Some c \<and> cb_ok c \<and> \<not> async_started (cb_write_ptr c) \<and> \<not> async_started (cb_read_ptr c)"

text \<open>A message for connection \<open>k\<close>, then accepting and receiving.\<close>

lemma wifi_server_flow:
  assumes "server_ready srv k i a c b" "payload \<noteq> []" "length (cb_contents c) + length payload \<le> unat (cb_size_field c)"
    and "sz \<noteq> 0" "unat sz \<le> length data" "n = min (length (cb_contents c @ payload)) (unat sz)"
  shows "\<exists>st' b2 b3. uart_bytes wifi_connection_callback (ipd_header k (length payload) @ payload) (fst b) = Some st'
    \<and> wifi_socket_accept srv (st', snd b) = Some (SUCCESS, i, b2)
    \<and> conn_id (sock i (wifi_of b2)) = of_nat k
    \<and> wifi_socket_recv i data sz b2 = Some (int n, take n (cb_contents c @ payload) @ drop n data, b3)"
proof -
  let ?w = "wifi_of b" and ?k = "of_nat k :: u32"
  have at: "wifi_ok ?w" "length (conn (at (fst b))) = MAX_CONNECTIONS" "quiet (fst b)" "multiple_conections (at (fst b))"
      "ipd_idx (at (fst b)) = 0" "ipd_len (at (fst b)) = 0" "unat (result_len (at (fst b))) + 19 \<le> RESULT_BUFF_LEN"
    and con: "k < MAX_CONNECTIONS" "\<not> active (conn (at (fst b)) ! k)" "conn_id_to_sock_id ?w ! k = INVALID_ID"
    and lis: "server_id (server ?w) = srv" "srv \<noteq> INVALID_ID" "sock_state (sock srv ?w) = SOCKET_LISTENING"
      "\<forall>j < NB_SOCKETS. sock_state (sockets ?w ! j) \<noteq> SOCKET_WAITING_ACCEPT"
    and cli: "fst (get_initialized_client_id ?w) = i" "i \<noteq> INVALID_ID" "cb (sock i ?w) = Some a"
    and c: "cells (bufs (fst b)) a = Some c" "cb_ok c" "\<not> async_started (cb_write_ptr c)" "\<not> async_started (cb_read_ptr c)"
    using assms(1) unfolding server_ready_def by blast+
  have init: "get_initialized_client_id ?w = (i, snd (get_initialized_client_id ?w))" using cli(1) by (metis prod.collapse)
  have k: "unat ?k = k" using con(1) by (simp add: unat_of_nat)
  let ?w2 = "?w\<lparr>sockets := (sockets ?w)[unat i := (sock i ?w)\<lparr>conn_id := ?k, sock_state := SOCKET_WAITING_ACCEPT\<rparr>],
        conn_id_to_sock_id := (conn_id_to_sock_id ?w)[k := i]\<rparr>"
  have cal: "wifi_connection_callback AT_NEW_CONNECTION ?k ?w = (Some a, ?w2)"
    and i: "unat i < NB_SOCKETS" "sock_state (sock i ?w) = SOCKET_DISCONNECTED"
    using wifi_new_client [OF at(1) _ _ init cli(2), of ?k] k con(1,3) cli(3) by simp_all
  obtain st' c' where st': "uart_bytes wifi_connection_callback (ipd_header k (length payload) @ payload) (fst b) = Some st'"
      "cells (bufs st') a = Some c'" "cb_ok c'" "cb_contents c' = cb_contents c @ payload"
      "cb_read_ptr c' = cb_read_ptr c" "app st' = ?w2"
    using payload_delivered [OF at(3-6,2) con(1) at(7), of wifi_connection_callback a ?w2 c payload]
      con(2) c(1-3) assms(2,3) cal by (auto simp: wifi_of_def)
  have len: "length (sockets ?w) = NB_SOCKETS" "unat srv < NB_SOCKETS" using at(1) lis(1,2) by (auto simp: wifi_ok_def)
  have srv: "srv \<noteq> i" using i(2) lis(3) by auto
  let ?w3 = "put_sock i (\<lambda>s. s\<lparr>sock_state := SOCKET_CONNECTED\<rparr>) ?w2"
  let ?b2 = "set_wifi ?w3 (st', snd b)"
  have "find (\<lambda>j. sock_state (sockets ?w2 ! j) = SOCKET_WAITING_ACCEPT) [0..<NB_SOCKETS] = Some (unat i)"
    using find_first_waiting [OF i(1) len(1) lis(4)] by simp
  moreover have "unat i \<noteq> unat srv" using srv by (simp add: word_unat_eq_iff)
  then have "sock srv ?w2 = sock srv ?w" by (simp add: sock_def)
  ultimately have acc: "wifi_socket_accept srv (st', snd b) = Some (SUCCESS, i, ?b2)"
    using lis(1,3) len(2) st'(6) by (simp add: wifi_socket_accept_def Let_def wifi_of_def)
  have s: "sock i ?w3 = (sock i ?w)\<lparr>conn_id := ?k, sock_state := SOCKET_CONNECTED\<rparr>"
    using i(1) len(1) by (simp add: put_sock_def sock_def)
  have "\<exists>c2. wifi_socket_recv i data sz ?b2 =
      Some (int n, take n (cb_contents c') @ drop n data, (set_cb a c2 (fst ?b2), snd ?b2))
    \<and> cb_ok c2 \<and> cb_contents c2 = drop n (cb_contents c')"
    using i(1) s srv lis(1) cli(3) c(4) assms(2,4-6) st'(2-5) by (intro wifi_socket_recv_takes) simp_all
  then obtain b3 where "wifi_socket_recv i data sz ?b2 = Some (int n, take n (cb_contents c @ payload) @ drop n data, b3)"
    unfolding st'(4) by blast
  moreover have "conn_id (sock i (wifi_of ?b2)) = ?k" using s by simp
  ultimately show ?thesis using st'(1) acc by blast
qed


text \<open>
  A server with one client socket whose ring still holds a byte of an earlier peer: the new
  peer's two bytes come after it.
\<close>

definition demo_sock :: "nat option \<Rightarrow> socket_state \<Rightarrow> socket_desc" where
  "demo_sock p s = \<lparr>cb = p, sock_cb_size = 4, sock_type = PROTOCOL_TCP, conn_id = INVALID_ID, sock_state = s\<rparr>"

definition demo_server :: wifi_desc where
  "demo_server = \<lparr>sockets = [demo_sock None SOCKET_LISTENING, demo_sock (Some 5) SOCKET_DISCONNECTED,
       demo_sock None SOCKET_UNUSED, demo_sock None SOCKET_UNUSED, demo_sock None SOCKET_UNUSED],
     server = \<lparr>server_id = 0, srv_port = 80, client_ids = [1, 0, 0, 0], back_log_clients = 1\<rparr>,
     conn_id_to_sock_id = replicate 4 INVALID_ID\<rparr>"

definition demo_board :: "unit wifi_board" where
  "demo_board = (\<lparr>at = at (demo_sys True), app = demo_server, bufs = bufs (demo_sys True), uart = Req_ch\<rparr>, ())"

lemma demo_server_ok: "wifi_ok demo_server"
  by (simp add: wifi_ok_def demo_server_def demo_sock_def)

lemma less_5: "(\<forall>j < 5. Q j) \<longleftrightarrow> Q 0 \<and> Q 1 \<and> Q 2 \<and> Q 3 \<and> Q (4 :: nat)"
  by (auto simp: numeral_eq_Suc less_Suc_eq)

lemma demo_server_ready: "server_ready 0 2 1 5 demo_ring demo_board"
proof -
  have w: "wifi_of demo_board = demo_server" by (simp add: demo_board_def wifi_of_def)
  have "\<forall>j < NB_SOCKETS. sock_state (sockets demo_server ! j) \<noteq> SOCKET_WAITING_ACCEPT"
    by (simp add: less_5 demo_server_def demo_sock_def)
  moreover have "fst (get_initialized_client_id demo_server) = 1" "conn_id_to_sock_id demo_server ! 2 = INVALID_ID"
    "server_id (server demo_server) = 0" "sock_state (sock 0 demo_server) = SOCKET_LISTENING" "cb (sock 1 demo_server) = Some 5"
    by (simp_all add: get_initialized_client_id_def demo_server_def sock_def demo_sock_def)
  moreover have "length (conn (at (fst demo_board))) = 4" "quiet (fst demo_board)" "multiple_conections (at (fst demo_board))"
    "ipd_idx (at (fst demo_board)) = 0" "ipd_len (at (fst demo_board)) = 0" "unat (result_len (at (fst demo_board))) = 3"
    "\<not> active (conn (at (fst demo_board)) ! 2)" "cells (bufs (fst demo_board)) 5 = Some demo_ring"
    by (simp_all add: demo_board_def demo_sys_def quiet_def demo_conn_def)
  moreover have "\<not> async_started (cb_read_ptr demo_ring)" by (simp add: demo_ring_def cb_ptr_zero_def)
  ultimately show ?thesis using demo_server_ok demo_ring_ok(1,2) unfolding server_ready_def w by simp
qed

section \<open>Errors of the module\<close>

text \<open>
  A socket that was bound and then closed stays the server: close disconnects only a
  socket that is not SOCKET_DISCONNECTED, and only that path clears the id. From then on no
  socket can be bound, and the structure, once opened again, cannot be connected.
\<close>

theorem wifi_bind_close_keeps_server:
  assumes "wifi_ok (wifi_of b)" "unat i < NB_SOCKETS" "server_id (server (wifi_of b)) = INVALID_ID"
    and "sock_state (sock i (wifi_of b)) = SOCKET_DISCONNECTED" "\<not> is_server_socket (wifi_of b) i"
    and "cb (sock i (wifi_of b)) = Some a" "cells (bufs (fst b)) a \<noteq> None"
  shows "\<exists>b1 b2. wifi_socket_bind i p b = (SUCCESS, b1) \<and> wifi_socket_close env i b1 = Some (SUCCESS, b2)
    \<and> sock_state (sock i (wifi_of b2)) = SOCKET_UNUSED
    \<and> (\<forall>j q. unat j < NB_SOCKETS \<longrightarrow> wifi_socket_bind j q b2 = (- EMLINK, b2))
    \<and> (\<forall>proto n b3 junk ad. wifi_socket_open proto n b2 = (SUCCESS, i, b3) \<longrightarrow>
         wifi_socket_connect env junk i ad b3 = Some (FAILURE, b3))"
proof -
  let ?w1 = "put_server (\<lambda>s. s\<lparr>server_id := i, srv_port := p\<rparr>) (wifi_of b)"
  let ?b1 = "set_wifi ?w1 b"
  have inv: "i \<noteq> INVALID_ID" using assms(2) by auto
  have len: "unat i < length (sockets (wifi_of b))" using assms(1,2) by (simp add: wifi_ok_def)
  have bind: "wifi_socket_bind i p b = (SUCCESS, ?b1)" using assms(2-4) by (simp add: wifi_socket_bind_def)
  obtain h where h: "cb_free (cb (sock i ?w1)) (bufs (fst ?b1)) = Some (SUCCESS, h)"
    using assms(6,7) by (auto simp: cb_free_def cfree_def sock_def)
  let ?b2 = "set_wifi (wifi_release_socket i (put_sock i (\<lambda>s. s\<lparr>cb := None\<rparr>) ?w1)) (set_heap h ?b1)"
  have st: "sock_state (sock i ?w1) = SOCKET_DISCONNECTED" "\<not> is_server_socket ?w1 i"
    using assms(4,5) by (simp_all add: sock_def is_server_socket_def put_server_def)
  have close: "wifi_socket_close env i ?b1 = Some (SUCCESS, ?b2)"
    using assms(2) st h
    by (simp add: wifi_socket_close_def socket_close_with_def socket_disconnect_with_def)
  have srv: "server_id (server (wifi_of ?b2)) = i" by (simp add: wifi_release_socket_def)
  have "sock_state (sock i (wifi_of ?b2)) = SOCKET_UNUSED"
    using len by (simp add: wifi_release_socket_def put_sock_def sock_def put_server_def)
  moreover have "\<forall>j q. unat j < NB_SOCKETS \<longrightarrow> wifi_socket_bind j q ?b2 = (- EMLINK, ?b2)"
    using srv inv by (simp add: wifi_socket_bind_def)
  moreover have "wifi_socket_connect env junk i ad b3 = Some (FAILURE, b3)"
    if "wifi_socket_open proto n ?b2 = (SUCCESS, i, b3)" for proto n b3 junk ad
    using wifi_socket_open_server [OF that] srv by (simp add: wifi_socket_connect_def)
  ultimately show ?thesis using bind close by blast
qed

theorem wifi_bind_close_keeps_server_witness:
  "\<exists>b1 b2. wifi_socket_bind 1 80 (set_wifi (put_server (\<lambda>s. s\<lparr>server_id := INVALID_ID, back_log_clients := 0\<rparr>) demo_server) demo_board) = (SUCCESS, b1)
    \<and> wifi_socket_close mute 1 b1 = Some (SUCCESS, b2) \<and> wifi_socket_bind 0 80 b2 = (- EMLINK, b2)"
proof -
  let ?b = "set_wifi (put_server (\<lambda>s. s\<lparr>server_id := INVALID_ID, back_log_clients := 0\<rparr>) demo_server) demo_board"
  have ok: "wifi_ok (wifi_of ?b)" using demo_server_ok by (simp add: wifi_ok_def put_server_def)
  have 1: "unat (1 :: u32) < NB_SOCKETS" "server_id (server (wifi_of ?b)) = INVALID_ID"
    "sock_state (sock 1 (wifi_of ?b)) = SOCKET_DISCONNECTED" "\<not> is_server_socket (wifi_of ?b) 1"
    "cb (sock 1 (wifi_of ?b)) = Some 5" "cells (bufs (fst ?b)) 5 \<noteq> None"
    by (simp_all add: put_server_def sock_def demo_server_def demo_sock_def is_server_socket_def demo_board_def demo_sys_def)
  obtain b1 b2 where "wifi_socket_bind 1 80 ?b = (SUCCESS, b1)" "wifi_socket_close mute 1 b1 = Some (SUCCESS, b2)"
    "\<forall>j q. unat j < NB_SOCKETS \<longrightarrow> wifi_socket_bind j q b2 = (- EMLINK, b2)"
    using wifi_bind_close_keeps_server [OF ok 1, of 80 mute] by blast
  then show ?thesis by (intro exI [of _ b1] exI [of _ b2]) simp
qed


text \<open>A command that is not answered fails, and leaves only its bytes in the command buffer.\<close>

definition parser_idle :: "'e wifi_board \<Rightarrow> bool" where
  "parser_idle b \<longleftrightarrow> length (cmd_buff (at (fst b))) = CMD_BUFF_LEN \<and> resp_idx (at (fst b)) = replicate 4 0
     \<and> result_len (at (fst b)) = 0"

lemma wifi_cmd_no_answer:
  assumes "silent env" "parser_idle b" "cmd_text (at (fst b)) cmd op param = Some t" "length t \<le> CMD_BUFF_LEN"
    and "cmd \<notin> {AT_SEND, AT_RESET, AT_DEEP_SLEEP, AT_DISCONNECT_NETWORK, AT_SET_TRANSPORT_MODE}" "op \<in> set (snd (g_map cmd))"
  shows "\<exists>d e'. wifi_cmd env cmd op param b = Some (FAILURE, None, ((fst b)\<lparr>at := d\<rparr>, e'))"
proof -
  obtain buf n where b: "build_cmd cmd op param (at (fst b)) = Some ((at (fst b))\<lparr>cmd_buff := buf, cmd_len := n\<rparr>)"
    using assms(2-4) by (simp add: build_cmd_all parser_idle_def put_all_def mem_write_def)
  let ?st = "(fst b)\<lparr>at := (at (fst b))\<lparr>cmd_buff := buf, cmd_len := n\<rparr>\<rparr>"
  obtain e' where "wait_for_response wifi_connection_callback env (uart_write env (cmd_bytes (?st, snd b)) (?st, snd b))
      = Some (FAILURE, (?st, e'))"
    using wait_no_answer [OF assms(1), of ?st] assms(2) by (auto simp: uart_write_def parser_idle_def)
  then have "send_cmd wifi_connection_callback env cmd param (?st, snd b) = Some (FAILURE, (?st, e'))"
    using assms(5) by (simp add: send_cmd_def)
  then show ?thesis
    using b assms(5,6) by (auto simp: wifi_cmd_def at_run_cmd_def run_cmd_def)
qed

text \<open>The command of wifi_socket_connect for socket \<open>i\<close>.\<close>

definition start_param :: "u16 \<times> udp_mode_t \<Rightarrow> socket_address \<Rightarrow> socket_desc \<Rightarrow> in_param" where
  "start_param junk ad s = In_connection \<lparr>start_id = conn_id s,
     soket_type = (case sock_type s of PROTOCOL_TCP \<Rightarrow> SOCKET_TCP | PROTOCOL_UDP \<Rightarrow> SOCKET_UDP),
     addr = bytes_of (sa_addr ad), port = sa_port ad, local_port = fst junk, udp_mode = snd junk\<rparr>"

lemma get_unused_conn_full: "INVALID_ID \<notin> set (conn_id_to_sock_id w) \<Longrightarrow> wifi_ok w \<Longrightarrow> wifi_get_unused_conn i w = (- EMLINK, w)"
  by (auto simp: wifi_get_unused_conn_def wifi_ok_def find_None_iff in_set_conv_nth split: option.split dest!: find_SomeD)

text \<open>
  Connecting cannot fail: the results of finding a free connection and of the command are
  kept in an unsigned variable, so the tests for an error never hold. With every connection of
  the module in use and a module that does not answer, a further socket is reported connected,
  with the connection id it had before: 0 in a fresh structure, which belongs to another
  socket. The table of connections does not know the socket.
\<close>

theorem wifi_connect_reports_success:
  assumes "silent env" "wifi_ok (wifi_of b)" "parser_idle b" "INVALID_ID \<notin> set (conn_id_to_sock_id (wifi_of b))"
    and "unat i < NB_SOCKETS" "i \<noteq> server_id (server (wifi_of b))" "sock_state (sock i (wifi_of b)) = SOCKET_DISCONNECTED"
    and "cmd_text (at (fst b)) AT_START_CONNECTION AT_SET_OP (Some (start_param junk ad (sock i (wifi_of b)))) = Some t"
      "length t \<le> CMD_BUFF_LEN"
  shows "\<exists>b'. wifi_socket_connect env junk i ad b = Some (SUCCESS, b')
    \<and> sock i (wifi_of b') = (sock i (wifi_of b))\<lparr>sock_state := SOCKET_CONNECTED\<rparr>
    \<and> (\<forall>j < NB_SOCKETS. j \<noteq> unat i \<longrightarrow> sockets (wifi_of b') ! j = sockets (wifi_of b) ! j)
    \<and> conn_id_to_sock_id (wifi_of b') = conn_id_to_sock_id (wifi_of b)"
proof -
  have full: "wifi_get_unused_conn i (wifi_of b) = (- EMLINK, wifi_of b)" using get_unused_conn_full assms(2,4) by blast
  have b: "set_wifi (wifi_of b) b = b" by (simp add: set_wifi_def wifi_of_def)
  obtain d e' where cmd: "wifi_cmd env AT_START_CONNECTION AT_SET_OP (Some (start_param junk ad (sock i (wifi_of b)))) b =
      Some (FAILURE, None, ((fst b)\<lparr>at := d\<rparr>, e'))"
    using wifi_cmd_no_answer [OF assms(1,3,8,9)] by auto
  let ?b = "((fst b)\<lparr>at := d\<rparr>, e')"
  have w: "wifi_of ?b = wifi_of b" by (simp add: wifi_of_def)
  have "wifi_socket_connect env junk i ad b = Some (SUCCESS,
      set_wifi (put_sock i (\<lambda>s. s\<lparr>sock_state := SOCKET_CONNECTED\<rparr>) (wifi_of b)) ?b)"
    using assms(5-7) full b cmd w by (simp add: wifi_socket_connect_def Let_def start_param_def)
  then show ?thesis using assms(2,5) by (simp add: put_sock_def sock_def wifi_ok_def)
qed


text \<open>Four sockets use the four connections; the fifth has just been opened.\<close>

definition demo_full :: wifi_desc where
  "demo_full = \<lparr>sockets = map (\<lambda>k. (demo_sock (Some k) SOCKET_CONNECTED)\<lparr>conn_id := of_nat k\<rparr>) [0..<4]
       @ [(demo_sock (Some 4) SOCKET_DISCONNECTED)\<lparr>conn_id := 0\<rparr>],
     server = server wifi_zero, conn_id_to_sock_id = [0, 1, 2, 3]\<rparr>"

theorem wifi_connect_reports_success_witness:
  "\<exists>b'. wifi_socket_connect mute (0, UDP_ENTITY_NO_CHANGE) 4 \<lparr>sa_addr = ''10.0.0.1'', sa_port = 80\<rparr>
      (set_wifi demo_full wifi_board0) = Some (SUCCESS, b')
    \<and> sock_state (sock 4 (wifi_of b')) = SOCKET_CONNECTED
    \<and> conn_id (sock 4 (wifi_of b')) = conn_id (sock 0 (wifi_of b'))"
proof -
  let ?b = "set_wifi demo_full wifi_board0" and ?junk = "(0 :: u16, UDP_ENTITY_NO_CHANGE)"
  let ?ad = "\<lparr>sa_addr = ''10.0.0.1'', sa_port = 80 :: u16\<rparr>"
  have upt4: "[0..<4] = [0, 1, 2, 3 :: nat]" by code_simp
  have ok: "wifi_ok (wifi_of ?b)" by (simp add: wifi_ok_def demo_full_def demo_sock_def wifi_zero_def upt4)
  have idle: "parser_idle ?b"
    by (simp add: parser_idle_def wifi_board0_def set_wifi_def at_zero_def length_responses del: replicate.simps)
  have sock: "sock 4 (wifi_of ?b) = (demo_sock (Some 4) SOCKET_DISCONNECTED)\<lparr>conn_id := 0\<rparr>"
    "sock 0 (wifi_of ?b) = (demo_sock (Some 0) SOCKET_CONNECTED)\<lparr>conn_id := 0\<rparr>"
    by (simp_all add: sock_def demo_full_def upt4)
  define as where "as = [Arg_s (bytes_of ''TCP''), Arg_s (bytes_of ''10.0.0.1''), Arg_d 80]"
  define t where "t = bytes_of (''AT'' @ ''+CIPSTART'') @ (bytes_of ''='' @ args_text as) @ bytes_of crlf"
  have "length t = 33" unfolding t_def as_def bytes_of_def crlf_def by code_simp
  moreover have "\<not> multiple_conections (at (fst ?b))" by (simp add: set_wifi_def wifi_board0_def at_zero_def)
  then have "cmd_text (at (fst ?b)) AT_START_CONNECTION AT_SET_OP (Some (start_param ?junk ?ad (sock 4 (wifi_of ?b)))) = Some t"
    by (simp add: cmd_text_def op_text_def cmd_args_def start_param_def sock(1) [simplified] demo_sock_def u16_arg_def t_def as_def)
  ultimately have t: "cmd_text (at (fst ?b)) AT_START_CONNECTION AT_SET_OP (Some (start_param ?junk ?ad (sock 4 (wifi_of ?b)))) = Some t"
    "length t \<le> CMD_BUFF_LEN" by simp_all
  have pre: "INVALID_ID \<notin> set (conn_id_to_sock_id (wifi_of ?b))" "unat (4 :: u32) < NB_SOCKETS"
    "4 \<noteq> server_id (server (wifi_of ?b))" "sock_state (sock 4 (wifi_of ?b)) = SOCKET_DISCONNECTED"
    using sock(1) by (simp_all add: demo_full_def wifi_zero_def demo_sock_def sock_def upt4)
  obtain b' where b': "wifi_socket_connect mute ?junk 4 ?ad ?b = Some (SUCCESS, b')"
    "sock 4 (wifi_of b') = (sock 4 (wifi_of ?b))\<lparr>sock_state := SOCKET_CONNECTED\<rparr>"
    "\<forall>j < NB_SOCKETS. j \<noteq> unat (4 :: u32) \<longrightarrow> sockets (wifi_of b') ! j = sockets (wifi_of ?b) ! j"
    using wifi_connect_reports_success [OF silent_mute ok idle pre t] by blast
  moreover have "sock 0 (wifi_of b') = sock 0 (wifi_of ?b)" using b'(3) by (simp add: sock_def)
  ultimately show ?thesis using sock by (intro exI [of _ b']) simp
qed

lemma length_show_int32: "length (show_int (sint (c :: u32))) \<le> 11"
proof -
  have "nat (- sint c) < 10 ^ 10" "nat (sint c) < 10 ^ 10"
    using sint_ge [of c] sint_lt [of c] by simp_all
  then have "length (show_nat (nat (- sint c))) \<le> 10" "length (show_nat (nat (sint c))) \<le> 10"
    by (simp_all only: length_show_nat)
  then show ?thesis by (simp add: show_int_def)
qed

text \<open>
  A client the server accepted and the application closes is lost to the server: its
  structure becomes SOCKET_UNUSED although it stays in the list of clients, and new peers are
  given only clients that are SOCKET_DISCONNECTED. When the other clients are busy, the next
  peer gets no socket. (When it is the peer that hangs up, the socket can be used again.)
\<close>

theorem wifi_close_loses_client:
  assumes "silent env" "wifi_ok (wifi_of b)" "parser_idle b" "unat i < NB_SOCKETS" "i \<noteq> server_id (server (wifi_of b))"
    and "sock_state (sock i (wifi_of b)) = SOCKET_CONNECTED" "is_server_socket (wifi_of b) i"
    and "\<forall>j \<in> set (clients (wifi_of b)). sock_state (sock j (wifi_of b)) \<noteq> SOCKET_DISCONNECTED"
  shows "\<exists>b'. wifi_socket_close env i b = Some (SUCCESS, b') \<and> sock_state (sock i (wifi_of b')) = SOCKET_UNUSED
    \<and> is_server_socket (wifi_of b') i \<and> get_initialized_client_id (wifi_of b') = (INVALID_ID, wifi_of b')"
proof -
  let ?w = "wifi_of b" and ?c = "conn_id (sock i (wifi_of b))"
  have len: "unat i < length (sockets ?w)" using assms(2,4) by (simp add: wifi_ok_def)
  have "length (show_int (sint ?c)) \<le> 11" by (rule length_show_int32)
  then obtain t where t: "cmd_text (at (fst b)) AT_STOP_CONNECTION AT_SET_OP (Some (In_conn_id ?c)) = Some t" "length t \<le> CMD_BUFF_LEN"
    by (simp add: cmd_text_def op_text_def cmd_args_def u32_arg_def bytes_of_def crlf_def)
  obtain d e' where cmd: "wifi_cmd env AT_STOP_CONNECTION AT_SET_OP (Some (In_conn_id ?c)) b =
      Some (FAILURE, None, ((fst b)\<lparr>at := d\<rparr>, e'))"
    using wifi_cmd_no_answer [OF assms(1,3) t] by auto
  let ?b = "((fst b)\<lparr>at := d\<rparr>, e')"
  let ?w1 = "put_sock i (\<lambda>s. s\<lparr>sock_state := SOCKET_DISCONNECTED\<rparr>) (wifi_release_conn i ?w)"
  let ?w2 = "wifi_release_socket i ?w1"
  have w: "wifi_of ?b = ?w" by (simp add: wifi_of_def)
  have srv: "server ?w1 = server ?w" "server ?w2 = server ?w"
    by (simp_all add: wifi_release_conn_def wifi_release_socket_def Let_def)
  have "wifi_socket_close env i b = Some (SUCCESS, set_wifi ?w2 ?b)"
    using assms(4-7) cmd w srv(1)
    by (simp add: wifi_socket_close_def socket_close_with_def socket_disconnect_with_def is_server_socket_def)
  moreover have unused: "sock_state (sock i ?w2) = SOCKET_UNUSED"
    using len by (simp add: wifi_release_conn_def wifi_release_socket_def put_sock_def sock_def Let_def)
  moreover have "sock j ?w2 = sock j ?w" if "unat i \<noteq> unat j" for j
    using that by (simp add: wifi_release_conn_def wifi_release_socket_def put_sock_def sock_def Let_def)
  with unused assms(8) have "sock_state (sock j ?w2) \<noteq> SOCKET_DISCONNECTED" if "j \<in> set (clients ?w)" for j
    using that by (cases "j = i") (simp, metis word_unat_eq_iff)
  then have "find (\<lambda>j. sock_state (sock j ?w2) = SOCKET_DISCONNECTED) (clients ?w) = None"
    by (simp add: find_None_iff)
  then have "get_initialized_client_id ?w2 = (INVALID_ID, ?w2)"
    unfolding get_initialized_client_id_def srv(2) clients_def by simp
  moreover have "is_server_socket ?w2 i" using assms(7) srv(2) by (simp add: is_server_socket_def)
  ultimately show ?thesis by (intro exI [of _ "set_wifi ?w2 ?b"]) simp
qed


theorem wifi_close_loses_client_witness:
  "\<exists>b'. wifi_socket_close mute 1 (set_wifi (put_sock 1 (\<lambda>s. s\<lparr>sock_state := SOCKET_CONNECTED, conn_id := 2\<rparr>) demo_server) wifi_board0)
      = Some (SUCCESS, b') \<and> get_initialized_client_id (wifi_of b') = (INVALID_ID, wifi_of b')"
proof -
  let ?w = "put_sock 1 (\<lambda>s. s\<lparr>sock_state := SOCKET_CONNECTED, conn_id := 2\<rparr>) demo_server"
  let ?b = "set_wifi ?w wifi_board0"
  have ok: "wifi_ok (wifi_of ?b)" using put_sock_ok [OF demo_server_ok] by simp
  have idle: "parser_idle ?b"
    by (simp add: parser_idle_def wifi_board0_def set_wifi_def at_zero_def length_responses del: replicate.simps)
  have pre: "unat (1 :: u32) < NB_SOCKETS" "1 \<noteq> server_id (server (wifi_of ?b))" "sock_state (sock 1 (wifi_of ?b)) = SOCKET_CONNECTED"
    "is_server_socket (wifi_of ?b) 1" "\<forall>j \<in> set (clients (wifi_of ?b)). sock_state (sock j (wifi_of ?b)) \<noteq> SOCKET_DISCONNECTED"
    by (simp_all add: demo_server_def put_sock_def sock_def demo_sock_def is_server_socket_def clients_def)
  show ?thesis using wifi_close_loses_client [OF silent_mute ok idle pre] by blast
qed

end
