(* ===== verification/Tcp_Socket.thy ===== *)
theory Tcp_Socket
  imports Wifi
begin

text \<open>
  network/tcp_socket.c: TCP sockets, optionally over TLS, on a network interface
  (network/network_interface.h), and the interface wifi.c provides (wifi_init_interface).

  A network interface is a record of its functions on the state of the network. The TLS
  library and the random number generator are not part of the repository: their calls are
  the fields of a record, which gets the two wrappers the library calls back (tls_net_send,
  tls_net_recv). The build is the one with secure sockets; without them, \<open>secure\<close> is NULL.
\<close>

section \<open>Data\<close>

record 'n network_interface =
  net_open :: "socket_protocol \<Rightarrow> u32 \<Rightarrow> 'n \<Rightarrow> (int \<times> u32 \<times> 'n) option"
  net_close :: "u32 \<Rightarrow> 'n \<Rightarrow> (int \<times> 'n) option"
  net_connect :: "u32 \<Rightarrow> socket_address \<Rightarrow> 'n \<Rightarrow> (int \<times> 'n) option"
  net_disconnect :: "u32 \<Rightarrow> 'n \<Rightarrow> (int \<times> 'n) option"
  net_send :: "u32 \<Rightarrow> u8 list \<Rightarrow> u32 \<Rightarrow> 'n \<Rightarrow> (int \<times> 'n) option"
  net_recv :: "u32 \<Rightarrow> u8 list \<Rightarrow> u32 \<Rightarrow> 'n \<Rightarrow> (int \<times> u8 list \<times> 'n) option"
  net_sendto :: "u32 \<Rightarrow> u8 list \<Rightarrow> u32 \<Rightarrow> socket_address \<Rightarrow> 'n \<Rightarrow> (int \<times> 'n) option"
  net_recvfrom :: "u32 \<Rightarrow> u8 list \<Rightarrow> u32 \<Rightarrow> 'n \<Rightarrow> (int \<times> 'n) option"
  net_bind :: "u32 \<Rightarrow> u16 \<Rightarrow> 'n \<Rightarrow> (int \<times> 'n) option"
  net_listen :: "u32 \<Rightarrow> u32 \<Rightarrow> 'n \<Rightarrow> (int \<times> 'n) option"
  net_accept :: "u32 \<Rightarrow> 'n \<Rightarrow> (int \<times> u32 \<times> 'n) option"

text \<open>The wrappers given to mbedtls_ssl_set_bio.\<close>

record 'n tls_bio =
  bio_send :: "u8 list \<Rightarrow> u32 \<Rightarrow> 'n \<Rightarrow> (int \<times> 'n) option"
  bio_recv :: "u8 list \<Rightarrow> u32 \<Rightarrow> 'n \<Rightarrow> (int \<times> u8 list \<times> 'n) option"

text \<open>
  The calls of the TLS library, on its contexts (certificates, key, configuration and
  session) as one state, and trng_init. \<open>want_read\<close> is MBEDTLS_ERR_SSL_WANT_READ.
\<close>

record ('s, 'n) tls_lib =
  want_read :: int
  trng_init :: int
  ssl_config_defaults :: "'s \<Rightarrow> int \<times> 's"
  ca_crt_parse :: "u8 list \<Rightarrow> 's \<Rightarrow> int \<times> 's"
  ssl_conf_ca_chain :: "'s \<Rightarrow> 's"
  ssl_conf_authmode :: "bool \<Rightarrow> 's \<Rightarrow> 's"
  cli_crt_parse :: "u8 list \<Rightarrow> 's \<Rightarrow> int \<times> 's"
  pk_parse_key :: "u8 list \<Rightarrow> 's \<Rightarrow> int \<times> 's"
  ssl_conf_own_cert :: "'s \<Rightarrow> int \<times> 's"
  ssl_conf_rng :: "'s \<Rightarrow> 's"
  ssl_setup :: "'s \<Rightarrow> int \<times> 's"
  ssl_handshake :: "'n tls_bio \<Rightarrow> 's \<Rightarrow> 'n \<Rightarrow> (int \<times> 's \<times> 'n) option"
  ssl_close_notify :: "'n tls_bio \<Rightarrow> 's \<Rightarrow> 'n \<Rightarrow> (int \<times> 's \<times> 'n) option"
  ssl_write :: "'n tls_bio \<Rightarrow> u8 list \<Rightarrow> u32 \<Rightarrow> 's \<Rightarrow> 'n \<Rightarrow> (int \<times> 's \<times> 'n) option"
  ssl_read :: "'n tls_bio \<Rightarrow> u8 list \<Rightarrow> u32 \<Rightarrow> 's \<Rightarrow> 'n \<Rightarrow> (int \<times> u8 list \<times> 's \<times> 'n) option"

record secure_init_param =
  ca_cert :: "u8 list option"
  cli_cert :: "u8 list option"
  cli_pk :: "u8 list option"

record tcp_socket_init_param =
  max_buff_size :: u32
  secure_param :: "secure_init_param option"

record 's secure_socket_desc =
  has_trng :: bool
  ssl :: 's

text \<open>A pointer to the secure descriptor, which may outlive it.\<close>

datatype 'd secure_ptr = Null | Live 'd | Freed

record 's tcp_socket_desc =
  tcp_id :: u32
  secure :: "'s secure_socket_desc secure_ptr"

text \<open>
  What is held: blocks of calloc, random number generators, session buffers of the library,
  contexts of the library that were initialised (and may own memory) and not freed, and the
  sockets the network has opened and not closed.
\<close>

datatype tls_ctx = CTX_CONF | CTX_CACERT | CTX_CLICERT | CTX_PKEY

record resources =
  blocks :: int
  trngs :: int
  sessions :: int
  ctxs :: "tls_ctx \<Rightarrow> int"
  nets :: "u32 \<Rightarrow> int"

definition no_resources :: resources where
  "no_resources = \<lparr>blocks = 0, trngs = 0, sessions = 0, ctxs = (\<lambda>_. 0), nets = (\<lambda>_. 0)\<rparr>"

definition ctx_init :: "tls_ctx \<Rightarrow> resources \<Rightarrow> resources" where
  "ctx_init x r = r\<lparr>ctxs := (\<lambda>y. ctxs r y + of_bool (y = x))\<rparr>"

definition ctx_free :: "tls_ctx \<Rightarrow> resources \<Rightarrow> resources" where
  "ctx_free x r = r\<lparr>ctxs := (\<lambda>y. ctxs r y - of_bool (y = x))\<rparr>"

definition net_opened :: "u32 \<Rightarrow> resources \<Rightarrow> resources" where
  "net_opened i r = r\<lparr>nets := (\<lambda>j. nets r j + of_bool (j = i))\<rparr>"

text \<open>A socket that cannot be closed stays open.\<close>

definition net_closed :: "int \<Rightarrow> u32 \<Rightarrow> resources \<Rightarrow> resources" where
  "net_closed ret i r = (if IS_ERR_VALUE ret then r else r\<lparr>nets := (\<lambda>j. nets r j - of_bool (j = i))\<rparr>)"

definition DEFAULT_CONNECTION_BUFFER_SIZE :: u32 where "DEFAULT_CONNECTION_BUFFER_SIZE = 2500"

section \<open>The secure descriptor\<close>

definition tls_net_recv :: "('s, 'n) tls_lib \<Rightarrow> 'n network_interface \<Rightarrow> u32 \<Rightarrow> u8 list \<Rightarrow> u32 \<Rightarrow> 'n \<Rightarrow>
    (int \<times> u8 list \<times> 'n) option" where
  "tls_net_recv tls net i buff len n = do {
     (ret, buff, n) \<leftarrow> net_recv net i buff len n;
     if ret = - EAGAIN then Some (want_read tls, buff, n) else Some (ret, buff, n)}"

definition tls_net_send :: "'n network_interface \<Rightarrow> u32 \<Rightarrow> u8 list \<Rightarrow> u32 \<Rightarrow> 'n \<Rightarrow> (int \<times> 'n) option" where
  "tls_net_send net i buff len n = net_send net i buff len n"

definition bio_of :: "('s, 'n) tls_lib \<Rightarrow> 'n network_interface \<Rightarrow> u32 \<Rightarrow> 'n tls_bio" where
  "bio_of tls net i = \<lparr>bio_send = tls_net_send net i, bio_recv = tls_net_recv tls net i\<rparr>"

definition stcp_socket_remove :: "'s secure_socket_desc \<Rightarrow> resources \<Rightarrow> resources" where
  "stcp_socket_remove d r =
     (let r = ctx_free CTX_PKEY r;
          r = ctx_free CTX_CLICERT r;
          r = ctx_free CTX_CACERT r;
          r = ctx_free CTX_CONF r;
          r = (if has_trng d then r\<lparr>trngs := trngs r - 1\<rparr> else r)
      in r\<lparr>blocks := blocks r - 1\<rparr>)"

text \<open>The next call of stcp_socket_init, unless the one before failed.\<close>

definition unless_err :: "int \<times> 's \<Rightarrow> ('s \<Rightarrow> int \<times> 's) \<Rightarrow> int \<times> 's" where
  "unless_err x f = (if IS_ERR_VALUE (fst x) then x else f (snd x))"

definition conf_ca :: "('s, 'n) tls_lib \<Rightarrow> u8 list option \<Rightarrow> 's \<Rightarrow> int \<times> 's" where
  "conf_ca tls cert s = (case cert of
     Some c \<Rightarrow> unless_err (ca_crt_parse tls c s)
       (\<lambda>s. (SUCCESS, ssl_conf_authmode tls True (ssl_conf_ca_chain tls s)))
   | None \<Rightarrow> (SUCCESS, ssl_conf_authmode tls False s))"

definition conf_cli :: "('s, 'n) tls_lib \<Rightarrow> u8 list option \<Rightarrow> u8 list option \<Rightarrow> 's \<Rightarrow> int \<times> 's" where
  "conf_cli tls cert pk s = (case cert of
     None \<Rightarrow> (SUCCESS, s)
   | Some c \<Rightarrow> (case pk of
       None \<Rightarrow> (- EINVAL, s)
     | Some k \<Rightarrow> unless_err (unless_err (cli_crt_parse tls c s) (pk_parse_key tls k)) (ssl_conf_own_cert tls)))"

text \<open>\<open>alloc_ok\<close> is the outcome of calloc, \<open>s0\<close> the contexts as their init functions leave them.\<close>

definition stcp_socket_init :: "('s, 'n) tls_lib \<Rightarrow> bool \<Rightarrow> 's \<Rightarrow> secure_init_param \<Rightarrow> resources \<Rightarrow>
    int \<times> 's secure_socket_desc option \<times> resources" where
  "stcp_socket_init tls alloc_ok s0 param r =
     (if \<not> alloc_ok then (FAILURE, None, r)
      else let r = r\<lparr>blocks := blocks r + 1\<rparr>;
          r = ctx_init CTX_CONF r;
          r = ctx_init CTX_CACERT r;
          r = ctx_init CTX_CLICERT r;
          r = ctx_init CTX_PKEY r in
      if IS_ERR_VALUE (trng_init tls)
      then (trng_init tls, None, stcp_socket_remove \<lparr>has_trng = False, ssl = s0\<rparr> r)
      else let r = r\<lparr>trngs := trngs r + 1\<rparr> in
      case unless_err (unless_err (unless_err (ssl_config_defaults tls s0)
             (conf_ca tls (ca_cert param))) (conf_cli tls (cli_cert param) (cli_pk param)))
             (\<lambda>s. ssl_setup tls (ssl_conf_rng tls s)) of
        (ret, s) \<Rightarrow>
          if IS_ERR_VALUE ret then (ret, None, stcp_socket_remove \<lparr>has_trng = True, ssl = s\<rparr> r)
          else (SUCCESS, Some \<lparr>has_trng = True, ssl = s\<rparr>, r\<lparr>sessions := sessions r + 1\<rparr>))"

section \<open>Sockets\<close>

text \<open>\<open>params\<close> is absent where an argument is NULL; \<open>alloc_ok\<close> and \<open>salloc_ok\<close> are the allocations.\<close>

definition socket_init :: "('s, 'n) tls_lib \<Rightarrow> 'n network_interface \<Rightarrow> bool \<Rightarrow> bool \<Rightarrow> 's \<Rightarrow>
    tcp_socket_init_param option \<Rightarrow> resources \<Rightarrow> 'n \<Rightarrow> (int \<times> 's tcp_socket_desc option \<times> resources \<times> 'n) option" where
  "socket_init tls net alloc_ok salloc_ok s0 params r n = (case params of
     None \<Rightarrow> Some (FAILURE, None, r, n)
   | Some param \<Rightarrow>
      if \<not> alloc_ok then Some (FAILURE, None, r, n)
      else do {
        let r = r\<lparr>blocks := blocks r + 1\<rparr>;
        let buff_size = (if max_buff_size param \<noteq> 0 then max_buff_size param else DEFAULT_CONNECTION_BUFFER_SIZE);
        (ret, i, n) \<leftarrow> net_open net PROTOCOL_TCP buff_size n;
        if IS_ERR_VALUE ret then Some (ret, None, r\<lparr>blocks := blocks r - 1\<rparr>, n)
        else (case secure_param param of
            None \<Rightarrow> Some (SUCCESS, Some \<lparr>tcp_id = i, secure = Null\<rparr>, net_opened i r, n)
          | Some sp \<Rightarrow> (case stcp_socket_init tls salloc_ok s0 sp (net_opened i r) of
              (ret, d, r) \<Rightarrow>
                if IS_ERR_VALUE ret then do {
                  (c, n) \<leftarrow> net_close net i n;
                  let r = net_closed c i r;
                  Some (ret, None, r\<lparr>blocks := blocks r - 1\<rparr>, n)}
                else do {
                  d \<leftarrow> d;
                  Some (SUCCESS, Some \<lparr>tcp_id = i, secure = Live d\<rparr>, r, n)}))})"

text \<open>The secure descriptor is freed first; a socket that cannot be closed keeps the pointer.\<close>

definition socket_remove :: "'n network_interface \<Rightarrow> 's tcp_socket_desc option \<Rightarrow> resources \<Rightarrow> 'n \<Rightarrow>
    (int \<times> 's tcp_socket_desc option \<times> resources \<times> 'n) option" where
  "socket_remove net desc r n = (case desc of
     None \<Rightarrow> Some (FAILURE, None, r, n)
   | Some desc \<Rightarrow> do {
       (desc, r) \<leftarrow> (case secure desc of
           Null \<Rightarrow> Some (desc, r)
         | Live d \<Rightarrow> Some (desc\<lparr>secure := Freed\<rparr>, stcp_socket_remove d r)
         | Freed \<Rightarrow> None);
       (ret, n) \<leftarrow> net_close net (tcp_id desc) n;
       let r = net_closed ret (tcp_id desc) r;
       if IS_ERR_VALUE ret then Some (ret, Some desc, r, n)
       else Some (SUCCESS, None, r\<lparr>blocks := blocks r - 1\<rparr>, n)})"

text \<open>The loop over mbedtls_ssl_handshake ends when it does not want more input.\<close>

partial_function (option) handshake_loop :: "('s, 'n) tls_lib \<Rightarrow> 'n tls_bio \<Rightarrow> 's \<Rightarrow> 'n \<Rightarrow> (int \<times> 's \<times> 'n) option" where
  "handshake_loop tls bio s n = do {
     (ret, s, n) \<leftarrow> ssl_handshake tls bio s n;
     if ret = want_read tls then handshake_loop tls bio s n else Some (ret, s, n)}"

definition socket_connect :: "('s, 'n) tls_lib \<Rightarrow> 'n network_interface \<Rightarrow> 's tcp_socket_desc option \<Rightarrow> socket_address option \<Rightarrow>
    'n \<Rightarrow> (int \<times> 's tcp_socket_desc option \<times> 'n) option" where
  "socket_connect tls net desc ad n = (case (desc, ad) of
     (Some desc, Some ad) \<Rightarrow> do {
       (ret, n) \<leftarrow> net_connect net (tcp_id desc) ad n;
       if IS_ERR_VALUE ret then Some (ret, Some desc, n)
       else (case secure desc of
           Null \<Rightarrow> Some (SUCCESS, Some desc, n)
         | Live d \<Rightarrow> do {
             (ret, s, n) \<leftarrow> handshake_loop tls (bio_of tls net (tcp_id desc)) (ssl d) n;
             let desc = desc\<lparr>secure := Live (d\<lparr>ssl := s\<rparr>)\<rparr>;
             if IS_ERR_VALUE ret then Some (ret, Some desc, n) else Some (SUCCESS, Some desc, n)}
         | Freed \<Rightarrow> None)}
   | _ \<Rightarrow> Some (FAILURE, desc, n))"

definition socket_disconnect :: "('s, 'n) tls_lib \<Rightarrow> 'n network_interface \<Rightarrow> 's tcp_socket_desc option \<Rightarrow>
    'n \<Rightarrow> (int \<times> 's tcp_socket_desc option \<times> 'n) option" where
  "socket_disconnect tls net desc n = (case desc of
     None \<Rightarrow> Some (FAILURE, None, n)
   | Some desc \<Rightarrow> do {
       (desc, n) \<leftarrow> (case secure desc of
           Null \<Rightarrow> Some (desc, n)
         | Live d \<Rightarrow> do {
             (_, s, n) \<leftarrow> ssl_close_notify tls (bio_of tls net (tcp_id desc)) (ssl d) n;
             Some (desc\<lparr>secure := Live (d\<lparr>ssl := s\<rparr>)\<rparr>, n)}
         | Freed \<Rightarrow> None);
       (ret, n) \<leftarrow> net_disconnect net (tcp_id desc) n;
       Some (ret, Some desc, n)})"

definition socket_send :: "('s, 'n) tls_lib \<Rightarrow> 'n network_interface \<Rightarrow> 's tcp_socket_desc option \<Rightarrow> u8 list \<Rightarrow> u32 \<Rightarrow>
    'n \<Rightarrow> (int \<times> 's tcp_socket_desc option \<times> 'n) option" where
  "socket_send tls net desc data len n = (case desc of
     None \<Rightarrow> Some (FAILURE, None, n)
   | Some desc \<Rightarrow> (case secure desc of
       Null \<Rightarrow> map_option (\<lambda>(ret, n). (ret, Some desc, n)) (net_send net (tcp_id desc) data len n)
     | Live d \<Rightarrow> map_option (\<lambda>(ret, s, n). (ret, Some (desc\<lparr>secure := Live (d\<lparr>ssl := s\<rparr>)\<rparr>), n))
         (ssl_write tls (bio_of tls net (tcp_id desc)) data len (ssl d) n)
     | Freed \<Rightarrow> None))"

definition socket_recv :: "('s, 'n) tls_lib \<Rightarrow> 'n network_interface \<Rightarrow> 's tcp_socket_desc option \<Rightarrow> u8 list \<Rightarrow> u32 \<Rightarrow>
    'n \<Rightarrow> (int \<times> u8 list \<times> 's tcp_socket_desc option \<times> 'n) option" where
  "socket_recv tls net desc data len n = (case desc of
     None \<Rightarrow> Some (FAILURE, data, None, n)
   | Some desc \<Rightarrow> (case secure desc of
       Null \<Rightarrow> map_option (\<lambda>(ret, data, n). (ret, data, Some desc, n)) (net_recv net (tcp_id desc) data len n)
     | Live d \<Rightarrow> do {
         (ret, data, s, n) \<leftarrow> ssl_read tls (bio_of tls net (tcp_id desc)) data len (ssl d) n;
         let desc = desc\<lparr>secure := Live (d\<lparr>ssl := s\<rparr>)\<rparr>;
         if ret = want_read tls then Some (- EAGAIN, data, Some desc, n) else Some (ret, data, Some desc, n)}
     | Freed \<Rightarrow> None))"

text \<open>These three use the descriptor without a check for NULL.\<close>

definition socket_bind :: "'n network_interface \<Rightarrow> 's tcp_socket_desc option \<Rightarrow> u16 \<Rightarrow> 'n \<Rightarrow> (int \<times> 'n) option" where
  "socket_bind net desc p n = do {
     desc \<leftarrow> desc;
     if secure desc \<noteq> Null then Some (- ENOSYS, n) else net_bind net (tcp_id desc) p n}"

definition socket_listen :: "'n network_interface \<Rightarrow> 's tcp_socket_desc option \<Rightarrow> u32 \<Rightarrow> 'n \<Rightarrow> (int \<times> 'n) option" where
  "socket_listen net desc back_log n = do {
     desc \<leftarrow> desc;
     if secure desc \<noteq> Null then Some (- ENOSYS, n) else net_listen net (tcp_id desc) back_log n}"

text \<open>When the descriptor of the client cannot be allocated, it is the server that is closed.\<close>

definition socket_accept :: "'n network_interface \<Rightarrow> bool \<Rightarrow> 's tcp_socket_desc option \<Rightarrow> resources \<Rightarrow> 'n \<Rightarrow>
    (int \<times> 's tcp_socket_desc option \<times> resources \<times> 'n) option" where
  "socket_accept net alloc_ok desc r n = do {
     desc \<leftarrow> desc;
     if secure desc \<noteq> Null then Some (- ENOSYS, None, r, n)
     else do {
       (ret, new_cli_id, n) \<leftarrow> net_accept net (tcp_id desc) n;
       if IS_ERR_VALUE ret then Some (ret, None, r, n)
       else if \<not> alloc_ok then do {
         (c, n) \<leftarrow> net_close net (tcp_id desc) n;
         Some (- ENOMEM, None, net_closed c (tcp_id desc) (net_opened new_cli_id r), n)}
       else
         let r = net_opened new_cli_id r in
         Some (SUCCESS, Some \<lparr>tcp_id = new_cli_id, secure = Null\<rparr>, r\<lparr>blocks := blocks r + 1\<rparr>, n)}}"

section \<open>The interface of the WiFi module\<close>

definition wifi_init_interface :: "'e uart_env \<Rightarrow> u16 \<times> udp_mode_t \<Rightarrow> 'e wifi_board network_interface" where
  "wifi_init_interface env junk = \<lparr>
     net_open = (\<lambda>proto sz b. Some (wifi_socket_open proto sz b)),
     net_close = wifi_socket_close env,
     net_connect = wifi_socket_connect env junk,
     net_disconnect = wifi_socket_disconnect env,
     net_send = wifi_socket_send env,
     net_recv = wifi_socket_recv,
     net_sendto = (\<lambda>i data sz t b. Some (wifi_socket_sendto i data sz t b)),
     net_recvfrom = (\<lambda>i data sz b. Some (wifi_socket_recvfrom i data sz b)),
     net_bind = (\<lambda>i p b. Some (wifi_socket_bind i p b)),
     net_listen = wifi_socket_listen env,
     net_accept = wifi_socket_accept\<rparr>"


definition wifi_get_network_interface :: "'e uart_env \<Rightarrow> u16 \<times> udp_mode_t \<Rightarrow> 'e wifi_board option \<Rightarrow> bool \<Rightarrow>
    int \<times> 'e wifi_board network_interface option" where
  "wifi_get_network_interface env junk desc has_net =
     (if desc = None \<or> \<not> has_net then (FAILURE, None) else (SUCCESS, Some (wifi_init_interface env junk)))"

section \<open>Clients of a network interface\<close>

text \<open>
  The contract between the sockets and the network below: an invariant of the network every
  function of the interface keeps. The TLS library reaches the network only through the
  functions it was given.
\<close>

definition bio_keeps :: "('n \<Rightarrow> bool) \<Rightarrow> 'n tls_bio \<Rightarrow> bool" where
  "bio_keeps P bio \<longleftrightarrow> (\<forall>data len n. P n \<longrightarrow>
     post (\<lambda>(r, n'). P n') (bio_send bio data len n) \<and> post (\<lambda>(r, d, n'). P n') (bio_recv bio data len n))"

definition tls_through_bio :: "('n \<Rightarrow> bool) \<Rightarrow> ('s, 'n) tls_lib \<Rightarrow> bool" where
  "tls_through_bio P tls \<longleftrightarrow> (\<forall>bio data len s n. bio_keeps P bio \<longrightarrow> P n \<longrightarrow>
     post (\<lambda>(r, s', n'). P n') (ssl_handshake tls bio s n) \<and> post (\<lambda>(r, s', n'). P n') (ssl_close_notify tls bio s n)
     \<and> post (\<lambda>(r, s', n'). P n') (ssl_write tls bio data len s n)
     \<and> post (\<lambda>(r, d, s', n'). P n') (ssl_read tls bio data len s n))"

lemma tls_through_bioD:
  assumes "tls_through_bio P tls" "bio_keeps P bio" "P n"
  shows "post (\<lambda>(r, s', n'). P n') (ssl_handshake tls bio s n)" "post (\<lambda>(r, s', n'). P n') (ssl_close_notify tls bio s n)"
    "post (\<lambda>(r, s', n'). P n') (ssl_write tls bio data len s n)" "post (\<lambda>(r, d, s', n'). P n') (ssl_read tls bio data len s n)"
  using assms unfolding tls_through_bio_def by blast+

locale net_provider =
  fixes net :: "'n network_interface" and P :: "'n \<Rightarrow> bool"
  assumes open_keeps: "P n \<Longrightarrow> post (\<lambda>(r, i, n'). P n') (net_open net proto sz n)"
    and close_keeps: "P n \<Longrightarrow> post (\<lambda>(r, n'). P n') (net_close net i n)"
    and connect_keeps: "P n \<Longrightarrow> post (\<lambda>(r, n'). P n') (net_connect net i ad n)"
    and disconnect_keeps: "P n \<Longrightarrow> post (\<lambda>(r, n'). P n') (net_disconnect net i n)"
    and send_keeps: "P n \<Longrightarrow> post (\<lambda>(r, n'). P n') (net_send net i data sz n)"
    and recv_keeps: "P n \<Longrightarrow> post (\<lambda>(r, d, n'). P n') (net_recv net i data sz n)"
    and bind_keeps: "P n \<Longrightarrow> post (\<lambda>(r, n'). P n') (net_bind net i p n)"
    and listen_keeps: "P n \<Longrightarrow> post (\<lambda>(r, n'). P n') (net_listen net i m n)"
    and accept_keeps: "P n \<Longrightarrow> post (\<lambda>(r, j, n'). P n') (net_accept net i n)"
begin

lemma bio_of_keeps: "bio_keeps P (bio_of tls net i)"
  unfolding bio_keeps_def bio_of_def
  by (auto simp: tls_net_send_def tls_net_recv_def send_keeps intro!: post_intro post_bind [OF recv_keeps])

lemma socket_init_keeps:
  "P n \<Longrightarrow> post (\<lambda>(ret, d, r', n'). P n') (socket_init tls net al sal s0 params r n)"
  unfolding socket_init_def Let_def
  by (auto intro!: post_intro post_bind [OF open_keeps] post_bind [OF close_keeps]
      post_bind [OF post_any [of "d :: 's secure_socket_desc option" for d]] split: prod.splits)

lemma socket_remove_keeps: "P n \<Longrightarrow> post (\<lambda>(ret, d, r', n'). P n') (socket_remove net desc r n)"
  unfolding socket_remove_def Let_def
  by (auto intro!: post_intro post_bind [OF close_keeps] split: secure_ptr.splits)

lemma handshake_loop_keeps:
  assumes "tls_through_bio P tls" "bio_keeps P bio" "P n"
  shows "post (\<lambda>(ret, s', n'). P n') (handshake_loop tls bio s n)"
proof -
  have "tls_through_bio P tls \<longrightarrow> bio_keeps P bio \<longrightarrow> P n \<longrightarrow> P (snd (snd r))"
    if "handshake_loop tls bio s n = Some r" for r
  proof (rule handshake_loop.raw_induct [OF _ that])
    fix loop and tls :: "('a, 'n) tls_lib" and bio s n r
    assume IH: "\<And>tls bio s n r. loop tls bio s n = Some r \<Longrightarrow>
        tls_through_bio P tls \<longrightarrow> bio_keeps P bio \<longrightarrow> P n \<longrightarrow> P (snd (snd r))"
      and "Option.bind (ssl_handshake tls bio s n)
        (\<lambda>(ret, s, n). if ret = want_read tls then loop tls bio s n else Some (ret, s, n)) = Some r"
    then obtain ret s1 n1 where hs: "ssl_handshake tls bio s n = Some (ret, s1, n1)"
      and r: "(if ret = want_read tls then loop tls bio s1 n1 else Some (ret, s1, n1)) = Some r"
      by (auto split: Option.bind_splits)
    show "tls_through_bio P tls \<longrightarrow> bio_keeps P bio \<longrightarrow> P n \<longrightarrow> P (snd (snd r))"
    proof (intro impI)
      assume P: "tls_through_bio P tls" "bio_keeps P bio" "P n"
      from postD [OF tls_through_bioD(1) [OF this] hs] have "P n1" by simp
      then show "P (snd (snd r))" using IH r P(1,2) by (cases "ret = want_read tls") auto
    qed
  qed
  then show ?thesis using assms by (auto simp: post_def)
qed

lemma socket_connect_keeps:
  "tls_through_bio P tls \<Longrightarrow> P n \<Longrightarrow> post (\<lambda>(ret, d, n'). P n') (socket_connect tls net desc ad n)"
  unfolding socket_connect_def Let_def
  by (auto intro!: post_intro post_bind [OF connect_keeps] post_bind [OF handshake_loop_keeps] bio_of_keeps
      split: option.splits secure_ptr.splits)

lemma socket_disconnect_keeps:
  "tls_through_bio P tls \<Longrightarrow> P n \<Longrightarrow> post (\<lambda>(ret, d, n'). P n') (socket_disconnect tls net desc n)"
  unfolding socket_disconnect_def
  by (auto intro!: post_intro post_bind [OF disconnect_keeps] post_bind [OF tls_through_bioD(2)] bio_of_keeps
      split: secure_ptr.splits)

lemma socket_send_keeps:
  "tls_through_bio P tls \<Longrightarrow> P n \<Longrightarrow> post (\<lambda>(ret, d, n'). P n') (socket_send tls net desc data len n)"
  unfolding socket_send_def
  by (auto intro!: post_intro post_map post_mono [OF send_keeps] post_mono [OF tls_through_bioD(3)] bio_of_keeps
      split: secure_ptr.splits)

lemma socket_recv_keeps:
  "tls_through_bio P tls \<Longrightarrow> P n \<Longrightarrow> post (\<lambda>(ret, dat, d, n'). P n') (socket_recv tls net desc data len n)"
  unfolding socket_recv_def Let_def
  by (auto intro!: post_intro post_map post_mono [OF recv_keeps] post_bind [OF tls_through_bioD(4)] bio_of_keeps
      split: secure_ptr.splits)

lemma socket_server_keeps:
  "P n \<Longrightarrow> post (\<lambda>(ret, n'). P n') (socket_bind net desc p n)"
  "P n \<Longrightarrow> post (\<lambda>(ret, n'). P n') (socket_listen net desc m n)"
  "P n \<Longrightarrow> post (\<lambda>(ret, d, r', n'). P n') (socket_accept net al desc r n)"
  unfolding socket_bind_def socket_listen_def socket_accept_def Let_def
  by (auto intro!: post_intro post_bind [OF post_any [of "d :: 's tcp_socket_desc option" for d]]
      bind_keeps listen_keeps post_bind [OF accept_keeps] post_bind [OF close_keeps])

end


interpretation wn: net_provider "wifi_init_interface env junk" wb_ok for env junk
proof
  fix b :: "'a wifi_board" and proto sz i p
  assume "wb_ok b"
  then show "post (\<lambda>(r, i, b'). wb_ok b') (net_open (wifi_init_interface env junk) proto sz b)"
    using wifi_socket_open_ok [of b proto sz] by (cases "wifi_socket_open proto sz b") (auto simp: wifi_init_interface_def intro: post_intro)
  show "post (\<lambda>(r, b'). wb_ok b') (net_bind (wifi_init_interface env junk) i p b)"
    using wifi_socket_bind_ok [OF \<open>wb_ok b\<close>, of i p] by (auto simp: wifi_init_interface_def intro!: post_intro)
qed (simp_all add: wifi_init_interface_def wifi_socket_close_ok wifi_socket_connect_ok wifi_socket_disconnect_ok
    wifi_socket_send_ok wifi_socket_recv_ok wifi_socket_listen_ok wifi_socket_accept_ok)

section \<open>Sockets over the WiFi module\<close>

text \<open>One call of the socket library, on any descriptor; bytes of the module arrive in between.\<close>

inductive tcp_step :: "('s, 'e wifi_board) tls_lib \<Rightarrow> 'e uart_env \<Rightarrow> u16 \<times> udp_mode_t \<Rightarrow> 'e wifi_board \<Rightarrow> 'e wifi_board \<Rightarrow> bool"
  for tls :: "('s, 'e wifi_board) tls_lib" and env :: "'e uart_env" and junk :: "u16 \<times> udp_mode_t" where
  "socket_init tls (wifi_init_interface env junk) al sal s0 params r b = Some (ret, d, r', b') \<Longrightarrow> tcp_step tls env junk b b'"
| "socket_remove (wifi_init_interface env junk) (desc :: 's tcp_socket_desc option) r b = Some (ret, d, r', b') \<Longrightarrow> tcp_step tls env junk b b'"
| "socket_connect tls (wifi_init_interface env junk) desc ad b = Some (ret, d, b') \<Longrightarrow> tcp_step tls env junk b b'"
| "socket_disconnect tls (wifi_init_interface env junk) desc b = Some (ret, d, b') \<Longrightarrow> tcp_step tls env junk b b'"
| "socket_send tls (wifi_init_interface env junk) desc data len b = Some (ret, d, b') \<Longrightarrow> tcp_step tls env junk b b'"
| "socket_recv tls (wifi_init_interface env junk) desc data len b = Some (ret, data', d, b') \<Longrightarrow> tcp_step tls env junk b b'"
| "socket_bind (wifi_init_interface env junk) (desc :: 's tcp_socket_desc option) p b = Some (ret, b') \<Longrightarrow> tcp_step tls env junk b b'"
| "socket_listen (wifi_init_interface env junk) (desc :: 's tcp_socket_desc option) m b = Some (ret, b') \<Longrightarrow> tcp_step tls env junk b b'"
| "socket_accept (wifi_init_interface env junk) al (desc :: 's tcp_socket_desc option) r b = Some (ret, d, r', b') \<Longrightarrow> tcp_step tls env junk b b'"
| "wifi_exec env op b = Some b' \<Longrightarrow> tcp_step tls env junk b b'"

lemmas tcp_call_keeps = wn.socket_init_keeps [THEN postD] wn.socket_remove_keeps [THEN postD]
  wn.socket_connect_keeps [THEN postD] wn.socket_disconnect_keeps [THEN postD] wn.socket_send_keeps [THEN postD]
  wn.socket_recv_keeps [THEN postD] wn.socket_server_keeps [THEN postD] wifi_exec_ok [THEN postD]

lemma tcp_step_ok: "tcp_step tls env junk b b' \<Longrightarrow> tls_through_bio wb_ok tls \<Longrightarrow> wb_ok b \<Longrightarrow> wb_ok b'"
  by (induction rule: tcp_step.induct) (auto dest: tcp_call_keeps)


text \<open>
  Whatever a program does with sockets, secure ones included, the tables of the WiFi
  module stay within their ranges, when the TLS library reaches the network only through the
  two functions it is given. The steps are the calls of the socket library on any
  descriptors, direct calls of the interface, and bytes from the module.
\<close>

theorem tcp_sockets_keep_tables:
  assumes "wifi_reachable env b" "tls_through_bio wb_ok tls" "(tcp_step tls env junk)\<^sup>*\<^sup>* b b'"
  shows "wifi_ok (wifi_of b')"
proof -
  from assms(3) have "wb_ok b'"
  proof (induction rule: rtranclp_induct)
    case base
    show ?case using wifi_reachable_ok [OF assms(1)] .
  next
    case (step b1 b2)
    then show ?case using tcp_step_ok assms(2) by blast
  qed
  then show ?thesis by (rule wb_okD)
qed

text \<open>A library that does not encrypt: it passes the data on.\<close>

definition null_tls :: "(unit, 'n) tls_lib" where
  "null_tls = \<lparr>want_read = -26880, trng_init = 0, ssl_config_defaults = (\<lambda>s. (0, s)), ca_crt_parse = (\<lambda>c s. (0, s)),
     ssl_conf_ca_chain = id, ssl_conf_authmode = (\<lambda>v s. s), cli_crt_parse = (\<lambda>c s. (0, s)), pk_parse_key = (\<lambda>k s. (0, s)),
     ssl_conf_own_cert = (\<lambda>s. (0, s)), ssl_conf_rng = id, ssl_setup = (\<lambda>s. (0, s)),
     ssl_handshake = (\<lambda>bio s n. Some (0, s, n)), ssl_close_notify = (\<lambda>bio s n. Some (0, s, n)),
     ssl_write = (\<lambda>bio data len s n. map_option (\<lambda>(r, n). (r, s, n)) (bio_send bio data len n)),
     ssl_read = (\<lambda>bio data len s n. map_option (\<lambda>(r, d, n). (r, d, s, n)) (bio_recv bio data len n))\<rparr>"

lemma null_tls_through_bio: "tls_through_bio P null_tls"
  unfolding tls_through_bio_def null_tls_def bio_keeps_def
  by (auto simp: case_prod_unfold intro!: post_intro post_map)

theorem tcp_sockets_keep_tables_witness:
  "\<exists>d r' b'. socket_init null_tls (wifi_init_interface mute (0, UDP_ENTITY_NO_CHANGE)) True True ()
      (Some \<lparr>max_buff_size = 0, secure_param = None\<rparr>) no_resources wifi_board0
        = Some (SUCCESS, Some d, r', b')
    \<and> wifi_ok (wifi_of b')"
proof -
  let ?net = "wifi_init_interface mute (0, UDP_ENTITY_NO_CHANGE)"
  obtain ret i b' where o: "wifi_socket_open PROTOCOL_TCP 2500 wifi_board0 = (ret, i, b')"
    by (cases "wifi_socket_open PROTOCOL_TCP 2500 wifi_board0")
  then have "ret = 0"
    by (auto simp: wifi_socket_open_def wifi_get_unused_socket_def wifi_board0_def wifi_of_def wifi_zero_def upt_rec
        cb_new_def calloc_def Let_def split: if_splits)
  then have init: "socket_init null_tls ?net True True () (Some \<lparr>max_buff_size = 0, secure_param = None\<rparr>)
      no_resources wifi_board0 =
      Some (SUCCESS, Some \<lparr>tcp_id = i, secure = Null\<rparr>, net_opened i (no_resources\<lparr>blocks := 1\<rparr>), b')"
    using o by (simp add: socket_init_def wifi_init_interface_def DEFAULT_CONNECTION_BUFFER_SIZE_def no_resources_def net_opened_def)
  have "wifi_reachable mute wifi_board0" unfolding wifi_board0_def by (rule wifi_reachable.zero)
  moreover have "(tcp_step null_tls mute (0, UDP_ENTITY_NO_CHANGE))\<^sup>*\<^sup>* wifi_board0 b'"
    using tcp_step.intros(1) [OF init] by (rule r_into_rtranclp)
  ultimately have "wifi_ok (wifi_of b')" using tcp_sockets_keep_tables null_tls_through_bio by blast
  then show ?thesis using init by blast
qed

section \<open>Resources\<close>

lemmas resource_defs = ctx_init_def ctx_free_def net_opened_def net_closed_def stcp_socket_remove_def

lemma stcp_socket_init_resources:
  assumes "stcp_socket_init tls al s0 sp r = (ret, d, r')"
  shows "ret < 0 \<and> d = None \<and> r' = r \<or>
     0 \<le> ret \<and> (\<exists>sd. d = Some sd \<and> stcp_socket_remove sd r' = r\<lparr>sessions := sessions r + 1\<rparr>)"
  using assms
  by (auto simp: stcp_socket_init_def resource_defs Let_def IS_ERR_VALUE_def split: if_splits prod.splits)

lemma closed_again:
  fixes r i c defines "r' \<equiv> net_closed c i (net_opened i (r\<lparr>blocks := blocks r + 1\<rparr>))"
  shows "r'\<lparr>blocks := blocks r' - 1\<rparr> = (if c < 0 then net_opened i r else r)"
  by (auto simp: r'_def net_opened_def net_closed_def)

lemma socket_init_failed:
  assumes "socket_init tls net al sal s0 (Some param) r n = Some (ret, None, r1, n1)"
  shows "ret < 0 \<and> (\<not> al \<and> r1 = r \<and> n1 = n
    \<or> (\<exists>sz i. net_open net PROTOCOL_TCP sz n = Some (ret, i, n1) \<and> r1 = r)
    \<or> (\<exists>sz ret0 i n0 c. net_open net PROTOCOL_TCP sz n = Some (ret0, i, n0) \<and> 0 \<le> ret0
         \<and> net_close net i n0 = Some (c, n1) \<and> r1 = (if c < 0 then net_opened i r else r)))"
proof (cases al)
  case True
  let ?sz = "if max_buff_size param \<noteq> 0 then max_buff_size param else DEFAULT_CONNECTION_BUFFER_SIZE"
  let ?r = "r\<lparr>blocks := blocks r + 1\<rparr>"
  obtain ret0 i n0 where opened: "net_open net PROTOCOL_TCP ?sz n = Some (ret0, i, n0)"
    using assms True by (auto simp: socket_init_def Let_def split: Option.bind_splits)
  show ?thesis
  proof (cases "ret0 < 0")
    case True
    then have "ret = ret0 \<and> r1 = r \<and> n1 = n0" using assms opened \<open>al\<close> by (simp add: socket_init_def Let_def)
    then show ?thesis using opened True by blast
  next
    case False
    then obtain sp where sp: "secure_param param = Some sp"
      using assms opened \<open>al\<close> by (auto simp: socket_init_def Let_def split: option.splits)
    obtain ret' sd r' where st: "stcp_socket_init tls sal s0 sp (net_opened i ?r) = (ret', sd, r')"
      by (metis prod_cases3)
    then have failed: "ret' < 0 \<and> sd = None \<and> r' = net_opened i ?r"
      using stcp_socket_init_resources [OF st] assms opened \<open>al\<close> False sp by (auto simp: socket_init_def Let_def)
    then obtain c where "net_close net i n0 = Some (c, n1)" "ret = ret'" "r1 = (if c < 0 then net_opened i r else r)"
      using assms opened \<open>al\<close> False sp st closed_again [of _ i r]
      by (auto simp: socket_init_def Let_def split: Option.bind_splits)
    then show ?thesis using opened False failed by (metis not_less)
  qed
qed (use assms in \<open>simp add: socket_init_def\<close>)

lemma socket_init_created:
  assumes "socket_init tls net al sal s0 (Some param) r n = Some (ret, Some desc, r1, n1)"
  shows "ret = SUCCESS \<and>
    (secure_param param = None \<and> secure desc = Null \<and> r1 = net_opened (tcp_id desc) (r\<lparr>blocks := blocks r + 1\<rparr>)
    \<or> secure_param param \<noteq> None \<and> (\<exists>sd. secure desc = Live sd \<and> stcp_socket_remove sd r1 =
        (net_opened (tcp_id desc) (r\<lparr>blocks := blocks r + 1\<rparr>))\<lparr>sessions := sessions r + 1\<rparr>))"
  using assms
  by (auto simp: socket_init_def Let_def IS_ERR_VALUE_def split: if_splits option.splits Option.bind_splits prod.splits
      dest!: stcp_socket_init_resources) (auto simp: net_opened_def)

text \<open>
  C10. Creating a socket gives back all it took when it fails, at whatever point: the blocks of
  the descriptor and of the secure descriptor, the random number generator, the TLS contexts
  (configuration, certificates and key), and the socket of the network, which is closed when
  it was opened (it stays open only if the network refuses to close it: the result of the
  close is ignored). After a success, removing the socket (when it can be closed) closes it
  and gives everything back but the session buffers of the TLS library: mbedtls_ssl_free is
  never called.
\<close>

theorem tcp_socket_resources:
  assumes "socket_init tls net al sal s0 (Some param) r n = Some (ret, d, r1, n1)"
  shows "(d = None \<longrightarrow> ret < 0 \<and>
        (\<not> al \<and> r1 = r \<and> n1 = n
       \<or> (\<exists>sz i. net_open net PROTOCOL_TCP sz n = Some (ret, i, n1) \<and> r1 = r)
       \<or> (\<exists>sz ret0 i n0 c. net_open net PROTOCOL_TCP sz n = Some (ret0, i, n0) \<and> 0 \<le> ret0
            \<and> net_close net i n0 = Some (c, n1) \<and> r1 = (if c < 0 then net_opened i r else r))))
    \<and> (\<forall>desc. d = Some desc \<longrightarrow> ret = SUCCESS
         \<and> (\<forall>n2 ret2 r2 n3. socket_remove net (Some desc) r1 n2 = Some (ret2, None, r2, n3) \<longrightarrow> ret2 = SUCCESS
              \<and> (\<exists>c. net_close net (tcp_id desc) n2 = Some (c, n3) \<and> 0 \<le> c)
              \<and> r2 = r\<lparr>sessions := sessions r + (if secure_param param = None then 0 else 1)\<rparr>))"
proof (cases d)
  case None
  then show ?thesis using socket_init_failed [OF assms [unfolded None]] by blast
next
  case (Some desc)
  note created = socket_init_created [OF assms [unfolded Some]]
  have "ret2 = SUCCESS \<and> (\<exists>c. net_close net (tcp_id desc) n2 = Some (c, n3) \<and> 0 \<le> c)
      \<and> r2 = r\<lparr>sessions := sessions r + (if secure_param param = None then 0 else 1)\<rparr>"
    if "socket_remove net (Some desc) r1 n2 = Some (ret2, None, r2, n3)" for n2 ret2 r2 n3
    using that created
    by (auto simp: socket_remove_def Let_def IS_ERR_VALUE_def net_opened_def net_closed_def
        split: Option.bind_splits if_splits secure_ptr.splits)
  then show ?thesis using Some created by blast
qed

text \<open>A network on which everything succeeds, and a secure socket made and removed on it.\<close>

definition plain_net :: "unit network_interface" where
  "plain_net = \<lparr>net_open = (\<lambda>proto sz n. Some (0, 3, n)), net_close = (\<lambda>i n. Some (0, n)), net_connect = (\<lambda>i ad n. Some (0, n)),
     net_disconnect = (\<lambda>i n. Some (0, n)), net_send = (\<lambda>i data sz n. Some (sint sz, n)),
     net_recv = (\<lambda>i data sz n. Some (- EAGAIN, data, n)), net_sendto = (\<lambda>i data sz t n. Some (-1, n)),
     net_recvfrom = (\<lambda>i data sz n. Some (-1, n)), net_bind = (\<lambda>i p n. Some (0, n)), net_listen = (\<lambda>i m n. Some (0, n)),
     net_accept = (\<lambda>i n. Some (- EAGAIN, 0, n))\<rparr>"

definition no_certs :: secure_init_param where
  "no_certs = \<lparr>ca_cert = None, cli_cert = None, cli_pk = None\<rparr>"

theorem tcp_socket_resources_witness:
  "\<exists>d r1 r2. socket_init null_tls plain_net True True () (Some \<lparr>max_buff_size = 0, secure_param = Some no_certs\<rparr>)
      no_resources () = Some (SUCCESS, Some d, r1, ())
    \<and> socket_remove plain_net (Some d) r1 () = Some (SUCCESS, None, r2, ())
    \<and> r2 = no_resources\<lparr>sessions := 1\<rparr>"
proof -
  let ?d = "\<lparr>tcp_id = 3, secure = Live \<lparr>has_trng = True, ssl = ()\<rparr>\<rparr>"
  obtain r1 where init: "socket_init null_tls plain_net True True () (Some \<lparr>max_buff_size = 0, secure_param = Some no_certs\<rparr>)
      no_resources () = Some (SUCCESS, Some ?d, r1, ())"
    by (simp add: socket_init_def plain_net_def null_tls_def stcp_socket_init_def unless_err_def conf_ca_def conf_cli_def no_certs_def Let_def)
  obtain r2 where rem: "socket_remove plain_net (Some ?d) r1 () = Some (SUCCESS, None, r2, ())"
    by (simp add: socket_remove_def plain_net_def Let_def)
  have "r2 = no_resources\<lparr>sessions := 1\<rparr>"
    using tcp_socket_resources [OF init] rem by (auto simp: no_resources_def simp del: SUCCESS_def)
  then show ?thesis using init rem by blast
qed

section \<open>From the wire to the program\<close>

text \<open>
  C4. A client of a server, from the first bytes on the UART to the program. While the server
  listens and the parser is between messages, the message for a connection that was not in
  use is taken: socket_accept gives a descriptor, and socket_recv on it returns the payload (as
  much as was asked for), after whatever the buffer of that client still held. A socket whose
  previous peer hung up keeps its buffer, so bytes of that peer that nobody read are delivered
  as the new client's.
\<close>

theorem tcp_server_receives:
  assumes "server_ready srv k i a c b" "payload \<noteq> []" "length (cb_contents c) + length payload \<le> unat (cb_size_field c)"
    and "sz \<noteq> 0" "unat sz \<le> length data" "n = min (length (cb_contents c @ payload)) (unat sz)"
  shows "\<exists>st' cli r' b2 b3. uart_bytes wifi_connection_callback (ipd_header k (length payload) @ payload) (fst b) = Some st'
    \<and> socket_accept (wifi_init_interface env junk) True (Some \<lparr>tcp_id = srv, secure = Null\<rparr>) r (st', snd b)
        = Some (SUCCESS, Some cli, r', b2)
    \<and> tcp_id cli = i \<and> conn_id (sock i (wifi_of b2)) = of_nat k
    \<and> socket_recv tls (wifi_init_interface env junk) (Some cli) data sz b2
        = Some (int n, take n (cb_contents c @ payload) @ drop n data, Some cli, b3)"
proof -
  obtain st' b2 b3 where flow: "uart_bytes wifi_connection_callback (ipd_header k (length payload) @ payload) (fst b) = Some st'"
    "wifi_socket_accept srv (st', snd b) = Some (SUCCESS, i, b2)" "conn_id (sock i (wifi_of b2)) = of_nat k"
    "wifi_socket_recv i data sz b2 = Some (int n, take n (cb_contents c @ payload) @ drop n data, b3)"
    using wifi_server_flow [OF assms] by blast
  let ?cli = "\<lparr>tcp_id = i, secure = Null\<rparr>" and ?net = "wifi_init_interface env junk"
  have "socket_accept ?net True (Some \<lparr>tcp_id = srv, secure = Null\<rparr>) r (st', snd b)
      = Some (SUCCESS, Some ?cli, (net_opened i r)\<lparr>blocks := blocks (net_opened i r) + 1\<rparr>, b2)"
    using flow(2) by (simp add: socket_accept_def wifi_init_interface_def Let_def)
  moreover have "socket_recv tls ?net (Some ?cli) data sz b2
      = Some (int n, take n (cb_contents c @ payload) @ drop n data, Some ?cli, b3)"
    using flow(4) by (simp add: socket_recv_def wifi_init_interface_def)
  moreover have "tcp_id ?cli = i" by simp
  ultimately show ?thesis using flow(1,3) by blast
qed

theorem tcp_server_receives_witness:
  "\<exists>st' cli r' b2 b3. uart_bytes wifi_connection_callback (ipd_header 2 (length [7, 8 :: u8]) @ [7, 8]) (fst demo_board) = Some st'
    \<and> socket_accept (wifi_init_interface mute (0, UDP_ENTITY_NO_CHANGE)) True (Some \<lparr>tcp_id = 0, secure = Null\<rparr>)
        (no_resources\<lparr>blocks := 1\<rparr>) (st', ()) = Some (SUCCESS, Some cli, r', b2)
    \<and> socket_recv null_tls (wifi_init_interface mute (0, UDP_ENTITY_NO_CHANGE)) (Some cli) [0, 0, 0] 3 b2
        = Some (3, [3, 7, 8], Some cli, b3)"
proof -
  let ?r = "(no_resources\<lparr>blocks := 1\<rparr>)" and ?net = "wifi_init_interface mute (0, UDP_ENTITY_NO_CHANGE)"
  have bytes: "take 3 (cb_contents demo_ring @ [7, 8]) @ drop 3 [0, 0, 0] = [3, 7, 8]" using demo_ring_ok(3) by simp
  have pre: "[7, 8 :: u8] \<noteq> []" "length (cb_contents demo_ring) + length [7, 8 :: u8] \<le> unat (cb_size_field demo_ring)"
    "(3 :: u32) \<noteq> 0" "unat (3 :: u32) \<le> length [0, 0, 0 :: u8]"
    "3 = min (length (cb_contents demo_ring @ [7, 8])) (unat (3 :: u32))"
    using demo_ring_ok(3,4) by simp_all
  obtain st' cli r' b2 b3 where
    "uart_bytes wifi_connection_callback (ipd_header 2 (length [7, 8 :: u8]) @ [7, 8]) (fst demo_board) = Some st'"
    "socket_accept ?net True (Some \<lparr>tcp_id = 0, secure = Null\<rparr>) ?r (st', snd demo_board) = Some (SUCCESS, Some cli, r', b2)"
    "socket_recv null_tls ?net (Some cli) [0, 0, 0] 3 b2 = Some (int 3, [3, 7, 8], Some cli, b3)"
    using tcp_server_receives [OF demo_server_ready pre, of mute "(0, UDP_ENTITY_NO_CHANGE)" ?r null_tls, unfolded bytes] by blast
  moreover have "snd demo_board = ()" by simp
  ultimately show ?thesis by (metis of_nat_numeral)
qed

end
