(* ===== verification/Iio_Network.thy ===== *)
theory Iio_Network
  imports Tcp_Socket Iio_Device
begin

text \<open>
  The part of iio/iio.c that is compiled with ENABLE_IIO_NETWORK: the server socket of the IIO
  daemon, the queue of its clients, and reading and writing through the client whose turn it
  is. The queue is a circular buffer that holds the bytes of the pointers to the descriptors
  of the clients; pointers have 32 bits, as on the targets.

  The network interface, the TLS library, libtinyiiod and the UART functions are parameters,
  as is \<open>tick\<close>, what happens on the network during mdelay(1). \<open>alloc\<close> is the address calloc
  returns for the descriptor of a new client, none when there is no memory.
\<close>

section \<open>Data\<close>

datatype pysical_link_type = USE_UART | USE_NETWORK

definition IIOD_PORT :: u16 where [simp]: "IIOD_PORT = 30431"
definition MAX_SOCKET_TO_HANDLE :: nat where [simp]: "MAX_SOCKET_TO_HANDLE = 4"
definition MAX_BACKLOG :: u32 where [simp]: "MAX_BACKLOG = 0xFFFFFFFF"
definition PTR_SIZE :: nat where [simp]: "PTR_SIZE = 4"

text \<open>The pointer that marks a client that was removed while it had its turn.\<close>

definition NO_SOCK :: u32 where [simp]: "NO_SOCK = 0xFFFFFFFF"

record ('s, 'n) iio_net =
  phy_type :: pysical_link_type
  sock_mem :: "u32 \<rightharpoonup> 's tcp_socket_desc"
  sock_queue :: circular_buffer
  current_sock :: u32
  server_sock :: "'s tcp_socket_desc"
  net_res :: resources
  net_st :: 'n

type_synonym 's sock_alloc = "(u32 \<rightharpoonup> 's tcp_socket_desc) \<Rightarrow> u32 option"

text \<open>The pointer whose bytes are \<open>bs\<close>.\<close>

definition ptr_of :: "u8 list \<Rightarrow> u32" where
  "ptr_of bs = (case bs of
     [a, b, c, d] \<Rightarrow> ucast a OR push_bit 8 (ucast b) OR push_bit 16 (ucast c) OR push_bit 24 (ucast d)
   | _ \<Rightarrow> 0)"

section \<open>The queue of clients\<close>

definition pop_sock :: "('s, 'n) iio_net \<Rightarrow> (int \<times> ('s, 'n) iio_net) option" where
  "pop_sock d = do {
     (ret, c, bs) \<leftarrow> cb_read (sock_queue d) (Some (le_bytes32 (current_sock d))) (of_nat PTR_SIZE);
     bs \<leftarrow> bs;
     Some (ret, d\<lparr>sock_queue := c, current_sock := ptr_of bs\<rparr>)}"

definition push_sock :: "u32 \<Rightarrow> ('s, 'n) iio_net \<Rightarrow> (int \<times> ('s, 'n) iio_net) option" where
  "push_sock p d = do {
     (ret, c, _) \<leftarrow> cb_write (sock_queue d) (Some (le_bytes32 p)) (of_nat PTR_SIZE);
     Some (ret, d\<lparr>sock_queue := c\<rparr>)}"

definition nb_active_sockets :: "('s, 'n) iio_net \<Rightarrow> u32" where
  "nb_active_sockets d = snd (cb_size (sock_queue d)) div of_nat PTR_SIZE"

text \<open>
  The loop of _get_next_socket: every waiting client is accepted and queued; while there is no
  client at all the loop waits. SUCCESS is the break out of it.
\<close>

partial_function (option) accept_loop :: "'n network_interface \<Rightarrow> 's sock_alloc \<Rightarrow> ('n \<Rightarrow> 'n option) \<Rightarrow>
    ('s, 'n) iio_net \<Rightarrow> (int \<times> ('s, 'n) iio_net) option" where
  "accept_loop net alloc tick d = do {
     let p = alloc (sock_mem d);
     (ret, cli, r, n) \<leftarrow> socket_accept net (p \<noteq> None) (Some (server_sock d)) (net_res d) (net_st d);
     let d = d\<lparr>net_res := r, net_st := n\<rparr>;
     if ret = - EAGAIN then
       if nb_active_sockets d = 0 then do {
         n \<leftarrow> tick (net_st d);
         accept_loop net alloc tick (d\<lparr>net_st := n\<rparr>)}
       else Some (SUCCESS, d)
     else if IS_ERR_VALUE ret then Some (ret, d)
     else do {
       p \<leftarrow> p;
       cli \<leftarrow> cli;
       (ret, d) \<leftarrow> push_sock p (d\<lparr>sock_mem := (sock_mem d)(p \<mapsto> cli)\<rparr>);
       if IS_ERR_VALUE ret then Some (ret, d) else accept_loop net alloc tick d}}"

definition get_next_socket :: "'n network_interface \<Rightarrow> 's sock_alloc \<Rightarrow> ('n \<Rightarrow> 'n option) \<Rightarrow>
    ('s, 'n) iio_net \<Rightarrow> (int \<times> ('s, 'n) iio_net) option" where
  "get_next_socket net alloc tick d = do {
     (ret, d) \<leftarrow> accept_loop net alloc tick d;
     if IS_ERR_VALUE ret then Some (ret, d)
     else do {
       (ret, d) \<leftarrow> pop_sock d;
       if IS_ERR_VALUE ret then Some (ret, d\<lparr>current_sock := 0\<rparr>) else Some (SUCCESS, d)}}"

section \<open>Reading and writing\<close>

text \<open>
  The loop of network_read from offset \<open>i\<close>: the last result of socket_recv, the number of bytes
  read, and the buffer. On an error its first byte becomes an asterisk. A receive of 0 bytes
  leads to the next one at once.
\<close>

partial_function (option) read_loop :: "('s, 'n) tls_lib \<Rightarrow> 'n network_interface \<Rightarrow> u8 list \<Rightarrow> u32 \<Rightarrow> u32 \<Rightarrow>
    ('s, 'n) iio_net \<Rightarrow> (int \<times> u32 \<times> u8 list \<times> ('s, 'n) iio_net) option" where
  "read_loop tls net data len i d = do {
     sock \<leftarrow> sock_mem d (current_sock d);
     guard (unat i \<le> length data);
     (ret, rest, sock, n) \<leftarrow> socket_recv tls net (Some sock) (drop (unat i) data) (len - i) (net_st d);
     let data = take (unat i) data @ rest;
     let d = d\<lparr>sock_mem := (sock_mem d)(current_sock d := sock), net_st := n\<rparr>;
     if IS_ERR_VALUE ret then do {
       guard (data \<noteq> []);
       Some (ret, i, data[0 := of_char CHR ''*''], d)}
     else
       let i = i + of_int ret in
       if i < len then read_loop tls net data len i d else Some (ret, i, data, d)}"

definition remove_current :: "'n network_interface \<Rightarrow> ('s, 'n) iio_net \<Rightarrow> ('s, 'n) iio_net option" where
  "remove_current net d = do {
     sock \<leftarrow> sock_mem d (current_sock d);
     (_, sock, r, n) \<leftarrow> socket_remove net (Some sock) (net_res d) (net_st d);
     Some (d\<lparr>sock_mem := (sock_mem d)(current_sock d := sock), net_res := r, net_st := n, current_sock := NO_SOCK\<rparr>)}"

definition network_read :: "('s, 'n) tls_lib \<Rightarrow> 'n network_interface \<Rightarrow> 's sock_alloc \<Rightarrow> ('n \<Rightarrow> 'n option) \<Rightarrow>
    u8 list \<Rightarrow> u32 \<Rightarrow> ('s, 'n) iio_net \<Rightarrow> (int \<times> u8 list \<times> ('s, 'n) iio_net) option" where
  "network_read tls net alloc tick data len d =
     (if current_sock d = NO_SOCK then Some (-1, data, d)
      else do {
        (ret, d) \<leftarrow> (if current_sock d = 0 then get_next_socket net alloc tick d else Some (SUCCESS, d));
        if IS_ERR_VALUE ret then Some (ret, data, d)
        else do {
          (ret, i, data, d) \<leftarrow> read_loop tls net data len 0 d;
          if ret = - ENOTCONN then do {
            d \<leftarrow> remove_current net d;
            Some (sint i, data, d)}
          else Some (sint i, data, d)}})"

definition iio_phy_read :: "('s, 'n) tls_lib \<Rightarrow> 'n network_interface \<Rightarrow> 's sock_alloc \<Rightarrow> ('n \<Rightarrow> 'n option) \<Rightarrow>
    (u8 list \<Rightarrow> u32 \<Rightarrow> 'n \<Rightarrow> int \<times> u8 list \<times> 'n) \<Rightarrow> u8 list \<Rightarrow> u32 \<Rightarrow> ('s, 'n) iio_net \<Rightarrow>
    (int \<times> u8 list \<times> ('s, 'n) iio_net) option" where
  "iio_phy_read tls net alloc tick uart_rd buf len d =
     (if phy_type d = USE_UART
      then (case uart_rd buf len (net_st d) of (ret, buf, n) \<Rightarrow> Some (ret, buf, d\<lparr>net_st := n\<rparr>))
      else network_read tls net alloc tick buf len d)"

text \<open>Sending through NO_SOCK, or to a client that is gone, dereferences that pointer.\<close>

definition iio_phy_write :: "('s, 'n) tls_lib \<Rightarrow> 'n network_interface \<Rightarrow> (u8 list \<Rightarrow> u32 \<Rightarrow> 'n \<Rightarrow> int \<times> 'n) \<Rightarrow>
    u8 list \<Rightarrow> u32 \<Rightarrow> ('s, 'n) iio_net \<Rightarrow> (int \<times> ('s, 'n) iio_net) option" where
  "iio_phy_write tls net uart_wr buf len d =
     (if phy_type d = USE_UART
      then (case uart_wr buf len (net_st d) of (ret, n) \<Rightarrow> Some (ret, d\<lparr>net_st := n\<rparr>))
      else do {
        sock \<leftarrow> (if current_sock d = 0 then Some None else map_option Some (sock_mem d (current_sock d)));
        (ret, sock, n) \<leftarrow> socket_send tls net sock buf len (net_st d);
        Some (ret, d\<lparr>sock_mem := (if current_sock d = 0 then sock_mem d else (sock_mem d)(current_sock d := sock)),
                    net_st := n\<rparr>)})"

text \<open>An iio_step puts the client that had its turn at the end of the queue.\<close>

definition end_turn :: "('s, 'n) iio_net \<Rightarrow> (int \<times> ('s, 'n) iio_net) option" where
  "end_turn d = do {
     (ret, d) \<leftarrow> (if current_sock d \<noteq> 0 \<and> current_sock d \<noteq> NO_SOCK then push_sock (current_sock d) d else Some (SUCCESS, d));
     if IS_ERR_VALUE ret then Some (ret, d) else Some (SUCCESS, d\<lparr>current_sock := 0\<rparr>)}"

definition iio_net_step :: "(('s, 'n) iio_net \<Rightarrow> (int \<times> ('s, 'n) iio_net) option) \<Rightarrow> ('s, 'n) iio_net \<Rightarrow>
    (int \<times> ('s, 'n) iio_net) option" where
  "iio_net_step tinyiiod_read_command d = do {
     (ret, d) \<leftarrow> (if phy_type d = USE_NETWORK then end_turn d else Some (SUCCESS, d));
     if IS_ERR_VALUE ret then Some (ret, d) else tinyiiod_read_command d}"

section \<open>Starting and stopping\<close>

text \<open>
  The network branch of iio_init. \<open>al\<close> are the outcomes of the allocations of socket_init (two)
  and of cb_init (two). On an error the server is removed, and so is what the pointer to the
  queue then refers to.
\<close>

definition iio_init_network :: "('s, 'n) tls_lib \<Rightarrow> 'n network_interface \<Rightarrow> bool \<times> bool \<times> bool \<times> bool \<Rightarrow> 's \<Rightarrow>
    tcp_socket_init_param option \<Rightarrow> resources \<Rightarrow> 'n \<Rightarrow> (int \<times> ('s, 'n) iio_net option \<times> resources \<times> 'n) option" where
  "iio_init_network tls net al s0 params r n = (case al of (a1, a2, a3, a4) \<Rightarrow> do {
     (ret, server, r, n) \<leftarrow> socket_init tls net a1 a2 s0 params r n;
     if IS_ERR_VALUE ret then Some (FAILURE, None, r, n)
     else do {
       let free_pylink = (\<lambda>q n. do {
         (_, _, r, n) \<leftarrow> socket_remove net server r n;
         _ \<leftarrow> (if q \<noteq> cptr.Null then cb_remove q else Some (SUCCESS, q));
         Some (FAILURE, None, r, n)});
       (ret, n) \<leftarrow> socket_bind net server IIOD_PORT n;
       if IS_ERR_VALUE ret then free_pylink cptr.Null n
       else do {
         (ret, n) \<leftarrow> socket_listen net server MAX_BACKLOG n;
         if IS_ERR_VALUE ret then free_pylink cptr.Null n
         else (case cb_init (Some cptr.Null) (of_nat (PTR_SIZE * MAX_SOCKET_TO_HANDLE)) a3 a4 of
             (ret, q) \<Rightarrow> do {
               q \<leftarrow> q;
               if IS_ERR_VALUE ret then free_pylink q n
               else do {
                 srv \<leftarrow> server;
                 (case q of
                    cptr.Live c \<Rightarrow> Some (SUCCESS, Some \<lparr>phy_type = USE_NETWORK, sock_mem = Map.empty, sock_queue = c,
                      current_sock = 0, server_sock = srv, net_res = r, net_st = n\<rparr>, r, n)
                  | _ \<Rightarrow> None)}})}}})"

text \<open>The network branch of iio_remove: the server and the queue, but not the clients in it.\<close>

definition iio_remove_network :: "'n network_interface \<Rightarrow> ('s, 'n) iio_net \<Rightarrow> (resources \<times> 'n) option" where
  "iio_remove_network net d = do {
     (_, _, r, n) \<leftarrow> socket_remove net (Some (server_sock d)) (net_res d) (net_st d);
     _ \<leftarrow> cb_remove (cptr.Live (sock_queue d));
     Some (r, n)}"


section \<open>The queue holds pointers\<close>

lemma ptr_of_le_bytes [simp]: "ptr_of (le_bytes32 p) = p"
proof -
  have "ucast (ucast p :: u8) OR push_bit 8 (ucast (ucast (drop_bit 8 p) :: u8))
      OR push_bit 16 (ucast (ucast (drop_bit 16 p) :: u8)) OR push_bit 24 (ucast (ucast (drop_bit 24 p) :: u8)) = p"
    (is "?l = p")
  proof (rule bit_word_eqI)
    fix n
    assume "n < LENGTH(32)"
    then show "bit ?l n = bit p n" by (cases "n < 8"; cases "n < 16"; cases "n < 24") (auto simp: bit_simps)
  qed
  then show ?thesis by (simp add: ptr_of_def le_bytes32_def)
qed

lemma length_le_bytes32 [simp]: "length (le_bytes32 p) = 4"
  by (simp add: le_bytes32_def)

fun ptrs :: "u8 list \<Rightarrow> u32 list" where
  "ptrs (a # b # c # d # bs) = ptr_of [a, b, c, d] # ptrs bs"
| "ptrs _ = []"

lemma ptrs_append: "4 dvd length xs \<Longrightarrow> ptrs (xs @ ys) = ptrs xs @ ptrs ys"
proof (induction xs rule: ptrs.induct)
  case (1 a b c d bs)
  have "4 dvd length bs" using "1.prems" unfolding length_Cons by presburger
  then show ?case using 1 by simp
qed (auto dest: dvd_imp_le)

lemma ptrs_le_bytes: "ptrs (le_bytes32 p @ bs) = p # ptrs bs"
  using ptr_of_le_bytes [of p] by (simp add: le_bytes32_def)

lemma length_ptrs: "length (ptrs bs) = length bs div 4"
  by (induction bs rule: ptrs.induct) auto

definition queue_ok :: "circular_buffer \<Rightarrow> bool" where
  "queue_ok c \<longleftrightarrow> cb_ok c \<and> cb_idle c \<and> cb_size_field c = of_nat (PTR_SIZE * MAX_SOCKET_TO_HANDLE) \<and> 4 dvd length (cb_contents c)"

definition waiting :: "('s, 'n) iio_net \<Rightarrow> u32 list" where
  "waiting d = ptrs (cb_contents (sock_queue d))"

lemma waiting_fields [simp]:
  "waiting (d\<lparr>sock_mem := m\<rparr>) = waiting d" "waiting (d\<lparr>current_sock := p\<rparr>) = waiting d"
  "waiting (d\<lparr>net_res := r\<rparr>) = waiting d" "waiting (d\<lparr>net_st := n\<rparr>) = waiting d"
  "waiting (d\<lparr>sock_queue := c\<rparr>) = ptrs (cb_contents c)"
  by (simp_all add: waiting_def)


text \<open>Pushing and popping are the operations of a queue of at most MAX_SOCKET_TO_HANDLE pointers.\<close>

lemma push_sock_waiting:
  assumes "queue_ok (sock_queue d)" "length (waiting d) < MAX_SOCKET_TO_HANDLE"
  shows "\<exists>c. push_sock p d = Some (SUCCESS, d\<lparr>sock_queue := c\<rparr>) \<and> queue_ok c \<and> ptrs (cb_contents c) = waiting d @ [p]"
proof -
  let ?c = "sock_queue d"
  have c: "cb_ok ?c" "cb_idle ?c" "cb_size_field ?c = 16" "4 dvd length (cb_contents ?c)"
    using assms(1) by (simp_all add: queue_ok_def)
  have "length (cb_contents ?c) div 4 < 4" using assms(2) by (simp add: waiting_def length_ptrs)
  then have "length (cb_contents ?c) + 4 \<le> 16" using c(4) by presburger
  then obtain c' where c': "cb_write ?c (Some (le_bytes32 p)) 4 = Some (SUCCESS, c', Some (le_bytes32 p))" "cb_ok c'"
      "cb_contents c' = cb_contents ?c @ le_bytes32 p" "cb_read_ptr c' = cb_read_ptr ?c" "cb_size_field c' = 16"
      "\<not> async_started (cb_write_ptr c')"
    using cb_write_fits [OF c(1), of 4 "le_bytes32 p"] c(2,3) by (auto simp: cb_idle_def)
  then have "queue_ok c'" using c(2,4) by (simp add: queue_ok_def cb_idle_def)
  moreover have "ptrs (cb_contents c') = waiting d @ [p]"
    using c' c(4) ptrs_le_bytes [of p "[]"] by (simp add: waiting_def ptrs_append)
  ultimately show ?thesis using c'(1) by (intro exI [of _ c']) (simp add: push_sock_def)
qed

lemma ptrs_Cons: "ptrs bs = p # q \<Longrightarrow> ptr_of (take 4 bs) = p \<and> ptrs (drop 4 bs) = q \<and> 4 \<le> length bs"
  by (cases bs rule: ptrs.cases) (auto simp: numeral_eq_Suc)

lemma pop_sock_waiting:
  assumes "queue_ok (sock_queue d)" "waiting d = p # q"
  shows "\<exists>c. pop_sock d = Some (SUCCESS, d\<lparr>sock_queue := c, current_sock := p\<rparr>) \<and> queue_ok c \<and> ptrs (cb_contents c) = q"
proof -
  let ?c = "sock_queue d" and ?bs = "cb_contents (sock_queue d)" and ?cur = "le_bytes32 (current_sock d)"
  have c: "cb_ok ?c" "cb_idle ?c" "cb_size_field ?c = 16" "4 dvd length ?bs"
    using assms(1) by (simp_all add: queue_ok_def)
  have bs: "ptr_of (take 4 ?bs) = p" "ptrs (drop 4 ?bs) = q" "4 \<le> length ?bs"
    using ptrs_Cons assms(2) by (auto simp: waiting_def)
  then obtain c' where c': "cb_read ?c (Some ?cur) 4 = Some (SUCCESS, c', Some (take 4 ?bs))" "cb_ok c'"
      "cb_contents c' = drop 4 ?bs" "cb_write_ptr c' = cb_write_ptr ?c" "cb_size_field c' = 16"
      "\<not> async_started (cb_read_ptr c')"
    using cb_read_fits [OF c(1), of 4 ?cur] c(2,3) by (auto simp: cb_idle_def)
  have "4 dvd length (drop 4 ?bs)" using c(4) by (simp add: dvd_diff_nat)
  then have "queue_ok c'" using c' c(2) by (simp add: queue_ok_def cb_idle_def)
  then show ?thesis using c'(1,3) bs(1,2) by (intro exI [of _ c']) (simp add: pop_sock_def)
qed

lemma nb_active_waiting:
  assumes "queue_ok (sock_queue d)"
  shows "nb_active_sockets d = 0 \<longleftrightarrow> waiting d = []"
proof -
  let ?n = "length (cb_contents (sock_queue d))"
  have "cb_ok (sock_queue d)" using assms by (simp add: queue_ok_def)
  then have s: "snd (cb_size (sock_queue d)) = of_nat ?n" "?n \<le> 16"
    using cb_size_ok [of "sock_queue d"] length_cb_contents_le [of "sock_queue d"] assms by (simp_all add: queue_ok_def)
  then have "unat (nb_active_sockets d) = ?n div 4" by (simp add: nb_active_sockets_def unat_div unat_of_nat)
  then show ?thesis using length_ptrs [of "cb_contents (sock_queue d)"]
    by (metis length_0_conv unat_eq_zero waiting_def)
qed


section \<open>Turns\<close>

text \<open>Nobody waits to be accepted.\<close>

definition nobody_waits :: "'n network_interface \<Rightarrow> ('s, 'n) iio_net \<Rightarrow> bool" where
  "nobody_waits net d \<longleftrightarrow> secure (server_sock d) = Null
     \<and> (\<exists>i. net_accept net (tcp_id (server_sock d)) (net_st d) = Some (- EAGAIN, i, net_st d))"

lemma accept_none: "nobody_waits net d \<Longrightarrow>
  socket_accept net al (Some (server_sock d)) (net_res d) (net_st d) = Some (- EAGAIN, None, net_res d, net_st d)"
  by (auto simp: nobody_waits_def socket_accept_def)

lemma accept_loop_done:
  assumes "nobody_waits net d" "queue_ok (sock_queue d)" "waiting d \<noteq> []"
  shows "accept_loop net alloc tick d = Some (SUCCESS, d)"
  using accept_none [OF assms(1)] assms(2,3)
  by (subst accept_loop.simps) (simp add: nb_active_waiting Let_def)

lemma get_next_socket_first:
  assumes "nobody_waits net d" "queue_ok (sock_queue d)" "waiting d = p # q"
  shows "\<exists>c. get_next_socket net alloc tick d = Some (SUCCESS, d\<lparr>sock_queue := c, current_sock := p\<rparr>)
    \<and> queue_ok c \<and> ptrs (cb_contents c) = q"
  using pop_sock_waiting [OF assms(2,3)] accept_loop_done [OF assms(1,2)] assms(3)
  by (auto simp: get_next_socket_def)

text \<open>A turn: the step puts the current client back, and the first read of the next command takes
  the next one.\<close>

fun turns :: "'n network_interface \<Rightarrow> 's sock_alloc \<Rightarrow> ('n \<Rightarrow> 'n option) \<Rightarrow> nat \<Rightarrow> ('s, 'n) iio_net \<Rightarrow>
    ('s, 'n) iio_net option" where
  "turns net alloc tick 0 d = Some d"
| "turns net alloc tick (Suc k) d = do {
     (ret, d) \<leftarrow> end_turn d;
     guard (ret = SUCCESS);
     (ret, d) \<leftarrow> get_next_socket net alloc tick d;
     guard (ret = SUCCESS);
     turns net alloc tick k d}"

definition valid_sock :: "u32 \<Rightarrow> bool" where
  "valid_sock p \<longleftrightarrow> p \<noteq> 0 \<and> p \<noteq> NO_SOCK"

lemma one_turn:
  assumes "nobody_waits net d" "queue_ok (sock_queue d)" "length (waiting d) < MAX_SOCKET_TO_HANDLE" "valid_sock (current_sock d)"
    and "waiting d @ [current_sock d] = p # q"
  shows "\<exists>c. turns net alloc tick (Suc 0) d = Some (d\<lparr>sock_queue := c, current_sock := p\<rparr>) \<and> queue_ok c \<and> ptrs (cb_contents c) = q"
proof -
  obtain c where c: "push_sock (current_sock d) d = Some (SUCCESS, d\<lparr>sock_queue := c\<rparr>)" "queue_ok c"
      "ptrs (cb_contents c) = p # q"
    using push_sock_waiting [OF assms(2,3), of "current_sock d"] assms(5) by auto
  let ?d = "d\<lparr>sock_queue := c, current_sock := 0\<rparr>"
  have e: "end_turn d = Some (SUCCESS, ?d)" using c(1) assms(4) by (simp add: end_turn_def valid_sock_def)
  have "nobody_waits net ?d" "queue_ok (sock_queue ?d)" "waiting ?d = p # q"
    using assms(1) c by (auto simp: nobody_waits_def waiting_def)
  then obtain c2 where "get_next_socket net alloc tick ?d = Some (SUCCESS, ?d\<lparr>sock_queue := c2, current_sock := p\<rparr>)"
      "queue_ok c2" "ptrs (cb_contents c2) = q"
    using get_next_socket_first by blast
  then show ?thesis using e by (intro exI [of _ c2]) simp
qed

text \<open>
  C14. The clients of the IIO daemon are served in turn. While no client joins or leaves, the
  current client followed by the queue is rotated by one place with every step, through the
  bytes of the circular buffer; with n clients everyone has had the daemon once after n steps,
  and after n steps the first is served again.
\<close>

theorem iio_round_robin:
  assumes "nobody_waits net d" "queue_ok (sock_queue d)" "length (waiting d) < MAX_SOCKET_TO_HANDLE"
    and "\<forall>p \<in> set (current_sock d # waiting d). valid_sock p"
  shows "\<exists>d'. turns net alloc tick k d = Some d' \<and> queue_ok (sock_queue d')
    \<and> current_sock d' # waiting d' = rotate k (current_sock d # waiting d)
    \<and> sock_mem d' = sock_mem d \<and> net_st d' = net_st d"
  using assms
proof (induction k arbitrary: d)
  case 0
  then show ?case by simp
next
  case (Suc k)
  obtain p q where pq: "waiting d @ [current_sock d] = p # q" by (cases "waiting d @ [current_sock d]") auto
  then obtain c where c: "turns net alloc tick (Suc 0) d = Some (d\<lparr>sock_queue := c, current_sock := p\<rparr>)" "queue_ok c"
      "ptrs (cb_contents c) = q"
    using one_turn [OF Suc.prems(1-3)] Suc.prems(4) by fastforce
  let ?d = "d\<lparr>sock_queue := c, current_sock := p\<rparr>"
  have len: "length q = length (waiting d)" using arg_cong [OF pq, of length] by simp
  have set: "set (p # q) = set (current_sock d # waiting d)" using arg_cong [OF pq, of set] by auto
  have d: "nobody_waits net ?d" "queue_ok (sock_queue ?d)" "length (waiting ?d) < MAX_SOCKET_TO_HANDLE"
      "\<forall>p \<in> set (current_sock ?d # waiting ?d). valid_sock p"
    using Suc.prems c len set by (auto simp: nobody_waits_def waiting_def)
  obtain d' where d': "turns net alloc tick k ?d = Some d'" "queue_ok (sock_queue d')"
      "current_sock d' # waiting d' = rotate k (current_sock ?d # waiting ?d)" "sock_mem d' = sock_mem d" "net_st d' = net_st d"
    using Suc.IH [OF d] by auto
  have "turns net alloc tick (Suc k) d = turns net alloc tick k ?d"
    using c(1) by (auto split: Option.bind_splits)
  moreover have "rotate (Suc k) (current_sock d # waiting d) = rotate k (p # q)"
    using pq unfolding rotate_def funpow_Suc_right o_apply by simp
  ultimately show ?case using d' c(3) by (intro exI [of _ d']) (simp add: waiting_def)
qed


text \<open>Three clients on a network where nothing happens.\<close>

definition demo_client :: "u32 \<Rightarrow> unit tcp_socket_desc" where
  "demo_client i = \<lparr>tcp_id = i, secure = Null\<rparr>"

definition demo_queue :: circular_buffer where
  "demo_queue = \<lparr>cb_size_field = 16, cb_buff = le_bytes32 0x2000 @ replicate 8 0 @ le_bytes32 0x1000,
     cb_write_ptr = cb_ptr_zero\<lparr>idx := 4, spin_count := 1\<rparr>, cb_read_ptr = cb_ptr_zero\<lparr>idx := 12\<rparr>\<rparr>"

definition demo_daemon :: "(unit, unit) iio_net" where
  "demo_daemon = \<lparr>phy_type = USE_NETWORK,
     sock_mem = [0x1000 \<mapsto> demo_client 1, 0x2000 \<mapsto> demo_client 2, 0x3000 \<mapsto> demo_client 3], sock_queue = demo_queue,
     current_sock = 0x3000, server_sock = demo_client 0, net_res = no_resources\<lparr>blocks := 4\<rparr>, net_st = ()\<rparr>"

lemma demo_queue_ok: "queue_ok demo_queue" "ptrs (cb_contents demo_queue) = [0x1000, 0x2000]"
proof -
  have c: "cb_contents demo_queue = le_bytes32 0x1000 @ le_bytes32 0x2000"
    by (simp add: cb_contents_def demo_queue_def cb_ptr_zero_def)
  then show "ptrs (cb_contents demo_queue) = [0x1000, 0x2000]"
    using ptrs_le_bytes [of "0x2000" "[]"] by (simp add: ptrs_le_bytes)
  show "queue_ok demo_queue"
    unfolding queue_ok_def c
    by (simp add: demo_queue_def cb_ok_def cb_wf_def cb_ptr_wf_def cb_idle_def cb_ptr_zero_def)
qed

lemma demo_daemon_waiting: "waiting demo_daemon = [0x1000, 0x2000]" "current_sock demo_daemon = 0x3000"
  using demo_queue_ok(2) by (simp_all add: waiting_def demo_daemon_def)

theorem iio_round_robin_witness:
  "\<exists>d'. turns plain_net (\<lambda>m. None) Some 2 demo_daemon = Some d' \<and> current_sock d' = 0x2000 \<and> waiting d' = [0x3000, 0x1000]"
proof -
  have "nobody_waits plain_net demo_daemon" by (simp add: nobody_waits_def plain_net_def demo_daemon_def demo_client_def)
  moreover have "queue_ok (sock_queue demo_daemon)" using demo_queue_ok by (simp add: demo_daemon_def)
  moreover have "rotate 2 [x, y, z] = [z, x, y]" for x y z :: u32 by (simp add: rotate_def numeral_2_eq_2)
  ultimately show ?thesis
    using iio_round_robin [of plain_net demo_daemon "\<lambda>m. None" Some 2]
    by (auto simp: demo_daemon_waiting valid_sock_def)
qed

section \<open>Waiting for a client\<close>

lemma accept_loop_waits:
  assumes "\<forall>j < k. nobody_waits net (d\<lparr>net_st := N j\<rparr>) \<and> tick (N j) = Some (N (Suc j))"
    and "net_st d = N 0" "queue_ok (sock_queue d)" "waiting d = []"
  shows "accept_loop net alloc tick d = accept_loop net alloc tick (d\<lparr>net_st := N k\<rparr>)"
  using assms
proof (induction k)
  case 0
  then show ?case by (metis iio_net.surjective iio_net.update_convs(7))
next
  case (Suc k)
  let ?d = "d\<lparr>net_st := N k\<rparr>"
  have "nobody_waits net ?d" "tick (N k) = Some (N (Suc k))" using Suc.prems(1) by auto
  from accept_none [OF this(1)] this(2) Suc.prems(3,4)
  have "accept_loop net alloc tick ?d = accept_loop net alloc tick (d\<lparr>net_st := N (Suc k)\<rparr>)"
    by (subst accept_loop.simps) (simp add: Let_def nb_active_waiting)
  then show ?case using Suc by simp
qed

text \<open>
  C15. A daemon without clients waits for one and takes it: when nobody asks to be accepted for
  k milliseconds and then one peer does, _get_next_socket returns with the descriptor of that
  peer as the current client and an empty queue.
\<close>

theorem iio_waits_for_client:
  assumes "queue_ok (sock_queue d)" "waiting d = []" "secure (server_sock d) = Null" "net_st d = N 0"
    and "\<forall>j < k. nobody_waits net (d\<lparr>net_st := N j\<rparr>) \<and> tick (N j) = Some (N (Suc j))"
    and "net_accept net (tcp_id (server_sock d)) (N k) = Some (SUCCESS, i, n)" "nobody_waits net (d\<lparr>net_st := n\<rparr>)"
    and "alloc (sock_mem d) = Some p"
  shows "\<exists>d'. get_next_socket net alloc tick d = Some (SUCCESS, d') \<and> current_sock d' = p
    \<and> sock_mem d' = (sock_mem d)(p \<mapsto> \<lparr>tcp_id = i, secure = Null\<rparr>) \<and> queue_ok (sock_queue d') \<and> waiting d' = [] \<and> net_st d' = n"
proof -
  let ?cli = "\<lparr>tcp_id = i, secure = Null\<rparr>"
  let ?r = "(net_opened i (net_res d))\<lparr>blocks := blocks (net_opened i (net_res d)) + 1\<rparr>"
  let ?d1 = "d\<lparr>net_res := ?r, net_st := n, sock_mem := (sock_mem d)(p \<mapsto> ?cli)\<rparr>"
  have acc: "socket_accept net True (Some (server_sock d)) (net_res d) (N k) = Some (SUCCESS, Some ?cli, ?r, n)"
    using assms(3,6) by (simp add: socket_accept_def Let_def)
  obtain c where c: "push_sock p ?d1 = Some (SUCCESS, ?d1\<lparr>sock_queue := c\<rparr>)" "queue_ok c" "ptrs (cb_contents c) = [p]"
    using push_sock_waiting [of ?d1 p] assms(1,2) by auto
  let ?d2 = "?d1\<lparr>sock_queue := c\<rparr>"
  have none: "nobody_waits net ?d2" "queue_ok (sock_queue ?d2)" "waiting ?d2 = [p]"
    using assms(7) c(2,3) by (simp_all add: nobody_waits_def waiting_def)
  have "accept_loop net alloc tick d = accept_loop net alloc tick (d\<lparr>net_st := N k\<rparr>)"
    using accept_loop_waits assms(1,2,4,5) by blast
  also have "\<dots> = accept_loop net alloc tick ?d2"
    using acc c(1) assms(8) by (subst accept_loop.simps) (simp add: Let_def)
  also have "\<dots> = Some (SUCCESS, ?d2)" using accept_loop_done [OF none(1,2)] none(3) by simp
  finally have "get_next_socket net alloc tick d = get_next_socket net alloc tick ?d2"
    using accept_loop_done [OF none(1,2)] none(3) by (simp add: get_next_socket_def)
  moreover obtain c2 where "get_next_socket net alloc tick ?d2 = Some (SUCCESS, ?d2\<lparr>sock_queue := c2, current_sock := p\<rparr>)"
      "queue_ok c2" "ptrs (cb_contents c2) = []"
    using get_next_socket_first [OF none] by blast
  ultimately show ?thesis by (intro exI [of _ "?d2\<lparr>sock_queue := c2, current_sock := p\<rparr>"]) simp
qed


text \<open>A peer that knocks after two milliseconds.\<close>

definition knock_net :: "nat network_interface" where
  "knock_net = \<lparr>net_open = (\<lambda>proto sz n. Some (0, 0, n)), net_close = (\<lambda>i n. Some (0, n)), net_connect = (\<lambda>i ad n. Some (0, n)),
     net_disconnect = (\<lambda>i n. Some (0, n)), net_send = (\<lambda>i data sz n. Some (sint sz, n)),
     net_recv = (\<lambda>i data sz n. Some (- EAGAIN, data, n)), net_sendto = (\<lambda>i data sz t n. Some (-1, n)),
     net_recvfrom = (\<lambda>i data sz n. Some (-1, n)), net_bind = (\<lambda>i p n. Some (0, n)), net_listen = (\<lambda>i m n. Some (0, n)),
     net_accept = (\<lambda>i n. if n = 2 then Some (0, 7, 3) else Some (- EAGAIN, 0, n))\<rparr>"

definition empty_daemon :: "(unit, nat) iio_net" where
  "empty_daemon = \<lparr>phy_type = USE_NETWORK, sock_mem = Map.empty,
     sock_queue = \<lparr>cb_size_field = 16, cb_buff = replicate 16 0, cb_write_ptr = cb_ptr_zero, cb_read_ptr = cb_ptr_zero\<rparr>,
     current_sock = 0, server_sock = demo_client 0, net_res = no_resources\<lparr>blocks := 1\<rparr>, net_st = 0\<rparr>"

theorem iio_waits_for_client_witness:
  "\<exists>d'. get_next_socket knock_net (\<lambda>m. Some 0x1000) (\<lambda>n. Some (Suc n)) empty_daemon = Some (SUCCESS, d')
    \<and> current_sock d' = 0x1000 \<and> waiting d' = [] \<and> net_st d' = 3"
proof -
  have "queue_ok (sock_queue empty_daemon)" "waiting empty_daemon = []"
    by (simp_all add: empty_daemon_def queue_ok_def waiting_def cb_ok_def cb_wf_def cb_ptr_wf_def cb_idle_def cb_ptr_zero_def cb_contents_def)
  moreover have "nobody_waits knock_net (empty_daemon\<lparr>net_st := j\<rparr>)" if "j \<noteq> 2" for j
    using that by (simp add: nobody_waits_def knock_net_def empty_daemon_def demo_client_def)
  moreover have "net_accept knock_net (tcp_id (server_sock empty_daemon)) 2 = Some (SUCCESS, 7, 3)" by (simp add: knock_net_def)
  moreover have "secure (server_sock empty_daemon) = Null" "net_st empty_daemon = 0"
    by (simp_all add: empty_daemon_def demo_client_def)
  ultimately show ?thesis
    using iio_waits_for_client [of empty_daemon "\<lambda>j. j" 2 knock_net "\<lambda>n. Some (Suc n)" 7 3 "\<lambda>m. Some 0x1000" "0x1000"] by auto
qed

section \<open>Reading from the current client\<close>

text \<open>The current client is there and not secure.\<close>

definition plain_client :: "('s, 'n) iio_net \<Rightarrow> 's tcp_socket_desc \<Rightarrow> bool" where
  "plain_client d cl \<longleftrightarrow> valid_sock (current_sock d) \<and> sock_mem d (current_sock d) = Some cl \<and> secure cl = Null"

lemma read_loop_step:
  assumes "plain_client d cl" "unat i \<le> length data" "0 \<le> ret" "i + of_int ret < len"
    and "net_recv net (tcp_id cl) (drop (unat i) data) (len - i) (net_st d) = Some (ret, rest, n)"
  shows "read_loop tls net data len i d =
    read_loop tls net (take (unat i) data @ rest) len (i + of_int ret) (d\<lparr>net_st := n\<rparr>)"
proof -
  have "(sock_mem d)(current_sock d \<mapsto> cl) = sock_mem d" using assms(1) by (auto simp: plain_client_def)
  then have "d\<lparr>sock_mem := (sock_mem d)(current_sock d \<mapsto> cl), net_st := n\<rparr> = d\<lparr>net_st := n\<rparr>" by simp
  then show ?thesis using assms
    by (subst read_loop.simps) (simp add: plain_client_def socket_recv_def Let_def del: iio_net.update_convs)
qed

lemma read_loop_error:
  assumes "plain_client d cl" "unat i \<le> length data" "ret < 0" "take (unat i) data @ rest \<noteq> []"
    and "net_recv net (tcp_id cl) (drop (unat i) data) (len - i) (net_st d) = Some (ret, rest, n)"
  shows "read_loop tls net data len i d =
    Some (ret, i, (take (unat i) data @ rest)[0 := of_char CHR ''*''], d\<lparr>net_st := n\<rparr>)"
proof -
  have "(sock_mem d)(current_sock d \<mapsto> cl) = sock_mem d" using assms(1) by (auto simp: plain_client_def)
  then have "d\<lparr>sock_mem := (sock_mem d)(current_sock d \<mapsto> cl), net_st := n\<rparr> = d\<lparr>net_st := n\<rparr>" by simp
  then show ?thesis using assms
    by (subst read_loop.simps) (simp add: plain_client_def socket_recv_def Let_def del: iio_net.update_convs append_is_Nil_conv)
qed

lemma network_read_current:
  "plain_client d cl \<Longrightarrow> network_read tls net alloc tick data len d = do {
     (ret, i, data, d) \<leftarrow> read_loop tls net data len 0 d;
     if ret = - ENOTCONN then do {d \<leftarrow> remove_current net d; Some (sint i, data, d)} else Some (sint i, data, d)}"
  by (simp add: network_read_def plain_client_def valid_sock_def)

text \<open>
  C37. A command that arrives in two pieces is damaged: when the first receive returns part of
  what was asked for and the rest has not come yet, network_read puts an asterisk over the
  first byte it had received, and returns the number of bytes all the same.
\<close>

theorem iio_partial_read_damaged:
  assumes "plain_client d cl" "0 < m" "m < unat len" "m < 2 ^ 31" "length got = length data" "unat len \<le> length data"
    and "net_recv net (tcp_id cl) data len (net_st d) = Some (int m, got, n1)"
    and "net_recv net (tcp_id cl) (drop m got) (len - of_nat m) n1 = Some (- EAGAIN, drop m got, n2)"
  shows "network_read tls net alloc tick data len d =
    Some (int m, (of_char CHR ''*'') # tl got, d\<lparr>net_st := n2\<rparr>)"
proof -
  have m: "unat (of_nat m :: u32) = m" using assms(4) by (simp add: unat_of_nat_u32)
  let ?d = "d\<lparr>net_st := n1\<rparr>"
  have d: "plain_client ?d cl" using assms(1) by (simp add: plain_client_def)
  have "got \<noteq> []" using assms(3,5,6) by auto
  have "read_loop tls net data len 0 d = read_loop tls net got len (of_nat m) ?d"
    using read_loop_step [OF assms(1), of 0 data "int m" len net got n1 tls] assms(3,7) m by (simp add: word_less_nat_alt)
  also have "\<dots> = Some (- EAGAIN, of_nat m, got[0 := of_char CHR ''*''], d\<lparr>net_st := n2\<rparr>)"
    using read_loop_error [OF d, of "of_nat m" got "- EAGAIN" "drop m got" net len n2 tls] m assms(3,5,6,8) \<open>got \<noteq> []\<close> by simp
  finally have "network_read tls net alloc tick data len d = Some (sint (of_nat m :: u32), got[0 := of_char CHR ''*''], d\<lparr>net_st := n2\<rparr>)"
    by (simp add: network_read_current [OF assms(1)])
  moreover have "sint (of_nat m :: u32) = int m" using sint_u32_small [of "of_nat m"] m assms(4) by simp
  ultimately show ?thesis using \<open>got \<noteq> []\<close> by (cases got) simp_all
qed


text \<open>A peer that sends \<open>PR\<close> of the command \<open>PRINT\<close>.\<close>

definition slow_net :: "nat network_interface" where
  "slow_net = knock_net\<lparr>net_recv := (\<lambda>i data sz n. if n = 0 then Some (2, bytes_of ''PR'' @ drop 2 data, 1) else Some (- EAGAIN, data, n))\<rparr>"

definition busy_daemon :: "(unit, nat) iio_net" where
  "busy_daemon = empty_daemon\<lparr>sock_mem := [0x1000 \<mapsto> demo_client 1], current_sock := 0x1000\<rparr>"

lemma busy_plain: "plain_client busy_daemon (demo_client 1)"
  by (simp add: busy_daemon_def plain_client_def valid_sock_def demo_client_def)

theorem iio_partial_read_damaged_witness:
  "network_read null_tls slow_net (\<lambda>m. None) Some (replicate 5 0) 5 busy_daemon =
     Some (2, bytes_of ''*R'' @ replicate 3 0, busy_daemon\<lparr>net_st := 1\<rparr>)"
proof -
  have "net_st busy_daemon = 0" by (simp add: busy_daemon_def empty_daemon_def)
  then have "network_read null_tls slow_net (\<lambda>m. None) Some (replicate 5 0) 5 busy_daemon =
      Some (int 2, of_char CHR ''*'' # tl (bytes_of ''PR'' @ replicate 3 0), busy_daemon\<lparr>net_st := 1\<rparr>)"
    by (intro iio_partial_read_damaged [OF busy_plain, where ?n1.0 = 1])
      (simp_all add: slow_net_def bytes_of_def)
  then show ?thesis by (simp add: bytes_of_def)
qed

text \<open>
  C16. A client that is gone is dropped: when receiving says the connection is closed, the
  descriptor of the client is freed, the socket closed, and the next step does not put it back
  into the queue. Until that step the current client is a mark that is not a pointer: whatever
  the protocol library writes before is an access through it.
\<close>

theorem iio_disconnected_client_dropped:
  assumes "plain_client d cl" "phy_type d = USE_NETWORK" "sock_mem d NO_SOCK = None" "data \<noteq> []"
    and "net_recv net (tcp_id cl) data len (net_st d) = Some (- ENOTCONN, data, n1)" "net_close net (tcp_id cl) n1 = Some (SUCCESS, n2)"
  shows "\<exists>d'. network_read tls net alloc tick data len d = Some (0, data[0 := of_char CHR ''*''], d')
    \<and> sock_mem d' (current_sock d) = None \<and> blocks (net_res d') = blocks (net_res d) - 1 \<and> net_st d' = n2
    \<and> end_turn d' = Some (SUCCESS, d'\<lparr>current_sock := 0\<rparr>) \<and> waiting d' = waiting d
    \<and> iio_phy_write tls net uart_wr buf m d' = None"
proof -
  let ?d1 = "d\<lparr>net_st := n1\<rparr>"
  let ?d = "?d1\<lparr>sock_mem := (sock_mem d)(current_sock d := None), net_res := (net_closed SUCCESS (tcp_id cl) (net_res d))\<lparr>blocks := blocks (net_res d) - 1\<rparr>,
      net_st := n2, current_sock := NO_SOCK\<rparr>"
  have "read_loop tls net data len 0 d = Some (- ENOTCONN, 0, data[0 := of_char CHR ''*''], ?d1)"
    using read_loop_error [OF assms(1), of 0 data "- ENOTCONN" data net len n1 tls] assms(4,5) by simp
  moreover have "remove_current net ?d1 = Some ?d"
    using assms(1,6) by (simp add: remove_current_def plain_client_def socket_remove_def net_closed_def)
  ultimately have "network_read tls net alloc tick data len d = Some (0, data[0 := of_char CHR ''*''], ?d)"
    by (simp add: network_read_current [OF assms(1)])
  moreover have "end_turn ?d = Some (SUCCESS, ?d\<lparr>current_sock := 0\<rparr>)" by (simp add: end_turn_def)
  moreover have "iio_phy_write tls net uart_wr buf m ?d = None"
    using assms(2,3) by (simp add: iio_phy_write_def)
  ultimately show ?thesis by (intro exI [of _ ?d]) simp
qed

definition gone_net :: "nat network_interface" where
  "gone_net = knock_net\<lparr>net_recv := (\<lambda>i data sz n. Some (- ENOTCONN, data, n))\<rparr>"

theorem iio_disconnected_client_dropped_witness:
  "\<exists>d'. network_read null_tls gone_net (\<lambda>m. None) Some [0, 0] 2 busy_daemon = Some (0, [of_char CHR ''*'', 0], d')
    \<and> sock_mem d' 0x1000 = None \<and> iio_phy_write null_tls gone_net (\<lambda>b l n. (0, n)) [1] 1 d' = None"
proof -
  have "phy_type busy_daemon = USE_NETWORK" "sock_mem busy_daemon NO_SOCK = None" "current_sock busy_daemon = 0x1000"
    by (simp_all add: busy_daemon_def empty_daemon_def)
  moreover have "net_recv gone_net 1 [0, 0] 2 n = Some (- ENOTCONN, [0, 0], n)" "net_close gone_net 1 n = Some (SUCCESS, n)" for n
    by (simp_all add: gone_net_def knock_net_def)
  ultimately show ?thesis
    using iio_disconnected_client_dropped [OF busy_plain, where net = gone_net and data = "[0, 0]" and len = 2
        and ?n1.0 = "net_st busy_daemon" and ?n2.0 = "net_st busy_daemon" and tls = null_tls and alloc = "\<lambda>m. None" and tick = Some
        and buf = "[1]" and m = 1 and uart_wr = "\<lambda>b l n. (0, n)"]
    by (auto simp: demo_client_def)
qed

section \<open>Starting the daemon\<close>

text \<open>
  When the memory for the bytes of the queue cannot be allocated, iio_init frees the
  descriptor of the queue a second time: cb_init has freed it and left its address in the
  variable iio_init passes to cb_remove.
\<close>

theorem iio_init_frees_queue_twice:
  assumes "net_open net PROTOCOL_TCP sz n = Some (SUCCESS, i, n1)" "net_bind net i IIOD_PORT n1 = Some (SUCCESS, n2)"
    "net_listen net i MAX_BACKLOG n2 = Some (SUCCESS, n3)" "sz \<noteq> 0"
  shows "iio_init_network tls net (True, True, True, False) s0 (Some \<lparr>max_buff_size = sz, secure_param = None\<rparr>) r n = None"
  using assms
  by (simp add: iio_init_network_def socket_init_def socket_bind_def socket_listen_def cb_init_def Let_def split: Option.bind_split)

theorem iio_init_frees_queue_twice_witness:
  "iio_init_network null_tls plain_net (True, True, True, False) () (Some \<lparr>max_buff_size = 64, secure_param = None\<rparr>)
     no_resources () = None"
  using iio_init_frees_queue_twice [of plain_net 64 "()" 3 "()" "()" "()" null_tls "()" "no_resources"]
  by (simp add: plain_net_def)

end
