(* ===== verification/Spec2Isabelle.thy ===== *)
theory Spec2Isabelle
  imports Circular_Buffer Linked_List Fifo Crc Peripherals Iio Axi_Dmac Axi_Clkgen Spi_Transfer Axi_Dac Iio_Network
begin

text \<open>
  Verification of the portable core of the no-OS framework.

  \<^bold>\<open>The program.\<close> no-OS is a framework of bare-metal drivers. Its own logic is in five layers:
  the utility library (util/), the platform independent dispatch layers of the peripherals
  (drivers/gpio, drivers/spi, drivers/i2c, util/clk.c), the drivers of the FPGA cores
  (drivers/axi_core, over drivers/platform/*/axi_io.c), the network stack over a WiFi module
  on a UART (network/: AT command parser, sockets of the module, TCP and TLS sockets), and the
  IIO server (iio/), which
  exports devices to a host and builds on the list, the circular buffer and the UART.
  The device drivers (drivers/adc, dac, rf-transceiver and so on) use these layers.

  \<^bold>\<open>Theories and sources.\<close>
  \<^item> \<open>NoOS_Prelude\<close>: integer types, the codes of include/error.h, guards for undefined
    behaviour, byte arrays, the C heap with failing allocations, shared lemmas.
  \<^item> \<open>Util\<close>: util/util.c and the macros of include/util.h. The loops are recursive functions
    with termination proofs; greatest_common_divisor is shown to compute the gcd, the bit
    searches, register fields and find_closest their specifications.
  \<^item> \<open>CStdlib\<close>: what the sources use of the C library (strcmp, strtol, strtok, printing), and
    str_to_int32 and srt_to_uint32 of util.c.
  \<^item> \<open>Queue_Interface\<close>: the locale \<open>queue\<close>, the contract of a FIFO, with the client lemmas on
    sequences of operations. Its instances are the circular buffer (\<open>cbq\<close>), the list (\<open>lq\<close>)
    and the fifo (\<open>fq\<close>), each on the model of the code.
  \<^item> \<open>Circular_Buffer\<close>: util/circular_buffer.c. The abstraction \<open>cb_contents\<close> gives the bytes
    a ring holds; blocking reads and writes refine list operations, and any interleaving of
    one writer and one reader on the asynchronous calls is a FIFO (\<open>cb_step\<close>, an inductive
    step relation). The blocking calls are partial functions: \<open>None\<close> is the spin that never
    ends while nobody moves the other side.
  \<^item> \<open>Linked_List\<close>: util/list.c, a doubly linked list in a heap; \<open>list_rep\<close> relates it to a HOL
    list and every operation is a refinement of the list operation, including all adapters
    and the errors of a failed allocation. The locale \<open>f_cmp\<close> is the contract of a comparator.
  \<^item> \<open>Fifo\<close>: util/fifo.c. \<open>Crc\<close>: util/crc8.c, crc16.c, crc24.c; the table driven routines are
    equal to the serial shift register.
  \<^item> \<open>Peripherals\<close>: drivers/gpio/gpio.c, drivers/spi/spi.c, drivers/i2c/i2c.c, util/clk.c; the
    platform function tables are parameters.
  \<^item> \<open>Axi_Io\<close>, \<open>Axi_Dmac\<close>, \<open>Axi_Clkgen\<close>: register access and the drivers of the DMA controller
    and of the clock generator, in the state monad over the hardware, which is a parameter.
    The interrupt handler of the DMA controller runs between the polls of the blocking
    transfer, and its register writes are followed burst by burst. The search for the clock
    dividers is shown to be optimal over the pairs of d and m, each with the output divider the
    code rounds for it (another output divider can be better,
    \<open>axi_clkgen_other_divider_closer\<close>), and setting a rate and reading it back to agree for
    the settings that fit the registers.
  \<^item> \<open>Spi_Queue\<close>, \<open>Spi_Engine\<close>, \<open>Spi_Transfer\<close>: drivers/axi_core/spi_engine. The queue of commands in
    the heap (interpretation \<open>sq\<close> of the contract of a queue), the driver, and its theorems: the
    interpreter of commands is a translation (\<open>emitted\<close>), a transfer is followed register by
    register, and through a core that sends its data back the bytes come back unchanged. The
    offload module runs the DMA controller of \<open>Axi_Dmac\<close>.
  \<^item> \<open>Axi_Adc\<close>: drivers/axi_core/axi_adc_core. The calibration of the input delay is an invariant of
    its scan over the 32 delays: it finds a middle of the longest window when no window is a
    single delay and there are at most five, and is shown to fail otherwise. The correction
    coefficients are accurate to 31 millionths, but for the last 30 fractions, which round up.
  \<^item> \<open>Axi_Dac\<close>: drivers/axi_core/axi_dac_core, over the same bus. \<open>tone_set\<close> says what a tone is in the
    registers and \<open>tone_reads\<close> what the driver reads back of it; the setup of all channels leaves
    every tone readable as configured. The tables of samples are followed word by word.
  \<^item> \<open>At_Parser\<close>, \<open>At_Commands\<close>: network/wifi/at_parser.c. The first holds the receiving half: the
    UART interrupt callback, whose matchers are shown to find the first occurrence of each
    message of the protocol, and the delivery of payload into the circular buffers of the
    connections. The second holds the commands: what is written is shown to decode to what
    was asked for, and waiting, while bytes arrive, to decide on the first response. The module on the line, the
    application behind the callback and the bytes of each millisecond are parameters.
  \<^item> \<open>At_Client\<close>: the contract between the parser and the application behind its connection
    callback, the locale \<open>conn_client\<close>: what the callback keeps, every command and every
    received byte keeps. The postcondition \<open>post\<close> of a run that may be undefined is defined here.
  \<^item> \<open>Wifi\<close>: network/wifi/wifi.c, the client of the parser (interpretation \<open>wc\<close>): sockets over
    the connections of the module, the server with its clients, and the callback that runs
    inside every command. \<open>wifi_ok\<close> is the type invariant of its tables, kept in every history
    (\<open>wifi_reachable\<close>); the received payload of a peer is followed to the socket.
  \<^item> \<open>Tcp_Socket\<close>: network/tcp_socket.c and network_interface.h: TCP and TLS sockets over any
    network interface. The locale \<open>net_provider\<close> is the contract of an interface; \<open>wn\<close>
    interprets it on the interface of wifi.c. The TLS library is a parameter. The theorems
    follow bytes from the UART to socket_recv and account for the resources of a socket: blocks,
    random number generators, TLS contexts and sessions, and sockets of the network.
  \<^item> \<open>Iio_Network\<close>: what iio/iio.c adds with ENABLE_IIO_NETWORK: the queue of clients, kept as the
    bytes of pointers in a circular buffer, is shown to serve them in turn; reading and writing
    through the current client, and starting and stopping the server socket.
  \<^item> \<open>Iio_Device\<close>, \<open>Iio_Xml\<close>, \<open>Iio\<close>: iio/iio.c and iio_types.h. Attributes and value formats of a
    device, the XML description with its two passes, the registry with its invariant
    \<open>iio_rep\<close>, and the operations the protocol library calls, with the path of the data between
    a client and the driver of a device. The callbacks of the device
    drivers are parameters.

  \<^bold>\<open>Conventions.\<close> Errors are values; undefined behaviour and loops that do not end are \<open>None\<close>.
  32 bit arithmetic is on \<open>32 word\<close>. Every allocation may fail. Pointers to heap objects are
  addresses of a heap of one struct type; freed addresses are not reused. No fuel is used:
  loops that end have termination proofs (the timeouts by their counters), the others are
  \<open>partial_function (option)\<close> with separate lemmas that they return.

  \<^bold>\<open>Findings.\<close> Several lemmas show behaviour the code does not mean to have: they are stated
  for the code as it is, for instance \<open>axi_dmac_second_burst_overlaps\<close>, \<open>iio_partial_read_damaged\<close>,
  \<open>axi_adc_delay_calibrate_lone_delay\<close>, \<open>spi_engine_slow_clock_sets_mode\<close>, \<open>spi_engine_long_transfer_undefined\<close>,
  \<open>iio_unregister_never_succeeds\<close>, \<open>iterator_get_last_unset\<close>, \<open>wifi_connect_reports_success\<close>,
  \<open>wifi_bind_close_keeps_server\<close>; \<open>spi_transfer_stops_at_first_error\<close> states a disagreement with
  the header file.

  \<^bold>\<open>Not modelled.\<close> network/linux_socket (calls of the operating system), the other FPGA cores
  (axi_pwmgen, jesd204), the device drivers, the platform drivers, which are thin layers over
  vendor libraries, iio/iio_app, the projects, and the libraries that are submodules (libtinyiiod, mbedtls, mqtt). Concurrency is modelled where the code has it: the
  two ends of the circular buffer, the interrupts of the DMA controller and of the UART, which
  are taken while the code waits.
\<close>

end
